(* ===== verification/Vibex_Prelude.thy ===== *)
theory Vibex_Prelude
  imports Main "HOL-Library.Multiset" "HOL-Library.Product_Lexorder" "HOL-Library.List_Lexorder"
    "HOL-Library.Sublist"
begin

text \<open>
  Shared ground of the development.

  \<^item> Rust strings: a \<open>String\<close> or \<open>&str\<close> is the list of its Unicode scalar values
    (\<open>ustring\<close>), with the operations of \<open>std\<close> the sources use: \<open>trim\<close>,
    \<open>strip_prefix\<close>, \<open>split_once\<close>, \<open>contains\<close>, \<open>eq_ignore_ascii_case\<close>, the byte length
    and the decimal and hexadecimal formatting. A literal is written \<open>lit ''abc''\<close>.
  \<^item> Rust integers: the saturating operations the sources call, on \<open>nat\<close> (u32, u64, usize)
    and \<open>int\<close> (i64), with the limits of the width written out.
  \<^item> Rust vectors: \<open>Iterator::position\<close>, remove-then-insert-at-front, rotation.
\<close>

named_theorems gateway_simps \<open>rewrite rules that open the record-level definitions\<close>

section \<open>Rust strings\<close>

type_synonym uchar = nat
type_synonym ustring = "uchar list"

definition lit :: "string \<Rightarrow> ustring" where
  "lit s = map of_char s"

lemma lit_simps [simp]:
  "lit [] = []"
  "lit (c # cs) = of_char c # lit cs"
  by (simp_all add: lit_def)

lemma lit_eq_iff: "lit s = lit t \<longleftrightarrow> s = t"
  by (simp add: lit_def inj_map_eq_map inj_of_char)

definition is_whitespace :: "uchar \<Rightarrow> bool" where
  "is_whitespace c \<longleftrightarrow>
     9 \<le> c \<and> c \<le> 13 \<or> c = 32 \<or> c = 133 \<or> c = 160 \<or> c = 5760 \<or> 8192 \<le> c \<and> c \<le> 8202 \<or>
     c = 8232 \<or> c = 8233 \<or> c = 8239 \<or> c = 8287 \<or> c = 12288"

definition trim_where :: "(uchar \<Rightarrow> bool) \<Rightarrow> ustring \<Rightarrow> ustring" where
  "trim_where P s = rev (dropWhile P (rev (dropWhile P s)))"

definition trim :: "ustring \<Rightarrow> ustring" where
  "trim = trim_where is_whitespace"

definition is_ascii_digit :: "uchar \<Rightarrow> bool" where
  "is_ascii_digit c \<longleftrightarrow> 48 \<le> c \<and> c \<le> 57"

definition is_ascii_alphanumeric :: "uchar \<Rightarrow> bool" where
  "is_ascii_alphanumeric c \<longleftrightarrow>
     is_ascii_digit c \<or> 65 \<le> c \<and> c \<le> 90 \<or> 97 \<le> c \<and> c \<le> 122"

definition to_ascii_lowercase :: "uchar \<Rightarrow> uchar" where
  "to_ascii_lowercase c = (if 65 \<le> c \<and> c \<le> 90 then c + 32 else c)"

definition eq_ignore_ascii_case :: "ustring \<Rightarrow> ustring \<Rightarrow> bool" where
  "eq_ignore_ascii_case s t \<longleftrightarrow> map to_ascii_lowercase s = map to_ascii_lowercase t"

fun strip_prefix :: "ustring \<Rightarrow> ustring \<Rightarrow> ustring option" where
  "strip_prefix [] s = Some s"
| "strip_prefix (p # ps) [] = None"
| "strip_prefix (p # ps) (c # cs) = (if p = c then strip_prefix ps cs else None)"

definition strip_suffix :: "ustring \<Rightarrow> ustring \<Rightarrow> ustring option" where
  "strip_suffix p s = map_option rev (strip_prefix (rev p) (rev s))"

fun split_once :: "uchar \<Rightarrow> ustring \<Rightarrow> (ustring \<times> ustring) option" where
  "split_once d [] = None"
| "split_once d (c # cs) =
     (if c = d then Some ([], cs)
      else case split_once d cs of None \<Rightarrow> None | Some (a, b) \<Rightarrow> Some (c # a, b))"

fun contains_str :: "ustring \<Rightarrow> ustring \<Rightarrow> bool" where
  "contains_str [] needle = (needle = [])"
| "contains_str (c # cs) needle = (take (length needle) (c # cs) = needle \<or> contains_str cs needle)"

text \<open>The UTF-8 length of a scalar value and of a string (\<open>str::len\<close>).\<close>

definition utf8_len :: "uchar \<Rightarrow> nat" where
  "utf8_len c = (if c < 128 then 1 else if c < 2048 then 2 else if c < 65536 then 3 else 4)"

definition byte_len :: "ustring \<Rightarrow> nat" where
  "byte_len s = sum_list (map utf8_len s)"

text \<open>Formatting: \<open>{}\<close> of an unsigned integer and one hexadecimal digit.\<close>

fun dec_string :: "nat \<Rightarrow> ustring" where
  "dec_string n = (if n < 10 then [48 + n] else dec_string (n div 10) @ [48 + n mod 10])"

declare dec_string.simps [simp del]

definition hex_digit :: "nat \<Rightarrow> uchar" where
  "hex_digit d = (if d < 10 then 48 + d else 87 + d)"


subsection \<open>Facts on the string operations\<close>

lemma strip_prefix_Some_iff: "strip_prefix p s = Some t \<longleftrightarrow> s = p @ t"
  by (induction p s rule: strip_prefix.induct) auto

lemma strip_prefix_append [simp]: "strip_prefix p (p @ t) = Some t"
  by (simp add: strip_prefix_Some_iff)

lemma strip_suffix_Some_iff: "strip_suffix p s = Some t \<longleftrightarrow> s = t @ p"
proof
  assume "strip_suffix p s = Some t"
  then have "rev s = rev p @ rev t"
    by (auto simp: strip_suffix_def strip_prefix_Some_iff)
  then have "rev (rev s) = rev (rev p @ rev t)" by simp
  then show "s = t @ p" by simp
qed (simp add: strip_suffix_def)

lemma split_once_append [simp]: "d \<notin> set a \<Longrightarrow> split_once d (a @ d # b) = Some (a, b)"
  by (induction a) auto

lemma split_once_SomeD: "split_once d s = Some (a, b) \<Longrightarrow> s = a @ d # b \<and> d \<notin> set a"
  by (induction s arbitrary: a b) (fastforce split: if_splits option.splits prod.splits)+

lemma split_once_Some_iff:
  "split_once d s = Some (a, b) \<longleftrightarrow> s = a @ d # b \<and> d \<notin> set a"
  using split_once_SomeD split_once_append by blast

lemma split_once_None_iff: "split_once d s = None \<longleftrightarrow> d \<notin> set s"
  by (induction s) (auto split: option.splits)

lemma contains_str_iff: "contains_str s needle \<longleftrightarrow> sublist needle s"
proof (induction s)
  case Nil
  then show ?case by (simp add: sublist_def)
next
  case (Cons c cs)
  have "take (length needle) (c # cs) = needle \<longleftrightarrow> prefix needle (c # cs)"
    by (metis append_eq_conv_conj append_take_drop_id prefix_def)
  then show ?case by (simp add: Cons sublist_Cons_right)
qed


text \<open>A string is trimmed when neither of its ends is white space.\<close>

definition trimmed :: "ustring \<Rightarrow> bool" where
  "trimmed s \<longleftrightarrow> trim s = s"

lemma trim_where_id: "s \<noteq> [] \<Longrightarrow> \<not> P (hd s) \<Longrightarrow> \<not> P (last s) \<Longrightarrow> trim_where P s = s"
  by (simp add: trim_where_def dropWhile_eq_self_iff [THEN iffD2] hd_rev)

lemma trimmedI: "s \<noteq> [] \<Longrightarrow> \<not> is_whitespace (hd s) \<Longrightarrow> \<not> is_whitespace (last s) \<Longrightarrow> trimmed s"
  by (simp add: trimmed_def trim_def trim_where_id)

lemma trim_Nil [simp]: "trim [] = []"
  by (simp add: trim_def trim_where_def)

lemma trim_where_ends:
  assumes "trim_where P s \<noteq> []"
  shows "\<not> P (hd (trim_where P s))" and "\<not> P (last (trim_where P s))"
proof -
  define t where "t = dropWhile P s"
  have r: "trim_where P s = rev (dropWhile P (rev t))"
    by (simp add: trim_where_def t_def)
  from assms r have ne: "dropWhile P (rev t) \<noteq> []" by simp
  then show "\<not> P (last (trim_where P s))"
    by (metis r hd_dropWhile last_rev)
  obtain k where k: "rev (dropWhile P (rev t)) @ k = t"
    by (metis rev_append rev_rev_ident takeWhile_dropWhile_id)
  then have "hd (trim_where P s) = hd t"
    using ne r by (metis hd_append2 rev_is_Nil_conv)
  moreover have "t \<noteq> []" using ne by auto
  ultimately show "\<not> P (hd (trim_where P s))"
    by (simp add: t_def hd_dropWhile)
qed

lemma trim_trimmed [simp]: "trimmed (trim s)"
proof (cases "trim s = []")
  case False
  then show ?thesis
    using trim_where_ends [of is_whitespace s] by (auto simp: trim_def intro: trimmedI [unfolded trim_def])
qed (simp add: trimmed_def)

lemma trimmed_iff: "trimmed s \<longleftrightarrow> s = [] \<or> \<not> is_whitespace (hd s) \<and> \<not> is_whitespace (last s)"
proof (cases "s = []")
  case False
  with trim_where_ends [of is_whitespace s] trimmedI [of s] show ?thesis
    by (auto simp: trimmed_def trim_def)
qed (simp add: trimmed_def)

lemma trim_idem [simp]: "trim (trim s) = trim s"
  using trim_trimmed by (simp add: trimmed_def)

lemma set_trim_subset: "set (trim s) \<subseteq> set s"
  by (auto simp: trim_def trim_where_def dest!: set_dropWhileD)

lemma trim_eq_Nil_iff: "trim s = [] \<longleftrightarrow> (\<forall>c \<in> set s. is_whitespace c)"
  by (auto simp: trim_def trim_where_def dropWhile_eq_Nil_conv dest: set_dropWhileD)
     (metis dropWhile_eq_Nil_conv hd_dropWhile hd_in_set)

section \<open>Rust integers\<close>

definition U64_MAX :: nat where
  "U64_MAX = 18446744073709551615"

definition I64_MAX :: int where
  "I64_MAX = 9223372036854775807"

definition I64_MIN :: int where
  "I64_MIN = - 9223372036854775808"

definition sat_add_u64 :: "nat \<Rightarrow> nat \<Rightarrow> nat" where
  "sat_add_u64 a b = min (a + b) U64_MAX"

definition clamp_i64 :: "int \<Rightarrow> int" where
  "clamp_i64 x = max I64_MIN (min I64_MAX x)"

definition sat_add_i64 :: "int \<Rightarrow> int \<Rightarrow> int" where
  "sat_add_i64 a b = clamp_i64 (a + b)"

definition sat_sub_i64 :: "int \<Rightarrow> int \<Rightarrow> int" where
  "sat_sub_i64 a b = clamp_i64 (a - b)"

lemma clamp_i64_le_max [simp]: "clamp_i64 x \<le> I64_MAX"
  by (simp add: clamp_i64_def I64_MAX_def I64_MIN_def)

lemma clamp_i64_ge_min [simp]: "I64_MIN \<le> clamp_i64 x"
  by (simp add: clamp_i64_def I64_MAX_def I64_MIN_def)

section \<open>Rust vectors\<close>

text \<open>\<open>Iterator::position\<close>.\<close>

fun position :: "('a \<Rightarrow> bool) \<Rightarrow> 'a list \<Rightarrow> nat option" where
  "position P [] = None"
| "position P (x # xs) = (if P x then Some 0 else map_option Suc (position P xs))"

text \<open>\<open>let x = v.remove(i); v.insert(0, x)\<close>.\<close>

definition move_to_front :: "nat \<Rightarrow> 'a list \<Rightarrow> 'a list" where
  "move_to_front i xs = (case drop i xs of [] \<Rightarrow> xs | x # rest \<Rightarrow> x # take i xs @ rest)"

lemma position_Some_iff:
  "position P xs = Some i \<longleftrightarrow> i < length xs \<and> P (xs ! i) \<and> (\<forall>j < i. \<not> P (xs ! j))"
proof (induction xs arbitrary: i)
  case (Cons x xs)
  then show ?case
    by (cases i) (auto simp: less_Suc_eq_0_disj nth_Cons split: nat.splits)
qed simp

lemma position_None_iff: "position P xs = None \<longleftrightarrow> (\<forall>x \<in> set xs. \<not> P x)"
  by (induction xs) auto

lemma position_exists: "x \<in> set xs \<Longrightarrow> P x \<Longrightarrow> \<exists>i. position P xs = Some i"
  using position_None_iff by fastforce

lemma mset_move_to_front [simp]: "mset (move_to_front i xs) = mset xs"
proof (cases "drop i xs")
  case (Cons x rest)
  then have "mset xs = mset (take i xs) + mset (x # rest)"
    by (metis append_take_drop_id mset_append)
  with Cons show ?thesis by (simp add: move_to_front_def)
qed (simp add: move_to_front_def)

lemma hd_move_to_front: "i < length xs \<Longrightarrow> hd (move_to_front i xs) = xs ! i"
  by (simp add: move_to_front_def Cons_nth_drop_Suc [symmetric])

lemma move_to_front_0 [simp]: "move_to_front 0 xs = xs"
  by (cases xs) (simp_all add: move_to_front_def)

lemma mset_rotate [simp]: "mset (rotate n xs) = mset xs"
  by (metis append_take_drop_id mset_append rotate_drop_take union_commute)

lemma map_filter_mset: "mset (filter P xs) + mset (filter (\<lambda>x. \<not> P x) xs) = mset xs"
  by (induction xs) auto

text \<open>\<open>Vec::dedup\<close>-style accumulation: keep the first occurrence of every element.\<close>

fun push_new :: "'a list \<Rightarrow> 'a list \<Rightarrow> 'a list" where
  "push_new acc [] = acc"
| "push_new acc (x # xs) = (if x \<in> set acc then push_new acc xs else push_new (acc @ [x]) xs)"

lemma set_push_new [simp]: "set (push_new acc xs) = set acc \<union> set xs"
  by (induction acc xs rule: push_new.induct) auto

lemma distinct_push_new [simp]: "distinct acc \<Longrightarrow> distinct (push_new acc xs)"
  by (induction acc xs rule: push_new.induct) auto

lemma push_new_prefix: "prefix acc (push_new acc xs)"
  by (induction acc xs rule: push_new.induct) (auto dest: append_prefixD)

lemma push_new_filter: "distinct xs \<Longrightarrow> push_new acc xs = acc @ filter (\<lambda>x. x \<notin> set acc) xs"
proof (induction acc xs rule: push_new.induct)
  case (2 acc x xs)
  then show ?case by (auto intro: filter_cong)
qed simp

section \<open>Stable sorting\<close>

lemma insort_key_order_cong:
  "\<forall>y \<in> set ys. f x \<le> f y \<longleftrightarrow> g x \<le> g y \<Longrightarrow> insort_key f x ys = insort_key g x ys"
  by (induction ys) auto

lemma sort_key_order_cong:
  "(\<And>x y. x \<in> set xs \<Longrightarrow> y \<in> set xs \<Longrightarrow> f x \<le> f y \<longleftrightarrow> g x \<le> g y) \<Longrightarrow>
   sort_key f xs = sort_key g xs"
proof (induction xs)
  case (Cons x xs)
  have "sort_key f xs = sort_key g xs" by (rule Cons.IH) (simp add: Cons.prems)
  moreover have "insort_key f x (sort_key g xs) = insort_key g x (sort_key g xs)"
    by (rule insort_key_order_cong) (simp add: Cons.prems)
  ultimately show ?case by simp
qed simp

lemma hd_sort_key_least: "x \<in> set xs \<Longrightarrow> f (hd (sort_key f xs)) \<le> f x"
proof -
  assume x: "x \<in> set xs"
  have "sorted (map f (sort_key f xs))" by simp
  moreover have "sort_key f xs \<noteq> []" using x by (metis empty_iff list.set(1) set_sort)
  moreover have "x \<in> set (sort_key f xs)" using x by simp
  ultimately show ?thesis by (cases "sort_key f xs") auto
qed

end
