(* ===== verification/Interfaces.thy ===== *)
theory Interfaces
  imports Vibex_Prelude
begin

text \<open>
  The interfaces the components share, as locales; each is interpreted on the model's own
  definitions in the theory of the component that provides them.

  \<^item> \<open>id_codec\<close>: a closed Rust enum with \<open>ALL\<close>, \<open>id\<close> and
    \<open>from_id\<close>; gives the round trip between values and their stored ids.
  \<^item> \<open>permuting\<close>: a reordering of an attempt list that neither drops nor repeats a
    candidate; gives that no fallback is lost. \<open>partial_order_of\<close> is the weaker
    contract of an order that only selects from its input.
  \<^item> \<open>invariant_machine\<close>: initial states, steps and an invariant; gives that the
    invariant holds in every reachable state.
  Fallible code is a sum type: \<open>vibex_error + 'a\<close>, where a \<open>VibexError::validation\<close> is
  named by its stable code.
\<close>

section \<open>Errors as values\<close>

datatype vibex_error = Validation string

definition reject_if :: "bool \<Rightarrow> string \<Rightarrow> vibex_error + unit" where
  "reject_if bad code = (if bad then Inl (Validation code) else Inr ())"

text \<open>A sequence of checks with early return: the first error, in the order written.\<close>

fun first_err :: "('e + unit) list \<Rightarrow> 'e + unit" where
  "first_err [] = Inr ()"
| "first_err (Inl e # cs) = Inl e"
| "first_err (Inr u # cs) = first_err cs"

lemma first_err_Inr_iff: "first_err cs = Inr () \<longleftrightarrow> (\<forall>c \<in> set cs. c = Inr ())"
  by (induction cs rule: first_err.induct) auto

lemma first_err_append_Inr [simp]:
  "first_err (cs @ ds) = Inr () \<longleftrightarrow> first_err cs = Inr () \<and> first_err ds = Inr ()"
  by (auto simp: first_err_Inr_iff)

lemma first_err_Cons_Inr [simp]:
  "first_err (c # cs) = Inr () \<longleftrightarrow> c = Inr () \<and> first_err cs = Inr ()"
  by (auto simp: first_err_Inr_iff)

lemma first_err_Inl: "first_err cs = Inl e \<Longrightarrow> Inl e \<in> set cs"
  by (induction cs rule: first_err.induct) auto

lemma reject_if_Inr [simp]: "reject_if bad code = Inr () \<longleftrightarrow> \<not> bad"
  by (simp add: reject_if_def)

lemma reject_if_Inl [simp]: "reject_if bad code = Inl e \<longleftrightarrow> bad \<and> e = Validation code"
  by (auto simp: reject_if_def)

text \<open>The \<open>?\<close> operator: go on with a success, return an error at once.\<close>

definition and_then :: "'e + 'a \<Rightarrow> ('a \<Rightarrow> 'e + 'b) \<Rightarrow> 'e + 'b" where
  "and_then r f = (case r of Inl e \<Rightarrow> Inl e | Inr x \<Rightarrow> f x)"

lemma and_then_simps [simp]:
  "and_then (Inl e) f = Inl e"
  "and_then (Inr x) f = f x"
  by (simp_all add: and_then_def)

lemma and_then_Inr: "and_then r f = Inr y \<longleftrightarrow> (\<exists>x. r = Inr x \<and> f x = Inr y)"
  by (cases r) auto

lemma and_then_Inl: "and_then r f = Inl e \<longleftrightarrow> r = Inl e \<or> (\<exists>x. r = Inr x \<and> f x = Inl e)"
  by (cases r) auto

definition ok_or :: "'a option \<Rightarrow> 'e \<Rightarrow> 'e + 'a" where
  "ok_or x e = (case x of None \<Rightarrow> Inl e | Some v \<Rightarrow> Inr v)"

lemma ok_or_Inr [simp]: "ok_or x e = Inr v \<longleftrightarrow> x = Some v"
  by (cases x) (auto simp: ok_or_def)

lemma ok_or_Inl [simp]: "ok_or x e = Inl e' \<longleftrightarrow> x = None \<and> e' = e"
  by (cases x) (auto simp: ok_or_def)

section \<open>Closed enums and their ids\<close>

definition find_id :: "'a list \<Rightarrow> ('a \<Rightarrow> ustring) \<Rightarrow> ustring \<Rightarrow> 'a option" where
  "find_id all id_of v = find (\<lambda>x. id_of x = trim v) all"

locale id_codec =
  fixes all :: "'a list"
    and id_of :: "'a \<Rightarrow> ustring"
  assumes all_complete: "x \<in> set all"
    and ids_distinct: "distinct (map id_of all)"
    and ids_trimmed: "\<forall>x \<in> set all. trimmed (id_of x)"
begin

lemma id_injective: "id_of x = id_of y \<Longrightarrow> x = y"
  using ids_distinct all_complete by (simp add: distinct_map inj_on_def)

lemma id_trimmed: "trimmed (id_of x)"
  using ids_trimmed all_complete by blast

lemma find_id_iff: "find_id all id_of v = Some x \<longleftrightarrow> trim v = id_of x"
proof
  assume "find_id all id_of v = Some x"
  then show "trim v = id_of x" by (auto simp: find_id_def find_Some_iff)
next
  assume v: "trim v = id_of x"
  then have "find (\<lambda>y. id_of y = trim v) all \<noteq> None"
    using all_complete by (auto simp: find_None_iff)
  then show "find_id all id_of v = Some x"
    using v id_injective by (auto simp: find_id_def find_Some_iff)
qed

lemma find_id_round_trip: "find_id all id_of (id_of x) = Some x"
  using id_trimmed by (simp add: find_id_iff trimmed_def)

lemma find_id_None_iff: "find_id all id_of v = None \<longleftrightarrow> (\<forall>x. trim v \<noteq> id_of x)"
  using find_id_iff by (metis not_Some_eq)

end

section \<open>Reorderings of an attempt list\<close>

locale partial_order_of =
  fixes reorder :: "'a list \<Rightarrow> 'a list"
  assumes selects: "mset (reorder xs) \<subseteq># mset xs"
begin

lemma set_selects: "set (reorder xs) \<subseteq> set xs"
  using selects set_mset_mono by fastforce

lemma distinct_selects: "distinct xs \<Longrightarrow> distinct (reorder xs)"
proof -
  assume "distinct xs"
  then have le: "count (mset xs) a \<le> 1" for a
    by (simp add: distinct_count_atmost_1)
  have "count (mset (reorder xs)) a = (if a \<in> set (reorder xs) then 1 else 0)" for a
  proof -
    have "count (mset (reorder xs)) a \<le> 1"
      using le [of a] selects [of xs] by (meson mset_subset_eq_count order_trans)
    moreover have "0 < count (mset (reorder xs)) a \<longleftrightarrow> a \<in> set (reorder xs)"
      by simp
    ultimately show ?thesis by (cases "a \<in> set (reorder xs)") (auto simp: le_Suc_eq)
  qed
  then show ?thesis by (simp add: distinct_count_atmost_1)
qed

end

locale permuting =
  fixes reorder :: "'a list \<Rightarrow> 'a list"
  assumes keeps: "mset (reorder xs) = mset xs"
begin

lemma set_keeps: "set (reorder xs) = set xs"
  by (metis keeps set_mset_mset)

lemma length_keeps: "length (reorder xs) = length xs"
  by (metis keeps size_mset)

lemma empty_keeps: "reorder xs = [] \<longleftrightarrow> xs = []"
  using length_keeps by (metis length_0_conv)

lemma filter_keeps: "mset (filter P (reorder xs)) = mset (filter P xs)"
  by (simp add: keeps mset_filter)

end

sublocale permuting \<subseteq> partial_order_of
  by unfold_locales (simp add: keeps)

section \<open>State machines\<close>

inductive reach :: "('s \<Rightarrow> bool) \<Rightarrow> ('s \<Rightarrow> 's \<Rightarrow> bool) \<Rightarrow> 's \<Rightarrow> bool"
  for init :: "'s \<Rightarrow> bool" and step :: "'s \<Rightarrow> 's \<Rightarrow> bool" where
  reach_init: "init s \<Longrightarrow> reach init step s"
| reach_step: "reach init step s \<Longrightarrow> step s t \<Longrightarrow> reach init step t"

locale invariant_machine =
  fixes init :: "'s \<Rightarrow> bool"
    and step :: "'s \<Rightarrow> 's \<Rightarrow> bool"
    and inv :: "'s \<Rightarrow> bool"
  assumes inv_init: "init s \<Longrightarrow> inv s"
    and inv_step: "inv s \<Longrightarrow> step s t \<Longrightarrow> inv t"
begin

lemma reach_inv: "reach init step s \<Longrightarrow> inv s"
  by (induction rule: reach.induct) (auto intro: inv_init inv_step)

lemma steps_inv: "step\<^sup>*\<^sup>* s t \<Longrightarrow> inv s \<Longrightarrow> inv t"
  by (induction rule: rtranclp_induct) (auto intro: inv_step)

end

end
