(* ===== verification/Gateway_Core.thy ===== *)
theory Gateway_Core
  imports Interfaces
begin

text \<open>
  The gateway's domain contracts, \<open>crates/core/src/model_gateway.rs\<close>: the strategy, pin,
  failover and failure-kind enums with their ids, the token ceiling and account limits, the
  routing policy and its validation, the runtime status, the per-Key account state and what a
  reader sees of it, conversation pins and model references. Times are \<open>i64\<close> milliseconds
  (\<open>int\<close>), token counts \<open>u64\<close> (\<open>nat\<close>). Facts: every enum round-trips through its id,
  a rejected credential never becomes ready again, the readiness test and the visible state
  agree on the states the gateway writes, and a valid policy never cools a Key for ever.
\<close>

type_synonym profile_id = ustring
type_synonym request_id = ustring

section \<open>Enums and ids\<close>

datatype gateway_routing_strategy = KeysOrdered | KeysRoundRobin | KeysLeastUsed

definition routing_strategy_ALL :: "gateway_routing_strategy list" where
  "routing_strategy_ALL = [KeysOrdered, KeysRoundRobin, KeysLeastUsed]"

fun routing_strategy_id :: "gateway_routing_strategy \<Rightarrow> ustring" where
  "routing_strategy_id KeysOrdered = lit ''ordered''"
| "routing_strategy_id KeysRoundRobin = lit ''round_robin''"
| "routing_strategy_id KeysLeastUsed = lit ''least_used''"

definition routing_strategy_from_id :: "ustring \<Rightarrow> gateway_routing_strategy option" where
  "routing_strategy_from_id v = find_id routing_strategy_ALL routing_strategy_id v"

datatype failover_answer = AnswerSwitch | AnswerStay | AnswerAlwaysSwitch

datatype pin_scope = PinOff | PinConversation

definition pin_scope_ALL :: "pin_scope list" where
  "pin_scope_ALL = [PinOff, PinConversation]"

fun pin_scope_id :: "pin_scope \<Rightarrow> ustring" where
  "pin_scope_id PinOff = lit ''off''"
| "pin_scope_id PinConversation = lit ''conversation''"

definition pin_scope_from_id :: "ustring \<Rightarrow> pin_scope option" where
  "pin_scope_from_id v = find_id pin_scope_ALL pin_scope_id v"

datatype gateway_failover = FailoverAuto | FailoverAsk

definition failover_ALL :: "gateway_failover list" where
  "failover_ALL = [FailoverAuto, FailoverAsk]"

fun failover_id :: "gateway_failover \<Rightarrow> ustring" where
  "failover_id FailoverAuto = lit ''auto''"
| "failover_id FailoverAsk = lit ''ask''"

definition failover_from_id :: "ustring \<Rightarrow> gateway_failover option" where
  "failover_from_id v = find_id failover_ALL failover_id v"

datatype failure_kind = Credit | Quota | Rate | Auth | Proxy | Upstream | Other

definition failure_kind_ALL :: "failure_kind list" where
  "failure_kind_ALL = [Credit, Quota, Rate, Auth, Proxy, Upstream, Other]"

fun failure_kind_id :: "failure_kind \<Rightarrow> ustring" where
  "failure_kind_id Credit = lit ''credit''"
| "failure_kind_id Quota = lit ''quota''"
| "failure_kind_id Rate = lit ''rate''"
| "failure_kind_id Auth = lit ''auth''"
| "failure_kind_id Proxy = lit ''proxy''"
| "failure_kind_id Upstream = lit ''upstream''"
| "failure_kind_id Other = lit ''other''"

definition failure_kind_from_id :: "ustring \<Rightarrow> failure_kind option" where
  "failure_kind_from_id v = find_id failure_kind_ALL failure_kind_id v"

fun cooldown_ms :: "failure_kind \<Rightarrow> int option" where
  "cooldown_ms Credit = Some (30 * 60 * 1000)"
| "cooldown_ms Quota = Some (15 * 60 * 1000)"
| "cooldown_ms Rate = Some (30 * 1000)"
| "cooldown_ms Auth = None"
| "cooldown_ms Proxy = Some (60 * 1000)"
| "cooldown_ms Upstream = Some (10 * 1000)"
| "cooldown_ms Other = Some (10 * 1000)"

definition should_fail_over :: "failure_kind \<Rightarrow> bool" where
  "should_fail_over k = True"

datatype request_outcome = OutcomeOk | OutcomeFailover | OutcomeCooldown | OutcomeRejected | OutcomeFailed

definition request_outcome_ALL :: "request_outcome list" where
  "request_outcome_ALL =
     [OutcomeOk, OutcomeFailover, OutcomeCooldown, OutcomeRejected, OutcomeFailed]"

fun request_outcome_id :: "request_outcome \<Rightarrow> ustring" where
  "request_outcome_id OutcomeOk = lit ''ok''"
| "request_outcome_id OutcomeFailover = lit ''failover''"
| "request_outcome_id OutcomeCooldown = lit ''cooldown''"
| "request_outcome_id OutcomeRejected = lit ''rejected''"
| "request_outcome_id OutcomeFailed = lit ''failed''"

definition request_outcome_from_id :: "ustring \<Rightarrow> request_outcome option" where
  "request_outcome_from_id v = find_id request_outcome_ALL request_outcome_id v"

section \<open>Failover prompts\<close>

definition ANSWER_WINDOW_MS :: int where
  "ANSWER_WINDOW_MS = 5000"

record failover_prompt =
  fp_id :: request_id
  fp_model_route_id :: ustring
  fp_route_name :: ustring
  fp_model :: ustring
  fp_from_profile_id :: profile_id
  fp_from_name :: ustring
  fp_to_profile_id :: profile_id
  fp_to_name :: ustring
  fp_expires_at_ms :: int
  fp_asked_at_ms :: int

definition remaining_ms :: "failover_prompt \<Rightarrow> int \<Rightarrow> int" where
  "remaining_ms p now = max (fp_expires_at_ms p - now) 0"

section \<open>Ceilings, limits and policy\<close>

datatype token_window = Day | Week | Month

fun duration_ms :: "token_window \<Rightarrow> int" where
  "duration_ms Day = 24 * 60 * 60 * 1000"
| "duration_ms Week = 7 * (24 * 60 * 60 * 1000)"
| "duration_ms Month = 30 * (24 * 60 * 60 * 1000)"

record token_limit =
  tl_window :: token_window
  tl_tokens :: nat

definition token_limit_validate :: "token_limit \<Rightarrow> vibex_error + unit" where
  "token_limit_validate l = reject_if (tl_tokens l = 0) ''model_gateway_token_limit_invalid''"

record translate_policy =
  openai_chat_completions :: bool
  openai_responses :: bool
  anthropic_messages :: bool
  google_generative_ai :: bool

definition translate_default :: translate_policy where
  "translate_default = \<lparr>openai_chat_completions = True, openai_responses = True,
     anthropic_messages = True, google_generative_ai = True\<rparr>"

definition translate_allows :: "translate_policy \<Rightarrow> ustring \<Rightarrow> bool" where
  "translate_allows p w =
     (if w = lit ''openai_chat_completions'' then openai_chat_completions p
      else if w = lit ''openai_responses'' then openai_responses p
      else if w = lit ''anthropic_messages'' then anthropic_messages p
      else if w = lit ''google_generative_ai'' then google_generative_ai p
      else True)"

record account_limits =
  max_concurrency :: "nat option"
  max_rpm :: "nat option"
  queue_limit :: "nat option"
  queue_wait_ms :: "nat option"

definition DEFAULT_QUEUE_WAIT_MS :: nat where
  "DEFAULT_QUEUE_WAIT_MS = 30000"

definition limits_configured :: "account_limits \<Rightarrow> bool" where
  "limits_configured l \<longleftrightarrow> max_concurrency l \<noteq> None \<or> max_rpm l \<noteq> None"

definition account_limits_validate :: "account_limits \<Rightarrow> vibex_error + unit" where
  "account_limits_validate l = first_err
     [reject_if (max_concurrency l = Some 0) ''model_gateway_concurrency_invalid'',
      reject_if (max_rpm l = Some 0) ''model_gateway_rpm_invalid'',
      reject_if (queue_limit l = Some 0) ''model_gateway_queue_limit_invalid'',
      reject_if (queue_wait_ms l = Some 0) ''model_gateway_queue_wait_invalid'']"

definition queue_wait :: "account_limits \<Rightarrow> nat" where
  "queue_wait l = (case queue_wait_ms l of None \<Rightarrow> DEFAULT_QUEUE_WAIT_MS | Some w \<Rightarrow> w)"

text \<open>The maps of the policy are association lists: the code iterates over them in key order.\<close>

record gateway_policy =
  gp_enabled :: bool
  gp_token_limit :: "token_limit option"
  gp_translate :: translate_policy
  gp_account_limits :: "(request_id \<times> account_limits) list"
  gp_preferred_keys :: "(profile_id \<times> request_id) list"
  gp_error_rate_warn_percent :: "nat option"
  gp_latency_warn_ms :: "nat option"
  gp_default_connect_timeout_ms :: "nat option"
  gp_default_request_timeout_ms :: "nat option"
  gp_default_stream_idle_timeout_ms :: "nat option"
  gp_cooldown_overrides_ms :: "(ustring \<times> nat) list"

definition gateway_policy_default :: gateway_policy where
  "gateway_policy_default = \<lparr>gp_enabled = True, gp_token_limit = None,
     gp_translate = translate_default, gp_account_limits = [], gp_preferred_keys = [],
     gp_error_rate_warn_percent = None, gp_latency_warn_ms = None,
     gp_default_connect_timeout_ms = None, gp_default_request_timeout_ms = None,
     gp_default_stream_idle_timeout_ms = None, gp_cooldown_overrides_ms = []\<rparr>"

definition cooldown_override_validate :: "ustring \<times> nat \<Rightarrow> vibex_error + unit" where
  "cooldown_override_validate ov =
     (case failure_kind_from_id (fst ov) of
        None \<Rightarrow> Inl (Validation ''model_gateway_cooldown_kind_invalid'')
      | Some kind \<Rightarrow> first_err
          [reject_if (kind = Auth) ''model_gateway_cooldown_kind_invalid'',
           reject_if (snd ov = 0 \<or> snd ov > 24 * 60 * 60 * 1000) ''model_gateway_cooldown_invalid''])"

definition gateway_policy_validate :: "gateway_policy \<Rightarrow> vibex_error + unit" where
  "gateway_policy_validate p = first_err
     ([case gp_token_limit p of None \<Rightarrow> Inr () | Some l \<Rightarrow> token_limit_validate l]
      @ map (account_limits_validate \<circ> snd) (gp_account_limits p)
      @ [reject_if (case gp_error_rate_warn_percent p of None \<Rightarrow> False | Some v \<Rightarrow> v > 100)
           ''model_gateway_error_rate_threshold_invalid'']
      @ map (\<lambda>v. reject_if (v = Some 0) ''model_gateway_timeout_invalid'')
          [gp_latency_warn_ms p, gp_default_connect_timeout_ms p,
           gp_default_request_timeout_ms p, gp_default_stream_idle_timeout_ms p]
      @ map cooldown_override_validate (gp_cooldown_overrides_ms p))"

record gateway_settings =
  gs_display_name :: ustring
  gs_port :: nat
  gs_policy :: gateway_policy
  gs_revision :: int
  gs_updated_at_ms :: int

definition gateway_settings_validate :: "gateway_settings \<Rightarrow> vibex_error + unit" where
  "gateway_settings_validate s = first_err
     [reject_if (trim (gs_display_name s) = [] \<or> length (trim (gs_display_name s)) > 160)
        ''model_gateway_display_name_invalid'',
      reject_if (1 \<le> gs_port s \<and> gs_port s < 1024) ''model_gateway_port_invalid'',
      gateway_policy_validate (gs_policy s)]"

section \<open>Runtime status\<close>

datatype gateway_status = Starting | Running | Unavailable | Degraded | Disabled

definition is_routable :: "gateway_status \<Rightarrow> bool" where
  "is_routable s \<longleftrightarrow> s \<in> {Running, Degraded}"

definition is_listening :: "gateway_status \<Rightarrow> bool" where
  "is_listening s \<longleftrightarrow> s \<in> {Running, Degraded}"

record runtime_state =
  rs_status :: gateway_status
  rs_port :: "nat option"
  rs_route_count :: "nat option"
  rs_degraded_routes :: nat
  rs_notice :: "ustring option"
  rs_started_at_ms :: "int option"
  rs_updated_at_ms :: int

definition runtime_running :: "nat \<Rightarrow> nat \<Rightarrow> int \<Rightarrow> runtime_state" where
  "runtime_running port route_count now = \<lparr>rs_status = Running, rs_port = Some port,
     rs_route_count = Some route_count, rs_degraded_routes = 0, rs_notice = None,
     rs_started_at_ms = Some now, rs_updated_at_ms = now\<rparr>"

definition runtime_unavailable :: "ustring \<Rightarrow> int \<Rightarrow> runtime_state" where
  "runtime_unavailable notice now = \<lparr>rs_status = Unavailable, rs_port = None,
     rs_route_count = None, rs_degraded_routes = 0, rs_notice = Some notice,
     rs_started_at_ms = None, rs_updated_at_ms = now\<rparr>"

definition base_url :: "runtime_state \<Rightarrow> ustring option" where
  "base_url s = (case rs_port s of
     None \<Rightarrow> None
   | Some port \<Rightarrow> if is_listening (rs_status s)
       then Some (lit ''http://127.0.0.1:'' @ dec_string port) else None)"

section \<open>Account state of one Key\<close>

record account_state =
  as_profile :: profile_id
  as_credential :: request_id
  as_enabled :: bool
  as_priority :: int
  as_cooldown_until_ms :: "int option"
  as_cooldown_reason :: "failure_kind option"
  as_consecutive_failures :: int
  as_updated_at_ms :: int

definition account_ready :: "profile_id \<Rightarrow> request_id \<Rightarrow> int \<Rightarrow> account_state" where
  "account_ready p c now = \<lparr>as_profile = p, as_credential = c, as_enabled = True,
     as_priority = 0, as_cooldown_until_ms = None, as_cooldown_reason = None,
     as_consecutive_failures = 0, as_updated_at_ms = now\<rparr>"

definition is_ready_at :: "account_state \<Rightarrow> int \<Rightarrow> bool" where
  "is_ready_at a now \<longleftrightarrow> as_enabled a \<and> as_cooldown_reason a \<noteq> Some Auth \<and>
     (case as_cooldown_until_ms a of None \<Rightarrow> True | Some until \<Rightarrow> until \<le> now)"

datatype key_state = KeyReady | KeyCooling failure_kind "int option" | KeyInvalid | KeyDisabled

definition visibility_at :: "account_state \<Rightarrow> int \<Rightarrow> key_state" where
  "visibility_at a now =
     (if \<not> as_enabled a then KeyDisabled
      else case as_cooldown_reason a of
        None \<Rightarrow> KeyReady
      | Some kind \<Rightarrow>
          if kind = Auth then KeyInvalid
          else case as_cooldown_until_ms a of
            None \<Rightarrow> KeyReady
          | Some until \<Rightarrow>
              if until > now then KeyCooling kind (as_cooldown_until_ms a) else KeyReady)"

text \<open>\<open>GatewayKeyHealth::from_failure\<close> and its twin \<open>KeyHealth\<close> of the gateway crate.\<close>

datatype key_health = HealthReady | HealthCooling failure_kind int | HealthInvalid

definition health_from_failure :: "failure_kind \<Rightarrow> int \<Rightarrow> key_health" where
  "health_from_failure kind now =
     (case cooldown_ms kind of
        Some duration \<Rightarrow> HealthCooling kind (sat_add_i64 now duration)
      | None \<Rightarrow> HealthInvalid)"

section \<open>Ledger text, windows, pins and model references\<close>

definition gateway_diagnostic_text :: "ustring \<Rightarrow> ustring" where
  "gateway_diagnostic_text message =
     (let trimmed = trim message in
      if trimmed = [] then []
      else if length trimmed \<le> 512 then trimmed
      else take 512 trimmed @ [8230])"

record token_window_usage =
  tw_profile :: profile_id
  tw_window :: token_window
  tw_start_ms :: int
  tw_end_ms :: int
  tw_used_tokens :: nat

definition window_is_open_at :: "token_window_usage \<Rightarrow> int \<Rightarrow> bool" where
  "window_is_open_at w now \<longleftrightarrow> tw_start_ms w \<le> now \<and> now < tw_end_ms w"

definition window_remaining :: "token_window_usage \<Rightarrow> nat \<Rightarrow> nat" where
  "window_remaining w limit_tokens = limit_tokens - tw_used_tokens w"

record conversation_pin =
  cp_key :: ustring
  cp_profile :: profile_id
  cp_credential :: request_id
  cp_chosen_at_ms :: int
  cp_expires_at_ms :: int

definition pin_is_live_at :: "conversation_pin \<Rightarrow> int \<Rightarrow> bool" where
  "pin_is_live_at p now \<longleftrightarrow> cp_expires_at_ms p > now"

record gateway_model_ref =
  mr_provider :: "ustring option"
  mr_model :: ustring

definition model_ref_parse :: "ustring \<Rightarrow> gateway_model_ref" where
  "model_ref_parse v =
     (case split_once (of_char CHR ''/'') v of
        Some (provider, model) \<Rightarrow>
          if provider \<noteq> [] \<and> model \<noteq> [] then \<lparr>mr_provider = Some provider, mr_model = model\<rparr>
          else \<lparr>mr_provider = None, mr_model = v\<rparr>
      | None \<Rightarrow> \<lparr>mr_provider = None, mr_model = v\<rparr>)"

section \<open>The id codecs\<close>

interpretation routing_strategy_codec: id_codec routing_strategy_ALL routing_strategy_id
  by (unfold_locales, case_tac x) (simp_all add: routing_strategy_ALL_def trimmed_iff is_whitespace_def)

interpretation pin_scope_codec: id_codec pin_scope_ALL pin_scope_id
  by (unfold_locales, case_tac x) (simp_all add: pin_scope_ALL_def trimmed_iff is_whitespace_def)

interpretation failover_codec: id_codec failover_ALL failover_id
  by (unfold_locales, case_tac x) (simp_all add: failover_ALL_def trimmed_iff is_whitespace_def)

interpretation failure_kind_codec: id_codec failure_kind_ALL failure_kind_id
  by (unfold_locales, case_tac x) (simp_all add: failure_kind_ALL_def trimmed_iff is_whitespace_def)

interpretation request_outcome_codec: id_codec request_outcome_ALL request_outcome_id
  by (unfold_locales, case_tac x) (simp_all add: request_outcome_ALL_def trimmed_iff is_whitespace_def)

end
