(* ===== verification/Model_Route.thy ===== *)
theory Model_Route
  imports Gateway_Core
begin

text \<open>
  Reusable model routes, \<open>crates/core/src/model_route.rs\<close>: the route, its members, its rules
  and their validation, the matching of a request against the rules, the ids
  \<open>group/<route>/<model>\<close> a request is addressed by. Facts: \<open>validate\<close> accepts exactly the routes of a declarative specification;
  an accepted group answers to the id it publishes and to no other model name; a time window is
  a half-open cyclic interval; the first matching rule is the least one.
\<close>

type_synonym route_id = ustring
type_synonym member_id = ustring

section \<open>Route kinds and strategies\<close>

definition MAX_ROUTE_MEMBERS :: nat where
  "MAX_ROUTE_MEMBERS = 16"

definition MAX_ROUTE_LEVELS :: nat where
  "MAX_ROUTE_LEVELS = 8"

definition MAX_ROUTE_PATIENCE_MS :: nat where
  "MAX_ROUTE_PATIENCE_MS = 240000"

definition ROUTE_GROUP_MODEL_PREFIX :: ustring where
  "ROUTE_GROUP_MODEL_PREFIX = lit ''group/''"

datatype route_kind = ModelGroup | Direct

fun route_kind_id :: "route_kind \<Rightarrow> ustring" where
  "route_kind_id ModelGroup = lit ''model_group''"
| "route_kind_id Direct = lit ''direct''"

definition route_kind_from_id :: "ustring \<Rightarrow> route_kind option" where
  "route_kind_from_id v =
     (if trim v = lit ''provider_group'' \<or> trim v = lit ''model_group'' then Some ModelGroup
      else if trim v = lit ''direct'' then Some Direct else None)"

definition via_gateway :: "route_kind \<Rightarrow> bool" where
  "via_gateway k \<longleftrightarrow> k = ModelGroup"

fun member_limit :: "route_kind \<Rightarrow> nat" where
  "member_limit ModelGroup = MAX_ROUTE_MEMBERS"
| "member_limit Direct = 1"

datatype route_strategy = Ordered | RoundRobin | LeastUsed | Smart | LowestLatency | Weighted | Manual

definition route_strategy_ALL :: "route_strategy list" where
  "route_strategy_ALL = [Ordered, RoundRobin, LeastUsed, Smart, LowestLatency, Weighted, Manual]"

fun route_strategy_id :: "route_strategy \<Rightarrow> ustring" where
  "route_strategy_id Ordered = lit ''ordered''"
| "route_strategy_id RoundRobin = lit ''round_robin''"
| "route_strategy_id LeastUsed = lit ''least_used''"
| "route_strategy_id Smart = lit ''smart''"
| "route_strategy_id LowestLatency = lit ''lowest_latency''"
| "route_strategy_id Weighted = lit ''weighted''"
| "route_strategy_id Manual = lit ''manual''"

definition route_strategy_from_id :: "ustring \<Rightarrow> route_strategy option" where
  "route_strategy_from_id v = find_id route_strategy_ALL route_strategy_id v"

datatype route_status = Enabled | StatusDisabled

definition route_status_ALL :: "route_status list" where
  "route_status_ALL = [Enabled, StatusDisabled]"

fun route_status_id :: "route_status \<Rightarrow> ustring" where
  "route_status_id Enabled = lit ''enabled''"
| "route_status_id StatusDisabled = lit ''disabled''"

definition route_status_from_id :: "ustring \<Rightarrow> route_status option" where
  "route_status_from_id v = find_id route_status_ALL route_status_id v"

interpretation route_strategy_codec: id_codec route_strategy_ALL route_strategy_id
  by (unfold_locales, case_tac x) (simp_all add: route_strategy_ALL_def trimmed_iff is_whitespace_def)

interpretation route_status_codec: id_codec route_status_ALL route_status_id
  by (unfold_locales, case_tac x) (simp_all add: route_status_ALL_def trimmed_iff is_whitespace_def)

section \<open>Members\<close>

definition DEFAULT_MEMBER_WEIGHT :: nat where
  "DEFAULT_MEMBER_WEIGHT = 1"

definition MAX_MEMBER_WEIGHT :: nat where
  "MAX_MEMBER_WEIGHT = 100"

record route_member =
  rm_id :: member_id
  rm_profile :: profile_id
  rm_model_id :: ustring
  rm_enabled :: bool
  rm_order_index :: int
  rm_reasoning_effort :: "ustring option"
  rm_weight :: nat
  rm_context_tokens :: "nat option"
  rm_first_token_timeout_ms :: "nat option"

definition member_new :: "member_id \<Rightarrow> profile_id \<Rightarrow> ustring \<Rightarrow> int \<Rightarrow> route_member" where
  "member_new fresh_id p model order = \<lparr>rm_id = fresh_id, rm_profile = p, rm_model_id = model,
     rm_enabled = True, rm_order_index = order, rm_reasoning_effort = None,
     rm_weight = DEFAULT_MEMBER_WEIGHT, rm_context_tokens = None,
     rm_first_token_timeout_ms = None\<rparr>"

definition names_model :: "route_member \<Rightarrow> bool" where
  "names_model m \<longleftrightarrow> trim (rm_model_id m) \<noteq> []"

text \<open>\<open>let s = s.trim(); s.is_empty() || s.chars().count() > n\<close>.\<close>

definition bad_text :: "nat \<Rightarrow> ustring \<Rightarrow> bool" where
  "bad_text n s \<longleftrightarrow> trim s = [] \<or> length (trim s) > n"

definition bad_opt_text :: "nat \<Rightarrow> ustring option \<Rightarrow> bool" where
  "bad_opt_text n v \<longleftrightarrow> (case v of None \<Rightarrow> False | Some s \<Rightarrow> bad_text n s)"

definition member_validate :: "route_member \<Rightarrow> vibex_error + unit" where
  "member_validate m = first_err
     [reject_if (rm_order_index m < 0) ''route_member_order_invalid'',
      reject_if (rm_weight m = 0 \<or> rm_weight m > MAX_MEMBER_WEIGHT) ''route_member_weight_invalid'',
      reject_if (rm_context_tokens m = Some 0) ''route_member_context_invalid'',
      reject_if (rm_first_token_timeout_ms m = Some 0) ''route_member_first_token_timeout_invalid'',
      reject_if (bad_opt_text 64 (rm_reasoning_effort m)) ''route_member_effort_invalid'']"

definition member_validate_model :: "route_member \<Rightarrow> vibex_error + unit" where
  "member_validate_model m = first_err
     [reject_if (trim (rm_model_id m) = []) ''route_member_model_invalid'',
      reject_if (length (trim (rm_model_id m)) > 256) ''route_member_model_invalid'']"

section \<open>Time windows\<close>

record time_window =
  tw_days :: "nat list"
  tw_start_minute :: nat
  tw_end_minute :: nat
  tw_zone :: "ustring option"

fun check_days :: "nat list \<Rightarrow> nat list \<Rightarrow> vibex_error + unit" where
  "check_days seen [] = Inr ()"
| "check_days seen (d # ds) =
     (if \<not> (1 \<le> d \<and> d \<le> 7) then Inl (Validation ''route_rule_time_day_invalid'')
      else if d \<in> set seen then Inl (Validation ''route_rule_time_day_duplicate'')
      else check_days (seen @ [d]) ds)"

definition time_window_validate :: "time_window \<Rightarrow> vibex_error + unit" where
  "time_window_validate w = first_err
     [reject_if (tw_days w = []) ''route_rule_time_days_missing'',
      check_days [] (tw_days w),
      reject_if (tw_start_minute w \<ge> 24 * 60 \<or> tw_end_minute w \<ge> 24 * 60) ''route_rule_time_minute_invalid'',
      reject_if (tw_start_minute w = tw_end_minute w) ''route_rule_time_empty'',
      reject_if (bad_opt_text 64 (tw_zone w)) ''route_rule_time_zone_invalid'']"

definition time_window_contains :: "time_window \<Rightarrow> nat \<Rightarrow> nat \<Rightarrow> bool" where
  "time_window_contains w day minute =
     (if day \<notin> set (tw_days w) then False
      else if tw_start_minute w \<le> tw_end_minute w
      then minute \<ge> tw_start_minute w \<and> minute < tw_end_minute w
      else minute \<ge> tw_start_minute w \<or> minute < tw_end_minute w)"

section \<open>Rules\<close>

record route_rule =
  rr_id :: ustring
  rr_use_member_id :: "member_id option"
  rr_more_member_ids :: "member_id list"
  rr_use_effort :: "ustring option"
  rr_tokens_min :: "nat option"
  rr_images :: "bool option"
  rr_effort :: "ustring option"
  rr_agents :: "ustring list"
  rr_intent :: "ustring option"
  rr_compact :: "bool option"
  rr_time :: "time_window option"
  rr_folders :: "ustring list"
  rr_except_folders :: "ustring list"
  rr_pause :: bool

definition has_condition :: "route_rule \<Rightarrow> bool" where
  "has_condition r \<longleftrightarrow> rr_tokens_min r \<noteq> None \<or> rr_images r \<noteq> None \<or> rr_effort r \<noteq> None \<or>
     rr_agents r \<noteq> [] \<or> rr_intent r \<noteq> None \<or> rr_compact r \<noteq> None \<or> rr_time r \<noteq> None \<or>
     rr_folders r \<noteq> [] \<or> rr_except_folders r \<noteq> []"

definition selects_member :: "route_rule \<Rightarrow> bool" where
  "selects_member r \<longleftrightarrow> rr_use_member_id r \<noteq> None"

fun check_more :: "member_id list \<Rightarrow> member_id option \<Rightarrow> member_id list \<Rightarrow> member_id list
    \<Rightarrow> vibex_error + unit" where
  "check_more ids starter seen [] = Inr ()"
| "check_more ids starter seen (m # ms) =
     (if m \<notin> set ids then Inl (Validation ''route_rule_member_unknown'')
      else if starter = Some m \<or> m \<in> set seen then Inl (Validation ''route_rule_member_duplicate'')
      else check_more ids starter (seen @ [m]) ms)"

definition rule_validate :: "route_rule \<Rightarrow> member_id list \<Rightarrow> vibex_error + unit" where
  "rule_validate r ids = first_err
     ([reject_if (bad_text 128 (rr_id r)) ''route_rule_id_invalid'',
       reject_if (\<not> has_condition r) ''route_rule_condition_missing'',
       (case rr_time r of None \<Rightarrow> Inr () | Some w \<Rightarrow> time_window_validate w),
       reject_if (case rr_use_member_id r of None \<Rightarrow> False | Some m \<Rightarrow> m \<notin> set ids)
         ''route_rule_member_unknown'',
       check_more ids (rr_use_member_id r) [] (rr_more_member_ids r),
       reject_if (bad_opt_text 64 (rr_use_effort r)) ''route_rule_effort_invalid'']
      @ (if rr_pause r
         then [reject_if (selects_member r \<or> rr_more_member_ids r \<noteq> [] \<or> rr_use_effort r \<noteq> None)
                 ''route_rule_pause_action_invalid'']
         else [reject_if (\<not> selects_member r) ''route_rule_member_missing'',
               reject_if (case rr_intent r of None \<Rightarrow> False | Some i \<Rightarrow> trim i = [])
                 ''route_rule_intent_invalid''])
      @ map (\<lambda>a. reject_if (trim a = [] \<or> length a > 128) ''route_rule_agent_invalid'') (rr_agents r)
      @ map (\<lambda>f. reject_if (trim f = [] \<or> length f > 512) ''route_rule_folder_invalid'')
          (rr_folders r @ rr_except_folders r))"

record rule_context =
  rc_agent_id :: "ustring option"
  rc_context_tokens :: "nat option"
  rc_has_images :: bool
  rc_requested_effort :: "ustring option"
  rc_compact :: bool
  rc_intent :: "ustring option"
  rc_workspace_root :: "ustring option"
  rc_local_weekday :: "nat option"
  rc_local_minute :: "nat option"

definition rule_matches :: "route_rule \<Rightarrow> rule_context \<Rightarrow> bool" where
  "rule_matches r c \<longleftrightarrow>
     (rr_agents r = [] \<or>
        (case rc_agent_id c of None \<Rightarrow> False | Some a \<Rightarrow> \<exists>g \<in> set (rr_agents r). trim g = a)) \<and>
     (case rr_tokens_min r of None \<Rightarrow> True
      | Some n \<Rightarrow> (case rc_context_tokens c of None \<Rightarrow> False | Some t \<Rightarrow> \<not> t < n)) \<and>
     (case rr_images r of None \<Rightarrow> True | Some i \<Rightarrow> i = rc_has_images c) \<and>
     (case rr_effort r of None \<Rightarrow> True
      | Some e \<Rightarrow> (case rc_requested_effort c of None \<Rightarrow> False
                 | Some q \<Rightarrow> eq_ignore_ascii_case q (trim e))) \<and>
     (case rr_compact r of None \<Rightarrow> True | Some b \<Rightarrow> b = rc_compact c) \<and>
     (case rr_intent r of None \<Rightarrow> True
      | Some i \<Rightarrow> (case rc_intent c of None \<Rightarrow> False
                 | Some a \<Rightarrow> eq_ignore_ascii_case a (trim i))) \<and>
     (case rr_time r of None \<Rightarrow> True
      | Some w \<Rightarrow> (case (rc_local_weekday c, rc_local_minute c) of
            (Some day, Some minute) \<Rightarrow>
              (case tw_zone w of None \<Rightarrow> True
               | Some z \<Rightarrow> eq_ignore_ascii_case (trim z) (lit ''local'')) \<and>
              time_window_contains w day minute
          | _ \<Rightarrow> False)) \<and>
     (rr_folders r = [] \<or>
        (case rc_workspace_root c of None \<Rightarrow> False
         | Some root \<Rightarrow> \<exists>f \<in> set (rr_folders r). contains_str root (trim f))) \<and>
     \<not> (\<exists>f \<in> set (rr_except_folders r).
         (case rc_workspace_root c of None \<Rightarrow> False | Some root \<Rightarrow> contains_str root (trim f)))"

definition first_matching_rule :: "route_rule list \<Rightarrow> rule_context \<Rightarrow> (nat \<times> route_rule) option" where
  "first_matching_rule rs c = find (\<lambda>(i, r). rule_matches r c) (enumerate 0 rs)"

section \<open>Routes\<close>

record model_route =
  mo_id :: route_id
  mo_display_name :: ustring
  mo_description :: "ustring option"
  mo_kind :: route_kind
  mo_members :: "route_member list"
  mo_strategy :: route_strategy
  mo_agent_model_id :: "ustring option"
  mo_rules :: "route_rule list"
  mo_classifier :: "ustring option"
  mo_effort :: "ustring option"
  mo_patience_ms :: "nat option"
  mo_sink :: bool
  mo_unlists :: bool
  mo_levels :: "ustring list"
  mo_pick_member_id :: "member_id option"
  mo_first_token_timeout_ms :: "nat option"
  mo_context_tokens :: "nat option"
  mo_pin :: pin_scope
  mo_failover :: gateway_failover
  mo_token_limit :: "token_limit option"
  mo_status :: route_status
  mo_revision :: int
  mo_created_at_ms :: int
  mo_updated_at_ms :: int
  mo_deleted_at_ms :: "int option"

definition enabled_members :: "model_route \<Rightarrow> route_member list" where
  "enabled_members r = filter rm_enabled (mo_members r)"

definition is_model_group :: "model_route \<Rightarrow> bool" where
  "is_model_group r \<longleftrightarrow> mo_kind r = ModelGroup"

definition agent_model :: "model_route \<Rightarrow> ustring option" where
  "agent_model r = (case mo_agent_model_id r of
     None \<Rightarrow> None | Some m \<Rightarrow> if trim m = [] then None else Some (trim m))"

definition distinct_models :: "model_route \<Rightarrow> ustring list" where
  "distinct_models r =
     (if is_model_group r then (case agent_model r of None \<Rightarrow> [] | Some m \<Rightarrow> [m])
      else push_new [] (map rm_model_id (filter names_model (enabled_members r))))"

definition sync_agent_model_id :: "model_route \<Rightarrow> model_route" where
  "sync_agent_model_id r = r\<lparr>mo_agent_model_id :=
     (if is_model_group r then Some (trim (mo_display_name r)) else None)\<rparr>"

definition source_count :: "model_route \<Rightarrow> nat" where
  "source_count r = length (enabled_members r)"

definition route_model_id :: "model_route \<Rightarrow> ustring" where
  "route_model_id r = ROUTE_GROUP_MODEL_PREFIX @ mo_id r @ lit ''/''"

definition group_model_id :: "model_route \<Rightarrow> ustring \<Rightarrow> ustring" where
  "group_model_id r model = route_model_id r @ trim_where (\<lambda>c. c = of_char CHR ''/'') (trim model)"

definition gateway_model_id :: "model_route \<Rightarrow> ustring option" where
  "gateway_model_id r = map_option (group_model_id r) (agent_model r)"

text \<open>\<open>RouteGroupModelRef\<close> is the pair of the group id and the model id.\<close>

definition route_group_model_ref :: "ustring \<Rightarrow> (ustring \<times> ustring) option" where
  "route_group_model_ref requested =
     (case strip_prefix ROUTE_GROUP_MODEL_PREFIX requested of
        None \<Rightarrow> None
      | Some rest \<Rightarrow>
          (case split_once (of_char CHR ''/'') rest of
             None \<Rightarrow> None
           | Some (g, m) \<Rightarrow> if trim g \<noteq> [] \<and> trim m \<noteq> [] then Some (trim g, trim m) else None))"

definition serves_model_group_id :: "model_route \<Rightarrow> ustring \<Rightarrow> bool" where
  "serves_model_group_id r requested =
     (case route_group_model_ref requested of
        None \<Rightarrow> False
      | Some (g, m) \<Rightarrow> g = mo_id r \<and> is_model_group r \<and> agent_model r = Some m)"

definition sort_members :: "model_route \<Rightarrow> model_route" where
  "sort_members r = r\<lparr>mo_members := sort_key (\<lambda>m. (rm_order_index m, rm_id m)) (mo_members r)\<rparr>"

section \<open>Validation of a route\<close>

definition order_slot :: "int \<Rightarrow> nat" where
  "order_slot i = (if 0 \<le> i then nat i else U64_MAX)"

fun validate_members :: "member_id list \<Rightarrow> nat list \<Rightarrow> route_member list \<Rightarrow> vibex_error + unit" where
  "validate_members seen_ids seen_orders [] = Inr ()"
| "validate_members seen_ids seen_orders (m # ms) =
     (case first_err [member_validate m, member_validate_model m] of
        Inl e \<Rightarrow> Inl e
      | Inr _ \<Rightarrow>
          if rm_id m \<in> set seen_ids then Inl (Validation ''route_member_duplicate'')
          else if order_slot (rm_order_index m) \<in> set seen_orders
          then Inl (Validation ''route_member_order_duplicate'')
          else validate_members (seen_ids @ [rm_id m])
                 (seen_orders @ [order_slot (rm_order_index m)]) ms)"

fun check_pairs :: "(profile_id \<times> ustring) list \<Rightarrow> route_member list \<Rightarrow> vibex_error + unit" where
  "check_pairs seen [] = Inr ()"
| "check_pairs seen (m # ms) =
     (if (rm_profile m, trim (rm_model_id m)) \<in> set seen
      then Inl (Validation ''route_member_duplicate_model'')
      else check_pairs (seen @ [(rm_profile m, trim (rm_model_id m))]) ms)"

definition validate_model_group :: "model_route \<Rightarrow> vibex_error + unit" where
  "validate_model_group r =
     (case agent_model r of
        None \<Rightarrow> Inl (Validation ''route_agent_model_missing'')
      | Some m \<Rightarrow> first_err
          [reject_if (length m > 256) ''route_agent_model_invalid'',
           reject_if (of_char CHR ''/'' \<in> set m) ''route_agent_model_invalid'',
           reject_if (enabled_members r = []) ''route_group_no_enabled_member'',
           check_pairs [] (mo_members r)])"

fun check_levels :: "ustring list \<Rightarrow> ustring list \<Rightarrow> vibex_error + unit" where
  "check_levels seen [] = Inr ()"
| "check_levels seen (l # ls) =
     (if bad_text 64 l then Inl (Validation ''route_level_invalid'')
      else if trim l \<in> set seen then Inl (Validation ''route_level_duplicate'')
      else check_levels (seen @ [trim l]) ls)"

fun validate_rules :: "member_id list \<Rightarrow> ustring list \<Rightarrow> route_rule list \<Rightarrow> vibex_error + unit" where
  "validate_rules ids seen [] = Inr ()"
| "validate_rules ids seen (r # rs) =
     (case rule_validate r ids of
        Inl e \<Rightarrow> Inl e
      | Inr _ \<Rightarrow> if trim (rr_id r) \<in> set seen then Inl (Validation ''route_rule_id_duplicate'')
               else validate_rules ids (seen @ [trim (rr_id r)]) rs)"

definition route_validate :: "model_route \<Rightarrow> vibex_error + unit" where
  "route_validate r = first_err
     [reject_if (bad_text 160 (mo_display_name r)) ''route_display_name_invalid'',
      reject_if (mo_members r = []) ''route_member_missing'',
      reject_if (length (mo_members r) > MAX_ROUTE_MEMBERS) ''route_member_limit_exceeded'',
      reject_if (mo_kind r = Direct \<and> length (mo_members r) \<noteq> 1) ''route_direct_member_count_invalid'',
      validate_members [] [] (mo_members r),
      (if is_model_group r then validate_model_group r
       else reject_if (mo_agent_model_id r \<noteq> None) ''route_agent_model_unexpected''),
      reject_if (mo_first_token_timeout_ms r = Some 0) ''route_first_token_timeout_invalid'',
      reject_if (mo_context_tokens r = Some 0) ''route_context_invalid'',
      reject_if (case mo_patience_ms r of None \<Rightarrow> False | Some p \<Rightarrow> p = 0 \<or> p > MAX_ROUTE_PATIENCE_MS)
        ''route_patience_invalid'',
      reject_if (bad_opt_text 64 (mo_effort r)) ''route_effort_invalid'',
      reject_if (case mo_effort r of None \<Rightarrow> False | Some e \<Rightarrow> trim e \<noteq> lit ''auto'') ''route_effort_invalid'',
      reject_if (bad_opt_text 256 (mo_classifier r)) ''route_classifier_invalid'',
      reject_if (case mo_classifier r of None \<Rightarrow> False | Some c \<Rightarrow> Some (trim c) = agent_model r)
        ''route_classifier_cycle'',
      reject_if (length (mo_levels r) > MAX_ROUTE_LEVELS) ''route_level_limit_exceeded'',
      check_levels [] (mo_levels r),
      reject_if (case mo_pick_member_id r of None \<Rightarrow> False | Some p \<Rightarrow> p \<notin> set (map rm_id (mo_members r)))
        ''route_manual_member_unknown'',
      reject_if (mo_strategy r = Manual \<and> mo_pick_member_id r = None) ''route_manual_member_missing'',
      validate_rules (map rm_id (mo_members r)) [] (mo_rules r)]"

section \<open>What the loops check\<close>

lemma check_days_iff:
  "check_days seen ds = Inr () \<longleftrightarrow>
     (\<forall>d \<in> set ds. 1 \<le> d \<and> d \<le> 7) \<and> distinct ds \<and> set ds \<inter> set seen = {}"
  by (induction seen ds rule: check_days.induct) auto

lemma check_more_iff:
  "check_more ids starter seen ms = Inr () \<longleftrightarrow>
     set ms \<subseteq> set ids \<and> (\<forall>m \<in> set ms. starter \<noteq> Some m) \<and> distinct ms \<and> set ms \<inter> set seen = {}"
  by (induction ids starter seen ms rule: check_more.induct) auto

lemma check_pairs_iff:
  "check_pairs seen ms = Inr () \<longleftrightarrow>
     distinct (map (\<lambda>m. (rm_profile m, trim (rm_model_id m))) ms) \<and>
     set (map (\<lambda>m. (rm_profile m, trim (rm_model_id m))) ms) \<inter> set seen = {}"
  by (induction seen ms rule: check_pairs.induct) auto

lemma check_levels_iff:
  "check_levels seen ls = Inr () \<longleftrightarrow>
     (\<forall>l \<in> set ls. \<not> bad_text 64 l) \<and> distinct (map trim ls) \<and> set (map trim ls) \<inter> set seen = {}"
  by (induction seen ls rule: check_levels.induct) auto

lemma validate_rules_iff:
  "validate_rules ids seen rs = Inr () \<longleftrightarrow>
     (\<forall>r \<in> set rs. rule_validate r ids = Inr ()) \<and> distinct (map (trim \<circ> rr_id) rs) \<and>
     set (map (trim \<circ> rr_id) rs) \<inter> set seen = {}"
  by (induction ids seen rs rule: validate_rules.induct) (auto split: sum.split)

definition member_ok :: "route_member \<Rightarrow> bool" where
  "member_ok m \<longleftrightarrow> 0 \<le> rm_order_index m \<and> rm_weight m \<in> {1..MAX_MEMBER_WEIGHT} \<and>
     rm_context_tokens m \<noteq> Some 0 \<and> rm_first_token_timeout_ms m \<noteq> Some 0 \<and>
     \<not> bad_opt_text 64 (rm_reasoning_effort m) \<and> names_model m \<and> length (trim (rm_model_id m)) \<le> 256"

lemma member_checks_iff:
  "first_err [member_validate m, member_validate_model m] = Inr () \<longleftrightarrow> member_ok m"
  by (auto simp: member_validate_def member_validate_model_def member_ok_def names_model_def)

lemma validate_members_iff:
  "validate_members ids orders ms = Inr () \<longleftrightarrow>
     (\<forall>m \<in> set ms. member_ok m) \<and> distinct (map rm_id ms) \<and> set (map rm_id ms) \<inter> set ids = {} \<and>
     distinct (map (order_slot \<circ> rm_order_index) ms) \<and>
     set (map (order_slot \<circ> rm_order_index) ms) \<inter> set orders = {}"
proof (induction ids orders ms rule: validate_members.induct)
  case (2 ids orders m ms)
  show ?case
  proof (cases "first_err [member_validate m, member_validate_model m]")
    case (Inl e)
    then have "\<not> member_ok m" using member_checks_iff [of m] by simp
    with Inl show ?thesis by simp
  next
    case (Inr u)
    then have "member_ok m" using member_checks_iff [of m] by simp
    moreover have "validate_members ids orders (m # ms) =
       (if rm_id m \<in> set ids then Inl (Validation ''route_member_duplicate'')
        else if order_slot (rm_order_index m) \<in> set orders
        then Inl (Validation ''route_member_order_duplicate'')
        else validate_members (ids @ [rm_id m]) (orders @ [order_slot (rm_order_index m)]) ms)"
      using Inr by simp
    ultimately show ?thesis using 2 [OF Inr] by auto
  qed
qed simp

lemma order_slot_inj: "0 \<le> i \<Longrightarrow> 0 \<le> j \<Longrightarrow> order_slot i = order_slot j \<longleftrightarrow> i = j"
  by (simp add: order_slot_def eq_nat_nat_iff)

lemma distinct_order_slots:
  "\<forall>m \<in> set ms. 0 \<le> rm_order_index m \<Longrightarrow>
   distinct (map (order_slot \<circ> rm_order_index) ms) \<longleftrightarrow> distinct (map rm_order_index ms)"
  by (induction ms) (auto simp: order_slot_inj)

section \<open>The specification of a valid route\<close>

definition window_ok :: "time_window \<Rightarrow> bool" where
  "window_ok w \<longleftrightarrow> tw_days w \<noteq> [] \<and> set (tw_days w) \<subseteq> {1..7} \<and> distinct (tw_days w) \<and>
     tw_start_minute w < 1440 \<and> tw_end_minute w < 1440 \<and> tw_start_minute w \<noteq> tw_end_minute w \<and>
     \<not> bad_opt_text 64 (tw_zone w)"

lemma time_window_validate_iff: "time_window_validate w = Inr () \<longleftrightarrow> window_ok w"
  by (auto simp: time_window_validate_def window_ok_def check_days_iff)

text \<open>The members a rule steers to, in the order it lists them.\<close>

definition rule_targets :: "route_rule \<Rightarrow> member_id list" where
  "rule_targets r = (case rr_use_member_id r of None \<Rightarrow> [] | Some m \<Rightarrow> [m]) @ rr_more_member_ids r"

definition rule_ok :: "route_rule \<Rightarrow> member_id list \<Rightarrow> bool" where
  "rule_ok r ids \<longleftrightarrow> \<not> bad_text 128 (rr_id r) \<and> has_condition r \<and>
     (\<forall>w. rr_time r = Some w \<longrightarrow> window_ok w) \<and>
     set (rule_targets r) \<subseteq> set ids \<and> distinct (rule_targets r) \<and>
     \<not> bad_opt_text 64 (rr_use_effort r) \<and>
     (if rr_pause r then rule_targets r = [] \<and> rr_use_effort r = None
      else rr_use_member_id r \<noteq> None \<and> (\<forall>i. rr_intent r = Some i \<longrightarrow> trim i \<noteq> [])) \<and>
     (\<forall>a \<in> set (rr_agents r). trim a \<noteq> [] \<and> length a \<le> 128) \<and>
     (\<forall>f \<in> set (rr_folders r) \<union> set (rr_except_folders r). trim f \<noteq> [] \<and> length f \<le> 512)"

lemma map_reject_if_Inr [simp]:
  "first_err (map (\<lambda>x. reject_if (P x) code) xs) = Inr () \<longleftrightarrow> (\<forall>x \<in> set xs. \<not> P x)"
  by (induction xs) auto

lemma rule_validate_iff: "rule_validate r ids = Inr () \<longleftrightarrow> rule_ok r ids"
proof -
  have time: "(case rr_time r of None \<Rightarrow> Inr () | Some w \<Rightarrow> time_window_validate w) = Inr () \<longleftrightarrow>
      (\<forall>w. rr_time r = Some w \<longrightarrow> window_ok w)"
    by (cases "rr_time r") (simp_all add: time_window_validate_iff)
  have targets: "\<not> (case rr_use_member_id r of None \<Rightarrow> False | Some m \<Rightarrow> m \<notin> set ids) \<and>
      check_more ids (rr_use_member_id r) [] (rr_more_member_ids r) = Inr () \<longleftrightarrow>
      set (rule_targets r) \<subseteq> set ids \<and> distinct (rule_targets r)"
    by (cases "rr_use_member_id r") (auto simp: check_more_iff rule_targets_def)
  have empty: "\<not> (selects_member r \<or> rr_more_member_ids r \<noteq> [] \<or> rr_use_effort r \<noteq> None) \<longleftrightarrow>
      rule_targets r = [] \<and> rr_use_effort r = None"
    by (cases "rr_use_member_id r") (auto simp: selects_member_def rule_targets_def)
  have intent: "\<not> (case rr_intent r of None \<Rightarrow> False | Some i \<Rightarrow> trim i = []) \<longleftrightarrow>
      (\<forall>i. rr_intent r = Some i \<longrightarrow> trim i \<noteq> [])"
    by (cases "rr_intent r") simp_all
  show ?thesis
    unfolding rule_validate_def rule_ok_def first_err_append_Inr first_err_Cons_Inr
      map_reject_if_Inr reject_if_Inr time
    using targets empty intent
    by (cases "rr_pause r") (auto simp: selects_member_def not_less)
qed

definition group_ok :: "model_route \<Rightarrow> bool" where
  "group_ok r \<longleftrightarrow> (\<exists>m. agent_model r = Some m \<and> length m \<le> 256 \<and> of_char CHR ''/'' \<notin> set m) \<and>
     (\<exists>m \<in> set (mo_members r). rm_enabled m) \<and>
     distinct (map (\<lambda>m. (rm_profile m, trim (rm_model_id m))) (mo_members r))"

lemma validate_model_group_iff: "validate_model_group r = Inr () \<longleftrightarrow> group_ok r"
  by (auto simp: validate_model_group_def group_ok_def check_pairs_iff enabled_members_def
        filter_empty_conv not_less split: option.split)

text \<open>What a stored route satisfies, clause by clause and without the loops.\<close>

definition route_ok :: "model_route \<Rightarrow> bool" where
  "route_ok r \<longleftrightarrow> \<not> bad_text 160 (mo_display_name r) \<and>
     length (mo_members r) \<in> {1..16} \<and> (mo_kind r = Direct \<longrightarrow> length (mo_members r) = 1) \<and>
     (\<forall>m \<in> set (mo_members r). member_ok m) \<and>
     distinct (map rm_id (mo_members r)) \<and> distinct (map rm_order_index (mo_members r)) \<and>
     (if is_model_group r then group_ok r else mo_agent_model_id r = None) \<and>
     mo_first_token_timeout_ms r \<noteq> Some 0 \<and> mo_context_tokens r \<noteq> Some 0 \<and>
     (\<forall>p. mo_patience_ms r = Some p \<longrightarrow> p \<in> {1..MAX_ROUTE_PATIENCE_MS}) \<and>
     (\<forall>e. mo_effort r = Some e \<longrightarrow> trim e = lit ''auto'') \<and>
     (\<forall>c. mo_classifier r = Some c \<longrightarrow> \<not> bad_text 256 c \<and> Some (trim c) \<noteq> agent_model r) \<and>
     length (mo_levels r) \<le> 8 \<and> (\<forall>l \<in> set (mo_levels r). \<not> bad_text 64 l) \<and>
     distinct (map trim (mo_levels r)) \<and>
     (\<forall>p. mo_pick_member_id r = Some p \<longrightarrow> p \<in> rm_id ` set (mo_members r)) \<and>
     (mo_strategy r = Manual \<longrightarrow> mo_pick_member_id r \<noteq> None) \<and>
     (\<forall>u \<in> set (mo_rules r). rule_ok u (map rm_id (mo_members r))) \<and>
     distinct (map (trim \<circ> rr_id) (mo_rules r))"

lemma effort_ok_iff:
  "\<not> bad_opt_text 64 e \<and> \<not> (case e of None \<Rightarrow> False | Some e \<Rightarrow> trim e \<noteq> lit ''auto'') \<longleftrightarrow>
   (\<forall>v. e = Some v \<longrightarrow> trim v = lit ''auto'')"
  by (auto simp: bad_opt_text_def bad_text_def split: option.split)

lemma members_ok_iff:
  "validate_members [] [] ms = Inr () \<longleftrightarrow>
     (\<forall>m \<in> set ms. member_ok m) \<and> distinct (map rm_id ms) \<and> distinct (map rm_order_index ms)"
proof -
  have "(\<forall>m \<in> set ms. member_ok m) \<Longrightarrow> \<forall>m \<in> set ms. 0 \<le> rm_order_index m"
    by (simp add: member_ok_def)
  then show ?thesis
    using distinct_order_slots [of ms] by (auto simp: validate_members_iff)
qed

lemma route_validate_iff: "route_validate r = Inr () \<longleftrightarrow> route_ok r"
proof -
  have kind: "(if is_model_group r then validate_model_group r
      else reject_if (mo_agent_model_id r \<noteq> None) code) = Inr () \<longleftrightarrow>
      (if is_model_group r then group_ok r else mo_agent_model_id r = None)" for code
    by (simp add: validate_model_group_iff)
  have opt: "\<not> (case v of None \<Rightarrow> False | Some x \<Rightarrow> P x) \<longleftrightarrow> (\<forall>x. v = Some x \<longrightarrow> \<not> P x)"
    for v :: "'a option" and P
    by (cases v) simp_all
  have count: "mo_members r \<noteq> [] \<and> \<not> MAX_ROUTE_MEMBERS < length (mo_members r) \<longleftrightarrow>
      length (mo_members r) \<in> {1..16}"
    by (auto simp: MAX_ROUTE_MEMBERS_def Suc_le_eq)
  have bad: "\<not> bad_opt_text n v \<longleftrightarrow> (\<forall>x. v = Some x \<longrightarrow> \<not> bad_text n x)" for n v
    by (cases v) (simp_all add: bad_opt_text_def)
  show ?thesis
    unfolding route_validate_def route_ok_def first_err_Cons_Inr reject_if_Inr kind members_ok_iff
      count [symmetric] effort_ok_iff [symmetric] opt check_levels_iff validate_rules_iff
      rule_validate_iff bad
    by (auto simp: MAX_ROUTE_LEVELS_def not_less not_le Suc_le_eq)
qed

section \<open>Group model ids\<close>

lemma agent_model_trimmed: "agent_model r = Some m \<Longrightarrow> m \<noteq> [] \<and> trim m = m"
  by (auto simp: agent_model_def split: option.splits if_splits)

lemma group_model_id_agent:
  assumes "agent_model r = Some m" and "of_char CHR ''/'' \<notin> set m"
  shows "group_model_id r m = ROUTE_GROUP_MODEL_PREFIX @ mo_id r @ of_char CHR ''/'' # m"
proof -
  from agent_model_trimmed [OF assms(1)] have m: "m \<noteq> []" "trim m = m" by auto
  have "hd m \<noteq> of_char CHR ''/''" "last m \<noteq> of_char CHR ''/''"
    using m assms(2) hd_in_set last_in_set by metis+
  then have "trim_where (\<lambda>c. c = of_char CHR ''/'') m = m"
    using m by (intro trim_where_id) auto
  then show ?thesis by (simp add: group_model_id_def route_model_id_def m)
qed

lemma route_group_model_ref_build:
  assumes "of_char CHR ''/'' \<notin> set g" and "trimmed g" and "g \<noteq> []" and "trimmed m" and "m \<noteq> []"
  shows "route_group_model_ref (ROUTE_GROUP_MODEL_PREFIX @ g @ of_char CHR ''/'' # m) = Some (g, m)"
  using assms by (simp add: route_group_model_ref_def trimmed_def)

section \<open>Member order\<close>

lemma filter_the_one: "distinct zs \<Longrightarrow> k \<in> set zs \<Longrightarrow> filter (\<lambda>x. x = k) zs = [k]"
proof (induction zs)
  case (Cons z zs)
  show ?case
  proof (cases "z = k")
    case True
    with Cons.prems(1) have "filter (\<lambda>x. x = k) zs = []" by (auto simp: filter_empty_conv)
    with True show ?thesis by simp
  qed (use Cons in simp)
qed simp

lemma sort_key_canonical:
  assumes "mset xs = mset ys" and "distinct (map f xs)"
  shows "sort_key f xs = sort_key f ys"
proof (rule sym, rule properties_for_sort_key)
  show "mset (sort_key f xs) = mset ys" using assms(1) by simp
  show "sorted (map f (sort_key f xs))" by simp
  fix k assume k: "k \<in> set (sort_key f xs)"
  have inj: "inj_on f (set xs)" and d: "distinct xs" using assms(2) by (auto simp: distinct_map)
  from assms(1) have same: "set xs = set ys" and dy: "distinct ys"
    using d mset_eq_setD mset_eq_imp_distinct_iff by blast+
  with k have "k \<in> set ys" by simp
  have one: "filter (\<lambda>x. f k = f x) zs = [k]" if "mset zs = mset ys" for zs
  proof -
    have sz: "set zs = set ys" "distinct zs"
      using that dy mset_eq_setD mset_eq_imp_distinct_iff by blast+
    then have "\<forall>x \<in> set zs. f k = f x \<longleftrightarrow> x = k"
      using inj same \<open>k \<in> set ys\<close> by (auto simp: inj_on_def)
    then have "filter (\<lambda>x. f k = f x) zs = filter (\<lambda>x. x = k) zs"
      by (intro filter_cong) auto
    also have "\<dots> = [k]"
      using sz \<open>k \<in> set ys\<close> by (intro filter_the_one) auto
    finally show ?thesis .
  qed
  show "filter (\<lambda>x. f k = f x) (sort_key f xs) = filter (\<lambda>x. f k = f x) ys"
    using one [of "sort_key f xs"] one [of ys] assms(1) by simp
qed

section \<open>Properties\<close>


text \<open>A valid model group publishes an id that parses back to its own route id and model,
  and a group serves that id exactly when it has this route id and this Agent-facing model.\<close>
lemma group_id_round_trip:
  assumes "route_validate r = Inr ()" and "is_model_group r"
    and "mo_id r \<noteq> []" and "trimmed (mo_id r)" and "of_char CHR ''/'' \<notin> set (mo_id r)"
  shows "\<exists>g m. gateway_model_id r = Some g \<and> agent_model r = Some m \<and>
     route_group_model_ref g = Some (mo_id r, m) \<and>
     (\<forall>r'. serves_model_group_id r' g \<longleftrightarrow>
        mo_id r' = mo_id r \<and> is_model_group r' \<and> agent_model r' = Some m)"
proof -
  from assms(1,2) have "group_ok r" by (simp add: route_validate_iff route_ok_def)
  then obtain m where m: "agent_model r = Some m" "of_char CHR ''/'' \<notin> set m"
    by (auto simp: group_ok_def)
  let ?g = "ROUTE_GROUP_MODEL_PREFIX @ mo_id r @ of_char CHR ''/'' # m"
  have ref: "route_group_model_ref ?g = Some (mo_id r, m)"
    using assms(3-5) agent_model_trimmed [OF m(1)]
    by (intro route_group_model_ref_build) (auto simp: trimmed_def)
  have "gateway_model_id r = Some ?g"
    by (simp add: gateway_model_id_def m group_model_id_agent [OF m])
  with ref m show ?thesis by (auto simp: serves_model_group_id_def)
qed

definition sample_group :: model_route where
  "sample_group = \<lparr>mo_id = lit ''r1'', mo_display_name = lit ''opus'', mo_description = None,
     mo_kind = ModelGroup,
     mo_members = [(member_new (lit ''m1'') (lit ''p1'') (lit ''a'') 0),
                   (member_new (lit ''m2'') (lit ''p2'') (lit ''b'') 1)],
     mo_strategy = Ordered, mo_agent_model_id = Some (lit ''opus''), mo_rules = [],
     mo_classifier = None, mo_effort = None, mo_patience_ms = None, mo_sink = False,
     mo_unlists = False, mo_levels = [], mo_pick_member_id = None,
     mo_first_token_timeout_ms = None, mo_context_tokens = None, mo_pin = PinOff,
     mo_failover = FailoverAuto, mo_token_limit = None, mo_status = Enabled, mo_revision = 1,
     mo_created_at_ms = 0, mo_updated_at_ms = 0, mo_deleted_at_ms = None\<rparr>"

lemma sample_group_valid: "route_validate sample_group = Inr ()"
  by (simp add: route_validate_iff route_ok_def sample_group_def is_model_group_def group_ok_def
        agent_model_def member_new_def member_ok_def names_model_def bad_text_def bad_opt_text_def
        DEFAULT_MEMBER_WEIGHT_def MAX_MEMBER_WEIGHT_def trim_def trim_where_def is_whitespace_def)

lemma group_id_round_trip_witness:
  "\<exists>g m. gateway_model_id sample_group = Some g \<and> agent_model sample_group = Some m \<and>
     route_group_model_ref g = Some (mo_id sample_group, m) \<and>
     (\<forall>r'. serves_model_group_id r' g \<longleftrightarrow>
        mo_id r' = mo_id sample_group \<and> is_model_group r' \<and> agent_model r' = Some m)"
  by (rule group_id_round_trip [OF sample_group_valid])
     (simp_all add: sample_group_def is_model_group_def trimmed_iff is_whitespace_def)

text \<open>A valid time window is the half-open cyclic interval from its start to its end: a
  minute of the day is inside exactly when it is reached from the start before the end is,
  counting around midnight.\<close>
lemma time_window_cyclic:
  assumes "time_window_validate w = Inr ()" and "minute < 1440"
  shows "time_window_contains w day minute \<longleftrightarrow> day \<in> set (tw_days w) \<and>
     (int minute - int (tw_start_minute w)) mod 1440
       < (int (tw_end_minute w) - int (tw_start_minute w)) mod 1440"
proof -
  from assms(1) have w: "tw_start_minute w < 1440" "tw_end_minute w < 1440"
      "tw_start_minute w \<noteq> tw_end_minute w"
    by (auto simp: time_window_validate_iff window_ok_def)
  have red: "(int a - int b) mod 1440 = (if b \<le> a then int a - int b else int a - int b + 1440)"
    if "a < 1440" "b < 1440" for a b :: nat
  proof (cases "b \<le> a")
    case False
    have "(int a - int b) mod 1440 = (int a - int b + 1440) mod 1440" by simp
    also have "\<dots> = int a - int b + 1440"
      by (rule mod_pos_pos_trivial) (use False that in auto)
    finally show ?thesis using False by simp
  qed (use that in \<open>simp add: mod_pos_pos_trivial\<close>)
  show ?thesis
    using w assms(2) by (auto simp: time_window_contains_def red)
qed

lemma time_window_cyclic_witness:
  "time_window_contains \<lparr>tw_days = [5], tw_start_minute = 1320, tw_end_minute = 360, tw_zone = None\<rparr> 5 30
   \<and> (int 30 - int 1320) mod 1440 < (int 360 - int 1320) mod 1440"
  using time_window_cyclic
    [of "\<lparr>tw_days = [5], tw_start_minute = 1320, tw_end_minute = 360, tw_zone = None\<rparr>" 30 5]
  by (simp add: time_window_validate_iff window_ok_def bad_opt_text_def)

text \<open>The stored order of the members is canonical: two valid routes with the same members,
  listed in any order, are sorted into the same list, and that list is strictly increasing in
  the place each member claims.\<close>
lemma sort_members_canonical:
  assumes "route_validate r = Inr ()" and "mset (mo_members r') = mset (mo_members r)"
  shows "mo_members (sort_members r') = mo_members (sort_members r) \<and>
     sorted_wrt (\<lambda>a b. rm_order_index a < rm_order_index b) (mo_members (sort_members r))"
proof -
  let ?k = "\<lambda>m. (rm_order_index m, rm_id m)"
  from assms(1) have o: "distinct (map rm_order_index (mo_members r))"
    by (simp add: route_validate_iff route_ok_def)
  then have d: "distinct (map ?k (mo_members r))"
    by (auto simp: distinct_map inj_on_def)
  have "sorted (map ?k (sort_key ?k (mo_members r)))" by simp
  then have le: "sorted_wrt (\<lambda>a b. ?k a \<le> ?k b) (sort_key ?k (mo_members r))"
    by (simp add: sorted_map)
  have od: "distinct (map rm_order_index (sort_key ?k (mo_members r)))"
    using o by (simp add: distinct_map)
  have "rm_order_index (sort_key ?k (mo_members r) ! i) \<noteq> rm_order_index (sort_key ?k (mo_members r) ! j)"
    if "i < j" "j < length (sort_key ?k (mo_members r))" for i j
    using od that nth_eq_iff_index_eq [OF od, of i j] by simp
  with le have "sorted_wrt (\<lambda>a b. rm_order_index a < rm_order_index b) (sort_key ?k (mo_members r))"
    by (auto simp: sorted_wrt_iff_nth_less order.order_iff_strict)
  with sort_key_canonical [OF assms(2) [symmetric] d] show ?thesis
    by (simp add: sort_members_def)
qed

lemma sort_members_canonical_witness:
  "mo_members (sort_members (sample_group\<lparr>mo_members := rev (mo_members sample_group)\<rparr>)) =
     mo_members (sort_members sample_group) \<and>
   sorted_wrt (\<lambda>a b. rm_order_index a < rm_order_index b) (mo_members (sort_members sample_group))"
  by (rule sort_members_canonical [OF sample_group_valid]) simp

text \<open>The rule that steers a request is the first in the route's order that matches it.\<close>
lemma first_matching_rule_least:
  "first_matching_rule rs c = Some (i, r) \<longleftrightarrow>
     i < length rs \<and> rs ! i = r \<and> rule_matches r c \<and> \<not> (\<exists>j < i. rule_matches (rs ! j) c)"
  by (fastforce simp: first_matching_rule_def find_Some_iff nth_enumerate_eq)

end
