(* ===== verification/Route_Plan.thy ===== *)
theory Route_Plan
  imports Model_Route
begin

text \<open>
  Upstream and Key selection, \<open>crates/model-gateway/src/route.rs\<close>: the order in which the
  Keys of one upstream are tried (\<open>plan_route\<close>), the order in which the members of a
  route are tried (\<open>plan_members\<close>), the reading of an upstream failure
  (\<open>classify_failure\<close>, \<open>is_protocol_mismatch\<close>) and the resolution of a model id
  (\<open>resolve_model\<close>, \<open>provider_alias\<close>). The Unicode case table of \<open>to_lowercase\<close> is
  the argument \<open>lower\<close>.

  Facts: a plan attempts exactly the selectable Keys, whatever the strategy; a live pin leads;
  preferred Keys lead under every strategy; rotation lets every Key lead once per turn of the
  pool; every member strategy but weighted and manual permutes the members; the weighted cycle
  gives each member its share of first attempts, and loses members when the weights are skewed.
\<close>

section \<open>Candidates\<close>

record candidate_key =
  ck_profile :: profile_id
  ck_credential :: request_id
  ck_priority :: int
  ck_preferred :: bool
  ck_ready :: bool
  ck_cooling :: "failure_kind option"
  ck_used_tokens :: nat
  ck_token_limit :: "token_limit option"
  ck_window_used_tokens :: "nat option"

definition candidate_new :: "profile_id \<Rightarrow> request_id \<Rightarrow> int \<Rightarrow> candidate_key" where
  "candidate_new p c priority = \<lparr>ck_profile = p, ck_credential = c, ck_priority = priority,
     ck_preferred = False, ck_ready = True, ck_cooling = None, ck_used_tokens = 0,
     ck_token_limit = None, ck_window_used_tokens = None\<rparr>"

definition over_token_limit :: "candidate_key \<Rightarrow> bool" where
  "over_token_limit c =
     (case (ck_token_limit c, ck_window_used_tokens c) of
        (Some limit, Some used) \<Rightarrow> used \<ge> tl_tokens limit
      | _ \<Rightarrow> False)"

text \<open>The condition \<open>candidate.ready && !candidate.over_token_limit()\<close>.\<close>

definition selectable :: "candidate_key \<Rightarrow> bool" where
  "selectable c \<longleftrightarrow> ck_ready c \<and> \<not> over_token_limit c"

record route_request =
  rq_candidates :: "candidate_key list"
  rq_strategy :: gateway_routing_strategy
  rq_rotation :: nat
  rq_pinned :: "(profile_id \<times> request_id) option"

record route_plan =
  rp_order :: "candidate_key list"
  rp_skipped_cooling :: nat
  rp_skipped_over_limit :: nat
  rp_pinned :: bool

definition attemptable :: "route_plan \<Rightarrow> candidate_key list" where
  "attemptable p = take (length (rp_order p) - rp_skipped_cooling p) (rp_order p)"

definition retry_after_hint :: "route_plan \<Rightarrow> failure_kind option" where
  "retry_after_hint p =
     (case List.map_filter ck_cooling (rev (rp_order p)) of [] \<Rightarrow> None | k # _ \<Rightarrow> Some k)"

definition may_fail_over :: "route_plan \<Rightarrow> bool" where
  "may_fail_over p \<longleftrightarrow> length (attemptable p) > 1"

section \<open>Planning the Keys\<close>

definition sort_ready ::
    "candidate_key list \<Rightarrow> gateway_routing_strategy \<Rightarrow> nat \<Rightarrow> candidate_key list" where
  "sort_ready ready strategy rotation =
     (let sorted = sort_key (\<lambda>c. (\<not> ck_preferred c, ck_priority c)) ready;
          preferred = length (takeWhile ck_preferred sorted);
          rest = drop preferred sorted
      in take preferred sorted @
         (case strategy of
            KeysOrdered \<Rightarrow> rest
          | KeysRoundRobin \<Rightarrow> (if rest = [] then rest else rotate (rotation mod length rest) rest)
          | KeysLeastUsed \<Rightarrow> sort_key (\<lambda>c. (ck_used_tokens c, ck_priority c)) rest))"

definition pin_matches :: "(profile_id \<times> request_id) option \<Rightarrow> candidate_key \<Rightarrow> bool" where
  "pin_matches pinned c \<longleftrightarrow> pinned = Some (ck_profile c, ck_credential c)"

definition plan_route :: "route_request \<Rightarrow> route_plan" where
  "plan_route rq =
     (let (candidates, pinned_hit) =
            (case position (pin_matches (rq_pinned rq)) (rq_candidates rq) of
               None \<Rightarrow> (rq_candidates rq, False)
             | Some i \<Rightarrow>
                 if selectable (rq_candidates rq ! i)
                 then (move_to_front i (rq_candidates rq), True)
                 else (rq_candidates rq, False));
          ready = filter selectable candidates;
          skipped = filter (\<lambda>c. \<not> selectable c) candidates;
          over_limit = length (filter ck_ready skipped);
          ready' =
            (if pinned_hit
             then let by_priority = sort_key ck_priority ready in
                  (case position (pin_matches (rq_pinned rq)) by_priority of
                     None \<Rightarrow> by_priority
                   | Some i \<Rightarrow> move_to_front i by_priority)
             else sort_ready ready (rq_strategy rq) (rq_rotation rq))
      in \<lparr>rp_order = ready' @ skipped, rp_skipped_cooling = length skipped,
          rp_skipped_over_limit = over_limit, rp_pinned = pinned_hit\<rparr>)"

section \<open>Reading an upstream failure\<close>

definition mentions :: "ustring \<Rightarrow> ustring list \<Rightarrow> bool" where
  "mentions words needles \<longleftrightarrow> (\<exists>n \<in> set needles. contains_str words n)"

definition credit_words :: "ustring list" where
  "credit_words =
     [lit ''insufficient_quota'', lit ''insufficient balance'', lit ''insufficient_credit'',
      lit ''credit balance'', lit ''billing'', lit ''payment required'', lit ''out of credit'',
      lit ''balance is'', [20313, 39069], [27424, 36153]]"

definition quota_words :: "ustring list" where
  "quota_words =
     [lit ''quota'', lit ''usage limit'', lit ''usage_limit'', lit ''limit reached'',
      lit ''exceeded your'', lit ''plan limit'', lit ''out of budget'', [39069, 24230],
      [19978, 38480]]"

definition rate_words :: "ustring list" where
  "rate_words =
     [lit ''rate limit'', lit ''rate_limit'', lit ''too many requests'', lit ''requests per'',
      lit ''tokens per minute'', lit ''slow down'', [38480, 27969], [39057, 29575]]"

definition auth_words :: "ustring list" where
  "auth_words = [lit ''api key'', lit ''unauthorized'', lit ''authentication'', lit ''invalid key'']"

definition classify_failure :: "(ustring \<Rightarrow> ustring) \<Rightarrow> nat \<Rightarrow> ustring \<Rightarrow> failure_kind" where
  "classify_failure lower status body =
     (let words = lower body;
          credit = mentions words credit_words;
          quota = mentions words quota_words;
          rate = mentions words rate_words
      in if status = 401 then Auth
         else if status = 402 then (if quota \<and> \<not> credit then Quota else Credit)
         else if status = 403 then (if mentions words auth_words then Auth else Other)
         else if status = 404 then Other
         else if status = 408 \<or> status = 504 then Upstream
         else if status = 429 then
           (if credit then Credit else if quota \<and> \<not> rate then Quota else Rate)
         else if 500 \<le> status \<and> status \<le> 599 then Upstream
         else Other)"

definition shape_words :: "ustring list" where
  "shape_words =
     [lit ''unknown variant'', lit ''unknown field'', lit ''missing field'', lit ''unexpected field'',
      lit ''failed to deserialize'', lit ''invalid type'', lit ''expected one of'',
      lit ''unsupported'', lit ''not supported'', lit ''no such'']"

definition is_protocol_mismatch :: "(ustring \<Rightarrow> ustring) \<Rightarrow> nat \<Rightarrow> ustring \<Rightarrow> bool" where
  "is_protocol_mismatch lower status body =
     (if status = 415 \<or> status = 422 then True
      else if status = 400 then mentions (lower body) shape_words
      else False)"

section \<open>Resolving a model id\<close>

record model_namespace =
  ns_profile :: profile_id
  ns_alias :: ustring
  ns_models :: "ustring list"

datatype resolved_model =
    ResolvedRoute ustring ustring
  | Qualified profile_id ustring
  | Bare profile_id ustring
  | Ambiguous "profile_id list" ustring
  | NotFound ustring "ustring list"

fun resolved_model_id :: "resolved_model \<Rightarrow> ustring" where
  "resolved_model_id (ResolvedRoute r requested) = requested"
| "resolved_model_id (Qualified p model) = model"
| "resolved_model_id (Bare p model) = model"
| "resolved_model_id (Ambiguous ps model) = model"
| "resolved_model_id (NotFound requested cs) = requested"

fun resolved_profile :: "resolved_model \<Rightarrow> profile_id option" where
  "resolved_profile (Qualified p model) = Some p"
| "resolved_profile (Bare p model) = Some p"
| "resolved_profile _ = None"

fun common_prefix_len :: "ustring \<Rightarrow> ustring \<Rightarrow> nat" where
  "common_prefix_len (a # as) (b # bs) = (if a = b then Suc (common_prefix_len as bs) else 0)"
| "common_prefix_len _ _ = 0"

definition model_score :: "ustring \<Rightarrow> ustring \<Rightarrow> nat" where
  "model_score candidate needle =
     (if contains_str candidate needle \<or> contains_str needle candidate then 2
      else if common_prefix_len candidate needle \<ge> 3 then 1 else 0)"

definition closest_models ::
    "(ustring \<Rightarrow> ustring) \<Rightarrow> ustring \<Rightarrow> model_namespace list \<Rightarrow> ustring list" where
  "closest_models lower requested nss =
     (let needle = lower (mr_model (model_ref_parse requested));
          scored = filter (\<lambda>(score, _). score > 0)
            (concat (map (\<lambda>ns. map (\<lambda>m. (model_score (lower m) needle,
                                        ns_alias ns @ lit ''/'' @ m)) (ns_models ns)) nss))
      in take 3 (map snd (sort_key (\<lambda>(score, m). (2 - score, m)) scored)))"

definition resolve_model ::
    "(ustring \<Rightarrow> ustring) \<Rightarrow> ustring \<Rightarrow> model_namespace list \<Rightarrow> resolved_model" where
  "resolve_model lower requested nss =
     (let parsed = model_ref_parse requested in
      case mr_provider parsed of
        Some provider \<Rightarrow>
          (case filter (\<lambda>ns. ns_profile ns = provider \<or> ns_alias ns = provider) nss of
             [ns] \<Rightarrow> Qualified (ns_profile ns) (mr_model parsed)
           | _ \<Rightarrow> NotFound requested (closest_models lower requested nss))
      | None \<Rightarrow>
          (case map ns_profile (filter (\<lambda>ns. mr_model parsed \<in> set (ns_models ns)) nss) of
             [] \<Rightarrow> NotFound requested (closest_models lower requested nss)
           | [p] \<Rightarrow> Bare p (mr_model parsed)
           | ps \<Rightarrow> Ambiguous ps (mr_model parsed)))"

fun alias_loop :: "ustring \<Rightarrow> bool \<Rightarrow> ustring \<Rightarrow> ustring" where
  "alias_loop alias last_dash [] = alias"
| "alias_loop alias last_dash (c # cs) =
     (if is_ascii_alphanumeric c then alias_loop (alias @ [to_ascii_lowercase c]) False cs
      else if \<not> last_dash \<and> alias \<noteq> [] then alias_loop (alias @ [of_char CHR ''-'']) True cs
      else alias_loop alias last_dash cs)"

definition provider_alias :: "ustring \<Rightarrow> ustring" where
  "provider_alias display_name =
     (let alias = rev (dropWhile (\<lambda>c. c = of_char CHR ''-'') (rev (alias_loop [] False display_name)))
      in if alias = [] then lit ''provider'' else alias)"

section \<open>Planning the members\<close>

record route_member_ref =
  mf_member_id :: "member_id option"
  mf_profile :: profile_id
  mf_model :: ustring
  mf_reasoning_effort :: "ustring option"
  mf_weight :: nat
  mf_context_tokens :: "nat option"
  mf_first_token_timeout_ms :: "nat option"

definition member_ref_new :: "profile_id \<Rightarrow> ustring \<Rightarrow> route_member_ref" where
  "member_ref_new p model = \<lparr>mf_member_id = None, mf_profile = p, mf_model = model,
     mf_reasoning_effort = None, mf_weight = DEFAULT_MEMBER_WEIGHT, mf_context_tokens = None,
     mf_first_token_timeout_ms = None\<rparr>"

record member_observation =
  mb_used_tokens :: nat
  mb_p50_ms :: "nat option"
  mb_p95_ms :: "nat option"
  mb_cooling :: bool
  mb_inflight :: nat

definition observation_default :: member_observation where
  "observation_default = \<lparr>mb_used_tokens = 0, mb_p50_ms = None, mb_p95_ms = None,
     mb_cooling = False, mb_inflight = 0\<rparr>"

definition observation_of ::
    "(profile_id \<times> member_observation) list \<Rightarrow> route_member_ref \<Rightarrow> member_observation" where
  "observation_of obs m =
     (case find (\<lambda>(p, _). p = mf_profile m) obs of
        Some (_, o') \<Rightarrow> o' | None \<Rightarrow> observation_default)"

definition or_max :: "nat option \<Rightarrow> nat" where
  "or_max v = (case v of Some x \<Rightarrow> x | None \<Rightarrow> U64_MAX)"

definition weighted_cycle :: "route_member_ref list \<Rightarrow> route_member_ref list" where
  "weighted_cycle members =
     (let weight = (\<lambda>m. max (mf_weight m) 1);
          max_weight = foldr (max \<circ> weight) members 0
      in concat (map (\<lambda>r. filter (\<lambda>m. r < weight m) members) [0..<max_weight]))"

text \<open>The deduplicating loop with its early exit once \<open>n\<close> members are found.\<close>

fun fill_distinct :: "nat \<Rightarrow> 'a list \<Rightarrow> 'a list \<Rightarrow> 'a list" where
  "fill_distinct n ordered [] = ordered"
| "fill_distinct n ordered (m # ms) =
     (let ordered' = (if m \<in> set ordered then ordered else ordered @ [m])
      in if length ordered' = n then ordered' else fill_distinct n ordered' ms)"

definition weighted_order :: "route_member_ref list \<Rightarrow> nat \<Rightarrow> route_member_ref list" where
  "weighted_order members rotation =
     (if members = [] then members
      else let cycle = weighted_cycle members;
               start = rotation mod max (length cycle) 1
           in fill_distinct (length members) []
                (map (\<lambda>k. cycle ! ((start + k) mod length cycle)) [0..<length members * 2]))"

definition plan_members ::
    "route_member_ref list \<Rightarrow> route_strategy \<Rightarrow> nat \<Rightarrow> (profile_id \<times> member_observation) list
     \<Rightarrow> member_id option \<Rightarrow> route_member_ref list" where
  "plan_members members strategy rotation obs pick =
     (case strategy of
        Ordered \<Rightarrow> members
      | RoundRobin \<Rightarrow>
          (if members = [] then members else rotate (rotation mod length members) members)
      | LeastUsed \<Rightarrow> sort_key (\<lambda>m. mb_used_tokens (observation_of obs m)) members
      | Smart \<Rightarrow> sort_key (\<lambda>m. let o' = observation_of obs m in
            (mb_cooling o', or_max (mb_p50_ms o'), mb_inflight o', mb_used_tokens o')) members
      | LowestLatency \<Rightarrow> sort_key (\<lambda>m. let o' = observation_of obs m in
            (mb_cooling o', or_max (mb_p50_ms o'), or_max (mb_p95_ms o'))) members
      | Weighted \<Rightarrow> weighted_order members rotation
      | Manual \<Rightarrow>
          (case pick of
             None \<Rightarrow> members
           | Some picked \<Rightarrow> filter (\<lambda>m. mf_member_id m = Some picked) members))"

section \<open>A plan keeps every candidate\<close>

lemma sort_ready_split:
  assumes "s = sort_key (\<lambda>c. (\<not> ck_preferred c, ck_priority c)) ready"
  shows "takeWhile ck_preferred s = filter ck_preferred s"
    and "dropWhile ck_preferred s = filter (\<lambda>c. \<not> ck_preferred c) s"
proof -
  have "sorted (map (\<lambda>c. (\<not> ck_preferred c, ck_priority c)) s)"
    by (simp add: assms)
  then have "takeWhile ck_preferred s = filter ck_preferred s \<and>
      dropWhile ck_preferred s = filter (\<lambda>c. \<not> ck_preferred c) s"
  proof (induction s)
    case (Cons c s)
    show ?case
    proof (cases "ck_preferred c")
      case False
      with Cons.prems have "\<forall>d \<in> set s. \<not> ck_preferred d" by fastforce
      with False show ?thesis by (simp add: filter_empty_conv)
    qed (use Cons in simp)
  qed simp
  then show "takeWhile ck_preferred s = filter ck_preferred s"
    and "dropWhile ck_preferred s = filter (\<lambda>c. \<not> ck_preferred c) s" by auto
qed

text \<open>The strategy's own order of the Keys that are not preferred.\<close>

definition pool_order ::
    "gateway_routing_strategy \<Rightarrow> nat \<Rightarrow> candidate_key list \<Rightarrow> candidate_key list" where
  "pool_order strategy rotation rest =
     (case strategy of
        KeysOrdered \<Rightarrow> rest
      | KeysRoundRobin \<Rightarrow> rotate rotation rest
      | KeysLeastUsed \<Rightarrow> sort_key (\<lambda>c. (ck_used_tokens c, ck_priority c)) rest)"

lemma sort_ready_eq:
  "sort_ready ready strategy rotation =
     sort_key ck_priority (filter ck_preferred ready) @
     pool_order strategy rotation (sort_key ck_priority (filter (\<lambda>c. \<not> ck_preferred c) ready))"
proof -
  define s where "s = sort_key (\<lambda>c. (\<not> ck_preferred c, ck_priority c)) ready"
  note split = sort_ready_split [OF s_def]
  have parts: "filter P s = sort_key ck_priority (filter P ready)"
    if P: "\<And>c d. P c \<Longrightarrow> P d \<Longrightarrow> ck_preferred c = ck_preferred d" for P
  proof -
    have "filter P s = sort_key (\<lambda>c. (\<not> ck_preferred c, ck_priority c)) (filter P ready)"
      by (simp add: s_def filter_sort)
    also have "\<dots> = sort_key ck_priority (filter P ready)"
      by (rule sort_key_order_cong) (use P in auto)
    finally show ?thesis .
  qed
  have pre: "take (length (takeWhile ck_preferred s)) s = sort_key ck_priority (filter ck_preferred ready)"
    using split parts [of ck_preferred] by (metis takeWhile_eq_take)
  have post: "drop (length (takeWhile ck_preferred s)) s =
      sort_key ck_priority (filter (\<lambda>c. \<not> ck_preferred c) ready)"
    using split parts [of "\<lambda>c. \<not> ck_preferred c"] by (metis dropWhile_eq_drop)
  have rot: "(if rest = [] then rest else rotate (rotation mod length rest) rest) =
      rotate rotation rest" for rest :: "candidate_key list"
    by (metis rotate_conv_mod rotate_is_Nil_conv)
  show ?thesis
    unfolding sort_ready_def Let_def s_def [symmetric] pre post rot pool_order_def ..
qed

lemma mset_pool_order [simp]: "mset (pool_order strategy rotation rest) = mset rest"
  by (cases strategy) (simp_all add: pool_order_def)

interpretation sorted_pool: permuting "\<lambda>ready. sort_ready ready strategy rotation" for strategy rotation
proof
  fix xs :: "candidate_key list"
  have "mset (filter ck_preferred xs) + mset (filter (\<lambda>c. \<not> ck_preferred c) xs) = mset xs"
    by (rule map_filter_mset)
  then show "mset (sort_ready xs strategy rotation) = mset xs"
    by (simp add: sort_ready_eq)
qed

text \<open>The index of the pinned Key, when it can answer.\<close>

definition pin_hit :: "route_request \<Rightarrow> nat option" where
  "pin_hit rq =
     (case position (pin_matches (rq_pinned rq)) (rq_candidates rq) of
        None \<Rightarrow> None
      | Some i \<Rightarrow> if selectable (rq_candidates rq ! i) then Some i else None)"

lemma pin_hit_Some:
  "pin_hit rq = Some i \<Longrightarrow> i < length (rq_candidates rq) \<and> selectable (rq_candidates rq ! i) \<and>
     pin_matches (rq_pinned rq) (rq_candidates rq ! i)"
  by (auto simp: pin_hit_def position_Some_iff split: option.splits if_splits)

text \<open>\<open>plan_route\<close> in terms of the list after the pin was moved to its front.\<close>

definition hoisted :: "route_request \<Rightarrow> candidate_key list" where
  "hoisted rq = (case pin_hit rq of None \<Rightarrow> rq_candidates rq | Some i \<Rightarrow> move_to_front i (rq_candidates rq))"

definition ready_order :: "route_request \<Rightarrow> candidate_key list" where
  "ready_order rq =
     (if pin_hit rq = None
      then sort_ready (filter selectable (rq_candidates rq)) (rq_strategy rq) (rq_rotation rq)
      else case position (pin_matches (rq_pinned rq)) (sort_key ck_priority (filter selectable (hoisted rq))) of
             None \<Rightarrow> sort_key ck_priority (filter selectable (hoisted rq))
           | Some j \<Rightarrow> move_to_front j (sort_key ck_priority (filter selectable (hoisted rq))))"

lemma plan_route_eq:
  "plan_route rq = \<lparr>rp_order = ready_order rq @ filter (\<lambda>c. \<not> selectable c) (hoisted rq),
     rp_skipped_cooling = length (filter (\<lambda>c. \<not> selectable c) (hoisted rq)),
     rp_skipped_over_limit = length (filter ck_ready (filter (\<lambda>c. \<not> selectable c) (hoisted rq))),
     rp_pinned = (pin_hit rq \<noteq> None)\<rparr>"
  by (simp add: plan_route_def ready_order_def hoisted_def pin_hit_def Let_def split: option.split)

lemma attemptable_plan [simp]: "attemptable (plan_route rq) = ready_order rq"
  by (simp add: plan_route_eq attemptable_def)

lemma pinned_plan [simp]: "rp_pinned (plan_route rq) \<longleftrightarrow> pin_hit rq \<noteq> None"
  by (simp add: plan_route_eq)

lemma ready_order_unpinned:
  "pin_hit rq = None \<Longrightarrow> ready_order rq =
     sort_key ck_priority (filter (\<lambda>c. selectable c \<and> ck_preferred c) (rq_candidates rq)) @
     pool_order (rq_strategy rq) (rq_rotation rq)
       (sort_key ck_priority (filter (\<lambda>c. selectable c \<and> \<not> ck_preferred c) (rq_candidates rq)))"
  by (simp add: ready_order_def sort_ready_eq conj_commute)

lemma mset_hoisted [simp]: "mset (hoisted rq) = mset (rq_candidates rq)"
  by (simp add: hoisted_def split: option.split)

lemma mset_filter_hoisted [simp]: "mset (filter P (hoisted rq)) = mset (filter P (rq_candidates rq))"
  by (simp add: mset_filter)

lemma length_filter_hoisted [simp]: "length (filter P (hoisted rq)) = length (filter P (rq_candidates rq))"
  by (metis mset_filter_hoisted size_mset)

lemma mset_ready_order [simp]: "mset (ready_order rq) = mset (filter selectable (rq_candidates rq))"
  by (auto simp: ready_order_def sorted_pool.keeps split: option.split)

interpretation key_plan: permuting "\<lambda>cs. rp_order (plan_route (rq\<lparr>rq_candidates := cs\<rparr>))" for rq
proof
  fix xs :: "candidate_key list"
  show "mset (rp_order (plan_route (rq\<lparr>rq_candidates := xs\<rparr>))) = mset xs"
    using map_filter_mset [of selectable xs] by (simp add: plan_route_eq)
qed

lemma sorted_tl_move_to_front:
  assumes "sorted (map f xs)"
  shows "sorted (map f (tl (move_to_front i xs)))"
proof (cases "drop i xs")
  case Nil
  with assms show ?thesis by (cases xs) (simp_all add: move_to_front_def)
next
  case (Cons x rest)
  then have "xs = take i xs @ x # rest" by (metis append_take_drop_id)
  with assms have "sorted (map f (take i xs @ x # rest))" by metis
  then show ?thesis
    by (simp add: move_to_front_def Cons sorted_append)
qed

section \<open>Rotation\<close>

lemma rotation_window:
  assumes "xs \<noteq> []"
  shows "map (\<lambda>k. hd (rotate (r + k) xs)) [0..<length xs] = rotate r xs"
proof (rule nth_equalityI)
  fix i assume "i < length (map (\<lambda>k. hd (rotate (r + k) xs)) [0..<length xs])"
  then have i: "i < length xs" by simp
  then show "map (\<lambda>k. hd (rotate (r + k) xs)) [0..<length xs] ! i = rotate r xs ! i"
    using assms by (simp add: hd_rotate_conv_nth nth_rotate add.commute)
qed simp

lemma cyclic_window:
  assumes "xs \<noteq> []"
  shows "map (\<lambda>k. xs ! ((r + k) mod length xs)) [0..<length xs] = rotate r xs"
  using rotation_window [OF assms, of r] assms by (simp add: hd_rotate_conv_nth)

section \<open>Member plans\<close>

lemma count_mset_map: "count (mset (map f xs)) m = length (filter (\<lambda>k. f k = m) xs)"
  by (induction xs) auto

lemma fill_distinct_subset: "set (fill_distinct n acc xs) \<subseteq> set acc \<union> set xs"
  by (induction n acc xs rule: fill_distinct.induct) (auto simp: Let_def)

lemma fill_distinct_distinct: "distinct acc \<Longrightarrow> distinct (fill_distinct n acc xs)"
  by (induction n acc xs rule: fill_distinct.induct) (auto simp: Let_def)

lemma fill_distinct_prefix: "prefix acc (fill_distinct n acc xs)"
  by (induction n acc xs rule: fill_distinct.induct) (auto simp: Let_def dest: append_prefixD)

lemma hd_fill_distinct: "xs \<noteq> [] \<Longrightarrow> hd (fill_distinct n [] xs) = hd xs"
proof (cases xs)
  case (Cons x ys)
  have "prefix [x] (fill_distinct n [x] ys)" by (rule fill_distinct_prefix)
  then show ?thesis using Cons by (auto simp: prefix_def Let_def)
qed simp

definition member_weight :: "route_member_ref \<Rightarrow> nat" where
  "member_weight m = max (mf_weight m) 1"

lemma weight_bound: "m \<in> set ms \<Longrightarrow> member_weight m \<le> foldr (max \<circ> member_weight) ms 0"
  by (induction ms) auto

lemma weighted_cycle_eq:
  "weighted_cycle ms = concat (map (\<lambda>r. filter (\<lambda>m. r < member_weight m) ms)
      [0..<foldr (max \<circ> member_weight) ms 0])"
  by (simp add: weighted_cycle_def member_weight_def [abs_def])

lemma set_weighted_cycle: "set (weighted_cycle ms) = set ms"
proof
  show "set ms \<subseteq> set (weighted_cycle ms)"
  proof
    fix m assume m: "m \<in> set ms"
    have "0 < member_weight m" by (simp add: member_weight_def)
    with weight_bound [OF m] m show "m \<in> set (weighted_cycle ms)"
      by (auto simp: weighted_cycle_eq intro!: bexI [of _ 0])
  qed
qed (auto simp: weighted_cycle_eq)

lemma filter_upt_below: "length (filter (\<lambda>r. r < w) [0..<n]) = min w n"
  by (induction n) auto

lemma count_rounds:
  "distinct ms \<Longrightarrow> m \<in> set ms \<Longrightarrow>
   count (mset (concat (map (\<lambda>r. filter (\<lambda>m. r < member_weight m) ms) rs))) m =
   length (filter (\<lambda>r. r < member_weight m) rs)"
proof (induction rs)
  case (Cons r rs)
  have "count (mset (filter (\<lambda>m. r < member_weight m) ms)) m = (if r < member_weight m then 1 else 0)"
    using Cons.prems by (simp add: count_mset_0_iff distinct_count_atmost_1)
  with Cons show ?case by simp
qed simp

lemma count_weighted_cycle:
  "distinct ms \<Longrightarrow> m \<in> set ms \<Longrightarrow> count (mset (weighted_cycle ms)) m = member_weight m"
  unfolding weighted_cycle_eq
  by (simp only: count_rounds filter_upt_below weight_bound min_absorb1)

lemma length_weighted_cycle: "length (weighted_cycle ms) = sum_list (map member_weight ms)"
proof -
  have "length (concat (map (\<lambda>r. filter (\<lambda>m. r < member_weight m) ms) [0..<n])) =
      sum_list (map (\<lambda>m. min (member_weight m) n) ms)" for n
  proof (induction n)
    case (Suc n)
    have "sum_list (map (\<lambda>m. min (member_weight m) (Suc n)) ms) =
        sum_list (map (\<lambda>m. min (member_weight m) n) ms) + length (filter (\<lambda>m. n < member_weight m) ms)"
      by (induction ms) auto
    with Suc show ?case by simp
  qed simp
  moreover have "map (\<lambda>m. min (member_weight m) (foldr (max \<circ> member_weight) ms 0)) ms = map member_weight ms"
    by (rule map_cong) (simp_all add: weight_bound min_absorb1)
  ultimately show ?thesis unfolding weighted_cycle_eq by metis
qed

lemma weighted_cycle_nonempty: "ms \<noteq> [] \<Longrightarrow> weighted_cycle ms \<noteq> []"
  using set_weighted_cycle [of ms] by auto

lemma weighted_order_eq:
  assumes "ms \<noteq> []"
  shows "weighted_order ms r = fill_distinct (length ms) []
     (map (\<lambda>k. weighted_cycle ms ! ((r + k) mod length (weighted_cycle ms))) [0..<length ms * 2])"
proof -
  have "0 < length (weighted_cycle ms)" using weighted_cycle_nonempty [OF assms] by simp
  then have "max (length (weighted_cycle ms)) 1 = length (weighted_cycle ms)" by linarith
  with assms show ?thesis by (simp add: weighted_order_def Let_def mod_add_left_eq)
qed

lemma hd_weighted_order:
  "ms \<noteq> [] \<Longrightarrow> hd (weighted_order ms r) = weighted_cycle ms ! (r mod length (weighted_cycle ms))"
  by (simp add: weighted_order_eq hd_fill_distinct hd_map)

lemma set_weighted_order: "set (weighted_order ms r) \<subseteq> set ms"
proof (cases "ms = []")
  case False
  let ?c = "weighted_cycle ms"
  have "set (map (\<lambda>k. ?c ! ((r + k) mod length ?c)) [0..<length ms * 2]) \<subseteq> set ?c"
    using weighted_cycle_nonempty [OF False] by auto
  then show ?thesis
    using fill_distinct_subset [of "length ms" "[]"] False
    by (fastforce simp: weighted_order_eq set_weighted_cycle)
qed (simp add: weighted_order_def)

lemma distinct_subset_mset:
  assumes "distinct ys" and "set ys \<subseteq> set xs"
  shows "mset ys \<subseteq># mset xs"
proof (rule mset_subset_eqI)
  fix a
  show "count (mset ys) a \<le> count (mset xs) a"
  proof (cases "a \<in> set ys")
    case True
    then have "count (mset ys) a = 1" using assms(1) by (simp add: distinct_count_atmost_1)
    moreover have "0 < count (mset xs) a" using True assms(2) by auto
    ultimately show ?thesis by simp
  qed (metis count_eq_zero_iff set_mset_mset zero_le)
qed

lemma weighted_order_selects: "mset (weighted_order ms r) \<subseteq># mset ms"
proof (cases "ms = []")
  case False
  then show ?thesis
    by (intro distinct_subset_mset set_weighted_order)
       (simp add: weighted_order_eq fill_distinct_distinct)
qed (simp add: weighted_order_def)

lemma plan_members_permutes:
  "strategy \<notin> {Weighted, Manual} \<Longrightarrow> mset (plan_members ms strategy r obs pick) = mset ms"
  by (cases strategy) (simp_all add: plan_members_def)

interpretation member_plan: partial_order_of
  "\<lambda>ms. plan_members ms strategy rotation obs pick" for strategy rotation obs pick
proof
  fix xs :: "route_member_ref list"
  show "mset (plan_members xs strategy rotation obs pick) \<subseteq># mset xs"
    using plan_members_permutes [of strategy xs rotation obs pick] weighted_order_selects [of xs rotation]
    by (cases strategy) (simp_all add: plan_members_def multiset_filter_subset split: option.split)
qed

section \<open>Aliases\<close>

definition alias_char :: "uchar \<Rightarrow> bool" where
  "alias_char c \<longleftrightarrow> is_ascii_digit c \<or> 97 \<le> c \<and> c \<le> 122"

text \<open>No two dashes in a row, and none at the front; \<open>dash\<close> says that the last one is a dash.\<close>

definition alias_inv :: "ustring \<Rightarrow> bool \<Rightarrow> bool" where
  "alias_inv a dash \<longleftrightarrow> (\<forall>c \<in> set a. alias_char c \<or> c = of_char CHR ''-'') \<and>
     (a \<noteq> [] \<longrightarrow> alias_char (hd a)) \<and> (dash \<longrightarrow> a \<noteq> []) \<and>
     (\<forall>i. Suc i < length a \<longrightarrow> alias_char (a ! i) \<or> alias_char (a ! Suc i)) \<and>
     (a \<noteq> [] \<longrightarrow> alias_char (last a) = (\<not> dash))"

lemma alias_char_lower: "is_ascii_alphanumeric c \<Longrightarrow> alias_char (to_ascii_lowercase c)"
  by (auto simp: is_ascii_alphanumeric_def is_ascii_digit_def alias_char_def to_ascii_lowercase_def)

lemma alias_char_dash [simp]: "\<not> alias_char (of_char CHR ''-'')" "\<not> alias_char 45"
  by (simp_all add: alias_char_def is_ascii_digit_def)

lemma alias_inv_snoc:
  assumes "alias_inv a dash" and "alias_char c \<or> c = of_char CHR ''-'' \<and> \<not> dash \<and> a \<noteq> []"
  shows "alias_inv (a @ [c]) (\<not> alias_char c)"
proof -
  have "alias_char ((a @ [c]) ! i) \<or> alias_char ((a @ [c]) ! Suc i)" if "Suc i < length (a @ [c])" for i
  proof (cases "Suc i < length a")
    case True
    with assms(1) show ?thesis by (simp add: alias_inv_def nth_append)
  next
    case False
    with that have "i = length a - 1" "a \<noteq> []" by auto
    then have "(a @ [c]) ! i = last a" "(a @ [c]) ! Suc i = c"
      by (simp_all add: nth_append last_conv_nth)
    with assms \<open>a \<noteq> []\<close> show ?thesis by (auto simp: alias_inv_def)
  qed
  then show ?thesis using assms by (cases "a = []") (auto simp: alias_inv_def)
qed

lemma alias_loop_inv: "alias_inv a dash \<Longrightarrow> \<exists>dash'. alias_inv (alias_loop a dash s) dash'"
proof (induction a dash s rule: alias_loop.induct)
  case (2 a dash c cs)
  have "alias_inv (a @ [to_ascii_lowercase c]) False" if "is_ascii_alphanumeric c"
    using alias_inv_snoc [OF 2(4), of "to_ascii_lowercase c"] alias_char_lower [OF that] by simp
  moreover have "alias_inv (a @ [of_char CHR ''-'']) True" if "\<not> dash" "a \<noteq> []"
    using alias_inv_snoc [OF 2(4), of "of_char CHR ''-''"] that by simp
  ultimately show ?case using 2 by auto
qed auto

lemma alias_inv_no_slash: "alias_inv a dash \<Longrightarrow> of_char CHR ''/'' \<notin> set a"
  by (auto simp: alias_inv_def alias_char_def is_ascii_digit_def)

lemma provider_alias_shape: "provider_alias s \<noteq> [] \<and> of_char CHR ''/'' \<notin> set (provider_alias s)"
proof -
  obtain d where "alias_inv (alias_loop [] False s) d"
    using alias_loop_inv [of "[]" False s] by (auto simp: alias_inv_def)
  then have "of_char CHR ''/'' \<notin> set (alias_loop [] False s)" by (rule alias_inv_no_slash)
  then show ?thesis
    by (auto simp: provider_alias_def Let_def dest: set_dropWhileD)
qed

lemma model_ref_parse_qualified:
  "a \<noteq> [] \<Longrightarrow> of_char CHR ''/'' \<notin> set a \<Longrightarrow> m \<noteq> [] \<Longrightarrow>
   model_ref_parse (a @ of_char CHR ''/'' # m) = \<lparr>mr_provider = Some a, mr_model = m\<rparr>"
  by (simp add: model_ref_parse_def)

section \<open>Properties\<close>

text \<open>C3: Whatever the strategy, the rotation counter and the pin, a plan may send a request to
  exactly the candidates that are ready and under their token ceiling, each once; the others
  follow in the reported order, and the two skip counters count them.\<close>
theorem plan_attempts_selectable:
  "mset (attemptable (plan_route rq)) = mset (filter selectable (rq_candidates rq)) \<and>
   mset (rp_order (plan_route rq)) = mset (rq_candidates rq) \<and>
   rp_skipped_cooling (plan_route rq) = length (filter (\<lambda>c. \<not> selectable c) (rq_candidates rq)) \<and>
   rp_skipped_over_limit (plan_route rq) =
     length (filter (\<lambda>c. ck_ready c \<and> over_token_limit c) (rq_candidates rq))"
proof -
  have "mset (rp_order (plan_route rq)) = mset (rq_candidates rq)"
    using key_plan.keeps [where rq = rq and xs = "rq_candidates rq"] by simp
  moreover have over: "(\<lambda>c. ck_ready c \<and> \<not> selectable c) = (\<lambda>c. ck_ready c \<and> over_token_limit c)"
    by (auto simp: selectable_def)
  moreover have "rp_skipped_cooling (plan_route rq) = length (filter (\<lambda>c. \<not> selectable c) (rq_candidates rq))"
    "rp_skipped_over_limit (plan_route rq) = length (filter (\<lambda>c. ck_ready c \<and> \<not> selectable c) (rq_candidates rq))"
    by (simp_all add: plan_route_eq conj_commute)
  ultimately show ?thesis
    by (simp add: over)
qed

text \<open>A pinned Key that can still answer leads the plan under every strategy, and the other
  attempts follow in their configured priority order.\<close>
lemma pinned_key_leads:
  assumes "c \<in> set (rq_candidates rq)" and "selectable c"
    and "rq_pinned rq = Some (ck_profile c, ck_credential c)"
    and "distinct (map (\<lambda>c. (ck_profile c, ck_credential c)) (rq_candidates rq))"
  shows "rp_pinned (plan_route rq) \<and> attemptable (plan_route rq) \<noteq> [] \<and>
     hd (attemptable (plan_route rq)) = c \<and> sorted (map ck_priority (tl (attemptable (plan_route rq))))"
proof -
  have only: "d = c" if "d \<in> set (rq_candidates rq)" "pin_matches (rq_pinned rq) d" for d
    using that assms by (auto simp: pin_matches_def distinct_map inj_on_def)
  have m: "pin_matches (rq_pinned rq) c" by (simp add: pin_matches_def assms(3))
  obtain i where i: "position (pin_matches (rq_pinned rq)) (rq_candidates rq) = Some i"
    using position_exists [where P = "pin_matches (rq_pinned rq)", OF assms(1) m] by blast
  then have "rq_candidates rq ! i = c" using only by (auto simp: position_Some_iff)
  with i assms(2) have hit: "pin_hit rq = Some i" by (simp add: pin_hit_def)
  define xs where "xs = sort_key ck_priority (filter selectable (hoisted rq))"
  have sub: "set xs \<subseteq> set (rq_candidates rq)"
    using mset_eq_setD [OF mset_hoisted] by (auto simp: xs_def)
  have "c \<in> set xs"
    using assms(1,2) mset_eq_setD [OF mset_hoisted, of rq] by (simp add: xs_def)
  then obtain j where j: "position (pin_matches (rq_pinned rq)) xs = Some j"
    using position_exists [where P = "pin_matches (rq_pinned rq)" and xs = xs and x = c] m by blast
  then have jc: "j < length xs" "xs ! j = c" using only sub nth_mem by (auto simp: position_Some_iff)
  have ord: "ready_order rq = move_to_front j xs"
    by (simp add: ready_order_def hit j xs_def [symmetric])
  have "sorted (map ck_priority xs)" by (simp add: xs_def)
  then show ?thesis
    using hd_move_to_front [OF jc(1)] jc hit sorted_tl_move_to_front [of ck_priority xs j]
    by (auto simp: ord move_to_front_def split: list.splits)
qed

definition sample_keys :: "candidate_key list" where
  "sample_keys = [candidate_new (lit ''p'') (lit ''a'') 0, candidate_new (lit ''p'') (lit ''b'') 1,
                  candidate_new (lit ''p'') (lit ''c'') 2]"

lemma pinned_key_leads_witness:
  "let rq = \<lparr>rq_candidates = sample_keys, rq_strategy = KeysRoundRobin, rq_rotation = 0,
             rq_pinned = Some (lit ''p'', lit ''c'')\<rparr>
   in rp_pinned (plan_route rq) \<and> hd (attemptable (plan_route rq)) = candidate_new (lit ''p'') (lit ''c'') 2"
  using pinned_key_leads [of "candidate_new (lit ''p'') (lit ''c'') 2"
    "\<lparr>rq_candidates = sample_keys, rq_strategy = KeysRoundRobin, rq_rotation = 0,
      rq_pinned = Some (lit ''p'', lit ''c'')\<rparr>"]
  by (simp add: sample_keys_def candidate_new_def selectable_def over_token_limit_def Let_def
        del: attemptable_plan)

text \<open>Without a usable pin, the Keys the user prefers come first under every strategy, by
  priority, and the strategy only orders the rest of the pool: by priority, rotated by the
  request counter, or by observed usage and then priority.\<close>
lemma preferred_keys_lead:
  assumes "\<not> rp_pinned (plan_route rq)"
  shows "\<exists>rest. attemptable (plan_route rq) =
       sort_key ck_priority (filter (\<lambda>c. selectable c \<and> ck_preferred c) (rq_candidates rq)) @ rest \<and>
     mset rest = mset (filter (\<lambda>c. selectable c \<and> \<not> ck_preferred c) (rq_candidates rq)) \<and>
     (rq_strategy rq = KeysOrdered \<longrightarrow> sorted (map ck_priority rest)) \<and>
     (rq_strategy rq = KeysRoundRobin \<longrightarrow> (\<exists>by_priority. sorted (map ck_priority by_priority) \<and>
        rest = rotate (rq_rotation rq) by_priority)) \<and>
     (rq_strategy rq = KeysLeastUsed \<longrightarrow> sorted (map (\<lambda>c. (ck_used_tokens c, ck_priority c)) rest))"
proof -
  let ?pool = "sort_key ck_priority (filter (\<lambda>c. selectable c \<and> \<not> ck_preferred c) (rq_candidates rq))"
  have "attemptable (plan_route rq) =
       sort_key ck_priority (filter (\<lambda>c. selectable c \<and> ck_preferred c) (rq_candidates rq)) @
       pool_order (rq_strategy rq) (rq_rotation rq) ?pool"
    using assms ready_order_unpinned by simp
  then show ?thesis
  proof (intro exI conjI)
    show "mset (pool_order (rq_strategy rq) (rq_rotation rq) ?pool) =
        mset (filter (\<lambda>c. selectable c \<and> \<not> ck_preferred c) (rq_candidates rq))" by simp
    show "rq_strategy rq = KeysRoundRobin \<longrightarrow> (\<exists>by_priority. sorted (map ck_priority by_priority) \<and>
        pool_order (rq_strategy rq) (rq_rotation rq) ?pool = rotate (rq_rotation rq) by_priority)"
      by (intro impI exI [of _ ?pool]) (simp add: pool_order_def)
  qed (simp_all add: pool_order_def)
qed

lemma preferred_keys_lead_witness:
  "\<exists>rest. attemptable (plan_route \<lparr>rq_candidates = map (\<lambda>c. c\<lparr>ck_preferred := (ck_priority c = 2)\<rparr>) sample_keys,
        rq_strategy = KeysRoundRobin, rq_rotation = 7, rq_pinned = None\<rparr>) =
      (candidate_new (lit ''p'') (lit ''c'') 2)\<lparr>ck_preferred := True\<rparr> # rest"
  using preferred_keys_lead [of "\<lparr>rq_candidates = map (\<lambda>c. c\<lparr>ck_preferred := (ck_priority c = 2)\<rparr>) sample_keys,
      rq_strategy = KeysRoundRobin, rq_rotation = 7, rq_pinned = None\<rparr>"]
  by (auto simp: pin_hit_def sample_keys_def candidate_new_def selectable_def over_token_limit_def
        pin_matches_def simp del: attemptable_plan)

text \<open>Rotation is fair in its counter: over as many consecutive values of the counter as the pool of
  selectable, non-preferred Keys has members, with the same candidates, every one of them is the first of
  the pool exactly once. The counter is one for the whole service, so consecutive requests of one route
  need not see consecutive values.\<close>
lemma round_robin_fair:
  assumes "rq_strategy rq = KeysRoundRobin" and "rq_pinned rq = None"
    and "pool = filter (\<lambda>c. selectable c \<and> \<not> ck_preferred c) (rq_candidates rq)" and "pool \<noteq> []"
    and "n = length (filter (\<lambda>c. selectable c \<and> ck_preferred c) (rq_candidates rq))"
  shows "mset (map (\<lambda>k. attemptable (plan_route (rq\<lparr>rq_rotation := r + k\<rparr>)) ! n) [0..<length pool]) = mset pool"
proof -
  have no_pin: "pin_hit (rq\<lparr>rq_rotation := k\<rparr>) = None" for k
  proof -
    have "position (pin_matches None) (rq_candidates rq) = None"
      by (simp add: position_None_iff pin_matches_def)
    then show ?thesis by (simp add: pin_hit_def assms(2))
  qed
  have "attemptable (plan_route (rq\<lparr>rq_rotation := k\<rparr>)) ! n = hd (rotate k (sort_key ck_priority pool))" for k
  proof -
    have "attemptable (plan_route (rq\<lparr>rq_rotation := k\<rparr>)) =
       sort_key ck_priority (filter (\<lambda>c. selectable c \<and> ck_preferred c) (rq_candidates rq)) @
       rotate k (sort_key ck_priority pool)"
      using ready_order_unpinned [OF no_pin [of k]] assms(1,3) by (simp add: pool_order_def)
    moreover have "rotate k (sort_key ck_priority pool) \<noteq> []"
      using assms(4) by (metis length_0_conv length_rotate length_sort)
    ultimately show ?thesis
      by (simp add: assms(5) nth_append hd_conv_nth)
  qed
  moreover have "sort_key ck_priority pool \<noteq> []"
    using assms(4) by (metis length_0_conv length_sort)
  ultimately show ?thesis
    using rotation_window [of "sort_key ck_priority pool" r] by simp
qed

lemma round_robin_fair_witness:
  "mset (map (\<lambda>k. attemptable (plan_route (\<lparr>rq_candidates = sample_keys, rq_strategy = KeysRoundRobin,
       rq_rotation = 0, rq_pinned = None\<rparr>\<lparr>rq_rotation := 41 + k\<rparr>)) ! 0) [0..<length sample_keys]) = mset sample_keys"
proof -
  have all: "filter (\<lambda>c. selectable c \<and> \<not> ck_preferred c) sample_keys = sample_keys"
      "filter (\<lambda>c. selectable c \<and> ck_preferred c) sample_keys = []" "sample_keys \<noteq> []"
    by (simp_all add: sample_keys_def candidate_new_def selectable_def over_token_limit_def)
  show ?thesis
    by (rule round_robin_fair) (simp_all add: all)
qed

text \<open>Every member strategy except the weighted cycle and the manual pick tries all the
  members of the route, each exactly once, so failover can reach every one of them; those two
  only ever select from the members.\<close>
lemma member_plan_complete:
  "(strategy \<notin> {Weighted, Manual} \<longrightarrow> mset (plan_members ms strategy r obs pick) = mset ms) \<and>
   mset (plan_members ms strategy r obs pick) \<subseteq># mset ms"
  using plan_members_permutes member_plan.selects by blast

lemma member_plan_complete_witness:
  "Smart \<notin> {Weighted, Manual} \<and>
   mset (plan_members [member_ref_new (lit ''p'') (lit ''m''), member_ref_new (lit ''q'') (lit ''m'')]
     Smart 3 [(lit ''p'', observation_default\<lparr>mb_cooling := True\<rparr>)] None) =
   {#member_ref_new (lit ''p'') (lit ''m''), member_ref_new (lit ''q'') (lit ''m'')#}"
  using member_plan_complete [of Smart] by simp

text \<open>Under the weighted strategy every member leads in proportion to its weight: over one
  full cycle of consecutive requests, as many as the weights add up to, a member is the first
  attempt exactly as often as its weight says, wherever the counter stands.\<close>
lemma weighted_share_exact:
  assumes "distinct ms" and "m \<in> set ms"
  shows "length (filter (\<lambda>k. hd (plan_members ms Weighted (r + k) obs pick) = m)
            [0..<sum_list (map member_weight ms)]) = member_weight m"
proof -
  let ?c = "weighted_cycle ms"
  from assms(2) have ne: "ms \<noteq> []" by auto
  have "map (\<lambda>k. hd (plan_members ms Weighted (r + k) obs pick)) [0..<length ?c] = rotate r ?c"
    using cyclic_window [OF weighted_cycle_nonempty [OF ne], of r]
    by (simp add: plan_members_def hd_weighted_order [OF ne])
  then have "count (mset (map (\<lambda>k. hd (plan_members ms Weighted (r + k) obs pick)) [0..<length ?c])) m
      = member_weight m"
    using count_weighted_cycle [OF assms] by simp
  then show ?thesis
    unfolding count_mset_map length_weighted_cycle .
qed

lemma weighted_share_exact_witness:
  "length (filter (\<lambda>k. hd (plan_members [(member_ref_new (lit ''p'') (lit ''m''))\<lparr>mf_weight := 3\<rparr>,
       member_ref_new (lit ''q'') (lit ''m'')] Weighted (5 + k) [] None)
     = (member_ref_new (lit ''p'') (lit ''m''))\<lparr>mf_weight := 3\<rparr>) [0..<4]) = 3"
  using weighted_share_exact [of "[(member_ref_new (lit ''p'') (lit ''m''))\<lparr>mf_weight := 3\<rparr>,
       member_ref_new (lit ''q'') (lit ''m'')]" "(member_ref_new (lit ''p'') (lit ''m''))\<lparr>mf_weight := 3\<rparr>" 5 "[]" None]
  by (simp add: member_weight_def member_ref_new_def DEFAULT_MEMBER_WEIGHT_def)

lemma weighted_cycle_skewed:
  assumes "mf_weight a = w" and "mf_weight b = 1" and "1 \<le> w"
  shows "weighted_cycle [a, b] = a # b # replicate (w - 1) a"
proof -
  have "concat (map (\<lambda>r. filter (\<lambda>m. r < member_weight m) [a, b]) [1..<n]) = replicate (n - 1) a"
    if "n \<le> w" for n
    using that assms by (induction n) (auto simp: member_weight_def replicate_append_same Suc_le_eq gr0_conv_Suc)
  then have "concat (map (\<lambda>r. filter (\<lambda>m. r < member_weight m) [a, b]) [1..<w]) = replicate (w - 1) a"
    by blast
  moreover have "foldr (max \<circ> member_weight) [a, b] 0 = w" "[0..<w] = 0 # [1..<w]"
    using assms by (auto simp: member_weight_def upt_conv_Cons)
  ultimately show ?thesis
    using assms unfolding weighted_cycle_eq by (simp add: member_weight_def)
qed

text \<open>The weighted plan can lose a member: with two members whose weights are \<open>w\<close> and 1,
  \<open>w\<close> at least 4, the request with counter 2 is planned on the first member alone, because the
  loop looks at only twice as many places of the cycle as there are members. Failover then has
  nothing to go to although the second member is part of the route.\<close>
lemma weighted_plan_loses_member:
  assumes "4 \<le> w" and "mf_weight a = w" and "mf_weight b = 1"
  shows "plan_members [a, b] Weighted 2 obs pick = [a]"
proof -
  have cyc: "weighted_cycle [a, b] = a # b # replicate (w - 1) a"
    using assms by (intro weighted_cycle_skewed) auto
  have len: "length (weighted_cycle [a, b]) = Suc w" using cyc assms(1) by simp
  have at: "weighted_cycle [a, b] ! ((2 + k) mod Suc w) = a" if "k < 4" for k
  proof -
    have "(2 + k) mod Suc w = (if k < w - 1 then 2 + k else 0)"
      using that assms(1) by (auto simp: mod_if)
    then show ?thesis using assms(1) by (auto simp: cyc nth_Cons')
  qed
  have "map (\<lambda>k. weighted_cycle [a, b] ! ((2 + k) mod length (weighted_cycle [a, b]))) [0..<length [a, b] * 2]
      = [a, a, a, a]"
    using at [of 0] at [of 1] at [of 2] at [of 3] by (simp add: len upt_rec numeral_eq_Suc)
  then show ?thesis
    by (simp add: plan_members_def weighted_order_eq)
qed

lemma weighted_plan_loses_member_witness:
  "plan_members [(member_ref_new (lit ''p'') (lit ''m''))\<lparr>mf_weight := 100\<rparr>, member_ref_new (lit ''q'') (lit ''m'')]
     Weighted 2 [] None = [(member_ref_new (lit ''p'') (lit ''m''))\<lparr>mf_weight := 100\<rparr>]"
  by (rule weighted_plan_loses_member [of 100])
     (simp_all add: member_ref_new_def DEFAULT_MEMBER_WEIGHT_def)

text \<open>How a failure is read: an authentication verdict needs a 401, or a 403 whose body says so;
  the body decides nothing outside 402, 403 and 429; and an answer that says the request had the
  wrong shape is never read as a verdict about the credential, its quota or its balance.\<close>
lemma failure_classification:
  "(classify_failure lower status body = Auth \<longleftrightarrow>
      status = 401 \<or> status = 403 \<and> mentions (lower body) auth_words) \<and>
   (status \<notin> {402, 403, 429} \<longrightarrow> classify_failure lower status body = classify_failure lower status body') \<and>
   (is_protocol_mismatch lower status body \<longrightarrow> classify_failure lower status body = Other)"
  by (auto simp: classify_failure_def is_protocol_mismatch_def Let_def split: if_splits)

lemma failure_classification_witness:
  "(503::nat) \<notin> {402, 403, 429} \<and> classify_failure id 503 (lit ''quota'') = classify_failure id 503 [] \<and>
   is_protocol_mismatch id 422 [] \<and> classify_failure id 422 [] = Other"
  using failure_classification [of id 503 "lit ''quota''" "[]"] failure_classification [of id 422 "[]" "[]"]
  by (simp add: is_protocol_mismatch_def)

text \<open>An upstream's alias always works as the prefix of a model id: a display name's alias is
  never empty and contains no slash, so \<open>alias/model\<close> resolves to that upstream whenever no
  other upstream answers to the same prefix, whatever the model is called.\<close>
lemma alias_prefix_resolves:
  assumes "filter (\<lambda>ns. ns_profile ns = provider_alias name \<or> ns_alias ns = provider_alias name) nss = [ns]"
    and "model \<noteq> []"
  shows "resolve_model lower (provider_alias name @ of_char CHR ''/'' # model) nss = Qualified (ns_profile ns) model"
  using assms provider_alias_shape [of name] model_ref_parse_qualified [of "provider_alias name" model]
  by (simp add: resolve_model_def)

lemma alias_prefix_resolves_witness:
  "resolve_model id (provider_alias (lit ''Deep Seek (CN)'') @ of_char CHR ''/'' # lit ''a/b'')
     [\<lparr>ns_profile = lit ''x'', ns_alias = lit ''deep-seek-cn'', ns_models = []\<rparr>] = Qualified (lit ''x'') (lit ''a/b'')"
  using alias_prefix_resolves [of "lit ''Deep Seek (CN)''"
    "[\<lparr>ns_profile = lit ''x'', ns_alias = lit ''deep-seek-cn'', ns_models = []\<rparr>]"
    "\<lparr>ns_profile = lit ''x'', ns_alias = lit ''deep-seek-cn'', ns_models = []\<rparr>" "lit ''a/b''" id]
  by (simp add: provider_alias_def is_ascii_alphanumeric_def is_ascii_digit_def to_ascii_lowercase_def)

end
