(* ===== verification/Gateway_Error.thy ===== *)
theory Gateway_Error
  imports Route_Plan
begin

text \<open>
  The gateway's error surface, \<open>crates/model-gateway/src/error.rs\<close>, and the loop that reads
  it: the patience of a route, \<open>crates/model-gateway/src/server.rs\<close> (\<open>patience_delay\<close> and the
  retry loop of \<open>serve\<close>). The clock and the outcomes of the attempts are arguments; the loop
  runs on fuel. Facts: only capacity and transport failures are retried, a retried error never
  says that the credential or the request is wrong, the loop always ends, after at most ten
  retries for a valid route, and it never sleeps past its deadline.
\<close>

section \<open>Errors\<close>

datatype gateway_error =
    ModelNotFound ustring "ustring list"
  | AllKeysCooling ustring "int option"
  | TokenCeilingReached ustring
  | TranslationDisabled ustring
  | UnsupportedImageReference
  | MalformedRequest ustring
  | UpstreamError nat ustring
  | ProtocolMismatch ustring nat ustring
  | TranslationFailed ustring nat ustring
  | RoutePaused ustring ustring
  | NotConfigured ustring
  | Internal ustring

fun error_status :: "gateway_error \<Rightarrow> nat" where
  "error_status (ModelNotFound _ _) = 404"
| "error_status (AllKeysCooling _ _) = 429"
| "error_status (TokenCeilingReached _) = 429"
| "error_status (TranslationDisabled _) = 400"
| "error_status UnsupportedImageReference = 400"
| "error_status (MalformedRequest _) = 400"
| "error_status (UpstreamError status _) = status"
| "error_status (ProtocolMismatch _ _ _) = 502"
| "error_status (TranslationFailed _ _ _) = 502"
| "error_status (RoutePaused _ _) = 503"
| "error_status (NotConfigured _) = 503"
| "error_status (Internal _) = 500"

fun error_code :: "gateway_error \<Rightarrow> ustring" where
  "error_code (ModelNotFound _ _) = lit ''model_not_found''"
| "error_code (AllKeysCooling _ _) = lit ''model_gateway_keys_cooling''"
| "error_code (TokenCeilingReached _) = lit ''model_gateway_token_ceiling_reached''"
| "error_code (TranslationDisabled _) = lit ''model_gateway_translation_disabled''"
| "error_code UnsupportedImageReference = lit ''unsupported_image_reference''"
| "error_code (MalformedRequest _) = lit ''model_gateway_request_invalid''"
| "error_code (UpstreamError _ _) = lit ''model_gateway_upstream_failed''"
| "error_code (ProtocolMismatch _ _ _) = lit ''model_gateway_protocol_mismatch''"
| "error_code (TranslationFailed _ _ _) = lit ''model_gateway_translation_failed''"
| "error_code (RoutePaused _ _) = lit ''model_gateway_route_paused''"
| "error_code (NotConfigured _) = lit ''model_gateway_not_configured''"
| "error_code (Internal _) = lit ''model_gateway_internal''"

fun join :: "ustring \<Rightarrow> ustring list \<Rightarrow> ustring" where
  "join sep [] = []"
| "join sep [s] = s"
| "join sep (s # t # ss) = s @ sep @ join sep (t # ss)"

definition error_message :: "gateway_error \<Rightarrow> ustring" where
  "error_message e = (case e of
     ModelNotFound model closest \<Rightarrow> (if closest = [] then lit ''No configured Provider serves the model `'' @ model @ lit ''`.''
      else lit ''No configured Provider serves the model `'' @ model
             @ lit ''`. Closest configured models: '' @ join (lit '', '') closest @ lit ''.'')
   | AllKeysCooling model _ \<Rightarrow> lit ''Every Key serving `'' @ model
     @ lit ''` is cooling down after a failure. Requests will resume when one recovers.''
   | TokenCeilingReached provider \<Rightarrow> lit ''`'' @ provider
     @ lit ''` reached the token ceiling you set. Requests will resume when the window rolls over.''
   | TranslationDisabled wire \<Rightarrow> lit ''This request needs a translation to `'' @ wire
     @ lit ''`, which is turned off for this Provider.''
   | UnsupportedImageReference \<Rightarrow> lit ''This request references a vendor-side file, which the gateway cannot forward across Providers. Upload the image directly, or use a direct Provider for this model.''
   | MalformedRequest detail \<Rightarrow> lit ''The gateway could not read this request: '' @ detail
   | UpstreamError _ message \<Rightarrow> message
   | ProtocolMismatch wire _ message \<Rightarrow> lit ''`'' @ wire
     @ lit ''` is the wrong protocol for this endpoint: '' @ message
   | TranslationFailed wire _ message \<Rightarrow> lit ''The gateway could not build a `'' @ wire
     @ lit ''` request this endpoint accepts: '' @ message
   | RoutePaused route reason \<Rightarrow> lit ''Routing for `'' @ route @ lit ''` is paused: '' @ reason
   | NotConfigured detail \<Rightarrow> lit ''The gateway is not configured: '' @ detail
   | Internal detail \<Rightarrow> lit ''The gateway could not complete this request: '' @ detail)"

definition classify_status :: "nat \<Rightarrow> failure_kind" where
  "classify_status status =
     (if status = 401 \<or> status = 403 then Auth
      else if status = 402 then Credit
      else if status = 408 \<or> status = 504 then Upstream
      else if status = 429 then Rate
      else if status = 502 \<or> status = 503 \<or> status = 529 then Proxy
      else Other)"

fun key_failure :: "gateway_error \<Rightarrow> failure_kind option" where
  "key_failure (UpstreamError status _) = Some (classify_status status)"
| "key_failure _ = None"

fun blames_upstream :: "gateway_error \<Rightarrow> bool" where
  "blames_upstream (UpstreamError _ _) = True"
| "blames_upstream (AllKeysCooling _ _) = True"
| "blames_upstream (TokenCeilingReached _) = True"
| "blames_upstream _ = False"

fun error_retry_after_ms :: "gateway_error \<Rightarrow> int option" where
  "error_retry_after_ms (AllKeysCooling _ retry) = retry"
| "error_retry_after_ms _ = None"

fun is_recoverable :: "gateway_error \<Rightarrow> bool" where
  "is_recoverable (UpstreamError status _) \<longleftrightarrow> status \<in> {408, 429, 500, 502, 503, 504, 529}"
| "is_recoverable (AllKeysCooling _ _) \<longleftrightarrow> True"
| "is_recoverable _ \<longleftrightarrow> False"

section \<open>Patience\<close>

definition STEPS_MS :: "nat list" where
  "STEPS_MS = [2000, 4000, 8000, 16000, 30000]"

definition patience_delay :: "nat \<Rightarrow> nat option" where
  "patience_delay retries =
     Some (if retries < length STEPS_MS then STEPS_MS ! retries else last STEPS_MS)"

definition patience_deadline :: "nat option \<Rightarrow> int \<Rightarrow> int option" where
  "patience_deadline patience_ms now =
     (case patience_ms of None \<Rightarrow> None | Some p \<Rightarrow> if p > 0 then Some (now + int p) else None)"

text \<open>
  \<open>attempt k\<close> is the outcome of the preparation and the walk after \<open>k\<close> retries, \<open>clock k\<close> the
  instant read after it failed; the counter saturates at \<open>u32::MAX\<close>.
\<close>

fun patience_loop ::
    "nat \<Rightarrow> int option \<Rightarrow> (nat \<Rightarrow> int) \<Rightarrow> (nat \<Rightarrow> gateway_error + 'a) \<Rightarrow> nat
     \<Rightarrow> ((gateway_error + 'a) \<times> nat) option" where
  "patience_loop 0 deadline clock attempt retries = None"
| "patience_loop (Suc fuel) deadline clock attempt retries =
     (case attempt retries of
        Inr a \<Rightarrow> Some (Inr a, retries)
      | Inl e \<Rightarrow>
          (case deadline of
             None \<Rightarrow> Some (Inl e, retries)
           | Some d \<Rightarrow>
               if \<not> is_recoverable e then Some (Inl e, retries)
               else (case patience_delay retries of
                  None \<Rightarrow> Some (Inl e, retries)
                | Some delay \<Rightarrow>
                    if clock retries + int delay \<ge> d then Some (Inl e, retries)
                    else patience_loop fuel deadline clock attempt (min (retries + 1) 4294967295))))"

section \<open>Facts\<close>

lemma recoverable_blames_upstream: "is_recoverable e \<Longrightarrow> blames_upstream e"
  by (cases e) auto

lemma recoverable_never_auth: "is_recoverable e \<Longrightarrow> key_failure e \<noteq> Some Auth"
  by (cases e) (auto simp: classify_status_def)

lemma delay_ge_2000: "patience_delay k = Some d \<Longrightarrow> 2000 \<le> d \<and> d \<le> 30000"
  by (auto simp: patience_delay_def STEPS_MS_def nth_Cons' split: if_splits)

text \<open>The clock of a run: \<open>tokio::time::sleep\<close> never wakes early.\<close>

definition sleeps :: "(nat \<Rightarrow> int) \<Rightarrow> bool" where
  "sleeps clock \<longleftrightarrow> (\<forall>k d. patience_delay k = Some d \<longrightarrow> clock k + int d \<le> clock (Suc k))"

definition slept :: "nat \<Rightarrow> nat" where
  "slept k = sum_list (map (\<lambda>i. the (patience_delay i)) [0..<k])"

lemma slept_Suc [simp]: "slept (Suc k) = slept k + the (patience_delay k)"
  by (simp add: slept_def)

lemma slept_0 [simp]: "slept 0 = 0"
  by (simp add: slept_def)

lemma slept_ge: "2000 * k \<le> slept k"
proof (induction k)
  case (Suc k)
  obtain d where "patience_delay k = Some d" by (simp add: patience_delay_def)
  with delay_ge_2000 [OF this] Suc show ?case by simp
qed simp

lemma clock_ge_slept: "sleeps clock \<Longrightarrow> clock 0 + int (slept k) \<le> clock k"
proof (induction k)
  case (Suc k)
  obtain d where d: "patience_delay k = Some d" by (simp add: patience_delay_def)
  with Suc show ?case by (fastforce simp: sleeps_def)
qed simp

text \<open>A loop that goes on after \<open>k\<close> retries has slept \<open>slept k\<close> and may sleep once more.\<close>

lemma patience_loop_ends:
  assumes "sleeps clock" and "start \<le> clock 0" and "k + fuel \<le> 4294967295"
    and "k = 0 \<or> slept k < p" and "p < slept (k + fuel)"
  shows "\<exists>r n. patience_loop fuel (Some (start + int p)) clock attempt k = Some (r, n) \<and>
     (n = 0 \<or> slept n < p)"
  using assms(3-)
proof (induction fuel arbitrary: k)
  case 0
  then show ?case by (cases "k = 0") auto
next
  case (Suc fuel)
  obtain d where d: "patience_delay k = Some d" by (simp add: patience_delay_def)
  show ?case
  proof (cases "\<exists>e. attempt k = Inl e \<and> is_recoverable e \<and> clock k + int d < start + int p")
    case True
    then have "clock k + int d < start + int p" by blast
    moreover have "start + int (slept k) \<le> clock k"
      using clock_ge_slept [OF assms(1), of k] assms(2) by linarith
    ultimately have "slept (Suc k) < p" using d by simp
    with Suc.prems have "\<exists>r n. patience_loop fuel (Some (start + int p)) clock attempt (Suc k) = Some (r, n) \<and>
        (n = 0 \<or> slept n < p)"
      by (intro Suc.IH) auto
    moreover have "min (k + 1) 4294967295 = Suc k" using Suc.prems(1) by simp
    ultimately show ?thesis using True d by auto
  next
    case False
    then show ?thesis using Suc.prems d by (auto split: sum.split)
  qed
qed

lemma slept_closed: "4 \<le> k \<Longrightarrow> slept k = 30000 * (k - 3)"
proof (induction k rule: nat_induct_at_least)
  case base
  have four: "(4::nat) = Suc (Suc (Suc (Suc 0)))" by simp
  show ?case unfolding four by (simp add: patience_delay_def STEPS_MS_def)
next
  case (Suc k)
  then have "patience_delay k = Some 30000"
    by (auto simp: patience_delay_def STEPS_MS_def nth_Cons')
  with Suc show ?case by simp
qed

lemma slept_mono: "k \<le> n \<Longrightarrow> slept k \<le> slept n"
  by (induction n) (auto simp: le_Suc_eq)

lemma patience_loop_bounded:
  assumes "sleeps clock" and "start \<le> clock 0" and "p \<in> {1..MAX_ROUTE_PATIENCE_MS}"
  shows "\<exists>r n. patience_loop 12 (patience_deadline (Some p) start) clock attempt 0 = Some (r, n) \<and>
     n \<le> 10 \<and> (n = 0 \<or> slept n < p)"
proof -
  have "p < slept (0 + 12)"
    using assms(3) by (simp add: slept_closed MAX_ROUTE_PATIENCE_MS_def)
  then obtain r n where n: "patience_loop 12 (Some (start + int p)) clock attempt 0 = Some (r, n)"
      "n = 0 \<or> slept n < p"
    using patience_loop_ends [OF assms(1,2), of 0 12 p attempt] by auto
  have "n \<le> 10"
  proof (rule ccontr)
    assume "\<not> n \<le> 10"
    then have "slept 11 \<le> slept n" by (intro slept_mono) simp
    with n(2) assms(3) slept_closed [of 11] \<open>\<not> n \<le> 10\<close> show False
      by (simp add: MAX_ROUTE_PATIENCE_MS_def)
  qed
  with n assms(3) show ?thesis by (simp add: patience_deadline_def)
qed

section \<open>Properties\<close>

text \<open>C36: The retry loop of a request always ends, and for every patience a route may be stored
  with (at most four minutes) it retries at most ten times and its sleeps together stay below
  the patience, whatever the attempts answer and however late the timer wakes.\<close>
theorem patience_bounded:
  assumes "sleeps clock" and "start \<le> clock 0" and "p \<in> {1..MAX_ROUTE_PATIENCE_MS}"
  shows "\<exists>r n. patience_loop 12 (patience_deadline (Some p) start) clock attempt 0 = Some (r, n) \<and>
     n \<le> 10 \<and> (n = 0 \<or> slept n < p)"
  using assms by (rule patience_loop_bounded)

lemma sample_clock: "sleeps (\<lambda>k. int (slept k))"
  by (auto simp: sleeps_def)

theorem patience_bounded_witness:
  "\<exists>r n. patience_loop 12 (patience_deadline (Some 240000) 0) (\<lambda>k. int (slept k))
       (\<lambda>k. Inl (UpstreamError 503 []) :: gateway_error + unit) 0 = Some (r, n) \<and>
     n \<le> 10 \<and> (n = 0 \<or> slept n < 240000)"
  by (rule patience_bounded [OF sample_clock]) (simp_all add: MAX_ROUTE_PATIENCE_MS_def)

text \<open>An error is retried only if it blames the upstream and never when it is an authentication
  failure, and no error that the gateway caused itself counts against a Key: a failure kind is
  reported exactly for upstream answers.\<close>
lemma retried_errors:
  "(is_recoverable e \<longrightarrow> blames_upstream e \<and> key_failure e \<noteq> Some Auth) \<and>
   (key_failure e \<noteq> None \<longrightarrow> blames_upstream e) \<and>
   (\<not> blames_upstream e \<longrightarrow> \<not> is_recoverable e \<and> key_failure e = None)"
  using recoverable_blames_upstream [of e] recoverable_never_auth [of e]
  by (cases e) (auto simp del: is_recoverable.simps)

lemma retried_errors_witness:
  "is_recoverable (UpstreamError 503 []) \<and> blames_upstream (UpstreamError 503 []) \<and>
   \<not> blames_upstream (NotConfigured []) \<and> \<not> is_recoverable (NotConfigured [])"
  using retried_errors [of "UpstreamError 503 []"] retried_errors [of "NotConfigured []"] by simp

end
