(* ===== verification/Canonical_IR.thy ===== *)
theory Canonical_IR
  imports Gateway_Core
begin

text \<open>
  The intermediate representation the four wire protocols convert through,
  \<open>crates/model-gateway/src/ir.rs\<close>: roles, stop reasons and their spellings, content parts,
  requests, replies, streamed events and usage. A JSON value is a datatype whose numbers keep
  their text, since nothing modelled here computes with them; an \<open>f64\<close> is its bit pattern.

  Facts: usage counters merge to the same totals in whatever order and however often a vendor
  repeats them; a stop reason survives the Anthropic spelling unless it is the unmodelled one,
  and which reasons the other two spellings conflate; the vendor-file test looks into nested
  tool results.
\<close>

datatype json =
    JNull
  | JBool bool
  | JNumber ustring
  | JString ustring
  | JArray "json list"
  | JObject "(ustring \<times> json) list"

type_synonym f64_bits = nat

datatype role = User | Assistant

fun role_as_str :: "role \<Rightarrow> ustring" where
  "role_as_str User = lit ''user''"
| "role_as_str Assistant = lit ''assistant''"

datatype stop_reason = EndTurn | MaxTokens | ToolUse | StopSequence | ContentFilter | StopOther

fun stop_chat :: "stop_reason \<Rightarrow> ustring" where
  "stop_chat EndTurn = lit ''stop''"
| "stop_chat MaxTokens = lit ''length''"
| "stop_chat ToolUse = lit ''tool_calls''"
| "stop_chat StopSequence = lit ''stop''"
| "stop_chat ContentFilter = lit ''content_filter''"
| "stop_chat StopOther = lit ''stop''"

fun stop_anthropic :: "stop_reason \<Rightarrow> ustring" where
  "stop_anthropic EndTurn = lit ''end_turn''"
| "stop_anthropic MaxTokens = lit ''max_tokens''"
| "stop_anthropic ToolUse = lit ''tool_use''"
| "stop_anthropic StopSequence = lit ''stop_sequence''"
| "stop_anthropic ContentFilter = lit ''refusal''"
| "stop_anthropic StopOther = lit ''end_turn''"

fun stop_gemini :: "stop_reason \<Rightarrow> ustring" where
  "stop_gemini EndTurn = lit ''STOP''"
| "stop_gemini MaxTokens = lit ''MAX_TOKENS''"
| "stop_gemini ToolUse = lit ''STOP''"
| "stop_gemini StopSequence = lit ''STOP''"
| "stop_gemini ContentFilter = lit ''SAFETY''"
| "stop_gemini StopOther = lit ''OTHER''"

definition from_anthropic :: "ustring \<Rightarrow> stop_reason" where
  "from_anthropic v =
     (if v = lit ''end_turn'' then EndTurn
      else if v = lit ''max_tokens'' then MaxTokens
      else if v = lit ''tool_use'' then ToolUse
      else if v = lit ''stop_sequence'' then StopSequence
      else if v = lit ''refusal'' then ContentFilter
      else StopOther)"

definition from_gemini :: "ustring \<Rightarrow> stop_reason" where
  "from_gemini v =
     (if v = lit ''STOP'' then EndTurn
      else if v = lit ''MAX_TOKENS'' then MaxTokens
      else if v \<in> {lit ''SAFETY'', lit ''RECITATION'', lit ''BLOCKLIST'', lit ''PROHIBITED_CONTENT''}
      then ContentFilter
      else StopOther)"

definition from_chat :: "ustring \<Rightarrow> stop_reason" where
  "from_chat v =
     (if v = lit ''stop'' then EndTurn
      else if v = lit ''length'' then MaxTokens
      else if v = lit ''tool_calls'' \<or> v = lit ''function_call'' then ToolUse
      else if v = lit ''content_filter'' then ContentFilter
      else StopOther)"

section \<open>Content\<close>

datatype image_source =
    Base64 ustring ustring
  | Url ustring
  | VendorFileId ustring

record opaque_signature =
  os_protocol :: ustring
  os_value :: ustring

datatype content_part =
    Text ustring
  | Reasoning ustring "opaque_signature option"
  | Image image_source
  | ToolCall ustring ustring json
  | ToolResult ustring "content_part list" bool
  | Opaque ustring json

record canonical_message =
  cm_role :: role
  cm_parts :: "content_part list"

record tool_definition =
  td_name :: ustring
  td_description :: ustring
  td_parameters :: json
  td_strict :: bool

datatype tool_choice = ChoiceAuto | ChoiceNone | ChoiceRequired | ChoiceNamed ustring

record sampling_params =
  sp_temperature :: "f64_bits option"
  sp_top_p :: "f64_bits option"
  sp_max_tokens :: "nat option"
  sp_stop :: "ustring list"

record reasoning_request =
  rr_disabled :: bool
  rr_effort_asked :: "ustring option"

record canonical_request =
  cr_model :: ustring
  cr_system :: "content_part list"
  cr_messages :: "canonical_message list"
  cr_tools :: "tool_definition list"
  cr_tool_choice :: tool_choice
  cr_parallel_tool_calls :: "bool option"
  cr_sampling :: sampling_params
  cr_reasoning :: reasoning_request
  cr_stream :: bool
  cr_opaque :: "json list"

definition for_model :: "ustring \<Rightarrow> canonical_request" where
  "for_model model = \<lparr>cr_model = model, cr_system = [], cr_messages = [], cr_tools = [],
     cr_tool_choice = ChoiceAuto, cr_parallel_tool_calls = None,
     cr_sampling = \<lparr>sp_temperature = None, sp_top_p = None, sp_max_tokens = None, sp_stop = []\<rparr>,
     cr_reasoning = \<lparr>rr_disabled = False, rr_effort_asked = None\<rparr>, cr_stream = False, cr_opaque = []\<rparr>"

fun vendor_file_part :: "content_part \<Rightarrow> bool" where
  "vendor_file_part (Image (VendorFileId _)) = True"
| "vendor_file_part (ToolResult _ content _) = list_ex vendor_file_part content"
| "vendor_file_part _ = False"

definition has_vendor_file_image :: "canonical_request \<Rightarrow> bool" where
  "has_vendor_file_image r \<longleftrightarrow> list_ex vendor_file_part (cr_system r) \<or>
     list_ex (\<lambda>m. list_ex vendor_file_part (cm_parts m)) (cr_messages r)"

fun text_part :: "content_part \<Rightarrow> ustring option" where
  "text_part (Text t) = (if trim t \<noteq> [] then Some t else None)"
| "text_part _ = None"

definition first_some :: "'a option list \<Rightarrow> 'a option" where
  "first_some xs = (case List.map_filter id xs of [] \<Rightarrow> None | x # _ \<Rightarrow> Some x)"

definition first_user_text :: "canonical_request \<Rightarrow> ustring option" where
  "first_user_text r =
     first_some (map (\<lambda>m. first_some (map text_part (cm_parts m)))
       (filter (\<lambda>m. cm_role m = User) (cr_messages r)))"

section \<open>Usage, replies and events\<close>

record canonical_usage =
  cu_input :: nat
  cu_output :: nat
  cu_cached_read :: nat
  cu_cached_write :: nat
  cu_reasoning :: nat

definition usage_default :: canonical_usage where
  "usage_default = \<lparr>cu_input = 0, cu_output = 0, cu_cached_read = 0, cu_cached_write = 0, cu_reasoning = 0\<rparr>"

definition usage_total :: "canonical_usage \<Rightarrow> nat" where
  "usage_total u =
     sat_add_u64 (sat_add_u64 (sat_add_u64 (sat_add_u64 (cu_input u) (cu_output u)) (cu_cached_read u))
       (cu_cached_write u)) (cu_reasoning u)"

definition usage_merge :: "canonical_usage \<Rightarrow> canonical_usage \<Rightarrow> canonical_usage" where
  "usage_merge u v = \<lparr>cu_input = max (cu_input u) (cu_input v), cu_output = max (cu_output u) (cu_output v),
     cu_cached_read = max (cu_cached_read u) (cu_cached_read v),
     cu_cached_write = max (cu_cached_write u) (cu_cached_write v),
     cu_reasoning = max (cu_reasoning u) (cu_reasoning v)\<rparr>"

record canonical_response =
  cp_id :: ustring
  cp_model :: ustring
  cp_parts :: "content_part list"
  cp_stop :: stop_reason
  cp_usage :: canonical_usage

datatype canonical_event =
    EvStart ustring ustring canonical_usage
  | EvTextDelta ustring
  | EvReasoningStart
  | EvReasoningDelta ustring
  | EvReasoningSignature ustring
  | EvToolCallStart ustring ustring
  | EvToolCallArgumentsDelta ustring ustring
  | EvToolCallEnd ustring json
  | EvUsage canonical_usage
  | EvStop stop_reason
  | EvError nat ustring

section \<open>Facts\<close>

text \<open>Merging is a join: commutative, associative and idempotent.\<close>

lemma usage_merge_laws:
  "usage_merge u v = usage_merge v u"
  "usage_merge (usage_merge u v) w = usage_merge u (usage_merge v w)"
  "usage_merge u (usage_merge v w) = usage_merge v (usage_merge u w)"
  "usage_merge u (usage_merge u v) = usage_merge u v"
  "usage_merge u u = u"
  by (simp_all add: usage_merge_def max.commute max.assoc max.left_commute)

lemma usage_merge_absorb:
  "u \<in> set us \<Longrightarrow> usage_merge u (foldr usage_merge us w) = foldr usage_merge us w"
proof (induction us)
  case (Cons x us)
  show ?case
  proof (cases "u = x")
    case True
    then show ?thesis by (simp add: usage_merge_laws(4))
  next
    case False
    with Cons show ?thesis by (simp add: usage_merge_laws(3) [of u x])
  qed
qed simp

lemma usage_merge_subset:
  "set us \<subseteq> set vs \<Longrightarrow> foldr usage_merge us (foldr usage_merge vs w) = foldr usage_merge vs w"
  by (induction us) (simp_all add: usage_merge_absorb)

lemma foldr_merge_swap: "foldr usage_merge us (usage_merge u w) = usage_merge u (foldr usage_merge us w)"
  by (induction us) (simp_all add: usage_merge_laws(3))

lemma foldr_merge_commute: "foldr usage_merge us (foldr usage_merge vs w) = foldr usage_merge vs (foldr usage_merge us w)"
  by (induction us) (simp_all add: foldr_merge_swap)

lemma usage_merge_set_eq:
  assumes "set us = set vs"
  shows "foldr usage_merge us w = foldr usage_merge vs w"
proof -
  have "foldr usage_merge us w = foldr usage_merge vs (foldr usage_merge us w)"
    using usage_merge_subset [of vs us w] assms by simp
  also have "\<dots> = foldr usage_merge us (foldr usage_merge vs w)"
    by (rule foldr_merge_commute)
  also have "\<dots> = foldr usage_merge vs w"
    using usage_merge_subset [of us vs w] assms by simp
  finally show ?thesis .
qed

lemma foldl_merge_foldr: "foldl usage_merge w us = foldr usage_merge us w"
proof (induction us arbitrary: w)
  case (Cons u us)
  then show ?case by (simp add: usage_merge_laws(1) [of w u] foldr_merge_swap)
qed simp

section \<open>Properties\<close>

text \<open>Usage adds up independently of how a vendor reports it: folding the usage reports of a
  reply gives the same counters for every order and every repetition of the same reports.\<close>
lemma usage_report_order:
  assumes "set us = set vs"
  shows "foldl usage_merge w us = foldl usage_merge w vs"
  using usage_merge_set_eq [OF assms] by (simp add: foldl_merge_foldr)

lemma usage_report_order_witness:
  "foldl usage_merge usage_default [usage_default\<lparr>cu_input := 5\<rparr>, usage_default\<lparr>cu_output := 2\<rparr>, usage_default\<lparr>cu_input := 5\<rparr>] =
   foldl usage_merge usage_default [usage_default\<lparr>cu_output := 2\<rparr>, usage_default\<lparr>cu_input := 5\<rparr>]"
  by (rule usage_report_order) auto

text \<open>A stop reason written in a protocol's spelling and read back is the same, with these
  exceptions: the unmodelled reason becomes a natural end (Anthropic, Chat), Chat also reads a
  stop sequence as a natural end, and Gemini reads a stop sequence and a tool call so.\<close>
lemma stop_reason_round_trip:
  "from_anthropic (stop_anthropic r) = (if r = StopOther then EndTurn else r) \<and>
   from_chat (stop_chat r) = (if r \<in> {StopOther, StopSequence} then EndTurn else r) \<and>
   from_gemini (stop_gemini r) = (if r \<in> {ToolUse, StopSequence} then EndTurn else r)"
  by (cases r) (simp_all add: from_anthropic_def from_chat_def from_gemini_def)

end
