(* ===== verification/Tool_Names.thy ===== *)
theory Tool_Names
  imports Canonical_IR
begin

text \<open>
  Tool-name normalization, \<open>crates/model-gateway/src/tool_names.rs\<close>. The digest of a long name
  comes from the standard hasher, whose result is unspecified, so it is the argument \<open>hash\<close>
  (the low 32 bits). Candidate names are ASCII, so byte and character positions agree.

  Facts: the loop that looks for a free suffix ends; the wire names of a request are pairwise
  distinct and every one is accepted by the strict protocols; the reply's names are restored to
  the client's; the names depend only on which tools the request mentions; a rewritten body
  spells the wire names exactly where the protocol spells tool names.
\<close>

datatype wire_protocol = ChatCompletions | Responses | AnthropicMessages | GeminiGenerateContent

section \<open>Names\<close>

definition MAX_TOOL_NAME_LEN :: nat where
  "MAX_TOOL_NAME_LEN = 64"

definition tool_char :: "uchar \<Rightarrow> bool" where
  "tool_char c \<longleftrightarrow> is_ascii_alphanumeric c \<or> c = of_char CHR ''-'' \<or> c = of_char CHR ''_''"

definition starts_with_digit :: "ustring \<Rightarrow> bool" where
  "starts_with_digit s = (case s of [] \<Rightarrow> False | c # _ \<Rightarrow> is_ascii_digit c)"

definition is_accepted_tool_name :: "ustring \<Rightarrow> bool" where
  "is_accepted_tool_name name \<longleftrightarrow> name \<noteq> [] \<and> byte_len name \<le> MAX_TOOL_NAME_LEN \<and>
     (\<forall>c \<in> set name. tool_char c) \<and> \<not> starts_with_digit name"

fun hex_string :: "nat \<Rightarrow> nat \<Rightarrow> ustring" where
  "hex_string 0 n = []"
| "hex_string (Suc width) n = hex_string width (n div 16) @ [hex_digit (n mod 16)]"

text \<open>\<open>format!("{:08x}", hasher.finish() as u32)\<close>.\<close>

definition short_digest :: "(ustring \<Rightarrow> nat) \<Rightarrow> ustring \<Rightarrow> ustring" where
  "short_digest hash name = hex_string 8 (hash name mod 4294967296)"

definition sanitize_tool_name :: "(ustring \<Rightarrow> nat) \<Rightarrow> ustring \<Rightarrow> ustring" where
  "sanitize_tool_name hash name =
     (if is_accepted_tool_name name then name
      else let s = map (\<lambda>c. if tool_char c then c else of_char CHR ''_'') (trim name);
               s1 = (if s = [] then lit ''tool'' else s);
               s2 = (if starts_with_digit s1 then of_char CHR ''_'' # s1 else s1)
           in if length s2 > MAX_TOOL_NAME_LEN
              then take (MAX_TOOL_NAME_LEN - length (short_digest hash name) - 1) s2
                     @ lit ''_'' @ short_digest hash name
              else s2)"

definition suffixed_tool_name :: "ustring \<Rightarrow> nat \<Rightarrow> ustring" where
  "suffixed_tool_name candidate k =
     (let s = lit ''_'' @ dec_string k
      in take (MAX_TOOL_NAME_LEN - length s) candidate @ s)"

section \<open>Decimal numbers\<close>

lemma dec_string_digits: "c \<in> set (dec_string n) \<Longrightarrow> is_ascii_digit c"
proof (induction n rule: dec_string.induct)
  case (1 n)
  then show ?case
    by (subst (asm) (2) dec_string.simps) (auto simp: is_ascii_digit_def split: if_splits)
qed

lemma dec_string_nonempty [simp]: "dec_string n \<noteq> []"
  by (subst dec_string.simps) simp

definition dec_value :: "ustring \<Rightarrow> nat" where
  "dec_value s = foldl (\<lambda>v c. 10 * v + (c - 48)) 0 s"

lemma dec_value_dec_string: "dec_value (dec_string n) = n"
proof (induction n rule: dec_string.induct)
  case (1 n)
  then show ?case
    by (subst dec_string.simps) (auto simp: dec_value_def)
qed

lemma dec_string_inj: "dec_string m = dec_string n \<Longrightarrow> m = n"
  by (metis dec_value_dec_string)

lemma dec_string_length: "n < 10 ^ Suc k \<Longrightarrow> length (dec_string n) \<le> Suc k"
proof (induction k arbitrary: n)
  case 0
  then show ?case by (subst dec_string.simps) simp
next
  case (Suc k)
  then have "n div 10 < 10 ^ Suc k" by (simp add: less_mult_imp_div_less)
  with Suc.IH show ?case by (subst dec_string.simps) auto
qed

text \<open>The part after the last underscore.\<close>

lemma suffixed_inj:
  assumes "suffixed_tool_name c m = suffixed_tool_name c n"
  shows "m = n"
proof -
  have tail: "takeWhile (\<lambda>x. x \<noteq> 95) (rev (suffixed_tool_name c k)) = rev (dec_string k)" for k
  proof -
    have "\<forall>x \<in> set (rev (dec_string k)). x \<noteq> 95"
      using dec_string_digits [of _ k] by (fastforce simp: is_ascii_digit_def)
    then show ?thesis
      by (simp add: suffixed_tool_name_def Let_def takeWhile_append)
  qed
  have "rev (dec_string m) = rev (dec_string n)"
    using tail [of m] tail [of n] assms by simp
  then show ?thesis by (simp add: dec_string_inj)
qed

section \<open>Building the map\<close>

lemma suffixes_finite: "finite {s. suffixed_tool_name c s \<in> set taken}"
proof -
  have "inj_on (suffixed_tool_name c) {s. suffixed_tool_name c s \<in> set taken}"
    by (auto intro!: inj_onI dest: suffixed_inj)
  moreover have "suffixed_tool_name c ` {s. suffixed_tool_name c s \<in> set taken} \<subseteq> set taken" by auto
  ultimately show ?thesis using finite_subset finite_imageD by blast
qed

function unique_name :: "ustring list \<Rightarrow> ustring \<Rightarrow> ustring \<Rightarrow> nat \<Rightarrow> ustring" where
  "unique_name taken candidate unique k =
     (if unique \<in> set taken
      then unique_name taken candidate (suffixed_tool_name candidate k) (k + 1)
      else unique)"
  by auto

text \<open>Measure: the taken suffixes from here on, and whether the current name is taken.\<close>

definition name_measure :: "ustring list \<times> ustring \<times> ustring \<times> nat \<Rightarrow> nat" where
  "name_measure st = (case st of (taken, c, u, k) \<Rightarrow>
     card {s. k \<le> s \<and> suffixed_tool_name c s \<in> set taken} + (if u \<in> set taken then 1 else 0))"

lemma name_measure_decreases:
  assumes "u \<in> set taken"
  shows "name_measure (taken, c, suffixed_tool_name c k, Suc k) < name_measure (taken, c, u, k)"
proof -
  define S where "S = (\<lambda>k. {s. k \<le> s \<and> suffixed_tool_name c s \<in> set taken})"
  have fin: "finite (S k)" for k
    by (rule finite_subset [OF _ suffixes_finite [of c taken]]) (auto simp: S_def)
  have sub: "S (Suc k) \<subseteq> S k" by (auto simp: S_def)
  show ?thesis
  proof (cases "suffixed_tool_name c k \<in> set taken")
    case True
    then have "k \<in> S k" "k \<notin> S (Suc k)" by (auto simp: S_def)
    then have "S (Suc k) \<subset> S k" using sub by blast
    then have "card (S (Suc k)) < card (S k)" using fin psubset_card_mono by blast
    then show ?thesis using assms True by (simp add: name_measure_def S_def)
  next
    case False
    have "card (S (Suc k)) \<le> card (S k)" using fin sub card_mono by blast
    then show ?thesis using assms False by (simp add: name_measure_def S_def)
  qed
qed

termination unique_name
  by (relation "measure name_measure") (simp_all add: name_measure_decreases)

declare unique_name.simps [simp del]

record tool_name_map =
  original_to_wire :: "ustring \<rightharpoonup> ustring"
  wire_to_original :: "ustring \<rightharpoonup> ustring"

record name_state =
  nm_map :: tool_name_map
  nm_taken :: "ustring list"

definition name_step :: "(ustring \<Rightarrow> nat) \<Rightarrow> name_state \<Rightarrow> ustring \<Rightarrow> name_state" where
  "name_step hash st name =
     (let candidate = sanitize_tool_name hash name in
      if candidate = name \<and> candidate \<notin> set (nm_taken st)
      then st\<lparr>nm_taken := candidate # nm_taken st\<rparr>
      else let unique = unique_name (nm_taken st) candidate candidate 2 in
        \<lparr>nm_map = \<lparr>original_to_wire = (original_to_wire (nm_map st))(name \<mapsto> unique),
                   wire_to_original = (wire_to_original (nm_map st))(unique \<mapsto> name)\<rparr>,
         nm_taken = unique # nm_taken st\<rparr>)"

definition request_names :: "canonical_request \<Rightarrow> ustring list" where
  "request_names r =
     filter (\<lambda>n. trim n \<noteq> []) (map td_name (cr_tools r))
     @ concat (map (\<lambda>m. List.map_filter (\<lambda>p. case p of ToolCall _ name _ \<Rightarrow> Some name | _ \<Rightarrow> None) (cm_parts m))
         (cr_messages r))
     @ (case cr_tool_choice r of ChoiceNamed name \<Rightarrow> [name] | _ \<Rightarrow> [])"

definition names_start :: name_state where
  "names_start = \<lparr>nm_map = \<lparr>original_to_wire = Map.empty, wire_to_original = Map.empty\<rparr>, nm_taken = []\<rparr>"

definition build_names :: "(ustring \<Rightarrow> nat) \<Rightarrow> ustring list \<Rightarrow> tool_name_map" where
  "build_names hash names = nm_map (foldl (name_step hash) names_start (remdups_adj (sort names)))"

definition tool_names_build :: "(ustring \<Rightarrow> nat) \<Rightarrow> canonical_request \<Rightarrow> tool_name_map" where
  "tool_names_build hash r = build_names hash (request_names r)"

definition names_is_empty :: "tool_name_map \<Rightarrow> bool" where
  "names_is_empty m \<longleftrightarrow> original_to_wire m = Map.empty"

section \<open>Applying the map\<close>

text \<open>\<open>Value::get_mut(key)\<close> with an update of what it points to.\<close>

fun update_field :: "ustring \<Rightarrow> (json \<Rightarrow> json) \<Rightarrow> json \<Rightarrow> json" where
  "update_field key f (JObject kvs) = JObject (map (\<lambda>(k, v). (k, if k = key then f v else v)) kvs)"
| "update_field key f v = v"

fun rewrite_at :: "tool_name_map \<Rightarrow> ustring list \<Rightarrow> json \<Rightarrow> json" where
  "rewrite_at m [] (JString name) =
     (case original_to_wire m name of Some w \<Rightarrow> JString w | None \<Rightarrow> JString name)"
| "rewrite_at m [] v = v"
| "rewrite_at m (key # path) v = update_field key (rewrite_at m path) v"

fun each_item :: "(json \<Rightarrow> json) \<Rightarrow> json \<Rightarrow> json" where
  "each_item f (JArray items) = JArray (map f items)"
| "each_item f v = v"

definition rewrite_list :: "tool_name_map \<Rightarrow> ustring \<Rightarrow> ustring list \<Rightarrow> json \<Rightarrow> json" where
  "rewrite_list m key path body = update_field key (each_item (rewrite_at m path)) body"

fun get_field :: "ustring \<Rightarrow> json \<Rightarrow> json option" where
  "get_field key (JObject kvs) = map_of kvs key"
| "get_field key v = None"

definition rewrite_block :: "tool_name_map \<Rightarrow> json \<Rightarrow> json" where
  "rewrite_block m block =
     (if get_field (lit ''type'') block = Some (JString (lit ''tool_use''))
      then rewrite_at m [lit ''name''] block else block)"

definition rewrite_body :: "tool_name_map \<Rightarrow> wire_protocol \<Rightarrow> json \<Rightarrow> json" where
  "rewrite_body m target body =
     (if names_is_empty m then body
      else case target of
        GeminiGenerateContent \<Rightarrow> body
      | ChatCompletions \<Rightarrow>
          update_field (lit ''messages'')
            (each_item (update_field (lit ''tool_calls'') (each_item (rewrite_at m [lit ''function'', lit ''name'']))))
            (update_field (lit ''tool_choice'') (rewrite_at m [lit ''function'', lit ''name''])
              (rewrite_list m (lit ''tools'') [lit ''function'', lit ''name''] body))
      | Responses \<Rightarrow>
          rewrite_list m (lit ''input'') [lit ''name'']
            (update_field (lit ''tool_choice'') (rewrite_at m [lit ''name''])
              (rewrite_list m (lit ''tools'') [lit ''name''] body))
      | AnthropicMessages \<Rightarrow>
          update_field (lit ''messages'')
            (each_item (update_field (lit ''content'') (each_item (rewrite_block m))))
            (update_field (lit ''tool_choice'') (rewrite_at m [lit ''name''])
              (rewrite_list m (lit ''tools'') [lit ''name''] body)))"

definition restore_name :: "tool_name_map \<Rightarrow> ustring \<Rightarrow> ustring" where
  "restore_name m name = (case wire_to_original m name of Some original \<Rightarrow> original | None \<Rightarrow> name)"

definition restore_response :: "tool_name_map \<Rightarrow> canonical_response \<Rightarrow> canonical_response" where
  "restore_response m r =
     (if names_is_empty m then r
      else r\<lparr>cp_parts := map (\<lambda>p. case p of ToolCall cid name args \<Rightarrow> ToolCall cid (restore_name m name) args | _ \<Rightarrow> p)
                          (cp_parts r)\<rparr>)"

definition restore_event :: "tool_name_map \<Rightarrow> canonical_event \<Rightarrow> canonical_event" where
  "restore_event m e =
     (if names_is_empty m then e
      else case e of EvToolCallStart cid name \<Rightarrow> EvToolCallStart cid (restore_name m name) | _ \<Rightarrow> e)"

text \<open>The name a client's tool has on the wire.\<close>

definition wire_name :: "tool_name_map \<Rightarrow> ustring \<Rightarrow> ustring" where
  "wire_name m name = (case original_to_wire m name of Some w \<Rightarrow> w | None \<Rightarrow> name)"

section \<open>Accepted names\<close>

lemma tool_char_ascii: "tool_char c \<Longrightarrow> utf8_len c = 1"
  by (auto simp: tool_char_def is_ascii_alphanumeric_def is_ascii_digit_def utf8_len_def)

lemma byte_len_tool: "\<forall>c \<in> set s. tool_char c \<Longrightarrow> byte_len s = length s"
  by (induction s) (simp_all add: byte_len_def tool_char_ascii)

lemma accepted_iff:
  "is_accepted_tool_name s \<longleftrightarrow> s \<noteq> [] \<and> length s \<le> 64 \<and> (\<forall>c \<in> set s. tool_char c) \<and> \<not> starts_with_digit s"
  using byte_len_tool [of s] by (auto simp: is_accepted_tool_name_def MAX_TOOL_NAME_LEN_def)

lemma length_hex_string [simp]: "length (hex_string w n) = w"
  by (induction w arbitrary: n) auto

lemma tool_char_digits: "is_ascii_digit c \<Longrightarrow> tool_char c"
  by (simp add: tool_char_def is_ascii_alphanumeric_def)

lemma tool_char_hex: "d < 16 \<Longrightarrow> tool_char (hex_digit d)"
  by (auto simp: hex_digit_def tool_char_def is_ascii_alphanumeric_def is_ascii_digit_def)

lemma hex_string_chars: "c \<in> set (hex_string w n) \<Longrightarrow> tool_char c"
  by (induction w arbitrary: n) (auto intro: tool_char_hex)

lemma tool_char_underscore [simp]: "tool_char 95"
  by (simp add: tool_char_def)

lemma starts_with_digit_append [simp]: "s \<noteq> [] \<Longrightarrow> starts_with_digit (s @ t) = starts_with_digit s"
  by (cases s) (simp_all add: starts_with_digit_def)

lemma starts_with_digit_take: "0 < n \<Longrightarrow> starts_with_digit (take n s) = starts_with_digit s"
  by (cases s; cases n) (simp_all add: starts_with_digit_def)

lemma accepted_cut:
  assumes "s \<noteq> []" and "\<forall>c \<in> set s. tool_char c" and "\<not> starts_with_digit s"
    and "\<forall>c \<in> set t. tool_char c" and "length t < 64"
  shows "is_accepted_tool_name (take (64 - length t) s @ t)"
proof -
  have "take (64 - length t) s \<noteq> []" using assms by (cases s) auto
  with assms show ?thesis
    by (auto simp: accepted_iff starts_with_digit_take dest: in_set_takeD)
qed

lemma sanitize_accepted: "is_accepted_tool_name (sanitize_tool_name hash name)"
proof (cases "is_accepted_tool_name name")
  case False
  define s1 where "s1 = (let s = map (\<lambda>c. if tool_char c then c else of_char CHR ''_'') (trim name) in
      if s = [] then lit ''tool'' else s)"
  define s2 where "s2 = (if starts_with_digit s1 then of_char CHR ''_'' # s1 else s1)"
  have s1: "s1 \<noteq> []" "\<forall>c \<in> set s1. tool_char c"
    by (auto simp: s1_def Let_def tool_char_def is_ascii_alphanumeric_def)
  have s2: "s2 \<noteq> []" "\<forall>c \<in> set s2. tool_char c" "\<not> starts_with_digit s2"
    using s1 by (auto simp: s2_def) (simp_all add: starts_with_digit_def is_ascii_digit_def)
  have eq: "sanitize_tool_name hash name =
      (if length s2 > 64 then take (64 - length (lit ''_'' @ short_digest hash name)) s2 @ lit ''_'' @ short_digest hash name
       else s2)"
    using False by (simp add: sanitize_tool_name_def s1_def s2_def Let_def MAX_TOOL_NAME_LEN_def)
  have t: "\<forall>c \<in> set (lit ''_'' @ short_digest hash name). tool_char c" "length (lit ''_'' @ short_digest hash name) < 64"
    by (auto simp: short_digest_def intro: hex_string_chars)
  show ?thesis
    using accepted_cut [OF s2 t] s2 by (auto simp: eq accepted_iff)
qed (simp add: sanitize_tool_name_def)

lemma suffixed_accepted:
  assumes "is_accepted_tool_name c" and "k < 10 ^ 20"
  shows "is_accepted_tool_name (suffixed_tool_name c k)"
proof -
  have "length (dec_string k) \<le> 20" using dec_string_length [of k 19] assms(2) by simp
  then have t: "\<forall>x \<in> set (lit ''_'' @ dec_string k). tool_char x" "length (lit ''_'' @ dec_string k) < 64"
    by (auto dest: dec_string_digits intro: tool_char_digits)
  show ?thesis
    using accepted_cut [OF _ _ _ t, of c] assms(1)
    by (simp add: accepted_iff suffixed_tool_name_def MAX_TOOL_NAME_LEN_def Let_def)
qed

section \<open>The free name\<close>

lemma unique_name_free: "unique_name taken c u k \<notin> set taken"
  by (induction taken c u k rule: unique_name.induct) (subst unique_name.simps, simp)

lemma unique_name_cases:
  "unique_name taken c u k = u \<or>
   (\<exists>j \<ge> k. unique_name taken c u k = suffixed_tool_name c j \<and> (\<forall>i. k \<le> i \<and> i < j \<longrightarrow> suffixed_tool_name c i \<in> set taken))"
proof (induction taken c u k rule: unique_name.induct)
  case (1 taken c u k)
  show ?case
  proof (cases "u \<in> set taken")
    case True
    then have eq: "unique_name taken c u k = unique_name taken c (suffixed_tool_name c k) (k + 1)"
      by (subst unique_name.simps) simp
    from 1 [OF True] show ?thesis
    proof
      assume "unique_name taken c (suffixed_tool_name c k) (k + 1) = suffixed_tool_name c k"
      then show ?thesis unfolding eq by (intro disjI2 exI [of _ k]) auto
    next
      assume "\<exists>j \<ge> k + 1. unique_name taken c (suffixed_tool_name c k) (k + 1) = suffixed_tool_name c j \<and>
          (\<forall>i. k + 1 \<le> i \<and> i < j \<longrightarrow> suffixed_tool_name c i \<in> set taken)"
      then obtain j where j: "k + 1 \<le> j" "unique_name taken c (suffixed_tool_name c k) (k + 1) = suffixed_tool_name c j"
          "\<forall>i. k + 1 \<le> i \<and> i < j \<longrightarrow> suffixed_tool_name c i \<in> set taken" by blast
      have "suffixed_tool_name c k \<in> set taken"
      proof (rule ccontr)
        assume "suffixed_tool_name c k \<notin> set taken"
        then have "unique_name taken c (suffixed_tool_name c k) (k + 1) = suffixed_tool_name c k"
          by (subst unique_name.simps) simp
        with j(1,2) show False using suffixed_inj [of c j k] by simp
      qed
      with j show ?thesis unfolding eq
        by (intro disjI2 exI [of _ j]) (metis Suc_eq_plus1 Suc_leI le_less nat_le_linear not_less_eq_eq order_trans)
    qed
  qed (subst unique_name.simps, simp)
qed

lemma unique_name_bound:
  assumes "unique_name taken c u k = suffixed_tool_name c j" and "k \<le> j"
    and "\<forall>i. k \<le> i \<and> i < j \<longrightarrow> suffixed_tool_name c i \<in> set taken"
  shows "j \<le> k + length taken"
proof -
  have "inj_on (suffixed_tool_name c) {k..<j}" by (auto intro!: inj_onI dest: suffixed_inj)
  moreover have "suffixed_tool_name c ` {k..<j} \<subseteq> set taken" using assms(3) by auto
  ultimately have "card {k..<j} \<le> card (set taken)"
    by (metis List.finite_set card_image card_mono)
  then show ?thesis using card_length [of taken] by simp
qed

lemma unique_name_accepted:
  assumes "is_accepted_tool_name c" and "2 + length taken < 10 ^ 20"
  shows "is_accepted_tool_name (unique_name taken c c 2)"
proof (cases "unique_name taken c c 2 = c")
  case False
  then obtain j where j: "2 \<le> j" "unique_name taken c c 2 = suffixed_tool_name c j"
      "\<forall>i. 2 \<le> i \<and> i < j \<longrightarrow> suffixed_tool_name c i \<in> set taken"
    using unique_name_cases [of taken c c 2] by blast
  with unique_name_bound [OF j(2,1,3)] assms suffixed_accepted [OF assms(1)] show ?thesis by auto
qed (use assms in simp)

section \<open>The map of a request\<close>

definition names_inv :: "ustring set \<Rightarrow> name_state \<Rightarrow> bool" where
  "names_inv ns st \<longleftrightarrow>
     set (nm_taken st) = wire_name (nm_map st) ` ns \<and> inj_on (wire_name (nm_map st)) ns \<and>
     (\<forall>n \<in> ns. is_accepted_tool_name (wire_name (nm_map st) n) \<and>
        restore_name (nm_map st) (wire_name (nm_map st) n) = n) \<and>
     dom (original_to_wire (nm_map st)) \<subseteq> ns \<and> dom (wire_to_original (nm_map st)) \<subseteq> set (nm_taken st)"

lemma name_step_kept:
  assumes "names_inv ns st" and "name \<notin> ns"
    and "sanitize_tool_name hash name = name" and "name \<notin> set (nm_taken st)"
  shows "names_inv (insert name ns) (name_step hash st name)"
proof -
  have "wire_name (nm_map st) name = name"
    using assms(1,2) by (auto simp: wire_name_def names_inv_def split: option.split)
  moreover have "restore_name (nm_map st) name = name"
    using assms(1,4) by (auto simp: restore_name_def names_inv_def split: option.split)
  ultimately show ?thesis
    using assms sanitize_accepted [of hash name] by (auto simp: names_inv_def name_step_def Let_def)
qed

lemma name_step_renamed:
  assumes "names_inv ns st" and "name \<notin> ns" and "2 + length (nm_taken st) < 10 ^ 20"
    and "\<not> (sanitize_tool_name hash name = name \<and> name \<notin> set (nm_taken st))"
  shows "names_inv (insert name ns) (name_step hash st name)"
proof -
  define u where "u = unique_name (nm_taken st) (sanitize_tool_name hash name) (sanitize_tool_name hash name) 2"
  define m' where "m' = \<lparr>original_to_wire = (original_to_wire (nm_map st))(name \<mapsto> u),
                   wire_to_original = (wire_to_original (nm_map st))(u \<mapsto> name)\<rparr>"
  have st': "name_step hash st name = \<lparr>nm_map = m', nm_taken = u # nm_taken st\<rparr>"
    using assms(4) by (auto simp: name_step_def Let_def u_def m'_def)
  have free: "u \<notin> set (nm_taken st)" by (simp add: u_def unique_name_free)
  have acc: "is_accepted_tool_name u"
    using unique_name_accepted [OF sanitize_accepted assms(3)] by (simp add: u_def)
  have new: "wire_name m' name = u" "restore_name m' u = name"
    by (simp_all add: m'_def wire_name_def restore_name_def)
  have old: "wire_name m' n = wire_name (nm_map st) n" if "n \<in> ns" for n
    using that assms(2) by (auto simp: m'_def wire_name_def)
  have unre: "restore_name m' w = restore_name (nm_map st) w" if "w \<in> set (nm_taken st)" for w
    using that free by (auto simp: m'_def restore_name_def)
  have img: "wire_name m' ` ns = wire_name (nm_map st) ` ns" using old by (rule image_cong [OF refl])
  have inj: "inj_on (wire_name m') (insert name ns)"
    using assms(1,2) free new(1) img inj_on_cong [of "ns" "wire_name m'" "wire_name (nm_map st)"] old
    by (simp add: names_inv_def)
  have "\<forall>n \<in> ns. restore_name m' (wire_name m' n) = n \<and> is_accepted_tool_name (wire_name m' n)"
    using assms(1) old unre by (auto simp: names_inv_def)
  with inj img new acc assms(1) show ?thesis
    unfolding st' names_inv_def by (auto simp: m'_def names_inv_def)
qed

lemma name_steps_inv:
  "names_inv ns st \<Longrightarrow> distinct names \<Longrightarrow> set names \<inter> ns = {} \<Longrightarrow>
   2 + length (nm_taken st) + length names < 10 ^ 20 \<Longrightarrow>
   names_inv (ns \<union> set names) (foldl (name_step hash) st names)"
proof (induction names arbitrary: "ns" st)
  case (Cons name names)
  have step: "names_inv (insert name ns) (name_step hash st name)"
    using Cons.prems name_step_kept [of "ns" st name hash] name_step_renamed [of "ns" st name hash] by fastforce
  have "length (nm_taken (name_step hash st name)) = Suc (length (nm_taken st))"
    by (simp add: name_step_def Let_def)
  with Cons.prems have "names_inv (insert name ns \<union> set names) (foldl (name_step hash) (name_step hash st name) names)"
    by (intro Cons.IH [OF step]) auto
  then show ?case by simp
qed simp

lemma distinct_remdups_adj_sort: "distinct (remdups_adj (sort xs))"
proof -
  have "distinct (remdups_adj ys)" if "sorted ys" for ys :: "'a list"
    using that by (induction ys rule: remdups_adj.induct) (auto simp: less_le_not_le)
  then show ?thesis by simp
qed

lemma names_start_inv: "names_inv {} names_start"
  by (simp add: names_inv_def names_start_def)

lemma build_names_inv:
  assumes "length names \<le> U64_MAX"
  shows "names_inv (set names) (foldl (name_step hash) names_start (remdups_adj (sort names)))"
proof -
  have "2 + length (nm_taken names_start) + length (remdups_adj (sort names)) < 10 ^ 20"
    using remdups_adj_length [of "sort names"] assms by (simp add: names_start_def U64_MAX_def)
  then show ?thesis
    using name_steps_inv [OF names_start_inv distinct_remdups_adj_sort, of names hash] by simp
qed

section \<open>Rewriting a body\<close>

fun get_path :: "ustring list \<Rightarrow> json \<Rightarrow> json option" where
  "get_path [] v = Some v"
| "get_path (key # path) v = (case get_field key v of None \<Rightarrow> None | Some x \<Rightarrow> get_path path x)"

fun rename :: "tool_name_map \<Rightarrow> json \<Rightarrow> json" where
  "rename m (JString name) = JString (wire_name m name)"
| "rename m v = v"

lemma map_of_update_field: "map_of (map (\<lambda>(k, v). (k, if k = key then f v else v)) kvs) key' =
    map_option (\<lambda>v. if key' = key then f v else v) (map_of kvs key')"
  by (induction kvs) auto

lemma get_field_update: "get_field key' (update_field key f v) =
    map_option (\<lambda>x. if key' = key then f x else x) (get_field key' v)"
  by (cases v) (simp_all add: map_of_update_field)

lemma get_path_rewrite_at: "get_path path (rewrite_at m path v) = map_option (rename m) (get_path path v)"
proof (induction m path v rule: rewrite_at.induct)
  case (3 m key path v)
  then show ?case by (cases "get_field key v") (simp_all add: get_field_update)
qed (simp_all add: wire_name_def split: option.split)

text \<open>The names a Chat body declares: what its \<open>tools\<close> hold at \<open>function.name\<close>.\<close>

fun items :: "json option \<Rightarrow> json list" where
  "items (Some (JArray xs)) = xs"
| "items _ = []"

definition declared_at :: "ustring list \<Rightarrow> json \<Rightarrow> json option list" where
  "declared_at path body = map (get_path path) (items (get_field (lit ''tools'') body))"

lemma items_each: "items (map_option (each_item f) v) = map f (items v)"
  by (cases v rule: items.cases) simp_all

lemma declared_rewrite_list:
  "declared_at path (rewrite_list m (lit ''tools'') path body) = map (map_option (rename m)) (declared_at path body)"
  by (simp add: declared_at_def rewrite_list_def get_field_update items_each get_path_rewrite_at del: lit_simps)

lemma declared_update_other:
  "key \<noteq> lit ''tools'' \<Longrightarrow> declared_at path (update_field key f body) = declared_at path body"
  by (cases "get_field (lit ''tools'') body") (simp_all add: declared_at_def get_field_update del: lit_simps)

definition name_path :: "wire_protocol \<Rightarrow> ustring list" where
  "name_path target = (if target = ChatCompletions then [lit ''function'', lit ''name''] else [lit ''name''])"

section \<open>Properties\<close>

text \<open>C7: Every tool a request mentions gets a name on the wire that the strict protocols accept,
  no two tools share one, and restoring the wire name gives back the client's own name.\<close>
theorem tool_names_faithful:
  assumes "length (request_names r) \<le> U64_MAX" and "m = tool_names_build hash r"
  shows "inj_on (wire_name m) (set (request_names r)) \<and>
     (\<forall>n \<in> set (request_names r). is_accepted_tool_name (wire_name m n) \<and> restore_name m (wire_name m n) = n)"
  using build_names_inv [OF assms(1), of hash]
  by (simp add: assms(2) tool_names_build_def build_names_def names_inv_def)

definition sample_tools :: canonical_request where
  "sample_tools = (for_model (lit ''m''))\<lparr>cr_tools :=
     map (\<lambda>n. \<lparr>td_name = n, td_description = [], td_parameters = JNull, td_strict = False\<rparr>)
       [lit ''a.b'', lit ''a_b'', lit ''c'']\<rparr>"

theorem tool_names_faithful_witness:
  "restore_name (tool_names_build (\<lambda>_. 0) sample_tools) (wire_name (tool_names_build (\<lambda>_. 0) sample_tools) (lit ''a.b'')) = lit ''a.b'' \<and>
   is_accepted_tool_name (wire_name (tool_names_build (\<lambda>_. 0) sample_tools) (lit ''a.b''))"
proof -
  have n: "request_names sample_tools = [lit ''a.b'', lit ''a_b'', lit ''c'']"
    by (simp add: request_names_def sample_tools_def for_model_def trim_def trim_where_def is_whitespace_def)
  then show ?thesis
    using tool_names_faithful [of sample_tools _ "\<lambda>_. 0", OF _ refl] by (simp add: U64_MAX_def)
qed

text \<open>The wire names do not depend on the order or the number of mentions: two requests that
  mention the same tools get the same map, so a retry sends identical names.\<close>
lemma tool_names_order_free:
  assumes "set (request_names r) = set (request_names r')"
  shows "tool_names_build hash r = tool_names_build hash r'"
proof -
  have "remdups_adj (sort (request_names r)) = remdups_adj (sort (request_names r'))"
    by (rule sorted_distinct_set_unique) (use assms distinct_remdups_adj_sort in auto)
  then show ?thesis by (simp add: tool_names_build_def build_names_def)
qed

lemma tool_names_order_free_witness:
  "tool_names_build (\<lambda>_. 0) (sample_tools\<lparr>cr_tools := rev (cr_tools sample_tools)\<rparr>) = tool_names_build (\<lambda>_. 0) sample_tools"
  by (rule tool_names_order_free) (simp add: request_names_def)

text \<open>A body translated for a strict protocol declares exactly the wire names: wherever the
  protocol spells the name of a declared tool, the rewritten body has the wire name of the tool
  the body declared there before, and nothing else of the declarations' names changes.\<close>
lemma rewritten_body_declares_wire_names:
  assumes "target \<noteq> GeminiGenerateContent" and "\<not> names_is_empty m"
  shows "declared_at (name_path target) (rewrite_body m target body) =
     map (map_option (rename m)) (declared_at (name_path target) body)"
proof -
  have ne: "lit ''messages'' \<noteq> lit ''tools''" "lit ''tool_choice'' \<noteq> lit ''tools''" "lit ''input'' \<noteq> lit ''tools''"
    by simp_all
  have in_other: "declared_at path (rewrite_list m (lit ''input'') p body') = declared_at path body'" for path p body'
    unfolding rewrite_list_def by (rule declared_update_other [OF ne(3)])
  show ?thesis
    using assms
    by (cases target)
       (simp_all only: rewrite_body_def if_False wire_protocol.case name_path_def declared_update_other [OF ne(1)]
         declared_update_other [OF ne(2)] in_other declared_rewrite_list wire_protocol.simps if_True simp_thms)
qed

lemma rewritten_body_declares_wire_names_witness:
  "declared_at [lit ''name''] (rewrite_body \<lparr>original_to_wire = [lit ''a.b'' \<mapsto> lit ''a_b''], wire_to_original = [lit ''a_b'' \<mapsto> lit ''a.b'']\<rparr>
     AnthropicMessages (JObject [(lit ''tools'', JArray [JObject [(lit ''name'', JString (lit ''a.b''))]])]))
   = [Some (JString (lit ''a_b''))]"
proof -
  let ?m = "\<lparr>original_to_wire = [lit ''a.b'' \<mapsto> lit ''a_b''], wire_to_original = [lit ''a_b'' \<mapsto> lit ''a.b'']\<rparr>"
  have "\<not> names_is_empty ?m" by (simp add: names_is_empty_def)
  from rewritten_body_declares_wire_names [of AnthropicMessages ?m, OF _ this] show ?thesis
    by (simp add: name_path_def declared_at_def wire_name_def)
qed

text \<open>A body for Gemini is not rewritten while the names of the reply are restored all the same. With the
  tools \<open>a.b\<close> and \<open>a_b\<close> the upstream is offered both under their own names, and its call of \<open>a_b\<close>
  reaches the client as a call of \<open>a.b\<close>.\<close>
lemma gemini_names_confused:
  "rewrite_body m GeminiGenerateContent body = body"
  "restore_event (tool_names_build (\<lambda>_. 0) sample_tools) (EvToolCallStart i (lit ''a_b'')) = EvToolCallStart i (lit ''a.b'')"
proof -
  show "rewrite_body m GeminiGenerateContent body = body" by (simp add: rewrite_body_def)
  have n: "remdups_adj (sort (request_names sample_tools)) = [lit ''a.b'', lit ''a_b'', lit ''c'']"
    by (simp add: request_names_def sample_tools_def for_model_def trim_def trim_where_def is_whitespace_def)
  have s: "sanitize_tool_name (\<lambda>_. 0) (lit ''a.b'') = lit ''a_b''" "sanitize_tool_name (\<lambda>_. 0) (lit ''a_b'') = lit ''a_b''"
    "sanitize_tool_name (\<lambda>_. 0) (lit ''c'') = lit ''c''" by code_simp+
  have "unique_name [lit ''a_b''] (lit ''a_b'') (lit ''a_b'') 2 = lit ''a_b_2''" by code_simp
  then have "wire_to_original (tool_names_build (\<lambda>_. 0) sample_tools) (lit ''a_b'') = Some (lit ''a.b'') \<and>
     original_to_wire (tool_names_build (\<lambda>_. 0) sample_tools) (lit ''a.b'') = Some (lit ''a_b'')"
    using s by (simp add: tool_names_build_def build_names_def n name_step_def names_start_def unique_name.simps Let_def)
  then show "restore_event (tool_names_build (\<lambda>_. 0) sample_tools) (EvToolCallStart i (lit ''a_b'')) = EvToolCallStart i (lit ''a.b'')"
    by (auto simp: restore_event_def restore_name_def names_is_empty_def simp del: lit_simps)
qed

end
