(* ===== verification/Sse_Stream.thy ===== *)
theory Sse_Stream
  imports Tool_Names Gateway_Error
begin

text \<open>
  Reading an upstream stream: the SSE parser of \<open>crates/model-gateway/src/wire/mod.rs\<close>
  (\<open>parse_sse\<close>), the chunk buffer and the reply accumulator of
  \<open>crates/model-gateway/src/stream.rs\<close>. Bytes are naturals below 256; \<open>utf8_lossy\<close> is the
  decoding \<open>String::from_utf8_lossy\<close> documents: every maximal invalid part becomes U+FFFD. The
  JSON text functions of \<open>serde_json\<close> are the arguments \<open>print\<close> and \<open>parse\<close>, a protocol's decoder
  the argument \<open>decode\<close>.

  Facts: however a stream is cut into chunks at character boundaries, the frames that come out
  are those of the whole text; a chunk boundary inside a character corrupts it; a stream with
  CRLF line ends delivers nothing before it ends; the accumulator keeps every text and
  reasoning delta in order and rebuilds tool calls that are streamed one after the other.
\<close>

section \<open>UTF-8\<close>

definition utf8_encode_char :: "uchar \<Rightarrow> nat list" where
  "utf8_encode_char c =
     (if c < 128 then [c]
      else if c < 2048 then [192 + c div 64, 128 + c mod 64]
      else if c < 65536 then [224 + c div 4096, 128 + c div 64 mod 64, 128 + c mod 64]
      else [240 + c div 262144, 128 + c div 4096 mod 64, 128 + c div 64 mod 64, 128 + c mod 64])"

definition utf8_encode :: "ustring \<Rightarrow> nat list" where
  "utf8_encode s = concat (map utf8_encode_char s)"

definition scalar_value :: "uchar \<Rightarrow> bool" where
  "scalar_value c \<longleftrightarrow> c < 55296 \<or> 57344 \<le> c \<and> c < 1114112"

definition is_cont :: "nat \<Rightarrow> bool" where
  "is_cont b \<longleftrightarrow> 128 \<le> b \<and> b < 192"

definition second_ok :: "nat \<Rightarrow> nat \<Rightarrow> bool" where
  "second_ok b b2 \<longleftrightarrow> is_cont b2 \<and>
     (b = 224 \<longrightarrow> 160 \<le> b2) \<and> (b = 237 \<longrightarrow> b2 < 160) \<and> (b = 240 \<longrightarrow> 144 \<le> b2) \<and> (b = 244 \<longrightarrow> b2 < 144)"

definition REPLACEMENT :: uchar where
  "REPLACEMENT = 65533"

text \<open>The first character of a byte string and the number of bytes it takes.\<close>

fun lossy_head :: "nat \<Rightarrow> nat list \<Rightarrow> uchar \<times> nat" where
  "lossy_head b bs =
     (if b < 128 then (b, 1)
      else if 194 \<le> b \<and> b < 224 then
        (case bs of
           b2 # _ \<Rightarrow> if is_cont b2 then ((b - 192) * 64 + (b2 - 128), 2) else (REPLACEMENT, 1)
         | [] \<Rightarrow> (REPLACEMENT, 1))
      else if 224 \<le> b \<and> b < 240 then
        (case bs of
           b2 # bs2 \<Rightarrow>
             if \<not> second_ok b b2 then (REPLACEMENT, 1)
             else (case bs2 of
                b3 # _ \<Rightarrow> if is_cont b3 then ((b - 224) * 4096 + (b2 - 128) * 64 + (b3 - 128), 3)
                          else (REPLACEMENT, 2)
              | [] \<Rightarrow> (REPLACEMENT, 2))
         | [] \<Rightarrow> (REPLACEMENT, 1))
      else if 240 \<le> b \<and> b < 245 then
        (case bs of
           b2 # bs2 \<Rightarrow>
             if \<not> second_ok b b2 then (REPLACEMENT, 1)
             else (case bs2 of
                b3 # bs3 \<Rightarrow>
                  if \<not> is_cont b3 then (REPLACEMENT, 2)
                  else (case bs3 of
                     b4 # _ \<Rightarrow> if is_cont b4
                       then ((b - 240) * 262144 + (b2 - 128) * 4096 + (b3 - 128) * 64 + (b4 - 128), 4)
                       else (REPLACEMENT, 3)
                   | [] \<Rightarrow> (REPLACEMENT, 3))
              | [] \<Rightarrow> (REPLACEMENT, 2))
         | [] \<Rightarrow> (REPLACEMENT, 1))
      else (REPLACEMENT, 1))"

declare lossy_head.simps [simp del]

lemma lossy_head_pos: "0 < snd (lossy_head b bs)"
  by (simp add: lossy_head.simps split: list.split)

function utf8_lossy :: "nat list \<Rightarrow> ustring" where
  "utf8_lossy [] = []"
| "utf8_lossy (b # bs) = fst (lossy_head b bs) # utf8_lossy (drop (snd (lossy_head b bs)) (b # bs))"
  by pat_completeness auto
termination
  by (relation "measure length") (use lossy_head_pos in auto)

section \<open>The SSE parser\<close>

text \<open>\<open>str::lines\<close>: a line ends at a line feed, with one carriage return before it removed.\<close>

definition strip_cr :: "ustring \<Rightarrow> ustring" where
  "strip_cr s = (case strip_suffix [13] s of Some t \<Rightarrow> t | None \<Rightarrow> s)"

fun lines_from :: "ustring \<Rightarrow> ustring \<Rightarrow> ustring list" where
  "lines_from cur [] = (if cur = [] then [] else [cur])"
| "lines_from cur (c # cs) = (if c = 10 then strip_cr cur # lines_from [] cs else lines_from (cur @ [c]) cs)"

definition str_lines :: "ustring \<Rightarrow> ustring list" where
  "str_lines s = lines_from [] s"

type_synonym sse_event = "ustring option \<times> ustring"

record sse_state =
  ss_event :: "ustring option"
  ss_data :: "ustring list"
  ss_out :: "sse_event list"

definition sse_start :: sse_state where
  "sse_start = \<lparr>ss_event = None, ss_data = [], ss_out = []\<rparr>"

definition sse_flush :: "sse_state \<Rightarrow> sse_state" where
  "sse_flush st =
     (if ss_data st = [] then st\<lparr>ss_event := None\<rparr>
      else \<lparr>ss_event = None, ss_data = [], ss_out = ss_out st @ [(ss_event st, join [10] (ss_data st))]\<rparr>)"

definition sse_line :: "sse_state \<Rightarrow> ustring \<Rightarrow> sse_state" where
  "sse_line st line0 =
     (let line = strip_cr line0 in
      if line = [] then sse_flush st
      else if hd line = of_char CHR '':'' then st
      else let (field, val) =
             (case split_once (of_char CHR '':'') line of
                Some (f, v) \<Rightarrow> (f, case strip_prefix (lit '' '') v of Some t \<Rightarrow> t | None \<Rightarrow> v)
              | None \<Rightarrow> (line, []))
           in if field = lit ''event'' then st\<lparr>ss_event := Some val\<rparr>
              else if field = lit ''data'' then st\<lparr>ss_data := ss_data st @ [val]\<rparr>
              else st)"

definition parse_sse :: "ustring \<Rightarrow> sse_event list" where
  "parse_sse input = ss_out (sse_flush (foldl sse_line sse_start (str_lines input)))"

section \<open>The chunk buffer\<close>

text \<open>\<open>rfind("\n\n")\<close>.\<close>

fun rfind_blank :: "ustring \<Rightarrow> nat option" where
  "rfind_blank [] = None"
| "rfind_blank (c # cs) =
     (case rfind_blank cs of
        Some i \<Rightarrow> Some (Suc i)
      | None \<Rightarrow> if c = 10 \<and> take 1 cs = [10] then Some 0 else None)"

definition sse_push :: "ustring \<Rightarrow> nat list \<Rightarrow> ustring \<times> sse_event list" where
  "sse_push pending chunk =
     (let text = pending @ utf8_lossy chunk in
      case rfind_blank text of
        None \<Rightarrow> (text, [])
      | Some i \<Rightarrow> (drop (i + 2) text, parse_sse (take (i + 2) text)))"

definition sse_finish :: "ustring \<Rightarrow> sse_event list" where
  "sse_finish pending = (if trim pending = [] then [] else parse_sse pending)"

fun sse_run :: "ustring \<Rightarrow> nat list list \<Rightarrow> sse_event list" where
  "sse_run pending [] = sse_finish pending"
| "sse_run pending (chunk # chunks) =
     (let (pending', out) = sse_push pending chunk in out @ sse_run pending' chunks)"

section \<open>Decoding\<close>

definition DONE :: ustring where
  "DONE = lit ''[DONE]''"

fun decode_frames ::
    "('d \<Rightarrow> ustring \<Rightarrow> gateway_error + 'd \<times> canonical_event list) \<Rightarrow> 'd \<Rightarrow> sse_event list
     \<Rightarrow> gateway_error + 'd \<times> canonical_event list" where
  "decode_frames decode d [] = Inr (d, [])"
| "decode_frames decode d ((_, data) # frames) =
     (if trim data = DONE then decode_frames decode d frames
      else case decode d data of
        Inl e \<Rightarrow> Inl e
      | Inr (d', events) \<Rightarrow>
          (case decode_frames decode d' frames of
             Inl e \<Rightarrow> Inl e
           | Inr (d'', rest) \<Rightarrow> Inr (d'', events @ rest)))"

definition decode_stream ::
    "('d \<Rightarrow> ustring \<Rightarrow> gateway_error + 'd \<times> canonical_event list) \<Rightarrow> 'd \<Rightarrow> ustring \<Rightarrow> nat list
     \<Rightarrow> gateway_error + 'd \<times> ustring \<times> canonical_event list" where
  "decode_stream decode d pending chunk =
     (let (pending', frames) = sse_push pending chunk in
      case decode_frames decode d frames of
        Inl e \<Rightarrow> Inl e
      | Inr (d', events) \<Rightarrow> Inr (d', pending', events))"

section \<open>The reply accumulator\<close>

record accumulated_tool_call =
  at_id :: ustring
  at_name :: ustring
  at_arguments :: ustring

record reply_accumulator =
  ra_id :: ustring
  ra_model :: ustring
  ra_text :: ustring
  ra_reasoning :: ustring
  ra_tool_calls :: "accumulated_tool_call list"
  ra_usage :: canonical_usage
  ra_stop :: "stop_reason option"
  ra_open_reasoning :: bool
  ra_current_tool :: "accumulated_tool_call option"

definition accumulator_default :: reply_accumulator where
  "accumulator_default = \<lparr>ra_id = [], ra_model = [], ra_text = [], ra_reasoning = [], ra_tool_calls = [],
     ra_usage = usage_default, ra_stop = None, ra_open_reasoning = False, ra_current_tool = None\<rparr>"

fun accumulator_apply :: "(json \<Rightarrow> ustring) \<Rightarrow> reply_accumulator \<Rightarrow> canonical_event \<Rightarrow> reply_accumulator" where
  "accumulator_apply print a (EvStart i m u) =
     a\<lparr>ra_id := (if i \<noteq> [] then i else ra_id a), ra_model := (if m \<noteq> [] then m else ra_model a),
       ra_usage := usage_merge (ra_usage a) u\<rparr>"
| "accumulator_apply print a (EvTextDelta t) = a\<lparr>ra_text := ra_text a @ t\<rparr>"
| "accumulator_apply print a EvReasoningStart = a\<lparr>ra_open_reasoning := True\<rparr>"
| "accumulator_apply print a (EvReasoningDelta t) =
     a\<lparr>ra_open_reasoning := True, ra_reasoning := ra_reasoning a @ t\<rparr>"
| "accumulator_apply print a (EvReasoningSignature _) = a"
| "accumulator_apply print a (EvToolCallStart i n) =
     a\<lparr>ra_current_tool := Some \<lparr>at_id = i, at_name = n, at_arguments = []\<rparr>\<rparr>"
| "accumulator_apply print a (EvToolCallArgumentsDelta _ fragment) =
     (case ra_current_tool a of
        None \<Rightarrow> a
      | Some tool \<Rightarrow> a\<lparr>ra_current_tool := Some (tool\<lparr>at_arguments := at_arguments tool @ fragment\<rparr>)\<rparr>)"
| "accumulator_apply print a (EvToolCallEnd i arguments) =
     (let tool = (case ra_current_tool a of None \<Rightarrow> \<lparr>at_id = i, at_name = [], at_arguments = []\<rparr> | Some t \<Rightarrow> t);
          tool1 = (if i \<noteq> [] then tool\<lparr>at_id := i\<rparr> else tool);
          tool2 = (if trim (at_arguments tool1) = [] then tool1\<lparr>at_arguments := print arguments\<rparr> else tool1)
      in a\<lparr>ra_current_tool := None, ra_tool_calls := ra_tool_calls a @ [tool2]\<rparr>)"
| "accumulator_apply print a (EvUsage u) = a\<lparr>ra_usage := usage_merge (ra_usage a) u\<rparr>"
| "accumulator_apply print a (EvStop r) = a\<lparr>ra_stop := Some r\<rparr>"
| "accumulator_apply print a (EvError _ _) = a"

definition accumulator_finish :: "(ustring \<Rightarrow> json option) \<Rightarrow> reply_accumulator \<Rightarrow> canonical_response" where
  "accumulator_finish parse a =
     (let parts = (if ra_reasoning a = [] then [] else [Reasoning (ra_reasoning a) None])
              @ (if ra_text a = [] then [] else [Text (ra_text a)])
              @ map (\<lambda>t. ToolCall (at_id t) (at_name t)
                    (case parse (at_arguments t) of Some v \<Rightarrow> v | None \<Rightarrow> JString (at_arguments t)))
                  (ra_tool_calls a)
      in \<lparr>cp_id = (if ra_id a = [] then lit ''gateway_response'' else ra_id a), cp_model = ra_model a,
          cp_parts = parts,
          cp_stop = (case ra_stop a of
             Some r \<Rightarrow> r
           | None \<Rightarrow> if ra_tool_calls a \<noteq> [] then ToolUse else EndTurn),
          cp_usage = ra_usage a\<rparr>)"

section \<open>UTF-8 facts\<close>

lemma div_mod_64: "(c::nat) div 64 * 64 + c mod 64 = c"
  by simp

lemma split_3: "(c::nat) div 4096 * 4096 + c div 64 mod 64 * 64 + c mod 64 = c"
proof -
  have "c div 4096 = c div 64 div 64" by (simp add: div_mult2_eq [symmetric])
  then have "c div 4096 * 64 + c div 64 mod 64 = c div 64" by simp
  then have "(c div 4096 * 64 + c div 64 mod 64) * 64 + c mod 64 = c" by simp
  then show ?thesis by (simp add: algebra_simps)
qed

lemma split_4: "(c::nat) div 262144 * 262144 + c div 4096 mod 64 * 4096 + c div 64 mod 64 * 64 + c mod 64 = c"
proof -
  have "c div 262144 = c div 4096 div 64" by (simp add: div_mult2_eq [symmetric])
  then have "c div 262144 * 64 + c div 4096 mod 64 = c div 4096" by simp
  then have "(c div 262144 * 64 + c div 4096 mod 64) * 4096 + c div 64 mod 64 * 64 + c mod 64 = c"
    using split_3 [of c] by simp
  then show ?thesis by (simp add: algebra_simps)
qed

lemma lossy_head_2: "128 \<le> c \<Longrightarrow> c < 2048 \<Longrightarrow> lossy_head (192 + c div 64) ((128 + c mod 64) # rest) = (c, 2)"
  by (auto simp: lossy_head.simps is_cont_def)

lemma lossy_head_3:
  assumes "2048 \<le> c" and "c < 65536" and "scalar_value c"
  shows "lossy_head (224 + c div 4096) ((128 + c div 64 mod 64) # (128 + c mod 64) # rest) = (c, 3)"
proof -
  have hi: "64 * (c div 4096) + c div 64 mod 64 = c div 64"
    using div_mult2_eq [of c 64 64] mult_div_mod_eq [of 64 "c div 64"] by simp
  have "c div 4096 < 16" using assms(2) by (simp add: less_mult_imp_div_less)
  moreover have "32 \<le> c div 64" using div_le_mono [OF assms(1), of 64] by simp
  moreover have "c div 64 < 864 \<or> 896 \<le> c div 64"
    using assms(3) div_le_mono [of 57344 c 64] by (auto simp: scalar_value_def less_mult_imp_div_less)
  ultimately have "second_ok (224 + c div 4096) (128 + c div 64 mod 64)"
    using hi by (auto simp: second_ok_def is_cont_def)
  then show ?thesis
    using assms(1,2) split_3 [of c] by (auto simp: lossy_head.simps is_cont_def)
qed

lemma lossy_head_4:
  assumes "65536 \<le> c" and "scalar_value c"
  shows "lossy_head (240 + c div 262144)
    ((128 + c div 4096 mod 64) # (128 + c div 64 mod 64) # (128 + c mod 64) # rest) = (c, 4)"
proof -
  have "c < 1114112" using assms by (auto simp: scalar_value_def)
  then have "c div 262144 < 5" by simp
  moreover have "second_ok (240 + c div 262144) (128 + c div 4096 mod 64)"
  proof -
    have "64 * (c div 262144) + c div 4096 mod 64 = c div 4096"
      using div_mult2_eq [of c 4096 64] mult_div_mod_eq [of 64 "c div 4096"] by simp
    moreover have "16 \<le> c div 4096" "c div 4096 < 272"
      using div_le_mono [OF assms(1), of 4096] \<open>c < 1114112\<close> by (auto simp: less_mult_imp_div_less)
    ultimately show ?thesis by (auto simp: second_ok_def is_cont_def)
  qed
  ultimately show ?thesis
    using split_4 [of c] by (auto simp: lossy_head.simps is_cont_def)
qed

lemma lossy_head_1: "c < 128 \<Longrightarrow> lossy_head c rest = (c, 1)"
  by (simp add: lossy_head.simps)

lemma utf8_lossy_char: "scalar_value c \<Longrightarrow> utf8_lossy (utf8_encode_char c @ rest) = c # utf8_lossy rest"
  by (simp add: utf8_encode_char_def lossy_head_1 lossy_head_2 lossy_head_3 lossy_head_4)

lemma utf8_lossy_encode: "\<forall>c \<in> set s. scalar_value c \<Longrightarrow> utf8_lossy (utf8_encode s) = s"
  by (induction s) (simp_all add: utf8_encode_def utf8_lossy_char)

section \<open>Lines and blank lines\<close>

lemma lines_from_append: "lines_from cur (a @ 10 # b) = lines_from cur (a @ [10]) @ lines_from [] b"
  by (induction a arbitrary: cur) auto

lemma str_lines_append: "a \<noteq> [] \<Longrightarrow> last a = 10 \<Longrightarrow> str_lines (a @ b) = str_lines a @ str_lines b"
proof -
  assume "a \<noteq> []" "last a = 10"
  then have "a = butlast a @ [10]" by (metis append_butlast_last_id)
  then show ?thesis
    using lines_from_append [of "[]" "butlast a" b] by (metis str_lines_def append.assoc append_Cons append_Nil)
qed

lemma strip_cr_Nil [simp]: "strip_cr [] = []"
  by (simp add: strip_cr_def strip_suffix_def)

lemma str_lines_blank: "str_lines (a @ [10, 10]) = str_lines (a @ [10]) @ [[]]"
  using str_lines_append [of "a @ [10]" "[10]"] by (simp add: str_lines_def)

text \<open>The output of the parser only grows, and a flushed state is the start with that output.\<close>

definition with_out :: "sse_event list \<Rightarrow> sse_state \<Rightarrow> sse_state" where
  "with_out out st = st\<lparr>ss_out := out @ ss_out st\<rparr>"

lemma flush_with_out: "sse_flush (with_out out st) = with_out out (sse_flush st)"
  by (simp add: sse_flush_def with_out_def)

lemma line_with_out: "sse_line (with_out out st) l = with_out out (sse_line st l)"
  by (simp add: sse_line_def Let_def flush_with_out split: prod.split)
     (simp add: with_out_def)

lemma lines_with_out: "foldl sse_line (with_out out st) ls = with_out out (foldl sse_line st ls)"
  by (induction ls arbitrary: st) (simp_all add: line_with_out)

lemma flush_eq_start: "sse_flush st = with_out (ss_out (sse_flush st)) sse_start"
  by (simp add: sse_flush_def with_out_def sse_start_def)

lemma parse_sse_blank:
  "parse_sse (a @ [10, 10] @ b) = parse_sse (a @ [10, 10]) @ parse_sse b"
proof -
  let ?st = "foldl sse_line sse_start (str_lines (a @ [10]))"
  have la: "foldl sse_line sse_start (str_lines (a @ [10, 10])) = sse_flush ?st"
    by (simp add: str_lines_blank sse_line_def)
  have lb: "str_lines (a @ [10, 10] @ b) = str_lines (a @ [10, 10]) @ str_lines b"
    using str_lines_append [of "a @ [10, 10]" b] by simp
  have pa: "parse_sse (a @ [10, 10]) = ss_out (sse_flush ?st)"
    by (simp add: parse_sse_def la) (simp add: sse_flush_def)
  have "foldl sse_line (sse_flush ?st) (str_lines b) =
      with_out (ss_out (sse_flush ?st)) (foldl sse_line sse_start (str_lines b))"
    by (subst flush_eq_start) (simp add: lines_with_out)
  then have "parse_sse (a @ [10, 10] @ b) =
      ss_out (with_out (ss_out (sse_flush ?st)) (sse_flush (foldl sse_line sse_start (str_lines b))))"
    unfolding parse_sse_def lb foldl_append la by (simp only: flush_with_out)
  then show ?thesis
    by (simp add: pa) (simp add: with_out_def parse_sse_def)
qed

lemma rfind_blank_split: "rfind_blank s = Some i \<Longrightarrow> \<exists>a b. s = a @ [10, 10] @ b \<and> length a = i"
proof (induction s arbitrary: i)
  case (Cons c cs)
  show ?case
  proof (cases "rfind_blank cs")
    case None
    with Cons.prems have "c = 10" "take 1 cs = [10]" "i = 0" by (auto split: if_splits)
    then show ?thesis by (cases cs) auto
  next
    case (Some j)
    with Cons obtain a b where "cs = a @ [10, 10] @ b" "length a = j" by blast
    with Some Cons.prems show ?thesis by (intro exI [of _ "c # a"] exI [of _ b]) auto
  qed
qed simp

lemma rfind_blank_None: "rfind_blank s = None \<longleftrightarrow> \<not> (\<exists>a b. s = a @ [10, 10] @ b)"
proof (induction s)
  case (Cons c cs)
  have "(\<exists>a b. c # cs = a @ [10, 10] @ b) \<longleftrightarrow> (c = 10 \<and> take 1 cs = [10]) \<or> (\<exists>a b. cs = a @ [10, 10] @ b)"
    by (cases cs) (auto simp: Cons_eq_append_conv)
  with Cons show ?case by (auto split: option.split)
qed simp

text \<open>Text that is only white space holds no event.\<close>

lemma lines_from_subset: "l \<in> set (lines_from cur s) \<Longrightarrow> set l \<subseteq> set cur \<union> set s"
proof (induction cur s rule: lines_from.induct)
  case (2 cur c cs)
  have "set (strip_cr cur) \<subseteq> set cur"
    by (auto simp: strip_cr_def strip_suffix_Some_iff split: option.splits)
  with 2 show ?case by (fastforce split: if_splits)
qed (auto split: if_splits)

lemma white_line:
  assumes "\<forall>c \<in> set l. is_whitespace c" and "ss_data st = []" and "ss_out st = []"
  shows "ss_data (sse_line st l) = [] \<and> ss_out (sse_line st l) = []"
proof -
  have sub: "set (strip_cr l) \<subseteq> set l"
    by (auto simp: strip_cr_def strip_suffix_Some_iff split: option.splits)
  have ws: "\<forall>c \<in> set (strip_cr l). is_whitespace c" using assms(1) sub by blast
  then have "58 \<notin> set (strip_cr l)" "strip_cr l \<noteq> lit ''event''" "strip_cr l \<noteq> lit ''data''"
    by (auto simp: is_whitespace_def)
  then show ?thesis
    using assms(2,3) split_once_None_iff [of 58 "strip_cr l"]
    by (auto simp: sse_line_def Let_def sse_flush_def)
qed

lemma white_lines:
  "\<forall>l \<in> set ls. \<forall>c \<in> set l. is_whitespace c \<Longrightarrow> ss_data st = [] \<and> ss_out st = [] \<Longrightarrow>
   ss_data (foldl sse_line st ls) = [] \<and> ss_out (foldl sse_line st ls) = []"
  by (induction ls arbitrary: st) (simp_all add: white_line)

lemma white_parse:
  assumes "trim s = []"
  shows "parse_sse s = []"
proof -
  have "\<forall>l \<in> set (str_lines s). \<forall>c \<in> set l. is_whitespace c"
    using lines_from_subset [of _ "[]" s] assms by (fastforce simp: str_lines_def trim_eq_Nil_iff)
  then have "ss_data (foldl sse_line sse_start (str_lines s)) = [] \<and> ss_out (foldl sse_line sse_start (str_lines s)) = []"
    by (rule white_lines) (simp add: sse_start_def)
  then show ?thesis by (simp add: parse_sse_def sse_flush_def)
qed

section \<open>Chunks\<close>

lemma sse_push_parse:
  assumes "sse_push pending chunk = (pending', out)"
  shows "parse_sse (pending @ utf8_lossy chunk @ rest) = out @ parse_sse (pending' @ rest)"
proof (cases "rfind_blank (pending @ utf8_lossy chunk)")
  case None
  with assms show ?thesis by (auto simp: sse_push_def)
next
  case (Some i)
  then obtain a b where ab: "pending @ utf8_lossy chunk = a @ [10, 10] @ b" "length a = i"
    using rfind_blank_split by blast
  then have "take (i + 2) (pending @ utf8_lossy chunk) = a @ [10, 10]"
      "drop (i + 2) (pending @ utf8_lossy chunk) = b" by simp_all
  with assms Some have out: "out = parse_sse (a @ [10, 10])" "pending' = b"
    by (auto simp: sse_push_def Let_def)
  have "pending @ utf8_lossy chunk @ rest = a @ [10, 10] @ (b @ rest)"
    using ab(1) by (metis append.assoc)
  with out parse_sse_blank [of a "b @ rest"] show ?thesis by metis
qed

lemma sse_run_parse: "sse_run pending chunks = parse_sse (pending @ concat (map utf8_lossy chunks))"
proof (induction chunks arbitrary: pending)
  case Nil
  then show ?case by (simp add: sse_finish_def white_parse)
next
  case (Cons chunk chunks)
  obtain p o' where po: "sse_push pending chunk = (p, o')" by fastforce
  then show ?case
    using sse_push_parse [OF po, of "concat (map utf8_lossy chunks)"] Cons by simp
qed

lemma push_silent: "rfind_blank (pending @ utf8_lossy chunk) = None \<Longrightarrow>
    sse_push pending chunk = (pending @ utf8_lossy chunk, [])"
  by (simp add: sse_push_def)

section \<open>Split characters\<close>

text \<open>A proper prefix of an encoded character starts with a replacement character.\<close>

lemma prefix_width:
  assumes "scalar_value c" and "128 \<le> c" and "utf8_encode_char c = b # bs" and "k < length bs"
  shows "fst (lossy_head b (take k bs)) = REPLACEMENT"
  using assms
  by (auto simp: utf8_encode_char_def lossy_head.simps take_Cons split: if_splits list.splits nat.splits)

lemma cont_tail: "scalar_value c \<Longrightarrow> utf8_encode_char c = b # bs \<Longrightarrow> \<forall>x \<in> set bs. is_cont x"
  by (auto simp: utf8_encode_char_def is_cont_def split: if_splits)

lemma lossy_cont_append:
  "\<forall>b \<in> set bs. is_cont b \<Longrightarrow> utf8_lossy (bs @ rest) = replicate (length bs) REPLACEMENT @ utf8_lossy rest"
  by (induction bs) (auto simp: lossy_head.simps is_cont_def)

lemma lossy_prefix:
  assumes "scalar_value c" and "128 \<le> c" and "0 < k" and "k < length (utf8_encode_char c)"
  shows "\<exists>n. utf8_lossy (take k (utf8_encode_char c)) = replicate (Suc n) REPLACEMENT"
proof -
  from assms(4) obtain b bs where e: "utf8_encode_char c = b # bs" by (cases "utf8_encode_char c") auto
  obtain j where j: "k = Suc j" using assms(3) by (cases k) auto
  have cont: "\<forall>x \<in> set (drop n (take j bs)). is_cont x" for n
    using cont_tail [OF assms(1) e] by (auto dest: in_set_dropD in_set_takeD)
  obtain n where n: "snd (lossy_head b (take j bs)) = Suc n"
    using lossy_head_pos [of b "take j bs"] by (cases "snd (lossy_head b (take j bs))") auto
  have "utf8_lossy (take k (utf8_encode_char c)) = REPLACEMENT # utf8_lossy (drop n (take j bs))"
    using prefix_width [OF assms(1,2) e, of j] assms(4) e j n by simp
  with lossy_cont_append [OF cont [of n], of "[]"] show ?thesis by auto
qed

lemma lossy_ascii: "\<forall>b \<in> set bs. b < 128 \<Longrightarrow> utf8_lossy (bs @ rest) = bs @ utf8_lossy rest"
  by (induction bs) (simp_all add: lossy_head_1)

lemma lines_from_plain: "10 \<notin> set a \<Longrightarrow> lines_from cur (a @ 10 # rest) = strip_cr (cur @ a) # lines_from [] rest"
  by (induction a arbitrary: cur) auto

text \<open>One data frame: its text comes out as it is.\<close>

lemma parse_data_frame:
  assumes "10 \<notin> set d" and "13 \<notin> set d"
  shows "parse_sse (lit ''data: '' @ d @ [10, 10]) = [(None, d)]"
proof -
  let ?l = "lit ''data: '' @ d"
  have "last ?l \<noteq> 13" using assms(2) by (cases "d = []") (auto dest: last_in_set)
  then have cr: "strip_cr ?l = ?l"
    using strip_suffix_Some_iff [of "[13]" ?l] by (auto simp: strip_cr_def split: option.split simp del: lit_simps)
  have "10 \<notin> set ?l" using assms(1) by simp
  then have "str_lines (lit ''data: '' @ d @ [10, 10]) = [?l, []]"
    using lines_from_plain [of ?l "[]" "[10]"] cr by (simp add: str_lines_def)
  moreover have "sse_line sse_start ?l = sse_start\<lparr>ss_data := [d]\<rparr>"
    unfolding sse_line_def cr by (simp add: Let_def sse_start_def)
  ultimately show ?thesis
    by (simp add: parse_sse_def) (simp add: sse_line_def sse_flush_def sse_start_def)
qed

section \<open>Accumulating a reply\<close>

definition accumulate :: "(json \<Rightarrow> ustring) \<Rightarrow> canonical_event list \<Rightarrow> reply_accumulator" where
  "accumulate print es = foldl (accumulator_apply print) accumulator_default es"

fun text_of :: "canonical_event \<Rightarrow> ustring" where
  "text_of (EvTextDelta t) = t"
| "text_of _ = []"

fun reasoning_of :: "canonical_event \<Rightarrow> ustring" where
  "reasoning_of (EvReasoningDelta t) = t"
| "reasoning_of _ = []"

fun usage_of :: "canonical_event \<Rightarrow> canonical_usage list" where
  "usage_of (EvStart _ _ u) = [u]"
| "usage_of (EvUsage u) = [u]"
| "usage_of _ = []"

lemma apply_streams:
  "ra_text (accumulator_apply print a e) = ra_text a @ text_of e \<and>
   ra_reasoning (accumulator_apply print a e) = ra_reasoning a @ reasoning_of e \<and>
   ra_usage (accumulator_apply print a e) = foldl usage_merge (ra_usage a) (usage_of e)"
  by (cases e) (auto simp: Let_def split: option.split)

lemma accumulate_streams:
  "ra_text (foldl (accumulator_apply print) a es) = ra_text a @ concat (map text_of es) \<and>
   ra_reasoning (foldl (accumulator_apply print) a es) = ra_reasoning a @ concat (map reasoning_of es) \<and>
   ra_usage (foldl (accumulator_apply print) a es) = foldl usage_merge (ra_usage a) (concat (map usage_of es))"
  by (induction es arbitrary: a) (simp_all add: apply_streams)

text \<open>A tool call streamed in one piece: its start, its argument fragments, its end.\<close>

record call_block =
  cb_id :: ustring
  cb_name :: ustring
  cb_fragments :: "ustring list"
  cb_value :: json

definition block_events :: "call_block \<Rightarrow> canonical_event list" where
  "block_events b = EvToolCallStart (cb_id b) (cb_name b)
     # map (EvToolCallArgumentsDelta (cb_id b)) (cb_fragments b) @ [EvToolCallEnd (cb_id b) (cb_value b)]"

definition block_call :: "(json \<Rightarrow> ustring) \<Rightarrow> call_block \<Rightarrow> accumulated_tool_call" where
  "block_call print b = \<lparr>at_id = cb_id b, at_name = cb_name b,
     at_arguments = (if trim (concat (cb_fragments b)) = [] then print (cb_value b) else concat (cb_fragments b))\<rparr>"

lemma fragments_collect:
  "ra_current_tool a = Some t \<Longrightarrow>
   foldl (accumulator_apply print) a (map (EvToolCallArgumentsDelta i) fs) =
   a\<lparr>ra_current_tool := Some (t\<lparr>at_arguments := at_arguments t @ concat fs\<rparr>)\<rparr>"
proof (induction fs arbitrary: a t)
  case (Cons f fs)
  then show ?case
    using Cons.IH [of "a\<lparr>ra_current_tool := Some (t\<lparr>at_arguments := at_arguments t @ f\<rparr>)\<rparr>"] by simp
qed simp

lemma block_accumulates:
  "ra_tool_calls (foldl (accumulator_apply print) a (block_events b)) = ra_tool_calls a @ [block_call print b] \<and>
   ra_current_tool (foldl (accumulator_apply print) a (block_events b)) = None"
  by (simp add: block_events_def block_call_def fragments_collect Let_def)

lemma blocks_accumulate:
  "ra_tool_calls (foldl (accumulator_apply print) a (concat (map block_events bs))) =
   ra_tool_calls a @ map (block_call print) bs"
  by (induction bs arbitrary: a) (simp_all add: block_accumulates)

lemma sse_run_encoded:
  assumes "\<forall>part \<in> set parts. \<forall>c \<in> set part. scalar_value c"
  shows "sse_run [] (map utf8_encode parts) = parse_sse (concat parts)"
proof -
  have "map utf8_lossy (map utf8_encode parts) = parts"
    using assms by (simp add: utf8_lossy_encode map_idI)
  then show ?thesis by (simp only: sse_run_parse append_Nil)
qed

section \<open>CRLF line ends\<close>

text \<open>Text whose line feeds all follow a carriage return.\<close>

definition crlf_text :: "ustring \<Rightarrow> bool" where
  "crlf_text s \<longleftrightarrow> (\<forall>a b. s = a @ 10 # b \<longrightarrow> a \<noteq> [] \<and> last a = 13)"

lemma crlf_push_silent:
  assumes "crlf_text (concat parts)" and "\<forall>part \<in> set parts. \<forall>c \<in> set part. scalar_value c"
    and "i < length parts"
  shows "sse_push (concat (take i parts)) (utf8_encode (parts ! i)) = (concat (take (Suc i) parts), [])"
proof -
  have t: "concat (take i parts) @ utf8_lossy (utf8_encode (parts ! i)) = concat (take (Suc i) parts)"
  proof -
    have "\<forall>c \<in> set (parts ! i). scalar_value c" using assms(2) nth_mem [OF assms(3)] by blast
    from utf8_lossy_encode [OF this] assms(3) show ?thesis by (simp add: take_Suc_conv_app_nth)
  qed
  have "rfind_blank (concat (take (Suc i) parts)) = None"
    unfolding rfind_blank_None
  proof
    assume "\<exists>a b. concat (take (Suc i) parts) = a @ [10, 10] @ b"
    then obtain a b where "concat (take (Suc i) parts) = a @ [10, 10] @ b" by blast
    then have "concat parts = (a @ [10]) @ 10 # (b @ concat (drop (Suc i) parts))"
      by (metis append.assoc append_Cons append_Nil append_take_drop_id concat_append)
    with assms(1) have "last (a @ [10]) = 13" unfolding crlf_text_def by blast
    then show False by simp
  qed
  with t show ?thesis using push_silent [of "concat (take i parts)" "utf8_encode (parts ! i)"] by simp
qed

section \<open>Properties\<close>

text \<open>C12: Chunking does not matter: however the bytes of a stream are cut into chunks between
  characters, the frames delivered by all the pushes and the final flush are exactly the frames
  of the whole text, in order.\<close>
theorem sse_chunking_transparent:
  assumes "\<forall>part \<in> set parts. \<forall>c \<in> set part. scalar_value c"
  shows "sse_run [] (map utf8_encode parts) = parse_sse (concat parts)"
  using assms by (rule sse_run_encoded)

theorem sse_chunking_transparent_witness:
  "sse_run [] (map utf8_encode [lit ''da'', lit ''ta: x'' @ [10], [10], lit ''data: '' @ [20313]]) =
   parse_sse (concat [lit ''da'', lit ''ta: x'' @ [10], [10], lit ''data: '' @ [20313]])"
  by (rule sse_chunking_transparent) (simp add: scalar_value_def)

text \<open>A chunk boundary inside a character destroys it: when the bytes of a frame are cut inside
  the encoding of a character, the frame that comes out holds replacement characters in its
  place, while the same bytes in one chunk give the character.\<close>
lemma split_character_corrupted:
  assumes "scalar_value c" and "128 \<le> c" and "0 < k" and "k < length (utf8_encode_char c)"
  shows "(\<exists>n. sse_run [] [lit ''data: '' @ take k (utf8_encode_char c), drop k (utf8_encode_char c) @ [10, 10]]
       = [(None, replicate (Suc n) REPLACEMENT)]) \<and>
     sse_run [] [lit ''data: '' @ utf8_encode_char c @ [10, 10]] = [(None, [c])]"
proof -
  let ?e = "utf8_encode_char c"
  have ascii: "\<forall>b \<in> set (lit ''data: ''). b < 128" by simp
  have end2: "utf8_lossy [10, 10] = [10, 10]" by (simp add: lossy_head_1)
  obtain n where n: "utf8_lossy (take k ?e) = replicate (Suc n) REPLACEMENT" using lossy_prefix [OF assms] by blast
  obtain b bs where e: "?e = b # bs" using assms(4) by (cases ?e) auto
  have "\<forall>x \<in> set (drop k ?e). is_cont x"
    using cont_tail [OF assms(1) e] assms(3) e by (cases k) (auto dest: in_set_dropD)
  then have d: "utf8_lossy (drop k ?e @ [10, 10]) = replicate (length ?e - k) REPLACEMENT @ [10, 10]"
    by (simp add: lossy_cont_append end2 del: utf8_lossy.simps)
  have "sse_run [] [lit ''data: '' @ take k ?e, drop k ?e @ [10, 10]] =
      parse_sse (lit ''data: '' @ replicate (Suc n + (length ?e - k)) REPLACEMENT @ [10, 10])"
    unfolding sse_run_parse by (simp only: list.map concat.simps lossy_ascii [OF ascii] n d replicate_add) simp
  also have "\<dots> = [(None, replicate (Suc n + (length ?e - k)) REPLACEMENT)]"
    by (rule parse_data_frame) (auto simp: REPLACEMENT_def)
  finally have split: "\<exists>n. sse_run [] [lit ''data: '' @ take k ?e, drop k ?e @ [10, 10]] = [(None, replicate (Suc n) REPLACEMENT)]"
    by (metis add_Suc)
  have "sse_run [] [lit ''data: '' @ ?e @ [10, 10]] = parse_sse (lit ''data: '' @ [c] @ [10, 10])"
    unfolding sse_run_parse
    by (simp only: list.map concat.simps lossy_ascii [OF ascii] utf8_lossy_char [OF assms(1)] end2) simp
  also have "\<dots> = [(None, [c])]"
    by (rule parse_data_frame) (use assms(2) in auto)
  finally show ?thesis using split by blast
qed

lemma split_character_corrupted_witness:
  "\<exists>n. sse_run [] [lit ''data: '' @ take 1 (utf8_encode_char 20313), drop 1 (utf8_encode_char 20313) @ [10, 10]]
     = [(None, replicate (Suc n) REPLACEMENT)]"
  using split_character_corrupted [of 20313 1] by (simp add: scalar_value_def utf8_encode_char_def)

text \<open>A stream with CRLF line ends is not streamed: as long as it runs, no push delivers any
  frame, however many complete events have arrived; they all wait for the final flush.\<close>
lemma crlf_stream_is_silent:
  assumes "crlf_text (concat parts)" and "\<forall>part \<in> set parts. \<forall>c \<in> set part. scalar_value c"
    and "i < length parts"
  shows "sse_push (concat (take i parts)) (utf8_encode (parts ! i)) = (concat (take (Suc i) parts), [])"
  using assms by (rule crlf_push_silent)

lemma crlf_stream_is_silent_witness:
  "sse_push [] (utf8_encode (lit ''data: x'' @ [13, 10, 13, 10])) = (lit ''data: x'' @ [13, 10, 13, 10], [])"
proof -
  have "crlf_text (concat [lit ''data: x'' @ [13, 10, 13, 10]])"
    by (auto simp: crlf_text_def Cons_eq_append_conv)
  then show ?thesis
    using crlf_stream_is_silent [of "[lit ''data: x'' @ [13, 10, 13, 10]]" 0] by (simp add: scalar_value_def)
qed

text \<open>C33: The accumulated reply is complete: whatever the order of the events, its text and its
  reasoning are the concatenation of the respective deltas and its usage the merge of all
  reports; tool calls streamed one after the other come out one by one with their own id, name
  and arguments.\<close>
theorem reply_accumulates_stream:
  "ra_text (accumulate print es) = concat (map text_of es) \<and>
   ra_reasoning (accumulate print es) = concat (map reasoning_of es) \<and>
   ra_usage (accumulate print es) = foldl usage_merge usage_default (concat (map usage_of es)) \<and>
   ra_tool_calls (accumulate print (concat (map block_events blocks))) = map (block_call print) blocks"
  using accumulate_streams [of print accumulator_default es] blocks_accumulate [of print accumulator_default blocks]
  by (simp add: accumulate_def accumulator_default_def)

end
