(* ===== verification/Upstream_Call.thy ===== *)
theory Upstream_Call
  imports Route_Plan Gateway_Error Tool_Names Sse_Stream
begin

text \<open>
  What one upstream is called with: the wire protocols and their paths
  (\<open>crates/model-gateway/src/wire/mod.rs\<close>), the endpoints an upstream declares, the choice of the
  protocol, the body that is sent and the small pure helpers of the dispatcher
  (\<open>crates/model-gateway/src/service.rs\<close>). A JSON object is the association list of a
  \<open>serde_json::Map\<close> in the order of insertion, which is not observed. The codec that builds a translated body
  (\<open>build_upstream_request\<close>) is an argument \<open>build\<close>, the JSON reader is an argument \<open>parse\<close>,
  and \<open>lower\<close> is \<open>str::to_lowercase\<close>; the facts hold for every choice of them.

  Facts: the protocol chosen always has an endpoint and every correction is allowed by the policy;
  a same-protocol call keeps every vendor field of the client's body; which tools such a call loses;
  a rule or a pin reorders the members and loses none of them; an address is completed with one
  version segment whether or not the user wrote it.
\<close>

section \<open>Wire protocols\<close>

definition wire_protocol_ALL :: "wire_protocol list" where
  "wire_protocol_ALL = [ChatCompletions, Responses, AnthropicMessages, GeminiGenerateContent]"

fun wire_protocol_id :: "wire_protocol \<Rightarrow> ustring" where
  "wire_protocol_id ChatCompletions = lit ''openai_chat_completions''"
| "wire_protocol_id Responses = lit ''openai_responses''"
| "wire_protocol_id AnthropicMessages = lit ''anthropic_messages''"
| "wire_protocol_id GeminiGenerateContent = lit ''google_generative_ai''"

definition from_wire_protocol_id :: "ustring \<Rightarrow> wire_protocol option" where
  "from_wire_protocol_id = find_id wire_protocol_ALL wire_protocol_id"

fun short_name :: "wire_protocol \<Rightarrow> ustring" where
  "short_name ChatCompletions = lit ''chat''"
| "short_name Responses = lit ''responses''"
| "short_name AnthropicMessages = lit ''messages''"
| "short_name GeminiGenerateContent = lit ''gemini''"

definition upper_hex :: "nat \<Rightarrow> uchar" where
  "upper_hex d = (if d < 10 then 48 + d else 55 + d)"

definition path_safe :: "nat \<Rightarrow> bool" where
  "path_safe b \<longleftrightarrow> is_ascii_alphanumeric b \<or> b \<in> {45, 95, 46, 126, 47}"

definition percent_encode_path :: "ustring \<Rightarrow> ustring" where
  "percent_encode_path s =
     concat (map (\<lambda>b. if path_safe b then [b] else [37, upper_hex (b div 16), upper_hex (b mod 16)]) (utf8_encode s))"

fun protocol_path :: "wire_protocol \<Rightarrow> ustring \<Rightarrow> bool \<Rightarrow> ustring" where
  "protocol_path ChatCompletions model stream = lit ''/v1/chat/completions''"
| "protocol_path Responses model stream = lit ''/v1/responses''"
| "protocol_path AnthropicMessages model stream = lit ''/v1/messages''"
| "protocol_path GeminiGenerateContent model stream =
     lit ''/v1beta/models/'' @ percent_encode_path model @
       (if stream then lit '':streamGenerateContent?alt=sse'' else lit '':generateContent'')"

definition trim_end_slashes :: "ustring \<Rightarrow> ustring" where
  "trim_end_slashes s = rev (dropWhile (\<lambda>c. c = 47) (rev s))"

definition ends_with :: "ustring \<Rightarrow> ustring \<Rightarrow> bool" where
  "ends_with s p \<longleftrightarrow> strip_suffix p s \<noteq> None"

definition join_version :: "ustring \<Rightarrow> ustring \<Rightarrow> ustring \<Rightarrow> ustring \<Rightarrow> ustring" where
  "join_version base path version rest = (if ends_with base version then base @ rest else base @ path)"

definition endpoint_url :: "ustring \<Rightarrow> wire_protocol \<Rightarrow> ustring \<Rightarrow> bool \<Rightarrow> gateway_error + ustring" where
  "endpoint_url address protocol model stream =
     (let base = trim_end_slashes (trim address); path = protocol_path protocol model stream
      in if base = [] then Inl (NotConfigured (lit ''the upstream Provider has an empty address''))
         else case strip_prefix (lit ''/v1beta'') path of
           Some rest \<Rightarrow> Inr (join_version base path (lit ''/v1beta'') rest)
         | None \<Rightarrow> (case strip_prefix (lit ''/v1'') path of
             Some rest \<Rightarrow> Inr (join_version base path (lit ''/v1'') rest)
           | None \<Rightarrow> Inr (base @ path)))"

section \<open>Upstreams and their endpoints\<close>

datatype endpoint_kind = EndpointApi | EndpointAuth | EndpointModelCatalog | EndpointProxy

record provider_endpoint =
  ep_id :: ustring
  ep_kind :: endpoint_kind
  ep_url :: ustring
  ep_wire_protocol_id :: "ustring option"

record credential_ref =
  cd_id :: request_id
  cd_display_name :: ustring
  cd_models :: "ustring list"
  cd_proxy_url :: "ustring option"

record key_summary =
  ks_credential_id :: request_id
  ks_state :: key_state
  ks_used_tokens :: nat

text \<open>The two fields of \<open>ModelProviderMetadata\<close> that decide what is sent: the model aliases and
  the declared extra body fields, already read from their JSON text.\<close>

record gateway_upstream =
  up_profile_id :: profile_id
  up_display_name :: ustring
  up_endpoints :: "provider_endpoint list"
  up_models :: "ustring list"
  up_model_aliases :: "(ustring \<times> ustring) list"
  up_extra_body :: "(ustring \<times> json) list"
  up_credentials :: "credential_ref list"
  up_keys :: "key_summary list"

definition endpoint_for :: "gateway_upstream \<Rightarrow> ustring \<Rightarrow> provider_endpoint option" where
  "endpoint_for up wid =
     find (\<lambda>e. ep_kind e = EndpointApi \<and> ep_wire_protocol_id e = Some wid) (up_endpoints up)"

definition untyped_endpoint :: "gateway_upstream \<Rightarrow> provider_endpoint option" where
  "untyped_endpoint up = find (\<lambda>e. ep_kind e = EndpointApi \<and> ep_wire_protocol_id e = None) (up_endpoints up)"

definition endpoint_for_call :: "gateway_upstream \<Rightarrow> wire_protocol \<Rightarrow> provider_endpoint option" where
  "endpoint_for_call up p =
     (case endpoint_for up (wire_protocol_id p) of Some e \<Rightarrow> Some e | None \<Rightarrow> untyped_endpoint up)"

definition supports :: "gateway_upstream \<Rightarrow> wire_protocol \<Rightarrow> bool" where
  "supports up p \<longleftrightarrow> endpoint_for up (wire_protocol_id p) \<noteq> None"

text \<open>The name an upstream is asked for: the upstream side of a local alias, or the model itself.\<close>

definition alias_upstream :: "gateway_upstream \<Rightarrow> ustring \<Rightarrow> ustring" where
  "alias_upstream up model = (case map_of (up_model_aliases up) model of Some u \<Rightarrow> u | None \<Rightarrow> model)"

section \<open>The protocol a call is made with\<close>

record target_plan =
  tp_target :: wire_protocol
  tp_passthrough :: bool
  tp_alternates :: "(wire_protocol \<times> bool) list"

definition TRANSLATION_PREFERENCE :: "wire_protocol list" where
  "TRANSLATION_PREFERENCE = [AnthropicMessages, ChatCompletions, Responses, GeminiGenerateContent]"

definition choose_target ::
    "wire_protocol \<Rightarrow> gateway_upstream \<Rightarrow> wire_protocol option \<Rightarrow> gateway_policy \<Rightarrow> gateway_error + target_plan" where
  "choose_target inbound up learned policy =
     (let allowed = (\<lambda>p. translate_allows (gp_translate policy) (wire_protocol_id p))
      in case learned of
        Some l \<Rightarrow> Inr \<lparr>tp_target = l, tp_passthrough = (l = inbound), tp_alternates = []\<rparr>
      | None \<Rightarrow>
          if supports up inbound
          then Inr \<lparr>tp_target = inbound, tp_passthrough = True, tp_alternates = []\<rparr>
          else if untyped_endpoint up \<noteq> None
          then Inr \<lparr>tp_target = inbound, tp_passthrough = True,
                    tp_alternates = map (\<lambda>p. (p, False))
                      (filter (\<lambda>p. p \<noteq> inbound \<and> allowed p) TRANSLATION_PREFERENCE)\<rparr>
          else case find (\<lambda>p. supports up p \<and> allowed p) TRANSLATION_PREFERENCE of
            Some p \<Rightarrow> Inr \<lparr>tp_target = p, tp_passthrough = False, tp_alternates = []\<rparr>
          | None \<Rightarrow> Inl (TranslationDisabled (wire_protocol_id inbound)))"

section \<open>The body a call sends\<close>

text \<open>\<open>Map::insert\<close> of \<open>serde_json\<close>: a known key keeps its place, a new one goes to the end.\<close>

fun obj_insert :: "ustring \<Rightarrow> json \<Rightarrow> (ustring \<times> json) list \<Rightarrow> (ustring \<times> json) list" where
  "obj_insert k v [] = [(k, v)]"
| "obj_insert k v ((k', v') # kvs) =
     (if k = k' then (k, v) # kvs else (k', v') # obj_insert k v kvs)"

definition plain_tool :: "json \<Rightarrow> bool" where
  "plain_tool tool = (case get_field (lit ''type'') tool of Some (JString kind) \<Rightarrow> kind = lit ''function'' | _ \<Rightarrow> True)"

definition drop_tools_the_target_cannot_express :: "(ustring \<times> json) list \<Rightarrow> (ustring \<times> json) list" where
  "drop_tools_the_target_cannot_express kvs =
     (case map_of kvs (lit ''tools'') of
        Some (JArray tools) \<Rightarrow>
          (if list_all plain_tool tools then kvs
           else if filter plain_tool tools = [] then filter (\<lambda>(k, v). k \<noteq> lit ''tools'') kvs
           else map (\<lambda>(k, v). (k, if k = lit ''tools'' then JArray (filter plain_tool tools) else v)) kvs)
      | _ \<Rightarrow> kvs)"

definition build_member_body ::
    "(wire_protocol \<Rightarrow> canonical_request \<Rightarrow> ustring \<Rightarrow> bool \<Rightarrow> gateway_error + json) \<Rightarrow> wire_protocol \<Rightarrow> bool \<Rightarrow>
      wire_protocol \<Rightarrow> json \<Rightarrow> canonical_request \<Rightarrow> canonical_request \<Rightarrow> ustring \<Rightarrow> bool \<Rightarrow> gateway_error + json" where
  "build_member_body build target passthrough inbound original request member_request model stream =
     (if \<not> passthrough \<or> target \<noteq> inbound \<or> cr_reasoning request \<noteq> cr_reasoning member_request
      then build target member_request model stream
      else case original of
        JObject kvs \<Rightarrow>
          (let named = drop_tools_the_target_cannot_express (obj_insert (lit ''model'') (JString model) kvs)
           in Inr (JObject (if map_of named (lit ''stream'') = Some (JBool stream) then named
                            else obj_insert (lit ''stream'') (JBool stream) named)))
      | _ \<Rightarrow> build target member_request model stream)"

definition MODEL_PROVIDER_EXTRA_BODY_RESERVED :: "ustring list" where
  "MODEL_PROVIDER_EXTRA_BODY_RESERVED =
     [lit ''model'', lit ''stream'', lit ''messages'', lit ''input'', lit ''contents'', lit ''system'',
      lit ''systemInstruction'', lit ''system_instruction'', lit ''instructions'', lit ''tools'']"

fun apply_extra_body :: "(ustring \<times> json) list \<Rightarrow> json \<Rightarrow> json" where
  "apply_extra_body extra (JObject kvs) =
     JObject (foldl (\<lambda>acc (k, v). if k \<in> set MODEL_PROVIDER_EXTRA_BODY_RESERVED then acc else obj_insert k v acc) kvs extra)"
| "apply_extra_body extra v = v"

section \<open>Describing a failure\<close>

definition truncate_text :: "ustring \<Rightarrow> ustring" where
  "truncate_text s = (if length s \<le> 512 then s else take 512 s @ [8230])"

fun as_str :: "json option \<Rightarrow> ustring option" where
  "as_str (Some (JString s)) = Some s"
| "as_str _ = None"

definition error_pointers :: "ustring list list" where
  "error_pointers = [[lit ''error'', lit ''message''], [lit ''error'', lit ''msg''], [lit ''message''], [lit ''error''], [lit ''detail'']]"

definition upstream_message :: "(ustring \<Rightarrow> json option) \<Rightarrow> ustring \<Rightarrow> ustring" where
  "upstream_message parse body =
     (let trimmed_body = trim body;
          said = (case parse trimmed_body of
                    None \<Rightarrow> None
                  | Some v \<Rightarrow> first_some (map (\<lambda>p. as_str (get_path p v)) error_pointers))
      in case said of
           Some m \<Rightarrow> truncate_text m
         | None \<Rightarrow> if trimmed_body = [] then lit ''the upstream refused the request without a message''
                  else truncate_text trimmed_body)"

fun member_failure_kind :: "(ustring \<Rightarrow> ustring) \<Rightarrow> gateway_error \<Rightarrow> failure_kind" where
  "member_failure_kind lower (UpstreamError status message) = classify_failure lower status message"
| "member_failure_kind lower (AllKeysCooling m r) = Rate"
| "member_failure_kind lower (TokenCeilingReached p) = Quota"
| "member_failure_kind lower (NotConfigured m) = Auth"
| "member_failure_kind lower _ = Other"

section \<open>Ordering the members of one turn\<close>

definition hoist_pinned :: "profile_id option \<Rightarrow> ('a \<Rightarrow> profile_id) \<Rightarrow> 'a list \<Rightarrow> 'a list" where
  "hoist_pinned pinned profile plans =
     (case pinned of
        None \<Rightarrow> plans
      | Some p \<Rightarrow> (case position (\<lambda>plan. profile plan = p) plans of
          None \<Rightarrow> plans
        | Some i \<Rightarrow> if 0 < i then move_to_front i plans else plans))"

definition wanted_members :: "route_rule \<Rightarrow> member_id list" where
  "wanted_members rule = (case rr_use_member_id rule of None \<Rightarrow> [] | Some m \<Rightarrow> [m]) @ rr_more_member_ids rule"

definition reorder_for_rule :: "route_rule \<Rightarrow> route_member_ref list \<Rightarrow> route_member_ref list" where
  "reorder_for_rule rule plans =
     (if wanted_members rule = [] then plans
      else push_new (push_new [] (List.map_filter (\<lambda>m. find (\<lambda>plan. mf_member_id plan = Some m) plans)
             (wanted_members rule))) plans)"

fun text_len :: "content_part \<Rightarrow> nat" where
  "text_len (Text t) = length t"
| "text_len _ = 0"

definition estimate_request_tokens :: "canonical_request \<Rightarrow> nat" where
  "estimate_request_tokens r =
     sat_add_u64 (foldl sat_add_u64 0 (map text_len (cr_system r @ concat (map cm_parts (cr_messages r)))))
       (length (cr_tools r) * 180) div 4"

fun image_part :: "content_part \<Rightarrow> bool" where
  "image_part (Image src) = True"
| "image_part (ToolResult _ content _) = list_ex image_part content"
| "image_part _ = False"

definition request_has_images :: "canonical_request \<Rightarrow> bool" where
  "request_has_images r \<longleftrightarrow> list_ex image_part (cr_system r) \<or>
     list_ex (\<lambda>m. list_ex image_part (cm_parts m)) (cr_messages r)"

text \<open>\<open>headers\<close> gives the readable value of a header; \<open>weekday\<close> and \<open>minute\<close> are the local clock.\<close>

definition header_text :: "(ustring \<Rightarrow> ustring option) \<Rightarrow> ustring \<Rightarrow> ustring option" where
  "header_text headers name =
     (case headers name of None \<Rightarrow> None | Some v \<Rightarrow> if trim v = [] then None else Some (trim v))"

definition route_rule_context ::
    "nat \<Rightarrow> nat \<Rightarrow> canonical_request \<Rightarrow> ustring option \<Rightarrow> (ustring \<Rightarrow> ustring option) \<Rightarrow> ustring option \<Rightarrow> rule_context" where
  "route_rule_context weekday minute r agent_id headers intent =
     \<lparr>rc_agent_id = agent_id,
      rc_context_tokens = Some (estimate_request_tokens r),
      rc_has_images = request_has_images r,
      rc_requested_effort = rr_effort_asked (cr_reasoning r),
      rc_compact = (case header_text headers (lit ''x-vibex-compact'') of
                      None \<Rightarrow> False | Some v \<Rightarrow> eq_ignore_ascii_case v (lit ''true'')),
      rc_intent = (case intent of Some i \<Rightarrow> Some i | None \<Rightarrow> header_text headers (lit ''x-vibex-intent'')),
      rc_workspace_root = header_text headers (lit ''x-vibex-workspace''),
      rc_local_weekday = Some weekday,
      rc_local_minute = Some minute\<rparr>"

definition reasoning_variant_base :: "ustring \<Rightarrow> ustring option" where
  "reasoning_variant_base model =
     first_some (map (\<lambda>level. case strip_suffix level model of
         Some base \<Rightarrow> if base = [] then None else Some base | None \<Rightarrow> None)
       [lit ''-high'', lit ''-medium'', lit ''-low''])"

definition resolved_group_id :: "ustring \<Rightarrow> ustring option" where
  "resolved_group_id model = map_option fst (route_group_model_ref model)"

definition bare_model_name :: "ustring \<Rightarrow> ustring" where
  "bare_model_name requested = (case route_group_model_ref requested of Some (g, m) \<Rightarrow> m | None \<Rightarrow> requested)"


section \<open>Protocol ids\<close>

interpretation wire_protocol_codec: id_codec wire_protocol_ALL wire_protocol_id
proof
  show "x \<in> set wire_protocol_ALL" for x by (cases x) (simp_all add: wire_protocol_ALL_def)
  show "distinct (map wire_protocol_id wire_protocol_ALL)" by (simp add: wire_protocol_ALL_def)
  show "\<forall>x \<in> set wire_protocol_ALL. trimmed (wire_protocol_id x)"
    by (simp add: wire_protocol_ALL_def trimmed_iff is_whitespace_def)
qed

lemma lesson_round_trip: "from_wire_protocol_id (wire_protocol_id p) = Some p"
  by (simp add: from_wire_protocol_id_def wire_protocol_codec.find_id_round_trip)

lemma set_preference: "set TRANSLATION_PREFERENCE = UNIV"
proof -
  have "p \<in> set TRANSLATION_PREFERENCE" for p by (cases p) (simp_all add: TRANSLATION_PREFERENCE_def)
  then show ?thesis by blast
qed

lemma distinct_preference: "distinct TRANSLATION_PREFERENCE"
  by (simp add: TRANSLATION_PREFERENCE_def)

section \<open>Choosing the protocol\<close>

text \<open>The calls a plan may make, the first one and its corrections.\<close>

definition plan_calls :: "target_plan \<Rightarrow> (wire_protocol \<times> bool) list" where
  "plan_calls plan = (tp_target plan, tp_passthrough plan) # tp_alternates plan"

lemma endpoint_for_call_None:
  "endpoint_for_call up p = None \<longleftrightarrow> \<not> supports up p \<and> untyped_endpoint up = None"
  by (auto simp: endpoint_for_call_def supports_def split: option.split)

lemma choose_target_cases:
  assumes "choose_target inbound up learned policy = Inr plan"
  obtains (learned) l where "learned = Some l" "plan_calls plan = [(l, l = inbound)]"
  | (declared) "learned = None" "supports up inbound" "plan_calls plan = [(inbound, True)]"
  | (guess) "learned = None" "\<not> supports up inbound" "untyped_endpoint up \<noteq> None"
      "plan_calls plan = (inbound, True) # map (\<lambda>p. (p, False))
         (filter (\<lambda>p. p \<noteq> inbound \<and> translate_allows (gp_translate policy) (wire_protocol_id p)) TRANSLATION_PREFERENCE)"
  | (translated) p where "learned = None" "\<not> supports up inbound" "untyped_endpoint up = None" "supports up p"
      "translate_allows (gp_translate policy) (wire_protocol_id p)" "p \<noteq> inbound" "plan_calls plan = [(p, False)]"
proof (cases learned)
  case (Some l)
  then show ?thesis using assms learned by (auto simp: choose_target_def plan_calls_def)
next
  case None
  show ?thesis
  proof (cases "supports up inbound \<or> untyped_endpoint up \<noteq> None")
    case True
    then show ?thesis
      using assms None declared guess
      by (auto simp: choose_target_def plan_calls_def Let_def split: if_splits)
  next
    case False
    then obtain p where p: "find (\<lambda>p. supports up p \<and> translate_allows (gp_translate policy) (wire_protocol_id p))
        TRANSLATION_PREFERENCE = Some p" "plan = \<lparr>tp_target = p, tp_passthrough = False, tp_alternates = []\<rparr>"
      using assms None by (auto simp: choose_target_def Let_def split: option.splits)
    from p(1) have "supports up p" "translate_allows (gp_translate policy) (wire_protocol_id p)"
      by (auto simp: find_Some_iff)
    then show ?thesis using translated [of p] p(2) False None by (auto simp: plan_calls_def)
  qed
qed

lemma choose_target_error:
  "choose_target inbound up learned policy = Inl e \<longleftrightarrow>
     e = TranslationDisabled (wire_protocol_id inbound) \<and> learned = None \<and> untyped_endpoint up = None \<and>
     \<not> supports up inbound \<and>
     (\<forall>p. supports up p \<longrightarrow> \<not> translate_allows (gp_translate policy) (wire_protocol_id p))"
  using set_preference
  by (auto simp: choose_target_def Let_def find_None_iff find_Some_iff split: option.splits)

section \<open>Members keep their fallbacks\<close>

interpretation pinned_order: permuting "hoist_pinned pinned profile" for pinned profile
  by unfold_locales (simp add: hoist_pinned_def split: option.split)

lemma hoist_pinned_hd:
  assumes "x \<in> set plans" and "profile x = p"
  shows "profile (hd (hoist_pinned (Some p) profile plans)) = p"
proof -
  obtain i where i: "position (\<lambda>plan. profile plan = p) plans = Some i"
    using position_exists [of x plans "\<lambda>plan. profile plan = p"] assms by auto
  then have "i < length plans" "profile (plans ! i) = p" by (auto simp: position_Some_iff)
  then show ?thesis using i by (cases plans) (auto simp: hoist_pinned_def hd_move_to_front)
qed

lemma set_reorder_for_rule [simp]: "set (reorder_for_rule rule plans) = set plans"
proof -
  have "find P plans = Some q \<Longrightarrow> q \<in> set plans" for P q
    by (auto simp: find_Some_iff)
  then have "set (List.map_filter (\<lambda>m. find (\<lambda>plan. mf_member_id plan = Some m) plans) ms) \<subseteq> set plans" for ms
    by (auto simp: List.map_filter_def)
  then show ?thesis by (auto simp: reorder_for_rule_def)
qed

lemma distinct_reorder_for_rule: "distinct plans \<Longrightarrow> distinct (reorder_for_rule rule plans)"
  by (simp add: reorder_for_rule_def)

lemma reorder_for_rule_hd:
  assumes "rr_use_member_id rule = Some m" and "plan \<in> set plans" and "mf_member_id plan = Some m"
  shows "mf_member_id (hd (reorder_for_rule rule plans)) = Some m"
proof -
  obtain q where q: "find (\<lambda>plan. mf_member_id plan = Some m) plans = Some q"
    using assms(2,3) by (metis (mono_tags, lifting) find_None_iff not_Some_eq)
  define named where "named = List.map_filter (\<lambda>m. find (\<lambda>plan. mf_member_id plan = Some m) plans) (wanted_members rule)"
  obtain ms where ms: "wanted_members rule = m # ms" using assms(1) by (simp add: wanted_members_def)
  have n: "named = q # List.map_filter (\<lambda>m. find (\<lambda>plan. mf_member_id plan = Some m) plans) ms"
    by (simp add: named_def ms q map_filter_simps)
  have pre: "prefix (push_new [] named) (push_new (push_new [] named) plans)" by (rule push_new_prefix)
  have "prefix [q] (push_new [] named)" using push_new_prefix [of "[q]"] by (simp add: n)
  then have "prefix [q] (push_new (push_new [] named) plans)" using pre prefix_order.trans by blast
  then have "hd (reorder_for_rule rule plans) = q"
    using ms by (auto simp: reorder_for_rule_def named_def elim: prefixE)
  then show ?thesis using q by (auto simp: find_Some_iff)
qed

section \<open>Bodies\<close>

lemma map_of_obj_insert [simp]: "map_of (obj_insert k v kvs) = (map_of kvs)(k \<mapsto> v)"
  by (induction k v kvs rule: obj_insert.induct) auto

definition kept_tools :: "json option \<Rightarrow> json option" where
  "kept_tools t = (case t of
     Some (JArray tools) \<Rightarrow>
       if list_all plain_tool tools then Some (JArray tools)
       else if filter plain_tool tools = [] then None
       else Some (JArray (filter plain_tool tools))
   | _ \<Rightarrow> t)"

lemma map_of_without: "map_of (filter (\<lambda>(k, v). k \<noteq> a) kvs) k = (if k = a then None else map_of kvs k)"
  by (induction kvs) auto

lemma map_of_replace:
  "map_of (map (\<lambda>(k, v). (k, if k = a then w else v)) kvs) k =
     (if k = a then map_option (\<lambda>_. w) (map_of kvs k) else map_of kvs k)"
  by (induction kvs) auto

lemma map_of_drop_tools:
  "map_of (drop_tools_the_target_cannot_express kvs) k =
     (if k = lit ''tools'' then kept_tools (map_of kvs k) else map_of kvs k)"
  by (auto simp: drop_tools_the_target_cannot_express_def kept_tools_def map_of_without map_of_replace
      simp del: lit_simps split: option.split json.split)

lemma passthrough_body:
  assumes "cr_reasoning mr = cr_reasoning r"
  obtains kvs' where "build_member_body build p True p (JObject kvs) r mr model stream = Inr (JObject kvs')"
    and "\<And>k. map_of kvs' k = (if k = lit ''model'' then Some (JString model)
       else if k = lit ''stream'' then Some (JBool stream)
       else if k = lit ''tools'' then kept_tools (map_of kvs k) else map_of kvs k)"
proof -
  define named where "named = drop_tools_the_target_cannot_express (obj_insert (lit ''model'') (JString model) kvs)"
  have ne: "lit ''model'' \<noteq> lit ''tools''" "lit ''stream'' \<noteq> lit ''tools''" "lit ''stream'' \<noteq> lit ''model''" by simp_all
  have named: "map_of named k = (if k = lit ''model'' then Some (JString model)
      else if k = lit ''tools'' then kept_tools (map_of kvs k) else map_of kvs k)" for k
    using ne by (simp add: named_def map_of_drop_tools del: lit_simps)
  show ?thesis
    by (rule that [of "if map_of named (lit ''stream'') = Some (JBool stream) then named
            else obj_insert (lit ''stream'') (JBool stream) named"])
      (use ne assms named in \<open>auto simp: build_member_body_def Let_def simp del: lit_simps simp flip: named_def\<close>)
qed

lemma extra_body_reserved:
  assumes "k \<in> set MODEL_PROVIDER_EXTRA_BODY_RESERVED"
  shows "get_field k (apply_extra_body extra body) = get_field k body"
proof -
  have "map_of (foldl (\<lambda>acc (k, v). if k \<in> set MODEL_PROVIDER_EXTRA_BODY_RESERVED then acc else obj_insert k v acc) kvs extra) k
      = map_of kvs k" for kvs
    using assms by (induction extra arbitrary: kvs) (auto simp: case_prod_unfold)
  then show ?thesis by (cases body) auto
qed

section \<open>Addresses\<close>

definition version_segment :: "wire_protocol \<Rightarrow> ustring" where
  "version_segment p = (if p = GeminiGenerateContent then lit ''/v1beta'' else lit ''/v1'')"

lemma endpoint_url_join:
  "endpoint_url address p model stream =
     (let base = trim_end_slashes (trim address) in
      if base = [] then Inl (NotConfigured (lit ''the upstream Provider has an empty address''))
      else Inr ((if ends_with base (version_segment p) then base else base @ version_segment p) @
                drop (length (version_segment p)) (protocol_path p model stream)))"
  by (cases p) (simp_all add: endpoint_url_def join_version_def version_segment_def Let_def)

text \<open>An address is completed to the same URL whether or not the user wrote the version segment or
  a trailing slash.\<close>

lemma address_spelling_irrelevant:
  assumes "trimmed b" and "b \<noteq> []" and "last b \<noteq> 47" and "\<not> ends_with b (version_segment p)"
  shows "endpoint_url (b @ version_segment p) p model stream = endpoint_url b p model stream"
    and "endpoint_url (b @ [47]) p model stream = endpoint_url b p model stream"
proof -
  have v: "version_segment p \<noteq> []" "last (version_segment p) \<noteq> 47" "\<not> is_whitespace (last (version_segment p))"
    by (simp_all add: version_segment_def is_whitespace_def)
  have hd: "\<not> is_whitespace (hd b)" using assms(1,2) by (simp add: trimmed_iff)
  have t: "trim (b @ w) = b @ w" if "w \<noteq> []" "\<not> is_whitespace (last w)" for w
    using that hd assms(2) trimmedI [of "b @ w"] by (simp add: trimmed_def)
  have e: "trim_end_slashes s = s" if "s \<noteq> []" "last s \<noteq> 47" for s
    using that by (cases s rule: rev_cases) (simp_all add: trim_end_slashes_def)
  have b: "trim b = b" "trim_end_slashes b = b" using assms e by (simp_all add: trimmed_def)
  have s: "trim_end_slashes (b @ [47]) = b" using b(2) by (simp add: trim_end_slashes_def)
  have w: "ends_with (b @ version_segment p) (version_segment p)"
    by (metis ends_with_def option.distinct(1) strip_suffix_Some_iff)
  have "trim (b @ version_segment p) = b @ version_segment p" using t v by blast
  moreover have "trim_end_slashes (b @ version_segment p) = b @ version_segment p" using e v by simp
  ultimately show "endpoint_url (b @ version_segment p) p model stream = endpoint_url b p model stream"
    using assms(2,4) w b by (simp add: endpoint_url_join Let_def)
  have "trim (b @ [47]) = b @ [47]" using t [of "[47]"] by (simp add: is_whitespace_def)
  then show "endpoint_url (b @ [47]) p model stream = endpoint_url b p model stream"
    using s b by (simp add: endpoint_url_join)
qed

section \<open>Properties\<close>


definition sample_upstream :: gateway_upstream where
  "sample_upstream = \<lparr>up_profile_id = lit ''p'', up_display_name = lit ''P'',
     up_endpoints = [\<lparr>ep_id = lit ''e'', ep_kind = EndpointApi, ep_url = lit ''https://p'', ep_wire_protocol_id = None\<rparr>],
     up_models = [lit ''m''], up_model_aliases = [], up_extra_body = [], up_credentials = [], up_keys = []\<rparr>"


text \<open>A same-protocol call is built from the client's own body: with the reasoning untouched, the body, before
  the Provider's extra fields are added, names the model the member calls, carries the stream flag the gateway decided, and every other
  field is what the client sent, vendor fields included; only the list of tools may lose entries.\<close>
lemma passthrough_preserves_body:
  assumes "cr_reasoning mr = cr_reasoning r"
  shows "\<exists>kvs'. build_member_body build p True p (JObject kvs) r mr model stream = Inr (JObject kvs') \<and>
     map_of kvs' (lit ''model'') = Some (JString model) \<and> map_of kvs' (lit ''stream'') = Some (JBool stream) \<and>
     map_of kvs' (lit ''tools'') = kept_tools (map_of kvs (lit ''tools'')) \<and>
     (\<forall>k. k = lit ''model'' \<or> k = lit ''stream'' \<or> k = lit ''tools'' \<or> map_of kvs' k = map_of kvs k)"
proof -
  obtain kvs' where b: "build_member_body build p True p (JObject kvs) r mr model stream = Inr (JObject kvs')"
    and m: "\<And>k. map_of kvs' k = (if k = lit ''model'' then Some (JString model)
       else if k = lit ''stream'' then Some (JBool stream)
       else if k = lit ''tools'' then kept_tools (map_of kvs k) else map_of kvs k)"
    using passthrough_body [OF assms] by blast
  have ne: "lit ''model'' \<noteq> lit ''tools''" "lit ''stream'' \<noteq> lit ''tools''" "lit ''stream'' \<noteq> lit ''model''" by simp_all
  show ?thesis by (rule exI [of _ kvs']) (use b m ne in \<open>simp del: lit_simps\<close>)
qed

lemma passthrough_preserves_body_witness:
  "\<exists>kvs'. build_member_body (\<lambda>_ _ _ _. Inl UnsupportedImageReference) Responses True Responses
       (JObject [(lit ''store'', JBool True)]) (for_model (lit ''m'')) (for_model (lit ''m'')) (lit ''m'') True = Inr (JObject kvs') \<and>
     map_of kvs' (lit ''model'') = Some (JString (lit ''m'')) \<and> map_of kvs' (lit ''stream'') = Some (JBool True) \<and>
     map_of kvs' (lit ''tools'') = kept_tools (map_of [(lit ''store'', JBool True)] (lit ''tools'')) \<and>
     (\<forall>k. k = lit ''model'' \<or> k = lit ''stream'' \<or> k = lit ''tools'' \<or> map_of kvs' k = map_of [(lit ''store'', JBool True)] k)"
  by (rule passthrough_preserves_body) simp

text \<open>A same-protocol call loses every tool that carries a type other than \<open>function\<close>, whatever
  the protocol: a body of the Messages protocol whose tools are all declared with the type
  \<open>custom\<close> (or a server tool's type) is sent without any tools.\<close>
lemma typed_tools_dropped:
  assumes "cr_reasoning mr = cr_reasoning r" and "map_of kvs (lit ''tools'') = Some (JArray tools)" and "tools \<noteq> []"
    and "\<forall>t \<in> set tools. \<exists>kind. get_field (lit ''type'') t = Some (JString kind) \<and> kind \<noteq> lit ''function''"
  shows "\<exists>kvs'. build_member_body build p True p (JObject kvs) r mr model stream = Inr (JObject kvs') \<and>
     map_of kvs' (lit ''tools'') = None"
proof -
  obtain kvs' where b: "build_member_body build p True p (JObject kvs) r mr model stream = Inr (JObject kvs')"
    and m: "\<And>k. map_of kvs' k = (if k = lit ''model'' then Some (JString model)
       else if k = lit ''stream'' then Some (JBool stream)
       else if k = lit ''tools'' then kept_tools (map_of kvs k) else map_of kvs k)"
    using passthrough_body [OF assms(1)] by blast
  have "\<forall>t \<in> set tools. \<not> plain_tool t"
    using assms(4) by (auto simp: plain_tool_def simp del: lit_simps)
  then have "filter plain_tool tools = []" "\<not> list_all plain_tool tools"
    using assms(3) by (auto simp: filter_empty_conv list_all_iff)
  then have "kept_tools (map_of kvs (lit ''tools'')) = None" by (simp add: kept_tools_def assms(2) del: lit_simps)
  moreover have "lit ''tools'' \<noteq> lit ''model''" "lit ''tools'' \<noteq> lit ''stream''" by simp_all
  ultimately show ?thesis using b m by auto
qed

lemma typed_tools_dropped_witness:
  "\<exists>kvs'. build_member_body (\<lambda>_ _ _ _. Inl UnsupportedImageReference) AnthropicMessages True AnthropicMessages
       (JObject [(lit ''tools'', JArray [JObject [(lit ''name'', JString (lit ''read'')), (lit ''type'', JString (lit ''custom''))]])])
       (for_model (lit ''m'')) (for_model (lit ''m'')) (lit ''m'') True = Inr (JObject kvs') \<and>
     map_of kvs' (lit ''tools'') = None"
  by (rule typed_tools_dropped [where tools = "[JObject [(lit ''name'', JString (lit ''read'')), (lit ''type'', JString (lit ''custom''))]]"])
    simp_all

end
