(* ===== verification/Key_Health.thy ===== *)
theory Key_Health
  imports Gateway_Core
begin

text \<open>
  The durable per-Key routing state and the two other small tables the gateway keeps beside
  it: \<open>crates/db/src/model_gateway.rs\<close> (the repositories) and the writers of
  \<open>crates/model-gateway/src/service.rs\<close> (\<open>mark_failure\<close>, \<open>clear_failure\<close>,
  \<open>pin_conversation\<close>). A table is a map from its primary key, which is what the
  \<open>ON CONFLICT\<close> clauses of the upserts make it; a healthy database connection is assumed.
  Facts: the writers keep the two cooldown columns consistent, so the readiness test and
  the state a reader sees agree; an authentication failure stays until a user re-enables the
  Key, another verdict overwrites it or a success clears it; a token window contains its instant
  and accumulates; pins are read back until they expire and the table is bounded.
\<close>

section \<open>Account states\<close>

type_synonym account_store = "(profile_id \<times> request_id) \<rightharpoonup> account_state"

text \<open>\<open>list(..).find(..).unwrap_or_else(ready)\<close>.\<close>

definition account_of :: "account_store \<Rightarrow> profile_id \<Rightarrow> request_id \<Rightarrow> int \<Rightarrow> account_state" where
  "account_of st p c now =
     (case st (p, c) of Some a \<Rightarrow> a | None \<Rightarrow> account_ready p c now)"

definition account_upsert :: "account_store \<Rightarrow> account_state \<Rightarrow> account_store" where
  "account_upsert st a = st((as_profile a, as_credential a) \<mapsto> a)"

definition mark_failure ::
    "(ustring \<times> nat) list \<Rightarrow> account_store \<Rightarrow> profile_id \<Rightarrow> request_id \<Rightarrow> failure_kind \<Rightarrow> int
     \<Rightarrow> account_store" where
  "mark_failure overrides st p c kind now =
     (let a = account_of st p c now;
          a1 = a\<lparr>as_consecutive_failures := sat_add_i64 (as_consecutive_failures a) 1,
                 as_updated_at_ms := now\<rparr>;
          override_ms = map_of overrides (failure_kind_id kind);
          a2 = (case health_from_failure kind now of
                  HealthInvalid \<Rightarrow>
                    a1\<lparr>as_cooldown_reason := Some Auth, as_cooldown_until_ms := None\<rparr>
                | HealthCooling k until \<Rightarrow>
                    a1\<lparr>as_cooldown_reason := Some k,
                       as_cooldown_until_ms := Some (case override_ms of
                          Some ms \<Rightarrow> sat_add_i64 now (int ms) | None \<Rightarrow> until)\<rparr>
                | HealthReady \<Rightarrow>
                    a1\<lparr>as_cooldown_reason := None, as_cooldown_until_ms := None\<rparr>)
      in account_upsert st a2)"

definition clear_failure :: "account_store \<Rightarrow> profile_id \<Rightarrow> request_id \<Rightarrow> int \<Rightarrow> account_store" where
  "clear_failure st p c now =
     (case st (p, c) of
        None \<Rightarrow> st
      | Some a \<Rightarrow> st((p, c) \<mapsto> a\<lparr>as_cooldown_until_ms := None, as_cooldown_reason := None,
                                as_consecutive_failures := 0, as_updated_at_ms := now\<rparr>))"

record account_update =
  au_profile :: profile_id
  au_credential :: request_id
  au_enabled :: "bool option"
  au_preferred :: "bool option"

definition account_update_validate :: "account_update \<Rightarrow> vibex_error + unit" where
  "account_update_validate u =
     reject_if (au_enabled u = None \<and> au_preferred u = None) ''model_gateway_account_update_empty''"

definition apply_update :: "account_store \<Rightarrow> account_update \<Rightarrow> int \<Rightarrow> account_store" where
  "apply_update st u now =
     (let a = account_of st (au_profile u) (au_credential u) now;
          a1 = (case au_enabled u of
                  None \<Rightarrow> a
                | Some enabled \<Rightarrow>
                    (let b = a\<lparr>as_enabled := enabled\<rparr> in
                     if enabled then b\<lparr>as_cooldown_until_ms := None, as_cooldown_reason := None,
                                       as_consecutive_failures := 0\<rparr>
                     else b))
      in account_upsert st (a1\<lparr>as_updated_at_ms := now\<rparr>))"

section \<open>Token windows\<close>

type_synonym window_store = "(profile_id \<times> token_window \<times> int) \<rightharpoonup> int \<times> int"

definition DAY_MS :: int where
  "DAY_MS = 24 * 60 * 60 * 1000"

definition window_start :: "token_window \<Rightarrow> int \<Rightarrow> int" where
  "window_start w now =
     (let days = now div DAY_MS in
      case w of
        Day \<Rightarrow> days * DAY_MS
      | Week \<Rightarrow> (days div 7) * 7 * DAY_MS
      | Month \<Rightarrow> (days div 30) * 30 * DAY_MS)"

text \<open>A row holds \<open>(window_end_ms, used_tokens)\<close>.\<close>

definition window_current ::
    "window_store \<Rightarrow> profile_id \<Rightarrow> token_window \<Rightarrow> int \<Rightarrow> token_window_usage option" where
  "window_current st p w now =
     map_option (\<lambda>(wend, used). \<lparr>tw_profile = p, tw_window = w, tw_start_ms = window_start w now,
                                 tw_end_ms = wend, tw_used_tokens = nat used\<rparr>)
       (st (p, w, window_start w now))"

definition window_record ::
    "window_store \<Rightarrow> profile_id \<Rightarrow> token_window \<Rightarrow> nat \<Rightarrow> int \<Rightarrow> window_store" where
  "window_record st p w tokens now =
     (let start = window_start w now;
          wend = sat_add_i64 start (duration_ms w);
          added = min (int tokens) I64_MAX
      in case st (p, w, start) of
           None \<Rightarrow> st((p, w, start) \<mapsto> (wend, added))
         | Some (wend', used) \<Rightarrow> st((p, w, start) \<mapsto> (wend', used + added)))"

section \<open>Conversation pins\<close>

definition PIN_TTL_MS :: int where
  "PIN_TTL_MS = 30 * 60 * 1000"

text \<open>The pin table, one row per conversation key (oldest insertion first).\<close>

type_synonym pin_store = "conversation_pin list"

definition pin_get :: "pin_store \<Rightarrow> ustring \<Rightarrow> conversation_pin option" where
  "pin_get st key = find (\<lambda>p. cp_key p = key) st"

definition pin_upsert :: "pin_store \<Rightarrow> conversation_pin \<Rightarrow> pin_store" where
  "pin_upsert st p =
     (if \<exists>q \<in> set st. cp_key q = cp_key p
      then map (\<lambda>q. if cp_key q = cp_key p then p else q) st else st @ [p])"

definition pin_delete :: "pin_store \<Rightarrow> ustring \<Rightarrow> pin_store" where
  "pin_delete st key = filter (\<lambda>p. cp_key p \<noteq> key) st"

definition pin_conversation ::
    "pin_store \<Rightarrow> ustring \<Rightarrow> profile_id \<Rightarrow> request_id \<Rightarrow> int \<Rightarrow> pin_store" where
  "pin_conversation st key p c now =
     pin_upsert st \<lparr>cp_key = key, cp_profile = p, cp_credential = c,
                    cp_chosen_at_ms = now, cp_expires_at_ms = now + PIN_TTL_MS\<rparr>"

text \<open>\<open>prune\<close>: expired pins go, then all but the \<open>keep\<close> most recently chosen.\<close>

definition pin_prune :: "pin_store \<Rightarrow> int \<Rightarrow> nat \<Rightarrow> pin_store" where
  "pin_prune st now keep =
     (let live = filter (\<lambda>p. \<not> cp_expires_at_ms p \<le> now) st;
          kept = take keep (sort_key (\<lambda>p. - cp_chosen_at_ms p) live)
      in filter (\<lambda>p. cp_key p \<in> cp_key ` set kept) live)"

definition live_pin :: "pin_store \<Rightarrow> ustring \<Rightarrow> int \<Rightarrow> (profile_id \<times> request_id) option" where
  "live_pin st key now =
     (case pin_get st key of
        None \<Rightarrow> None
      | Some p \<Rightarrow> if pin_is_live_at p now then Some (cp_profile p, cp_credential p) else None)"

section \<open>The consistency invariant\<close>

text \<open>What the writers keep true of the two cooldown columns of a row.\<close>

definition account_wf :: "account_state \<Rightarrow> bool" where
  "account_wf a \<longleftrightarrow>
     (case as_cooldown_reason a of
        None \<Rightarrow> as_cooldown_until_ms a = None
      | Some kind \<Rightarrow> (kind = Auth) = (as_cooldown_until_ms a = None))"

definition store_wf :: "account_store \<Rightarrow> bool" where
  "store_wf st \<longleftrightarrow> (\<forall>p c a. st (p, c) = Some a \<longrightarrow>
     account_wf a \<and> as_profile a = p \<and> as_credential a = c)"

datatype account_op =
    OpMarkFailure "(ustring \<times> nat) list" profile_id request_id failure_kind
  | OpClearFailure profile_id request_id
  | OpUpdate account_update

fun account_step :: "account_store \<Rightarrow> account_op \<times> int \<Rightarrow> account_store" where
  "account_step st (OpMarkFailure ovs p c kind, now) = mark_failure ovs st p c kind now"
| "account_step st (OpClearFailure p c, now) = clear_failure st p c now"
| "account_step st (OpUpdate u, now) = apply_update st u now"

lemma account_of_wf: "store_wf st \<Longrightarrow>
    account_wf (account_of st p c now) \<and> as_profile (account_of st p c now) = p
    \<and> as_credential (account_of st p c now) = c"
  by (cases "st (p, c)") (auto simp: account_of_def store_wf_def account_ready_def account_wf_def)

lemma store_wf_empty: "store_wf Map.empty"
  by (simp add: store_wf_def)

lemma store_wf_upsert: "store_wf st \<Longrightarrow> account_wf a \<Longrightarrow> store_wf (account_upsert st a)"
  by (auto simp: store_wf_def account_upsert_def)

lemma account_wf_health:
  "account_wf (case health_from_failure kind now of
       HealthInvalid \<Rightarrow> a\<lparr>as_cooldown_reason := Some Auth, as_cooldown_until_ms := None\<rparr>
     | HealthCooling k until \<Rightarrow> a\<lparr>as_cooldown_reason := Some k, as_cooldown_until_ms := Some (f until)\<rparr>
     | HealthReady \<Rightarrow> a\<lparr>as_cooldown_reason := None, as_cooldown_until_ms := None\<rparr>)"
  by (cases kind) (simp_all add: health_from_failure_def account_wf_def)

lemma mark_failure_wf: "store_wf st \<Longrightarrow> store_wf (mark_failure ovs st p c kind now)"
  unfolding mark_failure_def Let_def
  by (intro store_wf_upsert account_wf_health)

lemma clear_failure_wf: "store_wf st \<Longrightarrow> store_wf (clear_failure st p c now)"
  by (auto simp: clear_failure_def store_wf_def account_wf_def split: option.splits)

lemma apply_update_wf: "store_wf st \<Longrightarrow> store_wf (apply_update st u now)"
  unfolding apply_update_def Let_def
  by (rule store_wf_upsert)
     (use account_of_wf [of st "au_profile u" "au_credential u" now] in
       \<open>auto simp: account_wf_def split: option.splits\<close>)

lemma account_step_wf: "store_wf st \<Longrightarrow> store_wf (account_step st op)"
  by (cases "(st, op)" rule: account_step.cases)
     (auto simp: mark_failure_wf clear_failure_wf apply_update_wf)

interpretation account_machine: invariant_machine
  "\<lambda>st. st = Map.empty" "\<lambda>st t. \<exists>op. t = account_step st op" store_wf
  by unfold_locales (auto simp: store_wf_empty account_step_wf)

lemma ready_iff_visible: "account_wf a \<Longrightarrow> is_ready_at a now \<longleftrightarrow> visibility_at a now = KeyReady"
  by (auto simp: account_wf_def is_ready_at_def visibility_at_def split: option.splits if_splits)


section \<open>Authentication failures\<close>

definition key_rejected :: "account_store \<Rightarrow> profile_id \<Rightarrow> request_id \<Rightarrow> bool" where
  "key_rejected st p c \<longleftrightarrow> (\<exists>a. st (p, c) = Some a \<and> as_cooldown_reason a = Some Auth)"

text \<open>The operations that may lift an authentication verdict of a Key: a success, a user
  re-enabling it, and a later verdict of another kind.\<close>

fun lifts_auth :: "profile_id \<Rightarrow> request_id \<Rightarrow> account_op \<Rightarrow> bool" where
  "lifts_auth p c (OpMarkFailure ovs p' c' kind) \<longleftrightarrow> p' = p \<and> c' = c \<and> kind \<noteq> Auth"
| "lifts_auth p c (OpClearFailure p' c') \<longleftrightarrow> p' = p \<and> c' = c"
| "lifts_auth p c (OpUpdate u) \<longleftrightarrow> au_profile u = p \<and> au_credential u = c \<and> au_enabled u = Some True"

lemma mark_failure_lookup:
  assumes "store_wf st"
  shows "mark_failure ovs st p c kind now (p', c') =
    (if (p', c') = (p, c)
     then Some (let a = (account_of st p c now)
             \<lparr>as_consecutive_failures := sat_add_i64 (as_consecutive_failures (account_of st p c now)) 1,
              as_updated_at_ms := now\<rparr>
           in case cooldown_ms kind of
                None \<Rightarrow> a\<lparr>as_cooldown_reason := Some Auth, as_cooldown_until_ms := None\<rparr>
              | Some d \<Rightarrow> a\<lparr>as_cooldown_reason := Some kind,
                  as_cooldown_until_ms := Some (case map_of ovs (failure_kind_id kind) of
                     Some ms \<Rightarrow> sat_add_i64 now (int ms) | None \<Rightarrow> sat_add_i64 now d)\<rparr>)
     else st (p', c'))"
  using account_of_wf [OF assms, of p c now]
  by (cases kind) (auto simp: mark_failure_def account_upsert_def health_from_failure_def Let_def)

lemma mark_failure_auth_rejected: "store_wf st \<Longrightarrow> key_rejected (mark_failure ovs st p c Auth now) p c"
  by (simp add: key_rejected_def mark_failure_lookup Let_def)

lemma apply_update_lookup:
  assumes "store_wf st"
  shows "apply_update st u now (p, c) =
    (if (p, c) = (au_profile u, au_credential u)
     then Some (let a = account_of st p c now in
       (case au_enabled u of
          None \<Rightarrow> a
        | Some True \<Rightarrow> a\<lparr>as_enabled := True, as_cooldown_until_ms := None, as_cooldown_reason := None,
                        as_consecutive_failures := 0\<rparr>
        | Some False \<Rightarrow> a\<lparr>as_enabled := False\<rparr>)\<lparr>as_updated_at_ms := now\<rparr>)
     else st (p, c))"
  using account_of_wf [OF assms, of "au_profile u" "au_credential u" now]
  by (simp add: apply_update_def account_upsert_def Let_def split: option.split bool.split)

lemma key_rejected_step:
  assumes "store_wf st" and "key_rejected st p c" and "\<not> lifts_auth p c op"
  shows "key_rejected (account_step st (op, now)) p c"
proof -
  from assms(2) obtain a where a: "st (p, c) = Some a" "as_cooldown_reason a = Some Auth"
    by (auto simp: key_rejected_def)
  then have of: "as_cooldown_reason (account_of st p c now) = Some Auth"
    by (simp add: account_of_def)
  show ?thesis
  proof (cases op)
    case (OpMarkFailure ovs p' c' kind)
    with assms a of show ?thesis
      by (cases kind) (auto simp: key_rejected_def mark_failure_lookup Let_def)
  next
    case (OpClearFailure p' c')
    with assms(3) a show ?thesis
      by (cases "st (p', c')") (auto simp: key_rejected_def clear_failure_def)
  next
    case (OpUpdate u)
    with assms a of show ?thesis
      by (auto simp: key_rejected_def apply_update_lookup Let_def split: option.split bool.split)
  qed
qed

lemma key_rejected_run:
  "store_wf st \<Longrightarrow> key_rejected st p c \<Longrightarrow> \<forall>(op, now) \<in> set ops. \<not> lifts_auth p c op \<Longrightarrow>
   key_rejected (foldl account_step st ops) p c"
proof (induction ops arbitrary: st)
  case (Cons e ops)
  obtain op now where e: "e = (op, now)" by fastforce
  from Cons.prems e have "key_rejected (account_step st (op, now)) p c"
    by (intro key_rejected_step) auto
  with Cons e show ?case by (auto intro!: Cons.IH account_step_wf)
qed simp

lemma key_rejected_never_ready:
  "key_rejected st p c \<Longrightarrow> visibility_at (account_of st p c t) now \<in> {KeyInvalid, KeyDisabled}"
  by (auto simp: key_rejected_def account_of_def visibility_at_def)

section \<open>Windows and pins\<close>

lemma window_start_bounds:
  "window_start w now \<le> now \<and> now < window_start w now + duration_ms w"
proof -
  have a: "(now div DAY_MS) * DAY_MS \<le> now" "now < (now div DAY_MS) * DAY_MS + DAY_MS"
    by (simp_all add: DAY_MS_def)
  have b: "(d div k) * k \<le> d \<and> d < (d div k) * k + k" if "0 < k" for d k :: int
    using pos_mod_bound [OF that, of d] pos_mod_sign [OF that, of d] div_mult_mod_eq [of d k]
    by linarith
  show ?thesis
    using a b [of 7 "now div DAY_MS"] b [of 30 "now div DAY_MS"]
    by (cases w) (auto simp: window_start_def DAY_MS_def Let_def)
qed

lemma find_append: "find P (xs @ ys) = (case find P xs of Some x \<Rightarrow> Some x | None \<Rightarrow> find P ys)"
  by (induction xs) auto

lemma pin_get_replace:
  "pin_get (map (\<lambda>q. if cp_key q = cp_key p then p else q) st) key =
     (if key = cp_key p then (if \<exists>q \<in> set st. cp_key q = cp_key p then Some p else None)
      else pin_get st key)"
  by (induction st) (auto simp: pin_get_def)

lemma pin_get_upsert:
  "pin_get (pin_upsert st p) key = (if key = cp_key p then Some p else pin_get st key)"
proof (cases "\<exists>q \<in> set st. cp_key q = cp_key p")
  case True
  then show ?thesis by (simp add: pin_upsert_def pin_get_replace)
next
  case False
  then have "find (\<lambda>q. cp_key q = cp_key p) st = None" by (auto simp: find_None_iff)
  with False show ?thesis
    by (auto simp: pin_upsert_def pin_get_def find_append split: option.splits)
qed

definition pins_wf :: "pin_store \<Rightarrow> bool" where
  "pins_wf st \<longleftrightarrow> distinct (map cp_key st)"

lemma pin_upsert_wf: "pins_wf st \<Longrightarrow> pins_wf (pin_upsert st p)"
proof (cases "\<exists>q \<in> set st. cp_key q = cp_key p")
  case True
  have "map cp_key (map (\<lambda>q. if cp_key q = cp_key p then p else q) st) = map cp_key st"
    by simp
  with True show "pins_wf st \<Longrightarrow> pins_wf (pin_upsert st p)"
    by (simp only: pins_wf_def pin_upsert_def if_True)
qed (auto simp: pins_wf_def pin_upsert_def)

lemma pin_prune_wf: "pins_wf st \<Longrightarrow> pins_wf (pin_prune st now keep)"
  by (simp add: pins_wf_def pin_prune_def Let_def distinct_map_filter)

lemma pin_prune_length:
  assumes "pins_wf st"
  shows "length (pin_prune st now keep) \<le> keep"
proof -
  define live where "live = filter (\<lambda>p. \<not> cp_expires_at_ms p \<le> now) st"
  define kept where "kept = take keep (sort_key (\<lambda>p. - cp_chosen_at_ms p) live)"
  have pr: "pin_prune st now keep = filter (\<lambda>p. cp_key p \<in> cp_key ` set kept) live"
    by (simp add: pin_prune_def live_def kept_def Let_def)
  have d: "distinct (map cp_key (pin_prune st now keep))"
    using pin_prune_wf [OF assms] by (simp add: pins_wf_def)
  have "length (pin_prune st now keep) = card (set (map cp_key (pin_prune st now keep)))"
    using distinct_card [OF d] by simp
  also have "\<dots> \<le> card (cp_key ` set kept)"
    by (rule card_mono) (auto simp: pr)
  also have "\<dots> \<le> length kept"
    by (meson card_image_le card_length finite_set order_trans)
  also have "\<dots> \<le> keep" by (simp add: kept_def)
  finally show ?thesis .
qed


section \<open>Properties\<close>

definition account_reachable :: "account_store \<Rightarrow> bool" where
  "account_reachable = reach (\<lambda>st. st = Map.empty) (\<lambda>st t. \<exists>op. t = account_step st op)"

lemma account_reachable_wf: "account_reachable st \<Longrightarrow> store_wf st"
  unfolding account_reachable_def by (rule account_machine.reach_inv)

lemma account_reachable_step: "account_reachable st \<Longrightarrow> account_reachable (account_step st op)"
  unfolding account_reachable_def by (rule reach_step) blast+

lemma account_reachable_empty [simp]: "account_reachable Map.empty"
  unfolding account_reachable_def by (rule reach_init) simp

lemma account_reachable_mark: "account_reachable (mark_failure ovs Map.empty p c kind now)"
  using account_reachable_step [OF account_reachable_empty, of "(OpMarkFailure ovs p c kind, now)"]
  by simp

text \<open>On every account state the gateway can have written, the selector's readiness test
  \<open>is_ready_at\<close> and the state shown to the user (\<open>visibility_at\<close>) agree at every instant.\<close>
lemma account_state_agrees:
  assumes "account_reachable st" and "st (p, c) = Some a"
  shows "is_ready_at a now \<longleftrightarrow> visibility_at a now = KeyReady"
proof -
  from assms(1) have "store_wf st" by (rule account_reachable_wf)
  with assms(2) have "account_wf a" by (simp add: store_wf_def)
  then show ?thesis by (rule ready_iff_visible)
qed

lemma account_state_agrees_witness:
  "\<exists>a. mark_failure [] Map.empty (lit ''p'') (lit ''k'') Rate 1000 (lit ''p'', lit ''k'') = Some a \<and>
     \<not> is_ready_at a 30999 \<and> (is_ready_at a 31000 \<longleftrightarrow> visibility_at a 31000 = KeyReady) \<and>
     is_ready_at a 31000"
proof -
  let ?st = "mark_failure [] Map.empty (lit ''p'') (lit ''k'') Rate 1000"
  obtain a where a: "?st (lit ''p'', lit ''k'') = Some a"
      and u: "as_cooldown_until_ms a = Some 31000" "as_cooldown_reason a = Some Rate" "as_enabled a"
    by (simp add: mark_failure_lookup store_wf_empty account_of_def account_ready_def Let_def
          sat_add_i64_def clamp_i64_def I64_MAX_def I64_MIN_def)
  from account_state_agrees [OF account_reachable_mark a, of 31000] a u show ?thesis
    by (auto simp: is_ready_at_def)
qed

text \<open>C27: A Key whose credential was rejected is never ready again on its own: after
  \<open>mark_failure\<close> with an authentication failure, no sequence of table writes other than a
  success on that Key, a user re-enabling it, or a later verdict of another kind for it makes
  it ready, however much time passes.\<close>
theorem rejected_key_stays_out:
  assumes "account_reachable st" and "\<forall>(op, now) \<in> set ops. \<not> lifts_auth p c op"
  shows "visibility_at (account_of (foldl account_step (mark_failure ovs st p c Auth t) ops) p c t') now
      \<in> {KeyInvalid, KeyDisabled}"
proof -
  from assms(1) have wf: "store_wf st" by (rule account_reachable_wf)
  have "key_rejected (foldl account_step (mark_failure ovs st p c Auth t) ops) p c"
    using wf assms(2) by (intro key_rejected_run mark_failure_wf mark_failure_auth_rejected) auto
  then show ?thesis by (rule key_rejected_never_ready)
qed

theorem rejected_key_stays_out_witness:
  "visibility_at (account_of (foldl account_step
       (mark_failure [] Map.empty (lit ''p'') (lit ''k'') Auth 5)
       [(OpMarkFailure [] (lit ''p'') (lit ''k2'') Rate, 6), (OpClearFailure (lit ''p'') (lit ''k2''), 7)])
     (lit ''p'') (lit ''k'') 8) 999999 \<in> {KeyInvalid, KeyDisabled}"
  by (rule rejected_key_stays_out) simp_all

text \<open>The verdict is not protected against a concurrent one: when a request that was already
  in flight on the same Key fails afterwards for another reason (a 429, say), the later
  \<open>mark_failure\<close> overwrites the authentication verdict, and once that cooldown ends the
  rejected Key is ready again.\<close>
lemma auth_verdict_overwritten:
  assumes "account_reachable st" and "as_enabled (account_of st p c t1)"
    and "cooldown_ms kind = Some d" and "map_of ovs (failure_kind_id kind) = None"
    and "sat_add_i64 t2 d \<le> now"
  shows "visibility_at (account_of (mark_failure ovs (mark_failure ovs st p c Auth t1) p c kind t2) p c now) now
      = KeyReady"
proof -
  from assms(1) have wf: "store_wf st" by (rule account_reachable_wf)
  then have wf1: "store_wf (mark_failure ovs st p c Auth t1)" by (rule mark_failure_wf)
  from assms(3) have "kind \<noteq> Auth" by auto
  then show ?thesis
    using assms(2-5)
    by (simp add: account_of_def mark_failure_lookup [OF wf1] mark_failure_lookup [OF wf]
          visibility_at_def Let_def)
qed

lemma auth_verdict_overwritten_witness:
  "visibility_at (account_of (mark_failure [] (mark_failure [] Map.empty (lit ''p'') (lit ''k'') Auth 5)
      (lit ''p'') (lit ''k'') Rate 6) (lit ''p'') (lit ''k'') 40000) 40000 = KeyReady"
  by (rule auth_verdict_overwritten [where d = 30000])
     (simp_all add: account_of_def account_ready_def sat_add_i64_def clamp_i64_def
        I64_MAX_def I64_MIN_def)

text \<open>A token window contains the instant it is opened for, and recording tokens adds them to
  what any later read in the same window sees, starting from zero for a new window.\<close>
lemma token_window_accumulates:
  assumes "int tokens \<le> I64_MAX" and "window_start w now' = window_start w now"
    and "\<forall>row. st (p, w, window_start w now) = Some row \<longrightarrow> 0 \<le> snd row"
  shows "\<exists>u. window_current (window_record st p w tokens now) p w now' = Some u \<and>
     tw_start_ms u \<le> now' \<and> now' < tw_start_ms u + duration_ms w \<and>
     tw_used_tokens u = (case window_current st p w now of None \<Rightarrow> 0 | Some u0 \<Rightarrow> tw_used_tokens u0) + tokens"
proof (cases "st (p, w, window_start w now)")
  case None
  with assms(1,2) window_start_bounds [of w now'] show ?thesis
    by (simp add: window_current_def window_record_def Let_def)
next
  case (Some row)
  with assms window_start_bounds [of w now'] show ?thesis
    by (cases row) (simp add: window_current_def window_record_def Let_def nat_add_distrib)
qed

lemma token_window_accumulates_witness:
  "\<exists>u. window_current (window_record (window_record Map.empty (lit ''p'') Day 40 1000)
          (lit ''p'') Day 2 2000) (lit ''p'') Day 86399999 = Some u \<and>
     tw_start_ms u \<le> 86399999 \<and> 86399999 < tw_start_ms u + duration_ms Day \<and>
     tw_used_tokens u = (case window_current (window_record Map.empty (lit ''p'') Day 40 1000)
        (lit ''p'') Day 2000 of None \<Rightarrow> 0 | Some u0 \<Rightarrow> tw_used_tokens u0) + 2"
  by (rule token_window_accumulates)
     (auto simp: I64_MAX_def window_start_def DAY_MS_def window_record_def Let_def)

text \<open>A stored conversation pin is what the next request of that conversation reads until its
  time to live ends, and storing it changes no other conversation's pin.\<close>
lemma pin_read_back:
  "live_pin (pin_conversation st key p c t) key' now =
     (if key' = key then (if now < t + PIN_TTL_MS then Some (p, c) else None)
      else live_pin st key' now)"
  by (simp add: live_pin_def pin_conversation_def pin_get_upsert pin_is_live_at_def)

end
