(* ===== verification/Snapshot.thy ===== *)
theory Snapshot
  imports Upstream_Call Key_Health
begin

text \<open>
  The configuration the gateway routes over, \<open>read_snapshot\<close> and the methods of
  \<open>GatewaySnapshot\<close> and \<open>GatewayRouteGroup\<close> in
  \<open>crates/model-gateway/src/service.rs\<close>: which Providers are upstreams, which routes become
  served groups, the catalogue of published models and the resolution of a requested model to its
  group. The repositories are arguments: the enabled Provider profiles in id order, the enabled
  routes, the token windows and the account table.

  Facts: everything the catalogue lists resolves to the group that published it; every member of a
  served group is an upstream of the snapshot that serves the member's model.
\<close>

section \<open>Providers as they are configured\<close>

record provider_profile =
  pf_id :: profile_id
  pf_display_name :: ustring
  pf_endpoints :: "provider_endpoint list"
  pf_configured_models :: "(ustring \<times> bool) list"
  pf_model_aliases :: "(ustring \<times> ustring) list"
  pf_extra_body :: "(ustring \<times> json) list"
  pf_credentials :: "credential_ref list"

definition member_is_served :: "provider_profile \<Rightarrow> ustring \<Rightarrow> bool" where
  "member_is_served profile model =
     (if pf_configured_models profile = [] then trim model \<noteq> []
      else list_ex (\<lambda>(entry, enabled). enabled \<and>
             (entry = trim model \<or> (trim model, entry) \<in> set (pf_model_aliases profile))) (pf_configured_models profile))"

definition classifier_provider :: "ustring \<Rightarrow> model_route \<Rightarrow> (profile_id \<times> provider_profile) list \<Rightarrow> profile_id option" where
  "classifier_provider text route profiles =
     (case find (\<lambda>m. rm_id m = trim text) (mo_members route) of
        Some m \<Rightarrow> Some (rm_profile m)
      | None \<Rightarrow> (case split_once 47 (trim text) of
          None \<Rightarrow> None
        | Some (pre, _) \<Rightarrow>
            map_option pf_id (find (\<lambda>p. pf_id p = pre \<or> provider_alias (pf_display_name p) = pre) (map snd profiles))))"

section \<open>Groups\<close>

record group_model =
  gm_model :: ustring
  gm_providers :: "profile_id list"

record route_group =
  gg_group_id :: ustring
  gg_display_name :: ustring
  gg_strategy :: route_strategy
  gg_key_strategy :: gateway_routing_strategy
  gg_first_token_timeout_ms :: "nat option"
  gg_pin :: pin_scope
  gg_failover :: gateway_failover
  gg_token_limit :: "token_limit option"
  gg_providers :: "route_member_ref list"
  gg_models :: "group_model list"
  gg_agent_model_id :: "ustring option"
  gg_rules :: "route_rule list"
  gg_classifier :: "ustring option"
  gg_effort :: "ustring option"
  gg_patience_ms :: "nat option"
  gg_sink :: bool
  gg_unlists :: bool
  gg_levels :: "ustring list"
  gg_pick_member_id :: "member_id option"

fun key_strategy_of :: "route_strategy \<Rightarrow> gateway_routing_strategy" where
  "key_strategy_of RoundRobin = KeysRoundRobin"
| "key_strategy_of LeastUsed = KeysLeastUsed"
| "key_strategy_of Smart = KeysLeastUsed"
| "key_strategy_of _ = KeysOrdered"

definition member_ref :: "(profile_id \<times> provider_profile) list \<Rightarrow> route_member \<Rightarrow> route_member_ref option" where
  "member_ref profiles m =
     map_option (\<lambda>p. \<lparr>mf_member_id = Some (rm_id m), mf_profile = pf_id p, mf_model = trim (rm_model_id m),
         mf_reasoning_effort = rm_reasoning_effort m, mf_weight = max (rm_weight m) DEFAULT_MEMBER_WEIGHT,
         mf_context_tokens = rm_context_tokens m, mf_first_token_timeout_ms = rm_first_token_timeout_ms m\<rparr>)
       (map_of profiles (rm_profile m))"

definition served_members :: "(profile_id \<times> provider_profile) list \<Rightarrow> model_route \<Rightarrow> route_member_ref list" where
  "served_members profiles route =
     List.map_filter (member_ref profiles)
       (filter (\<lambda>m. case map_of profiles (rm_profile m) of None \<Rightarrow> False | Some p \<Rightarrow> member_is_served p (rm_model_id m))
          (enabled_members route))"

definition group_of_route :: "(profile_id \<times> provider_profile) list \<Rightarrow> model_route \<Rightarrow> route_group option" where
  "group_of_route profiles route =
     (case agent_model route of
        None \<Rightarrow> None
      | Some model \<Rightarrow>
          let providers = served_members profiles route in
          if providers = [] then None
          else Some \<lparr>gg_group_id = mo_id route, gg_display_name = mo_display_name route,
             gg_strategy = mo_strategy route, gg_key_strategy = key_strategy_of (mo_strategy route),
             gg_first_token_timeout_ms = mo_first_token_timeout_ms route, gg_pin = mo_pin route,
             gg_failover = mo_failover route, gg_token_limit = mo_token_limit route, gg_providers = providers,
             gg_models = [\<lparr>gm_model = model, gm_providers = push_new [] (map mf_profile providers)\<rparr>],
             gg_agent_model_id = Some model, gg_rules = mo_rules route, gg_classifier = mo_classifier route,
             gg_effort = mo_effort route, gg_patience_ms = mo_patience_ms route, gg_sink = mo_sink route,
             gg_unlists = mo_unlists route, gg_levels = mo_levels route, gg_pick_member_id = mo_pick_member_id route\<rparr>)"

definition served_model_id :: "route_group \<Rightarrow> ustring \<Rightarrow> ustring" where
  "served_model_id g model = ROUTE_GROUP_MODEL_PREFIX @ gg_group_id g @ 47 # model"

definition model_of :: "route_group \<Rightarrow> ustring \<Rightarrow> ustring option" where
  "model_of g requested =
     (case route_group_model_ref requested of Some (gid, m) \<Rightarrow> if gid = gg_group_id g then Some m else None | None \<Rightarrow> None)"

definition providers_for :: "route_group \<Rightarrow> ustring \<Rightarrow> profile_id list" where
  "providers_for g model =
     (case find (\<lambda>e. gm_model e = model) (gg_models g) of Some e \<Rightarrow> gm_providers e | None \<Rightarrow> [])"

section \<open>The snapshot\<close>

record gateway_snapshot =
  sn_settings :: gateway_settings
  sn_upstreams :: "gateway_upstream list"
  sn_gateway_used_tokens :: nat
  sn_groups :: "(ustring \<times> route_group) list"

definition route_profiles :: "(profile_id \<times> provider_profile) list \<Rightarrow> model_route \<Rightarrow> profile_id list" where
  "route_profiles profiles route =
     (if via_gateway (mo_kind route)
      then map rm_profile (enabled_members route) @
           (case mo_classifier route of
              None \<Rightarrow> []
            | Some c \<Rightarrow> (case classifier_provider c route profiles of None \<Rightarrow> [] | Some p \<Rightarrow> [p]))
      else [])"

definition referenced_profiles :: "(profile_id \<times> provider_profile) list \<Rightarrow> model_route list \<Rightarrow> profile_id list" where
  "referenced_profiles profiles routes = push_new [] (concat (map (route_profiles profiles) routes))"

definition window_used :: "window_store \<Rightarrow> profile_id \<Rightarrow> token_window \<Rightarrow> int \<Rightarrow> nat" where
  "window_used ws p w now = (case window_current ws p w now of None \<Rightarrow> 0 | Some u \<Rightarrow> tw_used_tokens u)"

definition upstream_of :: "account_store \<Rightarrow> nat \<Rightarrow> int \<Rightarrow> profile_id \<Rightarrow> provider_profile \<Rightarrow> gateway_upstream" where
  "upstream_of accounts used now profile_id p =
     \<lparr>up_profile_id = profile_id, up_display_name = pf_display_name p, up_endpoints = pf_endpoints p,
      up_models = map fst (filter snd (pf_configured_models p)), up_model_aliases = pf_model_aliases p,
      up_extra_body = pf_extra_body p, up_credentials = pf_credentials p,
      up_keys = map (\<lambda>c. \<lparr>ks_credential_id = cd_id c,
          ks_state = visibility_at (account_of accounts profile_id (cd_id c) now) now, ks_used_tokens = used\<rparr>) (pf_credentials p)\<rparr>"

definition policy_window :: "gateway_settings \<Rightarrow> token_window" where
  "policy_window settings = (case gp_token_limit (gs_policy settings) of Some l \<Rightarrow> tl_window l | None \<Rightarrow> Day)"

definition read_snapshot ::
    "gateway_settings \<Rightarrow> (profile_id \<times> provider_profile) list \<Rightarrow> model_route list \<Rightarrow> window_store \<Rightarrow> account_store \<Rightarrow> int \<Rightarrow> gateway_snapshot" where
  "read_snapshot settings profiles routes windows accounts now =
     (let known = List.map_filter (\<lambda>p. map_option (Pair p) (map_of profiles p)) (referenced_profiles profiles routes);
          used = (\<lambda>p. window_used windows p (policy_window settings) now)
      in \<lparr>sn_settings = settings,
          sn_upstreams = map (\<lambda>(p, profile). upstream_of accounts (used p) now p profile) known,
          sn_gateway_used_tokens = sum_list (map (used \<circ> fst) known),
          sn_groups = sort_key fst (List.map_filter (\<lambda>r. map_option (Pair (mo_id r)) (group_of_route profiles r))
            (filter (\<lambda>r. via_gateway (mo_kind r)) routes))\<rparr>)"

definition snapshot_upstream :: "gateway_snapshot \<Rightarrow> profile_id \<Rightarrow> gateway_upstream option" where
  "snapshot_upstream sn p = find (\<lambda>u. up_profile_id u = p) (sn_upstreams sn)"

definition group_for_model :: "gateway_snapshot \<Rightarrow> ustring \<Rightarrow> (route_group \<times> ustring) option" where
  "group_for_model sn requested =
     (case route_group_model_ref requested of
        None \<Rightarrow> None
      | Some (gid, model) \<Rightarrow> (case map_of (sn_groups sn) gid of
          None \<Rightarrow> None
        | Some g \<Rightarrow>
            if model \<in> set (map gm_model (gg_models g)) then Some (g, model)
            else (case reasoning_variant_base model of
                None \<Rightarrow> None
              | Some base \<Rightarrow> if base \<in> set (map gm_model (gg_models g)) then Some (g, base) else None)))"

record model_entry =
  me_id :: ustring
  me_model :: ustring
  me_provider_name :: ustring

definition model_catalog :: "gateway_snapshot \<Rightarrow> model_entry list" where
  "model_catalog sn =
     concat (map (\<lambda>g. if gg_unlists g \<or> gg_sink g then []
                      else map (\<lambda>m. \<lparr>me_id = served_model_id g (gm_model m), me_model = gm_model m,
                                     me_provider_name = gg_display_name g\<rparr>) (gg_models g))
       (map snd (sn_groups sn)))"

definition model_namespaces :: "gateway_snapshot \<Rightarrow> model_namespace list" where
  "model_namespaces sn =
     (let aliases = map (\<lambda>u. (up_profile_id u, provider_alias (up_display_name u))) (sn_upstreams sn)
      in map (\<lambda>u. let own = (case map_of aliases (up_profile_id u) of Some a \<Rightarrow> a | None \<Rightarrow> up_profile_id u)
                  in \<lparr>ns_profile = up_profile_id u,
                      ns_alias = (if 1 < length (filter (\<lambda>(p, a). a = own) aliases) then up_profile_id u else own),
                      ns_models = up_models u\<rparr>) (sn_upstreams sn))"

section \<open>Looking things up in a snapshot\<close>

definition routes_ok :: "model_route list \<Rightarrow> bool" where
  "routes_ok routes \<longleftrightarrow> distinct (map mo_id routes) \<and>
     list_all (\<lambda>r. mo_id r \<noteq> [] \<and> trimmed (mo_id r) \<and> 47 \<notin> set (mo_id r)) routes"

definition profiles_ok :: "(profile_id \<times> provider_profile) list \<Rightarrow> bool" where
  "profiles_ok profiles \<longleftrightarrow> list_all (\<lambda>(k, p). pf_id p = k) profiles"

lemma set_map_filter: "set (List.map_filter f xs) = {y. \<exists>x \<in> set xs. f x = Some y}"
  by (force simp: List.map_filter_def)

lemma map_filter_keys:
  "map fst (List.map_filter (\<lambda>x. map_option (Pair (key x)) (f x)) xs) = map key (filter (\<lambda>x. f x \<noteq> None) xs)"
  by (induction xs) (auto simp: map_filter_simps split: option.split)

lemma find_SomeD: "find P xs = Some x \<Longrightarrow> x \<in> set xs \<and> P x"
  by (auto simp: find_Some_iff)

lemma sn_groups_lookup:
  assumes "routes_ok routes"
  shows "map_of (sn_groups (read_snapshot settings profiles routes windows accounts now)) gid = Some g \<longleftrightarrow>
    (\<exists>r \<in> set routes. via_gateway (mo_kind r) \<and> mo_id r = gid \<and> group_of_route profiles r = Some g)"
proof -
  let ?gs = "List.map_filter (\<lambda>r. map_option (Pair (mo_id r)) (group_of_route profiles r))
      (filter (\<lambda>r. via_gateway (mo_kind r)) routes)"
  have "distinct (map fst ?gs)"
    using assms by (simp add: map_filter_keys routes_ok_def distinct_map_filter)
  moreover have "mset (map fst (sort_key fst ?gs)) = mset (map fst ?gs)" by (simp add: mset_map)
  ultimately have "distinct (map fst (sort_key fst ?gs))" using mset_eq_imp_distinct_iff by blast
  then have "map_of (sort_key fst ?gs) gid = Some g \<longleftrightarrow> (gid, g) \<in> set ?gs" by (simp add: map_of_eq_Some_iff)
  then show ?thesis by (auto simp: read_snapshot_def Let_def set_map_filter)
qed

lemma group_of_route_fields:
  assumes "group_of_route profiles r = Some g"
  shows "gg_group_id g = mo_id r" and "gg_providers g = served_members profiles r"
    and "\<exists>m. agent_model r = Some m \<and> map gm_model (gg_models g) = [m]" and "gg_key_strategy g = key_strategy_of (gg_strategy g)"
  using assms by (auto simp: group_of_route_def Let_def split: option.splits if_splits)

lemma group_for_published_model:
  assumes "routes_ok routes" and "r \<in> set routes" and "via_gateway (mo_kind r)" and "group_of_route profiles r = Some g"
    and "m \<in> set (gg_models g)"
  shows "group_for_model (read_snapshot settings profiles routes windows accounts now) (served_model_id g (gm_model m)) =
     Some (g, gm_model m)"
proof -
  obtain a where a: "agent_model r = Some a" "map gm_model (gg_models g) = [a]"
    using group_of_route_fields(3) [OF assms(4)] by (elim exE conjE)
  then have m: "gm_model m = a" using assms(5) by auto
  have "trimmed a" "a \<noteq> []" using agent_model_trimmed [OF a(1)] by (simp_all add: trimmed_def)
  moreover have "mo_id r \<noteq> []" "trimmed (mo_id r)" "of_char CHR ''/'' \<notin> set (mo_id r)"
    using assms(1,2) by (simp_all add: routes_ok_def list_all_iff)
  ultimately have "route_group_model_ref (ROUTE_GROUP_MODEL_PREFIX @ mo_id r @ of_char CHR ''/'' # a) = Some (mo_id r, a)"
    by (intro route_group_model_ref_build)
  then have "route_group_model_ref (served_model_id g (gm_model m)) = Some (mo_id r, gm_model m)"
    by (simp add: served_model_id_def m group_of_route_fields(1) [OF assms(4)])
  moreover have "map_of (sn_groups (read_snapshot settings profiles routes windows accounts now)) (mo_id r) = Some g"
    using sn_groups_lookup [OF assms(1)] assms(2-4) by blast
  ultimately show ?thesis using assms(5) by (simp add: group_for_model_def)
qed

lemma snapshot_upstream_known:
  assumes "p \<in> set (referenced_profiles profiles routes)" and "map_of profiles p = Some profile"
  shows "snapshot_upstream (read_snapshot settings profiles routes windows accounts now) p =
    Some (upstream_of accounts (window_used windows p (policy_window settings) now) now p profile)"
proof -
  let ?known = "List.map_filter (\<lambda>p. map_option (Pair p) (map_of profiles p)) (referenced_profiles profiles routes)"
  let ?up = "\<lambda>(p, profile). upstream_of accounts (window_used windows p (policy_window settings) now) now p profile"
  have "(p, profile) \<in> set ?known" using assms by (auto simp: set_map_filter)
  then have "?up (p, profile) \<in> set (map ?up ?known)" by (rule rev_image_eqI [THEN set_mp [OF equalityD2 [OF set_map]]]) simp
  moreover have "up_profile_id (?up (p, profile)) = p" by (simp add: upstream_of_def)
  ultimately have "find (\<lambda>u. up_profile_id u = p) (map ?up ?known) \<noteq> None" unfolding find_None_iff by blast
  then obtain u where u: "find (\<lambda>u. up_profile_id u = p) (map ?up ?known) = Some u" by blast
  then have "u \<in> set (map ?up ?known)" "up_profile_id u = p" by (blast dest: find_SomeD)+
  then have "u = ?up (p, profile)" using assms(2) by (auto simp: set_map_filter upstream_of_def)
  with u show ?thesis by (simp add: snapshot_upstream_def read_snapshot_def Let_def case_prod_unfold)
qed

lemma served_member_profile:
  assumes "profiles_ok profiles" and "f \<in> set (served_members profiles r)"
  shows "\<exists>m \<in> set (enabled_members r). \<exists>p. map_of profiles (rm_profile m) = Some p \<and> member_is_served p (mf_model f) \<and>
    mf_profile f = rm_profile m \<and> mf_model f = trim (rm_model_id m)"
proof -
  from assms(2) obtain m p where m: "m \<in> set (enabled_members r)" "map_of profiles (rm_profile m) = Some p"
      "member_is_served p (rm_model_id m)" "mf_profile f = pf_id p" "mf_model f = trim (rm_model_id m)"
    by (auto simp: served_members_def set_map_filter member_ref_def split: option.splits)
  have "pf_id p = rm_profile m"
    using assms(1) map_of_SomeD [OF m(2)] by (auto simp: profiles_ok_def list_all_iff)
  moreover have "member_is_served p (trim (rm_model_id m)) = member_is_served p (rm_model_id m)"
    by (simp add: member_is_served_def)
  ultimately show ?thesis using m by metis
qed

section \<open>Properties\<close>

text \<open>The catalogue and the router agree: every model the catalogue lists resolves, by the id it
  is listed under, to the group of an enabled route that publishes it, and every member of that
  group is an upstream of the same snapshot whose Provider serves the model the member asks for.\<close>
lemma catalog_resolves:
  assumes "routes_ok routes" and "profiles_ok profiles" and "sn = read_snapshot settings profiles routes windows accounts now"
    and "entry \<in> set (model_catalog sn)"
  shows "\<exists>r \<in> set routes. \<exists>g. via_gateway (mo_kind r) \<and> group_of_route profiles r = Some g \<and>
     group_for_model sn (me_id entry) = Some (g, me_model entry) \<and>
     list_all (\<lambda>f. \<exists>u p. snapshot_upstream sn (mf_profile f) = Some u \<and> map_of profiles (mf_profile f) = Some p \<and>
         up_credentials u = pf_credentials p \<and> member_is_served p (mf_model f)) (gg_providers g)"
proof -
  from assms(4) obtain gid g m where g: "(gid, g) \<in> set (sn_groups sn)" "m \<in> set (gg_models g)"
      "me_id entry = served_model_id g (gm_model m)" "me_model entry = gm_model m"
    by (auto simp: model_catalog_def split: if_splits)
  from g(1) obtain r where r: "r \<in> set routes" "via_gateway (mo_kind r)" "group_of_route profiles r = Some g"
    by (auto simp: assms(3) read_snapshot_def Let_def set_map_filter)
  have "group_for_model sn (me_id entry) = Some (g, me_model entry)"
    using group_for_published_model [OF assms(1) r g(2)] g(3,4) assms(3) by simp
  moreover have "\<exists>u p. snapshot_upstream sn (mf_profile f) = Some u \<and> map_of profiles (mf_profile f) = Some p \<and>
      up_credentials u = pf_credentials p \<and> member_is_served p (mf_model f)" if f: "f \<in> set (gg_providers g)" for f
  proof -
    from f obtain mem p where p: "mem \<in> set (enabled_members r)" "map_of profiles (mf_profile f) = Some p"
        "member_is_served p (mf_model f)" "mf_profile f = rm_profile mem"
      using served_member_profile [OF assms(2), of f r] group_of_route_fields(2) [OF r(3)] by auto
    have "mf_profile f \<in> set (referenced_profiles profiles routes)"
      using r(1,2) p(1,4) by (auto simp: referenced_profiles_def route_profiles_def)
    from snapshot_upstream_known [OF this p(2)] p(2,3) show ?thesis by (simp add: assms(3) upstream_of_def)
  qed
  ultimately show ?thesis using r by (auto simp: list_all_iff)
qed

definition sample_profiles :: "(profile_id \<times> provider_profile) list" where
  "sample_profiles = map (\<lambda>p. (p, \<lparr>pf_id = p, pf_display_name = p, pf_endpoints = [], pf_configured_models = [],
     pf_model_aliases = [], pf_extra_body = [], pf_credentials = []\<rparr>)) (map rm_profile (mo_members sample_group))"

definition sample_settings :: gateway_settings where
  "sample_settings = \<lparr>gs_display_name = lit ''gateway'', gs_port = 1, gs_policy = gateway_policy_default,
     gs_revision = 1, gs_updated_at_ms = 0\<rparr>"

abbreviation sample_snapshot :: gateway_snapshot where
  "sample_snapshot \<equiv> read_snapshot sample_settings sample_profiles [sample_group] Map.empty Map.empty 0"

lemma catalog_resolves_witness:
  "\<exists>r \<in> set [sample_group]. \<exists>g. via_gateway (mo_kind r) \<and> group_of_route sample_profiles r = Some g \<and>
     group_for_model sample_snapshot (me_id (hd (model_catalog sample_snapshot))) =
       Some (g, me_model (hd (model_catalog sample_snapshot))) \<and>
     list_all (\<lambda>f. \<exists>u p. snapshot_upstream sample_snapshot (mf_profile f) = Some u \<and>
         map_of sample_profiles (mf_profile f) = Some p \<and>
         up_credentials u = pf_credentials p \<and> member_is_served p (mf_model f)) (gg_providers g)"
proof (rule catalog_resolves)
  show "routes_ok [sample_group]" by (simp add: routes_ok_def sample_group_def trimmed_iff is_whitespace_def)
  show "profiles_ok sample_profiles" by (simp add: profiles_ok_def sample_profiles_def list_all_iff)
  have "model_catalog sample_snapshot \<noteq> []"
    by (simp add: model_catalog_def read_snapshot_def group_of_route_def served_members_def member_ref_def
        enabled_members_def sample_profiles_def sample_group_def member_new_def agent_model_def member_is_served_def
        via_gateway_def map_filter_simps Let_def trim_def trim_where_def is_whitespace_def)
  then show "hd (model_catalog sample_snapshot) \<in> set (model_catalog sample_snapshot)" by simp
qed simp

end
