(* ===== verification/Breaker.thy ===== *)
theory Breaker
  imports Gateway_Error "HOL-Library.AList"
begin

text \<open>
  The route groups' breakers, the published runtime state, the table of requests in flight and
  the failover prompts, all state of \<open>ModelGatewayService\<close> in
  \<open>crates/model-gateway/src/service.rs\<close>. The table of breakers is an association list, as the
  \<open>BTreeMap\<close> is iterated to count the degraded groups. Times are arguments. A poisoned lock does
  not occur.

  Facts: a group degrades at its third failure within the memory window and one success clears
  it; a degraded group hands out one probe at a time; what happens to one group changes no
  other; the published count follows the table except after a forgotten outage; an abandoned
  probe closes its group for good; the in-flight table holds at most eight requests, each once.
\<close>

section \<open>Breakers\<close>

record breaker =
  br_consecutive_failures :: nat
  br_last_failure_at_ms :: int
  br_probe_in_flight :: bool

type_synonym breakers = "(ustring \<times> breaker) list"

definition breaker_default :: breaker where
  "breaker_default = \<lparr>br_consecutive_failures = 0, br_last_failure_at_ms = 0, br_probe_in_flight = False\<rparr>"

definition DEGRADE_AFTER_FAILURES :: nat where
  "DEGRADE_AFTER_FAILURES = 3"

definition FAILURE_MEMORY_MS :: int where
  "FAILURE_MEMORY_MS = 2 * 60 * 1000"

definition is_degraded :: "breaker \<Rightarrow> bool" where
  "is_degraded b \<longleftrightarrow> br_consecutive_failures b \<ge> DEGRADE_AFTER_FAILURES"

definition breaker_entry :: "breakers \<Rightarrow> ustring \<Rightarrow> breaker" where
  "breaker_entry bs g = (case map_of bs g of None \<Rightarrow> breaker_default | Some b \<Rightarrow> b)"

definition group_is_degraded :: "breakers \<Rightarrow> ustring \<Rightarrow> bool" where
  "group_is_degraded bs g = (case map_of bs g of None \<Rightarrow> False | Some b \<Rightarrow> is_degraded b)"

definition degraded_count :: "breakers \<Rightarrow> nat" where
  "degraded_count bs = length (filter (is_degraded \<circ> snd) bs)"

definition STEPPED_ASIDE :: ustring where
  "STEPPED_ASIDE = lit ''this route group stepped aside after repeated upstream failures; let one request through at a time until an upstream answers, or use a direct Provider''"

definition begin_attempt :: "breakers \<Rightarrow> ustring \<Rightarrow> breakers \<times> (gateway_error + bool)" where
  "begin_attempt bs g =
     (let b = breaker_entry bs g in
      if \<not> is_degraded b then (AList.update g b bs, Inr False)
      else if br_probe_in_flight b then (AList.update g b bs, Inl (NotConfigured STEPPED_ASIDE))
      else (AList.update g (b\<lparr>br_probe_in_flight := True\<rparr>) bs, Inr True))"

definition finish_attempt :: "breakers \<Rightarrow> ustring \<Rightarrow> bool \<Rightarrow> breakers" where
  "finish_attempt bs g probe =
     (if \<not> probe then bs
      else case map_of bs g of
        None \<Rightarrow> bs
      | Some b \<Rightarrow> AList.update g (b\<lparr>br_probe_in_flight := False\<rparr>) bs)"

section \<open>The published state\<close>

record service_state =
  sv_breakers :: breakers
  sv_runtime :: runtime_state

definition publish :: "runtime_state \<Rightarrow> runtime_state \<Rightarrow> int \<Rightarrow> runtime_state" where
  "publish guard state now =
     (if rs_started_at_ms state = None \<and> is_listening (rs_status state)
      then state\<lparr>rs_started_at_ms := (case rs_started_at_ms guard of None \<Rightarrow> Some now | Some t \<Rightarrow> Some t)\<rparr>
      else state)"

definition publish_degraded_routes :: "runtime_state \<Rightarrow> nat \<Rightarrow> int \<Rightarrow> runtime_state" where
  "publish_degraded_routes state degraded now =
     (if \<not> is_listening (rs_status state) then state
      else publish state
        (state\<lparr>rs_degraded_routes := degraded,
               rs_status := (if degraded = 0 then Running else Degraded),
               rs_notice := (if degraded > 0
                 then Some (dec_string degraded @ lit '' of ''
                        @ dec_string (case rs_route_count state of None \<Rightarrow> 0 | Some n \<Rightarrow> n)
                        @ lit '' route groups stepped aside after repeated upstream failures: each lets one request through at a time until an upstream answers.'')
                 else None),
               rs_updated_at_ms := now\<rparr>) now)"

definition note_success :: "service_state \<Rightarrow> ustring \<Rightarrow> int \<Rightarrow> service_state" where
  "note_success s g now =
     (let bs = AList.update g breaker_default (sv_breakers s)
      in s\<lparr>sv_breakers := bs, sv_runtime := publish_degraded_routes (sv_runtime s) (degraded_count bs) now\<rparr>)"

definition failure_counted :: "breaker \<Rightarrow> int \<Rightarrow> breaker" where
  "failure_counted b now =
     b\<lparr>br_consecutive_failures :=
         (if br_last_failure_at_ms b \<noteq> 0 \<and> sat_sub_i64 now (br_last_failure_at_ms b) > FAILURE_MEMORY_MS
          then 1 else sat_add_u64 (br_consecutive_failures b) 1),
       br_last_failure_at_ms := now\<rparr>"

definition note_failure :: "service_state \<Rightarrow> ustring \<Rightarrow> int \<Rightarrow> service_state" where
  "note_failure s g now =
     (let b = failure_counted (breaker_entry (sv_breakers s) g) now;
          bs = AList.update g b (sv_breakers s)
      in if br_consecutive_failures b < DEGRADE_AFTER_FAILURES then s\<lparr>sv_breakers := bs\<rparr>
         else s\<lparr>sv_breakers := bs,
                sv_runtime := publish_degraded_routes (sv_runtime s) (degraded_count bs) now\<rparr>)"

text \<open>What \<open>serve\<close> counts when a request failed before or while it was opened.\<close>

definition count_failed_request :: "service_state \<Rightarrow> gateway_error \<Rightarrow> ustring option \<Rightarrow> int \<Rightarrow> service_state" where
  "count_failed_request s e group_id now =
     (if blames_upstream e
      then (case group_id of None \<Rightarrow> s | Some g \<Rightarrow> note_failure s g now)
      else s)"

section \<open>Requests in flight\<close>

definition MAX_INFLIGHT :: nat where
  "MAX_INFLIGHT = 8"

record inflight =
  if_request_id :: request_id
  if_agent_id :: "ustring option"
  if_model_route_id :: "ustring option"
  if_requested_model :: ustring
  if_profile_id :: profile_id
  if_attempt :: nat
  if_credential_id :: "request_id option"
  if_wire_in :: ustring
  if_wire_protocol_id :: ustring
  if_started_at_ms :: int
  if_first_token_at_ms :: "int option"

fun drop_oldest :: "inflight list \<Rightarrow> inflight list" where
  "drop_oldest [] = []"
| "drop_oldest (x # xs) = (if length (x # xs) > MAX_INFLIGHT then drop_oldest xs else x # xs)"

definition note_inflight :: "inflight list \<Rightarrow> inflight \<Rightarrow> inflight list" where
  "note_inflight table entry =
     drop_oldest (filter (\<lambda>e. if_request_id e \<noteq> if_request_id entry) table @ [entry])"

fun note_first_token :: "inflight list \<Rightarrow> request_id \<Rightarrow> int \<Rightarrow> inflight list \<times> bool" where
  "note_first_token [] rid at = ([], False)"
| "note_first_token (e # es) rid at =
     (if if_request_id e = rid
      then (if if_first_token_at_ms e \<noteq> None then (e # es, False)
            else (e\<lparr>if_first_token_at_ms := Some at\<rparr> # es, True))
      else (let (es', updated) = note_first_token es rid at in (e # es', updated)))"

definition note_finished :: "inflight list \<Rightarrow> request_id \<Rightarrow> inflight list" where
  "note_finished table rid = filter (\<lambda>e. if_request_id e \<noteq> rid) table"

section \<open>Failover prompts\<close>

text \<open>The prompts waiting for an answer; \<open>alive\<close> says whether the asking request still waits.\<close>

definition answer_failover :: "ustring list \<Rightarrow> ustring \<Rightarrow> bool \<Rightarrow> ustring list \<times> bool" where
  "answer_failover asks prompt_id alive =
     (filter (\<lambda>a. a \<noteq> prompt_id) asks, prompt_id \<in> set asks \<and> alive)"

text \<open>
  \<open>ask_failover\<close>: \<open>listening\<close> says whether an event sink is set, \<open>reply\<close> what arrived within
  the window (\<open>None\<close>: it closed, or the sender was dropped). The second component is the answer,
  \<open>None\<close> when nobody can be asked.
\<close>

definition ask_failover ::
    "ustring list \<Rightarrow> ustring \<Rightarrow> bool \<Rightarrow> failover_answer option \<Rightarrow> ustring list \<times> failover_answer option" where
  "ask_failover asks prompt_id listening reply =
     (if \<not> listening then (filter (\<lambda>a. a \<noteq> prompt_id) (prompt_id # asks), None)
      else case reply of
        Some answer \<Rightarrow> (fst (answer_failover (prompt_id # asks) prompt_id True), Some answer)
      | None \<Rightarrow> (filter (\<lambda>a. a \<noteq> prompt_id) (prompt_id # asks), Some AnswerSwitch))"

section \<open>Operations on the breakers\<close>

datatype breaker_op =
    OpBegin ustring
  | OpFinish ustring bool
  | OpSuccess ustring int
  | OpFailure ustring int

fun breaker_step :: "service_state \<Rightarrow> breaker_op \<Rightarrow> service_state" where
  "breaker_step s (OpBegin g) = s\<lparr>sv_breakers := fst (begin_attempt (sv_breakers s) g)\<rparr>"
| "breaker_step s (OpFinish g probe) = s\<lparr>sv_breakers := finish_attempt (sv_breakers s) g probe\<rparr>"
| "breaker_step s (OpSuccess g now) = note_success s g now"
| "breaker_step s (OpFailure g now) = note_failure s g now"

fun op_group :: "breaker_op \<Rightarrow> ustring" where
  "op_group (OpBegin g) = g"
| "op_group (OpFinish g probe) = g"
| "op_group (OpSuccess g now) = g"
| "op_group (OpFailure g now) = g"

abbreviation group_entry :: "service_state \<Rightarrow> ustring \<Rightarrow> breaker" where
  "group_entry s g \<equiv> breaker_entry (sv_breakers s) g"

lemma breaker_entry_update [simp]:
  "breaker_entry (AList.update k b bs) g = (if g = k then b else breaker_entry bs g)"
  by (simp add: breaker_entry_def update_conv')

lemma begin_attempt_entry:
  "breaker_entry (fst (begin_attempt bs g)) k =
     (if k = g \<and> is_degraded (breaker_entry bs g)
      then (breaker_entry bs g)\<lparr>br_probe_in_flight := True\<rparr> else breaker_entry bs k)"
  by (simp add: begin_attempt_def Let_def)

lemma begin_attempt_result:
  "snd (begin_attempt bs g) =
     (if \<not> is_degraded (breaker_entry bs g) then Inr False
      else if br_probe_in_flight (breaker_entry bs g) then Inl (NotConfigured STEPPED_ASIDE) else Inr True)"
  by (simp add: begin_attempt_def Let_def)

lemma finish_attempt_entry:
  "breaker_entry (finish_attempt bs g probe) k =
     (if k = g \<and> probe then (breaker_entry bs g)\<lparr>br_probe_in_flight := False\<rparr> else breaker_entry bs k)"
  by (auto simp: finish_attempt_def breaker_entry_def breaker_default_def update_conv' split: option.split)

lemma note_success_entry:
  "group_entry (note_success s g now) k = (if k = g then breaker_default else group_entry s k)"
  by (simp add: note_success_def Let_def)

lemma note_failure_entry:
  "group_entry (note_failure s g now) k =
     (if k = g then failure_counted (group_entry s g) now else group_entry s k)"
  by (simp add: note_failure_def Let_def)

lemmas breaker_entries = begin_attempt_entry finish_attempt_entry note_success_entry note_failure_entry

lemma step_other_group: "op_group op \<noteq> g \<Longrightarrow> group_entry (breaker_step s op) g = group_entry s g"
  by (cases op) (auto simp: breaker_entries)

lemma group_is_degraded_entry: "group_is_degraded bs g \<longleftrightarrow> is_degraded (breaker_entry bs g)"
  by (auto simp: group_is_degraded_def breaker_entry_def is_degraded_def breaker_default_def
        DEGRADE_AFTER_FAILURES_def split: option.split)

lemma failure_keeps_probe [simp]: "br_probe_in_flight (failure_counted b now) = br_probe_in_flight b"
  by (simp add: failure_counted_def)

text \<open>A claimed probe slot, and the operations that give it back.\<close>

fun frees_probe :: "ustring \<Rightarrow> breaker_op \<Rightarrow> bool" where
  "frees_probe g (OpFinish k probe) \<longleftrightarrow> k = g \<and> probe"
| "frees_probe g (OpSuccess k now) \<longleftrightarrow> k = g"
| "frees_probe g _ \<longleftrightarrow> False"

lemma probe_kept:
  "br_probe_in_flight (group_entry s g) \<Longrightarrow> \<forall>op \<in> set ops. \<not> frees_probe g op \<Longrightarrow>
   br_probe_in_flight (group_entry (foldl breaker_step s ops) g)"
proof (induction ops arbitrary: s)
  case (Cons op ops)
  have "br_probe_in_flight (group_entry (breaker_step s op) g)"
    using Cons.prems by (cases op) (auto simp: breaker_entries)
  with Cons show ?case by simp
qed simp

fun counts_failure :: "ustring \<Rightarrow> breaker_op \<Rightarrow> bool" where
  "counts_failure g (OpFailure k now) \<longleftrightarrow> k = g"
| "counts_failure g _ \<longleftrightarrow> False"

lemma degraded_kept:
  "br_probe_in_flight (group_entry s g) \<and> is_degraded (group_entry s g) \<Longrightarrow>
   \<forall>op \<in> set ops. \<not> frees_probe g op \<and> \<not> counts_failure g op \<Longrightarrow>
   br_probe_in_flight (group_entry (foldl breaker_step s ops) g) \<and>
   is_degraded (group_entry (foldl breaker_step s ops) g)"
proof (induction ops arbitrary: s)
  case (Cons op ops)
  have "br_probe_in_flight (group_entry (breaker_step s op) g) \<and> is_degraded (group_entry (breaker_step s op) g)"
    using Cons.prems by (cases op) (auto simp: breaker_entries is_degraded_def)
  with Cons show ?case by simp
qed simp

section \<open>The published count\<close>

lemma degraded_count_update:
  "degraded_count (AList.update g b bs) + of_bool (is_degraded (breaker_entry bs g)) =
   degraded_count bs + of_bool (is_degraded b)"
proof (induction bs)
  case Nil
  then show ?case
    by (simp add: degraded_count_def breaker_entry_def breaker_default_def is_degraded_def DEGRADE_AFTER_FAILURES_def)
next
  case (Cons kb bs)
  then show ?case
    by (cases kb) (auto simp: degraded_count_def breaker_entry_def of_bool_def split: if_splits)
qed

definition consistent :: "service_state \<Rightarrow> bool" where
  "consistent s \<longleftrightarrow> (is_listening (rs_status (sv_runtime s)) \<longrightarrow>
     rs_degraded_routes (sv_runtime s) = degraded_count (sv_breakers s) \<and>
     (rs_status (sv_runtime s) = Degraded \<longleftrightarrow> degraded_count (sv_breakers s) > 0))"

lemma publish_degraded_routes_fields:
  "is_listening (rs_status rt) \<Longrightarrow>
   rs_degraded_routes (publish_degraded_routes rt n now) = n \<and>
   rs_status (publish_degraded_routes rt n now) = (if n = 0 then Running else Degraded)"
  by (auto simp: publish_degraded_routes_def publish_def is_listening_def)

lemma publish_not_listening:
  "\<not> is_listening (rs_status rt) \<Longrightarrow> publish_degraded_routes rt n now = rt"
  by (simp add: publish_degraded_routes_def)

lemma consistent_published:
  "consistent (s\<lparr>sv_breakers := bs, sv_runtime := publish_degraded_routes (sv_runtime s) (degraded_count bs) now\<rparr>)"
  by (cases "is_listening (rs_status (sv_runtime s))")
     (simp_all add: consistent_def publish_degraded_routes_fields publish_not_listening)

lemma consistent_same_count:
  "consistent s \<Longrightarrow> degraded_count bs = degraded_count (sv_breakers s) \<Longrightarrow> consistent (s\<lparr>sv_breakers := bs\<rparr>)"
  by (simp add: consistent_def)

lemma count_same: "is_degraded b = is_degraded (breaker_entry bs g) \<Longrightarrow>
    degraded_count (AList.update g b bs) = degraded_count bs"
  using degraded_count_update [of g b bs] by simp

text \<open>A failure that arrives after the memory window of a degraded group: its count restarts.\<close>

definition forgets :: "service_state \<Rightarrow> ustring \<Rightarrow> int \<Rightarrow> bool" where
  "forgets s g now \<longleftrightarrow> is_degraded (group_entry s g) \<and> br_last_failure_at_ms (group_entry s g) \<noteq> 0 \<and>
     sat_sub_i64 now (br_last_failure_at_ms (group_entry s g)) > FAILURE_MEMORY_MS"

lemma failure_counted_degraded:
  "is_degraded (failure_counted b now) \<Longrightarrow> \<not> br_consecutive_failures (failure_counted b now) < DEGRADE_AFTER_FAILURES"
  by (simp add: is_degraded_def)

lemma not_forgets_degraded:
  "\<not> forgets s g now \<Longrightarrow> is_degraded (group_entry s g) \<Longrightarrow> is_degraded (failure_counted (group_entry s g) now)"
  by (auto simp: forgets_def is_degraded_def failure_counted_def sat_add_u64_def DEGRADE_AFTER_FAILURES_def U64_MAX_def)

lemma note_failure_consistent:
  assumes "consistent s" and "\<not> forgets s g now"
  shows "consistent (note_failure s g now)"
proof (cases "is_degraded (failure_counted (group_entry s g) now)")
  case True
  then show ?thesis
    by (simp add: note_failure_def Let_def failure_counted_degraded consistent_published)
next
  case False
  with not_forgets_degraded [OF assms(2)] have "\<not> is_degraded (group_entry s g)" by blast
  with False assms(1) show ?thesis
    by (auto simp: note_failure_def Let_def is_degraded_def consistent_same_count count_same)
qed

lemma finish_same_count: "degraded_count (finish_attempt bs g probe) = degraded_count bs"
proof (cases "map_of bs g")
  case (Some b)
  then have "breaker_entry bs g = b" by (simp add: breaker_entry_def)
  with Some show ?thesis by (auto simp: finish_attempt_def is_degraded_def intro!: count_same)
qed (simp add: finish_attempt_def)

lemma begin_same_count: "degraded_count (fst (begin_attempt bs g)) = degraded_count bs"
  by (auto simp: begin_attempt_def Let_def is_degraded_def intro!: count_same)

section \<open>Counting failures\<close>

fun spaced_within :: "int \<Rightarrow> int list \<Rightarrow> bool" where
  "spaced_within prev [] \<longleftrightarrow> True"
| "spaced_within prev (t # ts) \<longleftrightarrow>
     t \<noteq> 0 \<and> (prev = 0 \<or> sat_sub_i64 t prev \<le> FAILURE_MEMORY_MS) \<and> spaced_within t ts"

lemma note_failures_count:
  assumes "spaced_within (br_last_failure_at_ms (group_entry s g)) ts"
    and "br_consecutive_failures (group_entry s g) \<le> U64_MAX"
  shows "br_consecutive_failures (group_entry (foldl (\<lambda>s t. note_failure s g t) s ts) g) =
     min (br_consecutive_failures (group_entry s g) + length ts) U64_MAX"
  using assms
proof (induction ts arbitrary: s)
  case (Cons t ts)
  have e: "group_entry (note_failure s g t) g = failure_counted (group_entry s g) t"
    by (simp add: note_failure_entry)
  have "br_consecutive_failures (failure_counted (group_entry s g) t) =
      min (br_consecutive_failures (group_entry s g) + 1) U64_MAX"
    using Cons.prems(1) by (auto simp: failure_counted_def sat_add_u64_def)
  moreover have "br_last_failure_at_ms (failure_counted (group_entry s g) t) = t"
    by (simp add: failure_counted_def)
  ultimately show ?case
    using Cons.IH [of "note_failure s g t"] Cons.prems(1) by (simp add: e)
qed simp

section \<open>The in-flight table\<close>

definition inflight_ok :: "inflight list \<Rightarrow> bool" where
  "inflight_ok table \<longleftrightarrow> length table \<le> MAX_INFLIGHT \<and> distinct (map if_request_id table)"

lemma drop_oldest_eq: "drop_oldest xs = drop (length xs - MAX_INFLIGHT) xs"
  by (induction xs rule: drop_oldest.induct) (auto simp: Suc_diff_le not_le)

lemma note_first_token_ids: "map if_request_id (fst (note_first_token table rid at)) = map if_request_id table"
  by (induction table rid at rule: note_first_token.induct) (auto simp: split_beta)

datatype inflight_op =
    OpInflight inflight
  | OpFirstToken request_id int
  | OpFinished request_id

fun inflight_step :: "inflight list \<Rightarrow> inflight_op \<Rightarrow> inflight list" where
  "inflight_step table (OpInflight e) = note_inflight table e"
| "inflight_step table (OpFirstToken rid at) = fst (note_first_token table rid at)"
| "inflight_step table (OpFinished rid) = note_finished table rid"

lemma inflight_step_ok: "inflight_ok table \<Longrightarrow> inflight_ok (inflight_step table op)"
proof (cases op)
  case (OpInflight e)
  assume "inflight_ok table"
  then have "distinct (map if_request_id (filter (\<lambda>x. if_request_id x \<noteq> if_request_id e) table @ [e]))"
    by (auto simp: inflight_ok_def distinct_map_filter)
  then have "distinct (drop n (map if_request_id (filter (\<lambda>x. if_request_id x \<noteq> if_request_id e) table @ [e])))" for n
    by (rule distinct_drop)
  then show ?thesis
    by (simp only: OpInflight inflight_step.simps note_inflight_def drop_oldest_eq inflight_ok_def drop_map length_drop)
       simp
next
  case (OpFirstToken rid at)
  assume "inflight_ok table"
  with OpFirstToken note_first_token_ids [of table rid at] show ?thesis
    by (metis inflight_ok_def inflight_step.simps(2) length_map)
next
  case (OpFinished rid)
  assume "inflight_ok table"
  with OpFinished show ?thesis
    by (auto simp: inflight_ok_def note_finished_def distinct_map_filter intro: le_trans [OF length_filter_le])
qed

interpretation inflight_machine: invariant_machine
  "\<lambda>table. table = []" "\<lambda>table t. \<exists>op. t = inflight_step table op" inflight_ok
  by unfold_locales (auto simp: inflight_step_ok, simp add: inflight_ok_def)

section \<open>Properties\<close>

text \<open>A group that just succeeded is degraded exactly from its third failure on, as long as
  every failure comes within two minutes of the one before.\<close>
lemma degrades_at_third_failure:
  assumes "spaced_within 0 ts"
  shows "group_is_degraded (sv_breakers (foldl (\<lambda>s t. note_failure s g t) (note_success s g t0) ts)) g
     \<longleftrightarrow> 3 \<le> length ts"
proof -
  have "group_entry (note_success s g t0) g = breaker_default"
    by (simp add: note_success_entry)
  with note_failures_count [of "note_success s g t0" g ts] assms show ?thesis
    by (simp add: group_is_degraded_entry is_degraded_def breaker_default_def DEGRADE_AFTER_FAILURES_def U64_MAX_def)
qed

definition empty_service :: service_state where
  "empty_service = \<lparr>sv_breakers = [], sv_runtime = runtime_running 8080 2 0\<rparr>"

lemma degrades_at_third_failure_witness:
  "group_is_degraded (sv_breakers (foldl (\<lambda>s t. note_failure s (lit ''g'') t)
      (note_success empty_service (lit ''g'') 1) [1000, 2000, 121000])) (lit ''g'')"
  using degrades_at_third_failure [of "[1000, 2000, 121000]" "lit ''g''" empty_service 1]
  by (simp add: sat_sub_i64_def clamp_i64_def I64_MAX_def I64_MIN_def FAILURE_MEMORY_MS_def)

text \<open>C9: A degraded group lets one probe through at a time: once a request claimed the probe slot,
  no other request claims it until the first one finishes or the group records a success,
  whatever else happens to this or any other group.\<close>
theorem probe_is_exclusive:
  assumes "begin_attempt (sv_breakers s) g = (bs, Inr True)" and "\<forall>op \<in> set ops. \<not> frees_probe g op"
  shows "snd (begin_attempt (sv_breakers (foldl breaker_step (s\<lparr>sv_breakers := bs\<rparr>) ops)) g) \<noteq> Inr True"
proof -
  have "is_degraded (group_entry s g)"
    using assms(1) begin_attempt_result [of "sv_breakers s" g] by (auto split: if_splits)
  then have "br_probe_in_flight (breaker_entry bs g)"
    using begin_attempt_entry [of "sv_breakers s" g g] assms(1) by simp
  then have "br_probe_in_flight (group_entry (foldl breaker_step (s\<lparr>sv_breakers := bs\<rparr>) ops) g)"
    using assms(2) by (intro probe_kept) auto
  then show ?thesis by (simp add: begin_attempt_result)
qed

definition degraded_service :: service_state where
  "degraded_service = empty_service\<lparr>sv_breakers := [(lit ''g'',
     \<lparr>br_consecutive_failures = 3, br_last_failure_at_ms = 5, br_probe_in_flight = False\<rparr>)]\<rparr>"

definition probing_breakers :: breakers where
  "probing_breakers = [(lit ''g'',
     \<lparr>br_consecutive_failures = 3, br_last_failure_at_ms = 5, br_probe_in_flight = True\<rparr>)]"

lemma degraded_begin: "begin_attempt (sv_breakers degraded_service) (lit ''g'') = (probing_breakers, Inr True)"
  by (simp add: degraded_service_def probing_breakers_def begin_attempt_def breaker_entry_def is_degraded_def
        DEGRADE_AFTER_FAILURES_def)

theorem probe_is_exclusive_witness:
  "snd (begin_attempt (sv_breakers (foldl breaker_step (degraded_service\<lparr>sv_breakers := probing_breakers\<rparr>)
      [OpBegin (lit ''g''), OpFailure (lit ''g'') 9, OpSuccess (lit ''h'') 10])) (lit ''g'')) \<noteq> Inr True"
  by (rule probe_is_exclusive [OF degraded_begin]) simp

text \<open>An abandoned probe closes its group: if the request holding the probe slot is dropped and
  so never gives it back, every later request of the group is refused with the stepped-aside
  error, and since that refusal is not counted as a failure, nothing the refused requests do
  reopens the group.\<close>
lemma abandoned_probe_closes_group:
  assumes "begin_attempt (sv_breakers s) g = (bs, Inr True)"
    and "\<forall>op \<in> set ops. \<not> frees_probe g op \<and> \<not> counts_failure g op"
  shows "snd (begin_attempt (sv_breakers (foldl breaker_step (s\<lparr>sv_breakers := bs\<rparr>) ops)) g)
       = Inl (NotConfigured STEPPED_ASIDE) \<and>
     count_failed_request s' (NotConfigured STEPPED_ASIDE) (Some g) now = s'"
proof -
  have "is_degraded (group_entry s g)"
    using assms(1) begin_attempt_result [of "sv_breakers s" g] by (auto split: if_splits)
  then have "br_probe_in_flight (breaker_entry bs g) \<and> is_degraded (breaker_entry bs g)"
    using begin_attempt_entry [of "sv_breakers s" g g] assms(1) by (simp add: is_degraded_def)
  then have "br_probe_in_flight (group_entry (foldl breaker_step (s\<lparr>sv_breakers := bs\<rparr>) ops) g) \<and>
      is_degraded (group_entry (foldl breaker_step (s\<lparr>sv_breakers := bs\<rparr>) ops) g)"
    using assms(2) by (intro degraded_kept) auto
  then show ?thesis by (simp add: begin_attempt_result count_failed_request_def)
qed

lemma abandoned_probe_closes_group_witness:
  "snd (begin_attempt (sv_breakers (foldl breaker_step (degraded_service\<lparr>sv_breakers := probing_breakers\<rparr>)
      [OpBegin (lit ''g''), OpBegin (lit ''g''), OpSuccess (lit ''h'') 1000000])) (lit ''g''))
    = Inl (NotConfigured STEPPED_ASIDE)"
  using abandoned_probe_closes_group [OF degraded_begin,
    of "[OpBegin (lit ''g''), OpBegin (lit ''g''), OpSuccess (lit ''h'') 1000000]"] by simp

text \<open>The breakers are per group: an operation on one group leaves the admission decision and
  the degraded state of every other group as they were.\<close>
lemma breakers_are_independent:
  assumes "\<forall>op \<in> set ops. op_group op \<noteq> g"
  shows "snd (begin_attempt (sv_breakers (foldl breaker_step s ops)) g) = snd (begin_attempt (sv_breakers s) g) \<and>
     (group_is_degraded (sv_breakers (foldl breaker_step s ops)) g \<longleftrightarrow> group_is_degraded (sv_breakers s) g)"
proof -
  from assms have "group_entry (foldl breaker_step s ops) g = group_entry s g"
    by (induction ops arbitrary: s) (auto simp: step_other_group)
  then show ?thesis by (simp add: begin_attempt_result group_is_degraded_entry)
qed

lemma breakers_are_independent_witness:
  "snd (begin_attempt (sv_breakers (foldl breaker_step empty_service
      [OpFailure (lit ''h'') 1, OpFailure (lit ''h'') 2, OpFailure (lit ''h'') 3])) (lit ''g''))
    = snd (begin_attempt (sv_breakers empty_service) (lit ''g''))"
  using breakers_are_independent
    [of "[OpFailure (lit ''h'') 1, OpFailure (lit ''h'') 2, OpFailure (lit ''h'') 3]" "lit ''g''" empty_service]
  by simp

text \<open>The published status follows the breakers: every operation keeps the number of degraded
  groups shown to clients, and whether the gateway is shown as degraded, equal to what the
  table says, unless it is a failure that restarts the count of a group degraded long ago.\<close>
lemma status_follows_breakers:
  assumes "consistent s" and "\<forall>g now. op = OpFailure g now \<longrightarrow> \<not> forgets s g now"
  shows "consistent (breaker_step s op)"
  using assms
  by (cases op) (auto simp: consistent_same_count begin_same_count finish_same_count note_failure_consistent
      note_success_def Let_def consistent_published)

lemma status_follows_breakers_witness:
  "consistent (breaker_step empty_service (OpFailure (lit ''g'') 7))"
  by (rule status_follows_breakers)
     (auto simp: consistent_def empty_service_def runtime_running_def degraded_count_def forgets_def
        breaker_entry_def breaker_default_def is_degraded_def DEGRADE_AFTER_FAILURES_def)

text \<open>The exception is real: when a failure reaches a degraded group more than two minutes after
  its last one, the group stops being degraded, but the published state is not rewritten and
  still counts it.\<close>
lemma forgotten_outage_stays_published:
  assumes "consistent s" and "is_listening (rs_status (sv_runtime s))" and "forgets s g now"
  shows "\<not> group_is_degraded (sv_breakers (note_failure s g now)) g \<and>
     rs_degraded_routes (sv_runtime (note_failure s g now)) = degraded_count (sv_breakers (note_failure s g now)) + 1 \<and>
     rs_status (sv_runtime (note_failure s g now)) = Degraded"
proof -
  have one: "br_consecutive_failures (failure_counted (group_entry s g) now) = 1"
    using assms(3) by (simp add: forgets_def failure_counted_def)
  then have eq: "note_failure s g now =
      s\<lparr>sv_breakers := AList.update g (failure_counted (group_entry s g) now) (sv_breakers s)\<rparr>"
    by (simp add: note_failure_def Let_def DEGRADE_AFTER_FAILURES_def)
  have nd: "\<not> is_degraded (failure_counted (group_entry s g) now)"
    using one by (simp add: is_degraded_def DEGRADE_AFTER_FAILURES_def)
  have "degraded_count (sv_breakers (note_failure s g now)) + 1 = degraded_count (sv_breakers s)"
    using degraded_count_update [of g "failure_counted (group_entry s g) now" "sv_breakers s"] nd assms(3) eq
    by (simp add: forgets_def)
  with assms(1,2) eq nd show ?thesis
    by (simp add: consistent_def group_is_degraded_entry)
qed

lemma forgotten_outage_stays_published_witness:
  "let s = degraded_service\<lparr>sv_runtime := (runtime_running 8080 2 0)\<lparr>rs_status := Degraded, rs_degraded_routes := 1\<rparr>\<rparr>
   in rs_status (sv_runtime (note_failure s (lit ''g'') 200000)) = Degraded \<and>
      \<not> group_is_degraded (sv_breakers (note_failure s (lit ''g'') 200000)) (lit ''g'')"
  using forgotten_outage_stays_published
    [of "degraded_service\<lparr>sv_runtime := (runtime_running 8080 2 0)\<lparr>rs_status := Degraded, rs_degraded_routes := 1\<rparr>\<rparr>"
      "lit ''g''" 200000]
  by (simp add: consistent_def degraded_service_def empty_service_def runtime_running_def is_listening_def
        degraded_count_def forgets_def breaker_entry_def is_degraded_def DEGRADE_AFTER_FAILURES_def
        sat_sub_i64_def clamp_i64_def I64_MAX_def I64_MIN_def FAILURE_MEMORY_MS_def)

text \<open>The table of requests in flight never holds more than eight entries and never the same
  request twice, however attempts, first tokens and endings arrive; a request announced last
  is always in it.\<close>
lemma inflight_table_bounded:
  assumes "reach (\<lambda>table. table = []) (\<lambda>table t. \<exists>op. t = inflight_step table op) table"
  shows "length table \<le> 8 \<and> distinct (map if_request_id table) \<and> e \<in> set (note_inflight table e)"
proof -
  have "inflight_ok table" using assms by (rule inflight_machine.reach_inv)
  moreover have "e \<in> set (drop n (xs @ [e]))" if "n \<le> length xs" for n and xs :: "inflight list"
    using that by simp
  ultimately show ?thesis
    by (auto simp: inflight_ok_def MAX_INFLIGHT_def note_inflight_def drop_oldest_eq)
qed

definition sample_inflight :: inflight where
  "sample_inflight = \<lparr>if_request_id = lit ''r'', if_agent_id = None, if_model_route_id = None,
     if_requested_model = lit ''m'', if_profile_id = lit ''p'', if_attempt = 1, if_credential_id = None,
     if_wire_in = [], if_wire_protocol_id = [], if_started_at_ms = 1, if_first_token_at_ms = None\<rparr>"

lemma inflight_table_bounded_witness:
  "length (note_inflight [] sample_inflight) \<le> 8 \<and> sample_inflight \<in> set (note_inflight (note_inflight [] sample_inflight) sample_inflight)"
  using inflight_table_bounded [OF reach_step [OF reach_init, of "\<lambda>table. table = []" "[]"
    "\<lambda>table t. \<exists>op. t = inflight_step table op" "note_inflight [] sample_inflight"], of sample_inflight]
  by (metis inflight_step.simps(1))

end
