(* ===== verification/Prepare.thy ===== *)
theory Prepare
  imports Snapshot Breaker
begin

text \<open>
  From an inbound request to the calls it may make: \<open>prepare\<close>, \<open>resolve_members\<close>,
  \<open>member_observations\<close> and \<open>prepare_member\<close> of
  \<open>crates/model-gateway/src/service.rs\<close>. The state of the service the requests share is one
  record; a handler takes it and returns it updated. The inbound body is given parsed, with the
  conversation key derived from it (a SHA-256) and the answer of the route's classifier, a network
  call that is made only when the route asks for it.

  Facts: a prepared member offers exactly the Keys that are ready, in scope and under the ceiling;
  a rule or a pin changes the order of the members and never their set; a request that \<open>prepare\<close>
  refuses leaves no probe slot taken; a group's own token ceiling does not replace the gateway's;
  the least-used Key order is the plain order.
\<close>

section \<open>Protocol lessons\<close>

record lesson_book =
  lb_cache :: "profile_id \<times> ustring \<Rightarrow> wire_protocol option"
  lb_stored :: "profile_id \<times> ustring \<Rightarrow> ustring option"

definition learned_protocol :: "lesson_book \<Rightarrow> profile_id \<Rightarrow> ustring \<Rightarrow> lesson_book \<times> wire_protocol option" where
  "learned_protocol lb p endpoint =
     (case lb_cache lb (p, endpoint) of
        Some w \<Rightarrow> (lb, Some w)
      | None \<Rightarrow> (case Option.bind (lb_stored lb (p, endpoint)) from_wire_protocol_id of
          None \<Rightarrow> (lb, None)
        | Some w \<Rightarrow> (lb\<lparr>lb_cache := (lb_cache lb)((p, endpoint) \<mapsto> w)\<rparr>, Some w)))"

definition remember_protocol :: "lesson_book \<Rightarrow> profile_id \<Rightarrow> ustring \<Rightarrow> wire_protocol \<Rightarrow> lesson_book" where
  "remember_protocol lb p endpoint w =
     lb\<lparr>lb_cache := (lb_cache lb)((p, endpoint) \<mapsto> w), lb_stored := (lb_stored lb)((p, endpoint) \<mapsto> wire_protocol_id w)\<rparr>"

section \<open>What the router has observed\<close>

definition note_latency :: "(profile_id \<times> int list) list \<Rightarrow> profile_id \<Rightarrow> int \<Rightarrow> (profile_id \<times> int list) list" where
  "note_latency entries p ms =
     (if ms \<le> 0 then entries
      else let window = (case map_of entries p of None \<Rightarrow> [] | Some w \<Rightarrow> w) @ [ms]
           in AList.update p (drop (length window - 32) window) entries)"

text \<open>The nearest rank for the fractions 1/2 and 19/20, rounded half away from zero: on at most 32
  samples the double product of the source rounds to the same index.\<close>

definition percentile :: "int list \<Rightarrow> nat \<Rightarrow> nat \<Rightarrow> nat option" where
  "percentile samples num den =
     (if samples = [] then None
      else let sorted = sort samples; index = (2 * (length sorted - 1) * num + den) div (2 * den);
               v = sorted ! min index (length sorted - 1)
           in if 0 \<le> v then Some (nat v) else None)"

definition key_is_ready :: "key_summary \<Rightarrow> bool" where
  "key_is_ready k \<longleftrightarrow> ks_state k = KeyReady"

definition member_observations ::
    "gateway_snapshot \<Rightarrow> inflight list \<Rightarrow> (profile_id \<times> int list) list \<Rightarrow> (profile_id \<times> member_observation) list" where
  "member_observations sn running latencies =
     map (\<lambda>u. (up_profile_id u,
        \<lparr>mb_used_tokens = (case up_keys u of [] \<Rightarrow> 0 | k # _ \<Rightarrow> ks_used_tokens k),
         mb_p50_ms = Option.bind (map_of latencies (up_profile_id u)) (\<lambda>s. percentile s 1 2),
         mb_p95_ms = Option.bind (map_of latencies (up_profile_id u)) (\<lambda>s. percentile s 19 20),
         mb_cooling = (up_keys u \<noteq> [] \<and> \<not> list_ex key_is_ready (up_keys u)),
         mb_inflight = length (filter (\<lambda>e. if_profile_id e = up_profile_id u) running)\<rparr>)) (sn_upstreams sn)"

section \<open>Members of one turn\<close>

record resolved_member =
  rv_profile :: profile_id
  rv_model :: ustring
  rv_reasoning_effort :: "ustring option"
  rv_first_token_timeout_ms :: "nat option"
  rv_key_strategy :: gateway_routing_strategy

record decision_trace =
  dt_rule_index :: "nat option"
  dt_rule_id :: "ustring option"
  dt_reason :: "ustring option"
  dt_classifier :: "ustring option"
  dt_classifier_error :: "ustring option"
  dt_intent :: "ustring option"
  dt_effort :: "ustring option"
  dt_strategy :: "ustring option"
  dt_patience_ms :: "nat option"
  dt_retries :: nat

definition decision_default :: decision_trace where
  "decision_default = \<lparr>dt_rule_index = None, dt_rule_id = None, dt_reason = None, dt_classifier = None,
     dt_classifier_error = None, dt_intent = None, dt_effort = None, dt_strategy = None, dt_patience_ms = None, dt_retries = 0\<rparr>"

definition is_unremarkable :: "decision_trace \<Rightarrow> bool" where
  "is_unremarkable d \<longleftrightarrow> d = decision_default"

definition next_counter :: "nat \<Rightarrow> nat" where
  "next_counter n = (n + 1) mod (U64_MAX + 1)"

definition group_model_ids :: "route_group \<Rightarrow> ustring list" where
  "group_model_ids g = map (\<lambda>e. served_model_id g (gm_model e)) (gg_models g)"

definition closest_ids :: "gateway_snapshot \<Rightarrow> ustring \<Rightarrow> ustring list" where
  "closest_ids sn requested =
     (case Option.bind (resolved_group_id requested) (map_of (sn_groups sn)) of
        Some g \<Rightarrow> group_model_ids g
      | None \<Rightarrow> map me_id (model_catalog sn))"

fun force_effort :: "ustring option \<Rightarrow> route_member_ref list \<Rightarrow> route_member_ref list" where
  "force_effort (Some effort) (m # ms) = m\<lparr>mf_reasoning_effort := Some (trim effort)\<rparr> # ms"
| "force_effort _ ms = ms"

text \<open>The decision a group's own settings leave in the trace, and what a matching rule adds.\<close>

definition base_decision :: "route_group \<Rightarrow> ustring option \<Rightarrow> ustring option \<Rightarrow> decision_trace" where
  "base_decision g intent forced =
     decision_default\<lparr>dt_strategy := (if gg_strategy g \<noteq> Ordered then Some (route_strategy_id (gg_strategy g)) else None),
       dt_patience_ms := gg_patience_ms g, dt_intent := intent, dt_effort := forced,
       dt_reason := (if gg_strategy g = Manual then Some (lit ''manual'') else None)\<rparr>"

definition rule_decision :: "decision_trace \<Rightarrow> nat \<Rightarrow> route_rule \<Rightarrow> decision_trace" where
  "rule_decision d index rule =
     d\<lparr>dt_rule_index := Some index, dt_rule_id := Some (rr_id rule), dt_reason := Some (lit ''rule''),
       dt_effort := (case rr_use_effort rule of Some e \<Rightarrow> Some (trim e) | None \<Rightarrow> dt_effort d)\<rparr>"

definition ordered_members ::
    "route_group \<Rightarrow> rule_context \<Rightarrow> profile_id option \<Rightarrow> decision_trace \<Rightarrow> route_member_ref list \<Rightarrow>
      gateway_error + (route_member_ref list \<times> decision_trace)" where
  "ordered_members g ctx pinned d plans =
     (case first_matching_rule (gg_rules g) ctx of
        None \<Rightarrow> Inr (hoist_pinned pinned mf_profile plans, d)
      | Some (index, rule) \<Rightarrow>
          if rr_pause rule
          then Inl (RoutePaused (gg_display_name g)
                 (lit ''rule '' @ dec_string (index + 1) @ lit '' paused routing for this request''))
          else Inr (hoist_pinned pinned mf_profile (force_effort (rr_use_effort rule) (reorder_for_rule rule plans)),
                    rule_decision d index rule))"

definition resolve_members ::
    "gateway_snapshot \<Rightarrow> canonical_request \<Rightarrow> profile_id option \<Rightarrow> rule_context \<Rightarrow> ustring option \<Rightarrow> ustring option \<Rightarrow>
      (profile_id \<times> member_observation) list \<Rightarrow> nat \<Rightarrow> nat \<times> (gateway_error + (resolved_member list \<times> decision_trace))" where
  "resolve_members sn request pinned ctx intent forced observed rotation =
     (case group_for_model sn (cr_model request) of
        None \<Rightarrow> (rotation, Inl (ModelNotFound (cr_model request) (closest_ids sn (cr_model request))))
      | Some (g, _) \<Rightarrow>
          if gg_providers g = [] then (rotation, Inl (ModelNotFound (cr_model request) (group_model_ids g)))
          else (next_counter rotation,
            and_then (ordered_members g ctx pinned (base_decision g intent forced)
                (plan_members (gg_providers g) (gg_strategy g) rotation observed (gg_pick_member_id g)))
              (\<lambda>(plans, d). Inr (map (\<lambda>m. \<lparr>rv_profile = mf_profile m, rv_model = mf_model m,
                  rv_reasoning_effort = (case mf_reasoning_effort m of Some e \<Rightarrow> Some e | None \<Rightarrow> forced),
                  rv_first_token_timeout_ms = (case mf_first_token_timeout_ms m of
                      Some t \<Rightarrow> Some t | None \<Rightarrow> gg_first_token_timeout_ms g),
                  rv_key_strategy = gg_key_strategy g\<rparr>) plans, d))))"

section \<open>Preparing one member\<close>

record member_call =
  mc_target :: wire_protocol
  mc_passthrough :: bool
  mc_endpoint :: provider_endpoint
  mc_body :: json

record prepared_member =
  pm_profile_id :: profile_id
  pm_provider_name :: ustring
  pm_model :: ustring
  pm_send_model :: ustring
  pm_target :: wire_protocol
  pm_passthrough :: bool
  pm_endpoint :: provider_endpoint
  pm_extra_body :: "(ustring \<times> json) list"
  pm_body :: json
  pm_keys :: "(candidate_key \<times> credential_ref) list"
  pm_limits :: "(request_id \<times> account_limits) list"
  pm_skipped_cooling :: nat
  pm_skipped_over_limit :: nat
  pm_reasoning_effort :: "ustring option"
  pm_first_token_timeout_ms :: "nat option"
  pm_alternates :: "member_call list"

text \<open>What \<open>prepare\<close> passes to \<open>prepare_member\<close> for every member of one request.\<close>

record request_context =
  rx_inbound :: wire_protocol
  rx_request :: canonical_request
  rx_body :: json
  rx_pinned :: "(profile_id \<times> request_id) option"
  rx_now :: int
  rx_tool_names :: tool_name_map

definition in_scope :: "gateway_upstream \<Rightarrow> ustring \<Rightarrow> credential_ref \<Rightarrow> bool" where
  "in_scope up model c \<longleftrightarrow> cd_models c = [] \<or> model \<in> set (cd_models c) \<or> alias_upstream up model \<in> set (cd_models c)"

fun visible_candidate :: "key_state \<Rightarrow> candidate_key \<Rightarrow> candidate_key" where
  "visible_candidate KeyReady c = c"
| "visible_candidate (KeyCooling kind until) c = c\<lparr>ck_ready := False, ck_cooling := Some kind\<rparr>"
| "visible_candidate KeyInvalid c = c\<lparr>ck_ready := False, ck_cooling := Some Auth\<rparr>"
| "visible_candidate KeyDisabled c = c\<lparr>ck_ready := False, ck_cooling := Some Other\<rparr>"

definition key_candidate ::
    "gateway_policy \<Rightarrow> nat \<Rightarrow> account_store \<Rightarrow> int \<Rightarrow> profile_id \<Rightarrow> nat \<times> credential_ref \<Rightarrow> candidate_key" where
  "key_candidate policy used accounts now p = (\<lambda>(index, c).
     let fresh = candidate_new p (cd_id c) (int index);
         led = (if map_of (gp_preferred_keys policy) p = Some (cd_id c) then fresh\<lparr>ck_preferred := True\<rparr> else fresh);
         limited = (case gp_token_limit policy of
             None \<Rightarrow> led | Some l \<Rightarrow> led\<lparr>ck_token_limit := Some l, ck_window_used_tokens := Some used\<rparr>)
     in visible_candidate (visibility_at (account_of accounts p (cd_id c) now) now) limited)"

definition member_candidates ::
    "gateway_snapshot \<Rightarrow> account_store \<Rightarrow> int \<Rightarrow> gateway_upstream \<Rightarrow> ustring \<Rightarrow> (candidate_key \<times> credential_ref) list" where
  "member_candidates sn accounts now up model =
     map (\<lambda>ic. (key_candidate (gs_policy (sn_settings sn)) (sn_gateway_used_tokens sn) accounts now (up_profile_id up) ic, snd ic))
       (filter (\<lambda>(index, c). in_scope up model c) (enumerate 0 (up_credentials up)))"

definition member_key_plan ::
    "request_context \<Rightarrow> resolved_member \<Rightarrow> nat \<Rightarrow> (candidate_key \<times> credential_ref) list \<Rightarrow> route_plan" where
  "member_key_plan rx resolved rotation candidates =
     plan_route \<lparr>rq_candidates = map fst candidates, rq_strategy = rv_key_strategy resolved, rq_rotation = rotation,
       rq_pinned = (case rx_pinned rx of
           Some (p, c) \<Rightarrow> if p = rv_profile resolved then Some (p, c) else None | None \<Rightarrow> None)\<rparr>"

definition planned_keys ::
    "(candidate_key \<times> credential_ref) list \<Rightarrow> route_plan \<Rightarrow> (candidate_key \<times> credential_ref) list" where
  "planned_keys candidates plan =
     List.map_filter (\<lambda>k. find (\<lambda>(existing, c). ck_credential existing = ck_credential k) candidates) (attemptable plan)"

definition member_request :: "canonical_request \<Rightarrow> ustring option \<Rightarrow> canonical_request" where
  "member_request r effort =
     (case effort of
        None \<Rightarrow> r
      | Some e \<Rightarrow> r\<lparr>cr_reasoning := \<lparr>rr_disabled = eq_ignore_ascii_case e (lit ''off''), rr_effort_asked = Some e\<rparr>\<rparr>)"

type_synonym codec = "wire_protocol \<Rightarrow> canonical_request \<Rightarrow> ustring \<Rightarrow> bool \<Rightarrow> gateway_error + json"

fun alternate_calls ::
    "codec \<Rightarrow> request_context \<Rightarrow> gateway_upstream \<Rightarrow> canonical_request \<Rightarrow> ustring \<Rightarrow> (wire_protocol \<times> bool) list \<Rightarrow>
      gateway_error + member_call list" where
  "alternate_calls build rx up mr model [] = Inr []"
| "alternate_calls build rx up mr model ((p, pass) # rest) =
     (case endpoint_for_call up p of
        None \<Rightarrow> alternate_calls build rx up mr model rest
      | Some e \<Rightarrow>
          and_then (build_member_body build p pass (rx_inbound rx) (rx_body rx) (rx_request rx) mr model
              (cr_stream (rx_request rx) \<or> \<not> pass))
            (\<lambda>body. and_then (alternate_calls build rx up mr model rest)
              (\<lambda>calls. Inr (\<lparr>mc_target = p, mc_passthrough = pass, mc_endpoint = e,
                  mc_body = rewrite_body (rx_tool_names rx) p body\<rparr> # calls))))"

definition member_target ::
    "gateway_snapshot \<Rightarrow> request_context \<Rightarrow> gateway_upstream \<Rightarrow> wire_protocol option \<Rightarrow>
      gateway_error + (target_plan \<times> provider_endpoint)" where
  "member_target sn rx up learned =
     (if has_vendor_file_image (rx_request rx) \<and> \<not> (supports up Responses \<or> learned = Some Responses)
      then Inl UnsupportedImageReference
      else and_then (choose_target (rx_inbound rx) up learned (gs_policy (sn_settings sn)))
        (\<lambda>plan. and_then (ok_or (endpoint_for_call up (tp_target plan)) (TranslationDisabled (wire_protocol_id (tp_target plan))))
          (\<lambda>e. Inr (plan, e))))"

definition assemble_member ::
    "codec \<Rightarrow> gateway_snapshot \<Rightarrow> request_context \<Rightarrow> resolved_member \<Rightarrow> gateway_upstream \<Rightarrow> target_plan \<Rightarrow> provider_endpoint \<Rightarrow>
      (candidate_key \<times> credential_ref) list \<Rightarrow> route_plan \<Rightarrow> gateway_error + prepared_member" where
  "assemble_member build sn rx resolved up plan endpoint candidates key_plan =
     (if attemptable key_plan = [] then Inl (AllKeysCooling (cr_model (rx_request rx)) None)
      else
        let mr = member_request (rx_request rx) (rv_reasoning_effort resolved) in
        and_then (build_member_body build (tp_target plan) (tp_passthrough plan) (rx_inbound rx) (rx_body rx) (rx_request rx)
            mr (rv_model resolved) (cr_stream (rx_request rx) \<or> \<not> tp_passthrough plan))
          (\<lambda>body. and_then (alternate_calls build rx up mr (rv_model resolved) (tp_alternates plan))
            (\<lambda>calls. Inr \<lparr>pm_profile_id = rv_profile resolved, pm_provider_name = up_display_name up,
               pm_model = rv_model resolved, pm_send_model = alias_upstream up (rv_model resolved),
               pm_target = tp_target plan, pm_passthrough = tp_passthrough plan, pm_endpoint = endpoint,
               pm_extra_body = up_extra_body up,
               pm_body = (if tp_passthrough plan then body else rewrite_body (rx_tool_names rx) (tp_target plan) body),
               pm_keys = planned_keys candidates key_plan,
               pm_limits = gp_account_limits (gs_policy (sn_settings sn)),
               pm_skipped_cooling = rp_skipped_cooling key_plan, pm_skipped_over_limit = rp_skipped_over_limit key_plan,
               pm_reasoning_effort = rv_reasoning_effort resolved,
               pm_first_token_timeout_ms = rv_first_token_timeout_ms resolved, pm_alternates = calls\<rparr>)))"

definition prepare_member ::
    "codec \<Rightarrow> gateway_snapshot \<Rightarrow> request_context \<Rightarrow> account_store \<Rightarrow> resolved_member \<Rightarrow> lesson_book \<times> nat \<Rightarrow>
      (lesson_book \<times> nat) \<times> (gateway_error + prepared_member)" where
  "prepare_member build sn rx accounts resolved = (\<lambda>(lb, rotation).
     case snapshot_upstream sn (rv_profile resolved) of
       None \<Rightarrow> ((lb, rotation), Inl (ModelNotFound (cr_model (rx_request rx)) []))
     | Some up \<Rightarrow>
         let (lb', learned) = (case untyped_endpoint up of
                 None \<Rightarrow> (lb, None) | Some e \<Rightarrow> learned_protocol lb (rv_profile resolved) (ep_id e))
         in case member_target sn rx up learned of
              Inl e \<Rightarrow> ((lb', rotation), Inl e)
            | Inr (plan, endpoint) \<Rightarrow>
                let candidates = member_candidates sn accounts (rx_now rx) up (rv_model resolved) in
                if candidates = []
                then ((lb', rotation), Inl (NotConfigured (lit ''`'' @ up_display_name up @ lit ''` has no API Key'')))
                else ((lb', next_counter rotation),
                      assemble_member build sn rx resolved up plan endpoint candidates
                        (member_key_plan rx resolved rotation candidates)))"

fun prepare_members ::
    "codec \<Rightarrow> gateway_snapshot \<Rightarrow> request_context \<Rightarrow> account_store \<Rightarrow> resolved_member list \<Rightarrow> lesson_book \<times> nat \<Rightarrow>
      gateway_error option \<Rightarrow> (lesson_book \<times> nat) \<times> prepared_member list \<times> gateway_error option" where
  "prepare_members build sn rx accounts [] s err = (s, [], err)"
| "prepare_members build sn rx accounts (r # rs) s err =
     (case prepare_member build sn rx accounts r s of
        (s', Inl e) \<Rightarrow> prepare_members build sn rx accounts rs s' (Some e)
      | (s', Inr m) \<Rightarrow>
          (case prepare_members build sn rx accounts rs s' err of (s'', ms, err') \<Rightarrow> (s'', m # ms, err')))"

section \<open>Preparing a request\<close>

record classifier_outcome =
  co_intent :: "ustring option"
  co_effort :: "ustring option"
  co_error :: "ustring option"

record incoming =
  in_inbound :: wire_protocol
  in_request :: canonical_request
  in_body :: json
  in_agent_id :: "ustring option"
  in_headers :: "ustring \<Rightarrow> ustring option"
  in_conversation :: "ustring option"
  in_classifier :: classifier_outcome
  in_request_id :: request_id
  in_now :: int
  in_weekday :: nat
  in_minute :: nat

record prepared_call =
  pc_inbound :: wire_protocol
  pc_requested_model :: ustring
  pc_members :: "prepared_member list"
  pc_agent_id :: "ustring option"
  pc_conversation :: "ustring option"
  pc_stream :: bool
  pc_group_id :: "ustring option"
  pc_probe :: bool
  pc_request_id :: request_id
  pc_route_name :: ustring
  pc_failover :: gateway_failover
  pc_patience_ms :: "nat option"
  pc_route_decision :: decision_trace
  pc_retries :: nat
  pc_pinned :: bool
  pc_tool_names :: tool_name_map

record ledger_row =
  lr_request_id :: request_id
  lr_agent_id :: "ustring option"
  lr_profile :: "profile_id option"
  lr_credential :: "request_id option"
  lr_model_requested :: ustring
  lr_model_served :: "ustring option"
  lr_wire_in :: ustring
  lr_wire_out :: ustring
  lr_status :: "nat option"
  lr_usage :: canonical_usage
  lr_latency_ms :: "int option"
  lr_outcome :: request_outcome
  lr_failed_attempts :: "(request_id \<times> failure_kind) list"
  lr_skipped_members :: "(profile_id \<times> ustring \<times> failure_kind) list"
  lr_error_code :: "ustring option"
  lr_error_message :: "ustring option"
  lr_decision :: "decision_trace option"
  lr_skipped_cooling :: nat
  lr_skipped_over_limit :: nat
  lr_created_at_ms :: int

record gateway_state =
  gw_service :: service_state
  gw_accounts :: account_store
  gw_windows :: window_store
  gw_pins :: pin_store
  gw_lessons :: lesson_book
  gw_rotation :: nat
  gw_member_rotation :: nat
  gw_inflight :: "inflight list"
  gw_latency :: "(profile_id \<times> int list) list"
  gw_asks :: "ustring list"
  gw_routes :: "(ustring \<times> model_route) list"
  gw_ledger :: "ledger_row list"

definition request_group :: "gateway_snapshot \<Rightarrow> canonical_request \<Rightarrow> route_group option" where
  "request_group sn r = Option.bind (resolved_group_id (cr_model r)) (map_of (sn_groups sn))"

definition token_ceiling :: "gateway_snapshot \<Rightarrow> canonical_request \<Rightarrow> nat option" where
  "token_ceiling sn r =
     (case Option.bind (request_group sn r) gg_token_limit of
        Some l \<Rightarrow> Some (tl_tokens l)
      | None \<Rightarrow> map_option tl_tokens (gp_token_limit (gs_policy (sn_settings sn))))"

definition classifies :: "route_group \<Rightarrow> bool" where
  "classifies g \<longleftrightarrow> gg_classifier g \<noteq> None \<and>
     (gg_effort g = Some (lit ''auto'') \<or> list_ex (\<lambda>rule. rr_intent rule \<noteq> None) (gg_rules g))"

definition classifier_answer :: "route_group option \<Rightarrow> classifier_outcome \<Rightarrow> classifier_outcome" where
  "classifier_answer g outcome =
     (case g of
        Some g' \<Rightarrow> if classifies g' then outcome else \<lparr>co_intent = None, co_effort = None, co_error = None\<rparr>
      | None \<Rightarrow> \<lparr>co_intent = None, co_effort = None, co_error = None\<rparr>)"

definition forced_effort :: "route_group option \<Rightarrow> classifier_outcome \<Rightarrow> ustring option" where
  "forced_effort g outcome =
     (case g of Some g' \<Rightarrow> if classifies g' \<and> gg_effort g' = Some (lit ''auto'') then co_effort outcome else None | None \<Rightarrow> None)"

definition classified_decision :: "route_group option \<Rightarrow> classifier_outcome \<Rightarrow> ustring option \<Rightarrow> decision_trace \<Rightarrow> decision_trace" where
  "classified_decision g outcome forced d =
     (case g of
        None \<Rightarrow> d
      | Some g' \<Rightarrow>
          if gg_classifier g' = None then d
          else d\<lparr>dt_classifier := gg_classifier g', dt_classifier_error := co_error outcome, dt_intent := co_intent outcome,
                 dt_effort := (case forced of Some e \<Rightarrow> Some e | None \<Rightarrow> dt_effort d),
                 dt_reason := (case dt_reason d of
                     Some r \<Rightarrow> Some r
                   | None \<Rightarrow> Some (if co_error outcome \<noteq> None then lit ''classifier_failed'' else lit ''classifier''))\<rparr>)"

text \<open>The breaker's admission, and its release when \<open>prepare\<close> leaves early (\<open>ProbeGuard\<close>).\<close>

definition admit :: "gateway_state \<Rightarrow> ustring option \<Rightarrow> gateway_state \<times> (gateway_error + bool)" where
  "admit gw group_id =
     (case group_id of
        None \<Rightarrow> (gw, Inr False)
      | Some g \<Rightarrow> (case begin_attempt (sv_breakers (gw_service gw)) g of
          (bs, r) \<Rightarrow> (gw\<lparr>gw_service := (gw_service gw)\<lparr>sv_breakers := bs\<rparr>\<rparr>, r)))"

definition release_probe :: "gateway_state \<Rightarrow> ustring \<Rightarrow> bool \<Rightarrow> gateway_state" where
  "release_probe gw g probe =
     gw\<lparr>gw_service := (gw_service gw)\<lparr>sv_breakers := finish_attempt (sv_breakers (gw_service gw)) g probe\<rparr>\<rparr>"

definition prepare_call ::
    "codec \<Rightarrow> (ustring \<Rightarrow> nat) \<Rightarrow> gateway_snapshot \<Rightarrow> incoming \<Rightarrow> (profile_id \<times> request_id) option \<Rightarrow> ustring option \<Rightarrow> pin_scope \<Rightarrow>
      resolved_member list \<Rightarrow> decision_trace \<Rightarrow> gateway_state \<Rightarrow> gateway_state \<times> (gateway_error + prepared_call)" where
  "prepare_call build hash sn inc pinned conversation pin members decision gw =
     (let request = in_request inc;
          group_id = resolved_group_id (cr_model request)
      in case admit gw group_id of
        (gw1, Inl e) \<Rightarrow> (gw1, Inl e)
      | (gw1, Inr probe) \<Rightarrow>
          let names = tool_names_build hash request;
              rx = \<lparr>rx_inbound = in_inbound inc, rx_request = request, rx_body = in_body inc, rx_pinned = pinned,
                    rx_now = in_now inc, rx_tool_names = names\<rparr>
          in case prepare_members build sn rx (gw_accounts gw1) members (gw_lessons gw1, gw_rotation gw1) None of
            ((lb, rotation), ms, err) \<Rightarrow>
              let gw2 = gw1\<lparr>gw_lessons := lb, gw_rotation := rotation\<rparr> in
              if ms = []
              then (release_probe gw2 (case group_id of Some g \<Rightarrow> g | None \<Rightarrow> []) probe,
                    Inl (case err of Some e \<Rightarrow> e | None \<Rightarrow> ModelNotFound (cr_model request) []))
              else (gw2, Inr \<lparr>pc_inbound = in_inbound inc, pc_requested_model = cr_model request, pc_members = ms,
                 pc_agent_id = in_agent_id inc, pc_conversation = conversation, pc_stream = cr_stream request,
                 pc_group_id = group_id, pc_probe = probe, pc_request_id = in_request_id inc,
                 pc_route_name = (case request_group sn request of Some g \<Rightarrow> gg_display_name g | None \<Rightarrow> []),
                 pc_failover = (case request_group sn request of Some g \<Rightarrow> gg_failover g | None \<Rightarrow> FailoverAuto),
                 pc_patience_ms = Option.bind (request_group sn request) gg_patience_ms,
                 pc_route_decision = decision, pc_retries = 0,
                 pc_pinned = (pinned \<noteq> None \<and> pin = PinConversation), pc_tool_names = names\<rparr>))"

text \<open>Where the conversation is pinned, and the members the request resolves to with that pin.\<close>

definition conversation_scope :: "gateway_snapshot \<Rightarrow> incoming \<Rightarrow> pin_scope \<times> ustring option" where
  "conversation_scope sn inc =
     (let pin = (case request_group sn (in_request inc) of Some g \<Rightarrow> gg_pin g | None \<Rightarrow> PinOff)
      in (pin, if pin = PinConversation then in_conversation inc else None))"

definition live_member :: "gateway_snapshot \<Rightarrow> incoming \<Rightarrow> pin_store \<Rightarrow> (profile_id \<times> request_id) option" where
  "live_member sn inc pins = Option.bind (snd (conversation_scope sn inc)) (\<lambda>key. live_pin pins key (in_now inc))"

definition resolve_request :: "gateway_snapshot \<Rightarrow> incoming \<Rightarrow> gateway_state \<Rightarrow> nat \<times> (gateway_error + (resolved_member list \<times> decision_trace))" where
  "resolve_request sn inc gw =
     (let request = in_request inc;
          g = request_group sn request;
          outcome = classifier_answer g (in_classifier inc);
          forced = forced_effort g outcome;
          ctx = route_rule_context (in_weekday inc) (in_minute inc) request (in_agent_id inc) (in_headers inc) (co_intent outcome)
      in case resolve_members sn request (map_option fst (live_member sn inc (gw_pins gw))) ctx (co_intent outcome) forced
               (member_observations sn (gw_inflight gw) (gw_latency gw)) (gw_member_rotation gw) of
           (rotation, Inl e) \<Rightarrow> (rotation, Inl e)
         | (rotation, Inr (members, d)) \<Rightarrow>
             (rotation, if members = [] then Inl (ModelNotFound (cr_model request) (map me_id (model_catalog sn)))
                        else Inr (members, classified_decision g outcome forced d)))"

definition prepare ::
    "codec \<Rightarrow> (ustring \<Rightarrow> nat) \<Rightarrow> gateway_snapshot \<Rightarrow> incoming \<Rightarrow> gateway_state \<Rightarrow> gateway_state \<times> (gateway_error + prepared_call)" where
  "prepare build hash sn inc gw =
     (if (case token_ceiling sn (in_request inc) of Some tokens \<Rightarrow> tokens \<le> sn_gateway_used_tokens sn | None \<Rightarrow> False)
      then (gw, Inl (TokenCeilingReached (gs_display_name (sn_settings sn))))
      else case resolve_request sn inc gw of
          (rotation, Inl e) \<Rightarrow> (gw\<lparr>gw_member_rotation := rotation\<rparr>, Inl e)
        | (rotation, Inr (members, d)) \<Rightarrow>
            prepare_call build hash sn inc (live_member sn inc (gw_pins gw)) (snd (conversation_scope sn inc))
              (fst (conversation_scope sn inc)) members d (gw\<lparr>gw_member_rotation := rotation\<rparr>))"

section \<open>Keys of a prepared member\<close>

definition under_ceiling :: "gateway_snapshot \<Rightarrow> bool" where
  "under_ceiling sn \<longleftrightarrow> (case gp_token_limit (gs_policy (sn_settings sn)) of
     None \<Rightarrow> True | Some l \<Rightarrow> sn_gateway_used_tokens sn < tl_tokens l)"

lemma key_candidate_fields [simp]:
  "ck_credential (key_candidate policy used accounts now p (i, c)) = cd_id c"
  "ck_used_tokens (key_candidate policy used accounts now p (i, c)) = 0"
  by (cases "visibility_at (account_of accounts p (cd_id c) now) now";
      simp add: key_candidate_def candidate_new_def Let_def split: option.split)+

lemma key_candidate_selectable:
  "selectable (key_candidate (gs_policy (sn_settings sn)) (sn_gateway_used_tokens sn) accounts now p (i, c)) \<longleftrightarrow>
     visibility_at (account_of accounts p (cd_id c) now) now = KeyReady \<and> under_ceiling sn"
  by (cases "visibility_at (account_of accounts p (cd_id c) now) now")
    (auto simp: key_candidate_def candidate_new_def selectable_def over_token_limit_def under_ceiling_def Let_def
      split: option.split)

lemma set_member_candidates:
  "(k, c) \<in> set (member_candidates sn accounts now up model) \<longleftrightarrow>
     (\<exists>i. (i, c) \<in> set (enumerate 0 (up_credentials up)) \<and> in_scope up model c \<and>
       k = key_candidate (gs_policy (sn_settings sn)) (sn_gateway_used_tokens sn) accounts now (up_profile_id up) (i, c))"
  by (auto simp: member_candidates_def)

lemma in_enumerate_iff: "(\<exists>i. (i, c) \<in> set (enumerate n cs)) \<longleftrightarrow> c \<in> set cs"
  by (induction cs arbitrary: n) auto

lemma set_ready_order: "set (ready_order rq) = {k \<in> set (rq_candidates rq). selectable k}"
  using mset_eq_setD [OF mset_ready_order [of rq]] by simp

lemma planned_keys_ids:
  assumes "up_profile_id up = p" and "candidates = member_candidates sn accounts now up model"
    and "map fst candidates = rq_candidates rq"
  shows "set (map (cd_id \<circ> snd) (planned_keys candidates (plan_route rq))) =
     {cd_id c |c. c \<in> set (up_credentials up) \<and> in_scope up model c \<and> under_ceiling sn \<and>
        visibility_at (account_of accounts p (cd_id c) now) now = KeyReady}" (is "?L = ?R")
proof
  show "?L \<subseteq> ?R"
  proof
    fix x assume "x \<in> ?L"
    then obtain k c k' where k: "k \<in> set (ready_order rq)" "x = cd_id c" "(k', c) \<in> set candidates"
        "ck_credential k' = ck_credential k"
      by (fastforce simp: planned_keys_def set_map_filter dest: find_SomeD)
    from k(1) have "k \<in> fst ` set candidates" "selectable k"
      using assms(3) by (auto simp: set_ready_order simp flip: set_map)
    then obtain c2 where "(k, c2) \<in> set candidates" by auto
    then have "visibility_at (account_of accounts p (cd_id c2) now) now = KeyReady" "under_ceiling sn" "ck_credential k = cd_id c2"
      using \<open>selectable k\<close> assms(1,2) by (auto simp: set_member_candidates key_candidate_selectable)
    moreover have "cd_id c = cd_id c2" "c \<in> set (up_credentials up)" "in_scope up model c"
      using k(3,4) calculation(3) in_enumerate_iff [of c 0 "up_credentials up"] by (auto simp: assms(2) set_member_candidates)
    ultimately have "visibility_at (account_of accounts p (cd_id c) now) now = KeyReady" by simp
    then show "x \<in> ?R" using k(2) \<open>c \<in> set (up_credentials up)\<close> \<open>in_scope up model c\<close> \<open>under_ceiling sn\<close> by blast
  qed
  show "?R \<subseteq> ?L"
  proof
    fix x assume "x \<in> ?R"
    then obtain c where c: "x = cd_id c" "c \<in> set (up_credentials up)" "in_scope up model c" "under_ceiling sn"
        "visibility_at (account_of accounts p (cd_id c) now) now = KeyReady" by auto
    then obtain i where i: "(i, c) \<in> set (enumerate 0 (up_credentials up))" using in_enumerate_iff by metis
    define k where "k = key_candidate (gs_policy (sn_settings sn)) (sn_gateway_used_tokens sn) accounts now (up_profile_id up) (i, c)"
    have k: "(k, c) \<in> set candidates" unfolding assms(2) set_member_candidates k_def using i c(3) by blast
    have "selectable k" "ck_credential k = cd_id c"
      using c(4,5) assms by (simp_all add: k_def key_candidate_selectable)
    note k = k this
    then have a: "k \<in> set (ready_order rq)"
      using image_eqI [of k fst "(k, c)" "set candidates"] assms(3) by (simp add: set_ready_order flip: set_map)
    have "find (\<lambda>(e, c). ck_credential e = ck_credential k) candidates \<noteq> None"
      using k(1) by (auto simp: find_None_iff)
    then obtain k' c' where f: "find (\<lambda>(e, c). ck_credential e = ck_credential k) candidates = Some (k', c')" by auto
    then have "(k', c') \<in> set candidates" "ck_credential k' = ck_credential k" by (auto dest: find_SomeD)
    then have "cd_id c' = x" using k(3) c(1) by (auto simp: assms(2) set_member_candidates)
    moreover have "(k', c') \<in> set (planned_keys candidates (plan_route rq))"
      using a f by (auto simp: planned_keys_def set_map_filter)
    ultimately show "x \<in> ?L" by force
  qed
qed

lemma prepare_member_InrD:
  assumes "prepare_member build sn rx accounts resolved s = (s', Inr m)"
  obtains up plan endpoint rotation where "snapshot_upstream sn (rv_profile resolved) = Some up"
    and "assemble_member build sn rx resolved up plan endpoint
        (member_candidates sn accounts (rx_now rx) up (rv_model resolved))
        (member_key_plan rx resolved rotation (member_candidates sn accounts (rx_now rx) up (rv_model resolved))) = Inr m"
  using assms
  by (auto simp: prepare_member_def Let_def split: prod.splits option.splits sum.splits if_splits)

lemma assemble_member_InrD:
  assumes "assemble_member build sn rx resolved up plan endpoint candidates key_plan = Inr m"
  shows "attemptable key_plan \<noteq> []" and "pm_keys m = planned_keys candidates key_plan"
    and "pm_profile_id m = rv_profile resolved"
  using assms by (auto simp: assemble_member_def Let_def and_then_Inr split: if_splits)

lemma snapshot_upstream_profile: "snapshot_upstream sn p = Some up \<Longrightarrow> up_profile_id up = p"
  by (auto simp: snapshot_upstream_def dest: find_SomeD)

lemma prepared_keys:
  assumes "prepare_member build sn rx accounts resolved s = (s', Inr m)"
  shows "\<exists>up. snapshot_upstream sn (rv_profile resolved) = Some up \<and> under_ceiling sn \<and> pm_profile_id m = rv_profile resolved \<and>
     set (map (cd_id \<circ> snd) (pm_keys m)) =
     {cd_id c |c. c \<in> set (up_credentials up) \<and> in_scope up (rv_model resolved) c \<and>
        visibility_at (account_of accounts (rv_profile resolved) (cd_id c) (rx_now rx)) (rx_now rx) = KeyReady} \<and>
     pm_keys m \<noteq> []"
proof -
  obtain up plan endpoint rotation where up: "snapshot_upstream sn (rv_profile resolved) = Some up"
    and a: "assemble_member build sn rx resolved up plan endpoint
        (member_candidates sn accounts (rx_now rx) up (rv_model resolved))
        (member_key_plan rx resolved rotation (member_candidates sn accounts (rx_now rx) up (rv_model resolved))) = Inr m"
    by (rule prepare_member_InrD [OF assms])
  let ?cs = "member_candidates sn accounts (rx_now rx) up (rv_model resolved)"
  define rq where "rq = \<lparr>rq_candidates = map fst ?cs, rq_strategy = rv_key_strategy resolved, rq_rotation = rotation,
       rq_pinned = (case rx_pinned rx of
           Some (p, c) \<Rightarrow> if p = rv_profile resolved then Some (p, c) else None | None \<Rightarrow> None)\<rparr>"
  have plan: "member_key_plan rx resolved rotation ?cs = plan_route rq" by (simp add: member_key_plan_def rq_def)
  have keys: "set (map (cd_id \<circ> snd) (pm_keys m)) =
     {cd_id c |c. c \<in> set (up_credentials up) \<and> in_scope up (rv_model resolved) c \<and> under_ceiling sn \<and>
        visibility_at (account_of accounts (rv_profile resolved) (cd_id c) (rx_now rx)) (rx_now rx) = KeyReady}"
    using planned_keys_ids [OF snapshot_upstream_profile [OF up] refl, of sn accounts "rx_now rx" "rv_model resolved" rq]
      assemble_member_InrD(2) [OF a] by (simp add: plan rq_def)
  have "ready_order rq \<noteq> []" using assemble_member_InrD(1) [OF a] by (simp add: plan)
  then obtain k where "k \<in> set (ready_order rq)" by (cases "ready_order rq") auto
  then have "k \<in> set (map fst ?cs)" "selectable k" by (simp_all add: set_ready_order rq_def)
  then obtain c i where c: "in_scope up (rv_model resolved) c" "(i, c) \<in> set (enumerate 0 (up_credentials up))"
      "visibility_at (account_of accounts (rv_profile resolved) (cd_id c) (rx_now rx)) (rx_now rx) = KeyReady" "under_ceiling sn"
    by (auto simp: set_member_candidates key_candidate_selectable snapshot_upstream_profile [OF up])
  then have "cd_id c \<in> set (map (cd_id \<circ> snd) (pm_keys m))" using keys in_enumerate_iff [of c 0 "up_credentials up"] by blast
  then have "pm_keys m \<noteq> []" by auto
  then show ?thesis using up keys c(4) assemble_member_InrD(3) [OF a] by auto
qed

lemma prepare_members_InrD:
  "prepare_members build sn rx accounts rs s err = (s', ms, err') \<Longrightarrow> m \<in> set ms \<Longrightarrow>
     \<exists>r \<in> set rs. \<exists>t t'. prepare_member build sn rx accounts r t = (t', Inr m)"
  by (induction build sn rx accounts rs s err arbitrary: s' ms err' rule: prepare_members.induct)
    (fastforce split: prod.splits sum.splits)+

lemma prepare_call_members:
  assumes "prepare_call build hash sn inc pinned conversation pin members d gw = (gw', Inr pc)" and "m \<in> set (pc_members pc)"
  shows "\<exists>r \<in> set members. \<exists>rx t t'. rx_now rx = in_now inc \<and> prepare_member build sn rx (gw_accounts gw) r t = (t', Inr m)"
proof -
  obtain gw1 probe where ad: "admit gw (resolved_group_id (cr_model (in_request inc))) = (gw1, Inr probe)"
    using assms by (auto simp: prepare_call_def Let_def split: prod.splits sum.splits)
  then have acc: "gw_accounts gw1 = gw_accounts gw"
    by (auto simp: admit_def split: option.splits prod.splits)
  define rx where "rx = \<lparr>rx_inbound = in_inbound inc, rx_request = in_request inc, rx_body = in_body inc, rx_pinned = pinned,
      rx_now = in_now inc, rx_tool_names = tool_names_build hash (in_request inc)\<rparr>"
  obtain s' ms err where pm: "prepare_members build sn rx (gw_accounts gw1) members (gw_lessons gw1, gw_rotation gw1) None = (s', ms, err)"
    by (metis prod_cases3)
  have "pc_members pc = ms"
    using assms ad pm by (auto simp: prepare_call_def Let_def simp flip: rx_def split: prod.splits if_splits)
  with assms(2) prepare_members_InrD [OF pm] acc
  have "\<exists>r \<in> set members. \<exists>t t'. prepare_member build sn rx (gw_accounts gw) r t = (t', Inr m)" by simp
  moreover have "rx_now rx = in_now inc" by (simp add: rx_def)
  ultimately show ?thesis by blast
qed

section \<open>The probe slot\<close>

definition probing :: "gateway_state \<Rightarrow> ustring \<Rightarrow> bool" where
  "probing gw g = br_probe_in_flight (breaker_entry (sv_breakers (gw_service gw)) g)"

lemma admit_probing:
  assumes "admit gw group_id = (gw', r)"
  shows "probing gw' g = (if r = Inr True \<and> group_id = Some g then True else probing gw g)"
    and "r = Inr True \<Longrightarrow> \<exists>h. group_id = Some h \<and> \<not> probing gw h"
  using assms
  by (auto simp: admit_def probing_def begin_attempt_def Let_def split: option.splits prod.splits if_splits)

lemma release_probing:
  "probing (release_probe gw h probe) g = (if probe \<and> g = h then False else probing gw g)"
  by (simp add: release_probe_def probing_def finish_attempt_entry)

lemma prepare_call_probing:
  assumes "prepare_call build hash sn inc pinned conversation pin members d gw = (gw', Inl e)"
  shows "probing gw' g = probing gw g"
proof -
  let ?id = "resolved_group_id (cr_model (in_request inc))"
  obtain gw1 r where ad: "admit gw ?id = (gw1, r)" by fastforce
  show ?thesis
  proof (cases r)
    case (Inl e')
    then show ?thesis using assms ad admit_probing(1) [OF ad, of g] by (auto simp: prepare_call_def Let_def)
  next
    case (Inr probe)
    then obtain lb rot where "gw' = release_probe (gw1\<lparr>gw_lessons := lb, gw_rotation := rot\<rparr>)
        (case ?id of Some g \<Rightarrow> g | None \<Rightarrow> []) probe"
      using assms ad by (auto simp: prepare_call_def Let_def split: prod.splits if_splits)
    then have "probing gw' g = (if probe \<and> g = (case ?id of Some g \<Rightarrow> g | None \<Rightarrow> []) then False
        else probing (gw1\<lparr>gw_lessons := lb, gw_rotation := rot\<rparr>) g)"
      by (simp only: release_probing)
    moreover have "probing (gw1\<lparr>gw_lessons := lb, gw_rotation := rot\<rparr>) g = probing gw1 g" by (simp add: probing_def)
    ultimately have "probing gw' g = (if probe \<and> g = (case ?id of Some g \<Rightarrow> g | None \<Rightarrow> []) then False else probing gw1 g)"
      by simp
    then show ?thesis using admit_probing(1) [OF ad, of g] admit_probing(2) [OF ad] Inr by (auto split: if_splits)
  qed
qed

lemma prepare_cases:
  obtains (refused) e where "prepare build hash sn inc gw = (gw, Inl e)"
  | (unresolved) r e where "prepare build hash sn inc gw = (gw\<lparr>gw_member_rotation := r\<rparr>, Inl e)"
  | (resolved) r members d where "resolve_request sn inc gw = (r, Inr (members, d))"
      "prepare build hash sn inc gw = prepare_call build hash sn inc (live_member sn inc (gw_pins gw))
         (snd (conversation_scope sn inc)) (fst (conversation_scope sn inc)) members d (gw\<lparr>gw_member_rotation := r\<rparr>)"
proof (cases "case token_ceiling sn (in_request inc) of Some tokens \<Rightarrow> tokens \<le> sn_gateway_used_tokens sn | None \<Rightarrow> False")
  case True
  then show ?thesis using refused by (simp add: prepare_def)
next
  case False
  obtain r res where res: "resolve_request sn inc gw = (r, res)" by fastforce
  show ?thesis
  proof (cases res)
    case (Inl e)
    then show ?thesis using unresolved False res by (simp add: prepare_def)
  next
    case (Inr md)
    then show ?thesis using resolved False res by (cases md) (simp add: prepare_def)
  qed
qed

lemma prepare_members_of_call:
  assumes "prepare build hash sn inc gw = (gw', Inr pc)" and "m \<in> set (pc_members pc)"
  shows "\<exists>r rx t t'. rx_now rx = in_now inc \<and> prepare_member build sn rx (gw_accounts gw) r t = (t', Inr m)"
proof (cases rule: prepare_cases [of build hash sn inc gw])
  case (resolved r members d)
  from prepare_call_members [OF resolved(2) [symmetric, unfolded assms(1)] assms(2)]
  have "\<exists>ra \<in> set members. \<exists>rx t t'. rx_now rx = in_now inc \<and> prepare_member build sn rx (gw_accounts gw) ra t = (t', Inr m)"
    by simp
  then show ?thesis by blast
qed (use assms in simp_all)

section \<open>Equal use\<close>

lemma sort_ready_unused:
  assumes "\<forall>c \<in> set ready. ck_used_tokens c = 0"
  shows "sort_ready ready KeysLeastUsed rotation = sort_ready ready KeysOrdered rotation"
proof -
  define srt where "srt = sort_key (\<lambda>c. (\<not> ck_preferred c, ck_priority c)) ready"
  define rest where "rest = drop (length (takeWhile ck_preferred srt)) srt"
  have rest: "rest = dropWhile ck_preferred srt" by (simp add: rest_def dropWhile_eq_drop)
  have "sorted (map (\<lambda>c. (\<not> ck_preferred c, ck_priority c)) rest)"
    unfolding rest_def srt_def drop_map [symmetric] by (intro sorted_wrt_drop) simp
  then have s: "sorted_wrt (\<lambda>a b. (\<not> ck_preferred a, ck_priority a) \<le> (\<not> ck_preferred b, ck_priority b)) rest"
    by (simp add: sorted_wrt_map)
  have np: "\<not> ck_preferred c" if "c \<in> set rest" for c
  proof (cases rest)
    case (Cons d ds)
    then have "\<not> ck_preferred d" using hd_dropWhile [of ck_preferred srt] by (simp add: rest)
    with that s Cons show ?thesis by (auto simp: less_eq_prod_def)
  qed (use that in simp)
  have used: "ck_used_tokens c = 0" if "c \<in> set rest" for c
    using that assms set_drop_subset [of _ srt] by (auto simp: rest_def srt_def)
  have "sorted_wrt (\<lambda>a b. (ck_used_tokens a, ck_priority a) \<le> (ck_used_tokens b, ck_priority b)) rest"
    by (rule sorted_wrt_mono_rel [OF _ s]) (use np used in \<open>auto simp: less_eq_prod_def\<close>)
  then have "sort_key (\<lambda>c. (ck_used_tokens c, ck_priority c)) rest = rest"
    by (intro sort_key_id_if_sorted) (simp add: sorted_wrt_map)
  then show ?thesis by (simp add: sort_ready_def Let_def rest_def srt_def)
qed

lemma ready_order_unused:
  assumes "\<forall>c \<in> set (rq_candidates rq). ck_used_tokens c = 0"
  shows "plan_route (rq\<lparr>rq_strategy := KeysLeastUsed\<rparr>) = plan_route (rq\<lparr>rq_strategy := KeysOrdered\<rparr>)"
proof -
  have "\<forall>c \<in> set (filter selectable cs). ck_used_tokens c = 0" if "mset cs = mset (rq_candidates rq)" for cs
    using that assms by (metis filter_is_subset mset_eq_setD subsetD)
  then have "sort_ready (filter selectable cs) KeysLeastUsed r = sort_ready (filter selectable cs) KeysOrdered r"
    if "mset cs = mset (rq_candidates rq)" for cs r
    using that sort_ready_unused by blast
  then show ?thesis by (simp add: plan_route_def Let_def split: option.split)
qed

section \<open>Properties\<close>

text \<open>C13: A prepared member offers exactly the Keys that can answer: the Keys of its Provider that
  are configured for the member's model and that the account table shows as ready at this moment.
  There is at least one of them, and none when the gateway has spent its token ceiling.\<close>
theorem prepared_keys_exact:
  assumes "prepare_member build sn rx accounts resolved s = (s', Inr m)"
  shows "\<exists>up. snapshot_upstream sn (rv_profile resolved) = Some up \<and> under_ceiling sn \<and> pm_keys m \<noteq> [] \<and>
     set (map (cd_id \<circ> snd) (pm_keys m)) =
     {cd_id c |c. c \<in> set (up_credentials up) \<and> in_scope up (rv_model resolved) c \<and>
        visibility_at (account_of accounts (rv_profile resolved) (cd_id c) (rx_now rx)) (rx_now rx) = KeyReady}"
  using prepared_keys [OF assms] by blast

definition sample_key :: credential_ref where
  "sample_key = \<lparr>cd_id = lit ''k'', cd_display_name = lit ''K'', cd_models = [], cd_proxy_url = None\<rparr>"

definition sample_chat_snapshot :: gateway_snapshot where
  "sample_chat_snapshot = \<lparr>sn_settings = sample_settings,
     sn_upstreams = [sample_upstream\<lparr>up_endpoints := [\<lparr>ep_id = lit ''e'', ep_kind = EndpointApi, ep_url = lit ''https://p'',
         ep_wire_protocol_id = Some (wire_protocol_id ChatCompletions)\<rparr>], up_credentials := [sample_key]\<rparr>],
     sn_gateway_used_tokens = 0, sn_groups = []\<rparr>"

definition sample_context :: request_context where
  "sample_context = \<lparr>rx_inbound = ChatCompletions, rx_request = for_model (lit ''m''), rx_body = JObject [],
     rx_pinned = None, rx_now = 0, rx_tool_names = \<lparr>original_to_wire = Map.empty, wire_to_original = Map.empty\<rparr>\<rparr>"

definition sample_member :: resolved_member where
  "sample_member = \<lparr>rv_profile = lit ''p'', rv_model = lit ''m'', rv_reasoning_effort = None,
     rv_first_token_timeout_ms = None, rv_key_strategy = KeysOrdered\<rparr>"

abbreviation no_codec :: codec where
  "no_codec \<equiv> \<lambda>_ _ _ _. Inl UnsupportedImageReference"

abbreviation no_lessons :: lesson_book where
  "no_lessons \<equiv> \<lparr>lb_cache = \<lambda>_. None, lb_stored = \<lambda>_. None\<rparr>"

lemma sample_member_prepared:
  "\<exists>m. prepare_member no_codec sample_chat_snapshot sample_context Map.empty sample_member (no_lessons, 0) = ((no_lessons, 1), Inr m)"
proof -
  have up: "snapshot_upstream sample_chat_snapshot (lit ''p'') = Some (hd (sn_upstreams sample_chat_snapshot))"
    by (simp add: snapshot_upstream_def sample_chat_snapshot_def sample_upstream_def)
  have ep: "endpoint_for (hd (sn_upstreams sample_chat_snapshot)) (wire_protocol_id ChatCompletions) \<noteq> None"
      "untyped_endpoint (hd (sn_upstreams sample_chat_snapshot)) = None"
    by (simp_all add: endpoint_for_def untyped_endpoint_def sample_chat_snapshot_def sample_upstream_def)
  let ?cs = "member_candidates sample_chat_snapshot Map.empty 0 (hd (sn_upstreams sample_chat_snapshot)) (lit ''m'')"
  have cs: "?cs = [(candidate_new (lit ''p'') (lit ''k'') 0, sample_key)]"
    by (simp add: member_candidates_def in_scope_def key_candidate_def sample_chat_snapshot_def sample_upstream_def sample_key_def
        sample_settings_def gateway_policy_default_def account_of_def account_ready_def visibility_at_def Let_def enumerate_eq_zip)
  have "selectable (candidate_new (lit ''p'') (lit ''k'') 0)"
    by (simp add: selectable_def over_token_limit_def candidate_new_def)
  then have att: "attemptable (member_key_plan sample_context sample_member 0 ?cs) \<noteq> []"
    unfolding cs using mset_ready_order by (simp add: member_key_plan_def flip: mset_zero_iff)
  have "\<exists>e. member_target sample_chat_snapshot sample_context (hd (sn_upstreams sample_chat_snapshot)) None =
      Inr (\<lparr>tp_target = ChatCompletions, tp_passthrough = True, tp_alternates = []\<rparr>, e)"
    using ep by (auto simp: member_target_def choose_target_def supports_def endpoint_for_call_def sample_context_def for_model_def
        has_vendor_file_image_def ok_or_def)
  then obtain t where t: "member_target sample_chat_snapshot sample_context (hd (sn_upstreams sample_chat_snapshot)) None = Inr t"
      "tp_target (fst t) = ChatCompletions" "tp_passthrough (fst t)" "tp_alternates (fst t) = []" by fastforce
  have body: "\<exists>b. build_member_body no_codec ChatCompletions True ChatCompletions (JObject []) r r mo st = Inr b" for r mo st
    by (simp add: build_member_body_def Let_def)
  have "\<exists>m. assemble_member no_codec sample_chat_snapshot sample_context sample_member (hd (sn_upstreams sample_chat_snapshot))
      (fst t) (snd t) ?cs (member_key_plan sample_context sample_member 0 ?cs) = Inr m"
    using att t body [of "for_model (lit ''m'')" "lit ''m''" False]
    by (auto simp: assemble_member_def Let_def and_then_Inr sample_context_def sample_member_def member_request_def for_model_def
        simp del: attemptable_plan lit_simps)
  then show ?thesis
    using up ep(2) t(1) cs
    by (cases t) (auto simp: prepare_member_def sample_member_def sample_context_def next_counter_def U64_MAX_def Let_def simp del: lit_simps)
qed

theorem prepared_keys_exact_witness:
  "\<exists>up m. prepare_member no_codec sample_chat_snapshot sample_context Map.empty sample_member (no_lessons, 0) = ((no_lessons, 1), Inr m) \<and>
     snapshot_upstream sample_chat_snapshot (rv_profile sample_member) = Some up \<and> under_ceiling sample_chat_snapshot \<and> pm_keys m \<noteq> [] \<and>
     set (map (cd_id \<circ> snd) (pm_keys m)) =
     {cd_id c |c. c \<in> set (up_credentials up) \<and> in_scope up (rv_model sample_member) c \<and>
        visibility_at (account_of Map.empty (rv_profile sample_member) (cd_id c) (rx_now sample_context)) (rx_now sample_context) = KeyReady}"
  using sample_member_prepared prepared_keys_exact [of no_codec sample_chat_snapshot sample_context Map.empty sample_member "(no_lessons, 0)" "(no_lessons, 1)"]
  by blast

text \<open>A request that \<open>prepare\<close> refuses, for whatever reason, holds no probe slot: every group's
  slot is taken afterwards exactly when it was taken before.\<close>
lemma refused_request_holds_no_probe:
  assumes "prepare build hash sn inc gw = (gw', Inl e)"
  shows "probing gw' g = probing gw g"
proof -
  have [simp]: "probing (gw\<lparr>gw_member_rotation := r\<rparr>) g = probing gw g" for r by (simp add: probing_def)
  show ?thesis
  proof (cases rule: prepare_cases [of build hash sn inc gw])
    case (resolved r members d)
    from prepare_call_probing [OF resolved(2) [symmetric, unfolded assms]] show ?thesis by simp
  qed (use assms in auto)
qed

definition sample_incoming :: incoming where
  "sample_incoming = \<lparr>in_inbound = ChatCompletions, in_request = for_model (lit ''gpt''), in_body = JObject [],
     in_agent_id = None, in_headers = (\<lambda>_. None), in_conversation = None,
     in_classifier = \<lparr>co_intent = None, co_effort = None, co_error = None\<rparr>, in_request_id = lit ''r'', in_now = 0,
     in_weekday = 1, in_minute = 0\<rparr>"

definition sample_gateway :: gateway_state where
  "sample_gateway = \<lparr>gw_service = degraded_service, gw_accounts = Map.empty, gw_windows = Map.empty, gw_pins = [],
     gw_lessons = no_lessons, gw_rotation = 0, gw_member_rotation = 0, gw_inflight = [], gw_latency = [], gw_asks = [],
     gw_routes = [], gw_ledger = []\<rparr>"

lemma sample_refused: "\<exists>e. prepare no_codec (\<lambda>_. 0) sample_chat_snapshot sample_incoming sample_gateway = (sample_gateway, Inl e)"
proof -
  have "route_group_model_ref (lit ''gpt'') = None" by (simp add: route_group_model_ref_def ROUTE_GROUP_MODEL_PREFIX_def)
  then have "group_for_model sample_chat_snapshot (lit ''gpt'') = None" "request_group sample_chat_snapshot (for_model (lit ''gpt'')) = None"
    by (simp_all add: group_for_model_def request_group_def resolved_group_id_def for_model_def del: lit_simps)
  then show ?thesis
    by (simp add: prepare_def resolve_request_def resolve_members_def token_ceiling_def sample_incoming_def sample_gateway_def
        sample_chat_snapshot_def sample_settings_def gateway_policy_default_def for_model_def Let_def del: lit_simps)
qed

lemma refused_request_holds_no_probe_witness:
  "probing (fst (prepare no_codec (\<lambda>_. 0) sample_chat_snapshot sample_incoming sample_gateway)) (lit ''g'') = probing sample_gateway (lit ''g'')"
  using sample_refused refused_request_holds_no_probe [of no_codec "\<lambda>_. 0" sample_chat_snapshot sample_incoming sample_gateway]
  by (metis fst_conv)

text \<open>The order the user gave a group is a preference and not a filter: whatever rule matches and
  whatever the conversation is pinned to, the members a request may call are exactly the ones the
  group's strategy planned, and a pinned Provider among them is called first.\<close>
lemma resolved_members_complete:
  assumes "resolve_members sn request pinned ctx intent forced observed rotation = (rotation', Inr (ms, d))"
  shows "\<exists>g model. group_for_model sn (cr_model request) = Some (g, model) \<and>
     set (map (\<lambda>m. (rv_profile m, rv_model m)) ms) = set (map (\<lambda>m. (mf_profile m, mf_model m))
       (plan_members (gg_providers g) (gg_strategy g) rotation observed (gg_pick_member_id g))) \<and>
     (\<forall>p. pinned = Some p \<and> p \<in> set (map rv_profile ms) \<longrightarrow> rv_profile (hd ms) = p)"
proof -
  obtain g model plans where g: "group_for_model sn (cr_model request) = Some (g, model)"
    and o: "ordered_members g ctx pinned (base_decision g intent forced)
        (plan_members (gg_providers g) (gg_strategy g) rotation observed (gg_pick_member_id g)) = Inr (plans, d)"
    and ms: "map rv_profile ms = map mf_profile plans"
    and pairs: "map (\<lambda>m. (rv_profile m, rv_model m)) ms = map (\<lambda>m. (mf_profile m, mf_model m)) plans"
    using assms by (auto simp: resolve_members_def and_then_Inr split: option.splits if_splits)
  let ?pl = "plan_members (gg_providers g) (gg_strategy g) rotation observed (gg_pick_member_id g)"
  obtain base where base: "plans = hoist_pinned pinned mf_profile base"
    "set (map (\<lambda>m. (mf_profile m, mf_model m)) base) = set (map (\<lambda>m. (mf_profile m, mf_model m)) ?pl)"
  proof (cases "first_matching_rule (gg_rules g) ctx")
    case None
    then show ?thesis using o that by (auto simp: ordered_members_def)
  next
    case (Some ir)
    then obtain i rule where "first_matching_rule (gg_rules g) ctx = Some (i, rule)" by (cases ir) auto
    then have "plans = hoist_pinned pinned mf_profile (force_effort (rr_use_effort rule) (reorder_for_rule rule ?pl))"
      using o by (auto simp: ordered_members_def split: if_splits)
    moreover have "map (\<lambda>m. (mf_profile m, mf_model m)) (force_effort e xs) = map (\<lambda>m. (mf_profile m, mf_model m)) xs" for e xs
      by (cases e; cases xs) auto
    ultimately show ?thesis using that [of "force_effort (rr_use_effort rule) (reorder_for_rule rule ?pl)"]
      set_reorder_for_rule [of rule ?pl] by (simp only: set_map)
  qed
  have "set plans = set base" using base(1) pinned_order.set_keeps by metis
  then have "set (map (\<lambda>m. (rv_profile m, rv_model m)) ms) = set (map (\<lambda>m. (mf_profile m, mf_model m)) ?pl)"
    using base(2) pairs by (metis list.set_map)
  moreover have "rv_profile (hd ms) = p" if "pinned = Some p" "p \<in> set (map rv_profile ms)" for p
  proof -
    have "p \<in> set (map mf_profile base)" using that(2) ms \<open>set plans = set base\<close> by (metis list.set_map)
    then obtain x where "x \<in> set base" "mf_profile x = p" by auto
    then have "mf_profile (hd plans) = p" using hoist_pinned_hd [of x base mf_profile p] base(1) that(1) by simp
    moreover have "ms \<noteq> []" "plans \<noteq> []" using that(2) ms by auto
    ultimately show ?thesis using ms by (metis hd_map)
  qed
  ultimately show ?thesis using g by blast
qed

lemma sample_resolves:
  "\<exists>rotation' ms d. resolve_members sample_snapshot (for_model (lit ''group/r1/opus'')) (Some (lit ''p2''))
     (route_rule_context 1 0 (for_model []) None (\<lambda>_. None) None) None None [] 0 = (rotation', Inr (ms, d))"
proof -
  obtain g where g: "group_of_route sample_profiles sample_group = Some g" "gg_rules g = []" "gg_providers g \<noteq> []"
      "map gm_model (gg_models g) = [lit ''opus'']" "gg_group_id g = lit ''r1''"
    by (simp add: group_of_route_def served_members_def member_ref_def enabled_members_def sample_profiles_def sample_group_def
        member_new_def agent_model_def member_is_served_def map_filter_simps Let_def trim_def trim_where_def is_whitespace_def)
  then obtain m where "m \<in> set (gg_models g)" "gm_model m = lit ''opus''" by (cases "gg_models g") auto
  moreover have "routes_ok [sample_group]" "via_gateway (mo_kind sample_group)"
    by (simp_all add: routes_ok_def sample_group_def trimmed_iff is_whitespace_def via_gateway_def)
  ultimately have "group_for_model sample_snapshot (served_model_id g (lit ''opus'')) = Some (g, lit ''opus'')"
    using group_for_published_model [of "[sample_group]" sample_group sample_profiles g m sample_settings Map.empty Map.empty 0] g(1) by simp
  moreover have "served_model_id g (lit ''opus'') = lit ''group/r1/opus''"
    by (simp add: served_model_id_def g(5) ROUTE_GROUP_MODEL_PREFIX_def)
  ultimately show ?thesis
    using g(2,3) by (simp add: resolve_members_def ordered_members_def first_matching_rule_def for_model_def del: lit_simps)
qed

lemma resolved_members_complete_witness:
  "\<exists>rotation' ms d g model. resolve_members sample_snapshot (for_model (lit ''group/r1/opus'')) (Some (lit ''p2''))
     (route_rule_context 1 0 (for_model []) None (\<lambda>_. None) None) None None [] 0 = (rotation', Inr (ms, d)) \<and>
     group_for_model sample_snapshot (cr_model (for_model (lit ''group/r1/opus''))) = Some (g, model) \<and>
     set (map (\<lambda>m. (rv_profile m, rv_model m)) ms) = set (map (\<lambda>m. (mf_profile m, mf_model m))
       (plan_members (gg_providers g) (gg_strategy g) 0 [] (gg_pick_member_id g)))"
  using sample_resolves resolved_members_complete
  by (metis (no_types, lifting))

text \<open>A group's own token ceiling does not replace the gateway's: once the gateway has spent its
  ceiling no request is prepared, however large a ceiling the request's group declares.\<close>
lemma gateway_ceiling_always_applies:
  assumes "gp_token_limit (gs_policy (sn_settings sn)) = Some l" and "tl_tokens l \<le> sn_gateway_used_tokens sn"
  shows "\<exists>gw' e. prepare build hash sn inc gw = (gw', Inl e)"
proof (rule ccontr)
  assume "\<not> ?thesis"
  then obtain gw' pc where p: "prepare build hash sn inc gw = (gw', Inr pc)"
    by (metis old.sum.exhaust surj_pair)
  have "pc_members pc \<noteq> []"
  proof (cases rule: prepare_cases [of build hash sn inc gw])
    case (resolved r members d)
    with p show ?thesis by (auto simp: prepare_call_def Let_def split: if_splits prod.splits sum.splits)
  qed (use p in simp_all)
  then obtain m where "m \<in> set (pc_members pc)" by (cases "pc_members pc") auto
  then obtain r rx t t' where "prepare_member build sn rx (gw_accounts gw) r t = (t', Inr m)"
    using prepare_members_of_call [OF p] by blast
  from prepared_keys [OF this] have "under_ceiling sn" by blast
  with assms show False by (simp add: under_ceiling_def)
qed

lemma gateway_ceiling_always_applies_witness:
  "\<exists>gw' e. prepare no_codec (\<lambda>_. 0) (sample_chat_snapshot\<lparr>sn_settings := sample_settings\<lparr>gs_policy := gateway_policy_default
       \<lparr>gp_token_limit := Some \<lparr>tl_window = Day, tl_tokens = 10\<rparr>\<rparr>\<rparr>, sn_gateway_used_tokens := 10\<rparr>)
     sample_incoming sample_gateway = (gw', Inl e)"
  by (rule gateway_ceiling_always_applies [where l = "\<lparr>tl_window = Day, tl_tokens = 10\<rparr>"]) simp_all

text \<open>Spreading Keys by use has no effect: a member whose group asks for the least used Key is
  prepared exactly like one whose group asks for the configured order, because the candidates are
  built without their usage.\<close>
lemma least_used_is_plain_order:
  "prepare_member build sn rx accounts (r\<lparr>rv_key_strategy := KeysLeastUsed\<rparr>) s =
   prepare_member build sn rx accounts (r\<lparr>rv_key_strategy := KeysOrdered\<rparr>) s"
proof -
  have "member_key_plan rx (r\<lparr>rv_key_strategy := KeysLeastUsed\<rparr>) rot (member_candidates sn accounts now up model) =
      member_key_plan rx (r\<lparr>rv_key_strategy := KeysOrdered\<rparr>) rot (member_candidates sn accounts now up model)" for rot now up model
  proof -
    have "\<forall>c \<in> set (map fst (member_candidates sn accounts now up model)). ck_used_tokens c = 0"
      by (auto simp: member_candidates_def)
    then show ?thesis
      using ready_order_unused [of "\<lparr>rq_candidates = map fst (member_candidates sn accounts now up model), rq_strategy = KeysOrdered,
        rq_rotation = rot, rq_pinned = (case rx_pinned rx of Some (p, c) \<Rightarrow> if p = rv_profile r then Some (p, c) else None | None \<Rightarrow> None)\<rparr>"]
      by (cases "rx_pinned rx") (simp_all add: member_key_plan_def case_prod_unfold)
  qed
  then show ?thesis
    by (cases s; cases "snapshot_upstream sn (rv_profile r)")
      (auto simp: prepare_member_def assemble_member_def Let_def split: prod.split option.split sum.split)
qed

end
