(* ===== verification/Attempt.thy ===== *)
theory Attempt
  imports Prepare
begin

text \<open>
  Sending a prepared request: \<open>open_member_attempt\<close>, \<open>decide_failover\<close>,
  \<open>remember_route_failover\<close>, \<open>open_attempt\<close> and \<open>record\<close> of
  \<open>crates/model-gateway/src/service.rs\<close>. What the outside world answers is a record of
  functions: per position of a Key the Secret it has, the limiter's verdicts (modelled in
  \<open>Limiter\<close>) and the clock, per Key and call the delay and the reply, per member the first chunk.
  The calls that leave the gateway are collected in the order they are sent. \<open>lower\<close> is
  \<open>str::to_lowercase\<close> and \<open>parse\<close> the JSON reader, as before.

  Facts: members are called in order, each at most once and none after an answer; the walk of one
  request calls only prepared Keys; refusals of the body's shape never touch a Key's account state;
  an answered guess is remembered; staying on a pinned member ends the walk; every end of a walk
  frees the probe slot.
\<close>

section \<open>The outside world of one walk\<close>

datatype secret_read = SecretFound | SecretMissing | SecretFailed ustring

datatype reply =
    SendFailed bool ustring
  | Answered nat ustring

datatype first_chunk = ChunkArrived | ChunkMissing

record member_world =
  mw_secret :: "nat \<Rightarrow> secret_read"
  mw_slot :: "nat \<Rightarrow> gateway_error option"
  mw_minute :: "nat \<Rightarrow> gateway_error option"
  mw_send :: "nat \<Rightarrow> nat \<Rightarrow> nat \<times> reply"
  mw_clock :: "nat \<Rightarrow> nat \<Rightarrow> int"
  mw_first :: "nat \<times> first_chunk"
  mw_listening :: bool
  mw_prompt_id :: request_id
  mw_answer :: "failover_answer option"
  mw_started_at :: int
  mw_done_at :: int

record outbound =
  ob_profile :: profile_id
  ob_credential :: request_id
  ob_target :: wire_protocol
  ob_url :: ustring
  ob_body :: json

record walk =
  wk_accounts :: account_store
  wk_lessons :: lesson_book
  wk_attempts :: "(request_id \<times> failure_kind) list"
  wk_sent :: "outbound list"

text \<open>The settings and the two library functions one walk needs.\<close>

record walk_config =
  wc_stream :: bool
  wc_requested_model :: ustring
  wc_cooldown_overrides :: "(ustring \<times> nat) list"
  wc_lower :: "ustring \<Rightarrow> ustring"
  wc_parse :: "ustring \<Rightarrow> json option"

section \<open>One member\<close>

datatype call_end =
    CallAnswered wire_protocol bool
  | CallRefused gateway_error
  | CallAborted gateway_error

definition is_success :: "nat \<Rightarrow> bool" where
  "is_success status \<longleftrightarrow> 200 \<le> status \<and> status < 300"

definition note_attempt :: "request_id \<Rightarrow> failure_kind \<Rightarrow> walk \<Rightarrow> walk" where
  "note_attempt c kind wk = wk\<lparr>wk_attempts := wk_attempts wk @ [(c, kind)]\<rparr>"

definition blame_key :: "walk_config \<Rightarrow> profile_id \<Rightarrow> request_id \<Rightarrow> failure_kind \<Rightarrow> int \<Rightarrow> walk \<Rightarrow> walk" where
  "blame_key cfg p c kind now wk =
     note_attempt c kind (wk\<lparr>wk_accounts := mark_failure (wc_cooldown_overrides cfg) (wk_accounts wk) p c kind now\<rparr>)"

definition final_body :: "prepared_member \<Rightarrow> member_call \<Rightarrow> json" where
  "final_body m call =
     (let body = apply_extra_body (pm_extra_body m) (mc_body call)
      in if pm_send_model m \<noteq> pm_model m
         then (case body of JObject kvs \<Rightarrow> JObject (obj_insert (lit ''model'') (JString (pm_send_model m)) kvs) | _ \<Rightarrow> body)
         else body)"

fun try_calls ::
    "walk_config \<Rightarrow> prepared_member \<Rightarrow> request_id \<Rightarrow> bool \<Rightarrow> (nat \<Rightarrow> nat \<times> reply) \<Rightarrow> (nat \<Rightarrow> int) \<Rightarrow> nat \<Rightarrow> member_call list \<Rightarrow> walk \<Rightarrow>
      walk \<times> call_end option" where
  "try_calls cfg m c guessing send clock i [] wk = (wk, None)"
| "try_calls cfg m c guessing send clock i (call # rest) wk =
     (case endpoint_url (ep_url (mc_endpoint call)) (mc_target call) (pm_send_model m) (wc_stream cfg) of
        Inl e \<Rightarrow> (wk, Some (CallAborted e))
      | Inr url \<Rightarrow>
          let wk1 = wk\<lparr>wk_sent := wk_sent wk @ [\<lparr>ob_profile = pm_profile_id m, ob_credential = c, ob_target = mc_target call,
                ob_url = url, ob_body = final_body m call\<rparr>]\<rparr>;
              (delay, answer) = send i
          in if (case pm_first_token_timeout_ms m of Some timeout \<Rightarrow> timeout < delay | None \<Rightarrow> False)
             then (note_attempt c Upstream wk1,
                   Some (CallRefused (UpstreamError 504 (pm_provider_name m @ lit '' did not answer within '' @
                     dec_string (the (pm_first_token_timeout_ms m)) @ lit '' ms''))))
             else case answer of
               SendFailed is_timeout message \<Rightarrow>
                 (blame_key cfg (pm_profile_id m) c (if is_timeout then Upstream else Proxy) (clock i) wk1,
                  Some (CallRefused (UpstreamError 502 (pm_provider_name m @ lit '': '' @ truncate_text message))))
             | Answered status body \<Rightarrow>
                 if is_success status
                 then (if guessing
                       then wk1\<lparr>wk_lessons := remember_protocol (wk_lessons wk1) (pm_profile_id m) (ep_id (mc_endpoint call)) (mc_target call)\<rparr>
                       else wk1,
                       Some (CallAnswered (mc_target call) (mc_passthrough call)))
                 else if is_protocol_mismatch (wc_lower cfg) status body \<or> status = 404 \<and> rest \<noteq> []
                 then if \<not> guessing
                      then (note_attempt c Other wk1,
                            Some (CallRefused (TranslationFailed (wire_protocol_id (mc_target call)) status (upstream_message (wc_parse cfg) body))))
                      else if rest \<noteq> []
                      then try_calls cfg m c guessing send clock (Suc i) rest (note_attempt c Other wk1)
                      else (note_attempt c Other wk1,
                            Some (CallRefused (ProtocolMismatch (wire_protocol_id (mc_target call)) status (upstream_message (wc_parse cfg) body))))
                 else (blame_key cfg (pm_profile_id m) c (classify_failure (wc_lower cfg) status body) (clock i) wk1,
                       Some (CallRefused (UpstreamError status (upstream_message (wc_parse cfg) body)))))"

definition member_calls :: "prepared_member \<Rightarrow> member_call list" where
  "member_calls m = \<lparr>mc_target = pm_target m, mc_passthrough = pm_passthrough m, mc_endpoint = pm_endpoint m, mc_body = pm_body m\<rparr>
     # pm_alternates m"

definition no_usable_key :: "prepared_member \<Rightarrow> ustring" where
  "no_usable_key m = lit ''`'' @ pm_provider_name m @ lit ''` has no usable Key''"

fun try_keys ::
    "walk_config \<Rightarrow> prepared_member \<Rightarrow> member_world \<Rightarrow> nat \<Rightarrow> request_id list \<Rightarrow> gateway_error option \<Rightarrow> walk \<Rightarrow>
      walk \<times> (gateway_error + wire_protocol \<times> bool \<times> request_id)" where
  "try_keys cfg m w k [] err wk =
     (wk, Inl (case err of Some e \<Rightarrow> e | None \<Rightarrow> AllKeysCooling (wc_requested_model cfg) None))"
| "try_keys cfg m w k (c # cs) err wk =
     (case mw_secret w k of
        SecretMissing \<Rightarrow> try_keys cfg m w (Suc k) cs (Some (NotConfigured (no_usable_key m))) (note_attempt c Auth wk)
      | SecretFailed code \<Rightarrow>
          try_keys cfg m w (Suc k) cs (Some (NotConfigured (no_usable_key m @ lit '': '' @ code))) (note_attempt c Auth wk)
      | SecretFound \<Rightarrow>
          (case mw_slot w k of
             Some e \<Rightarrow> try_keys cfg m w (Suc k) cs (Some e) (note_attempt c Rate wk)
           | None \<Rightarrow>
               (case mw_minute w k of
                  Some e \<Rightarrow> try_keys cfg m w (Suc k) cs (Some e) (note_attempt c Rate wk)
                | None \<Rightarrow>
                    (case try_calls cfg m c (1 < length (member_calls m)) (mw_send w k) (mw_clock w k) 0 (member_calls m) wk of
                       (wk', Some (CallAnswered target pass)) \<Rightarrow> (wk', Inr (target, pass, c))
                     | (wk', Some (CallAborted e)) \<Rightarrow> (wk', Inl e)
                     | (wk', Some (CallRefused e)) \<Rightarrow> try_keys cfg m w (Suc k) cs (Some e) wk'
                     | (wk', None) \<Rightarrow> try_keys cfg m w (Suc k) cs err wk'))))"

definition open_member_attempt ::
    "walk_config \<Rightarrow> prepared_member \<Rightarrow> member_world \<Rightarrow> walk \<Rightarrow> walk \<times> (gateway_error + wire_protocol \<times> bool \<times> request_id)" where
  "open_member_attempt cfg m w wk = try_keys cfg m w 0 (map (ck_credential \<circ> fst) (pm_keys m)) None wk"

section \<open>Recording a finished request\<close>

record request_result =
  ro_kind :: request_outcome
  ro_profile :: "profile_id option"
  ro_target :: "wire_protocol option"
  ro_skipped_cooling :: nat
  ro_skipped_over_limit :: nat
  ro_credential :: "request_id option"
  ro_status :: "nat option"
  ro_usage :: canonical_usage
  ro_latency_ms :: "int option"
  ro_served :: "ustring option"
  ro_failed_attempts :: "(request_id \<times> failure_kind) list"
  ro_skipped_members :: "(profile_id \<times> ustring \<times> failure_kind) list"
  ro_error_code :: "ustring option"
  ro_error_message :: "ustring option"

definition first_member :: "prepared_call \<Rightarrow> prepared_member option" where
  "first_member pc = (case pc_members pc of [] \<Rightarrow> None | m # _ \<Rightarrow> Some m)"

definition may_try_next :: "prepared_call \<Rightarrow> nat \<Rightarrow> bool" where
  "may_try_next pc i \<longleftrightarrow> i + 1 < length (pc_members pc)"

definition answered_profile :: "prepared_call \<Rightarrow> request_result \<Rightarrow> profile_id option" where
  "answered_profile pc r =
     (case ro_profile r of Some p \<Rightarrow> Some p | None \<Rightarrow> map_option pm_profile_id (first_member pc))"

definition ledger_entry :: "prepared_call \<Rightarrow> request_result \<Rightarrow> int \<Rightarrow> ledger_row" where
  "ledger_entry pc r now =
     \<lparr>lr_request_id = pc_request_id pc, lr_agent_id = pc_agent_id pc, lr_profile = answered_profile pc r, lr_credential = ro_credential r,
      lr_model_requested = pc_requested_model pc, lr_model_served = ro_served r,
      lr_wire_in = wire_protocol_id (pc_inbound pc),
      lr_wire_out = wire_protocol_id (case ro_target r of
          Some t \<Rightarrow> t | None \<Rightarrow> (case first_member pc of Some m \<Rightarrow> pm_target m | None \<Rightarrow> ChatCompletions)),
      lr_status = ro_status r, lr_usage = ro_usage r, lr_latency_ms = ro_latency_ms r, lr_outcome = ro_kind r,
      lr_failed_attempts = ro_failed_attempts r, lr_skipped_members = ro_skipped_members r,
      lr_error_code = ro_error_code r, lr_error_message = ro_error_message r,
      lr_decision = (if is_unremarkable (pc_route_decision pc) then None else Some (pc_route_decision pc)),
      lr_skipped_cooling = ro_skipped_cooling r, lr_skipped_over_limit = ro_skipped_over_limit r, lr_created_at_ms = now\<rparr>"

definition spend_tokens :: "token_limit option \<Rightarrow> profile_id option \<Rightarrow> nat \<Rightarrow> int \<Rightarrow> window_store \<Rightarrow> window_store" where
  "spend_tokens limit profile tokens now ws =
     (case (profile, limit) of
        (Some p, Some l) \<Rightarrow> if 0 < tokens then window_record ws p (tl_window l) tokens now else ws
      | _ \<Rightarrow> ws)"

definition record_request :: "token_limit option \<Rightarrow> prepared_call \<Rightarrow> request_result \<Rightarrow> int \<Rightarrow> gateway_state \<Rightarrow> gateway_state" where
  "record_request limit pc r now gw =
     (let gw1 = (case pc_group_id pc of Some g \<Rightarrow> release_probe gw g (pc_probe pc) | None \<Rightarrow> gw)
      in gw1\<lparr>gw_inflight := note_finished (gw_inflight gw1) (pc_request_id pc),
             gw_latency := (case (ro_profile r, ro_latency_ms r) of
                 (Some p, Some ms) \<Rightarrow> note_latency (gw_latency gw1) p ms | _ \<Rightarrow> gw_latency gw1),
             gw_ledger := ledger_entry pc r now # gw_ledger gw1,
             gw_windows := spend_tokens limit (answered_profile pc r) (usage_total (ro_usage r)) now (gw_windows gw1)\<rparr>)"

section \<open>Leaving a pinned member\<close>

datatype failover_decision = SwitchMember bool | StayOnMember

definition remember_route_failover :: "(ustring \<times> model_route) list \<Rightarrow> ustring \<Rightarrow> int \<Rightarrow> (ustring \<times> model_route) list" where
  "remember_route_failover routes rid now =
     (if rid = [] then routes
      else case map_of routes rid of
        None \<Rightarrow> routes
      | Some r \<Rightarrow>
          if mo_failover r = FailoverAuto then routes
          else AList.update rid (r\<lparr>mo_failover := FailoverAuto, mo_revision := sat_add_i64 (mo_revision r) 1, mo_updated_at_ms := now\<rparr>) routes)"

definition decide_failover :: "prepared_call \<Rightarrow> gateway_error \<Rightarrow> member_world \<Rightarrow> gateway_state \<Rightarrow> gateway_state \<times> failover_decision" where
  "decide_failover pc e w gw =
     (if \<not> blames_upstream e then (gw, SwitchMember False)
      else if pc_failover pc = FailoverAuto then (gw, SwitchMember True)
      else case ask_failover (gw_asks gw) (mw_prompt_id w) (mw_listening w) (mw_answer w) of
          (asks, None) \<Rightarrow> (gw\<lparr>gw_asks := asks\<rparr>, SwitchMember True)
        | (asks, Some AnswerStay) \<Rightarrow> (gw\<lparr>gw_asks := asks\<rparr>, StayOnMember)
        | (asks, Some AnswerAlwaysSwitch) \<Rightarrow>
            (gw\<lparr>gw_asks := asks, gw_routes := remember_route_failover (gw_routes gw)
                (case pc_group_id pc of Some g \<Rightarrow> g | None \<Rightarrow> []) (mw_done_at w)\<rparr>, SwitchMember True)
        | (asks, Some AnswerSwitch) \<Rightarrow> (gw\<lparr>gw_asks := asks\<rparr>, SwitchMember True))"

section \<open>The walk over the members\<close>

record attempt_state =
  at_gateway :: gateway_state
  at_attempts :: "(request_id \<times> failure_kind) list"
  at_skipped :: "(profile_id \<times> ustring \<times> failure_kind) list"
  at_sent :: "outbound list"

record upstream_attempt =
  ua_target :: wire_protocol
  ua_passthrough :: bool
  ua_profile_id :: profile_id
  ua_key :: request_id

definition announce :: "prepared_call \<Rightarrow> nat \<Rightarrow> prepared_member \<Rightarrow> int \<Rightarrow> gateway_state \<Rightarrow> gateway_state" where
  "announce pc i m now gw =
     gw\<lparr>gw_inflight := note_inflight (gw_inflight gw)
       \<lparr>if_request_id = pc_request_id pc, if_agent_id = pc_agent_id pc, if_model_route_id = pc_group_id pc,
        if_requested_model = pc_requested_model pc, if_profile_id = pm_profile_id m, if_attempt = i + 1,
        if_credential_id = (case pm_keys m of [] \<Rightarrow> None | (k, c) # _ \<Rightarrow> Some (cd_id c)),
        if_wire_in = wire_protocol_id (pc_inbound pc), if_wire_protocol_id = wire_protocol_id (pm_target m),
        if_started_at_ms = now, if_first_token_at_ms = None\<rparr>\<rparr>"

definition skip_member :: "prepared_member \<Rightarrow> failure_kind \<Rightarrow> attempt_state \<Rightarrow> attempt_state" where
  "skip_member m kind s = s\<lparr>at_skipped := at_skipped s @ [(pm_profile_id m, wire_protocol_id (pm_target m), kind)]\<rparr>"

definition call_member :: "walk_config \<Rightarrow> prepared_call \<Rightarrow> nat \<Rightarrow> prepared_member \<Rightarrow> member_world \<Rightarrow> attempt_state \<Rightarrow>
    attempt_state \<times> (gateway_error + wire_protocol \<times> bool \<times> request_id)" where
  "call_member cfg pc i m w s =
     (let gw = announce pc i m (mw_started_at w) (at_gateway s)
      in case open_member_attempt cfg m w \<lparr>wk_accounts = gw_accounts gw, wk_lessons = gw_lessons gw,
                 wk_attempts = at_attempts s, wk_sent = at_sent s\<rparr> of
           (wk, r) \<Rightarrow> (s\<lparr>at_gateway := gw\<lparr>gw_accounts := wk_accounts wk, gw_lessons := wk_lessons wk\<rparr>,
                        at_attempts := wk_attempts wk, at_sent := wk_sent wk\<rparr>, r))"

text \<open>\<open>None\<close> when the member may be used; the error when its first token did not arrive in time.\<close>

definition first_token_error :: "walk_config \<Rightarrow> bool \<Rightarrow> prepared_member \<Rightarrow> member_world \<Rightarrow> gateway_error option" where
  "first_token_error cfg later m w =
     (if wc_stream cfg \<and> later
      then (case pm_first_token_timeout_ms m of
          None \<Rightarrow> None
        | Some timeout \<Rightarrow>
            if timeout < fst (mw_first w) then Some (UpstreamError 504 (lit ''the member produced no first token in time''))
            else if snd (mw_first w) = ChunkMissing
            then Some (UpstreamError 502 (lit ''the upstream reply ended before its first token''))
            else None)
      else None)"

definition answer_state :: "prepared_call \<Rightarrow> prepared_member \<Rightarrow> request_id \<Rightarrow> int \<Rightarrow> gateway_state \<Rightarrow> gateway_state" where
  "answer_state pc m c now gw =
     gw\<lparr>gw_service := (case pc_group_id pc of Some g \<Rightarrow> note_success (gw_service gw) g now | None \<Rightarrow> gw_service gw),
        gw_accounts := clear_failure (gw_accounts gw) (pm_profile_id m) c now\<rparr>"

fun walk_members ::
    "walk_config \<Rightarrow> prepared_call \<Rightarrow> (nat \<Rightarrow> member_world) \<Rightarrow> nat \<Rightarrow> prepared_member list \<Rightarrow> gateway_error option \<Rightarrow> attempt_state \<Rightarrow>
      attempt_state \<times> (gateway_error option + upstream_attempt)" where
  "walk_members cfg pc ws i [] err s = (s, Inl err)"
| "walk_members cfg pc ws i (m # rest) err s =
     (case call_member cfg pc i m (ws i) s of
        (s1, Inr (target, pass, c)) \<Rightarrow>
          (case first_token_error cfg (rest \<noteq> []) m (ws i) of
             Some e \<Rightarrow> walk_members cfg pc ws (Suc i) rest (Some e) (skip_member m Upstream s1)
           | None \<Rightarrow> (s1\<lparr>at_gateway := answer_state pc m c (mw_done_at (ws i)) (at_gateway s1)\<rparr>,
                     Inr \<lparr>ua_target = target, ua_passthrough = pass, ua_profile_id = pm_profile_id m, ua_key = c\<rparr>))
      | (s1, Inl e) \<Rightarrow>
          let s2 = skip_member m (member_failure_kind (wc_lower cfg) e) s1 in
          if rest = [] then (s2, Inl (Some e))
          else if i = 0 \<and> pc_pinned pc
          then (case decide_failover pc e (ws i) (at_gateway s2) of
              (gw, StayOnMember) \<Rightarrow> (s2\<lparr>at_gateway := gw\<rparr>, Inl (Some e))
            | (gw, SwitchMember _) \<Rightarrow> walk_members cfg pc ws (Suc i) rest (Some e) (s2\<lparr>at_gateway := gw\<rparr>))
          else walk_members cfg pc ws (Suc i) rest (Some e) s2)"

definition failed_result :: "prepared_call \<Rightarrow> gateway_error \<Rightarrow> attempt_state \<Rightarrow> request_result" where
  "failed_result pc e s =
     \<lparr>ro_kind = OutcomeFailed, ro_profile = map_option pm_profile_id (first_member pc), ro_target = map_option pm_target (first_member pc),
      ro_skipped_cooling = (case first_member pc of Some m \<Rightarrow> pm_skipped_cooling m | None \<Rightarrow> 0),
      ro_skipped_over_limit = (case first_member pc of Some m \<Rightarrow> pm_skipped_over_limit m | None \<Rightarrow> 0),
      ro_credential = None, ro_status = Some (error_status e), ro_usage = usage_default, ro_latency_ms = None, ro_served = None,
      ro_failed_attempts = at_attempts s, ro_skipped_members = at_skipped s,
      ro_error_code = Some (error_code e), ro_error_message = Some (gateway_diagnostic_text (error_message e))\<rparr>"

definition walk_start :: "gateway_state \<Rightarrow> attempt_state" where
  "walk_start gw = \<lparr>at_gateway = gw, at_attempts = [], at_skipped = [], at_sent = []\<rparr>"

definition open_attempt ::
    "bool \<Rightarrow> token_limit option \<Rightarrow> walk_config \<Rightarrow> prepared_call \<Rightarrow> (nat \<Rightarrow> member_world) \<Rightarrow> int \<Rightarrow> gateway_state \<Rightarrow>
      attempt_state \<times> (gateway_error + upstream_attempt)" where
  "open_attempt shutting_down limit cfg pc ws now gw =
     (if shutting_down
      then (walk_start (release_probe gw (case pc_group_id pc of Some g \<Rightarrow> g | None \<Rightarrow> []) (pc_probe pc)),
            Inl (NotConfigured (lit ''the gateway is shutting down'')))
      else case walk_members cfg pc ws 0 (pc_members pc) None (walk_start gw) of
          (s, Inr a) \<Rightarrow> (s, Inr a)
        | (s, Inl err) \<Rightarrow>
            let e = (case err of Some e \<Rightarrow> e | None \<Rightarrow> AllKeysCooling (pc_requested_model pc) None)
            in (s\<lparr>at_gateway := record_request limit pc (failed_result pc e s) now (at_gateway s)\<rparr>, Inl e))"

section \<open>What is sent\<close>

definition sends_for :: "profile_id \<Rightarrow> request_id set \<Rightarrow> outbound list \<Rightarrow> bool" where
  "sends_for p cs os \<longleftrightarrow> (\<forall>ob \<in> set os. ob_profile ob = p \<and> ob_credential ob \<in> cs)"

lemma sends_for_simps [simp]:
  "sends_for p cs []"
  "sends_for p cs (os @ os') \<longleftrightarrow> sends_for p cs os \<and> sends_for p cs os'"
  "sends_for p cs (ob # os) \<longleftrightarrow> ob_profile ob = p \<and> ob_credential ob \<in> cs \<and> sends_for p cs os"
  by (auto simp: sends_for_def)

lemma sends_for_mono: "sends_for p cs os \<Longrightarrow> cs \<subseteq> cs' \<Longrightarrow> sends_for p cs' os"
  by (auto simp: sends_for_def)

lemma note_attempt_simps [simp]:
  "wk_sent (note_attempt c kind wk) = wk_sent wk"
  "wk_accounts (note_attempt c kind wk) = wk_accounts wk"
  "wk_lessons (note_attempt c kind wk) = wk_lessons wk"
  "wk_attempts (note_attempt c kind wk) = wk_attempts wk @ [(c, kind)]"
  by (simp_all add: note_attempt_def)

lemma blame_key_simps [simp]:
  "wk_sent (blame_key cfg p c kind now wk) = wk_sent wk"
  "wk_lessons (blame_key cfg p c kind now wk) = wk_lessons wk"
  "wk_attempts (blame_key cfg p c kind now wk) = wk_attempts wk @ [(c, kind)]"
  "wk_accounts (blame_key cfg p c kind now wk) = mark_failure (wc_cooldown_overrides cfg) (wk_accounts wk) p c kind now"
  by (simp_all add: blame_key_def)

lemma try_calls_sent:
  "try_calls cfg m c guessing send clock i calls wk = (wk', r) \<Longrightarrow>
     \<exists>os. wk_sent wk' = wk_sent wk @ os \<and> sends_for (pm_profile_id m) {c} os"
proof (induction cfg m c guessing send clock i calls wk arbitrary: wk' r rule: try_calls.induct)
  case (2 cfg m c guessing send clock i call rest wk)
  obtain delay answer where ans: "send i = (delay, answer)" by fastforce
  show ?case
    using "2.prems" "2.IH" [OF _ refl ans [symmetric]]
    by (auto simp: Let_def ans split: sum.splits reply.splits if_splits) (fastforce split: sum.splits)+
qed simp

lemma try_keys_sent:
  "try_keys cfg m w k cs err wk = (wk', r) \<Longrightarrow>
     \<exists>os. wk_sent wk' = wk_sent wk @ os \<and> sends_for (pm_profile_id m) (set cs) os"
proof (induction cfg m w k cs err wk arbitrary: wk' r rule: try_keys.induct)
  case (2 cfg m w k c cs err wk)
  obtain wk1 q where q: "try_calls cfg m c (1 < length (member_calls m)) (mw_send w k) (mw_clock w k) 0 (member_calls m) wk = (wk1, q)"
    by fastforce
  then obtain os where os: "wk_sent wk1 = wk_sent wk @ os" "sends_for (pm_profile_id m) {c} os"
    using try_calls_sent by blast
  have os': "sends_for (pm_profile_id m) (set (c # cs)) os" using os(2) by (rule sends_for_mono) simp
  have mono: "sends_for (pm_profile_id m) (set cs) os2 \<Longrightarrow> sends_for (pm_profile_id m) (set (c # cs)) os2" for os2
    by (erule sends_for_mono) auto
  show ?case
    using "2.prems" "2.IH" q os(1) os' mono
    by (fastforce split: secret_read.splits option.splits call_end.splits)
qed simp

definition member_credentials :: "prepared_member \<Rightarrow> request_id set" where
  "member_credentials m = set (map (ck_credential \<circ> fst) (pm_keys m))"

lemma call_member_sent:
  assumes "call_member cfg pc i m w s = (s', r)"
  shows "\<exists>os. at_sent s' = at_sent s @ os \<and> sends_for (pm_profile_id m) (member_credentials m) os"
  using assms try_keys_sent
  by (fastforce simp: call_member_def open_member_attempt_def member_credentials_def Let_def split: prod.splits)

text \<open>The calls a member may get, in order: every Key with every protocol, once. What is sent is part of
  it in the same order, and the call that is answered is the last.\<close>

definition outbound_key :: "outbound \<Rightarrow> profile_id \<times> request_id \<times> wire_protocol" where
  "outbound_key ob = (ob_profile ob, ob_credential ob, ob_target ob)"

definition key_schedule :: "prepared_member \<Rightarrow> request_id \<Rightarrow> (profile_id \<times> request_id \<times> wire_protocol) list" where
  "key_schedule m c = map (\<lambda>call. (pm_profile_id m, c, mc_target call)) (member_calls m)"

definition member_schedule :: "prepared_member \<Rightarrow> (profile_id \<times> request_id \<times> wire_protocol) list" where
  "member_schedule m = concat (map (key_schedule m) (map (ck_credential \<circ> fst) (pm_keys m)))"

lemma try_calls_schedule:
  "try_calls cfg m c guessing send clock i calls wk = (wk', r) \<Longrightarrow>
     \<exists>os. wk_sent wk' = wk_sent wk @ os \<and> subseq (map outbound_key os) (map (\<lambda>call. (pm_profile_id m, c, mc_target call)) calls) \<and>
       (\<forall>target pass. r = Some (CallAnswered target pass) \<longrightarrow> os \<noteq> [] \<and> outbound_key (last os) = (pm_profile_id m, c, target))"
proof (induction calls arbitrary: i wk)
  case (Cons call rest)
  obtain delay answer where ans: "send i = (delay, answer)" by fastforce
  show ?case
  proof (cases "endpoint_url (ep_url (mc_endpoint call)) (mc_target call) (pm_send_model m) (wc_stream cfg)")
    case (Inl e)
    then show ?thesis using Cons.prems by (intro exI [of _ "[]"]) auto
  next
    case (Inr url)
    let ?ob = "\<lparr>ob_profile = pm_profile_id m, ob_credential = c, ob_target = mc_target call, ob_url = url, ob_body = final_body m call\<rparr>"
    let ?wk = "note_attempt c Other (wk\<lparr>wk_sent := wk_sent wk @ [?ob]\<rparr>)"
    have ob: "outbound_key ?ob = (pm_profile_id m, c, mc_target call)" by (simp add: outbound_key_def)
    have "wk_sent wk' = wk_sent wk @ [?ob] \<and> (\<forall>target pass. r = Some (CallAnswered target pass) \<longrightarrow> target = mc_target call) \<or>
        try_calls cfg m c guessing send clock (Suc i) rest ?wk = (wk', r)"
      using Cons.prems Inr
      by (auto simp: Let_def ans note_attempt_def blame_key_def split: reply.splits if_splits)
    then show ?thesis
    proof (elim disjE conjE)
      assume "wk_sent wk' = wk_sent wk @ [?ob]" "\<forall>target pass. r = Some (CallAnswered target pass) \<longrightarrow> target = mc_target call"
      then show ?thesis using ob by (intro exI [of _ "[?ob]"]) auto
    next
      assume "try_calls cfg m c guessing send clock (Suc i) rest ?wk = (wk', r)"
      from Cons.IH [OF this] obtain os where os: "wk_sent wk' = wk_sent wk @ ?ob # os"
        "subseq (map outbound_key os) (map (\<lambda>call. (pm_profile_id m, c, mc_target call)) rest)"
        "\<forall>target pass. r = Some (CallAnswered target pass) \<longrightarrow> os \<noteq> [] \<and> outbound_key (last os) = (pm_profile_id m, c, target)"
        by (auto simp: note_attempt_def)
      then show ?thesis using ob by (intro exI [of _ "?ob # os"]) auto
    qed
  qed
qed simp

lemma try_keys_schedule:
  "try_keys cfg m w k cs err wk = (wk', r) \<Longrightarrow>
     \<exists>os. wk_sent wk' = wk_sent wk @ os \<and> subseq (map outbound_key os) (concat (map (key_schedule m) cs)) \<and>
       (\<forall>target pass c. r = Inr (target, pass, c) \<longrightarrow> os \<noteq> [] \<and> outbound_key (last os) = (pm_profile_id m, c, target))"
proof (induction cs arbitrary: k err wk)
  case (Cons c cs)
  let ?Q = "\<lambda>wk os cs. wk_sent wk' = wk_sent wk @ os \<and> subseq (map outbound_key os) (concat (map (key_schedule m) cs)) \<and>
       (\<forall>target pass c. r = Inr (target, pass, c) \<longrightarrow> os \<noteq> [] \<and> outbound_key (last os) = (pm_profile_id m, c, target))"
  obtain wk1 q where q: "try_calls cfg m c (1 < length (member_calls m)) (mw_send w k) (mw_clock w k) 0 (member_calls m) wk = (wk1, q)"
    by fastforce
  obtain os where os: "wk_sent wk1 = wk_sent wk @ os" "subseq (map outbound_key os) (key_schedule m c)"
    "\<forall>target pass. q = Some (CallAnswered target pass) \<longrightarrow> os \<noteq> [] \<and> outbound_key (last os) = (pm_profile_id m, c, target)"
    using try_calls_schedule [OF q] by (auto simp: key_schedule_def)
  consider (passed) wk2 err2 where "wk_sent wk2 = wk_sent wk" "try_keys cfg m w (Suc k) cs err2 wk2 = (wk', r)"
    | (refused) err2 where "try_keys cfg m w (Suc k) cs err2 wk1 = (wk', r)"
    | (ended) "wk' = wk1" "\<forall>target pass c'. r = Inr (target, pass, c') \<longrightarrow> c' = c \<and> q = Some (CallAnswered target pass)"
    using Cons.prems q by (fastforce simp: note_attempt_def split: secret_read.splits option.splits call_end.splits)
  then show ?case
  proof cases
    case passed
    with Cons.IH [OF passed(2)] show ?thesis by (auto intro: list_emb_append2)
  next
    case refused
    from Cons.IH [OF this] obtain os2 where "?Q wk1 os2 cs" by blast
    with os show ?thesis by (intro exI [of _ "os @ os2"]) (auto intro: list_emb_append_mono)
  next
    case ended
    with os show ?thesis by (intro exI [of _ os]) (auto intro: subseq_drop_many list_emb_append_mono [where ys' = "[]", simplified])
  qed
qed auto

lemma call_member_schedule:
  assumes "call_member cfg pc i m w s = (s', r)"
  shows "\<exists>os. at_sent s' = at_sent s @ os \<and> subseq (map outbound_key os) (member_schedule m) \<and>
    (\<forall>target pass c. r = Inr (target, pass, c) \<longrightarrow> os \<noteq> [] \<and> outbound_key (last os) = (pm_profile_id m, c, target))"
proof -
  let ?gw = "announce pc i m (mw_started_at w) (at_gateway s)"
  obtain wk q where t: "try_keys cfg m w 0 (map (ck_credential \<circ> fst) (pm_keys m)) None
      \<lparr>wk_accounts = gw_accounts ?gw, wk_lessons = gw_lessons ?gw, wk_attempts = at_attempts s, wk_sent = at_sent s\<rparr> = (wk, q)" by fastforce
  then have "at_sent s' = wk_sent wk" "r = q"
    using assms by (auto simp: call_member_def open_member_attempt_def Let_def)
  with try_keys_schedule [OF t] show ?thesis by (simp add: member_schedule_def)
qed

lemma call_member_skipped: "call_member cfg pc i m w s = (s', r) \<Longrightarrow> at_skipped s' = at_skipped s"
  by (auto simp: call_member_def Let_def split: prod.splits)

lemma call_member_service: "call_member cfg pc i m w s = (s', r) \<Longrightarrow> gw_service (at_gateway s') = gw_service (at_gateway s)"
  by (auto simp: call_member_def announce_def Let_def split: prod.splits)

lemma skip_member_simps [simp]:
  "at_sent (skip_member m kind s) = at_sent s"
  "at_gateway (skip_member m kind s) = at_gateway s"
  "at_attempts (skip_member m kind s) = at_attempts s"
  "at_skipped (skip_member m kind s) = at_skipped s @ [(pm_profile_id m, wire_protocol_id (pm_target m), kind)]"
  by (simp_all add: skip_member_def)

lemma decide_failover_service: "decide_failover pc e w gw = (gw', d) \<Longrightarrow> gw_service gw' = gw_service gw"
  by (auto simp: decide_failover_def split: if_splits prod.splits option.splits failover_answer.splits)

text \<open>One step of the walk: the member answers and the walk ends; it fails and the walk ends, as the
  last member or because the conversation stays on it; or it is skipped and the walk goes on.\<close>

lemma walk_members_step:
  assumes "walk_members cfg pc ws i (m # rest) err s = (s', r)"
  obtains (answer) s1 target pass c where "call_member cfg pc i m (ws i) s = (s1, Inr (target, pass, c))"
      "s' = s1\<lparr>at_gateway := answer_state pc m c (mw_done_at (ws i)) (at_gateway s1)\<rparr>"
      "r = Inr \<lparr>ua_target = target, ua_passthrough = pass, ua_profile_id = pm_profile_id m, ua_key = c\<rparr>"
  | (stop) s1 e gw where "call_member cfg pc i m (ws i) s = (s1, Inl e)"
      "s' = (skip_member m (member_failure_kind (wc_lower cfg) e) s1)\<lparr>at_gateway := gw\<rparr>"
      "gw_service gw = gw_service (at_gateway s1)" "gw_accounts gw = gw_accounts (at_gateway s1)" "r = Inl (Some e)"
      "rest = [] \<or> i = 0 \<and> pc_pinned pc \<and> snd (decide_failover pc e (ws i) (at_gateway s1)) = StayOnMember"
  | (skip) s1 q e kind gw where "call_member cfg pc i m (ws i) s = (s1, q)"
      "gw_service gw = gw_service (at_gateway s1)" "gw_accounts gw = gw_accounts (at_gateway s1)" "rest \<noteq> []"
      "walk_members cfg pc ws (Suc i) rest (Some e) ((skip_member m kind s1)\<lparr>at_gateway := gw\<rparr>) = (s', r)"
proof -
  obtain s1 q where q: "call_member cfg pc i m (ws i) s = (s1, q)" by fastforce
  have same: "(skip_member m kind s1)\<lparr>at_gateway := at_gateway s1\<rparr> = skip_member m kind s1" for kind
    by (simp add: skip_member_def)
  show ?thesis
  proof (cases q)
    case (Inr tpc)
    obtain target pass c where t: "tpc = (target, pass, c)" by (cases tpc)
    show ?thesis
    proof (cases "first_token_error cfg (rest \<noteq> []) m (ws i)")
      case None
      then show ?thesis using answer [OF q [unfolded Inr t]] assms q Inr t by simp
    next
      case (Some e)
      then have "rest \<noteq> []" by (auto simp: first_token_error_def split: if_splits)
      then show ?thesis using skip [OF q refl refl _, where e = e and kind = Upstream] assms q Inr t Some same by simp
    qed
  next
    case (Inl e)
    let ?k = "member_failure_kind (wc_lower cfg) e"
    obtain gw d where d: "decide_failover pc e (ws i) (at_gateway s1) = (gw, d)" by fastforce
    have gw: "gw_service gw = gw_service (at_gateway s1)" "gw_accounts gw = gw_accounts (at_gateway s1)"
      using d by (auto simp: decide_failover_def split: if_splits prod.splits option.splits failover_answer.splits)
    show ?thesis
    proof (cases "rest \<noteq> [] \<and> i = 0 \<and> pc_pinned pc")
      case True
      then show ?thesis
        using stop [OF q [unfolded Inl], where gw = gw] skip [OF q, where e = e and gw = gw and kind = ?k] assms q Inl d gw
        by (cases d) (auto simp: Let_def)
    next
      case False
      then show ?thesis
        using stop [OF q [unfolded Inl], where gw = "at_gateway s1"]
          skip [OF q, where e = e and gw = "at_gateway s1" and kind = ?k] assms q Inl same
        by (auto simp: Let_def split: if_splits)
    qed
  qed
qed

lemma walk_members_sent:
  "walk_members cfg pc ws i ms err s = (s', r) \<Longrightarrow>
     \<exists>os. at_sent s' = at_sent s @ os \<and> (\<forall>ob \<in> set os. \<exists>m \<in> set ms. ob_profile ob = pm_profile_id m \<and> ob_credential ob \<in> member_credentials m)"
proof (induction ms arbitrary: i err s)
  case (Cons m rest)
  from Cons.prems show ?case
  proof (cases rule: walk_members_step)
    case (answer s1 target pass c)
    then show ?thesis using call_member_sent [OF answer(1)] by (auto simp: sends_for_def)
  next
    case (stop s1 e gw)
    then show ?thesis using call_member_sent [OF stop(1)] by (auto simp: sends_for_def)
  next
    case (skip s1 q e kind gw)
    obtain os where os: "at_sent s1 = at_sent s @ os" "sends_for (pm_profile_id m) (member_credentials m) os"
      using call_member_sent [OF skip(1)] by blast
    obtain os' where os': "at_sent s' = at_sent s1 @ os'"
      "\<forall>ob \<in> set os'. \<exists>m \<in> set rest. ob_profile ob = pm_profile_id m \<and> ob_credential ob \<in> member_credentials m"
      using Cons.IH [OF skip(5)] by auto
    show ?thesis
      by (rule exI [of _ "os @ os'"]) (use os os' in \<open>auto simp: sends_for_def\<close>)
  qed
qed simp

lemma walk_members_order:
  "walk_members cfg pc ws i ms err s = (s', r) \<Longrightarrow> ms \<noteq> [] \<Longrightarrow>
     \<exists>n < length ms. 
       (case r of
          Inr a \<Rightarrow> map fst (at_skipped s') = map fst (at_skipped s) @ map pm_profile_id (take n ms) \<and> ua_profile_id a = pm_profile_id (ms ! n) \<and>
            at_sent s' \<noteq> [] \<and> outbound_key (last (at_sent s')) = (ua_profile_id a, ua_key a, ua_target a)
        | Inl e \<Rightarrow> map fst (at_skipped s') = map fst (at_skipped s) @ map pm_profile_id (take (Suc n) ms) \<and>
            (Suc n = length ms \<or> i + n = 0 \<and> pc_pinned pc)) \<and>
       (\<exists>os. at_sent s' = at_sent s @ os \<and> subseq (map outbound_key os) (concat (map member_schedule (take (Suc n) ms))))"
proof (induction ms arbitrary: i err s)
  case (Cons m rest)
  from Cons.prems(1) show ?case
  proof (cases rule: walk_members_step)
    case (answer s1 target pass c)
    then show ?thesis using call_member_skipped [OF answer(1)] call_member_schedule [OF answer(1)]
      by (intro exI [of _ 0]) auto
  next
    case (stop s1 e gw)
    then show ?thesis using call_member_skipped [OF stop(1)] call_member_schedule [OF stop(1)]
      by (intro exI [of _ 0]) auto
  next
    case (skip s1 q e kind gw)
    let ?s2 = "(skip_member m kind s1)\<lparr>at_gateway := gw\<rparr>"
    obtain n where n: "n < length rest"
      "case r of
          Inr a \<Rightarrow> map fst (at_skipped s') = map fst (at_skipped ?s2) @ map pm_profile_id (take n rest) \<and>
            ua_profile_id a = pm_profile_id (rest ! n) \<and> at_sent s' \<noteq> [] \<and> outbound_key (last (at_sent s')) = (ua_profile_id a, ua_key a, ua_target a)
        | Inl e \<Rightarrow> map fst (at_skipped s') = map fst (at_skipped ?s2) @ map pm_profile_id (take (Suc n) rest) \<and>
            (Suc n = length rest \<or> Suc i + n = 0 \<and> pc_pinned pc)"
      "\<exists>os. at_sent s' = at_sent ?s2 @ os \<and> subseq (map outbound_key os) (concat (map member_schedule (take (Suc n) rest)))"
      using Cons.IH [OF skip(5,4)] by blast
    have skipped: "map fst (at_skipped ?s2) = map fst (at_skipped s) @ [pm_profile_id m]"
      using call_member_skipped [OF skip(1)] by simp
    obtain os1 os2 where "at_sent s1 = at_sent s @ os1" "subseq (map outbound_key os1) (member_schedule m)"
      "at_sent s' = at_sent s1 @ os2" "subseq (map outbound_key os2) (concat (map member_schedule (take (Suc n) rest)))"
      using call_member_schedule [OF skip(1)] n(3) by auto
    then have "\<exists>os. at_sent s' = at_sent s @ os \<and> subseq (map outbound_key os) (concat (map member_schedule (take (Suc (Suc n)) (m # rest))))"
      by (intro exI [of _ "os1 @ os2"]) (auto intro: list_emb_append_mono)
    moreover note n(1) n(2) [unfolded skipped]
    ultimately show ?thesis by (intro exI [of _ "Suc n"]) (auto split: sum.splits)
  qed
qed simp

section \<open>Probe slots and the walk\<close>

lemma note_success_probing:
  "br_probe_in_flight (breaker_entry (sv_breakers (note_success sv g now)) h) =
     (if h = g then False else br_probe_in_flight (breaker_entry (sv_breakers sv) h))"
  by (simp add: note_success_def Let_def breaker_default_def)

lemma walk_members_probing:
  "walk_members cfg pc ws i ms err s = (s', r) \<Longrightarrow>
     probing (at_gateway s') g = (if \<exists>a. r = Inr a \<and> pc_group_id pc = Some g then False else probing (at_gateway s) g)"
proof (induction ms arbitrary: i err s)
  case (Cons m rest)
  from Cons.prems show ?case
  proof (cases rule: walk_members_step)
    case (answer s1 target pass c)
    then show ?thesis using call_member_service [OF answer(1)]
      by (auto simp: answer_state_def probing_def note_success_probing split: option.splits)
  next
    case (stop s1 e gw)
    then show ?thesis using call_member_service [OF stop(1)] by (auto simp: probing_def)
  next
    case (skip s1 q e kind gw)
    then show ?thesis using call_member_service [OF skip(1)] Cons.IH [OF skip(5)] by (auto simp: probing_def)
  qed
qed auto

lemma record_request_probing:
  "probing (record_request limit pc r now gw) g = (if pc_probe pc \<and> pc_group_id pc = Some g then False else probing gw g)"
proof -
  have "probing (gw\<lparr>gw_inflight := a, gw_latency := b, gw_ledger := c, gw_windows := d\<rparr>) g = probing gw g" for gw a b c d
    by (simp add: probing_def)
  then show ?thesis by (auto simp: record_request_def Let_def release_probing split: option.splits)
qed

lemma open_attempt_probing:
  assumes "open_attempt shutting_down limit cfg pc ws now gw = (s, r)"
  shows "pc_group_id pc = Some g \<Longrightarrow> probing (at_gateway s) g = (if pc_probe pc \<or> (\<exists>a. r = Inr a) then False else probing gw g)"
    and "pc_group_id pc \<noteq> Some g \<Longrightarrow> pc_group_id pc \<noteq> None \<or> \<not> pc_probe pc \<Longrightarrow> probing (at_gateway s) g = probing gw g"
proof -
  obtain s1 q where w: "walk_members cfg pc ws 0 (pc_members pc) None (walk_start gw) = (s1, q)" by fastforce
  have probe: "probing (at_gateway s1) h = (if (\<exists>a. q = Inr a) \<and> pc_group_id pc = Some h then False else probing gw h)" for h
    using walk_members_probing [OF w, of h] by (auto simp: walk_start_def)
  show "pc_group_id pc = Some g \<Longrightarrow> probing (at_gateway s) g = (if pc_probe pc \<or> (\<exists>a. r = Inr a) then False else probing gw g)"
    using assms w probe [of g]
    by (cases q; cases shutting_down) (auto simp: open_attempt_def Let_def walk_start_def release_probing record_request_probing)
  show "pc_group_id pc \<noteq> Some g \<Longrightarrow> pc_group_id pc \<noteq> None \<or> \<not> pc_probe pc \<Longrightarrow> probing (at_gateway s) g = probing gw g"
    using assms w probe [of g]
    by (cases q; cases shutting_down)
       (auto simp: open_attempt_def Let_def walk_start_def release_probing record_request_probing split: option.splits)
qed

section \<open>Verdicts\<close>

definition shape_refusal :: "walk_config \<Rightarrow> reply \<Rightarrow> bool" where
  "shape_refusal cfg r \<longleftrightarrow> (\<exists>status body. r = Answered status body \<and> is_protocol_mismatch (wc_lower cfg) status body)"

lemma mismatch_not_success: "is_protocol_mismatch lower status body \<Longrightarrow> \<not> is_success status"
  by (auto simp: is_protocol_mismatch_def is_success_def split: if_splits)

lemma try_calls_shape:
  assumes "\<And>j. shape_refusal cfg (snd (send j))"
  shows "try_calls cfg m c guessing send clock i calls wk = (wk', r) \<Longrightarrow>
     wk_accounts wk' = wk_accounts wk \<and> wk_lessons wk' = wk_lessons wk \<and> (\<forall>t p. r \<noteq> Some (CallAnswered t p))"
proof (induction calls arbitrary: i wk guessing)
  case (Cons call rest)
  obtain delay status body where ans: "send i = (delay, Answered status body)" and mis: "is_protocol_mismatch (wc_lower cfg) status body"
    using assms [of i] by (cases "send i") (auto simp: shape_refusal_def)
  show ?case
    using Cons.prems mis mismatch_not_success [OF mis]
    by (auto simp: Let_def ans split: sum.splits if_splits dest!: Cons.IH)
qed simp

lemma try_keys_shape:
  assumes "\<And>k j. shape_refusal cfg (snd (mw_send w k j))"
  shows "try_keys cfg m w k cs err wk = (wk', r) \<Longrightarrow>
     wk_accounts wk' = wk_accounts wk \<and> wk_lessons wk' = wk_lessons wk \<and> (\<exists>e. r = Inl e)"
proof (induction cs arbitrary: k err wk)
  case (Cons c cs)
  obtain wk1 q where q: "try_calls cfg m c (1 < length (member_calls m)) (mw_send w k) (mw_clock w k) 0 (member_calls m) wk = (wk1, q)"
    by fastforce
  have s: "wk_accounts wk1 = wk_accounts wk" "wk_lessons wk1 = wk_lessons wk" "\<And>t p. q \<noteq> Some (CallAnswered t p)"
    using try_calls_shape [OF assms q] by blast+
  show ?case
    using Cons.prems q s
    by (auto split: secret_read.splits option.splits call_end.splits dest!: Cons.IH)
qed auto

lemma walk_members_shape:
  assumes "\<And>i k j. shape_refusal cfg (snd (mw_send (ws i) k j))"
  shows "walk_members cfg pc ws i ms err s = (s', r) \<Longrightarrow>
     gw_accounts (at_gateway s') = gw_accounts (at_gateway s) \<and> (\<exists>e. r = Inl e)"
proof (induction ms arbitrary: i err s)
  case (Cons m rest)
  have call: "gw_accounts (at_gateway s1) = gw_accounts (at_gateway s) \<and> (\<exists>e. q = Inl e)"
    if "call_member cfg pc i m (ws i) s = (s1, q)" for s1 q
    using that try_keys_shape [OF assms]
    by (fastforce simp: call_member_def open_member_attempt_def announce_def Let_def split: prod.splits)
  from Cons.prems show ?case
  proof (cases rule: walk_members_step)
    case (answer s1 target pass c)
    then show ?thesis using call [OF answer(1)] by simp
  next
    case (stop s1 e gw)
    then show ?thesis using call [OF stop(1)] by simp
  next
    case (skip s1 q e kind gw)
    then show ?thesis using call [OF skip(1)] Cons.IH [OF skip(5)] by simp
  qed
qed auto

lemma record_request_accounts [simp]: "gw_accounts (record_request limit pc r now gw) = gw_accounts gw"
  by (auto simp: record_request_def release_probe_def Let_def split: option.splits)

section \<open>Guessing a protocol\<close>

lemma try_calls_remembers:
  assumes "\<forall>call \<in> set calls. mc_endpoint call = ep"
  shows "try_calls cfg m c True send clock i calls wk = (wk', Some (CallAnswered target pass)) \<Longrightarrow>
     lb_cache (wk_lessons wk') (pm_profile_id m, ep_id ep) = Some target \<and> (target, pass) \<in> (\<lambda>call. (mc_target call, mc_passthrough call)) ` set calls"
  using assms
proof (induction calls arbitrary: i wk)
  case (Cons call rest)
  obtain delay answer where ans: "send i = (delay, answer)" by fastforce
  show ?case
    using Cons.prems
    by (auto simp: Let_def ans remember_protocol_def split: sum.splits reply.splits if_splits dest!: Cons.IH)
qed simp

lemma try_keys_answered:
  "try_keys cfg m w k cs err wk = (wk', Inr (target, pass, c)) \<Longrightarrow>
     \<exists>j wk0. c \<in> set cs \<and> try_calls cfg m c (1 < length (member_calls m)) (mw_send w j) (mw_clock w j) 0 (member_calls m) wk0 =
        (wk', Some (CallAnswered target pass))"
proof (induction cs arbitrary: k err wk)
  case (Cons c' cs)
  obtain wk1 q where q: "try_calls cfg m c' (1 < length (member_calls m)) (mw_send w k) (mw_clock w k) 0 (member_calls m) wk = (wk1, q)"
    by fastforce
  show ?case
    using Cons.prems q Cons.IH
    by (fastforce split: secret_read.splits option.splits call_end.splits)
qed simp

definition addresses_ok :: "walk_config \<Rightarrow> prepared_member \<Rightarrow> bool" where
  "addresses_ok cfg m \<longleftrightarrow>
     list_all (\<lambda>call. \<exists>url. endpoint_url (ep_url (mc_endpoint call)) (mc_target call) (pm_send_model m) (wc_stream cfg) = Inr url) (member_calls m)"

lemma try_calls_all_refused:
  assumes "\<And>j. shape_refusal cfg (snd (send j))" and "pm_first_token_timeout_ms m = None"
  shows "list_all (\<lambda>call. \<exists>url. endpoint_url (ep_url (mc_endpoint call)) (mc_target call) (pm_send_model m) (wc_stream cfg) = Inr url) calls \<Longrightarrow>
     calls \<noteq> [] \<Longrightarrow> \<exists>wk' e. try_calls cfg m c True send clock i calls wk = (wk', Some (CallRefused e)) \<and>
       length (wk_sent wk') = length (wk_sent wk) + length calls"
proof (induction calls arbitrary: i wk)
  case (Cons call rest)
  obtain delay status body where ans: "send i = (delay, Answered status body)" and mis: "is_protocol_mismatch (wc_lower cfg) status body"
    using assms(1) [of i] by (cases "send i") (auto simp: shape_refusal_def)
  obtain url where url: "endpoint_url (ep_url (mc_endpoint call)) (mc_target call) (pm_send_model m) (wc_stream cfg) = Inr url"
    using Cons.prems(1) by auto
  show ?case
  proof (cases rest)
    case Nil
    then show ?thesis using mis mismatch_not_success [OF mis] by (simp add: Let_def ans url assms(2))
  next
    case (Cons call2 rest2)
    let ?wk = "note_attempt c Other (wk\<lparr>wk_sent := wk_sent wk @ [\<lparr>ob_profile = pm_profile_id m, ob_credential = c,
        ob_target = mc_target call, ob_url = url, ob_body = final_body m call\<rparr>]\<rparr>)"
    obtain wk' e where "try_calls cfg m c True send clock (Suc i) rest ?wk = (wk', Some (CallRefused e))"
        "length (wk_sent wk') = length (wk_sent ?wk) + length rest"
      using Cons.IH [of "Suc i" ?wk] Cons.prems(1) Cons by auto
    then show ?thesis using mis mismatch_not_success [OF mis] Cons by (simp add: Let_def ans url assms(2))
  qed
qed simp

lemma try_keys_all_refused:
  assumes "\<And>k j. shape_refusal cfg (snd (mw_send w k j))" and "pm_first_token_timeout_ms m = None" and "addresses_ok cfg m"
    and "pm_alternates m \<noteq> []" and "\<And>k. mw_secret w k = SecretFound" and "\<And>k. mw_slot w k = None" and "\<And>k. mw_minute w k = None"
  shows "\<exists>wk' e. try_keys cfg m w k cs err wk = (wk', Inl e) \<and>
     length (wk_sent wk') = length (wk_sent wk) + length cs * length (member_calls m)"
proof (induction cs arbitrary: k err wk)
  case (Cons c cs)
  have g: "1 < length (member_calls m)" "member_calls m \<noteq> []" using assms(4) by (simp_all add: member_calls_def)
  obtain wk1 e where q: "try_calls cfg m c True (mw_send w k) (mw_clock w k) 0 (member_calls m) wk = (wk1, Some (CallRefused e))"
      "length (wk_sent wk1) = length (wk_sent wk) + length (member_calls m)"
    using try_calls_all_refused [where send = "mw_send w k", OF assms(1,2), of "member_calls m"] assms(3) g(2)
    unfolding addresses_ok_def by blast
  obtain wk' e' where "try_keys cfg m w (Suc k) cs (Some e) wk1 = (wk', Inl e')"
      "length (wk_sent wk') = length (wk_sent wk1) + length cs * length (member_calls m)"
    using Cons.IH [of "Suc k" "Some e" wk1] by blast
  then show ?case using assms(5-7) q g(1) by simp
qed simp

section \<open>Samples\<close>

definition sample_target :: "ustring \<Rightarrow> prepared_member" where
  "sample_target p = \<lparr>pm_profile_id = p, pm_provider_name = p, pm_model = lit ''m'', pm_send_model = lit ''m'',
     pm_target = ChatCompletions, pm_passthrough = True,
     pm_endpoint = \<lparr>ep_id = lit ''e'', ep_kind = EndpointApi, ep_url = lit ''https://p'', ep_wire_protocol_id = None\<rparr>,
     pm_extra_body = [], pm_body = JObject [], pm_keys = [(candidate_new p (lit ''k'') 0, sample_key)], pm_limits = [],
     pm_skipped_cooling = 0, pm_skipped_over_limit = 0, pm_reasoning_effort = None, pm_first_token_timeout_ms = None,
     pm_alternates = [\<lparr>mc_target = AnthropicMessages, mc_passthrough = False,
       mc_endpoint = \<lparr>ep_id = lit ''e'', ep_kind = EndpointApi, ep_url = lit ''https://p'', ep_wire_protocol_id = None\<rparr>,
       mc_body = JObject []\<rparr>]\<rparr>"

definition sample_call :: prepared_call where
  "sample_call = \<lparr>pc_inbound = ChatCompletions, pc_requested_model = lit ''m'', pc_members = [sample_target (lit ''p''), sample_target (lit ''q'')],
     pc_agent_id = None, pc_conversation = None, pc_stream = False, pc_group_id = Some (lit ''g''), pc_probe = True,
     pc_request_id = lit ''r'', pc_route_name = lit ''g'', pc_failover = FailoverAsk, pc_patience_ms = None,
     pc_route_decision = decision_default, pc_retries = 0, pc_pinned = True,
     pc_tool_names = \<lparr>original_to_wire = Map.empty, wire_to_original = Map.empty\<rparr>\<rparr>"

definition sample_config :: walk_config where
  "sample_config = \<lparr>wc_stream = False, wc_requested_model = lit ''m'', wc_cooldown_overrides = [], wc_lower = (\<lambda>s. s), wc_parse = (\<lambda>_. None)\<rparr>"

definition sample_world :: "nat \<Rightarrow> member_world" where
  "sample_world status = \<lparr>mw_secret = (\<lambda>_. SecretFound), mw_slot = (\<lambda>_. None), mw_minute = (\<lambda>_. None),
     mw_send = (\<lambda>_ _. (5, Answered status [])), mw_clock = (\<lambda>_ _. 1), mw_first = (1, ChunkArrived), mw_listening = True,
     mw_prompt_id = lit ''a'', mw_answer = Some AnswerStay, mw_started_at = 0, mw_done_at = 2\<rparr>"

lemma sample_shape: "shape_refusal sample_config (snd (mw_send (sample_world 422) k j))"
  by (simp add: shape_refusal_def sample_world_def sample_config_def is_protocol_mismatch_def)

section \<open>Properties\<close>

text \<open>C31: A request walks its members in their order and stops at the first that answers. The members it
  skipped and the one that answers are the first ones of the list; when none answers, all were skipped,
  unless the conversation was pinned to the first one and the request ended there. No call is made
  twice: what was sent, taken as Provider, Key and protocol, is a part in the same order of the list
  that has every Key of every member walked with each of the member's protocols once, and the call
  that was answered is the last one sent.\<close>
theorem members_walked_in_order:
  assumes "pc_members pc \<noteq> []" and "open_attempt False limit cfg pc ws now gw = (s, r)"
  shows "\<exists>n < length (pc_members pc).
     (case r of
        Inr a \<Rightarrow> map fst (at_skipped s) = map pm_profile_id (take n (pc_members pc)) \<and>
          ua_profile_id a = pm_profile_id (pc_members pc ! n) \<and>
          at_sent s \<noteq> [] \<and> outbound_key (last (at_sent s)) = (ua_profile_id a, ua_key a, ua_target a)
      | Inl e \<Rightarrow> map fst (at_skipped s) = map pm_profile_id (take (Suc n) (pc_members pc)) \<and>
          (Suc n = length (pc_members pc) \<or> n = 0 \<and> pc_pinned pc)) \<and>
     subseq (map outbound_key (at_sent s)) (concat (map member_schedule (take (Suc n) (pc_members pc))))"
proof -
  obtain s1 q where w: "walk_members cfg pc ws 0 (pc_members pc) None (walk_start gw) = (s1, q)" by fastforce
  obtain n where "n < length (pc_members pc)"
    "case q of
        Inr a \<Rightarrow> map fst (at_skipped s1) = map fst (at_skipped (walk_start gw)) @ map pm_profile_id (take n (pc_members pc)) \<and>
          ua_profile_id a = pm_profile_id (pc_members pc ! n) \<and> at_sent s1 \<noteq> [] \<and> outbound_key (last (at_sent s1)) = (ua_profile_id a, ua_key a, ua_target a)
      | Inl e \<Rightarrow> map fst (at_skipped s1) = map fst (at_skipped (walk_start gw)) @ map pm_profile_id (take (Suc n) (pc_members pc)) \<and>
          (Suc n = length (pc_members pc) \<or> 0 + n = 0 \<and> pc_pinned pc)"
    "\<exists>os. at_sent s1 = at_sent (walk_start gw) @ os \<and> subseq (map outbound_key os) (concat (map member_schedule (take (Suc n) (pc_members pc))))"
    using walk_members_order [OF w assms(1)] by blast
  then show ?thesis
    using assms(2) w by (intro exI [of _ n]) (cases q, auto simp: open_attempt_def Let_def walk_start_def)
qed

theorem members_walked_in_order_witness:
  "\<exists>n < length (pc_members sample_call).
     subseq (map outbound_key (at_sent (fst (open_attempt False None sample_config sample_call (\<lambda>_. sample_world 422) 3 sample_gateway))))
       (concat (map member_schedule (take (Suc n) (pc_members sample_call))))"
proof -
  have "pc_members sample_call \<noteq> []" by (simp add: sample_call_def)
  from members_walked_in_order [OF this surjective_pairing] show ?thesis by blast
qed

text \<open>What a Provider's extra fields do to a body: they replace fields of their names, the reserved names
  apart.\<close>

lemma extra_body_fields:
  "map_of (foldl (\<lambda>acc (k, v). if k \<in> set MODEL_PROVIDER_EXTRA_BODY_RESERVED then acc else obj_insert k v acc) kvs extra) k =
     (if k \<notin> set MODEL_PROVIDER_EXTRA_BODY_RESERVED \<and> k \<in> fst ` set extra then map_of (rev extra) k else map_of kvs k)"
proof (induction extra rule: rev_induct)
  case (snoc x extra)
  then show ?case by (cases x) auto
qed simp

text \<open>C35: The body of a same-protocol call is the client's own, when the member sets no reasoning of its own:
  what is sent names the model under the name the Provider knows it by, carries the stream flag the
  client sent, has the client's tools but those of a type the gateway drops, and the Provider's extra
  fields; every other field is what the client sent, vendor fields included.\<close>
theorem passthrough_call_body:
  assumes "assemble_member build sn rx resolved up plan endpoint candidates key_plan = Inr m"
    and "tp_passthrough plan" and "tp_target plan = rx_inbound rx" and "rx_body rx = JObject kvs"
    and "cr_reasoning (member_request (rx_request rx) (rv_reasoning_effort resolved)) = cr_reasoning (rx_request rx)"
  shows "\<exists>kvs'. final_body m (hd (member_calls m)) = JObject kvs' \<and>
     map_of kvs' (lit ''model'') = Some (JString (alias_upstream up (rv_model resolved))) \<and>
     map_of kvs' (lit ''stream'') = Some (JBool (cr_stream (rx_request rx))) \<and>
     map_of kvs' (lit ''tools'') = kept_tools (map_of kvs (lit ''tools'')) \<and>
     (\<forall>k. k = lit ''model'' \<or> k = lit ''stream'' \<or> k = lit ''tools'' \<or>
        map_of kvs' k = (if k \<notin> set MODEL_PROVIDER_EXTRA_BODY_RESERVED \<and> k \<in> fst ` set (up_extra_body up)
          then map_of (rev (up_extra_body up)) k else map_of kvs k))"
proof -
  let ?stream = "cr_stream (rx_request rx)" and ?send = "alias_upstream up (rv_model resolved)"
  obtain kvs1 where b: "build_member_body build (rx_inbound rx) True (rx_inbound rx) (JObject kvs) (rx_request rx)
        (member_request (rx_request rx) (rv_reasoning_effort resolved)) (rv_model resolved) ?stream = Inr (JObject kvs1)"
    and f: "\<And>k. map_of kvs1 k = (if k = lit ''model'' then Some (JString (rv_model resolved))
       else if k = lit ''stream'' then Some (JBool ?stream)
       else if k = lit ''tools'' then kept_tools (map_of kvs k) else map_of kvs k)"
    using passthrough_body [OF assms(5)] by blast
  have m: "pm_body m = JObject kvs1" "pm_extra_body m = up_extra_body up" "pm_model m = rv_model resolved" "pm_send_model m = ?send"
    using assms(1-4) b by (auto simp: assemble_member_def Let_def and_then_Inr split: if_splits)
  define kvs2 where "kvs2 = foldl (\<lambda>acc (k, v). if k \<in> set MODEL_PROVIDER_EXTRA_BODY_RESERVED then acc else obj_insert k v acc) kvs1 (up_extra_body up)"
  have reserved: "lit ''model'' \<in> set MODEL_PROVIDER_EXTRA_BODY_RESERVED" "lit ''stream'' \<in> set MODEL_PROVIDER_EXTRA_BODY_RESERVED"
    "lit ''tools'' \<in> set MODEL_PROVIDER_EXTRA_BODY_RESERVED" by (simp_all add: MODEL_PROVIDER_EXTRA_BODY_RESERVED_def del: lit_simps)
  have ne: "lit ''stream'' \<noteq> lit ''model''" "lit ''tools'' \<noteq> lit ''model''" "lit ''tools'' \<noteq> lit ''stream''" by simp_all
  have body: "final_body m (hd (member_calls m)) = JObject (if ?send \<noteq> rv_model resolved then obj_insert (lit ''model'') (JString ?send) kvs2 else kvs2)"
    using m by (simp add: final_body_def member_calls_def kvs2_def Let_def)
  have g: "map_of kvs2 k = (if k \<notin> set MODEL_PROVIDER_EXTRA_BODY_RESERVED \<and> k \<in> fst ` set (up_extra_body up)
      then map_of (rev (up_extra_body up)) k else map_of kvs1 k)" for k
    unfolding kvs2_def by (rule extra_body_fields)
  show ?thesis
    by (rule exI, intro conjI, rule body) (use f g reserved ne in \<open>auto simp del: lit_simps\<close>)
qed

abbreviation store_context :: request_context where
  "store_context \<equiv> sample_context\<lparr>rx_body := JObject [(lit ''store'', JBool True)]\<rparr>"

abbreviation tuned_upstream :: gateway_upstream where
  "tuned_upstream \<equiv> sample_upstream\<lparr>up_model_aliases := [(lit ''m'', lit ''vendor-m'')],
     up_extra_body := [(lit ''seed'', JBool False), (lit ''model'', JNull)]\<rparr>"

abbreviation one_key_plan :: route_plan where
  "one_key_plan \<equiv> \<lparr>rp_order = [candidate_new (lit ''p'') (lit ''k'') 0], rp_skipped_cooling = 0, rp_skipped_over_limit = 0, rp_pinned = False\<rparr>"

lemma sample_assembled:
  "\<exists>m. assemble_member no_codec sn store_context sample_member tuned_upstream \<lparr>tp_target = ChatCompletions, tp_passthrough = True, tp_alternates = []\<rparr>
     endpoint [] one_key_plan = Inr m"
  by (simp add: assemble_member_def attemptable_def sample_context_def sample_member_def member_request_def build_member_body_def for_model_def Let_def)

theorem passthrough_call_body_witness:
  "\<exists>m kvs. assemble_member no_codec sample_chat_snapshot store_context sample_member tuned_upstream
       \<lparr>tp_target = ChatCompletions, tp_passthrough = True, tp_alternates = []\<rparr> (hd (up_endpoints sample_upstream)) [] one_key_plan = Inr m \<and>
     final_body m (hd (member_calls m)) = JObject kvs \<and> map_of kvs (lit ''model'') = Some (JString (lit ''vendor-m'')) \<and>
     map_of kvs (lit ''store'') = Some (JBool True) \<and> map_of kvs (lit ''seed'') = Some (JBool False)"
proof -
  obtain m where m: "assemble_member no_codec sample_chat_snapshot store_context sample_member tuned_upstream
       \<lparr>tp_target = ChatCompletions, tp_passthrough = True, tp_alternates = []\<rparr> (hd (up_endpoints sample_upstream)) [] one_key_plan = Inr m"
    using sample_assembled by blast
  have ne: "lit ''store'' \<noteq> lit ''model''" "lit ''store'' \<noteq> lit ''stream''" "lit ''store'' \<noteq> lit ''tools''" "lit ''store'' \<noteq> lit ''seed''"
    "lit ''seed'' \<noteq> lit ''model''" "lit ''seed'' \<noteq> lit ''stream''" "lit ''seed'' \<noteq> lit ''tools''"
    "lit ''seed'' \<notin> set MODEL_PROVIDER_EXTRA_BODY_RESERVED" by (simp_all add: MODEL_PROVIDER_EXTRA_BODY_RESERVED_def)
  from passthrough_call_body [OF m, where kvs = "[(lit ''store'', JBool True)]"]
  obtain kvs where "final_body m (hd (member_calls m)) = JObject kvs"
    "map_of kvs (lit ''model'') = Some (JString (alias_upstream tuned_upstream (rv_model sample_member)))"
    "\<forall>k. k = lit ''model'' \<or> k = lit ''stream'' \<or> k = lit ''tools'' \<or>
        map_of kvs k = (if k \<notin> set MODEL_PROVIDER_EXTRA_BODY_RESERVED \<and> k \<in> fst ` set (up_extra_body tuned_upstream)
          then map_of (rev (up_extra_body tuned_upstream)) k else map_of [(lit ''store'', JBool True)] k)"
    by (auto simp: sample_context_def sample_member_def member_request_def simp del: lit_simps)
  with m ne show ?thesis
    by (intro exI [of _ m] exI [of _ kvs]) (auto simp: alias_upstream_def sample_member_def simp del: lit_simps)
qed

text \<open>However a request that holds a group's probe slot ends \<dash> answered, refused by every member,
  kept on its pinned member or stopped by a shutdown \<dash> the slot is free afterwards, and no other
  group's slot changes.\<close>
lemma attempt_frees_probe:
  assumes "open_attempt shutting_down limit cfg pc ws now gw = (s, r)" and "pc_group_id pc = Some g" and "pc_probe pc"
  shows "probing (at_gateway s) h = (if h = g then False else probing gw h)"
  using open_attempt_probing [OF assms(1), of h] assms(2,3) by auto

lemma attempt_frees_probe_witness:
  "probing (at_gateway (fst (open_attempt False None sample_config sample_call (\<lambda>_. sample_world 500) 3 sample_gateway))) (lit ''g'') =
     (if lit ''g'' = lit ''g'' then False else probing sample_gateway (lit ''g''))"
  by (rule attempt_frees_probe [OF surjective_pairing]) (simp_all add: sample_call_def)

text \<open>A refusal of the body's shape blames no Key: when every reply of a walk is one, the request
  fails and the account table is what it was, so no Key cools down or retires for a wrong guess.\<close>
lemma shape_refusals_blame_no_key:
  assumes "\<forall>i k j. shape_refusal cfg (snd (mw_send (ws i) k j))"
  shows "\<exists>s e. open_attempt shutting_down limit cfg pc ws now gw = (s, Inl e) \<and> gw_accounts (at_gateway s) = gw_accounts gw"
proof -
  obtain s1 q where w: "walk_members cfg pc ws 0 (pc_members pc) None (walk_start gw) = (s1, q)" by fastforce
  have "gw_accounts (at_gateway s1) = gw_accounts gw \<and> (\<exists>e. q = Inl e)"
    using walk_members_shape [OF _ w] assms by (simp add: walk_start_def)
  then show ?thesis using w
    by (auto simp: open_attempt_def Let_def walk_start_def release_probe_def)
qed

lemma shape_refusals_blame_no_key_witness:
  "\<exists>s e. open_attempt False None sample_config sample_call (\<lambda>_. sample_world 422) 3 sample_gateway = (s, Inl e) \<and>
     gw_accounts (at_gateway s) = gw_accounts sample_gateway"
  using shape_refusals_blame_no_key [of sample_config "\<lambda>_. sample_world 422"] sample_shape by blast

text \<open>Answering \<open>stay\<close> keeps the conversation where it is: when the pinned member fails through its
  own fault, the route asks and the user stays, the request ends with that member's error and no
  other member is called.\<close>
lemma stay_ends_walk:
  assumes "pc_members pc = m # rest" and "rest \<noteq> []" and "pc_pinned pc" and "pc_failover pc = FailoverAsk"
    and "mw_listening (ws 0)" and "mw_answer (ws 0) = Some AnswerStay"
    and "call_member cfg pc 0 m (ws 0) (walk_start gw) = (s1, Inl e)" and "blames_upstream e"
  shows "\<exists>s. open_attempt False limit cfg pc ws now gw = (s, Inl e) \<and> at_sent s = at_sent s1 \<and>
     map fst (at_skipped s) = [pm_profile_id m]"
  using assms call_member_skipped [OF assms(7)]
  by (simp add: open_attempt_def decide_failover_def ask_failover_def answer_failover_def walk_start_def Let_def split: prod.split)

lemma sample_first_fails:
  "\<exists>s1 e. call_member sample_config sample_call 0 (sample_target (lit ''p'')) (sample_world 500) (walk_start sample_gateway) = (s1, Inl e) \<and>
     blames_upstream e"
proof -
  have "\<exists>wk' e. try_keys sample_config (sample_target (lit ''p'')) (sample_world 500) 0 [lit ''k''] None wk = (wk', Inl e) \<and> blames_upstream e" for wk
    by (simp add: member_calls_def sample_target_def sample_config_def sample_world_def endpoint_url_def is_success_def
        is_protocol_mismatch_def trim_end_slashes_def trim_def trim_where_def is_whitespace_def Let_def join_version_def)
  moreover have "map (ck_credential \<circ> fst) (pm_keys (sample_target (lit ''p''))) = [lit ''k'']"
    by (simp add: sample_target_def candidate_new_def)
  ultimately have o: "\<exists>wk' e. open_member_attempt sample_config (sample_target (lit ''p'')) (sample_world 500) wk = (wk', Inl e) \<and> blames_upstream e" for wk
    by (simp only: open_member_attempt_def)
  let ?gw = "announce sample_call 0 (sample_target (lit ''p'')) (mw_started_at (sample_world 500)) sample_gateway"
  obtain wk' e where "open_member_attempt sample_config (sample_target (lit ''p'')) (sample_world 500)
      \<lparr>wk_accounts = gw_accounts ?gw, wk_lessons = gw_lessons ?gw, wk_attempts = [], wk_sent = []\<rparr> = (wk', Inl e)" "blames_upstream e"
    using o by blast
  then show ?thesis by (simp add: call_member_def walk_start_def Let_def)
qed

lemma stay_ends_walk_witness:
  "\<exists>s1 e s. call_member sample_config sample_call 0 (sample_target (lit ''p'')) (sample_world 500) (walk_start sample_gateway) = (s1, Inl e) \<and>
     open_attempt False None sample_config sample_call (\<lambda>_. sample_world 500) 3 sample_gateway = (s, Inl e) \<and> at_sent s = at_sent s1 \<and>
     map fst (at_skipped s) = [pm_profile_id (sample_target (lit ''p''))]"
proof -
  obtain s1 e where c: "call_member sample_config sample_call 0 (sample_target (lit ''p'')) (sample_world 500) (walk_start sample_gateway) = (s1, Inl e)"
      "blames_upstream e" using sample_first_fails by blast
  have "\<exists>s. open_attempt False None sample_config sample_call (\<lambda>_. sample_world 500) 3 sample_gateway = (s, Inl e) \<and> at_sent s = at_sent s1 \<and>
      map fst (at_skipped s) = [pm_profile_id (sample_target (lit ''p''))]"
    by (rule stay_ends_walk [where rest = "[sample_target (lit ''q'')]"]) (use c in \<open>simp_all add: sample_call_def sample_world_def\<close>)
  then obtain s where "open_attempt False None sample_config sample_call (\<lambda>_. sample_world 500) 3 sample_gateway = (s, Inl e) \<and>
      at_sent s = at_sent s1 \<and> map fst (at_skipped s) = [pm_profile_id (sample_target (lit ''p''))]" by (rule exE)
  with c(1) show ?thesis by (intro exI [of _ s1] exI [of _ e] exI [of _ s] conjI) simp_all
qed

text \<open>A guess that answers is remembered: after a member whose endpoint declares no protocol has
  answered on one of its calls, the endpoint's lesson is the protocol of that call, and the next
  protocol choice makes exactly that one call.\<close>
lemma answered_guess_is_remembered:
  assumes "open_member_attempt cfg m w wk = (wk', Inr (target, pass, c))" and "pm_alternates m \<noteq> []"
    and "\<forall>call \<in> set (pm_alternates m). mc_endpoint call = pm_endpoint m"
  shows "\<exists>lb. learned_protocol (wk_lessons wk') (pm_profile_id m) (ep_id (pm_endpoint m)) = (lb, Some target) \<and>
     (\<exists>plan. choose_target inbound up (Some target) policy = Inr plan \<and> plan_calls plan = [(target, target = inbound)])"
proof -
  obtain j wk0 where t: "try_calls cfg m c (1 < length (member_calls m)) (mw_send w j) (mw_clock w j) 0 (member_calls m) wk0 =
      (wk', Some (CallAnswered target pass))"
    using try_keys_answered assms(1) unfolding open_member_attempt_def by blast
  have "1 < length (member_calls m)" "\<forall>call \<in> set (member_calls m). mc_endpoint call = pm_endpoint m"
    using assms(2,3) by (auto simp: member_calls_def)
  then have "lb_cache (wk_lessons wk') (pm_profile_id m, ep_id (pm_endpoint m)) = Some target"
    using try_calls_remembers [of "member_calls m" "pm_endpoint m"] t by auto
  then show ?thesis by (simp add: learned_protocol_def choose_target_def plan_calls_def)
qed

lemma sample_guess_answers:
  "\<exists>wk' target pass c. open_member_attempt sample_config (sample_target (lit ''p'')) (sample_world 200)
     \<lparr>wk_accounts = Map.empty, wk_lessons = no_lessons, wk_attempts = [], wk_sent = []\<rparr> = (wk', Inr (target, pass, c))"
  by (simp add: open_member_attempt_def member_calls_def sample_target_def sample_config_def sample_world_def endpoint_url_def
      is_success_def trim_end_slashes_def trim_def trim_where_def is_whitespace_def Let_def join_version_def candidate_new_def
      ex_bool_eq)

lemma answered_guess_is_remembered_witness:
  "\<exists>wk' target pass c lb. open_member_attempt sample_config (sample_target (lit ''p'')) (sample_world 200)
       \<lparr>wk_accounts = Map.empty, wk_lessons = no_lessons, wk_attempts = [], wk_sent = []\<rparr> = (wk', Inr (target, pass, c)) \<and>
     learned_protocol (wk_lessons wk') (pm_profile_id (sample_target (lit ''p''))) (ep_id (pm_endpoint (sample_target (lit ''p'')))) = (lb, Some target) \<and>
     (\<exists>plan. choose_target Responses sample_upstream (Some target) gateway_policy_default = Inr plan \<and>
        plan_calls plan = [(target, target = Responses)])"
proof -
  obtain wk' target pass c where a: "open_member_attempt sample_config (sample_target (lit ''p'')) (sample_world 200)
      \<lparr>wk_accounts = Map.empty, wk_lessons = no_lessons, wk_attempts = [], wk_sent = []\<rparr> = (wk', Inr (target, pass, c))"
    using sample_guess_answers by blast
  show ?thesis
    using a answered_guess_is_remembered [OF a, of Responses sample_upstream gateway_policy_default] by (fastforce simp: sample_target_def)
qed

text \<open>A refused guess is repeated on every Key: when an endpoint reads none of the protocols, the
  member's whole list of calls is sent again with each of its Keys, although the Key plays no part
  in a refusal of the body's shape.\<close>
lemma refused_guess_repeated_per_key:
  assumes "\<forall>k j. shape_refusal cfg (snd (mw_send w k j))" and "pm_first_token_timeout_ms m = None" and "addresses_ok cfg m"
    and "pm_alternates m \<noteq> []" and "\<forall>k. mw_secret w k = SecretFound \<and> mw_slot w k = None \<and> mw_minute w k = None"
  shows "\<exists>wk' e. open_member_attempt cfg m w wk = (wk', Inl e) \<and>
     length (wk_sent wk') = length (wk_sent wk) + length (pm_keys m) * length (member_calls m)"
  using try_keys_all_refused [of cfg w m 0 "map (ck_credential \<circ> fst) (pm_keys m)" None wk] assms
  by (simp add: open_member_attempt_def)

lemma refused_guess_repeated_per_key_witness:
  "\<exists>wk' e. open_member_attempt sample_config ((sample_target (lit ''p''))\<lparr>pm_keys := replicate 3 (candidate_new (lit ''p'') (lit ''k'') 0, sample_key)\<rparr>)
       (sample_world 422) \<lparr>wk_accounts = Map.empty, wk_lessons = no_lessons, wk_attempts = [], wk_sent = []\<rparr> = (wk', Inl e) \<and>
     length (wk_sent wk') = length (wk_sent \<lparr>wk_accounts = Map.empty, wk_lessons = no_lessons, wk_attempts = [], wk_sent = []\<rparr>) +
       length (pm_keys ((sample_target (lit ''p''))\<lparr>pm_keys := replicate 3 (candidate_new (lit ''p'') (lit ''k'') 0, sample_key)\<rparr>)) *
       length (member_calls ((sample_target (lit ''p''))\<lparr>pm_keys := replicate 3 (candidate_new (lit ''p'') (lit ''k'') 0, sample_key)\<rparr>))"
proof (rule refused_guess_repeated_per_key)
  show "\<forall>k j. shape_refusal sample_config (snd (mw_send (sample_world 422) k j))" using sample_shape by blast
qed (simp_all add: sample_target_def sample_world_def sample_config_def addresses_ok_def member_calls_def endpoint_url_def Let_def
      trim_end_slashes_def trim_def trim_where_def is_whitespace_def)

text \<open>Without a ceiling of the gateway nothing is counted: whatever requests are recorded while the
  gateway has no token limit, a fresh snapshot shows no token used, so a limit that only a group
  declares is never reached.\<close>
lemma tokens_uncounted_without_gateway_ceiling:
  assumes "gp_token_limit (gs_policy settings) = None" and "gw_windows gw = Map.empty"
  shows "sn_gateway_used_tokens (read_snapshot settings profiles routes
       (gw_windows (foldl (\<lambda>g (pc, r, t). record_request (gp_token_limit (gs_policy settings)) pc r t g) gw history)) accounts now) = 0"
proof -
  have step: "gw_windows (record_request None pc r t g) = gw_windows g" for pc r t g
    by (auto simp: record_request_def spend_tokens_def release_probe_def Let_def split: option.split)
  have "gw_windows (foldl (\<lambda>g (pc, r, t). record_request None pc r t g) gw history) = Map.empty"
    using assms(2) by (induction history arbitrary: gw) (auto simp: step)
  moreover have "window_used Map.empty p w now = 0" for p w
    by (simp add: window_used_def window_current_def)
  ultimately show ?thesis by (simp add: assms(1) read_snapshot_def Let_def)
qed

lemma tokens_uncounted_without_gateway_ceiling_witness:
  "sn_gateway_used_tokens (read_snapshot sample_settings sample_profiles [sample_group]
       (gw_windows (foldl (\<lambda>g (pc, r, t). record_request (gp_token_limit (gs_policy sample_settings)) pc r t g) sample_gateway
         [(sample_call, (failed_result sample_call UnsupportedImageReference (walk_start sample_gateway))
            \<lparr>ro_usage := usage_default\<lparr>cu_input := 900\<rparr>\<rparr>, 5)])) Map.empty 9) = 0"
  by (rule tokens_uncounted_without_gateway_ceiling) (simp_all add: sample_settings_def gateway_policy_default_def sample_gateway_def)

end
