(* ===== verification/Reply.thy ===== *)
theory Reply
  imports Attempt
begin

text \<open>
  Handing the reply back: \<open>UsageSniffer\<close> of \<open>crates/model-gateway/src/stream.rs\<close>, \<open>sse_frame\<close> of
  \<open>wire/mod.rs\<close>, and \<open>forward\<close> and \<open>gather\<close> of \<open>crates/model-gateway/src/service.rs\<close>. The
  objects behind the traits \<open>StreamDecoder\<close> and \<open>StreamEncoder\<close> are a record of functions on
  their state; \<open>parse\<close> and \<open>print\<close> are the JSON text functions. An upstream body is the
  list of its chunks with the millisecond each arrives at, \<open>None\<close> for a transport error; what the
  client is sent is the list of messages put into its channel, which stops taking them when the
  client has gone.

  Facts: a passthrough reply is the upstream's bytes; a translated one is the encoding of all
  decoded events of the whole text, however it was cut; what a reply leaves in the tables; and what
  happens with a client that leaves, a stream with CRLF line ends and an unreadable body.
\<close>

section \<open>Reading usage from frames\<close>

text \<open>\<open>Value::pointer\<close>: a token selects a field of an object or, in decimal, an item of an array.\<close>

definition array_index :: "ustring \<Rightarrow> nat option" where
  "array_index token =
     (if token = [] \<or> \<not> list_all is_ascii_digit token \<or> (hd token = 48 \<and> token \<noteq> [48]) then None
      else Some (dec_value token))"

fun json_at :: "ustring \<Rightarrow> json \<Rightarrow> json option" where
  "json_at token (JObject kvs) = map_of kvs token"
| "json_at token (JArray vs) =
     (case array_index token of None \<Rightarrow> None | Some i \<Rightarrow> if i < length vs then Some (vs ! i) else None)"
| "json_at token v = None"

fun pointer :: "ustring list \<Rightarrow> json \<Rightarrow> json option" where
  "pointer [] v = Some v"
| "pointer (t # ts) v = (case json_at t v of None \<Rightarrow> None | Some x \<Rightarrow> pointer ts x)"

text \<open>\<open>Value::as_u64\<close>: a number without sign, fraction and exponent that fits 64 bits.\<close>

fun as_u64 :: "json option \<Rightarrow> nat option" where
  "as_u64 (Some (JNumber s)) =
     (if s \<noteq> [] \<and> list_all is_ascii_digit s \<and> dec_value s \<le> U64_MAX then Some (dec_value s) else None)"
| "as_u64 _ = None"

definition count_at :: "ustring list \<Rightarrow> json \<Rightarrow> nat" where
  "count_at path v = (case as_u64 (pointer path v) of Some n \<Rightarrow> n | None \<Rightarrow> 0)"

definition not_null :: "json option \<Rightarrow> json option" where
  "not_null v = (if v = Some JNull then None else v)"

record usage_sniffer =
  us_protocol :: wire_protocol
  us_usage :: canonical_usage
  us_terminal :: bool

definition sniffer_new :: "wire_protocol \<Rightarrow> usage_sniffer" where
  "sniffer_new p = \<lparr>us_protocol = p, us_usage = usage_default, us_terminal = False\<rparr>"

text \<open>Where a protocol reports usage and how it says that a reply is complete.\<close>

fun sniffed_usage :: "wire_protocol \<Rightarrow> json \<Rightarrow> canonical_usage option" where
  "sniffed_usage ChatCompletions v =
     map_option (\<lambda>u. usage_default\<lparr>cu_input := count_at [lit ''prompt_tokens''] u,
         cu_output := count_at [lit ''completion_tokens''] u,
         cu_cached_read := count_at [lit ''prompt_tokens_details'', lit ''cached_tokens''] u\<rparr>)
       (not_null (get_field (lit ''usage'') v))"
| "sniffed_usage Responses v =
     map_option (\<lambda>u. usage_default\<lparr>cu_input := count_at [lit ''input_tokens''] u,
         cu_output := count_at [lit ''output_tokens''] u,
         cu_cached_read := count_at [lit ''input_tokens_details'', lit ''cached_tokens''] u\<rparr>)
       (not_null (pointer [lit ''response'', lit ''usage''] v))"
| "sniffed_usage AnthropicMessages v =
     map_option (\<lambda>u. usage_default\<lparr>cu_input := count_at [lit ''input_tokens''] u,
         cu_output := count_at [lit ''output_tokens''] u,
         cu_cached_read := count_at [lit ''cache_read_input_tokens''] u,
         cu_cached_write := count_at [lit ''cache_creation_input_tokens''] u\<rparr>)
       (not_null (case pointer [lit ''message'', lit ''usage''] v of
          Some u \<Rightarrow> Some u | None \<Rightarrow> get_field (lit ''usage'') v))"
| "sniffed_usage GeminiGenerateContent v =
     map_option (\<lambda>u. usage_default\<lparr>cu_input := count_at [lit ''promptTokenCount''] u,
         cu_output := count_at [lit ''candidatesTokenCount''] u,
         cu_cached_read := count_at [lit ''cachedContentTokenCount''] u,
         cu_reasoning := count_at [lit ''thoughtsTokenCount''] u\<rparr>)
       (get_field (lit ''usageMetadata'') v)"

fun terminal_event :: "wire_protocol \<Rightarrow> json \<Rightarrow> bool" where
  "terminal_event ChatCompletions v \<longleftrightarrow>
     as_str (pointer [lit ''choices'', lit ''0'', lit ''finish_reason''] v) \<noteq> None"
| "terminal_event Responses v \<longleftrightarrow>
     as_str (get_field (lit ''type'') v) \<in>
       Some ` {lit ''response.completed'', lit ''response.incomplete'', lit ''response.failed''}"
| "terminal_event AnthropicMessages v \<longleftrightarrow> as_str (get_field (lit ''type'') v) = Some (lit ''message_stop'')"
| "terminal_event GeminiGenerateContent v \<longleftrightarrow>
     as_str (pointer [lit ''candidates'', lit ''0'', lit ''finishReason''] v) \<noteq> None"

definition sniff_frame :: "(ustring \<Rightarrow> json option) \<Rightarrow> usage_sniffer \<Rightarrow> sse_event \<Rightarrow> usage_sniffer" where
  "sniff_frame parse sf = (\<lambda>(_, data).
     if trim data = DONE then sf\<lparr>us_terminal := True\<rparr>
     else case parse data of
        None \<Rightarrow> sf
      | Some v \<Rightarrow>
          sf\<lparr>us_usage := (case sniffed_usage (us_protocol sf) v of
                 None \<Rightarrow> us_usage sf | Some u \<Rightarrow> usage_merge (us_usage sf) u),
             us_terminal := (us_terminal sf \<or> terminal_event (us_protocol sf) v)\<rparr>)"

definition observe :: "(ustring \<Rightarrow> json option) \<Rightarrow> usage_sniffer \<Rightarrow> sse_event list \<Rightarrow> usage_sniffer" where
  "observe parse sf frames = foldl (sniff_frame parse) sf frames"

definition sse_frame :: "(json \<Rightarrow> ustring) \<Rightarrow> ustring option \<Rightarrow> json \<Rightarrow> ustring" where
  "sse_frame print event data =
     (case event of
        Some name \<Rightarrow> lit ''event: '' @ name @ [10] @ lit ''data: '' @ print data @ [10, 10]
      | None \<Rightarrow> lit ''data: '' @ print data @ [10, 10])"

section \<open>The codec of one stream\<close>

record ('d, 'e) stream_codec =
  sc_decode :: "'d \<Rightarrow> ustring \<Rightarrow> 'd \<times> (gateway_error + canonical_event list)"
  sc_decode_finish :: "'d \<Rightarrow> gateway_error + canonical_event list"
  sc_encode :: "'e \<Rightarrow> canonical_event \<Rightarrow> 'e \<times> (gateway_error + ustring)"
  sc_encode_finish :: "'e \<Rightarrow> gateway_error + ustring"
  sc_keepalive :: "'e \<Rightarrow> ustring option"
  sc_decoder :: "wire_protocol \<Rightarrow> 'd"
  sc_encoder :: "wire_protocol \<Rightarrow> ustring \<Rightarrow> 'e"

text \<open>What is translated in one chunk: the states of the decoder and the encoder, the accumulated
  reply, the text written so far and the last error.\<close>

record ('d, 'e) relay =
  rl_decoder :: 'd
  rl_encoder :: 'e
  rl_reply :: reply_accumulator
  rl_out :: ustring
  rl_error :: "gateway_error option"

text \<open>The library functions and the name map one reply is translated with.\<close>

record ('d, 'e) relay_env =
  re_codec :: "('d, 'e) stream_codec"
  re_parse :: "ustring \<Rightarrow> json option"
  re_print :: "json \<Rightarrow> ustring"
  re_names :: tool_name_map

definition relay_event :: "('d, 'e) relay_env \<Rightarrow> ('d, 'e) relay \<Rightarrow> canonical_event \<Rightarrow> ('d, 'e) relay" where
  "relay_event env st event =
     (let ev = restore_event (re_names env) event;
          reply = accumulator_apply (re_print env) (rl_reply st) ev
      in case sc_encode (re_codec env) (rl_encoder st) ev of
           (enc, Inr text) \<Rightarrow> st\<lparr>rl_encoder := enc, rl_reply := reply, rl_out := rl_out st @ text\<rparr>
         | (enc, Inl e) \<Rightarrow> st\<lparr>rl_encoder := enc, rl_reply := reply, rl_error := Some e\<rparr>)"

definition relay_frame :: "('d, 'e) relay_env \<Rightarrow> ('d, 'e) relay \<Rightarrow> sse_event \<Rightarrow> ('d, 'e) relay" where
  "relay_frame env st = (\<lambda>(_, data).
     if trim data = DONE then st
     else case sc_decode (re_codec env) (rl_decoder st) data of
        (dec, Inr events) \<Rightarrow> foldl (relay_event env) (st\<lparr>rl_decoder := dec\<rparr>) events
      | (dec, Inl e) \<Rightarrow> st\<lparr>rl_decoder := dec, rl_error := Some e\<rparr>)"

section \<open>Streaming a reply\<close>

datatype client_message =
    RawBytes "nat list"
  | Written ustring
  | KeptAlive ustring

text \<open>The body of an upstream reply: when each chunk arrives, in milliseconds since the reply started,
  and when the body ended.\<close>

record reply_body =
  rb_chunks :: "(nat \<times> nat list option) list"
  rb_ended_at :: nat

record ('d, 'e) forwarding =
  fw_pending :: ustring
  fw_relay :: "('d, 'e) relay"
  fw_sniffer :: usage_sniffer
  fw_sent :: "client_message list"
  fw_last_output :: nat
  fw_first_token :: "nat option"

datatype loop_end = StreamDone | StreamFailed | ClientGone

text \<open>One \<open>sender.send\<close>; \<open>client n\<close> says whether the \<open>n\<close>-th message is taken.\<close>

definition offer :: "(nat \<Rightarrow> bool) \<Rightarrow> client_message \<Rightarrow> ('d, 'e) forwarding \<Rightarrow> ('d, 'e) forwarding \<times> bool" where
  "offer client msg st =
     (if client (length (fw_sent st)) then (st\<lparr>fw_sent := fw_sent st @ [msg]\<rparr>, True) else (st, False))"

definition forget_output :: "('d, 'e) relay \<Rightarrow> ('d, 'e) relay" where
  "forget_output r = r\<lparr>rl_out := [], rl_error := None\<rparr>"

definition offer_translated ::
    "('d, 'e) relay_env \<Rightarrow> (nat \<Rightarrow> bool) \<Rightarrow> nat \<Rightarrow> ('d, 'e) forwarding \<Rightarrow> ('d, 'e) forwarding \<times> bool" where
  "offer_translated env client t st =
     (let r = fw_relay st in
      if rl_out r \<noteq> [] then offer client (Written (rl_out r)) (st\<lparr>fw_last_output := t\<rparr>)
      else if 10000 \<le> t - fw_last_output st
      then (case sc_keepalive (re_codec env) (rl_encoder r) of
          Some k \<Rightarrow> offer client (KeptAlive k) (st\<lparr>fw_last_output := t\<rparr>)
        | None \<Rightarrow> (st, True))
      else (st, True))"

definition report_error :: "('d, 'e) relay_env \<Rightarrow> (nat \<Rightarrow> bool) \<Rightarrow> gateway_error \<Rightarrow> ('d, 'e) forwarding \<Rightarrow> ('d, 'e) forwarding" where
  "report_error env client e st =
     (case sc_encode (re_codec env) (rl_encoder (fw_relay st)) (EvError 502 (error_message e)) of
        (enc, r) \<Rightarrow> fst (offer client (Written (case r of Inr text \<Rightarrow> text | Inl _ \<Rightarrow> []))
                        (st\<lparr>fw_relay := (fw_relay st)\<lparr>rl_encoder := enc\<rparr>\<rparr>)))"

definition forward_chunk ::
    "('d, 'e) relay_env \<Rightarrow> bool \<Rightarrow> (nat \<Rightarrow> bool) \<Rightarrow> nat \<Rightarrow> nat list \<Rightarrow> ('d, 'e) forwarding \<Rightarrow>
      ('d, 'e) forwarding \<times> loop_end option" where
  "forward_chunk env passthrough client t chunk st =
     (case sse_push (fw_pending st) chunk of (pending, frames) \<Rightarrow>
        if passthrough
        then (case offer client (RawBytes chunk)
                 (st\<lparr>fw_pending := pending, fw_sniffer := observe (re_parse env) (fw_sniffer st) frames\<rparr>) of
            (st', taken) \<Rightarrow> (st', if taken then None else Some ClientGone))
        else
          let r = foldl (relay_frame env) (forget_output (fw_relay st)) frames in
          case offer_translated env client t (st\<lparr>fw_pending := pending, fw_relay := r\<rparr>) of
            (st', False) \<Rightarrow> (st', Some ClientGone)
          | (st', True) \<Rightarrow>
              (case rl_error r of
                 None \<Rightarrow> (st', None)
               | Some e \<Rightarrow> (report_error env client e st', Some StreamFailed)))"

text \<open>Whether the first item of the body comes after the deadline for the first token.\<close>

definition too_late :: "nat option \<Rightarrow> nat \<Rightarrow> ('d, 'e) forwarding \<Rightarrow> bool" where
  "too_late deadline t st \<longleftrightarrow> fw_first_token st = None \<and> (case deadline of None \<Rightarrow> False | Some d \<Rightarrow> d < t)"

fun forward_loop ::
    "('d, 'e) relay_env \<Rightarrow> bool \<Rightarrow> (nat \<Rightarrow> bool) \<Rightarrow> nat option \<Rightarrow> nat \<Rightarrow> (nat \<times> nat list option) list \<Rightarrow> ('d, 'e) forwarding \<Rightarrow>
      ('d, 'e) forwarding \<times> loop_end" where
  "forward_loop env passthrough client deadline ended [] st =
     (st, if too_late deadline ended st then StreamFailed else StreamDone)"
| "forward_loop env passthrough client deadline ended ((t, item) # rest) st =
     (if too_late deadline t st then (st, StreamFailed)
      else case item of
        None \<Rightarrow> (st, StreamFailed)
      | Some chunk \<Rightarrow>
          (case forward_chunk env passthrough client t chunk
                 (st\<lparr>fw_first_token := (case fw_first_token st of None \<Rightarrow> Some t | Some t0 \<Rightarrow> Some t0)\<rparr>) of
             (st', Some e) \<Rightarrow> (st', e)
           | (st', None) \<Rightarrow> forward_loop env passthrough client deadline ended rest st'))"

definition tail_event ::
    "('d, 'e) relay_env \<Rightarrow> (nat \<Rightarrow> bool) \<Rightarrow> ('d, 'e) forwarding \<Rightarrow> canonical_event \<Rightarrow> ('d, 'e) forwarding" where
  "tail_event env client st event =
     (let r = relay_event env (forget_output (fw_relay st)) event
      in if rl_error r = None then fst (offer client (Written (rl_out r)) (st\<lparr>fw_relay := r\<rparr>))
         else st\<lparr>fw_relay := r\<rparr>)"

definition tail_frame ::
    "('d, 'e) relay_env \<Rightarrow> (nat \<Rightarrow> bool) \<Rightarrow> ('d, 'e) forwarding \<Rightarrow> sse_event \<Rightarrow> ('d, 'e) forwarding" where
  "tail_frame env client st = (\<lambda>(_, data).
     if trim data = DONE then st
     else case sc_decode (re_codec env) (rl_decoder (fw_relay st)) data of
        (dec, r) \<Rightarrow> foldl (tail_event env client) (st\<lparr>fw_relay := (fw_relay st)\<lparr>rl_decoder := dec\<rparr>\<rparr>)
           (case r of Inr events \<Rightarrow> events | Inl _ \<Rightarrow> []))"

definition forward_tail :: "('d, 'e) relay_env \<Rightarrow> (nat \<Rightarrow> bool) \<Rightarrow> ('d, 'e) forwarding \<Rightarrow> ('d, 'e) forwarding" where
  "forward_tail env client st =
     (let st1 = foldl (tail_frame env client) st (sse_finish (fw_pending st));
          st2 = foldl (tail_event env client) st1
            (case sc_decode_finish (re_codec env) (rl_decoder (fw_relay st1)) of Inr events \<Rightarrow> events | Inl _ \<Rightarrow> [])
      in case sc_encode_finish (re_codec env) (rl_encoder (fw_relay st2)) of
           Inr text \<Rightarrow> if text = [] then st2 else fst (offer client (Written text) st2)
         | Inl _ \<Rightarrow> st2)"

definition cut_frame :: "(json \<Rightarrow> ustring) \<Rightarrow> ustring" where
  "cut_frame print = sse_frame print None (JObject [(lit ''error'', JObject
     [(lit ''type'', JString (lit ''upstream_error'')),
      (lit ''message'', JString (lit ''the upstream stream ended before the reply was complete''))])])"

section \<open>The outcome of a reply\<close>

definition member_of_call :: "prepared_call \<Rightarrow> profile_id \<Rightarrow> prepared_member option" where
  "member_of_call pc p = find (\<lambda>m. pm_profile_id m = p) (pc_members pc)"

definition first_token_deadline :: "prepared_call \<Rightarrow> profile_id \<Rightarrow> nat option" where
  "first_token_deadline pc p =
     (case position (\<lambda>m. pm_profile_id m = p) (pc_members pc) of
        None \<Rightarrow> None
      | Some i \<Rightarrow> if i + 1 < length (pc_members pc) then Option.bind (member_of_call pc p) pm_first_token_timeout_ms else None)"

text \<open>The answering member, its Key, and what the walk left behind for the ledger.\<close>

record answer_context =
  ac_call :: prepared_call
  ac_attempt :: upstream_attempt
  ac_failed_attempts :: "(request_id \<times> failure_kind) list"
  ac_skipped_members :: "(profile_id \<times> ustring \<times> failure_kind) list"
  ac_limit :: "token_limit option"
  ac_started_at :: int

definition reply_result :: "answer_context \<Rightarrow> bool \<Rightarrow> canonical_usage \<Rightarrow> nat \<Rightarrow> ustring option \<Rightarrow> request_result" where
  "reply_result ac failed usage elapsed served =
     (let p = ua_profile_id (ac_attempt ac); m = member_of_call (ac_call ac) p in
      \<lparr>ro_kind = (if failed then OutcomeFailed else if ac_failed_attempts ac = [] then OutcomeOk else OutcomeFailover),
       ro_profile = Some p, ro_target = Some (ua_target (ac_attempt ac)),
       ro_skipped_cooling = (case m of Some m' \<Rightarrow> pm_skipped_cooling m' | None \<Rightarrow> 0),
       ro_skipped_over_limit = (case m of Some m' \<Rightarrow> pm_skipped_over_limit m' | None \<Rightarrow> 0),
       ro_credential = Some (ua_key (ac_attempt ac)), ro_status = Some (if failed then 502 else 200), ro_usage = usage,
       ro_latency_ms = Some (int elapsed), ro_served = served,
       ro_failed_attempts = ac_failed_attempts ac, ro_skipped_members = ac_skipped_members ac,
       ro_error_code = (if failed then Some (lit ''model_gateway_upstream_failed'') else None), ro_error_message = None\<rparr>)"

definition adopt_pin :: "answer_context \<Rightarrow> gateway_state \<Rightarrow> gateway_state" where
  "adopt_pin ac gw =
     (case pc_conversation (ac_call ac) of
        None \<Rightarrow> gw
      | Some conversation \<Rightarrow> gw\<lparr>gw_pins := pin_conversation (gw_pins gw) conversation
          (ua_profile_id (ac_attempt ac)) (ua_key (ac_attempt ac)) (ac_started_at ac)\<rparr>)"

definition announce_first_token :: "answer_context \<Rightarrow> nat option \<Rightarrow> gateway_state \<Rightarrow> gateway_state" where
  "announce_first_token ac first gw =
     (case first of
        None \<Rightarrow> gw
      | Some t \<Rightarrow> gw\<lparr>gw_inflight := fst (note_first_token (gw_inflight gw) (pc_request_id (ac_call ac)) (ac_started_at ac + int t))\<rparr>)"

definition finish_reply :: "answer_context \<Rightarrow> request_result \<Rightarrow> nat \<Rightarrow> gateway_state \<Rightarrow> gateway_state" where
  "finish_reply ac r elapsed gw = record_request (ac_limit ac) (ac_call ac) r (ac_started_at ac + int elapsed) gw"

definition forward_start :: "('d, 'e) relay_env \<Rightarrow> answer_context \<Rightarrow> ('d, 'e) forwarding" where
  "forward_start env ac =
     (let p = ua_profile_id (ac_attempt ac);
          model = (case member_of_call (ac_call ac) p of Some m \<Rightarrow> pm_model m | None \<Rightarrow> pc_requested_model (ac_call ac))
      in \<lparr>fw_pending = [],
          fw_relay = \<lparr>rl_decoder = sc_decoder (re_codec env) (ua_target (ac_attempt ac)),
             rl_encoder = sc_encoder (re_codec env) (pc_inbound (ac_call ac)) model,
             rl_reply = accumulator_default, rl_out = [], rl_error = None\<rparr>,
          fw_sniffer = sniffer_new (ua_target (ac_attempt ac)), fw_sent = [], fw_last_output = 0, fw_first_token = None\<rparr>)"

definition forward ::
    "('d, 'e) relay_env \<Rightarrow> answer_context \<Rightarrow> reply_body \<Rightarrow> (nat \<Rightarrow> bool) \<Rightarrow> nat \<Rightarrow> gateway_state \<Rightarrow>
      gateway_state \<times> client_message list" where
  "forward env ac body client elapsed gw =
     (let pass = ua_passthrough (ac_attempt ac);
          deadline = first_token_deadline (ac_call ac) (ua_profile_id (ac_attempt ac))
      in case forward_loop env pass client deadline (rb_ended_at body) (rb_chunks body) (forward_start env ac) of
          (st, fin) \<Rightarrow>
            let gw1 = announce_first_token ac (fw_first_token st) (adopt_pin ac gw) in
            if fin = ClientGone then (gw1, fw_sent st)
            else
              let st1 = (if pass then st else forward_tail env client st);
                  failed = (fin = StreamFailed \<or> pass \<and> \<not> us_terminal (fw_sniffer st1));
                  usage = (if pass then us_usage (fw_sniffer st1) else ra_usage (rl_reply (fw_relay st1)));
                  st2 = (if failed then fst (offer client (Written (cut_frame (re_print env))) st1) else st1)
              in (finish_reply ac (reply_result ac failed usage elapsed None) elapsed gw1, fw_sent st2))"

section \<open>Gathering a whole reply\<close>

definition response_default :: canonical_response where
  "response_default = \<lparr>cp_id = [], cp_model = [], cp_parts = [], cp_stop = EndTurn, cp_usage = usage_default\<rparr>"

fun whole_body :: "nat list option list \<Rightarrow> nat list option" where
  "whole_body [] = Some []"
| "whole_body (None # rest) = None"
| "whole_body (Some chunk # rest) = map_option ((@) chunk) (whole_body rest)"

definition starts_object :: "nat list \<Rightarrow> bool" where
  "starts_object bytes \<longleftrightarrow> find (\<lambda>b. b \<notin> {32, 9, 10, 12, 13}) bytes = Some 123"

definition gather_frame :: "('d, 'e) relay_env \<Rightarrow> 'd \<times> reply_accumulator \<Rightarrow> sse_event \<Rightarrow> 'd \<times> reply_accumulator" where
  "gather_frame env = (\<lambda>(dec, reply) (_, data).
     if trim data = DONE then (dec, reply)
     else case sc_decode (re_codec env) dec data of
        (dec', r) \<Rightarrow> (dec', foldl (accumulator_apply (re_print env)) reply (case r of Inr events \<Rightarrow> events | Inl _ \<Rightarrow> [])))"

definition gather_stream :: "('d, 'e) relay_env \<Rightarrow> wire_protocol \<Rightarrow> nat list \<Rightarrow> canonical_response" where
  "gather_stream env target bytes =
     (case sse_push [] bytes of (pending, frames) \<Rightarrow>
        let reply = snd (foldl (gather_frame env) (sc_decoder (re_codec env) target, accumulator_default) frames);
            usage = us_usage (observe (re_parse env) (sniffer_new target) (sse_finish pending))
        in accumulator_finish (re_parse env)
             (if 0 < usage_total usage then accumulator_apply (re_print env) reply (EvUsage usage) else reply))"

text \<open>\<open>parse_reply\<close> and \<open>render_response\<close> of the wire module are the arguments \<open>read_reply\<close> and \<open>render\<close>.\<close>

definition gathered_response ::
    "('d, 'e) relay_env \<Rightarrow> (wire_protocol \<Rightarrow> nat list \<Rightarrow> gateway_error + canonical_response) \<Rightarrow> wire_protocol \<Rightarrow> bool \<Rightarrow> nat list \<Rightarrow>
      canonical_response" where
  "gathered_response env read_reply target passthrough bytes =
     (if passthrough \<or> starts_object bytes
      then (case read_reply target bytes of Inr r \<Rightarrow> r | Inl _ \<Rightarrow> response_default)
      else gather_stream env target bytes)"

definition cut_result :: "answer_context \<Rightarrow> nat \<Rightarrow> request_result" where
  "cut_result ac elapsed =
     (reply_result ac True usage_default elapsed None)\<lparr>ro_skipped_cooling := 0, ro_skipped_over_limit := 0\<rparr>"

definition gather ::
    "('d, 'e) relay_env \<Rightarrow> (wire_protocol \<Rightarrow> nat list \<Rightarrow> gateway_error + canonical_response) \<Rightarrow>
      (wire_protocol \<Rightarrow> canonical_response \<Rightarrow> gateway_error + json) \<Rightarrow> answer_context \<Rightarrow> reply_body \<Rightarrow> nat \<Rightarrow> gateway_state \<Rightarrow>
      gateway_state \<times> (gateway_error + json)" where
  "gather env read_reply render ac body elapsed gw =
     (let gw1 = announce_first_token ac (Some 0) gw in
      case whole_body (map snd (rb_chunks body)) of
        None \<Rightarrow> (finish_reply ac (cut_result ac elapsed) elapsed gw1,
                Inl (UpstreamError 502 (lit ''the upstream reply ended before it was complete'')))
      | Some bytes \<Rightarrow>
          let parsed = gathered_response env read_reply (ua_target (ac_attempt ac)) (ua_passthrough (ac_attempt ac)) bytes;
              response = restore_response (re_names env) parsed
          in case render (pc_inbound (ac_call ac)) response of
               Inl e \<Rightarrow> (gw1, Inl e)
             | Inr value \<Rightarrow>
                 (finish_reply ac (reply_result ac False (cp_usage parsed) elapsed
                      (if cp_model response = [] then None else Some (cp_model response))) elapsed (adopt_pin ac gw1),
                  Inr value))"

section \<open>Translating in pieces\<close>

text \<open>What one relayed piece adds to the state before it: states and reply move on, the text is
  appended, an earlier error stays unless a later one replaces it.\<close>

definition resume :: "('d, 'e) relay \<Rightarrow> ('d, 'e) relay \<Rightarrow> ('d, 'e) relay" where
  "resume st x = x\<lparr>rl_out := rl_out st @ rl_out x, rl_error := (case rl_error x of None \<Rightarrow> rl_error st | Some e \<Rightarrow> Some e)\<rparr>"

lemma forget_output_simps [simp]:
  "rl_decoder (forget_output r) = rl_decoder r" "rl_encoder (forget_output r) = rl_encoder r"
  "rl_reply (forget_output r) = rl_reply r" "rl_out (forget_output r) = []" "rl_error (forget_output r) = None"
  "forget_output (forget_output r) = forget_output r"
  "forget_output (r\<lparr>rl_decoder := d\<rparr>) = (forget_output r)\<lparr>rl_decoder := d\<rparr>"
  by (simp_all add: forget_output_def)

lemma resume_simps [simp]:
  "forget_output (resume st x) = forget_output x" "rl_out (resume st x) = rl_out st @ rl_out x"
  "rl_error (resume st x) = None \<longleftrightarrow> rl_error st = None \<and> rl_error x = None"
  "rl_decoder (resume st x) = rl_decoder x" "rl_encoder (resume st x) = rl_encoder x" "rl_reply (resume st x) = rl_reply x"
  by (auto simp: resume_def forget_output_def split: option.splits)

lemma resume_decoder [simp]: "resume (st\<lparr>rl_decoder := d\<rparr>) x = resume st x"
  by (cases "rl_error x") (simp_all add: resume_def)

lemma resume_forget [simp]: "resume st (forget_output st) = st"
  by (simp add: resume_def forget_output_def)

lemma resume_assoc [simp]: "resume st (resume x y) = resume (resume st x) y"
  by (simp add: resume_def split: option.split)

lemma relay_event_resume: "relay_event env st ev = resume st (relay_event env (forget_output st) ev)"
  by (simp add: relay_event_def Let_def resume_def forget_output_def split: prod.split sum.split)

lemma foldl_resume:
  assumes "\<And>st x. f st x = resume st (f (forget_output st) x)"
  shows "foldl f st xs = resume st (foldl f (forget_output st) xs)"
proof (induction xs arbitrary: st)
  case (Cons x xs)
  have "foldl f st (x # xs) = resume (f st x) (foldl f (forget_output (f st x)) xs)"
    using Cons.IH [of "f st x"] by simp
  also have "\<dots> = resume (resume st (f (forget_output st) x)) (foldl f (forget_output (f (forget_output st) x)) xs)"
    using assms [of st x] by (metis resume_simps(1))
  also have "\<dots> = resume st (foldl f (f (forget_output st) x) xs)"
    using Cons.IH [of "f (forget_output st) x"] by simp
  finally show ?case by simp
qed simp

lemmas relay_events_resume = foldl_resume [of "relay_event env" for env, OF relay_event_resume]

lemma relay_frame_resume: "relay_frame env st f = resume st (relay_frame env (forget_output st) f)"
proof (cases "trim (snd f) = DONE")
  case False
  obtain dec r where d: "sc_decode (re_codec env) (rl_decoder st) (snd f) = (dec, r)" by fastforce
  show ?thesis
  proof (cases r)
    case (Inl e)
    with False d show ?thesis by (simp add: relay_frame_def split_beta resume_def forget_output_def)
  next
    case (Inr events)
    have "foldl (relay_event env) (st\<lparr>rl_decoder := dec\<rparr>) events =
        resume (st\<lparr>rl_decoder := dec\<rparr>) (foldl (relay_event env) ((forget_output st)\<lparr>rl_decoder := dec\<rparr>) events)"
      using relay_events_resume [of env "st\<lparr>rl_decoder := dec\<rparr>" events] by simp
    with False d Inr show ?thesis by (simp add: relay_frame_def split_beta)
  qed
qed (simp add: relay_frame_def split_beta)

lemmas relay_frames_resume = foldl_resume [of "relay_frame env" for env, OF relay_frame_resume]

text \<open>The frames the pushes of a stream deliver, and what stays pending.\<close>

fun pushes :: "ustring \<Rightarrow> nat list list \<Rightarrow> ustring \<times> sse_event list" where
  "pushes pending [] = (pending, [])"
| "pushes pending (chunk # chunks) =
     (case sse_push pending chunk of (p, fs) \<Rightarrow> (case pushes p chunks of (p', fs') \<Rightarrow> (p', fs @ fs')))"

lemma pushes_run: "pushes pending chunks = (p, fs) \<Longrightarrow> fs @ sse_finish p = sse_run pending chunks"
  by (induction chunks arbitrary: pending p fs) (fastforce split: prod.splits)+

definition written :: "client_message list \<Rightarrow> ustring" where
  "written ms = concat (map (\<lambda>m. case m of Written t \<Rightarrow> t | _ \<Rightarrow> []) ms)"

lemma written_simps [simp]:
  "written [] = []" "written (ms @ ms') = written ms @ written ms'"
  "written (Written t # ms) = t @ written ms" "written (RawBytes b # ms) = written ms" "written (KeptAlive k # ms) = written ms"
  by (simp_all add: written_def)

definition always :: "nat \<Rightarrow> bool" where
  "always n = True"

definition on_time :: "nat option \<Rightarrow> nat \<Rightarrow> (nat \<times> nat list option) list \<Rightarrow> bool" where
  "on_time deadline ended body \<longleftrightarrow>
     (case deadline of None \<Rightarrow> True | Some d \<Rightarrow> (case body of [] \<Rightarrow> ended \<le> d | (t, _) # _ \<Rightarrow> t \<le> d))"

lemma offer_always [simp]: "offer always msg st = (st\<lparr>fw_sent := fw_sent st @ [msg]\<rparr>, True)"
  by (simp add: offer_def always_def)

lemma offer_translated_always:
  "\<exists>st'. offer_translated env always t st = (st', True) \<and> written (fw_sent st') = written (fw_sent st) @ rl_out (fw_relay st) \<and>
     fw_relay st' = fw_relay st \<and> fw_pending st' = fw_pending st \<and> fw_first_token st' = fw_first_token st"
  by (auto simp: offer_translated_def Let_def split: option.split)

lemma forward_loop_translated:
  assumes "map snd body = map Some chunks" and "pushes (fw_pending st) chunks = (p, frames)"
    and "fw_first_token st \<noteq> None \<or> on_time deadline ended body"
    and "rl_error (foldl (relay_frame env) (forget_output (fw_relay st)) frames) = None"
  shows "\<exists>st'. forward_loop env False always deadline ended body st = (st', StreamDone) \<and> fw_pending st' = p \<and>
     written (fw_sent st') = written (fw_sent st) @ rl_out (foldl (relay_frame env) (forget_output (fw_relay st)) frames) \<and>
     forget_output (fw_relay st') = forget_output (foldl (relay_frame env) (forget_output (fw_relay st)) frames)"
  using assms
proof (induction chunks arbitrary: body st frames)
  case Nil
  then show ?case by (auto simp: too_late_def on_time_def split: option.splits)
next
  case (Cons chunk chunks)
  obtain t rest where body: "body = (t, Some chunk) # rest" "map snd rest = map Some chunks"
    using Cons.prems(1) by (cases body) auto
  obtain q fs fs' where q: "sse_push (fw_pending st) chunk = (q, fs)" "pushes q chunks = (p, fs')" "frames = fs @ fs'"
    using Cons.prems(2) by (auto split: prod.splits)
  define first where "first = (case fw_first_token st of None \<Rightarrow> Some t | Some t0 \<Rightarrow> Some t0)"
  define r where "r = foldl (relay_frame env) (forget_output (fw_relay st)) fs"
  have whole: "foldl (relay_frame env) (forget_output (fw_relay st)) frames =
      resume r (foldl (relay_frame env) (forget_output r) fs')"
    using relay_frames_resume [of env r fs'] by (simp add: q(3) r_def)
  have ok: "rl_error r = None" "rl_error (foldl (relay_frame env) (forget_output r) fs') = None"
    using Cons.prems(4) by (simp_all add: whole)
  obtain st1 where st1: "offer_translated env always t (st\<lparr>fw_first_token := first, fw_pending := q, fw_relay := r\<rparr>) = (st1, True)"
    "written (fw_sent st1) = written (fw_sent st) @ rl_out r" "fw_relay st1 = r" "fw_pending st1 = q" "fw_first_token st1 = first"
    using offer_translated_always [of env t "st\<lparr>fw_first_token := first, fw_pending := q, fw_relay := r\<rparr>"] by auto
  have chunk: "forward_chunk env False always t chunk (st\<lparr>fw_first_token := first\<rparr>) = (st1, None)"
    using st1(1) ok(1) by (simp add: forward_chunk_def q(1) r_def Let_def)
  have "\<not> too_late deadline t st"
    using Cons.prems(3) body(1) by (auto simp: too_late_def on_time_def split: option.splits)
  then have step: "forward_loop env False always deadline ended body st = forward_loop env False always deadline ended rest st1"
    using chunk by (simp add: body(1) first_def)
  have "fw_first_token st1 \<noteq> None" by (simp add: st1(5) first_def split: option.split)
  from Cons.IH [of rest st1 fs'] this body(2) q(2) ok(2) show ?case
    by (simp add: step whole st1)
qed

lemma tail_event_always:
  "written (fw_sent (tail_event env always st ev)) =
     written (fw_sent st) @ rl_out (relay_event env (forget_output (fw_relay st)) ev)"
  "forget_output (fw_relay (tail_event env always st ev)) = forget_output (relay_event env (forget_output (fw_relay st)) ev)"
proof -
  have "rl_out (relay_event env (forget_output (fw_relay st)) ev) = []"
    if "rl_error (relay_event env (forget_output (fw_relay st)) ev) \<noteq> None"
    using that by (auto simp: relay_event_def Let_def split: prod.splits sum.splits)
  then show "written (fw_sent (tail_event env always st ev)) =
     written (fw_sent st) @ rl_out (relay_event env (forget_output (fw_relay st)) ev)"
    by (auto simp: tail_event_def Let_def)
qed (simp add: tail_event_def Let_def)

lemma tail_fold:
  assumes "\<And>st x. P (forget_output (fw_relay st)) x \<Longrightarrow>
       written (fw_sent (g st x)) = written (fw_sent st) @ rl_out (f (forget_output (fw_relay st)) x) \<and>
       forget_output (fw_relay (g st x)) = forget_output (f (forget_output (fw_relay st)) x)"
    and "\<And>st x. f st x = resume st (f (forget_output st) x)"
    and "\<And>st x. rl_error (f st x) = None \<Longrightarrow> P st x" and "rl_error (foldl f (forget_output (fw_relay st)) xs) = None \<or> P = (\<lambda>_ _. True)"
  shows "written (fw_sent (foldl g st xs)) = written (fw_sent st) @ rl_out (foldl f (forget_output (fw_relay st)) xs) \<and>
     forget_output (fw_relay (foldl g st xs)) = forget_output (foldl f (forget_output (fw_relay st)) xs)"
  using assms(4)
proof (induction xs arbitrary: st)
  case (Cons x xs)
  let ?a = "f (forget_output (fw_relay st)) x"
  have fold: "foldl f ?a xs = resume ?a (foldl f (forget_output ?a) xs)" by (rule foldl_resume [OF assms(2)])
  have "P (forget_output (fw_relay st)) x \<and> (rl_error (foldl f (forget_output ?a) xs) = None \<or> P = (\<lambda>_ _. True))"
    using Cons.prems fold assms(3) [of "forget_output (fw_relay st)" x] by auto
  with assms(1) [of st x] Cons.IH [of "g st x"] show ?case by (simp add: fold)
qed simp

lemma tail_events_always:
  "written (fw_sent (foldl (tail_event env always) st evs)) =
     written (fw_sent st) @ rl_out (foldl (relay_event env) (forget_output (fw_relay st)) evs) \<and>
   forget_output (fw_relay (foldl (tail_event env always) st evs)) =
     forget_output (foldl (relay_event env) (forget_output (fw_relay st)) evs)"
  by (rule tail_fold [where P = "\<lambda>_ _. True"]) (simp_all add: tail_event_always relay_event_resume [symmetric])

lemma tail_frame_always:
  assumes "rl_error (relay_frame env (forget_output (fw_relay st)) f) = None"
  shows "written (fw_sent (tail_frame env always st f)) = written (fw_sent st) @ rl_out (relay_frame env (forget_output (fw_relay st)) f) \<and>
     forget_output (fw_relay (tail_frame env always st f)) = forget_output (relay_frame env (forget_output (fw_relay st)) f)"
proof (cases "trim (snd f) = DONE")
  case False
  obtain dec r where d: "sc_decode (re_codec env) (rl_decoder (fw_relay st)) (snd f) = (dec, r)" by fastforce
  obtain events where "r = Inr events" using assms False d by (cases r) (auto simp: relay_frame_def split_beta)
  with False d tail_events_always [of env "st\<lparr>fw_relay := (fw_relay st)\<lparr>rl_decoder := dec\<rparr>\<rparr>" events] show ?thesis
    by (simp add: tail_frame_def relay_frame_def split_beta)
qed (simp add: tail_frame_def relay_frame_def split_beta)

lemma tail_frames_always:
  assumes "rl_error (foldl (relay_frame env) (forget_output (fw_relay st)) frames) = None"
  shows "written (fw_sent (foldl (tail_frame env always) st frames)) =
       written (fw_sent st) @ rl_out (foldl (relay_frame env) (forget_output (fw_relay st)) frames) \<and>
     forget_output (fw_relay (foldl (tail_frame env always) st frames)) =
       forget_output (foldl (relay_frame env) (forget_output (fw_relay st)) frames)"
  by (rule tail_fold [where P = "\<lambda>r f. rl_error (relay_frame env r f) = None"])
     (use assms tail_frame_always in \<open>auto simp: relay_frame_resume [symmetric]\<close>)

section \<open>Passing a stream through\<close>

lemma forward_loop_passthrough:
  assumes "map snd body = map Some chunks" and "pushes (fw_pending st) chunks = (p, frames)"
    and "fw_first_token st \<noteq> None \<or> on_time deadline ended body"
  shows "\<exists>st'. forward_loop env True always deadline ended body st = (st', StreamDone) \<and>
     fw_sent st' = fw_sent st @ map RawBytes chunks \<and> fw_sniffer st' = observe (re_parse env) (fw_sniffer st) frames"
  using assms
proof (induction chunks arbitrary: body st frames)
  case Nil
  then show ?case by (auto simp: too_late_def on_time_def observe_def split: option.splits)
next
  case (Cons chunk chunks)
  obtain t rest where body: "body = (t, Some chunk) # rest" "map snd rest = map Some chunks"
    using Cons.prems(1) by (cases body) auto
  obtain q fs fs' where q: "sse_push (fw_pending st) chunk = (q, fs)" "pushes q chunks = (p, fs')" "frames = fs @ fs'"
    using Cons.prems(2) by (auto split: prod.splits)
  define first where "first = (case fw_first_token st of None \<Rightarrow> Some t | Some t0 \<Rightarrow> Some t0)"
  define st1 where "st1 = st\<lparr>fw_first_token := first, fw_pending := q,
      fw_sniffer := observe (re_parse env) (fw_sniffer st) fs, fw_sent := fw_sent st @ [RawBytes chunk]\<rparr>"
  have "\<not> too_late deadline t st"
    using Cons.prems(3) body(1) by (auto simp: too_late_def on_time_def split: option.splits)
  then have step: "forward_loop env True always deadline ended body st = forward_loop env True always deadline ended rest st1"
    by (simp add: body(1) first_def forward_chunk_def q(1) st1_def)
  have "fw_first_token st1 \<noteq> None" by (simp add: st1_def first_def split: option.split)
  with Cons.IH [of rest st1 fs'] body(2) q(2) show ?case
    by (simp add: step) (simp add: st1_def q(3) observe_def)
qed

section \<open>Replies that leave no trace\<close>

lemma note_first_token_ids_of: "if_request_id ` set (fst (note_first_token table rid at)) = if_request_id ` set table"
  using note_first_token_ids [of table rid at] by (metis list.set_map)

lemma announce_first_token_fields [simp]:
  "gw_ledger (announce_first_token ac first gw) = gw_ledger gw"
  "if_request_id ` set (gw_inflight (announce_first_token ac first gw)) = if_request_id ` set (gw_inflight gw)"
  by (simp_all add: announce_first_token_def note_first_token_ids_of split: option.split)

lemma adopt_pin_fields [simp]:
  "gw_ledger (adopt_pin ac gw) = gw_ledger gw" "gw_inflight (adopt_pin ac gw) = gw_inflight gw"
  by (simp_all add: adopt_pin_def split: option.split)

lemma finish_reply_ledger: "gw_ledger (finish_reply ac r elapsed gw) = ledger_entry (ac_call ac) r (ac_started_at ac + int elapsed) # gw_ledger gw"
  by (simp add: finish_reply_def record_request_def release_probe_def Let_def split: option.split)

section \<open>What a whole text translates to\<close>

definition final_events :: "('d, 'e) relay_env \<Rightarrow> ('d, 'e) relay \<Rightarrow> canonical_event list" where
  "final_events env r = (case sc_decode_finish (re_codec env) (rl_decoder r) of Inr events \<Rightarrow> events | Inl _ \<Rightarrow> [])"

definition final_text :: "('d, 'e) relay_env \<Rightarrow> ('d, 'e) relay \<Rightarrow> ustring" where
  "final_text env r = (case sc_encode_finish (re_codec env) (rl_encoder r) of Inr text \<Rightarrow> text | Inl _ \<Rightarrow> [])"

text \<open>The specification of a translation: decode all frames of the text and the decoder's last words,
  encode every event, close the encoder.\<close>

definition translate_text :: "('d, 'e) relay_env \<Rightarrow> ('d, 'e) relay \<Rightarrow> ustring \<Rightarrow> ustring \<times> reply_accumulator" where
  "translate_text env r text =
     (let r1 = foldl (relay_frame env) r (parse_sse text);
          r2 = foldl (relay_event env) r1 (final_events env r1)
      in (rl_out r2 @ final_text env r2, rl_reply r2))"

lemma final_forget [simp]:
  "final_events env (forget_output r) = final_events env r" "final_text env (forget_output r) = final_text env r"
  by (simp_all add: final_events_def final_text_def)

lemma forward_tail_always:
  assumes "r = foldl (relay_frame env) (forget_output (fw_relay st)) (sse_finish (fw_pending st))" and "rl_error r = None"
    and "r2 = foldl (relay_event env) (forget_output r) (final_events env r)"
  shows "written (fw_sent (forward_tail env always st)) = written (fw_sent st) @ rl_out r @ rl_out r2 @ final_text env r2"
    and "rl_reply (fw_relay (forward_tail env always st)) = rl_reply r2"
proof -
  define st1 where "st1 = foldl (tail_frame env always) st (sse_finish (fw_pending st))"
  define st2 where "st2 = foldl (tail_event env always) st1 (final_events env (fw_relay st1))"
  have st1: "written (fw_sent st1) = written (fw_sent st) @ rl_out r" "forget_output (fw_relay st1) = forget_output r"
    using tail_frames_always [of env st "sse_finish (fw_pending st)"] assms(1,2) by (simp_all add: st1_def)
  have ev: "final_events env (fw_relay st1) = final_events env r" using st1(2) by (metis final_forget(1))
  have st2: "written (fw_sent st2) = written (fw_sent st1) @ rl_out r2" "forget_output (fw_relay st2) = forget_output r2"
    using tail_events_always [of env st1 "final_events env r"] st1(2) by (simp_all add: st2_def ev assms(3))
  have ft: "final_text env (fw_relay st2) = final_text env r2" using st2(2) by (metis final_forget(2))
  have tail: "forward_tail env always st = (if final_text env (fw_relay st2) = [] then st2
      else st2\<lparr>fw_sent := fw_sent st2 @ [Written (final_text env (fw_relay st2))]\<rparr>)"
    by (simp add: forward_tail_def st2_def st1_def final_events_def final_text_def Let_def split: sum.split)
  show "written (fw_sent (forward_tail env always st)) = written (fw_sent st) @ rl_out r @ rl_out r2 @ final_text env r2"
    using tail ft st1(1) st2(1) by simp
  show "rl_reply (fw_relay (forward_tail env always st)) = rl_reply r2"
    using tail st2(2) by (metis forget_output_simps(3) forwarding.select_convs(2) forwarding.surjective forwarding.update_convs(4))
qed

lemma crlf_pushes:
  assumes "crlf_text (concat parts)" and "\<forall>part \<in> set parts. \<forall>c \<in> set part. scalar_value c"
  shows "pushes [] (map utf8_encode parts) = (concat parts, [])"
proof -
  have "pushes (concat (take i parts)) (map utf8_encode (drop i parts)) = (concat parts, [])" if "i \<le> length parts" for i
    using that
  proof (induction i rule: inc_induct)
    case (step i)
    then show ?case using crlf_push_silent [OF assms, of i] by (simp add: Cons_nth_drop_Suc [symmetric] split: prod.split)
  qed simp
  from this [of 0] show ?thesis by simp
qed

lemma forward_passthrough:
  assumes "ua_passthrough (ac_attempt ac)" and "map snd (rb_chunks body) = map Some chunks" and "pushes [] chunks = (p, frames)"
    and "on_time (first_token_deadline (ac_call ac) (ua_profile_id (ac_attempt ac))) (rb_ended_at body) (rb_chunks body)"
    and "sf = observe (re_parse env) (sniffer_new (ua_target (ac_attempt ac))) frames"
  shows "\<exists>gw1. forward env ac body always elapsed gw =
      (finish_reply ac (reply_result ac (\<not> us_terminal sf) (us_usage sf) elapsed None) elapsed gw1,
       map RawBytes chunks @ (if us_terminal sf then [] else [Written (cut_frame (re_print env))])) \<and> gw_ledger gw1 = gw_ledger gw"
proof -
  have start: "fw_pending (forward_start env ac) = []" "fw_sent (forward_start env ac) = []"
    "fw_sniffer (forward_start env ac) = sniffer_new (ua_target (ac_attempt ac))"
    by (simp_all add: forward_start_def Let_def)
  obtain st where st: "forward_loop env True always (first_token_deadline (ac_call ac) (ua_profile_id (ac_attempt ac)))
      (rb_ended_at body) (rb_chunks body) (forward_start env ac) = (st, StreamDone)"
    "fw_sent st = map RawBytes chunks" "fw_sniffer st = sf"
    using forward_loop_passthrough [OF assms(2), of "forward_start env ac" p frames
        "first_token_deadline (ac_call ac) (ua_profile_id (ac_attempt ac))" "rb_ended_at body" env] assms(3-5) start by auto
  let ?gw1 = "announce_first_token ac (fw_first_token st) (adopt_pin ac gw)"
  show ?thesis
    by (rule exI [of _ ?gw1]) (simp add: forward_def assms(1) st Let_def)
qed

text \<open>A translated stream is the specification applied to the whole text.\<close>

lemma forward_translation:
  assumes "\<not> ua_passthrough (ac_attempt ac)" and "map snd (rb_chunks body) = map (Some \<circ> utf8_encode) parts"
    and "\<forall>part \<in> set parts. \<forall>c \<in> set part. scalar_value c"
    and "on_time (first_token_deadline (ac_call ac) (ua_profile_id (ac_attempt ac))) (rb_ended_at body) (rb_chunks body)"
    and "rl_error (foldl (relay_frame env) (fw_relay (forward_start env ac)) (parse_sse (concat parts))) = None"
    and "forward env ac body always elapsed gw = (gw', sent)"
  shows "written sent = fst (translate_text env (fw_relay (forward_start env ac)) (concat parts)) \<and>
     (\<exists>row. gw_ledger gw' = row # gw_ledger gw \<and> lr_outcome row \<noteq> OutcomeFailed \<and> lr_status row = Some 200 \<and>
        lr_usage row = ra_usage (snd (translate_text env (fw_relay (forward_start env ac)) (concat parts))))"
proof -
  let ?s = "forward_start env ac"
  have start: "fw_pending ?s = []" "fw_sent ?s = []" "forget_output (fw_relay ?s) = fw_relay ?s"
    by (simp_all add: forward_start_def Let_def forget_output_def)
  obtain p frames where p: "pushes [] (map utf8_encode parts) = (p, frames)" by fastforce
  have all: "frames @ sse_finish p = parse_sse (concat parts)" using pushes_run [OF p] sse_run_encoded [OF assms(3)] by simp
  define r0 where "r0 = foldl (relay_frame env) (fw_relay ?s) frames"
  define r where "r = foldl (relay_frame env) (forget_output r0) (sse_finish p)"
  define r2 where "r2 = foldl (relay_event env) (forget_output r) (final_events env r)"
  have whole: "foldl (relay_frame env) (fw_relay ?s) (parse_sse (concat parts)) = resume r0 r"
    using relay_frames_resume [of env r0 "sse_finish p"] by (simp add: all [symmetric] r0_def r_def)
  have ok: "rl_error r0 = None" "rl_error r = None" using assms(5) by (simp_all add: whole)
  have spec: "translate_text env (fw_relay ?s) (concat parts) = (rl_out r0 @ rl_out r @ rl_out r2 @ final_text env r2, rl_reply r2)"
  proof -
    have fe: "final_events env (resume r0 r) = final_events env r" by (metis final_forget(1) resume_simps(1))
    have "foldl (relay_event env) (resume r0 r) (final_events env r) = resume (resume r0 r) r2"
      using relay_events_resume [of env "resume r0 r" "final_events env r"] by (simp add: r2_def)
    then show ?thesis
      by (simp add: translate_text_def whole fe Let_def) (metis final_forget(2) resume_simps(1))
  qed
  have ms: "map snd (rb_chunks body) = map Some (map utf8_encode parts)" using assms(2) by simp
  obtain st where st: "forward_loop env False always (first_token_deadline (ac_call ac) (ua_profile_id (ac_attempt ac)))
      (rb_ended_at body) (rb_chunks body) ?s = (st, StreamDone)"
    "fw_pending st = p" "written (fw_sent st) = rl_out r0" "forget_output (fw_relay st) = forget_output r0"
    using forward_loop_translated [OF ms, of ?s p frames "first_token_deadline (ac_call ac) (ua_profile_id (ac_attempt ac))"
        "rb_ended_at body" env] p assms(4) start ok(1) by (auto simp: r0_def)
  have tail: "written (fw_sent (forward_tail env always st)) = rl_out r0 @ rl_out r @ rl_out r2 @ final_text env r2"
    "rl_reply (fw_relay (forward_tail env always st)) = rl_reply r2"
    using forward_tail_always [of r env st r2] st ok(2) by (simp_all add: r_def r2_def)
  have out: "sent = fw_sent (forward_tail env always st)"
    "\<exists>gw1. gw' = finish_reply ac (reply_result ac False (ra_usage (rl_reply r2)) elapsed None) elapsed gw1 \<and> gw_ledger gw1 = gw_ledger gw"
    using assms(1,6) st(1) tail(2) by (auto simp: forward_def Let_def)
  then obtain gw1 where gw1: "gw' = finish_reply ac (reply_result ac False (ra_usage (rl_reply r2)) elapsed None) elapsed gw1"
    "gw_ledger gw1 = gw_ledger gw" by (elim exE conjE)
  show ?thesis
    using tail(1) spec by (simp add: out(1) gw1 finish_reply_ledger) (simp add: ledger_entry_def reply_result_def Let_def)
qed

section \<open>Properties\<close>

text \<open>C6: A streamed reply is a faithful translation: however the upstream's text is cut into chunks
  between characters, the text the client receives (keep-alive comments aside) is the encoding of
  the events decoded from the whole text, followed by the decoder's and the encoder's last words,
  with the client's own tool names; the ledger counts the usage of exactly that reply.\<close>
theorem forward_refines_translation:
  assumes "\<not> ua_passthrough (ac_attempt ac)" and "map snd (rb_chunks body) = map (Some \<circ> utf8_encode) parts"
    and "\<forall>part \<in> set parts. \<forall>c \<in> set part. scalar_value c"
    and "on_time (first_token_deadline (ac_call ac) (ua_profile_id (ac_attempt ac))) (rb_ended_at body) (rb_chunks body)"
    and "rl_error (foldl (relay_frame env) (fw_relay (forward_start env ac)) (parse_sse (concat parts))) = None"
    and "forward env ac body always elapsed gw = (gw', sent)"
  shows "written sent = fst (translate_text env (fw_relay (forward_start env ac)) (concat parts)) \<and>
     (\<exists>row. gw_ledger gw' = row # gw_ledger gw \<and> lr_outcome row \<noteq> OutcomeFailed \<and> lr_status row = Some 200 \<and>
        lr_usage row = ra_usage (snd (translate_text env (fw_relay (forward_start env ac)) (concat parts))))"
  by (rule forward_translation [OF assms])

text \<open>A codec that hands texts on, for the concrete replies below.\<close>

definition plain_codec :: "(unit, unit) stream_codec" where
  "plain_codec = \<lparr>sc_decode = (\<lambda>d data. (d, Inr [EvTextDelta data])), sc_decode_finish = (\<lambda>d. Inr []),
     sc_encode = (\<lambda>e ev. (e, Inr (case ev of EvTextDelta t \<Rightarrow> t | _ \<Rightarrow> []))), sc_encode_finish = (\<lambda>e. Inr (lit ''.'')),
     sc_keepalive = (\<lambda>e. None), sc_decoder = (\<lambda>p. ()), sc_encoder = (\<lambda>p m. ())\<rparr>"

definition sample_env :: "(unit, unit) relay_env" where
  "sample_env = \<lparr>re_codec = plain_codec, re_parse = (\<lambda>_. None), re_print = (\<lambda>_. []),
     re_names = \<lparr>original_to_wire = Map.empty, wire_to_original = Map.empty\<rparr>\<rparr>"

definition sample_answer :: "bool \<Rightarrow> answer_context" where
  "sample_answer pass = \<lparr>ac_call = sample_call,
     ac_attempt = \<lparr>ua_target = ChatCompletions, ua_passthrough = pass, ua_profile_id = lit ''p'', ua_key = lit ''k''\<rparr>,
     ac_failed_attempts = [], ac_skipped_members = [], ac_limit = None, ac_started_at = 0\<rparr>"

theorem forward_refines_translation_witness:
  "\<exists>gw' sent row. forward sample_env (sample_answer False)
       \<lparr>rb_chunks = [(1, Some (utf8_encode (lit ''data: a''))), (2, Some (utf8_encode [10, 10]))], rb_ended_at = 3\<rparr> always 4
       sample_gateway = (gw', sent) \<and> written sent = lit ''a.'' \<and> gw_ledger gw' = row # gw_ledger sample_gateway \<and>
     lr_status row = Some 200"
proof -
  let ?body = "\<lparr>rb_chunks = [(1, Some (utf8_encode (lit ''data: a''))), (2, Some (utf8_encode [10, 10]))], rb_ended_at = 3\<rparr>"
  have parse: "parse_sse (concat [lit ''data: a'', [10, 10]]) = [(None, lit ''a'')]" by code_simp
  have restore [simp]: "restore_event (re_names sample_env) ev = ev" for ev
    by (simp add: restore_event_def names_is_empty_def sample_env_def)
  have piece [simp]: "trim (lit ''a'') \<noteq> DONE" by code_simp
  obtain gw' sent where f: "forward sample_env (sample_answer False) ?body always 4 sample_gateway = (gw', sent)" by fastforce
  have tr: "fst (translate_text sample_env (fw_relay (forward_start sample_env (sample_answer False)))
      (concat [lit ''data: a'', [10, 10]])) = lit ''a.''"
    unfolding translate_text_def parse
    by (simp add: Let_def relay_frame_def relay_event_def forward_start_def final_events_def final_text_def
          sample_answer_def plain_codec_def del: lit_simps)
       (simp add: sample_env_def plain_codec_def relay_event_def restore_event_def names_is_empty_def)
  have err: "rl_error (foldl (relay_frame sample_env) (fw_relay (forward_start sample_env (sample_answer False)))
      (parse_sse (concat [lit ''data: a'', [10, 10]]))) = None"
    unfolding translate_text_def parse
    by (simp add: Let_def relay_frame_def relay_event_def forward_start_def final_events_def final_text_def
          sample_answer_def plain_codec_def del: lit_simps)
       (simp add: sample_env_def plain_codec_def relay_event_def restore_event_def names_is_empty_def)
  have time: "on_time (first_token_deadline (ac_call (sample_answer False)) (ua_profile_id (ac_attempt (sample_answer False))))
      (rb_ended_at ?body) (rb_chunks ?body)"
    by code_simp
  have ms: "map snd (rb_chunks ?body) = map (Some \<circ> utf8_encode) [lit ''data: a'', [10, 10]]" by (simp del: lit_simps)
  have "written sent = lit ''a.'' \<and> (\<exists>row. gw_ledger gw' = row # gw_ledger sample_gateway \<and> lr_status row = Some 200)"
    using forward_refines_translation [OF _ ms _ time err f] tr by (auto simp: sample_answer_def scalar_value_def)
  with f show ?thesis by blast
qed

text \<open>C32: A same-protocol reply is not touched: the client receives the upstream's chunks byte for
  byte, followed by an error frame exactly when no terminal event was read from them; the ledger
  says failed in that case only and counts the usage the frames reported.\<close>
theorem passthrough_reply_verbatim:
  assumes "ua_passthrough (ac_attempt ac)" and "map snd (rb_chunks body) = map Some chunks" and "pushes [] chunks = (p, frames)"
    and "on_time (first_token_deadline (ac_call ac) (ua_profile_id (ac_attempt ac))) (rb_ended_at body) (rb_chunks body)"
    and "forward env ac body always elapsed gw = (gw', sent)"
  shows "let sf = observe (re_parse env) (sniffer_new (ua_target (ac_attempt ac))) frames in
     sent = map RawBytes chunks @ (if us_terminal sf then [] else [Written (cut_frame (re_print env))]) \<and>
     (\<exists>row. gw_ledger gw' = row # gw_ledger gw \<and> (lr_outcome row = OutcomeFailed \<longleftrightarrow> \<not> us_terminal sf) \<and> lr_usage row = us_usage sf)"
  using forward_passthrough [OF assms(1-4) refl, of env elapsed gw] assms(5)
  by (auto simp: Let_def finish_reply_ledger ledger_entry_def reply_result_def)

theorem passthrough_reply_verbatim_witness:
  "snd (forward sample_env (sample_answer True)
      \<lparr>rb_chunks = [(1, Some (utf8_encode (lit ''data: [DONE]'' @ [10, 10])))], rb_ended_at = 3\<rparr> always 4 sample_gateway)
   = [RawBytes (utf8_encode (lit ''data: [DONE]'' @ [10, 10]))]"
proof -
  let ?c = "utf8_encode (lit ''data: [DONE]'' @ [10, 10])"
  let ?body = "\<lparr>rb_chunks = [(1, Some ?c)], rb_ended_at = 3\<rparr>"
  obtain gw' sent where f: "forward sample_env (sample_answer True) ?body always 4 sample_gateway = (gw', sent)" by fastforce
  have p: "pushes [] [?c] = ([], [(None, DONE)])" by code_simp
  have time: "on_time (first_token_deadline (ac_call (sample_answer True)) (ua_profile_id (ac_attempt (sample_answer True))))
      (rb_ended_at ?body) (rb_chunks ?body)"
    by code_simp
  have ended: "us_terminal (observe (re_parse sample_env) (sniffer_new (ua_target (ac_attempt (sample_answer True)))) [(None, DONE)])"
    by code_simp
  show ?thesis
    using passthrough_reply_verbatim [OF _ _ p time f] ended f by (simp add: Let_def sample_answer_def)
qed

text \<open>A complete same-protocol stream with CRLF line ends is reported as cut: whatever its frames
  say, an error frame is appended to it, the request is recorded as failed and its usage as zero.\<close>
lemma crlf_passthrough_reported_cut:
  assumes "ua_passthrough (ac_attempt ac)" and "map snd (rb_chunks body) = map (Some \<circ> utf8_encode) parts"
    and "crlf_text (concat parts)" and "\<forall>part \<in> set parts. \<forall>c \<in> set part. scalar_value c"
    and "on_time (first_token_deadline (ac_call ac) (ua_profile_id (ac_attempt ac))) (rb_ended_at body) (rb_chunks body)"
    and "forward env ac body always elapsed gw = (gw', sent)"
  shows "sent = map (RawBytes \<circ> utf8_encode) parts @ [Written (cut_frame (re_print env))] \<and>
     (\<exists>row. gw_ledger gw' = row # gw_ledger gw \<and> lr_outcome row = OutcomeFailed \<and> lr_status row = Some 502 \<and> lr_usage row = usage_default)"
proof -
  have "map snd (rb_chunks body) = map Some (map utf8_encode parts)" using assms(2) by simp
  from forward_passthrough [OF assms(1) this crlf_pushes [OF assms(3,4)] assms(5) refl, of env elapsed gw] assms(6)
  show ?thesis
    by (auto simp: observe_def sniffer_new_def finish_reply_ledger ledger_entry_def reply_result_def Let_def)
qed

lemma crlf_passthrough_reported_cut_witness:
  "snd (forward sample_env (sample_answer True)
      \<lparr>rb_chunks = [(1, Some (utf8_encode (lit ''data: [DONE]'' @ [13, 10, 13, 10])))], rb_ended_at = 3\<rparr> always 4 sample_gateway)
   = [RawBytes (utf8_encode (lit ''data: [DONE]'' @ [13, 10, 13, 10])), Written (cut_frame (re_print sample_env))]"
proof -
  let ?t = "lit ''data: [DONE]'' @ [13, 10, 13, 10]"
  let ?body = "\<lparr>rb_chunks = [(1, Some (utf8_encode ?t))], rb_ended_at = 3\<rparr>"
  obtain gw' sent where f: "forward sample_env (sample_answer True) ?body always 4 sample_gateway = (gw', sent)" by fastforce
  have time: "on_time (first_token_deadline (ac_call (sample_answer True)) (ua_profile_id (ac_attempt (sample_answer True))))
      (rb_ended_at ?body) (rb_chunks ?body)"
    by code_simp
  have c: "crlf_text (concat [?t])" by (auto simp: crlf_text_def Cons_eq_append_conv)
  have ms: "map snd (rb_chunks ?body) = map (Some \<circ> utf8_encode) [?t]" by (simp del: lit_simps)
  from crlf_passthrough_reported_cut [OF _ ms c _ time f] f show ?thesis by (simp add: sample_answer_def scalar_value_def)
qed

text \<open>A translated reply for a client that wants one body loses everything of a stream with CRLF
  line ends: the client is answered 200 with a reply that has no content, whatever the upstream said.\<close>
lemma crlf_gather_is_empty:
  assumes "\<not> ua_passthrough (ac_attempt ac)" and "whole_body (map snd (rb_chunks body)) = Some (utf8_encode text)"
    and "\<not> starts_object (utf8_encode text)" and "crlf_text text" and "\<forall>c \<in> set text. scalar_value c"
    and "gather env read_reply render ac body elapsed gw = (gw', Inr value)"
  shows "(\<exists>r. cp_parts r = [] \<and> render (pc_inbound (ac_call ac)) r = Inr value) \<and>
     (\<exists>row. gw_ledger gw' = row # gw_ledger gw \<and> lr_status row = Some 200)"
proof -
  let ?r = "gathered_response env read_reply (ua_target (ac_attempt ac)) False (utf8_encode text)"
  have "sse_push [] (utf8_encode text) = (text, [])"
    using crlf_push_silent [of "[text]" 0] assms(4,5) by simp
  then have parts: "cp_parts ?r = []"
    by (simp add: gathered_response_def gather_stream_def accumulator_finish_def accumulator_default_def Let_def assms(3))
  show ?thesis
  proof (cases "render (pc_inbound (ac_call ac)) (restore_response (re_names env) ?r)")
    case (Inr v)
    moreover have "cp_parts (restore_response (re_names env) ?r) = []" using parts by (simp add: restore_response_def)
    ultimately show ?thesis
      using assms(1,2,6)
      by (auto simp: gather_def Let_def finish_reply_ledger ledger_entry_def reply_result_def simp del: utf8_lossy.simps)
  qed (use assms in \<open>simp add: gather_def Let_def\<close>)
qed

lemma crlf_gather_is_empty_witness:
  "\<exists>gw'. gather sample_env (\<lambda>_ _. Inl UnsupportedImageReference) (\<lambda>_ r. Inr (JArray (map (\<lambda>_. JNull) (cp_parts r))))
       (sample_answer False) \<lparr>rb_chunks = [(1, Some (utf8_encode (lit ''data: x'' @ [13, 10, 13, 10])))], rb_ended_at = 3\<rparr> 4 sample_gateway
     = (gw', Inr (JArray [])) \<and> length (gw_ledger gw') = 1"
proof -
  let ?t = "lit ''data: x'' @ [13, 10, 13, 10]"
  let ?body = "\<lparr>rb_chunks = [(1, Some (utf8_encode ?t))], rb_ended_at = 3\<rparr>"
  let ?render = "\<lambda>(_ :: wire_protocol) r. Inr (JArray (map (\<lambda>_. JNull) (cp_parts r)))"
  obtain gw' v where f: "gather sample_env (\<lambda>_ _. Inl UnsupportedImageReference) ?render (sample_answer False) ?body 4 sample_gateway = (gw', Inr v)"
    by (simp add: gather_def Let_def)
  have c: "crlf_text ?t" by (auto simp: crlf_text_def Cons_eq_append_conv)
  have n: "\<not> starts_object (utf8_encode ?t)" by code_simp
  have "v = JArray [] \<and> length (gw_ledger gw') = 1"
    using crlf_gather_is_empty [OF _ _ n c _ f] by (auto simp: sample_answer_def scalar_value_def sample_gateway_def)
  with f show ?thesis by blast
qed

text \<open>A reply whose client left before it ended is never finished: nothing is written to the ledger
  and the request stays in the in-flight table.\<close>
lemma departed_client_untracked:
  assumes "forward_loop env (ua_passthrough (ac_attempt ac)) client
      (first_token_deadline (ac_call ac) (ua_profile_id (ac_attempt ac))) (rb_ended_at body) (rb_chunks body)
      (forward_start env ac) = (st, ClientGone)"
    and "forward env ac body client elapsed gw = (gw', sent)"
  shows "gw_ledger gw' = gw_ledger gw \<and> if_request_id ` set (gw_inflight gw') = if_request_id ` set (gw_inflight gw)"
proof -
  have "gw' = announce_first_token ac (fw_first_token st) (adopt_pin ac gw)" using assms by (simp add: forward_def Let_def)
  then show ?thesis by (simp only: announce_first_token_fields adopt_pin_fields simp_thms)
qed

lemma departed_client_untracked_witness:
  "gw_ledger (fst (forward sample_env (sample_answer True) \<lparr>rb_chunks = [(1, Some [65])], rb_ended_at = 3\<rparr> (\<lambda>_. False) 4 sample_gateway))
     = gw_ledger sample_gateway"
proof -
  let ?body = "\<lparr>rb_chunks = [(1, Some [65])], rb_ended_at = 3\<rparr>"
  obtain gw' sent where f: "forward sample_env (sample_answer True) ?body (\<lambda>_. False) 4 sample_gateway = (gw', sent)" by fastforce
  obtain st where "forward_loop sample_env (ua_passthrough (ac_attempt (sample_answer True))) (\<lambda>_. False)
      (first_token_deadline (ac_call (sample_answer True)) (ua_profile_id (ac_attempt (sample_answer True))))
      (rb_ended_at ?body) (rb_chunks ?body) (forward_start sample_env (sample_answer True)) = (st, ClientGone)"
  proof -
    have "first_token_deadline (ac_call (sample_answer True)) (ua_profile_id (ac_attempt (sample_answer True))) = None" by code_simp
    moreover obtain q fs where "sse_push (fw_pending (forward_start sample_env (sample_answer True))) [65] = (q, fs)" by fastforce
    moreover have "ua_passthrough (ac_attempt (sample_answer True))" by (simp add: sample_answer_def)
    ultimately show ?thesis
      using that by (simp add: too_late_def forward_chunk_def offer_def)
  qed
  from departed_client_untracked [OF this f] f show ?thesis by simp
qed

end
