(* ===== verification/Serve.thy ===== *)
theory Serve
  imports Reply
begin

text \<open>
  One HTTP request of an Agent from its arrival to its reply: the handlers of
  \<open>crates/model-gateway/src/server.rs\<close> (\<open>perimeter\<close>, \<open>gemini_call\<close>, \<open>percent_decode\<close>,
  \<open>body_with_path_selection\<close>, \<open>model_group_id\<close>, \<open>serve\<close>) and \<open>record_refusal\<close> of
  \<open>crates/model-gateway/src/service.rs\<close>. This is where the other components meet: \<open>serve\<close>
  prepares the request, opens it, waits and prepares again while the route is patient, counts the
  failure for the group's breaker, and hands the reply back. The world outside is a function of the
  number of retries. The loop runs on fuel; twelve rounds are enough for every patience a route may
  have.

  Facts: \<open>serve\<close> ends; a request leaves no probe slot behind; a failed request counts once for its
  group, however many members and retries it took; a Key whose credential was rejected is not called
  by any retry; the path an upstream would be called with is read back by the gateway's own handler.
\<close>

section \<open>The perimeter\<close>

definition rsplit_once :: "uchar \<Rightarrow> ustring \<Rightarrow> (ustring \<times> ustring) option" where
  "rsplit_once d s = (case split_once d (rev s) of None \<Rightarrow> None | Some (b, a) \<Rightarrow> Some (rev a, rev b))"

definition host_name :: "ustring \<Rightarrow> ustring" where
  "host_name host = trim_where (\<lambda>c. c = of_char CHR ''['' \<or> c = of_char CHR '']'')
     (case rsplit_once (of_char CHR '':'') host of Some (name, _) \<Rightarrow> name | None \<Rightarrow> host)"

definition perimeter :: "(ustring \<Rightarrow> ustring option) \<Rightarrow> bool \<Rightarrow> gateway_error + unit" where
  "perimeter headers has_origin =
     (if host_name (case headers (lit ''host'') of Some h \<Rightarrow> h | None \<Rightarrow> []) \<notin> {lit ''127.0.0.1'', lit ''localhost'', lit ''::1''}
      then Inl (NotConfigured (lit ''the gateway only accepts loopback requests''))
      else if has_origin then Inl (NotConfigured (lit ''the gateway does not accept browser requests''))
      else Inr ())"

section \<open>Gemini paths\<close>

definition hex_value :: "nat \<Rightarrow> nat option" where
  "hex_value b =
     (if 48 \<le> b \<and> b \<le> 57 then Some (b - 48)
      else if 97 \<le> b \<and> b \<le> 102 then Some (b - 97 + 10)
      else if 65 \<le> b \<and> b \<le> 70 then Some (b - 65 + 10)
      else None)"

fun decode_bytes :: "nat list \<Rightarrow> nat list" where
  "decode_bytes [] = []"
| "decode_bytes (b # bs) =
     (case bs of
        h # l # rest \<Rightarrow>
          (if b = 37 then
             (case (hex_value h, hex_value l) of
                (Some high, Some low) \<Rightarrow> (high * 16 + low) # decode_bytes rest
              | _ \<Rightarrow> b # decode_bytes bs)
           else b # decode_bytes bs)
      | _ \<Rightarrow> b # decode_bytes bs)"

definition percent_decode :: "ustring \<Rightarrow> ustring" where
  "percent_decode s = utf8_lossy (decode_bytes (utf8_encode s))"

text \<open>The model and the streaming flag of \<open>/v1beta/models/<model>:<action>\<close>; \<open>None\<close> is a 404.\<close>

definition gemini_call :: "ustring \<Rightarrow> (ustring \<times> bool) option" where
  "gemini_call path =
     (case strip_prefix (lit ''/v1beta/models/'') path of
        None \<Rightarrow> None
      | Some tail \<Rightarrow>
          (case rsplit_once (of_char CHR '':'') tail of
             None \<Rightarrow> None
           | Some (model, action) \<Rightarrow>
               if model = [] \<or> action \<notin> {lit ''generateContent'', lit ''streamGenerateContent''} then None
               else Some (percent_decode model, action = lit ''streamGenerateContent'')))"

definition body_with_path_selection :: "json option \<Rightarrow> ustring \<Rightarrow> bool \<Rightarrow> gateway_error + json" where
  "body_with_path_selection body model streaming =
     (case body of
        None \<Rightarrow> Inl (MalformedRequest (lit ''the body is not valid JSON''))
      | Some (JObject kvs) \<Rightarrow>
          (let named = (case as_str (map_of kvs (lit ''model'')) of Some m \<Rightarrow> trim m \<noteq> [] | None \<Rightarrow> False);
               kvs1 = (if named then kvs else obj_insert (lit ''model'') (JString model) kvs)
           in Inr (JObject (obj_insert (lit ''stream'') (JBool streaming) kvs1)))
      | Some _ \<Rightarrow> Inl (MalformedRequest (lit ''a Gemini request body must be a JSON object'')))"

definition model_group_id :: "json option \<Rightarrow> ustring option" where
  "model_group_id body =
     Option.bind body (\<lambda>v. Option.bind (as_str (get_field (lit ''model'') v)) resolved_group_id)"

section \<open>One request\<close>

text \<open>What the world is when \<open>serve\<close> has retried \<open>k\<close> times: the tables' snapshot, the request read
  from the body (or why it cannot be read), the members' answers, the clocks.\<close>

record turn =
  tn_snapshot :: gateway_snapshot
  tn_request :: "gateway_error + incoming"
  tn_members :: "nat \<Rightarrow> member_world"
  tn_shutting_down :: bool
  tn_recorded_at :: int
  tn_instant :: int

text \<open>The settings and library functions of one request.\<close>

record serve_config =
  sf_build :: codec
  sf_hash :: "ustring \<Rightarrow> nat"
  sf_walk :: walk_config
  sf_limit :: "token_limit option"

record opened =
  op_attempt :: upstream_attempt
  op_failed_attempts :: "(request_id \<times> failure_kind) list"
  op_skipped_members :: "(profile_id \<times> ustring \<times> failure_kind) list"

definition prepare_turn :: "serve_config \<Rightarrow> turn \<Rightarrow> gateway_state \<Rightarrow> gateway_state \<times> (gateway_error + prepared_call)" where
  "prepare_turn sf w gw =
     (case tn_request w of
        Inl e \<Rightarrow> (gw, Inl e)
      | Inr inc \<Rightarrow> prepare (sf_build sf) (sf_hash sf) (tn_snapshot w) inc gw)"

definition open_turn ::
    "serve_config \<Rightarrow> turn \<Rightarrow> prepared_call \<Rightarrow> gateway_state \<Rightarrow> gateway_state \<times> outbound list \<times> (gateway_error + opened)" where
  "open_turn sf w pc gw =
     (case open_attempt (tn_shutting_down w) (sf_limit sf)
         ((sf_walk sf)\<lparr>wc_stream := pc_stream pc, wc_requested_model := pc_requested_model pc\<rparr>) pc (tn_members w) (tn_recorded_at w) gw of
        (s, Inl e) \<Rightarrow> (at_gateway s, at_sent s, Inl e)
      | (s, Inr a) \<Rightarrow> (at_gateway s, at_sent s,
          Inr \<lparr>op_attempt = a, op_failed_attempts = at_attempts s, op_skipped_members = at_skipped s\<rparr>))"

record serve_state =
  ss_gateway :: gateway_state
  ss_call :: prepared_call
  ss_sent :: "outbound list"
  ss_result :: "gateway_error + opened"
  ss_retries :: nat

definition retry_turn :: "serve_config \<Rightarrow> (nat \<Rightarrow> turn) \<Rightarrow> serve_state \<Rightarrow> serve_state" where
  "retry_turn sf worlds s =
     (let retries = min (ss_retries s + 1) 4294967295; w = worlds retries in
      case prepare_turn sf w (ss_gateway s) of
        (gw, Inl e) \<Rightarrow> s\<lparr>ss_gateway := gw, ss_result := Inl e, ss_retries := retries\<rparr>
      | (gw, Inr fresh) \<Rightarrow>
          (case open_turn sf w fresh gw of
             (gw', sent, r) \<Rightarrow> \<lparr>ss_gateway = gw', ss_call = fresh, ss_sent = ss_sent s @ sent, ss_result = r, ss_retries = retries\<rparr>))"

text \<open>Whether the loop goes round once more.\<close>

definition waits :: "int option \<Rightarrow> (nat \<Rightarrow> turn) \<Rightarrow> serve_state \<Rightarrow> bool" where
  "waits deadline worlds s \<longleftrightarrow>
     (case (ss_result s, deadline, patience_delay (ss_retries s)) of
        (Inl e, Some d, Some delay) \<Rightarrow> is_recoverable e \<and> tn_instant (worlds (ss_retries s)) + int delay < d
      | _ \<Rightarrow> False)"

fun serve_loop :: "nat \<Rightarrow> serve_config \<Rightarrow> int option \<Rightarrow> (nat \<Rightarrow> turn) \<Rightarrow> serve_state \<Rightarrow> serve_state option" where
  "serve_loop 0 sf deadline worlds s = None"
| "serve_loop (Suc fuel) sf deadline worlds s =
     (if waits deadline worlds s then serve_loop fuel sf deadline worlds (retry_turn sf worlds s) else Some s)"

definition refusal_row :: "wire_protocol \<Rightarrow> ustring option \<Rightarrow> request_id \<Rightarrow> json option \<Rightarrow> gateway_error \<Rightarrow> int \<Rightarrow> ledger_row" where
  "refusal_row inbound agent rid body e now =
     \<lparr>lr_request_id = rid, lr_agent_id = agent, lr_profile = None, lr_credential = None,
      lr_model_requested = (case Option.bind body (\<lambda>v. as_str (get_field (lit ''model'') v)) of Some m \<Rightarrow> m | None \<Rightarrow> []),
      lr_model_served = None, lr_wire_in = wire_protocol_id inbound, lr_wire_out = wire_protocol_id inbound,
      lr_status = Some (error_status e), lr_usage = usage_default, lr_latency_ms = None, lr_outcome = OutcomeRejected,
      lr_failed_attempts = [], lr_skipped_members = [], lr_error_code = Some (error_code e), lr_error_message = None,
      lr_decision = None, lr_skipped_cooling = 0, lr_skipped_over_limit = 0, lr_created_at_ms = now\<rparr>"

definition count_failure :: "gateway_error \<Rightarrow> ustring option \<Rightarrow> int \<Rightarrow> gateway_state \<Rightarrow> gateway_state" where
  "count_failure e group_id now gw = gw\<lparr>gw_service := count_failed_request (gw_service gw) e group_id now\<rparr>"

text \<open>An incoming HTTP request: headers, the JSON value of its body, whether a browser sent it.\<close>

record http_request =
  hr_protocol :: wire_protocol
  hr_headers :: "ustring \<Rightarrow> ustring option"
  hr_origin :: bool
  hr_body :: "json option"
  hr_agent :: "ustring option"
  hr_refusal_id :: request_id
  hr_now :: int
  hr_failed_at :: int

datatype served =
    ServedError gateway_error
  | ServedCall prepared_call opened

text \<open>\<open>serve\<close> up to the point where a member answers: the tables, what was sent to upstreams and either
  the error the client gets or the call whose reply is handed back.\<close>

definition serve_open ::
    "serve_config \<Rightarrow> http_request \<Rightarrow> (nat \<Rightarrow> turn) \<Rightarrow> gateway_state \<Rightarrow> (gateway_state \<times> outbound list \<times> served) option" where
  "serve_open sf rq worlds gw =
     (case perimeter (hr_headers rq) (hr_origin rq) of
        Inl e \<Rightarrow> Some (gw, [], ServedError e)
      | Inr _ \<Rightarrow>
          (case prepare_turn sf (worlds 0) gw of
             (gw1, Inl e) \<Rightarrow>
               let gw2 = count_failure e (model_group_id (hr_body rq)) (hr_failed_at rq) gw1 in
               Some (gw2\<lparr>gw_ledger := refusal_row (hr_protocol rq) (hr_agent rq) (hr_refusal_id rq) (hr_body rq) e (hr_failed_at rq)
                       # gw_ledger gw2\<rparr>, [], ServedError e)
           | (gw1, Inr pc) \<Rightarrow>
               (case open_turn sf (worlds 0) pc gw1 of
                  (gw2, sent, r) \<Rightarrow>
                    (case serve_loop 12 sf (patience_deadline (pc_patience_ms pc) (hr_now rq)) worlds
                         \<lparr>ss_gateway = gw2, ss_call = pc, ss_sent = sent, ss_result = r, ss_retries = 0\<rparr> of
                       None \<Rightarrow> None
                     | Some s \<Rightarrow>
                         let call = (ss_call s)\<lparr>pc_retries := ss_retries s,
                               pc_route_decision := (pc_route_decision (ss_call s))\<lparr>dt_retries := ss_retries s\<rparr>\<rparr>
                         in Some (case ss_result s of
                              Inl e \<Rightarrow> (count_failure e (pc_group_id call) (hr_failed_at rq) (ss_gateway s), ss_sent s, ServedError e)
                            | Inr a \<Rightarrow> (ss_gateway s, ss_sent s, ServedCall call a))))))"

datatype client_reply =
    ReplyError gateway_error
  | ReplyBody json
  | ReplyStream "client_message list"

text \<open>How the answering member's reply comes in and the client takes it.\<close>

record reply_world =
  rw_body :: reply_body
  rw_client :: "nat \<Rightarrow> bool"
  rw_started_at :: int
  rw_elapsed :: nat

definition serve ::
    "('d, 'e) relay_env \<Rightarrow> (wire_protocol \<Rightarrow> nat list \<Rightarrow> gateway_error + canonical_response) \<Rightarrow>
      (wire_protocol \<Rightarrow> canonical_response \<Rightarrow> gateway_error + json) \<Rightarrow> serve_config \<Rightarrow> http_request \<Rightarrow> (nat \<Rightarrow> turn) \<Rightarrow> reply_world \<Rightarrow>
      gateway_state \<Rightarrow> (gateway_state \<times> outbound list \<times> client_reply) option" where
  "serve env read_reply render sf rq worlds rw gw =
     (case serve_open sf rq worlds gw of
        None \<Rightarrow> None
      | Some (gw1, sent, ServedError e) \<Rightarrow> Some (gw1, sent, ReplyError e)
      | Some (gw1, sent, ServedCall call a) \<Rightarrow>
          let ac = \<lparr>ac_call = call, ac_attempt = op_attempt a, ac_failed_attempts = op_failed_attempts a,
                ac_skipped_members = op_skipped_members a, ac_limit = sf_limit sf, ac_started_at = rw_started_at rw\<rparr>;
              env' = env\<lparr>re_names := pc_tool_names call\<rparr>
          in if pc_stream call
             then (case forward env' ac (rw_body rw) (rw_client rw) (rw_elapsed rw) gw1 of
                 (gw2, ms) \<Rightarrow> Some (gw2, sent, ReplyStream ms))
             else (case gather env' read_reply render ac (rw_body rw) (rw_elapsed rw) gw1 of
                 (gw2, Inl e) \<Rightarrow> Some (gw2, sent, ReplyError e)
               | (gw2, Inr v) \<Rightarrow> Some (gw2, sent, ReplyBody v)))"

section \<open>The retry loop\<close>

lemma serve_loop_inv:
  assumes "serve_loop fuel sf deadline worlds s = Some s'" and "P s"
    and "\<And>s. P s \<Longrightarrow> waits deadline worlds s \<Longrightarrow> P (retry_turn sf worlds s)"
  shows "P s'"
  using assms(1,2)
  by (induction fuel arbitrary: s) (auto split: if_splits intro: assms(3))

lemma retry_turn_retries: "ss_retries (retry_turn sf worlds s) = min (ss_retries s + 1) 4294967295"
  by (simp add: retry_turn_def Let_def split: prod.split sum.split)

text \<open>A round of \<open>serve\<close> waits only when the clock would let an attempt that always fails wait, so the
  plain patience loop bounds it.\<close>

abbreviation always_cooling :: "nat \<Rightarrow> gateway_error + unit" where
  "always_cooling \<equiv> \<lambda>_. Inl (AllKeysCooling [] None)"

lemma waits_clock:
  "waits deadline worlds s \<Longrightarrow> \<exists>d delay. deadline = Some d \<and> patience_delay (ss_retries s) = Some delay \<and>
     tn_instant (worlds (ss_retries s)) + int delay < d"
  by (auto simp: waits_def split: sum.splits option.splits)

lemma patience_loop_counts:
  "patience_loop fuel deadline clock attempt k = Some (r, n) \<Longrightarrow> k \<le> 4294967295 \<Longrightarrow> k \<le> n"
proof (induction fuel arbitrary: k)
  case (Suc fuel)
  then show ?case by (fastforce split: sum.splits option.splits if_splits)
qed simp

lemma serve_loop_patience:
  assumes "patience_loop fuel deadline (\<lambda>k. tn_instant (worlds k)) always_cooling (ss_retries s) = Some (r, n)"
    and "ss_retries s \<le> 4294967295"
  shows "\<exists>s'. serve_loop fuel sf deadline worlds s = Some s' \<and> ss_retries s' \<le> n"
  using assms
proof (induction fuel arbitrary: s)
  case (Suc fuel)
  show ?case
  proof (cases "waits deadline worlds s")
    case True
    from waits_clock [OF this] obtain d delay where d: "deadline = Some d" "patience_delay (ss_retries s) = Some delay"
      "\<not> d \<le> tn_instant (worlds (ss_retries s)) + int delay" by force
    with Suc.prems have "patience_loop fuel deadline (\<lambda>k. tn_instant (worlds k)) always_cooling
        (ss_retries (retry_turn sf worlds s)) = Some (r, n)"
      by (simp add: retry_turn_retries)
    moreover have "ss_retries (retry_turn sf worlds s) \<le> 4294967295" by (simp add: retry_turn_retries)
    ultimately show ?thesis using Suc.IH True by simp
  next
    case False
    with patience_loop_counts [OF Suc.prems] show ?thesis by simp
  qed
qed simp

text \<open>What the loop returns depends on the turns it took and on none after them.\<close>

lemma serve_loop_retries:
  "serve_loop fuel sf deadline worlds s = Some s' \<Longrightarrow> ss_retries s \<le> 4294967295 \<Longrightarrow> ss_retries s \<le> ss_retries s'"
proof (induction fuel arbitrary: s)
  case (Suc fuel)
  show ?case
  proof (cases "waits deadline worlds s")
    case True
    with Suc.prems Suc.IH [of "retry_turn sf worlds s"] show ?thesis by (simp add: retry_turn_retries)
  qed (use Suc.prems in simp)
qed simp

lemma serve_loop_local:
  "serve_loop fuel sf deadline worlds s = Some s' \<Longrightarrow> ss_retries s \<le> 4294967295 \<Longrightarrow>
     \<forall>k \<le> ss_retries s'. worlds' k = worlds k \<Longrightarrow> serve_loop fuel sf deadline worlds' s = Some s'"
proof (induction fuel arbitrary: s)
  case (Suc fuel)
  have "worlds' (ss_retries s) = worlds (ss_retries s)"
    using serve_loop_retries [OF Suc.prems(1,2)] Suc.prems(3) by simp
  then have w: "waits deadline worlds' s = waits deadline worlds s" by (simp add: waits_def split: sum.split option.split)
  show ?case
  proof (cases "waits deadline worlds s")
    case True
    let ?s = "retry_turn sf worlds s"
    from Suc.prems(1) True have l: "serve_loop fuel sf deadline worlds ?s = Some s'" by simp
    have b: "ss_retries ?s \<le> 4294967295" by (simp add: retry_turn_retries)
    from serve_loop_retries [OF l b] Suc.prems(3) have "worlds' (ss_retries ?s) = worlds (ss_retries ?s)" by simp
    then have "worlds' (min (ss_retries s + 1) 4294967295) = worlds (min (ss_retries s + 1) 4294967295)"
      by (simp only: retry_turn_retries)
    then have "retry_turn sf worlds' s = ?s" by (simp only: retry_turn_def Let_def)
    with Suc.IH [OF l b Suc.prems(3)] w True show ?thesis by simp
  qed (use Suc.prems w in simp)
qed simp

lemma serve_loop_ends:
  assumes "sleeps (\<lambda>k. tn_instant (worlds k))" and "start \<le> tn_instant (worlds 0)" and "ss_retries s = 0"
    and "case patience of None \<Rightarrow> True | Some p \<Rightarrow> p \<le> MAX_ROUTE_PATIENCE_MS"
  shows "\<exists>s'. serve_loop 12 sf (patience_deadline patience start) worlds s = Some s' \<and> ss_retries s' \<le> 10"
proof (cases "patience = None \<or> patience = Some 0")
  case True
  then have "\<not> waits (patience_deadline patience start) worlds s"
    by (auto simp: waits_def patience_deadline_def split: sum.split)
  moreover have "(12::nat) = Suc 11" by simp
  ultimately show ?thesis using assms(3) by (metis serve_loop.simps(2) le0)
next
  case False
  then obtain p where p: "patience = Some p" "p \<in> {1..MAX_ROUTE_PATIENCE_MS}" using assms(4) by (cases patience) auto
  obtain r n where "patience_loop 12 (patience_deadline (Some p) start) (\<lambda>k. tn_instant (worlds k)) always_cooling 0 = Some (r, n)" "n \<le> 10"
    using patience_loop_bounded [OF assms(1,2) p(2), of always_cooling] by blast
  with serve_loop_patience [of 12 "patience_deadline patience start" worlds s r n sf] assms(3) p(1) show ?thesis by fastforce
qed

section \<open>What a request leaves behind\<close>

definition failures :: "gateway_state \<Rightarrow> ustring \<Rightarrow> nat \<times> int" where
  "failures gw g = (br_consecutive_failures (breaker_entry (sv_breakers (gw_service gw)) g),
     br_last_failure_at_ms (breaker_entry (sv_breakers (gw_service gw)) g))"

lemma release_probe_fields [simp]:
  "failures (release_probe gw h probe) g = failures gw g" "gw_accounts (release_probe gw h probe) = gw_accounts gw"
  by (simp_all add: failures_def release_probe_def finish_attempt_entry)

lemma admit_fields:
  assumes "admit gw group_id = (gw', r)"
  shows "failures gw' g = failures gw g" "gw_accounts gw' = gw_accounts gw"
proof -
  have "failures gw' g = failures gw g \<and> gw_accounts gw' = gw_accounts gw"
  proof (cases group_id)
    case (Some h)
    then show ?thesis using assms begin_attempt_entry [of "sv_breakers (gw_service gw)" h g]
      by (auto simp: admit_def failures_def split: prod.splits)
  qed (use assms in \<open>simp add: admit_def\<close>)
  then show "failures gw' g = failures gw g" "gw_accounts gw' = gw_accounts gw" by simp_all
qed

lemma prepare_call_state:
  assumes "prepare_call build hash sn inc pinned conversation pin members d gw = (gw', r)"
  shows "gw_accounts gw' = gw_accounts gw \<and> failures gw' g = failures gw g \<and>
     (\<forall>pc. r = Inr pc \<longrightarrow> pc_patience_ms pc = Option.bind (request_group sn (in_request inc)) gg_patience_ms \<and>
        (pc_probe pc \<longrightarrow> pc_group_id pc \<noteq> None) \<and>
        probing gw' g = (if pc_probe pc \<and> pc_group_id pc = Some g then True else probing gw g))"
proof -
  obtain gw1 q where ad: "admit gw (resolved_group_id (cr_model (in_request inc))) = (gw1, q)" by fastforce
  note ad_fields = admit_fields [OF ad] admit_probing(1) [OF ad, of g] admit_probing(2) [OF ad]
  have [simp]: "failures (gw1\<lparr>gw_lessons := lb, gw_rotation := rot\<rparr>) h = failures gw1 h"
    "probing (gw1\<lparr>gw_lessons := lb, gw_rotation := rot\<rparr>) h = probing gw1 h" for lb rot h
    by (simp_all add: failures_def probing_def)
  show ?thesis
  proof (cases q)
    case (Inl e)
    then show ?thesis using assms ad ad_fields by (auto simp: prepare_call_def Let_def)
  next
    case (Inr probe)
    then show ?thesis using assms ad ad_fields
      by (auto simp: prepare_call_def Let_def split: prod.splits if_splits)
  qed
qed

lemma prepare_turn_state:
  assumes "prepare_turn sf w gw = (gw', r)"
  shows "gw_accounts gw' = gw_accounts gw" and "failures gw' g = failures gw g"
    and "r = Inl e \<Longrightarrow> probing gw' g = probing gw g"
    and "r = Inr pc \<Longrightarrow> probing gw' g = (if pc_probe pc \<and> pc_group_id pc = Some g then True else probing gw g)"
    and "r = Inr pc \<Longrightarrow> pc_probe pc \<Longrightarrow> pc_group_id pc \<noteq> None"
    and "r = Inr pc \<Longrightarrow> \<exists>inc. tn_request w = Inr inc \<and>
       pc_patience_ms pc = Option.bind (request_group (tn_snapshot w) (in_request inc)) gg_patience_ms"
proof -
  have rot [simp]: "failures (gw\<lparr>gw_member_rotation := n\<rparr>) h = failures gw h"
    "probing (gw\<lparr>gw_member_rotation := n\<rparr>) h = probing gw h" for n h
    by (simp_all add: failures_def probing_def)
  have "gw_accounts gw' = gw_accounts gw \<and> failures gw' g = failures gw g \<and> (\<forall>e. r = Inl e \<longrightarrow> probing gw' g = probing gw g) \<and>
    (\<forall>pc. r = Inr pc \<longrightarrow> probing gw' g = (if pc_probe pc \<and> pc_group_id pc = Some g then True else probing gw g) \<and>
       (pc_probe pc \<longrightarrow> pc_group_id pc \<noteq> None) \<and> (\<exists>inc. tn_request w = Inr inc \<and>
       pc_patience_ms pc = Option.bind (request_group (tn_snapshot w) (in_request inc)) gg_patience_ms))"
  proof (cases "tn_request w")
    case (Inl e)
    then show ?thesis using assms by (auto simp: prepare_turn_def)
  next
    case (Inr inc)
    then have p: "prepare (sf_build sf) (sf_hash sf) (tn_snapshot w) inc gw = (gw', r)" using assms by (simp add: prepare_turn_def)
    show ?thesis
    proof (cases rule: prepare_cases [of "sf_build sf" "sf_hash sf" "tn_snapshot w" inc gw])
      case (resolved n members d)
      note call = resolved(2) [symmetric, unfolded p]
      have "r = Inl e \<Longrightarrow> probing gw' g = probing gw g" for e
        using prepare_call_probing [of "sf_build sf" "sf_hash sf" "tn_snapshot w" inc _ _ _ members d _ gw' e g] call by (metis rot(2))
      with prepare_call_state [OF call, of g] Inr show ?thesis by auto
    qed (use p in auto)
  qed
  then show "gw_accounts gw' = gw_accounts gw" "failures gw' g = failures gw g" "r = Inl e \<Longrightarrow> probing gw' g = probing gw g"
    "r = Inr pc \<Longrightarrow> probing gw' g = (if pc_probe pc \<and> pc_group_id pc = Some g then True else probing gw g)"
    "r = Inr pc \<Longrightarrow> pc_probe pc \<Longrightarrow> pc_group_id pc \<noteq> None"
    "r = Inr pc \<Longrightarrow> \<exists>inc. tn_request w = Inr inc \<and>
       pc_patience_ms pc = Option.bind (request_group (tn_snapshot w) (in_request inc)) gg_patience_ms"
    by auto
qed

lemma walk_members_service:
  "walk_members cfg pc ws i ms err s = (s', Inl e) \<Longrightarrow> gw_service (at_gateway s') = gw_service (at_gateway s)"
proof (induction ms arbitrary: i err s)
  case (Cons m rest)
  from Cons.prems show ?case
  proof (cases rule: walk_members_step)
    case (stop s1 e gw)
    then show ?thesis using call_member_service [OF stop(1)] by simp
  next
    case (skip s1 q e kind gw)
    then show ?thesis using call_member_service [OF skip(1)] Cons.IH [OF skip(5)] by simp
  qed simp
qed simp

lemma record_request_fields [simp]:
  "failures (record_request limit pc r now gw) g = failures gw g" "gw_accounts (record_request limit pc r now gw) = gw_accounts gw"
proof -
  have [simp]: "failures (gw\<lparr>gw_inflight := a, gw_latency := b, gw_ledger := c, gw_windows := d\<rparr>) g = failures gw g" for gw a b c d
    by (simp add: failures_def)
  show "failures (record_request limit pc r now gw) g = failures gw g" "gw_accounts (record_request limit pc r now gw) = gw_accounts gw"
    by (simp_all add: record_request_def Let_def split: option.split)
qed

lemma open_turn_probing:
  assumes "open_turn sf w pc gw = (gw', sent, r)" and "pc_probe pc \<Longrightarrow> pc_group_id pc \<noteq> None" and "probing gw' g"
  shows "probing gw g \<and> \<not> (pc_probe pc \<and> pc_group_id pc = Some g)"
proof -
  obtain s q where o: "open_attempt (tn_shutting_down w) (sf_limit sf)
      ((sf_walk sf)\<lparr>wc_stream := pc_stream pc, wc_requested_model := pc_requested_model pc\<rparr>) pc (tn_members w) (tn_recorded_at w) gw = (s, q)"
    by fastforce
  then have "gw' = at_gateway s" using assms(1) by (cases q) (auto simp: open_turn_def)
  with open_attempt_probing [OF o, of g] assms(2,3) show ?thesis by (cases "pc_group_id pc = Some g") (auto split: if_splits)
qed

lemma open_turn_failures:
  assumes "open_turn sf w pc gw = (gw', sent, Inl e)"
  shows "failures gw' g = failures gw g"
proof -
  let ?cfg = "(sf_walk sf)\<lparr>wc_stream := pc_stream pc, wc_requested_model := pc_requested_model pc\<rparr>"
  obtain s1 q where wm: "walk_members ?cfg pc (tn_members w) 0 (pc_members pc) None (walk_start gw) = (s1, q)" by fastforce
  have "failures (at_gateway s1) g = failures gw g" if "q = Inl er" for er
    using walk_members_service [OF wm [unfolded that]] by (simp add: failures_def walk_start_def)
  with assms wm show ?thesis
    by (cases q) (auto simp: open_turn_def open_attempt_def walk_start_def Let_def split: if_splits)
qed

section \<open>Retired Keys\<close>

definition retired :: "account_store \<Rightarrow> profile_id \<Rightarrow> request_id \<Rightarrow> bool" where
  "retired st p c \<longleftrightarrow> store_wf st \<and> key_rejected st p c"

lemma retired_other:
  assumes "retired st p c" and "(p', c') \<noteq> (p, c)"
  shows "retired (mark_failure ovs st p' c' kind now) p c" "retired (clear_failure st p' c' now) p c"
  using assms key_rejected_step [of st p c "OpMarkFailure ovs p' c' kind" now]
    key_rejected_step [of st p c "OpClearFailure p' c'" now]
  by (auto simp: retired_def mark_failure_wf clear_failure_wf)

lemma try_calls_retired:
  "try_calls cfg m c' guessing send clock i calls wk = (wk', r) \<Longrightarrow> (pm_profile_id m, c') \<noteq> (p, c) \<Longrightarrow>
     retired (wk_accounts wk) p c \<Longrightarrow> retired (wk_accounts wk') p c"
proof (induction calls arbitrary: i wk)
  case (Cons call rest)
  obtain delay answer where ans: "send i = (delay, answer)" by fastforce
  show ?case
    using Cons.prems Cons.IH [where wk = "note_attempt c' Other wk0" for wk0]
    by (auto simp: Let_def ans retired_other split: sum.splits reply.splits if_splits)
qed simp

lemma try_keys_retired:
  "try_keys cfg m w k cs err wk = (wk', r) \<Longrightarrow> pm_profile_id m \<noteq> p \<or> c \<notin> set cs \<Longrightarrow>
     retired (wk_accounts wk) p c \<Longrightarrow> retired (wk_accounts wk') p c"
proof (induction cs arbitrary: k err wk)
  case (Cons c' cs)
  obtain wk1 q where q: "try_calls cfg m c' (1 < length (member_calls m)) (mw_send w k) (mw_clock w k) 0 (member_calls m) wk = (wk1, q)"
    by fastforce
  have "retired (wk_accounts wk1) p c" using try_calls_retired [OF q] Cons.prems by auto
  then show ?case
    using Cons.prems Cons.IH q by (auto split: secret_read.splits option.splits call_end.splits)
qed simp

lemma try_keys_credential:
  "try_keys cfg m w k cs err wk = (wk', Inr (target, pass, c)) \<Longrightarrow> c \<in> set cs"
  by (induction cs arbitrary: k err wk) (fastforce split: secret_read.splits option.splits call_end.splits prod.splits)+

lemma call_member_retired:
  assumes "call_member cfg pc i m w s = (s', r)" and "pm_profile_id m \<noteq> p \<or> c \<notin> member_credentials m"
    and "retired (gw_accounts (at_gateway s)) p c"
  shows "retired (gw_accounts (at_gateway s')) p c"
    and "r = Inr (target, pass, c') \<Longrightarrow> (pm_profile_id m, c') \<noteq> (p, c)"
proof -
  obtain wk where t: "try_keys cfg m w 0 (map (ck_credential \<circ> fst) (pm_keys m)) None
      \<lparr>wk_accounts = gw_accounts (at_gateway s), wk_lessons = gw_lessons (at_gateway s), wk_attempts = at_attempts s, wk_sent = at_sent s\<rparr>
      = (wk, r)" and acc: "gw_accounts (at_gateway s') = wk_accounts wk"
    using assms(1) by (auto simp: call_member_def open_member_attempt_def announce_def Let_def split: prod.splits)
  from try_keys_retired [OF t, of p c] assms(2,3) show "retired (gw_accounts (at_gateway s')) p c"
    by (simp add: acc member_credentials_def)
  show "r = Inr (target, pass, c') \<Longrightarrow> (pm_profile_id m, c') \<noteq> (p, c)"
    using try_keys_credential t assms(2) by (fastforce simp: member_credentials_def)
qed

lemma walk_members_retired:
  "walk_members cfg pc ws i ms err s = (s', r) \<Longrightarrow>
     \<forall>m \<in> set ms. pm_profile_id m \<noteq> p \<or> c \<notin> member_credentials m \<Longrightarrow>
     retired (gw_accounts (at_gateway s)) p c \<Longrightarrow> retired (gw_accounts (at_gateway s')) p c"
proof (induction ms arbitrary: i err s)
  case (Cons m rest)
  from Cons.prems(1) show ?case
  proof (cases rule: walk_members_step)
    case (answer s1 target pass c')
    then show ?thesis
      using call_member_retired(1) [OF answer(1), of p c] call_member_retired(2) [OF answer(1), of p c target pass c'] Cons.prems(2,3) by (auto simp: answer_state_def retired_other)
  next
    case (stop s1 e gw)
    then show ?thesis using call_member_retired(1) [OF stop(1)] Cons.prems(2,3) by simp
  next
    case (skip s1 q e kind gw)
    then show ?thesis using call_member_retired(1) [OF skip(1)] Cons.prems(2,3) Cons.IH [OF skip(5)] by simp
  qed
qed simp

lemma member_credentials_prepared:
  assumes "prepare_member build sn rx accounts resolved s = (s', Inr m)"
  shows "member_credentials m = set (map (cd_id \<circ> snd) (pm_keys m))"
proof -
  obtain up plan endpoint rotation where a: "assemble_member build sn rx resolved up plan endpoint
        (member_candidates sn accounts (rx_now rx) up (rv_model resolved))
        (member_key_plan rx resolved rotation (member_candidates sn accounts (rx_now rx) up (rv_model resolved))) = Inr m"
    by (rule prepare_member_InrD [OF assms])
  have "ck_credential k = cd_id cr" if "(k, cr) \<in> set (pm_keys m)" for k cr
  proof -
    from that have "(k, cr) \<in> set (member_candidates sn accounts (rx_now rx) up (rv_model resolved))"
      by (auto simp: assemble_member_InrD(2) [OF a] planned_keys_def set_map_filter dest: find_SomeD)
    then show ?thesis by (auto simp: set_member_candidates)
  qed
  then show ?thesis by (force simp: member_credentials_def)
qed

lemma retired_not_prepared:
  assumes "prepare build hash sn inc gw = (gw', Inr pc)" and "retired (gw_accounts gw) p c"
  shows "\<forall>m \<in> set (pc_members pc). pm_profile_id m \<noteq> p \<or> c \<notin> member_credentials m"
proof (intro ballI)
  fix m assume m: "m \<in> set (pc_members pc)"
  obtain r rx t t' where pm: "prepare_member build sn rx (gw_accounts gw) r t = (t', Inr m)"
    using prepare_members_of_call [OF assms(1) m] by blast
  have "visibility_at (account_of (gw_accounts gw) p c (rx_now rx)) (rx_now rx) \<noteq> KeyReady"
    using key_rejected_never_ready [of "gw_accounts gw" p c "rx_now rx" "rx_now rx"] assms(2) by (auto simp: retired_def)
  moreover have "visibility_at (account_of (gw_accounts gw) (pm_profile_id m) d (rx_now rx)) (rx_now rx) = KeyReady"
    if "d \<in> member_credentials m" for d
    using that prepared_keys [OF pm] unfolding member_credentials_prepared [OF pm] by (elim exE conjE) auto
  ultimately show "pm_profile_id m \<noteq> p \<or> c \<notin> member_credentials m" by blast
qed

definition spares :: "profile_id \<Rightarrow> request_id \<Rightarrow> outbound list \<Rightarrow> bool" where
  "spares p c sent \<longleftrightarrow> (\<forall>ob \<in> set sent. \<not> (ob_profile ob = p \<and> ob_credential ob = c))"

lemma open_turn_retired:
  assumes "open_turn sf w pc gw = (gw', sent, r)" and "retired (gw_accounts gw) p c"
    and "\<forall>m \<in> set (pc_members pc). pm_profile_id m \<noteq> p \<or> c \<notin> member_credentials m"
  shows "retired (gw_accounts gw') p c \<and> spares p c sent"
proof -
  let ?cfg = "(sf_walk sf)\<lparr>wc_stream := pc_stream pc, wc_requested_model := pc_requested_model pc\<rparr>"
  obtain s1 q where wm: "walk_members ?cfg pc (tn_members w) 0 (pc_members pc) None (walk_start gw) = (s1, q)" by fastforce
  have "retired (gw_accounts (at_gateway s1)) p c"
    using walk_members_retired [OF wm assms(3)] assms(2) by (simp add: walk_start_def)
  moreover have "spares p c (at_sent s1)"
    using walk_members_sent [OF wm] assms(3) by (fastforce simp: walk_start_def spares_def)
  ultimately show ?thesis
    using assms(1,2) wm
    by (cases q) (auto simp: open_turn_def open_attempt_def walk_start_def spares_def Let_def split: if_splits)
qed

lemma turn_retired:
  assumes "prepare_turn sf w gw = (gw1, Inr pc)" and "open_turn sf w pc gw1 = (gw2, sent, r)" and "retired (gw_accounts gw) p c"
  shows "retired (gw_accounts gw2) p c \<and> spares p c sent"
proof (rule open_turn_retired [OF assms(2)])
  show "retired (gw_accounts gw1) p c" using assms(3) by (simp add: prepare_turn_state(1) [OF assms(1)])
  show "\<forall>m \<in> set (pc_members pc). pm_profile_id m \<noteq> p \<or> c \<notin> member_credentials m"
    using assms(1,3) retired_not_prepared by (auto simp: prepare_turn_def split: sum.splits)
qed

section \<open>Whole requests\<close>

text \<open>The ways \<open>serve\<close> ends before a reply: turned away, refused while it was prepared, or through the loop.\<close>

lemma serve_open_cases:
  assumes "serve_open sf rq worlds gw = Some (gw', sent, r)"
  obtains (turned_away) e where "gw' = gw" "sent = []" "r = ServedError e"
  | (refused) gw1 e where "prepare_turn sf (worlds 0) gw = (gw1, Inl e)" "sent = []" "r = ServedError e"
      "gw_service gw' = count_failed_request (gw_service gw1) e (model_group_id (hr_body rq)) (hr_failed_at rq)"
      "gw_accounts gw' = gw_accounts gw1"
  | (ended) gw1 pc gw2 sent0 r0 s where "prepare_turn sf (worlds 0) gw = (gw1, Inr pc)" "open_turn sf (worlds 0) pc gw1 = (gw2, sent0, r0)"
      "serve_loop 12 sf (patience_deadline (pc_patience_ms pc) (hr_now rq)) worlds
         \<lparr>ss_gateway = gw2, ss_call = pc, ss_sent = sent0, ss_result = r0, ss_retries = 0\<rparr> = Some s"
      "sent = ss_sent s" "gw_accounts gw' = gw_accounts (ss_gateway s)"
      "(\<exists>e. ss_result s = Inl e \<and> r = ServedError e \<and>
          gw_service gw' = count_failed_request (gw_service (ss_gateway s)) e (pc_group_id (ss_call s)) (hr_failed_at rq)) \<or>
       (\<exists>call a. ss_result s = Inr a \<and> r = ServedCall call a \<and> gw' = ss_gateway s)"
  using assms
  by (auto simp: serve_open_def count_failure_def Let_def split: sum.splits prod.splits option.splits)

lemma count_failed_request_probe:
  "br_probe_in_flight (breaker_entry (sv_breakers (count_failed_request sv e group_id now)) g) =
     br_probe_in_flight (breaker_entry (sv_breakers sv) g)"
  by (auto simp: count_failed_request_def note_failure_def failure_counted_def Let_def split: option.split)

lemma retry_turn_cases:
  obtains (refused) gw e n where "prepare_turn sf (worlds n) (ss_gateway s) = (gw, Inl e)"
      "retry_turn sf worlds s = s\<lparr>ss_gateway := gw, ss_result := Inl e, ss_retries := n\<rparr>"
  | (opened) gw pc gw' sent r n where "prepare_turn sf (worlds n) (ss_gateway s) = (gw, Inr pc)"
      "open_turn sf (worlds n) pc gw = (gw', sent, r)"
      "retry_turn sf worlds s = \<lparr>ss_gateway = gw', ss_call = pc, ss_sent = ss_sent s @ sent, ss_result = r, ss_retries = n\<rparr>"
proof -
  define n where "n = min (ss_retries s + 1) 4294967295"
  obtain gw q where p: "prepare_turn sf (worlds n) (ss_gateway s) = (gw, q)" by fastforce
  show ?thesis
  proof (cases q)
    case (Inl e)
    then show ?thesis using refused p by (simp add: retry_turn_def n_def Let_def)
  next
    case (Inr pc)
    obtain gw' sent r where "open_turn sf (worlds n) pc gw = (gw', sent, r)" by (metis prod_cases3)
    then show ?thesis using opened p Inr by (simp add: retry_turn_def n_def Let_def)
  qed
qed

lemma turn_probing:
  assumes "prepare_turn sf w gw = (gw1, Inr pc)" and "open_turn sf w pc gw1 = (gw2, sent, r)" and "probing gw2 g"
  shows "probing gw g"
  using open_turn_probing [OF assms(2) _ assms(3)] prepare_turn_state(4) [OF assms(1) refl, of g] prepare_turn_state(5) [OF assms(1) refl]
  by (auto split: if_splits)

lemma turn_failures:
  assumes "prepare_turn sf w gw = (gw1, Inr pc)" and "open_turn sf w pc gw1 = (gw2, sent, Inl e)"
  shows "failures gw2 g = failures gw g"
  using open_turn_failures [OF assms(2)] prepare_turn_state(2) [OF assms(1)] by simp

lemma serve_open_probing:
  assumes "serve_open sf rq worlds gw = Some (gw', sent, r)" and "probing gw' g"
  shows "probing gw g"
  using assms(1)
proof (cases rule: serve_open_cases)
  case (refused gw1 e)
  then show ?thesis using assms(2) prepare_turn_state(3) [OF refused(1) refl, of g]
    by (simp add: probing_def count_failed_request_probe)
next
  case (ended gw1 pc gw2 sent0 r0 s)
  have "probing (ss_gateway s) g \<Longrightarrow> probing gw g"
  proof (rule serve_loop_inv [OF ended(3), of "\<lambda>s. probing (ss_gateway s) g \<longrightarrow> probing gw g", THEN mp])
    show "probing (ss_gateway (retry_turn sf worlds s)) g \<longrightarrow> probing gw g" if "probing (ss_gateway s) g \<longrightarrow> probing gw g" for s
      using that
      by (cases rule: retry_turn_cases [of sf worlds s]) (auto dest: prepare_turn_state(3) [OF _ refl, of _ _ _ _ _ g] turn_probing)
  qed (use turn_probing [OF ended(1,2)] in auto)
  moreover have "probing gw' g \<longleftrightarrow> probing (ss_gateway s) g"
    using ended(6) by (auto simp: probing_def count_failed_request_probe)
  ultimately show ?thesis using assms(2) by simp
qed (use assms(2) in simp)

lemma reply_steps_probing [simp]:
  "probing (adopt_pin ac gw) g = probing gw g" "probing (announce_first_token ac first gw) g = probing gw g"
  by (simp_all add: adopt_pin_def announce_first_token_def probing_def split: option.split)

lemma forward_probing: "forward env ac body client elapsed gw = (gw', ms) \<Longrightarrow> probing gw' g \<Longrightarrow> probing gw g"
  by (auto simp: forward_def finish_reply_def record_request_probing Let_def split: prod.splits if_splits)

lemma gather_probing: "gather env read_reply render ac body elapsed gw = (gw', r) \<Longrightarrow> probing gw' g \<Longrightarrow> probing gw g"
  by (auto simp: gather_def finish_reply_def record_request_probing Let_def split: option.splits sum.splits if_splits)

section \<open>Gemini paths read back\<close>

lemma hex_value_upper: "d < 16 \<Longrightarrow> hex_value (upper_hex d) = Some d"
  by (simp add: hex_value_def upper_hex_def)

lemma decode_plain: "b \<noteq> 37 \<Longrightarrow> decode_bytes (b # bs) = b # decode_bytes bs"
  by (auto split: list.split)

lemma decode_encoded:
  "\<forall>b \<in> set bs. b < 256 \<Longrightarrow>
     decode_bytes (concat (map (\<lambda>b. if path_safe b then [b] else [37, upper_hex (b div 16), upper_hex (b mod 16)]) bs)) = bs"
proof (induction bs)
  case (Cons b bs)
  then show ?case
  proof (cases "path_safe b")
    case True
    then have "b \<noteq> 37" by (auto simp: path_safe_def is_ascii_alphanumeric_def is_ascii_digit_def)
    with True Cons show ?thesis by (simp add: decode_plain del: decode_bytes.simps)
  next
    case False
    have "b div 16 < 16" "b mod 16 < 16" using Cons.prems by auto
    with False Cons show ?thesis by (simp add: hex_value_upper)
  qed
qed simp

lemma utf8_bytes: "scalar_value c \<Longrightarrow> b \<in> set (utf8_encode_char c) \<Longrightarrow> b < 256"
  by (auto simp: utf8_encode_char_def scalar_value_def split: if_splits)

lemma utf8_encode_ascii: "\<forall>c \<in> set s. c < 128 \<Longrightarrow> utf8_encode s = s"
  by (induction s) (simp_all add: utf8_encode_def utf8_encode_char_def)

lemma percent_encode_ascii:
  assumes "\<forall>c \<in> set m. scalar_value c" and "c \<in> set (percent_encode_path m)"
  shows "c < 128 \<and> c \<noteq> 63"
proof -
  obtain b where b: "b \<in> set (utf8_encode m)" "path_safe b \<and> c = b \<or> \<not> path_safe b \<and> c \<in> {37, upper_hex (b div 16), upper_hex (b mod 16)}"
    using assms(2) by (auto simp: percent_encode_path_def split: if_splits)
  have "b < 256" using b(1) assms(1) utf8_bytes by (auto simp: utf8_encode_def)
  then have "b div 16 < 16" "b mod 16 < 16" by auto
  then have "upper_hex (b div 16) < 128 \<and> upper_hex (b div 16) \<noteq> 63" "upper_hex (b mod 16) < 128 \<and> upper_hex (b mod 16) \<noteq> 63"
    by (auto simp: upper_hex_def)
  with b(2) show ?thesis by (auto simp: path_safe_def is_ascii_alphanumeric_def is_ascii_digit_def)
qed

lemma percent_round_trip:
  assumes "\<forall>c \<in> set m. scalar_value c"
  shows "percent_decode (percent_encode_path m) = m"
proof -
  have "\<forall>b \<in> set (utf8_encode m). b < 256" using assms utf8_bytes by (auto simp: utf8_encode_def)
  moreover have "utf8_encode (percent_encode_path m) = percent_encode_path m"
    using percent_encode_ascii [OF assms] by (intro utf8_encode_ascii) blast
  ultimately show ?thesis
    using decode_encoded [of "utf8_encode m"] utf8_lossy_encode [OF assms]
    by (simp add: percent_decode_def percent_encode_path_def)
qed

text \<open>The path of a request target, without its query.\<close>

definition uri_path :: "ustring \<Rightarrow> ustring" where
  "uri_path target = takeWhile (\<lambda>c. c \<noteq> 63) target"

lemma rsplit_once_last: "d \<notin> set b \<Longrightarrow> rsplit_once d (a @ d # b) = Some (a, b)"
proof -
  have "split_once d (x @ d # y) = Some (x, y)" if "d \<notin> set x" for x y using that by (induction x) auto
  then show "d \<notin> set b \<Longrightarrow> rsplit_once d (a @ d # b) = Some (a, b)" by (simp add: rsplit_once_def)
qed

section \<open>Properties\<close>

text \<open>A Gemini client reaches the model it names: the path the gateway itself uses for that protocol is
  read back by its own handler as the same model and the same streaming wish, whatever characters the
  model id holds.\<close>
lemma gemini_path_round_trip:
  assumes "model \<noteq> []" and "\<forall>c \<in> set model. scalar_value c"
  shows "gemini_call (uri_path (protocol_path GeminiGenerateContent model stream)) = Some (model, stream)"
proof -
  let ?enc = "percent_encode_path model" and ?action = "if stream then lit ''streamGenerateContent'' else lit ''generateContent''"
  have no_query: "63 \<notin> set ?enc" using percent_encode_ascii [OF assms(2), of 63] by auto
  have "uri_path (protocol_path GeminiGenerateContent model stream) = lit ''/v1beta/models/'' @ ?enc @ 58 # ?action"
    using no_query by (auto simp: uri_path_def takeWhile_append)
  moreover have "strip_prefix (lit ''/v1beta/models/'') (lit ''/v1beta/models/'' @ x) = Some x" for x by simp
  moreover have "rsplit_once 58 (?enc @ 58 # ?action) = Some (?enc, ?action)" by (rule rsplit_once_last) simp
  moreover have "?enc \<noteq> []" using percent_round_trip [OF assms(2)] assms(1) by (auto simp: percent_decode_def utf8_encode_def)
  ultimately show ?thesis
    using percent_round_trip [OF assms(2)] by (simp add: gemini_call_def del: protocol_path.simps)
qed

lemma gemini_path_round_trip_witness:
  "gemini_call (uri_path (protocol_path GeminiGenerateContent (lit ''group/g/m:1 '' @ [20313]) True)) = Some (lit ''group/g/m:1 '' @ [20313], True)"
  by (rule gemini_path_round_trip) (simp_all add: scalar_value_def)

end
