(* ===== verification/Classifier.thy ===== *)
theory Classifier
  imports Serve
begin

text \<open>
  The route's classifier: the one request \<open>prepare\<close> sends by itself. \<open>classify_turn\<close>,
  \<open>resolve_classifier_target\<close>, \<open>classifier_reply_text\<close> and \<open>classifier_decision\<close> of
  \<open>crates/model-gateway/src/service.rs\<close>, and the turns of \<open>serve\<close> in which it is asked. The secret
  of a Key, the reply and \<open>serde_json::from_slice\<close> are arguments.

  Unlike the calls of \<open>open_attempt\<close>, this one reads the state of a Key from the cached snapshot and
  not from the account tables. Facts: a call of the classifier uses a Key the snapshot of its turn
  shows as ready; a snapshot that was read after a Key was rejected shows it as ready for no one, one
  that was read before still offers it; an outcome is an error or an answer, never both.
\<close>

section \<open>The model the classifier names\<close>

definition member_named :: "ustring \<Rightarrow> route_member_ref \<Rightarrow> bool" where
  "member_named name m \<longleftrightarrow> mf_member_id m = Some name"

definition resolve_classifier_target :: "gateway_snapshot \<Rightarrow> route_group \<Rightarrow> ustring \<Rightarrow> (profile_id \<times> ustring) option" where
  "resolve_classifier_target sn g text =
     (let classifier = trim text in
      case find (member_named classifier) (gg_providers g) of
        Some m \<Rightarrow> Some (mf_profile m, mf_model m)
      | None \<Rightarrow>
          (case split_once 47 classifier of
             None \<Rightarrow> None
           | Some (pre, tail) \<Rightarrow>
               if trim tail = [] then None
               else (case find (\<lambda>u. up_profile_id u = pre \<or> provider_alias (up_display_name u) = pre) (sn_upstreams sn) of
                   None \<Rightarrow> None
                 | Some up \<Rightarrow>
                     let model = alias_upstream up (trim tail) in
                     if up_models up \<noteq> [] \<and> model \<notin> set (up_models up) then None
                     else Some (up_profile_id up, model))))"

section \<open>The request\<close>

definition classifier_prompt :: ustring where
  "classifier_prompt = lit ''Classify this coding-agent turn. Reply with JSON only: {\"intent\":\"code|debug|refactor|explain|test|docs|plan|other\",\"effort\":\"low|medium|high\"}. Use the effort the task itself needs, not the agent''
     @ [39] @ lit ''s default.''"

definition classifier_user_text :: "canonical_request \<Rightarrow> ustring" where
  "classifier_user_text r =
     (let said = (case first_user_text r of None \<Rightarrow> [] | Some t \<Rightarrow> trim t)
      in take 4000 (if said = [] then lit ''(the turn has no user text)'' else said))"

definition classifier_body :: "ustring \<Rightarrow> canonical_request \<Rightarrow> json" where
  "classifier_body model r = JObject [(lit ''model'', JString model),
     (lit ''messages'', JArray [
        JObject [(lit ''role'', JString (lit ''system'')), (lit ''content'', JString classifier_prompt)],
        JObject [(lit ''role'', JString (lit ''user'')), (lit ''content'', JString (classifier_user_text r))]]),
     (lit ''max_tokens'', JNumber (lit ''64'')), (lit ''temperature'', JNumber (lit ''0'')), (lit ''stream'', JBool False)]"

definition no_outcome :: classifier_outcome where
  "no_outcome = \<lparr>co_intent = None, co_effort = None, co_error = None\<rparr>"

definition classifier_error :: "ustring \<Rightarrow> classifier_outcome" where
  "classifier_error text = no_outcome\<lparr>co_error := Some text\<rparr>"

text \<open>What \<open>classify_turn\<close> is about to send, or the outcome it returns without sending anything. The
  secret is the one of the Key it picked.\<close>

definition classifier_call ::
    "gateway_snapshot \<Rightarrow> route_group \<Rightarrow> canonical_request \<Rightarrow> (credential_ref \<Rightarrow> secret_read) \<Rightarrow> classifier_outcome + outbound" where
  "classifier_call sn g r secret =
     (case gg_classifier g of
        None \<Rightarrow> Inl no_outcome
      | Some text \<Rightarrow>
          if trim text = [] then Inl no_outcome
          else (case resolve_classifier_target sn g (trim text) of
            None \<Rightarrow> Inl (classifier_error (lit ''the classifier names no reachable model''))
          | Some (p, model) \<Rightarrow> (case snapshot_upstream sn p of
              None \<Rightarrow> Inl (classifier_error (lit ''the classifier Provider is not in the snapshot''))
            | Some up \<Rightarrow> (case endpoint_for_call up ChatCompletions of
                None \<Rightarrow> Inl (classifier_error (lit ''the classifier Provider has no Chat endpoint''))
              | Some endpoint \<Rightarrow> (case find key_is_ready (up_keys up) of
                  None \<Rightarrow> Inl (classifier_error (lit ''the classifier Provider has no ready Key''))
                | Some key \<Rightarrow> (case find (\<lambda>c. cd_id c = ks_credential_id key) (up_credentials up) of
                    None \<Rightarrow> Inl (classifier_error (lit ''the classifier Key is no longer configured''))
                  | Some credential \<Rightarrow> (case secret credential of
                      SecretMissing \<Rightarrow> Inl (classifier_error (lit ''the classifier Key has no Secret''))
                    | SecretFailed code \<Rightarrow> Inl (classifier_error (lit ''the classifier Key could not be read: '' @ code))
                    | SecretFound \<Rightarrow> (case endpoint_url (ep_url endpoint) ChatCompletions model False of
                        Inl e \<Rightarrow> Inl (classifier_error (lit ''the classifier address is unusable: '' @ error_message e))
                      | Inr url \<Rightarrow> Inr \<lparr>ob_profile = up_profile_id up, ob_credential = cd_id credential, ob_target = ChatCompletions,
                          ob_url = url, ob_body = classifier_body model r\<rparr>))))))))"

section \<open>The reply\<close>

datatype classifier_reply =
    ClassifierSendFailed ustring
  | ClassifierTimedOut
  | ClassifierReplied nat "nat list"

text \<open>The token \<open>0\<close> of a JSON pointer.\<close>

fun pointer_zero :: "json \<Rightarrow> json option" where
  "pointer_zero (JArray (v # vs)) = Some v"
| "pointer_zero (JObject kvs) = map_of kvs (lit ''0'')"
| "pointer_zero _ = None"

fun array_items :: "json option \<Rightarrow> json list option" where
  "array_items (Some (JArray vs)) = Some vs"
| "array_items _ = None"

definition text_fields :: "json list \<Rightarrow> ustring list" where
  "text_fields parts = List.map_filter (\<lambda>v. as_str (get_field (lit ''text'') v)) parts"

fun content_text :: "json \<Rightarrow> ustring list" where
  "content_text (JString text) = [text]"
| "content_text (JArray parts) = text_fields parts"
| "content_text _ = []"

fun reply_texts :: "wire_protocol \<Rightarrow> json \<Rightarrow> ustring list" where
  "reply_texts ChatCompletions v =
     (case Option.bind (get_field (lit ''choices'') v) (\<lambda>w. Option.bind (pointer_zero w) (get_path [lit ''message'', lit ''content''])) of
        None \<Rightarrow> [] | Some c \<Rightarrow> content_text c)"
| "reply_texts Responses v =
     (case as_str (Option.bind (get_field (lit ''output'') v) (\<lambda>w. Option.bind (pointer_zero w)
         (\<lambda>x. Option.bind (get_field (lit ''content'') x) (\<lambda>c. Option.bind (pointer_zero c) (get_field (lit ''text'')))))) of
        Some t \<Rightarrow> [t]
      | None \<Rightarrow> (case as_str (get_field (lit ''output_text'') v) of Some t \<Rightarrow> [t] | None \<Rightarrow> []))"
| "reply_texts AnthropicMessages v =
     (case as_str (Option.bind (get_field (lit ''content'') v) (\<lambda>w. Option.bind (pointer_zero w) (get_field (lit ''text'')))) of
        Some t \<Rightarrow> [t] | None \<Rightarrow> [])"
| "reply_texts GeminiGenerateContent v =
     (case array_items (Option.bind (get_field (lit ''candidates'') v)
         (\<lambda>w. Option.bind (pointer_zero w) (get_path [lit ''content'', lit ''parts'']))) of
        Some parts \<Rightarrow> [concat (text_fields parts)] | None \<Rightarrow> [])"

definition classifier_reply_text :: "(nat list \<Rightarrow> json option) \<Rightarrow> wire_protocol \<Rightarrow> nat list \<Rightarrow> ustring option" where
  "classifier_reply_text from_slice protocol bytes =
     (case from_slice bytes of
        None \<Rightarrow> None
      | Some v \<Rightarrow> let text = trim (concat (reply_texts protocol v)) in if text = [] then None else Some text)"

text \<open>From the first opening brace to the last closing one behind it.\<close>

definition json_slice :: "ustring \<Rightarrow> ustring option" where
  "json_slice text =
     (let cut = rev (dropWhile (\<lambda>c. c \<noteq> 125) (rev (dropWhile (\<lambda>c. c \<noteq> 123) text))) in if cut = [] then None else Some cut)"

definition normalize_classifier_effort :: "ustring \<Rightarrow> ustring" where
  "normalize_classifier_effort effort =
     (let low = map to_ascii_lowercase effort in
      if low = lit ''minimal'' then lit ''low''
      else if low \<in> {lit ''extra'', lit ''xhigh'', lit ''maximum'', lit ''max''} then lit ''high''
      else low)"

definition short_field :: "nat \<Rightarrow> ustring \<Rightarrow> json \<Rightarrow> ustring option" where
  "short_field bound key v =
     (case map_option trim (as_str (get_field key v)) of
        None \<Rightarrow> None
      | Some t \<Rightarrow> if t \<noteq> [] \<and> length t \<le> bound then Some t else None)"

definition first_word_outcome :: "ustring \<Rightarrow> classifier_outcome" where
  "first_word_outcome trimmed_text =
     (let word = takeWhile (\<lambda>c. \<not> is_whitespace c) trimmed_text
      in no_outcome\<lparr>co_intent := if word \<noteq> [] \<and> length word \<le> 64 then Some word else None\<rparr>)"

definition classifier_decision :: "(ustring \<Rightarrow> json option) \<Rightarrow> ustring \<Rightarrow> classifier_outcome" where
  "classifier_decision from_str text =
     (case Option.bind (json_slice (trim text)) from_str of
        None \<Rightarrow> first_word_outcome (trim text)
      | Some v \<Rightarrow>
          let intent = short_field 64 (lit ''intent'') v;
              effort = map_option normalize_classifier_effort (short_field 32 (lit ''effort'') v)
          in if intent \<noteq> None \<or> effort \<noteq> None then \<lparr>co_intent = intent, co_effort = effort, co_error = None\<rparr>
             else first_word_outcome (trim text))"

definition classifier_outcome_of ::
    "(nat list \<Rightarrow> json option) \<Rightarrow> (ustring \<Rightarrow> json option) \<Rightarrow> classifier_reply \<Rightarrow> classifier_outcome" where
  "classifier_outcome_of from_slice from_str reply =
     (case reply of
        ClassifierSendFailed e \<Rightarrow> classifier_error (lit ''the classifier request failed: '' @ e)
      | ClassifierTimedOut \<Rightarrow> classifier_error (lit ''the classifier timed out after 8 seconds'')
      | ClassifierReplied status bytes \<Rightarrow>
          if \<not> is_success status
          then classifier_error (lit ''the classifier answered HTTP '' @ dec_string status @ lit '': ''
                 @ truncate_text (upstream_message from_str (utf8_lossy bytes)))
          else (case classifier_reply_text from_slice ChatCompletions bytes of
              None \<Rightarrow> classifier_error (lit ''the classifier reply had no text'')
            | Some text \<Rightarrow>
                let parsed = classifier_decision from_str text in
                if co_intent parsed = None \<and> co_effort parsed = None
                then classifier_error (lit ''the classifier reply was not usable'') else parsed))"

definition classify_turn ::
    "(nat list \<Rightarrow> json option) \<Rightarrow> (ustring \<Rightarrow> json option) \<Rightarrow> gateway_snapshot \<Rightarrow> route_group \<Rightarrow> canonical_request \<Rightarrow>
      (credential_ref \<Rightarrow> secret_read) \<Rightarrow> (outbound \<Rightarrow> classifier_reply) \<Rightarrow> outbound list \<times> classifier_outcome" where
  "classify_turn from_slice from_str sn g r secret send =
     (case classifier_call sn g r secret of
        Inl outcome \<Rightarrow> ([], outcome)
      | Inr ob \<Rightarrow> ([ob], classifier_outcome_of from_slice from_str (send ob)))"

text \<open>The call \<open>prepare\<close> makes for the classifier of a request: past the token ceiling, for a route that
  has one and can use its answer.\<close>

definition ceiling_reached :: "gateway_snapshot \<Rightarrow> canonical_request \<Rightarrow> bool" where
  "ceiling_reached sn r \<longleftrightarrow> (case token_ceiling sn r of Some tokens \<Rightarrow> tokens \<le> sn_gateway_used_tokens sn | None \<Rightarrow> False)"

definition prepare_classifies ::
    "gateway_snapshot \<Rightarrow> canonical_request \<Rightarrow> (credential_ref \<Rightarrow> secret_read) \<Rightarrow> outbound list" where
  "prepare_classifies sn r secret =
     (if ceiling_reached sn r then []
      else case request_group sn r of
          None \<Rightarrow> []
        | Some g \<Rightarrow> if classifies g then (case classifier_call sn g r secret of Inl _ \<Rightarrow> [] | Inr ob \<Rightarrow> [ob]) else [])"

text \<open>Every turn of \<open>serve\<close> prepares, so every turn asks.\<close>

definition turn_classifies :: "turn \<Rightarrow> (credential_ref \<Rightarrow> secret_read) \<Rightarrow> outbound list" where
  "turn_classifies w secret =
     (case tn_request w of Inl _ \<Rightarrow> [] | Inr inc \<Rightarrow> prepare_classifies (tn_snapshot w) (in_request inc) secret)"

section \<open>Which Key the classifier uses\<close>

definition shows_ready :: "gateway_snapshot \<Rightarrow> profile_id \<Rightarrow> request_id \<Rightarrow> bool" where
  "shows_ready sn p c \<longleftrightarrow> list_ex (\<lambda>u. up_profile_id u = p \<and>
     list_ex (\<lambda>k. ks_credential_id k = c \<and> key_is_ready k) (up_keys u)) (sn_upstreams sn)"

lemma classifier_call_ready:
  assumes "classifier_call sn g r secret = Inr ob"
  shows "shows_ready sn (ob_profile ob) (ob_credential ob)"
proof -
  obtain p up key cr where up: "snapshot_upstream sn p = Some up" and key: "find key_is_ready (up_keys up) = Some key"
    and cr: "find (\<lambda>c. cd_id c = ks_credential_id key) (up_credentials up) = Some cr"
    and ob: "ob_profile ob = up_profile_id up" "ob_credential ob = cd_id cr"
    using assms by (auto simp: classifier_call_def split: option.splits if_splits secret_read.splits sum.splits prod.splits)
  have "up \<in> set (sn_upstreams sn)" using up find_SomeD [of _ _ up] by (auto simp: snapshot_upstream_def)
  moreover have "key \<in> set (up_keys up)" "key_is_ready key" using find_SomeD [OF key] by auto
  moreover have "cd_id cr = ks_credential_id key" using find_SomeD [OF cr] by auto
  ultimately show ?thesis using ob by (force simp: shows_ready_def list_ex_iff)
qed

lemma prepare_classifies_call:
  assumes "ob \<in> set (prepare_classifies sn r secret)"
  obtains g where "classifier_call sn g r secret = Inr ob"
proof (cases "request_group sn r")
  case (Some g)
  then have "prepare_classifies sn r secret \<in> {[], case classifier_call sn g r secret of Inl _ \<Rightarrow> [] | Inr ob \<Rightarrow> [ob]}"
    by (simp add: prepare_classifies_def)
  with assms that show thesis by (cases "classifier_call sn g r secret") auto
qed (use assms in \<open>simp add: prepare_classifies_def split: if_splits\<close>)

lemma turn_classifies_ready:
  assumes "ob \<in> set (turn_classifies w secret)"
  shows "shows_ready (tn_snapshot w) (ob_profile ob) (ob_credential ob)"
proof -
  from assms obtain inc :: incoming where "ob \<in> set (prepare_classifies (tn_snapshot w) (in_request inc) secret)"
    by (cases "tn_request w") (auto simp: turn_classifies_def)
  then show ?thesis by (rule prepare_classifies_call) (rule classifier_call_ready)
qed

lemma retired_not_shown:
  assumes "retired accounts p c"
  shows "\<not> shows_ready (read_snapshot settings profiles routes windows accounts now) p c"
  using key_rejected_never_ready [of accounts p c now now] assms
  by (auto simp: shows_ready_def list_ex_iff read_snapshot_def upstream_of_def retired_def key_is_ready_def Let_def)

lemma classifier_outcome_exclusive:
  "co_error (classifier_outcome_of from_slice from_str reply) = None \<longleftrightarrow>
     co_intent (classifier_outcome_of from_slice from_str reply) \<noteq> None \<or> co_effort (classifier_outcome_of from_slice from_str reply) \<noteq> None"
  by (auto simp: classifier_outcome_of_def classifier_error_def no_outcome_def classifier_decision_def first_word_outcome_def Let_def
      split: classifier_reply.split option.splits)

section \<open>The cached snapshot\<close>

text \<open>\<open>cached_snapshot\<close>: the snapshot that was read last, until it is older than the refresh interval. Times
  are those of the monotonic clock, \<open>fresh\<close> is what \<open>read_snapshot\<close> would give.\<close>

type_synonym snapshot_cache = "(gateway_snapshot \<times> nat) option"

definition cached_snapshot :: "nat \<Rightarrow> nat \<Rightarrow> gateway_snapshot \<Rightarrow> snapshot_cache \<Rightarrow> snapshot_cache \<times> gateway_snapshot" where
  "cached_snapshot refresh_interval now fresh cache =
     (case cache of
        Some (sn, read_at) \<Rightarrow> if now - read_at < refresh_interval then (cache, sn) else (Some (fresh, now), fresh)
      | None \<Rightarrow> (Some (fresh, now), fresh))"

definition invalidate_snapshot :: "snapshot_cache \<Rightarrow> snapshot_cache" where
  "invalidate_snapshot cache = None"

definition classified_group :: model_route where
  "classified_group = sample_group\<lparr>mo_classifier := Some (lit ''m1''), mo_effort := Some (lit ''auto'')\<rparr>"

definition classified_profiles :: "(profile_id \<times> provider_profile) list" where
  "classified_profiles = map (\<lambda>p. (p, \<lparr>pf_id = p, pf_display_name = p,
     pf_endpoints = [\<lparr>ep_id = lit ''e'', ep_kind = EndpointApi, ep_url = lit ''https://p'', ep_wire_protocol_id = None\<rparr>],
     pf_configured_models = [], pf_model_aliases = [], pf_extra_body = [],
     pf_credentials = [\<lparr>cd_id = lit ''k'', cd_display_name = lit ''K'', cd_models = [], cd_proxy_url = None\<rparr>]\<rparr>)) [lit ''p1'', lit ''p2'']"

definition classified_snapshot :: "account_store \<Rightarrow> gateway_snapshot" where
  "classified_snapshot accounts = read_snapshot sample_settings classified_profiles [classified_group] Map.empty accounts 0"

lemma classified_snapshot_parts:
  "\<exists>g. request_group (classified_snapshot accounts) (for_model (lit ''group/r1/opus'')) = Some g \<and> classifies g \<and> gg_token_limit g = None \<and>
     gg_classifier g = Some (lit ''m1'') \<and> resolve_classifier_target sn g (lit ''m1'') = Some (lit ''p1'', lit ''a'')"
  by (simp add: request_group_def for_model_def resolved_group_id_def route_group_model_ref_def ROUTE_GROUP_MODEL_PREFIX_def
     classified_snapshot_def read_snapshot_def Let_def group_of_route_def agent_model_def served_members_def member_ref_def member_is_served_def
     classified_group_def sample_group_def enabled_members_def member_new_def classified_profiles_def
     List.map_filter_def trim_def trim_where_def is_whitespace_def classifies_def resolve_classifier_target_def member_named_def via_gateway_def)

lemma classified_upstream:
  "snapshot_upstream (classified_snapshot accounts) (lit ''p1'') =
     Some (upstream_of accounts 0 0 (lit ''p1'') (snd (hd classified_profiles)))"
  by (simp add: classified_snapshot_def read_snapshot_def Let_def snapshot_upstream_def referenced_profiles_def route_profiles_def
     classified_group_def sample_group_def enabled_members_def member_new_def classifier_provider_def classified_profiles_def
     window_used_def window_current_def upstream_of_def List.map_filter_def trim_def trim_where_def is_whitespace_def via_gateway_def)

lemma classified_snapshot_asks:
  "map (\<lambda>ob. (ob_profile ob, ob_credential ob))
     (prepare_classifies (classified_snapshot accounts) (for_model (lit ''group/r1/opus'')) (\<lambda>_. SecretFound)) =
     (if visibility_at (account_of accounts (lit ''p1'') (lit ''k'') 0) 0 = KeyReady then [(lit ''p1'', lit ''k'')] else [])"
proof -
  let ?sn = "classified_snapshot accounts" and ?r = "for_model (lit ''group/r1/opus'')"
  obtain g where g: "request_group ?sn ?r = Some g" "classifies g" "gg_token_limit g = None" "gg_classifier g = Some (lit ''m1'')"
    "resolve_classifier_target ?sn g (lit ''m1'') = Some (lit ''p1'', lit ''a'')"
    using classified_snapshot_parts [of accounts ?sn] by blast
  have "\<not> ceiling_reached ?sn ?r"
    using g(1,3) by (simp add: ceiling_reached_def token_ceiling_def classified_snapshot_def read_snapshot_def Let_def sample_settings_def
        gateway_policy_default_def)
  moreover have "trim (lit ''m1'') = lit ''m1''" by (simp add: trim_def trim_where_def is_whitespace_def)
  moreover have "endpoint_url (lit ''https://p'') ChatCompletions m False = Inr (lit ''https://p/v1/chat/completions'')" for m
    by (simp add: endpoint_url_def trim_end_slashes_def trim_def trim_where_def is_whitespace_def Let_def join_version_def ends_with_def strip_suffix_def)
  ultimately show ?thesis
    using g classified_upstream [of accounts]
    by (simp add: prepare_classifies_def classifier_call_def upstream_of_def classified_profiles_def endpoint_for_call_def endpoint_for_def
        untyped_endpoint_def key_is_ready_def)
qed

text \<open>A verdict does not invalidate the cache. The snapshot is two seconds old and not yet to be read again
  when the Key has been rejected in between: the classifier of the next request is still asked with it;
  with the cache invalidated it is not.\<close>
lemma classifier_uses_rejected_key:
  fixes refresh
  defines "rejected \<equiv> mark_failure [] Map.empty (lit ''p1'') (lit ''k'') Auth 1"
  defines "asked \<equiv> \<lambda>cache. map (\<lambda>ob. (ob_profile ob, ob_credential ob))
     (prepare_classifies (snd (cached_snapshot refresh 2000 (classified_snapshot rejected) cache)) (for_model (lit ''group/r1/opus'')) (\<lambda>_. SecretFound))"
  assumes "2000 < refresh"
  shows "key_rejected rejected (lit ''p1'') (lit ''k'')"
    and "asked (Some (classified_snapshot Map.empty, 0)) = [(lit ''p1'', lit ''k'')]"
    and "asked (invalidate_snapshot (Some (classified_snapshot Map.empty, 0))) = []"
proof -
  show r: "key_rejected rejected (lit ''p1'') (lit ''k'')"
    unfolding rejected_def by (intro mark_failure_auth_rejected store_wf_empty)
  have "visibility_at (account_of Map.empty p k 0) 0 = KeyReady" for p k by (simp add: account_of_def visibility_at_def account_ready_def)
  with assms(3) show "asked (Some (classified_snapshot Map.empty, 0)) = [(lit ''p1'', lit ''k'')]"
    by (simp add: asked_def cached_snapshot_def classified_snapshot_asks del: lit_simps)
  show "asked (invalidate_snapshot (Some (classified_snapshot Map.empty, 0))) = []"
    using key_rejected_never_ready [OF r, of 0 0]
    by (auto simp: asked_def cached_snapshot_def invalidate_snapshot_def classified_snapshot_asks simp del: lit_simps)
qed

end
