(* ===== verification/Limiter.thy ===== *)
theory Limiter
  imports Gateway_Error
begin

text \<open>
  Per-account concurrency and request-rate limits, \<open>crates/model-gateway/src/limit.rs\<close>. A lane
  is a record, the table of lanes a map. \<open>acquire\<close> is split at its lock scopes: the entry
  (\<open>acquire_enter\<close>), one turn of the polling loop (\<open>acquire_poll\<close>), the deadline
  (\<open>acquire_give_up\<close>); between two of them any other request may run, which is what the
  step relation \<open>lane_step\<close> interleaves. A waiter whose future is dropped runs no code at all
  (\<open>step_cancel\<close>). Instants are \<open>int\<close> milliseconds. A poisoned lock does not occur.

  Facts: the requests in flight never exceed the configured limit; slots are granted in the
  order of the tickets and a newcomer never overtakes a waiter; the oldest waiter gets the next
  free slot if no waiter was dropped; a dropped waiter at the front blocks its lane for ever; any
  61 seconds contain at most as many starts as the minute limit allows.
\<close>

section \<open>Lanes\<close>

record lane =
  ln_limit :: nat
  ln_busy :: nat
  ln_queue :: "nat list"
  ln_next_ticket :: nat

type_synonym lanes = "ustring \<rightharpoonup> lane"

definition lane_default :: lane where
  "lane_default = \<lparr>ln_limit = 0, ln_busy = 0, ln_queue = [], ln_next_ticket = 0\<rparr>"

definition lane_entry :: "lanes \<Rightarrow> ustring \<Rightarrow> lane" where
  "lane_entry ls who = (case ls who of None \<Rightarrow> lane_default | Some l \<Rightarrow> l)"

text \<open>What a request has after the first lock: a permit that holds no slot (no limit is
  set), a held slot, a ticket to wait with, or the \<open>429\<close>.\<close>

datatype entry_outcome = PermitFree | PermitHeld | Ticket nat | EntryError gateway_error

definition QUEUE_FULL :: gateway_error where
  "QUEUE_FULL = UpstreamError 429 (lit ''every request slot for this account is busy and its queue is full'')"

definition acquire_enter ::
    "lanes \<Rightarrow> ustring \<Rightarrow> nat option \<Rightarrow> nat option \<Rightarrow> lanes \<times> entry_outcome" where
  "acquire_enter ls who max_conc q_limit =
     (case max_conc of
        None \<Rightarrow> (ls, PermitFree)
      | Some limit \<Rightarrow>
          if \<not> limit > 0 then (ls, PermitFree)
          else let l = (lane_entry ls who)\<lparr>ln_limit := limit\<rparr> in
            if ln_busy l < limit \<and> ln_queue l = []
            then (ls(who \<mapsto> l\<lparr>ln_busy := ln_busy l + 1\<rparr>), PermitHeld)
            else if (case q_limit of None \<Rightarrow> False | Some q \<Rightarrow> length (ln_queue l) \<ge> q)
            then (ls(who \<mapsto> l), EntryError QUEUE_FULL)
            else let t = ln_next_ticket l + 1 in
              (ls(who \<mapsto> l\<lparr>ln_next_ticket := t, ln_queue := ln_queue l @ [t]\<rparr>), Ticket t))"

definition acquire_poll :: "lanes \<Rightarrow> ustring \<Rightarrow> nat \<Rightarrow> lanes \<times> bool" where
  "acquire_poll ls who ticket =
     (let l = lane_entry ls who in
      case ln_queue l of
        [] \<Rightarrow> (ls(who \<mapsto> l), False)
      | t # rest \<Rightarrow>
          if t = ticket \<and> ln_busy l < ln_limit l
          then (ls(who \<mapsto> l\<lparr>ln_queue := rest, ln_busy := ln_busy l + 1\<rparr>), True)
          else (ls(who \<mapsto> l), False))"

definition acquire_give_up :: "lanes \<Rightarrow> ustring \<Rightarrow> nat \<Rightarrow> lanes" where
  "acquire_give_up ls who ticket =
     (case ls who of
        None \<Rightarrow> ls
      | Some l \<Rightarrow> ls(who \<mapsto> l\<lparr>ln_queue := filter (\<lambda>q. q \<noteq> ticket) (ln_queue l)\<rparr>))"

definition lane_release :: "lanes \<Rightarrow> ustring \<Rightarrow> lanes" where
  "lane_release ls who =
     (case ls who of
        None \<Rightarrow> ls
      | Some l \<Rightarrow>
          let l' = l\<lparr>ln_busy := ln_busy l - 1\<rparr> in
          if ln_busy l' = 0 \<and> ln_queue l' = [] then ls(who := None) else ls(who \<mapsto> l'))"

definition in_flight :: "lanes \<Rightarrow> ustring \<Rightarrow> nat" where
  "in_flight ls who = (case ls who of None \<Rightarrow> 0 | Some l \<Rightarrow> ln_busy l)"

definition queued :: "lanes \<Rightarrow> ustring \<Rightarrow> nat" where
  "queued ls who = (case ls who of None \<Rightarrow> 0 | Some l \<Rightarrow> length (ln_queue l))"

section \<open>The rolling minute\<close>

definition RPM_SPAN :: int where
  "RPM_SPAN = 60000 + 1000"

datatype minute_turn = Reserved | SleepUntil int | MinuteError

text \<open>
  One turn of \<open>reserve_minute\<close> at the instant \<open>now\<close>; \<open>lowest\<close> is the earliest instant the
  platform can represent, where \<open>checked_sub\<close> gives \<open>None\<close>. \<open>MinuteError\<close> is the \<open>429\<close> with
  its \<open>retry in\<close> text.
\<close>

definition reserve_turn ::
    "int \<Rightarrow> nat option \<Rightarrow> int list \<Rightarrow> int \<Rightarrow> int \<Rightarrow> int list \<times> minute_turn" where
  "reserve_turn lowest max_requests starts deadline now =
     (case max_requests of
        None \<Rightarrow> (starts, Reserved)
      | Some limit \<Rightarrow>
          if \<not> limit > 0 then (starts, Reserved)
          else let horizon = (if now - RPM_SPAN \<ge> lowest then now - RPM_SPAN else now);
                   starts' = dropWhile (\<lambda>s. s \<le> horizon) starts
               in if length starts' < limit then (starts' @ [now], Reserved)
                  else (case starts' of
                     [] \<Rightarrow> (starts', Reserved)
                   | oldest # _ \<Rightarrow>
                       let at = oldest + RPM_SPAN in
                       if at > deadline then (starts', MinuteError) else (starts', SleepUntil at)))"

section \<open>Interleavings\<close>

text \<open>
  The requests of the service as the limiter sees them: the slots they hold and the tickets
  of the waiters that still run. \<open>cfg\<close> is the stored limit of every account.
\<close>

record lane_state =
  ls_lanes :: lanes
  ls_held :: "ustring \<Rightarrow> nat"
  ls_waiting :: "(ustring \<times> nat) set"

inductive lane_step :: "(ustring \<Rightarrow> nat option) \<Rightarrow> bool \<Rightarrow> lane_state \<Rightarrow> lane_state \<Rightarrow> bool"
  for cfg :: "ustring \<Rightarrow> nat option" and dropping :: bool where
  step_enter_held: "acquire_enter (ls_lanes s) who (cfg who) q = (ls', PermitHeld) \<Longrightarrow>
     lane_step cfg dropping s (s\<lparr>ls_lanes := ls', ls_held := (ls_held s)(who := Suc (ls_held s who))\<rparr>)"
| step_enter_ticket: "acquire_enter (ls_lanes s) who (cfg who) q = (ls', Ticket t) \<Longrightarrow>
     lane_step cfg dropping s (s\<lparr>ls_lanes := ls', ls_waiting := insert (who, t) (ls_waiting s)\<rparr>)"
| step_enter_other: "acquire_enter (ls_lanes s) who (cfg who) q = (ls', out) \<Longrightarrow>
     out = PermitFree \<or> out = EntryError e \<Longrightarrow> lane_step cfg dropping s (s\<lparr>ls_lanes := ls'\<rparr>)"
| step_granted: "(who, t) \<in> ls_waiting s \<Longrightarrow> acquire_poll (ls_lanes s) who t = (ls', True) \<Longrightarrow>
     lane_step cfg dropping s (s\<lparr>ls_lanes := ls', ls_held := (ls_held s)(who := Suc (ls_held s who)),
                         ls_waiting := ls_waiting s - {(who, t)}\<rparr>)"
| step_poll_again: "(who, t) \<in> ls_waiting s \<Longrightarrow> acquire_poll (ls_lanes s) who t = (ls', False) \<Longrightarrow>
     lane_step cfg dropping s (s\<lparr>ls_lanes := ls'\<rparr>)"
| step_give_up: "(who, t) \<in> ls_waiting s \<Longrightarrow>
     lane_step cfg dropping s (s\<lparr>ls_lanes := acquire_give_up (ls_lanes s) who t,
                         ls_waiting := ls_waiting s - {(who, t)}\<rparr>)"
| step_release: "0 < ls_held s who \<Longrightarrow>
     lane_step cfg dropping s (s\<lparr>ls_lanes := lane_release (ls_lanes s) who,
                         ls_held := (ls_held s)(who := ls_held s who - 1)\<rparr>)"
| step_cancel: "dropping \<Longrightarrow> (who, t) \<in> ls_waiting s \<Longrightarrow>
     lane_step cfg dropping s (s\<lparr>ls_waiting := ls_waiting s - {(who, t)}\<rparr>)"

definition lane_init :: "lane_state \<Rightarrow> bool" where
  "lane_init s \<longleftrightarrow> s = \<lparr>ls_lanes = Map.empty, ls_held = (\<lambda>_. 0), ls_waiting = {}\<rparr>"

text \<open>
  The invariant of one account: its lane counts the held slots, stays within the limit, and
  queues the waiting tickets in the order they were drawn.
\<close>

definition lane_ok :: "nat option \<Rightarrow> lane option \<Rightarrow> nat \<Rightarrow> nat set \<Rightarrow> bool" where
  "lane_ok limit l held waiting =
     (case l of
        None \<Rightarrow> held = 0 \<and> waiting = {}
      | Some l \<Rightarrow> limit = Some (ln_limit l) \<and> ln_busy l = held \<and> held \<le> ln_limit l \<and>
          waiting \<subseteq> set (ln_queue l) \<and> sorted_wrt (<) (ln_queue l) \<and>
          (\<forall>t \<in> set (ln_queue l). t \<le> ln_next_ticket l))"

definition lanes_inv :: "(ustring \<Rightarrow> nat option) \<Rightarrow> lane_state \<Rightarrow> bool" where
  "lanes_inv cfg s \<longleftrightarrow> (\<forall>who. lane_ok (cfg who) (ls_lanes s who) (ls_held s who) {t. (who, t) \<in> ls_waiting s})"

lemma lane_ok_entry:
  "lane_ok limit l held waiting \<Longrightarrow> limit = Some n \<Longrightarrow>
   lane_ok limit (Some ((case l of None \<Rightarrow> lane_default | Some x \<Rightarrow> x)\<lparr>ln_limit := n\<rparr>)) held waiting"
  by (cases l) (auto simp: lane_ok_def lane_default_def)

lemma lane_ok_busy:
  "lane_ok limit (Some l) held waiting \<Longrightarrow> ln_busy l < ln_limit l \<Longrightarrow>
   lane_ok limit (Some (l\<lparr>ln_busy := Suc (ln_busy l)\<rparr>)) (Suc held) waiting"
  by (simp add: lane_ok_def)

lemma lane_ok_push:
  "lane_ok limit (Some l) held waiting \<Longrightarrow>
   lane_ok limit (Some (l\<lparr>ln_next_ticket := Suc (ln_next_ticket l),
      ln_queue := ln_queue l @ [Suc (ln_next_ticket l)]\<rparr>)) held (insert (Suc (ln_next_ticket l)) waiting)"
  by (auto simp: lane_ok_def sorted_wrt_append less_Suc_eq_le)

lemma lane_ok_pop:
  "lane_ok limit (Some l) held waiting \<Longrightarrow> ln_queue l = t # rest \<Longrightarrow>
   lane_ok limit (Some (l\<lparr>ln_queue := rest\<rparr>)) held (waiting - {t})"
  by (auto simp: lane_ok_def)

lemma lane_ok_drop:
  "lane_ok limit (Some l) held waiting \<Longrightarrow>
   lane_ok limit (Some (l\<lparr>ln_queue := filter (\<lambda>q. q \<noteq> t) (ln_queue l)\<rparr>)) held (waiting - {t})"
  by (auto simp: lane_ok_def sorted_wrt_filter)

lemma lane_ok_release:
  assumes "lane_ok limit l held waiting" and "0 < held"
  shows "lane_ok limit (lane_release (\<lambda>_. l) who who) (held - 1) waiting"
  using assms by (cases l) (auto simp: lane_ok_def lane_release_def Let_def)

lemma lane_release_at: "lane_release ls who w = (if w = who then lane_release (\<lambda>_. ls who) who who else ls w)"
  by (simp add: lane_release_def Let_def split: option.split)

lemma enter_held:
  assumes "acquire_enter ls who m q = (ls', PermitHeld)"
  obtains n l where "m = Some n" "0 < n" "l = (lane_entry ls who)\<lparr>ln_limit := n\<rparr>" "ln_busy l < n"
    "ln_queue l = []" "ls' = ls(who \<mapsto> l\<lparr>ln_busy := Suc (ln_busy l)\<rparr>)"
  using assms by (auto simp: acquire_enter_def Let_def split: option.splits if_splits)

lemma enter_ticket:
  assumes "acquire_enter ls who m q = (ls', Ticket t)"
  obtains n l where "m = Some n" "0 < n" "l = (lane_entry ls who)\<lparr>ln_limit := n\<rparr>"
    "\<not> (ln_busy l < n \<and> ln_queue l = [])" "t = Suc (ln_next_ticket l)"
    "ls' = ls(who \<mapsto> l\<lparr>ln_next_ticket := t, ln_queue := ln_queue l @ [t]\<rparr>)"
  using assms by (auto simp: acquire_enter_def Let_def split: option.splits if_splits)

lemma enter_other:
  assumes "acquire_enter ls who m q = (ls', out)" and "out = PermitFree \<or> out = EntryError e"
  shows "ls' = ls \<or> (\<exists>n. m = Some n \<and> ls' = ls(who \<mapsto> (lane_entry ls who)\<lparr>ln_limit := n\<rparr>))"
  using assms by (auto simp: acquire_enter_def Let_def split: option.splits if_splits)

lemma poll_granted:
  "acquire_poll ls who t = (ls', True) \<longleftrightarrow>
     (\<exists>rest. ln_queue (lane_entry ls who) = t # rest \<and> ln_busy (lane_entry ls who) < ln_limit (lane_entry ls who) \<and>
        ls' = ls(who \<mapsto> (lane_entry ls who)\<lparr>ln_queue := rest, ln_busy := Suc (ln_busy (lane_entry ls who))\<rparr>))"
  by (auto simp: acquire_poll_def Let_def split: list.splits if_splits)

lemma poll_refused: "acquire_poll ls who t = (ls', False) \<Longrightarrow> ls' = ls(who \<mapsto> lane_entry ls who)"
  by (auto simp: acquire_poll_def Let_def split: list.splits if_splits)

lemma lanes_inv_at:
  assumes "lanes_inv cfg s" and "lane_ok (cfg who) (ls' who) (h' who) {t. (who, t) \<in> w'}"
    and "\<And>a. a \<noteq> who \<Longrightarrow> ls' a = ls_lanes s a \<and> h' a = ls_held s a \<and>
           (\<forall>t. (a, t) \<in> w' \<longleftrightarrow> (a, t) \<in> ls_waiting s)"
  shows "lanes_inv cfg (s\<lparr>ls_lanes := ls', ls_held := h', ls_waiting := w'\<rparr>)"
  unfolding lanes_inv_def
proof
  fix a
  show "lane_ok (cfg a) (ls_lanes (s\<lparr>ls_lanes := ls', ls_held := h', ls_waiting := w'\<rparr>) a)
      (ls_held (s\<lparr>ls_lanes := ls', ls_held := h', ls_waiting := w'\<rparr>) a)
      {t. (a, t) \<in> ls_waiting (s\<lparr>ls_lanes := ls', ls_held := h', ls_waiting := w'\<rparr>)}"
    using assms by (cases "a = who") (simp_all add: lanes_inv_def)
qed

lemma lanes_inv_lane: "lanes_inv cfg s \<Longrightarrow>
    lane_ok (cfg who) (ls_lanes s who) (ls_held s who) {t. (who, t) \<in> ls_waiting s}"
  by (simp add: lanes_inv_def)

lemma waiting_lane:
  assumes "lanes_inv cfg s" and "(who, t) \<in> ls_waiting s"
  obtains l where "ls_lanes s who = Some l" "lane_entry (ls_lanes s) who = l" "t \<in> set (ln_queue l)"
proof -
  have "lane_ok (cfg who) (ls_lanes s who) (ls_held s who) {t. (who, t) \<in> ls_waiting s}"
    using assms(1) by (rule lanes_inv_lane)
  with assms(2) that show thesis
    by (cases "ls_lanes s who") (auto simp: lane_ok_def lane_entry_def)
qed

lemma entry_ok:
  assumes "lanes_inv cfg s" and "cfg who = Some n"
  shows "lane_ok (cfg who) (Some ((lane_entry (ls_lanes s) who)\<lparr>ln_limit := n\<rparr>)) (ls_held s who)
      {t. (who, t) \<in> ls_waiting s}"
  using lane_ok_entry [OF lanes_inv_lane [OF assms(1)] assms(2)] by (simp add: lane_entry_def)

lemma lanes_inv_init: "lane_init s \<Longrightarrow> lanes_inv cfg s"
  by (simp add: lane_init_def lanes_inv_def lane_ok_def)

lemma enter_held_inv:
  assumes "lanes_inv cfg s" and "acquire_enter (ls_lanes s) who (cfg who) q = (ls', PermitHeld)"
  shows "lanes_inv cfg (s\<lparr>ls_lanes := ls', ls_held := (ls_held s)(who := Suc (ls_held s who))\<rparr>)"
proof -
  from assms(2) obtain n l where l: "cfg who = Some n" "l = (lane_entry (ls_lanes s) who)\<lparr>ln_limit := n\<rparr>"
      "ln_busy l < n" "ls' = (ls_lanes s)(who \<mapsto> l\<lparr>ln_busy := Suc (ln_busy l)\<rparr>)"
    by (rule enter_held)
  have "lane_ok (cfg who) (Some (l\<lparr>ln_busy := Suc (ln_busy l)\<rparr>)) (Suc (ls_held s who)) {t. (who, t) \<in> ls_waiting s}"
    using entry_ok [OF assms(1) l(1)] l by (intro lane_ok_busy) auto
  with lanes_inv_at [OF assms(1), of who ls' "(ls_held s)(who := Suc (ls_held s who))" "ls_waiting s"]
  show ?thesis using l by simp
qed

lemma enter_ticket_inv:
  assumes "lanes_inv cfg s" and "acquire_enter (ls_lanes s) who (cfg who) q = (ls', Ticket t)"
  shows "lanes_inv cfg (s\<lparr>ls_lanes := ls', ls_waiting := insert (who, t) (ls_waiting s)\<rparr>)"
proof -
  from assms(2) obtain n l where l: "cfg who = Some n" "l = (lane_entry (ls_lanes s) who)\<lparr>ln_limit := n\<rparr>"
      "t = Suc (ln_next_ticket l)" "ls' = (ls_lanes s)(who \<mapsto> l\<lparr>ln_next_ticket := t, ln_queue := ln_queue l @ [t]\<rparr>)"
    by (rule enter_ticket)
  have "lane_ok (cfg who) (Some (l\<lparr>ln_next_ticket := t, ln_queue := ln_queue l @ [t]\<rparr>)) (ls_held s who)
      (insert t {t. (who, t) \<in> ls_waiting s})"
    using lane_ok_push [OF entry_ok [OF assms(1) l(1)]] l by simp
  moreover have "insert t {t. (who, t) \<in> ls_waiting s} = {t'. (who, t') \<in> insert (who, t) (ls_waiting s)}"
    by auto
  ultimately show ?thesis
    using lanes_inv_at [OF assms(1), of who ls' "ls_held s" "insert (who, t) (ls_waiting s)"] l by simp
qed

lemma enter_other_inv:
  assumes "lanes_inv cfg s" and "acquire_enter (ls_lanes s) who (cfg who) q = (ls', out)"
    and "out = PermitFree \<or> out = EntryError e"
  shows "lanes_inv cfg (s\<lparr>ls_lanes := ls'\<rparr>)"
  using enter_other [OF assms(2,3)]
proof
  assume "\<exists>n. cfg who = Some n \<and> ls' = (ls_lanes s)(who \<mapsto> (lane_entry (ls_lanes s) who)\<lparr>ln_limit := n\<rparr>)"
  then show ?thesis
    using lanes_inv_at [OF assms(1), of who ls' "ls_held s" "ls_waiting s"] entry_ok [OF assms(1), of who] by auto
qed (use assms(1) in simp)

lemma waiting_minus: "{t. (who, t) \<in> w} - {t} = {t'. (who, t') \<in> w - {(who, t)}}"
  by auto

lemma granted_inv:
  assumes "lanes_inv cfg s" and "(who, t) \<in> ls_waiting s" and "acquire_poll (ls_lanes s) who t = (ls', True)"
  shows "lanes_inv cfg (s\<lparr>ls_lanes := ls', ls_held := (ls_held s)(who := Suc (ls_held s who)),
           ls_waiting := ls_waiting s - {(who, t)}\<rparr>)"
proof -
  obtain l where l: "ls_lanes s who = Some l" "lane_entry (ls_lanes s) who = l"
    using waiting_lane [OF assms(1,2)] .
  from assms(3) l obtain rest where r: "ln_queue l = t # rest" "ln_busy l < ln_limit l"
      "ls' = (ls_lanes s)(who \<mapsto> l\<lparr>ln_queue := rest, ln_busy := Suc (ln_busy l)\<rparr>)"
    by (auto simp: poll_granted)
  have ok: "lane_ok (cfg who) (Some l) (ls_held s who) {t. (who, t) \<in> ls_waiting s}"
    using lanes_inv_lane [OF assms(1), of who] l by simp
  have "lane_ok (cfg who) (ls' who) (Suc (ls_held s who)) {t'. (who, t') \<in> ls_waiting s - {(who, t)}}"
    unfolding waiting_minus [symmetric] using lane_ok_busy [OF lane_ok_pop [OF ok r(1)]] r by simp
  then show ?thesis
    using lanes_inv_at [OF assms(1), of who ls' "(ls_held s)(who := Suc (ls_held s who))" "ls_waiting s - {(who, t)}"]
      r by simp
qed

lemma poll_again_lanes:
  assumes "lanes_inv cfg s" and "(who, t) \<in> ls_waiting s" and "acquire_poll (ls_lanes s) who t = (ls', False)"
  shows "ls' = ls_lanes s"
proof -
  obtain l where "ls_lanes s who = Some l" "lane_entry (ls_lanes s) who = l"
    using waiting_lane [OF assms(1,2)] .
  then show ?thesis using poll_refused [OF assms(3)] by (simp add: fun_upd_idem)
qed

lemma give_up_inv:
  assumes "lanes_inv cfg s" and "(who, t) \<in> ls_waiting s"
  shows "lanes_inv cfg (s\<lparr>ls_lanes := acquire_give_up (ls_lanes s) who t, ls_waiting := ls_waiting s - {(who, t)}\<rparr>)"
proof -
  obtain l where l: "ls_lanes s who = Some l"
    using waiting_lane [OF assms(1,2)] .
  then have "lane_ok (cfg who) (acquire_give_up (ls_lanes s) who t who) (ls_held s who)
      {t'. (who, t') \<in> ls_waiting s - {(who, t)}}"
    unfolding waiting_minus [symmetric] using lane_ok_drop lanes_inv_lane [OF assms(1), of who]
    by (simp add: acquire_give_up_def)
  then show ?thesis
    using lanes_inv_at [OF assms(1), of who "acquire_give_up (ls_lanes s) who t" "ls_held s" "ls_waiting s - {(who, t)}"]
      l by (simp add: acquire_give_up_def)
qed

lemma release_inv:
  assumes "lanes_inv cfg s" and "0 < ls_held s who"
  shows "lanes_inv cfg (s\<lparr>ls_lanes := lane_release (ls_lanes s) who, ls_held := (ls_held s)(who := ls_held s who - 1)\<rparr>)"
proof -
  have "lane_ok (cfg who) (lane_release (ls_lanes s) who who) (ls_held s who - 1) {t. (who, t) \<in> ls_waiting s}"
    using lane_ok_release [OF lanes_inv_lane [OF assms(1)] assms(2)]
    by (simp add: lane_release_at [of "ls_lanes s"])
  then show ?thesis
    using lanes_inv_at [OF assms(1), of who "lane_release (ls_lanes s) who"
        "(ls_held s)(who := ls_held s who - 1)" "ls_waiting s"]
    by (simp add: lane_release_at [of "ls_lanes s" who])
qed

lemma lane_ok_antimono: "lane_ok limit l held w \<Longrightarrow> w' \<subseteq> w \<Longrightarrow> lane_ok limit l held w'"
  by (cases l) (auto simp: lane_ok_def)

lemma cancel_inv: "lanes_inv cfg s \<Longrightarrow> lanes_inv cfg (s\<lparr>ls_waiting := ls_waiting s - w\<rparr>)"
  by (auto simp: lanes_inv_def intro: lane_ok_antimono)

lemma lane_step_inv:
  assumes "lanes_inv cfg s" and "lane_step cfg dropping s s'"
  shows "lanes_inv cfg s'"
  using assms(2)
proof cases
  case (step_poll_again who t ls')
  then show ?thesis using poll_again_lanes [OF assms(1) step_poll_again(2,3)] assms(1) by simp
qed (use assms(1) in \<open>auto intro: enter_held_inv enter_ticket_inv enter_other_inv granted_inv
       give_up_inv release_inv [simplified] cancel_inv\<close>)

interpretation lanes_machine: invariant_machine lane_init "lane_step cfg dropping" "lanes_inv cfg"
  for cfg dropping
  by unfold_locales (auto intro: lanes_inv_init lane_step_inv)

section \<open>Lanes: consequences\<close>

lemma lanes_inv_held: "lanes_inv cfg s \<Longrightarrow> in_flight (ls_lanes s) who = ls_held s who"
  using lanes_inv_lane [of cfg s who] by (auto simp: in_flight_def lane_ok_def split: option.splits)

lemma lanes_inv_limit: "lanes_inv cfg s \<Longrightarrow> cfg who = Some n \<Longrightarrow> ls_held s who \<le> n"
  using lanes_inv_lane [of cfg s who] by (auto simp: lane_ok_def split: option.splits)

text \<open>Without dropped waiters the queue holds exactly the waiting tickets.\<close>

definition queue_exact :: "lane_state \<Rightarrow> bool" where
  "queue_exact s \<longleftrightarrow> (\<forall>who t. (who, t) \<in> ls_waiting s \<longleftrightarrow>
     (case ls_lanes s who of None \<Rightarrow> False | Some l \<Rightarrow> t \<in> set (ln_queue l)))"

lemma queue_exact_at:
  assumes "queue_exact s"
    and "\<And>t. (who, t) \<in> w' \<longleftrightarrow> (case ls' who of None \<Rightarrow> False | Some l \<Rightarrow> t \<in> set (ln_queue l))"
    and "\<And>a. a \<noteq> who \<Longrightarrow> ls' a = ls_lanes s a \<and> (\<forall>t. (a, t) \<in> w' \<longleftrightarrow> (a, t) \<in> ls_waiting s)"
  shows "queue_exact (s\<lparr>ls_lanes := ls', ls_held := h', ls_waiting := w'\<rparr>)"
  unfolding queue_exact_def
proof (intro allI)
  fix a t
  show "((a, t) \<in> ls_waiting (s\<lparr>ls_lanes := ls', ls_held := h', ls_waiting := w'\<rparr>)) =
      (case ls_lanes (s\<lparr>ls_lanes := ls', ls_held := h', ls_waiting := w'\<rparr>) a of
         None \<Rightarrow> False | Some l \<Rightarrow> t \<in> set (ln_queue l))"
    using assms by (cases "a = who") (simp_all add: queue_exact_def)
qed

lemma queue_exact_entry:
  "queue_exact s \<Longrightarrow> (who, t) \<in> ls_waiting s \<longleftrightarrow> t \<in> set (ln_queue (lane_entry (ls_lanes s) who))"
  by (auto simp: queue_exact_def lane_entry_def lane_default_def split: option.splits)

lemma lane_release_queue:
  "(case lane_release ls who a of None \<Rightarrow> False | Some l \<Rightarrow> t \<in> set (ln_queue l)) \<longleftrightarrow>
   (case ls a of None \<Rightarrow> False | Some l \<Rightarrow> t \<in> set (ln_queue l))"
  by (auto simp: lane_release_def Let_def split: option.split)

lemma queue_exact_init: "lane_init s \<Longrightarrow> queue_exact s"
  by (simp add: lane_init_def queue_exact_def)

lemma queue_exact_step:
  assumes "lanes_inv cfg s" and "queue_exact s" and "lane_step cfg False s s'"
  shows "queue_exact s'"
  using assms(3)
proof cases
  case (step_enter_held who q ls')
  from step_enter_held(2) show ?thesis
    by (rule enter_held)
       (use step_enter_held(1) queue_exact_at [OF assms(2), of who "ls_waiting s" ls'
          "(ls_held s)(who := Suc (ls_held s who))"] queue_exact_entry [OF assms(2), of who] in auto)
next
  case (step_enter_ticket who q ls' t)
  from step_enter_ticket(2) show ?thesis
    by (rule enter_ticket)
       (use step_enter_ticket(1) queue_exact_at [OF assms(2), of who "insert (who, t) (ls_waiting s)" ls' "ls_held s"]
          queue_exact_entry [OF assms(2), of who] in auto)
next
  case (step_enter_other who q ls' out e)
  from enter_other [OF step_enter_other(2,3)] show ?thesis
    using step_enter_other(1) queue_exact_at [OF assms(2), of who "ls_waiting s" ls' "ls_held s"]
      queue_exact_entry [OF assms(2), of who] assms(2) by auto
next
  case (step_granted who t ls')
  then obtain l rest where l: "ls_lanes s who = Some l" "lane_entry (ls_lanes s) who = l" "ln_queue l = t # rest"
      "ls' = (ls_lanes s)(who \<mapsto> l\<lparr>ln_queue := rest, ln_busy := Suc (ln_busy l)\<rparr>)"
    using waiting_lane [OF assms(1) step_granted(2)] by (metis poll_granted)
  moreover have "t \<notin> set rest"
    using lanes_inv_lane [OF assms(1), of who] l by (auto simp: lane_ok_def)
  ultimately show ?thesis
    using step_granted(1) queue_exact_at [OF assms(2), of who "ls_waiting s - {(who, t)}" ls'
        "(ls_held s)(who := Suc (ls_held s who))"] queue_exact_entry [OF assms(2), of who] by auto
next
  case (step_poll_again who t ls')
  then show ?thesis using poll_again_lanes [OF assms(1) step_poll_again(2,3)] assms(2) by simp
next
  case (step_give_up who t)
  obtain l where "ls_lanes s who = Some l"
    using waiting_lane [OF assms(1) step_give_up(2)] .
  then show ?thesis
    using step_give_up(1) queue_exact_at [OF assms(2), of who "ls_waiting s - {(who, t)}"
        "acquire_give_up (ls_lanes s) who t" "ls_held s"] queue_exact_entry [OF assms(2), of who]
    by (auto simp: acquire_give_up_def lane_entry_def)
next
  case (step_release who)
  then show ?thesis
    using assms(2) by (simp add: queue_exact_def lane_release_queue)
qed simp

interpretation exact_machine: invariant_machine lane_init "lane_step cfg False"
  "\<lambda>s. lanes_inv cfg s \<and> queue_exact s" for cfg
  by unfold_locales
     (auto intro: lanes_inv_init lane_step_inv queue_exact_init queue_exact_step)

text \<open>A ticket at the front of a queue that no running request holds.\<close>

definition abandoned :: "ustring \<Rightarrow> nat \<Rightarrow> lane_state \<Rightarrow> bool" where
  "abandoned who t s \<longleftrightarrow> (who, t) \<notin> ls_waiting s \<and>
     (\<exists>l rest. ls_lanes s who = Some l \<and> ln_queue l = t # rest)"

lemma abandoned_entry: "abandoned who t s \<Longrightarrow> \<exists>rest. ln_queue (lane_entry (ls_lanes s) who) = t # rest"
  by (auto simp: abandoned_def lane_entry_def)

lemma abandoned_refuses:
  assumes "abandoned who t s"
  shows "acquire_enter (ls_lanes s) who m q \<noteq> (ls', PermitHeld)"
    and "(who, t') \<in> ls_waiting s \<Longrightarrow> \<not> snd (acquire_poll (ls_lanes s) who t')"
proof -
  obtain rest where q: "ln_queue (lane_entry (ls_lanes s) who) = t # rest"
    using abandoned_entry [OF assms] by blast
  show "acquire_enter (ls_lanes s) who m q \<noteq> (ls', PermitHeld)"
  proof
    assume "acquire_enter (ls_lanes s) who m q = (ls', PermitHeld)"
    then show False by (rule enter_held) (use q in auto)
  qed
  assume "(who, t') \<in> ls_waiting s"
  then have "t' \<noteq> t" using assms by (auto simp: abandoned_def)
  with q show "\<not> snd (acquire_poll (ls_lanes s) who t')"
    by (simp add: acquire_poll_def Let_def)
qed

lemma abandoned_step:
  assumes "lanes_inv cfg s" and "abandoned who t s" and "lane_step cfg dropping s s'"
  shows "abandoned who t s' \<and> ls_held s' who \<le> ls_held s who"
  using assms(3)
proof cases
  case (step_enter_held a q ls')
  then have "a \<noteq> who" using abandoned_refuses(1) [OF assms(2)] by auto
  from step_enter_held(2) show ?thesis
    by (rule enter_held) (use step_enter_held(1) \<open>a \<noteq> who\<close> assms(2) in \<open>auto simp: abandoned_def\<close>)
next
  case (step_enter_ticket a q ls' u)
  from step_enter_ticket(2) obtain n l where l: "l = (lane_entry (ls_lanes s) a)\<lparr>ln_limit := n\<rparr>"
      "u = Suc (ln_next_ticket l)" "ls' = (ls_lanes s)(a \<mapsto> l\<lparr>ln_next_ticket := u, ln_queue := ln_queue l @ [u]\<rparr>)"
    by (rule enter_ticket)
  show ?thesis
  proof (cases "a = who")
    case True
    with assms(2) l lanes_inv_lane [OF assms(1), of who] have "u \<noteq> t"
      by (auto simp: abandoned_def lane_ok_def lane_entry_def)
    with True step_enter_ticket(1) l abandoned_entry [OF assms(2)] assms(2) show ?thesis
      by (auto simp: abandoned_def)
  qed (use step_enter_ticket(1) l assms(2) in \<open>auto simp: abandoned_def\<close>)
next
  case (step_enter_other a q ls' out e)
  from enter_other [OF step_enter_other(2,3)] show ?thesis
    using step_enter_other(1) assms(2) abandoned_entry [OF assms(2)] by (auto simp: abandoned_def)
next
  case (step_granted a u ls')
  then have "a \<noteq> who" using abandoned_refuses(2) [OF assms(2), of u] by auto
  with step_granted assms(2) show ?thesis by (auto simp: abandoned_def poll_granted)
next
  case (step_poll_again a u ls')
  then show ?thesis using poll_again_lanes [OF assms(1) step_poll_again(2,3)] assms(2)
    by (auto simp: abandoned_def)
next
  case (step_give_up a u)
  then show ?thesis using assms(2)
    by (auto simp: abandoned_def acquire_give_up_def split: option.split)
next
  case (step_release a)
  then show ?thesis using assms(2)
    by (auto simp: abandoned_def lane_release_def Let_def split: option.splits)
next
  case (step_cancel a u)
  then show ?thesis using assms(2) by (auto simp: abandoned_def)
qed

section \<open>The rolling minute: runs\<close>

text \<open>Turns of \<open>reserve_minute\<close> by any requests of one account, at the instants the clock
  gave: the window and all the starts that were granted.\<close>

definition minute_step :: "int \<Rightarrow> nat \<Rightarrow> int list \<times> int list \<Rightarrow> int \<times> int \<Rightarrow> int list \<times> int list" where
  "minute_step lowest limit st turn =
     (case reserve_turn lowest (Some limit) (fst st) (fst turn) (snd turn) of
        (starts, Reserved) \<Rightarrow> (starts, snd st @ [snd turn])
      | (starts, _) \<Rightarrow> (starts, snd st))"

definition minute_inv :: "nat \<Rightarrow> int \<Rightarrow> int list \<times> int list \<Rightarrow> bool" where
  "minute_inv limit now st =
     (sorted (snd st) \<and> (\<forall>s \<in> set (snd st). s \<le> now) \<and>
      (\<exists>k. fst st = drop k (snd st) \<and> (\<forall>s \<in> set (take k (snd st)). s \<le> now - RPM_SPAN)) \<and>
      (\<forall>i. i + limit < length (snd st) \<longrightarrow> snd st ! i + RPM_SPAN \<le> snd st ! (i + limit)))"

lemma reserve_turn_cases:
  assumes "0 < limit" and "lowest \<le> now - RPM_SPAN"
    and "w = dropWhile (\<lambda>s. s \<le> now - RPM_SPAN) starts"
  shows "reserve_turn lowest (Some limit) starts deadline now =
     (if length w < limit then (w @ [now], Reserved)
      else if hd w + RPM_SPAN > deadline then (w, MinuteError) else (w, SleepUntil (hd w + RPM_SPAN)))"
proof -
  have "reserve_turn lowest (Some limit) starts deadline now =
     (if length w < limit then (w @ [now], Reserved)
      else case w of [] \<Rightarrow> (w, Reserved) | oldest # _ \<Rightarrow>
        if oldest + RPM_SPAN > deadline then (w, MinuteError) else (w, SleepUntil (oldest + RPM_SPAN)))"
    using assms(1,2) unfolding assms(3)
    by (cases "dropWhile (\<lambda>s. s \<le> now - RPM_SPAN) starts")
       (simp_all add: reserve_turn_def Let_def del: dropWhile_eq_Nil_conv)
  then show ?thesis using assms(1) by (cases w) auto
qed

lemma spacing_snoc:
  assumes "\<forall>i. i + limit < length g \<longrightarrow> g ! i + RPM_SPAN \<le> g ! (i + limit)"
    and "\<forall>s \<in> set (take k g). s \<le> now - RPM_SPAN" and "length (drop k g) < limit"
  shows "\<forall>i. i + limit < length (g @ [now]) \<longrightarrow> (g @ [now]) ! i + RPM_SPAN \<le> (g @ [now]) ! (i + limit)"
proof (intro allI impI)
  fix i assume i: "i + limit < length (g @ [now])"
  show "(g @ [now]) ! i + RPM_SPAN \<le> (g @ [now]) ! (i + limit)"
  proof (cases "i + limit < length g")
    case True
    with assms(1) show ?thesis by (simp add: nth_append)
  next
    case False
    with i assms(3) have "i + limit = length g" "i < k" "i < length g" by auto
    then have "g ! i \<in> set (take k g)" by (metis in_set_conv_nth length_take min_less_iff_conj nth_take)
    with assms(2) have "g ! i \<le> now - RPM_SPAN" by blast
    with \<open>i + limit = length g\<close> \<open>i < length g\<close> show ?thesis by (simp add: nth_append)
  qed
qed

lemma minute_step_inv:
  assumes "minute_inv limit now0 st" and "now0 \<le> now" and "lowest \<le> now - RPM_SPAN" and "0 < limit"
  shows "minute_inv limit now (minute_step lowest limit st (deadline, now))"
proof -
  define g where "g = snd st"
  from assms(1) obtain k where k: "fst st = drop k g" "\<forall>s \<in> set (take k g). s \<le> now0 - RPM_SPAN"
      "sorted g" "\<forall>s \<in> set g. s \<le> now0" "\<forall>i. i + limit < length g \<longrightarrow> g ! i + RPM_SPAN \<le> g ! (i + limit)"
    by (auto simp: minute_inv_def g_def)
  define w where "w = dropWhile (\<lambda>s. s \<le> now - RPM_SPAN) (drop k g)"
  define j where "j = k + length (takeWhile (\<lambda>s. s \<le> now - RPM_SPAN) (drop k g))"
  have wj: "w = drop j g"
    by (simp add: w_def j_def dropWhile_eq_drop add.commute)
  have old: "\<forall>s \<in> set (take j g). s \<le> now - RPM_SPAN"
  proof -
    have "take j g = take k g @ takeWhile (\<lambda>s. s \<le> now - RPM_SPAN) (drop k g)"
      by (simp add: j_def take_add takeWhile_eq_take [symmetric])
    then show ?thesis using k(2) assms(2) by (fastforce dest: set_takeWhileD)
  qed
  show ?thesis
  proof (cases "length w < limit")
    case True
    have "minute_step lowest limit st (deadline, now) = (w @ [now], g @ [now])"
      using reserve_turn_cases [OF assms(4,3) w_def] True by (simp add: minute_step_def k(1) g_def)
    moreover have "w @ [now] = drop (min j (length g)) (g @ [now])" by (simp add: wj min_def)
    moreover have "\<forall>s \<in> set (take (min j (length g)) (g @ [now])). s \<le> now - RPM_SPAN"
      using old by (simp add: min_def)
    ultimately have "\<exists>i. fst (minute_step lowest limit st (deadline, now)) = drop i (g @ [now]) \<and>
        (\<forall>s \<in> set (take i (g @ [now])). s \<le> now - RPM_SPAN)"
      and "snd (minute_step lowest limit st (deadline, now)) = g @ [now]"
      by (metis fst_conv, metis snd_conv)
    moreover have "sorted (g @ [now])" "\<forall>s \<in> set (g @ [now]). s \<le> now"
      using k assms(2) by (auto simp: sorted_append)
    ultimately show ?thesis
      using spacing_snoc [OF k(5) old] True unfolding minute_inv_def by (simp only: wj) blast
  next
    case False
    then have "minute_step lowest limit st (deadline, now) = (w, g)"
      using reserve_turn_cases [OF assms(4,3) w_def] by (simp add: minute_step_def k(1) g_def)
    then show ?thesis using k assms(2) wj old by (auto simp: minute_inv_def)
  qed
qed

lemma minute_run_inv:
  "minute_inv limit now0 st \<Longrightarrow> sorted (now0 # map snd turns) \<Longrightarrow>
   \<forall>(d, now) \<in> set turns. lowest \<le> now - RPM_SPAN \<Longrightarrow> 0 < limit \<Longrightarrow>
   \<exists>now. minute_inv limit now (foldl (minute_step lowest limit) st turns)"
proof (induction turns arbitrary: st now0)
  case (Cons turn turns)
  obtain d now where t: "turn = (d, now)" by fastforce
  from Cons.prems t have "minute_inv limit now (minute_step lowest limit st turn)"
    by (auto intro: minute_step_inv)
  with Cons.prems t show ?case by (auto intro!: Cons.IH [of now])
qed auto

lemma spaced_window:
  fixes t d :: int
  assumes "sorted g" and "\<forall>i. i + limit < length g \<longrightarrow> g ! i + d \<le> g ! (i + limit)"
  shows "length (filter (\<lambda>s. t \<le> s \<and> s < t + d) g) \<le> limit"
proof (rule ccontr)
  define I where "I = {i. i < length g \<and> t \<le> g ! i \<and> g ! i < t + d}"
  assume "\<not> length (filter (\<lambda>s. t \<le> s \<and> s < t + d) g) \<le> limit"
  then have card: "limit < card I"
    by (simp add: I_def length_filter_conv_card)
  have fin: "finite I" by (simp add: I_def)
  have ne: "I \<noteq> {}" using card by auto
  have "I \<subseteq> {Min I..Max I}" using fin by auto
  then have "card I \<le> Suc (Max I) - Min I"
    by (metis card_atLeastAtMost card_mono finite_atLeastAtMost)
  with card have le: "Min I + limit \<le> Max I" by linarith
  have mem: "Min I \<in> I" "Max I \<in> I" using fin ne by auto
  then have "g ! (Min I + limit) \<le> g ! Max I"
    using le assms(1) by (auto simp: I_def intro: sorted_nth_mono)
  moreover have "g ! Min I + d \<le> g ! (Min I + limit)"
    using assms(2) le mem by (auto simp: I_def)
  ultimately show False using mem by (auto simp: I_def)
qed

section \<open>Properties\<close>

text \<open>C4: However the requests of an account interleave, dropped waiters included, the requests
  holding one of its slots never exceed its configured limit, and the lane counts exactly them.\<close>
theorem in_flight_bounded:
  assumes "reach lane_init (lane_step cfg dropping) s" and "cfg who = Some limit"
  shows "in_flight (ls_lanes s) who = ls_held s who \<and> ls_held s who \<le> limit"
  using lanes_machine.reach_inv [OF assms(1)] assms(2) lanes_inv_held lanes_inv_limit by blast

definition one_slot :: "ustring \<Rightarrow> nat option" where
  "one_slot who = (if who = lit ''a'' then Some 1 else None)"

text \<open>A concrete run on an account with one slot: a request takes it, a second one waits.\<close>

definition run_held :: lane_state where
  "run_held = \<lparr>ls_lanes = [lit ''a'' \<mapsto> \<lparr>ln_limit = 1, ln_busy = 1, ln_queue = [], ln_next_ticket = 0\<rparr>],
     ls_held = (\<lambda>_. 0)(lit ''a'' := 1), ls_waiting = {}\<rparr>"

definition run_waiting :: lane_state where
  "run_waiting = \<lparr>ls_lanes = [lit ''a'' \<mapsto> \<lparr>ln_limit = 1, ln_busy = 1, ln_queue = [1], ln_next_ticket = 1\<rparr>],
     ls_held = (\<lambda>_. 0)(lit ''a'' := 1), ls_waiting = {(lit ''a'', 1)}\<rparr>"

definition run_freed :: lane_state where
  "run_freed = \<lparr>ls_lanes = [lit ''a'' \<mapsto> \<lparr>ln_limit = 1, ln_busy = 0, ln_queue = [1], ln_next_ticket = 1\<rparr>],
     ls_held = (\<lambda>_. 0), ls_waiting = {(lit ''a'', 1)}\<rparr>"

lemma run_steps:
  "lane_init \<lparr>ls_lanes = Map.empty, ls_held = (\<lambda>_. 0), ls_waiting = {}\<rparr>"
  "lane_step one_slot dropping \<lparr>ls_lanes = Map.empty, ls_held = (\<lambda>_. 0), ls_waiting = {}\<rparr> run_held"
  "lane_step one_slot dropping run_held run_waiting"
  "lane_step one_slot dropping run_waiting run_freed"
proof -
  show "lane_init \<lparr>ls_lanes = Map.empty, ls_held = (\<lambda>_. 0), ls_waiting = {}\<rparr>"
    by (simp add: lane_init_def)
  show "lane_step one_slot dropping \<lparr>ls_lanes = Map.empty, ls_held = (\<lambda>_. 0), ls_waiting = {}\<rparr> run_held"
    using lane_step.step_enter_held [of "\<lparr>ls_lanes = Map.empty, ls_held = (\<lambda>_. 0), ls_waiting = {}\<rparr>"
      "lit ''a''" one_slot None "ls_lanes run_held" dropping]
    by (simp add: run_held_def one_slot_def acquire_enter_def lane_entry_def lane_default_def)
  show "lane_step one_slot dropping run_held run_waiting"
    using lane_step.step_enter_ticket [of run_held "lit ''a''" one_slot None "ls_lanes run_waiting" 1 dropping]
    by (simp add: run_held_def run_waiting_def one_slot_def acquire_enter_def lane_entry_def Let_def)
  show "lane_step one_slot dropping run_waiting run_freed"
    using lane_step.step_release [of run_waiting "lit ''a''" one_slot dropping]
    by (simp add: run_waiting_def run_freed_def lane_release_def Let_def fun_upd_def cong: if_cong)
qed

lemma run_reach:
  "reach lane_init (lane_step one_slot dropping) run_waiting"
  "reach lane_init (lane_step one_slot dropping) run_freed"
  by (meson reach_init reach_step run_steps)+

theorem in_flight_bounded_witness:
  "in_flight (ls_lanes run_waiting) (lit ''a'') = ls_held run_waiting (lit ''a'') \<and>
   ls_held run_waiting (lit ''a'') \<le> 1"
  by (rule in_flight_bounded [OF run_reach(1) [of True]]) (simp add: one_slot_def)

text \<open>Slots are granted in the order requests queued: a poll succeeds only for the smallest
  waiting ticket of the account, and a newcomer is admitted at once only when nobody waits.\<close>
lemma slots_are_fifo:
  assumes "reach lane_init (lane_step cfg dropping) s"
  shows "((who, t) \<in> ls_waiting s \<and> acquire_poll (ls_lanes s) who t = (ls', True) \<longrightarrow>
       (\<forall>t'. (who, t') \<in> ls_waiting s \<longrightarrow> t \<le> t')) \<and>
     (acquire_enter (ls_lanes s) who (cfg who) q = (ls', PermitHeld) \<longrightarrow>
       (\<forall>t'. (who, t') \<notin> ls_waiting s))"
proof -
  have inv: "lanes_inv cfg s" using assms by (rule lanes_machine.reach_inv)
  have front: "t \<le> t'" if w: "(who, t') \<in> ls_waiting s" and p: "acquire_poll (ls_lanes s) who t = (ls', True)" for t'
  proof -
    obtain l where l: "ls_lanes s who = Some l" "lane_entry (ls_lanes s) who = l" "t' \<in> set (ln_queue l)"
      using waiting_lane [OF inv w] .
    with p obtain rest where "ln_queue l = t # rest" by (auto simp: poll_granted)
    with l lanes_inv_lane [OF inv, of who] show ?thesis by (auto simp: lane_ok_def)
  qed
  have "(who, t') \<notin> ls_waiting s" if "acquire_enter (ls_lanes s) who (cfg who) q = (ls', PermitHeld)" for t'
  proof
    assume "(who, t') \<in> ls_waiting s"
    then obtain l where "lane_entry (ls_lanes s) who = l" "t' \<in> set (ln_queue l)"
      using waiting_lane [OF inv] by metis
    with that show False by (elim enter_held) auto
  qed
  with front show ?thesis by blast
qed

lemma slots_are_fifo_witness:
  "acquire_poll (ls_lanes run_freed) (lit ''a'') 1 =
     ([lit ''a'' \<mapsto> \<lparr>ln_limit = 1, ln_busy = 1, ln_queue = [], ln_next_ticket = 1\<rparr>], True) \<and>
   \<not> (\<exists>t' < 1. (lit ''a'', t') \<in> ls_waiting run_freed)"
  using slots_are_fifo [OF run_reach(2) [of True], of "lit ''a''" 1
    "[lit ''a'' \<mapsto> \<lparr>ln_limit = 1, ln_busy = 1, ln_queue = [], ln_next_ticket = 1\<rparr>]"]
  by (simp add: run_freed_def acquire_poll_def lane_entry_def)

text \<open>C38: A free slot reaches the oldest waiter: as long as no waiter was dropped, whenever the
  account holds fewer requests than its limit, the next poll of its smallest waiting ticket
  succeeds.\<close>
theorem oldest_waiter_progresses:
  assumes "reach lane_init (lane_step cfg False) s" and "cfg who = Some limit" and "ls_held s who < limit"
    and "(who, t) \<in> ls_waiting s" and "\<forall>t'. (who, t') \<in> ls_waiting s \<longrightarrow> t \<le> t'"
  shows "snd (acquire_poll (ls_lanes s) who t)"
proof -
  have inv: "lanes_inv cfg s" and ex: "queue_exact s"
    using exact_machine.reach_inv [OF assms(1)] by auto
  obtain l where l: "ls_lanes s who = Some l" "lane_entry (ls_lanes s) who = l" "t \<in> set (ln_queue l)"
    using waiting_lane [OF inv assms(4)] .
  then obtain f rest where q: "ln_queue l = f # rest" by (cases "ln_queue l") auto
  then have "(who, f) \<in> ls_waiting s" using queue_exact_entry [OF ex, of who f] l by simp
  with assms(5) l q lanes_inv_lane [OF inv, of who] have "f = t" by (fastforce simp: lane_ok_def)
  with l q assms(2,3) lanes_inv_lane [OF inv, of who] show ?thesis
    by (simp add: acquire_poll_def lane_ok_def Let_def)
qed

theorem oldest_waiter_progresses_witness:
  "snd (acquire_poll (ls_lanes run_freed) (lit ''a'') 1)"
  by (rule oldest_waiter_progresses [OF run_reach(2), of _ 1]) (simp_all add: one_slot_def run_freed_def)

text \<open>C39: A dropped waiter blocks its account for good: once the request holding the front ticket
  of a lane is cancelled, that ticket stays in front for ever, so from then on no waiter of the
  account is granted a slot and no newcomer is admitted, even when every slot is free.\<close>
theorem dropped_waiter_blocks_lane:
  assumes "reach lane_init (lane_step cfg True) s" and "abandoned who t s"
    and "(lane_step cfg True)\<^sup>*\<^sup>* s s'"
  shows "ls_held s' who \<le> ls_held s who \<and>
     acquire_enter (ls_lanes s') who (cfg who) q \<noteq> (ls', PermitHeld) \<and>
     (\<forall>t'. (who, t') \<in> ls_waiting s' \<longrightarrow> \<not> snd (acquire_poll (ls_lanes s') who t'))"
proof -
  have inv: "lanes_inv cfg s" using assms(1) by (rule lanes_machine.reach_inv)
  from assms(3) have "lanes_inv cfg s' \<and> abandoned who t s' \<and> ls_held s' who \<le> ls_held s who"
  proof (induction rule: rtranclp_induct)
    case (step y z)
    then show ?case using abandoned_step lane_step_inv by (meson order_trans)
  qed (use inv assms(2) in simp)
  then show ?thesis using abandoned_refuses by blast
qed

theorem dropped_waiter_blocks_lane_witness:
  "abandoned (lit ''a'') 1 (run_waiting\<lparr>ls_waiting := {}\<rparr>) \<and>
   lane_step one_slot True (run_waiting\<lparr>ls_waiting := {}\<rparr>) (run_freed\<lparr>ls_waiting := {}\<rparr>) \<and>
   in_flight (ls_lanes (run_freed\<lparr>ls_waiting := {}\<rparr>)) (lit ''a'') = 0 \<and>
   acquire_enter (ls_lanes (run_freed\<lparr>ls_waiting := {}\<rparr>)) (lit ''a'') (one_slot (lit ''a'')) None
     \<noteq> ((ls_lanes run_held), PermitHeld)"
proof -
  have "lane_step one_slot True run_waiting (run_waiting\<lparr>ls_waiting := ls_waiting run_waiting - {(lit ''a'', 1)}\<rparr>)"
    by (rule lane_step.step_cancel) (simp_all add: run_waiting_def)
  then have r: "reach lane_init (lane_step one_slot True) (run_waiting\<lparr>ls_waiting := {}\<rparr>)"
    using run_reach(1) [of True] by (auto simp: run_waiting_def intro: reach_step)
  have ab: "abandoned (lit ''a'') 1 (run_waiting\<lparr>ls_waiting := {}\<rparr>)"
    by (simp add: abandoned_def run_waiting_def)
  have st: "lane_step one_slot True (run_waiting\<lparr>ls_waiting := {}\<rparr>) (run_freed\<lparr>ls_waiting := {}\<rparr>)"
    using lane_step.step_release [of "run_waiting\<lparr>ls_waiting := {}\<rparr>" "lit ''a''" one_slot True]
    by (simp add: run_waiting_def run_freed_def lane_release_def Let_def fun_upd_def cong: if_cong)
  from dropped_waiter_blocks_lane [OF r ab r_into_rtranclp [of "lane_step one_slot True", OF st]] ab st
  show ?thesis by (simp add: in_flight_def run_freed_def)
qed

text \<open>C30: The minute limit holds over every 61 seconds once the clock is 61 seconds past the earliest
  instant it can name: however many requests of an account try to start, at whatever later instants
  the clock gives, any span of 61 seconds contains at most \<open>limit\<close> granted starts. Before
  that no instant is 61 seconds back, the window is emptied at every start and the limit does not hold
  (\<open>minute_limit_off_early\<close>).\<close>
theorem rolling_minute_bound:
  assumes "0 < limit" and "sorted (map snd turns)" and "\<forall>(d, now) \<in> set turns. lowest \<le> now - RPM_SPAN"
  shows "length (filter (\<lambda>s. t \<le> s \<and> s < t + RPM_SPAN)
           (snd (foldl (minute_step lowest limit) ([], []) turns))) \<le> limit"
proof -
  have "\<exists>now. minute_inv limit now (foldl (minute_step lowest limit) ([], []) turns)"
  proof (cases turns)
    case Nil
    then show ?thesis by (auto simp: minute_inv_def)
  next
    case (Cons turn rest)
    have "minute_inv limit (snd turn) ([], [])" by (simp add: minute_inv_def)
    with Cons assms show ?thesis by (intro minute_run_inv) (auto simp: less_eq_int_def)
  qed
  then show ?thesis by (auto simp: minute_inv_def intro: spaced_window)
qed

theorem rolling_minute_bound_witness:
  "length (filter (\<lambda>s. 100000 \<le> s \<and> s < 100000 + RPM_SPAN)
     (snd (foldl (minute_step 0 2) ([], []) [(0, 100000), (0, 100001), (0, 100002), (0, 161000)]))) \<le> 2"
  by (rule rolling_minute_bound) (simp_all add: RPM_SPAN_def)

text \<open>Three starts within two milliseconds under a limit of one, in the first minute of the clock.\<close>

lemma minute_limit_off_early:
  "length (filter (\<lambda>s. 100 \<le> s \<and> s < 100 + RPM_SPAN)
     (snd (foldl (minute_step 0 1) ([], []) [(0, 100), (0, 101), (0, 102)]))) = 3"
  by (simp add: minute_step_def reserve_turn_def RPM_SPAN_def Let_def)

end
