(* ===== verification/Wire_Json.thy ===== *)
theory Wire_Json
  imports Reply
begin

text \<open>
  What the four wire codecs share, from \<open>crates/model-gateway/src/wire/mod.rs\<close>: field access on
  JSON values, the accumulator of a streamed tool call, writing and reading frames. A codec writes
  a list of frames (an optional event name and a JSON value); its text is their concatenation. The
  library functions a codec calls are one record: the JSON reader and printer, the conversion of
  numbers to and from \<open>f64\<close>, SHA-256 and the clock.

  Facts: a frame list that is printed on one line each is read back by \<open>parse_sse\<close>; the counters
  of a usage report are read back as they were written.
\<close>

section \<open>The library functions a codec calls\<close>

record wire_env =
  we_parse :: "ustring \<Rightarrow> json option"
  we_print :: "json \<Rightarrow> ustring"
  we_as_f64 :: "ustring \<Rightarrow> f64_bits"
  we_from_f64 :: "f64_bits \<Rightarrow> json"
  we_sha256 :: "nat list \<Rightarrow> nat list"
  we_now_seconds :: int

definition request_fingerprint :: "wire_env \<Rightarrow> ustring \<Rightarrow> ustring" where
  "request_fingerprint env v = concat (map (hex_string 2) (take 6 (we_sha256 env (utf8_encode v))))"

section \<open>Fields\<close>

abbreviation or_default :: "ustring option \<Rightarrow> ustring" where
  "or_default s \<equiv> (case s of Some t \<Rightarrow> t | None \<Rightarrow> [])"

abbreviation or_null :: "json option \<Rightarrow> json" where
  "or_null v \<equiv> (case v of Some w \<Rightarrow> w | None \<Rightarrow> JNull)"

fun as_bool :: "json option \<Rightarrow> bool option" where
  "as_bool (Some (JBool b)) = Some b"
| "as_bool _ = None"

fun as_array :: "json option \<Rightarrow> json list option" where
  "as_array (Some (JArray vs)) = Some vs"
| "as_array _ = None"

definition string_field :: "json \<Rightarrow> ustring \<Rightarrow> ustring option" where
  "string_field v key = as_str (get_field key v)"

definition uint_field :: "json \<Rightarrow> ustring \<Rightarrow> nat option" where
  "uint_field v key = as_u64 (get_field key v)"

definition number_field :: "wire_env \<Rightarrow> json \<Rightarrow> ustring \<Rightarrow> f64_bits option" where
  "number_field env v key = (case get_field key v of Some (JNumber s) \<Rightarrow> Some (we_as_f64 env s) | _ \<Rightarrow> None)"

definition object_of :: "json \<Rightarrow> ustring \<Rightarrow> gateway_error + (ustring \<times> json) list" where
  "object_of v what = (case v of JObject kvs \<Rightarrow> Inr kvs
     | _ \<Rightarrow> Inl (MalformedRequest (what @ lit '' must be a JSON object'')))"

definition jnat :: "nat \<Rightarrow> json" where
  "jnat n = JNumber (dec_string n)"

abbreviation jstr :: "string \<Rightarrow> json" where
  "jstr s \<equiv> JString (lit s)"

text \<open>Fields that are written only when there is something to write.\<close>

definition opt_field :: "string \<Rightarrow> ('a \<Rightarrow> json) \<Rightarrow> 'a option \<Rightarrow> (ustring \<times> json) list" where
  "opt_field key f x = (case x of Some y \<Rightarrow> [(lit key, f y)] | None \<Rightarrow> [])"

definition strings_of :: "json list \<Rightarrow> ustring list" where
  "strings_of vs = List.map_filter (\<lambda>v. as_str (Some v)) vs"

text \<open>A loop over items that returns at the first error.\<close>

fun collect_results :: "('a \<Rightarrow> 'e + 'b) \<Rightarrow> 'a list \<Rightarrow> 'e + 'b list" where
  "collect_results f [] = Inr []"
| "collect_results f (x # xs) =
     (case f x of
        Inl e \<Rightarrow> Inl e
      | Inr y \<Rightarrow> (case collect_results f xs of Inl e \<Rightarrow> Inl e | Inr ys \<Rightarrow> Inr (y # ys)))"

text \<open>\<open>str::split_once\<close> with a string.\<close>

fun split_str :: "ustring \<Rightarrow> ustring \<Rightarrow> (ustring \<times> ustring) option" where
  "split_str d [] = (if d = [] then Some ([], []) else None)"
| "split_str d (c # cs) =
     (case strip_prefix d (c # cs) of
        Some rest \<Rightarrow> Some ([], rest)
      | None \<Rightarrow> map_option (\<lambda>(a, b). (c # a, b)) (split_str d cs))"

text \<open>\<open>data:<media type>;base64,<data>\<close> and its reading.\<close>

definition data_url :: "ustring \<Rightarrow> ustring \<Rightarrow> ustring" where
  "data_url media_type content = lit ''data:'' @ media_type @ lit '';base64,'' @ content"

definition image_source_of :: "ustring \<Rightarrow> image_source" where
  "image_source_of url =
     (case strip_prefix (lit ''data:'') url of
        Some rest \<Rightarrow> (case split_str (lit '';base64,'') rest of
            Some (media_type, content) \<Rightarrow> Base64 media_type content
          | None \<Rightarrow> Url url)
      | None \<Rightarrow> Url url)"

text \<open>The text of the text parts.\<close>

definition text_of_parts :: "content_part list \<Rightarrow> ustring" where
  "text_of_parts parts = concat (List.map_filter (\<lambda>p. case p of Text t \<Rightarrow> Some t | _ \<Rightarrow> None) parts)"

definition reasoning_of_parts :: "content_part list \<Rightarrow> ustring" where
  "reasoning_of_parts parts = concat (List.map_filter (\<lambda>p. case p of Reasoning t _ \<Rightarrow> Some t | _ \<Rightarrow> None) parts)"

section \<open>Tool calls whose arguments arrive in fragments\<close>

record tool_call_accumulator =
  ta_id :: ustring
  ta_name :: ustring
  ta_fragments :: ustring

definition tool_default :: tool_call_accumulator where
  "tool_default = \<lparr>ta_id = [], ta_name = [], ta_fragments = []\<rparr>"

definition tool_start :: "ustring \<Rightarrow> ustring \<Rightarrow> tool_call_accumulator \<Rightarrow> tool_call_accumulator" where
  "tool_start i n t = t\<lparr>ta_id := (if i = [] then ta_id t else i), ta_name := (if n = [] then ta_name t else n)\<rparr>"

definition push_arguments :: "ustring \<Rightarrow> tool_call_accumulator \<Rightarrow> tool_call_accumulator" where
  "push_arguments fragment t = t\<lparr>ta_fragments := ta_fragments t @ fragment\<rparr>"

definition tool_arguments :: "wire_env \<Rightarrow> tool_call_accumulator \<Rightarrow> json" where
  "tool_arguments env t =
     (if trim (ta_fragments t) = [] then JObject []
      else case we_parse env (ta_fragments t) of Some v \<Rightarrow> v | None \<Rightarrow> JString (ta_fragments t))"

definition tool_is_empty :: "tool_call_accumulator \<Rightarrow> bool" where
  "tool_is_empty t \<longleftrightarrow> ta_id t = [] \<and> ta_name t = [] \<and> ta_fragments t = []"

text \<open>\<open>serde_json::from_str(raw).unwrap_or(String(raw))\<close>.\<close>

definition parse_or_string :: "wire_env \<Rightarrow> ustring \<Rightarrow> json" where
  "parse_or_string env raw = (case we_parse env raw of Some v \<Rightarrow> v | None \<Rightarrow> JString raw)"

section \<open>Frames\<close>

type_synonym wire_frame = "ustring option \<times> json"

definition frames_text :: "wire_env \<Rightarrow> wire_frame list \<Rightarrow> ustring" where
  "frames_text env fs = concat (map (\<lambda>(event, v). sse_frame (we_print env) event v) fs)"

text \<open>\<open>encode\<close> for a list of events, and \<open>decode\<close> for a list of frames: a decoder sees the text of a
  frame and the value read from it.\<close>

type_synonym 'd value_decoder = "'d \<Rightarrow> ustring \<Rightarrow> json \<Rightarrow> 'd \<times> canonical_event list"
type_synonym 'e frame_encoder = "'e \<Rightarrow> canonical_event \<Rightarrow> 'e \<times> wire_frame list"

fun encode_events :: "'e frame_encoder \<Rightarrow> 'e \<Rightarrow> canonical_event list \<Rightarrow> 'e \<times> wire_frame list" where
  "encode_events enc e [] = (e, [])"
| "encode_events enc e (ev # evs) =
     (let (e1, fs) = enc e ev; (e2, rest) = encode_events enc e1 evs in (e2, fs @ rest))"

fun decode_values :: "wire_env \<Rightarrow> 'd value_decoder \<Rightarrow> 'd \<Rightarrow> wire_frame list \<Rightarrow> 'd \<times> canonical_event list" where
  "decode_values env dec d [] = (d, [])"
| "decode_values env dec d ((_, v) # fs) =
     (let (d1, evs) = dec d (we_print env v) v; (d2, rest) = decode_values env dec d1 fs in (d2, evs @ rest))"

text \<open>One loop over items that carries a state and collects events.\<close>

fun run_items :: "('s \<Rightarrow> 'a \<Rightarrow> 's \<times> canonical_event list) \<Rightarrow> 's \<Rightarrow> 'a list \<Rightarrow> 's \<times> canonical_event list" where
  "run_items f s [] = (s, [])"
| "run_items f s (x # xs) = (let (s1, evs) = f s x; (s2, rest) = run_items f s1 xs in (s2, evs @ rest))"

text \<open>\<open>StreamDecoder::decode\<close>: the payload is read as JSON first.\<close>

definition decode_data :: "wire_env \<Rightarrow> ustring \<Rightarrow> 'd value_decoder \<Rightarrow> 'd \<Rightarrow> ustring \<Rightarrow> gateway_error + 'd \<times> canonical_event list" where
  "decode_data env what dec d payload =
     (case we_parse env payload of
        None \<Rightarrow> Inl (UpstreamError 502 (lit ''the upstream sent '' @ what @ lit '' event that is not JSON''))
      | Some v \<Rightarrow> Inr (dec d payload v))"

section \<open>What the JSON library promises\<close>

text \<open>The values \<open>serde_json\<close> can hold: keys are unique and numbers are texts it writes.\<close>

fun json_wf :: "(ustring \<Rightarrow> bool) \<Rightarrow> json \<Rightarrow> bool" where
  "json_wf num (JNumber s) = num s"
| "json_wf num (JArray vs) = list_all (json_wf num) vs"
| "json_wf num (JObject kvs) = (distinct (map fst kvs) \<and> list_all (\<lambda>kv. json_wf num (snd kv)) kvs)"
| "json_wf num _ = True"

text \<open>Printing and reading are inverse on these values, a printed value has no line end, every value
  read is one of them, and neither blank text nor \<open>[DONE]\<close> is JSON.\<close>

definition json_text_laws :: "wire_env \<Rightarrow> (ustring \<Rightarrow> bool) \<Rightarrow> bool" where
  "json_text_laws env num \<longleftrightarrow>
     (\<forall>v. json_wf num v \<longrightarrow> we_parse env (we_print env v) = Some v) \<and>
     (\<forall>v. 10 \<notin> set (we_print env v) \<and> 13 \<notin> set (we_print env v)) \<and>
     (\<forall>s v. we_parse env s = Some v \<longrightarrow> json_wf num v \<and> trim s \<noteq> [] \<and> trim s \<noteq> DONE) \<and>
     (\<forall>n \<le> U64_MAX. num (dec_string n))"

lemma json_text_lawsD:
  assumes "json_text_laws env num"
  shows "json_wf num v \<Longrightarrow> we_parse env (we_print env v) = Some v"
    and "10 \<notin> set (we_print env v)" and "13 \<notin> set (we_print env v)"
    and "we_parse env s = Some v \<Longrightarrow> json_wf num v"
    and "json_wf num v \<Longrightarrow> trim (we_print env v) \<noteq> []"
    and "json_wf num v \<Longrightarrow> trim (we_print env v) \<noteq> DONE"
    and "n \<le> U64_MAX \<Longrightarrow> num (dec_string n)"
  using assms unfolding json_text_laws_def by blast+

text \<open>Numbers that are written as a number and read as the same; sampling parameters within their types.\<close>

definition float_ok :: "wire_env \<Rightarrow> f64_bits \<Rightarrow> bool" where
  "float_ok env b \<longleftrightarrow> (case we_from_f64 env b of JNumber s \<Rightarrow> we_as_f64 env s = b | _ \<Rightarrow> False)"

definition sampling_ok :: "wire_env \<Rightarrow> sampling_params \<Rightarrow> bool" where
  "sampling_ok env sp \<longleftrightarrow> pred_option (float_ok env) (sp_temperature sp) \<and> pred_option (float_ok env) (sp_top_p sp) \<and>
     pred_option (\<lambda>n. n \<le> U64_MAX) (sp_max_tokens sp)"

fun nonempty_text :: "content_part \<Rightarrow> bool" where
  "nonempty_text (Text t) = (t \<noteq> [])"
| "nonempty_text _ = False"

fun is_call :: "content_part \<Rightarrow> bool" where
  "is_call (ToolCall _ _ _) = True"
| "is_call _ = False"

fun call_arguments_ok :: "(ustring \<Rightarrow> bool) \<Rightarrow> content_part \<Rightarrow> bool" where
  "call_arguments_ok num (ToolCall _ _ v) = json_wf num v"
| "call_arguments_ok num _ = True"

section \<open>Facts\<close>

declare lit_simps [simp del]

declare lit_eq_iff [simp]

text \<open>Looking up a field of an object that is built piece by piece.\<close>

definition or_else :: "'a option \<Rightarrow> 'a option \<Rightarrow> 'a option" where
  "or_else x y = (case x of Some a \<Rightarrow> Some a | None \<Rightarrow> y)"

lemma lookup_fields:
  "map_of (opt_field k f x @ kvs) (lit key) = (if key = k then or_else (map_option f x) (map_of kvs (lit key)) else map_of kvs (lit key))"
  "map_of (opt_field k f x) (lit key) = (if key = k then map_option f x else None)"
  "map_of ((if c then [] else [(lit k, v)]) @ kvs) (lit key) = (if key = k \<and> \<not> c then Some v else map_of kvs (lit key))"
  "map_of ((if c then [(lit k, v)] else []) @ kvs) (lit key) = (if key = k \<and> c then Some v else map_of kvs (lit key))"
  "map_of (if c then [] else [(lit k, v)]) (lit key) = (if key = k \<and> \<not> c then Some v else None)"
  "map_of (if c then [(lit k, v)] else []) (lit key) = (if key = k \<and> c then Some v else None)"
  "or_else x None = x"
  by (auto simp: opt_field_def or_else_def split: option.split)

lemma lookup_skip: "map_of xs k = None \<Longrightarrow> map_of (xs @ ys) k = map_of ys k"
  by (simp add: map_add_def)

lemma lookup_here: "map_of ys k = None \<Longrightarrow> map_of (xs @ ys) k = map_of xs k"
  by (simp add: map_add_def split: option.split)

lemma number_back:
  "pred_option (float_ok env) x \<Longrightarrow> (case map_option (we_from_f64 env) x of Some (JNumber s) \<Rightarrow> Some (we_as_f64 env s) | _ \<Rightarrow> None) = x"
  by (cases x) (auto simp: float_ok_def split: json.splits)

lemma nonempty_texts: "list_all nonempty_text ps \<Longrightarrow> \<exists>ts. ps = map Text ts \<and> list_all (\<lambda>t. t \<noteq> []) ts"
proof (induction ps)
  case (Cons p ps)
  then obtain ts where "ps = map Text ts" "list_all (\<lambda>t. t \<noteq> []) ts" by auto
  moreover obtain t where "p = Text t" "t \<noteq> []" using Cons.prems by (cases p) auto
  ultimately show ?case by (intro exI [of _ "t # ts"]) simp
qed simp

lemma lit_Nil_iff [simp]: "lit s = [] \<longleftrightarrow> s = []" "[] = lit s \<longleftrightarrow> s = []"
  by (simp_all add: lit_def)

lemma of_char_mem: "of_char c \<in> set (lit s) \<longleftrightarrow> c \<in> set s"
  by (auto simp: lit_def)

lemma lit_line_ends [simp]: "10 \<in> set (lit s) \<longleftrightarrow> CHR 0x0A \<in> set s" "13 \<in> set (lit s) \<longleftrightarrow> CHR 0x0D \<in> set s"
  using of_char_mem [of "CHR 0x0A" s] of_char_mem [of "CHR 0x0D" s] by simp_all

lemma collect_results_cong [fundef_cong]:
  "xs = ys \<Longrightarrow> (\<And>x. x \<in> set ys \<Longrightarrow> f x = g x) \<Longrightarrow> collect_results f xs = collect_results g ys"
  by (induction ys arbitrary: xs) (simp_all split: sum.split)

lemma collect_results_map:
  "(\<And>x. x \<in> set xs \<Longrightarrow> f (g x) = Inr (h x)) \<Longrightarrow> collect_results f (map g xs) = Inr (map h xs)"
  by (induction xs) auto

lemma collect_results_Inr_iff: "collect_results f xs = Inr ys \<longleftrightarrow> list_all2 (\<lambda>x y. f x = Inr y) xs ys"
proof (induction xs arbitrary: ys)
  case (Cons x xs)
  show ?case
    by (cases "f x"; cases "collect_results f xs"; cases ys) (auto simp: Cons.IH [symmetric])
qed auto

lemma collect_results_append:
  "collect_results f (xs @ ys) =
     and_then (collect_results f xs) (\<lambda>a. and_then (collect_results f ys) (\<lambda>b. Inr (a @ b)))"
  by (induction xs) (auto simp: and_then_def split: sum.split)

lemma strings_of_strings [simp]: "strings_of (map JString xs) = xs"
  by (induction xs) (simp_all add: strings_of_def map_filter_simps)

lemma map_filter_append: "List.map_filter f (xs @ ys) = List.map_filter f xs @ List.map_filter f ys"
  by (induction xs) (simp_all add: map_filter_simps split: option.split)

lemma map_filter_none: "(\<And>x. x \<in> set xs \<Longrightarrow> f x = None) \<Longrightarrow> List.map_filter f xs = []"
  by (induction xs) (simp_all add: map_filter_simps)

lemma map_filter_some: "(\<And>x. x \<in> set xs \<Longrightarrow> f (g x) = Some (h x)) \<Longrightarrow> List.map_filter f (map g xs) = map h xs"
  by (induction xs) (simp_all add: map_filter_simps)

lemma as_u64_jnat [simp]: "n \<le> U64_MAX \<Longrightarrow> as_u64 (Some (jnat n)) = Some n"
  using dec_string_digits [of _ n] by (auto simp: jnat_def dec_value_dec_string list_all_iff)

lemma json_wf_jnat: "json_text_laws env num \<Longrightarrow> n \<le> U64_MAX \<Longrightarrow> json_wf num (jnat n)"
  by (simp add: jnat_def json_text_lawsD)

lemma next_counter_le: "next_counter n \<le> U64_MAX"
  unfolding next_counter_def by (metis Suc_eq_plus1 le_simps(2) mod_less_divisor zero_less_Suc)

lemma split_str_skip: "set a \<inter> {hd d} = {} \<Longrightarrow> d \<noteq> [] \<Longrightarrow> split_str d (a @ d @ b) = Some (a, b)"
proof (induction a)
  case Nil
  then show ?case by (cases "d @ b") (use strip_prefix_append [of d b] in auto)
next
  case (Cons c a)
  then have "strip_prefix d (c # (a @ d @ b)) = None" by (cases d) auto
  with Cons show ?case by simp
qed

lemma image_source_data_url: "59 \<notin> set m \<Longrightarrow> image_source_of (data_url m d) = Base64 m d"
proof -
  assume "59 \<notin> set m"
  then have "split_str (lit '';base64,'') (m @ lit '';base64,'' @ d) = Some (m, d)"
    by (intro split_str_skip) (simp_all add: lit_def)
  then show ?thesis by (simp add: image_source_of_def data_url_def)
qed

lemma image_source_plain_url: "strip_prefix (lit ''data:'') u = None \<Longrightarrow> image_source_of u = Url u"
  by (simp add: image_source_of_def)

lemma parse_named_frame:
  assumes "10 \<notin> set d" and "13 \<notin> set d" and "10 \<notin> set n" and "13 \<notin> set n"
  shows "parse_sse (lit ''event: '' @ n @ [10] @ lit ''data: '' @ d @ [10, 10]) = [(Some n, d)]"
proof -
  let ?e = "lit ''event: '' @ n" and ?l = "lit ''data: '' @ d"
  have plain: "strip_cr s = s" if "13 \<notin> set s" for s
  proof -
    have "s \<noteq> t @ [13]" for t using that by auto
    then show ?thesis using strip_suffix_Some_iff [of "[13]" s] by (auto simp: strip_cr_def split: option.split)
  qed
  have cr: "strip_cr ?e = ?e" "strip_cr ?l = ?l"
    using assms(2,4) by (intro plain; simp add: lit_def)+
  have "10 \<notin> set ?e" "10 \<notin> set ?l" using assms by (simp_all add: lit_def)
  then have "str_lines (lit ''event: '' @ n @ [10] @ lit ''data: '' @ d @ [10, 10]) = [?e, ?l, []]"
    using lines_from_plain [of ?l "[]" "[10]"] lines_from_plain [of ?e "[]" "?l @ [10, 10]"] cr by (simp add: str_lines_def)
  moreover have "sse_line sse_start ?e = sse_start\<lparr>ss_event := Some n\<rparr>"
    unfolding sse_line_def cr by (simp add: Let_def sse_start_def lit_def)
  moreover have "sse_line (sse_start\<lparr>ss_event := Some n\<rparr>) ?l = sse_start\<lparr>ss_event := Some n, ss_data := [d]\<rparr>"
    unfolding sse_line_def cr by (simp add: Let_def sse_start_def lit_def)
  ultimately show ?thesis
    by (simp add: parse_sse_def) (simp add: sse_line_def sse_flush_def sse_start_def)
qed

text \<open>A frame that is safe to write: a representable value and an event name on one line.\<close>

definition frame_ok :: "(ustring \<Rightarrow> bool) \<Rightarrow> wire_frame \<Rightarrow> bool" where
  "frame_ok num f \<longleftrightarrow> json_wf num (snd f) \<and> (case fst f of None \<Rightarrow> True | Some n \<Rightarrow> 10 \<notin> set n \<and> 13 \<notin> set n)"

lemma parse_frames_then:
  assumes "json_text_laws env num" and "list_all (frame_ok num) fs"
  shows "parse_sse (frames_text env fs @ rest) = map (\<lambda>(event, v). (event, we_print env v)) fs @ parse_sse rest"
  using assms(2)
proof (induction fs)
  case Nil
  then show ?case by (simp add: frames_text_def)
next
  case (Cons f fs)
  obtain event v where f: "f = (event, v)" by fastforce
  note line = json_text_lawsD(2,3) [OF assms(1), of v]
  have "parse_sse (sse_frame (we_print env) event v @ frames_text env fs @ rest) = (event, we_print env v) # parse_sse (frames_text env fs @ rest)"
  proof (cases event)
    case None
    then show ?thesis
      using parse_sse_blank [of "lit ''data: '' @ we_print env v" "frames_text env fs @ rest"] parse_data_frame [OF line]
      by (simp add: sse_frame_def)
  next
    case (Some n)
    then show ?thesis
      using parse_sse_blank [of "lit ''event: '' @ n @ [10] @ lit ''data: '' @ we_print env v" "frames_text env fs @ rest"]
        parse_named_frame [OF line, of n] Cons.prems f
      by (simp add: sse_frame_def frame_ok_def)
  qed
  with Cons f show ?case by (simp add: frames_text_def)
qed

lemma parse_frames:
  assumes "json_text_laws env num" and "list_all (frame_ok num) fs"
  shows "parse_sse (frames_text env fs) = map (\<lambda>(event, v). (event, we_print env v)) fs"
  using parse_frames_then [OF assms, of "[]"] by (simp add: parse_sse_def str_lines_def sse_flush_def sse_start_def)

lemma decode_frames_values:
  assumes "json_text_laws env num" and "list_all (frame_ok num) fs"
  shows "decode_frames (decode_data env what dec) d (map (\<lambda>(event, v). (event, we_print env v)) fs) = Inr (decode_values env dec d fs)"
  using assms(2)
  by (induction fs arbitrary: d)
    (auto simp: decode_data_def json_text_lawsD [OF assms(1)] frame_ok_def split: prod.splits)

lemma encode_events_append:
  "encode_events enc e (xs @ ys) =
     (let (e1, fs) = encode_events enc e xs; (e2, rest) = encode_events enc e1 ys in (e2, fs @ rest))"
  by (induction xs arbitrary: e) (auto simp: Let_def split: prod.splits)

lemma decode_values_Cons:
  "decode_values env dec d (f # fs) =
     (let (d1, evs) = dec d (we_print env (snd f)) (snd f); (d2, rest) = decode_values env dec d1 fs in (d2, evs @ rest))"
  by (cases f) simp

lemma decode_values_append:
  "decode_values env dec d (xs @ ys) =
     (let (d1, out) = decode_values env dec d xs; (d2, rest) = decode_values env dec d1 ys in (d2, out @ rest))"
  by (induction xs arbitrary: d) (auto simp: Let_def split: prod.splits)

text \<open>The mark that ends a stream never reaches a decoder, so one that tests for it is no different.\<close>

lemma decode_frames_done: "decode_frames (\<lambda>d s. if trim s = DONE then Inr (d, []) else f d s) d fs = decode_frames f d fs"
  by (induction f d fs rule: decode_frames.induct) (auto split: sum.split prod.split)

end
