(* ===== verification/Wire_Stream.thy ===== *)
theory Wire_Stream
  imports Wire_Json "HOL-Library.Countable"
begin

text \<open>
  The contract of a wire codec for streams, the traits \<open>StreamDecoder\<close> and \<open>StreamEncoder\<close> of
  \<open>crates/model-gateway/src/wire/mod.rs\<close>: a client that reads what the encoder writes, with the
  decoder of the same protocol, rebuilds the reply. \<open>orderly\<close> is the order in which the events of one
  reply come: calls one after the other, each with its fragments and an end that says what the
  fragments say (a call whose arguments come whole, on its end, is not of this kind, and two of the
  encoders lose its arguments: \<open>chat_whole_arguments_lost\<close>, \<open>anthropic_whole_arguments_lost\<close>). The locale \<open>stream_codec_law\<close> is a simulation between the reply the events
  describe and the reply read back; each codec interprets it on its own decoder and encoder.
\<close>

section \<open>Events in order\<close>

definition fragments_value :: "wire_env \<Rightarrow> ustring \<Rightarrow> json" where
  "fragments_value env s = tool_arguments env \<lparr>ta_id = [], ta_name = [], ta_fragments = s\<rparr>"

definition usage_ok :: "canonical_usage \<Rightarrow> bool" where
  "usage_ok u \<longleftrightarrow> cu_input u \<le> U64_MAX \<and> cu_output u \<le> U64_MAX \<and> cu_cached_read u \<le> U64_MAX \<and>
     cu_cached_write u \<le> U64_MAX \<and> cu_reasoning u \<le> U64_MAX"

fun orderly :: "wire_env \<Rightarrow> (ustring \<Rightarrow> bool) \<Rightarrow> reply_accumulator \<Rightarrow> canonical_event \<Rightarrow> bool" where
  "orderly env num a (EvStart _ _ u) = usage_ok u"
| "orderly env num a (EvToolCallStart i n) = (ra_current_tool a = None \<and> i \<noteq> [] \<and> n \<noteq> [])"
| "orderly env num a (EvToolCallArgumentsDelta i f) = (\<exists>t. ra_current_tool a = Some t \<and> i = at_id t)"
| "orderly env num a (EvToolCallEnd i v) =
     (\<exists>t. ra_current_tool a = Some t \<and> i = at_id t \<and> v = fragments_value env (at_arguments t) \<and> json_wf num v)"
| "orderly env num a (EvReasoningSignature _) = True"
| "orderly env num a (EvUsage u) = usage_ok u"
| "orderly env num a (EvError _ _) = True"
| "orderly env num a _ = (ra_current_tool a = None)"

text \<open>Streams of one call and one reason to stop: in Chat the encoder numbers every call 0, and the reader of
  Gemini keeps one call at a time; both readers end a call with the reply.\<close>

fun single_call :: "wire_env \<Rightarrow> (ustring \<Rightarrow> bool) \<Rightarrow> reply_accumulator \<Rightarrow> canonical_event \<Rightarrow> bool" where
  "single_call env num a (EvToolCallStart i n) =
     (orderly env num a (EvToolCallStart i n) \<and> ra_tool_calls a = [] \<and> ra_stop a = None)"
| "single_call env num a (EvStop r) = (orderly env num a (EvStop r) \<and> ra_stop a = None)"
| "single_call env num a ev = orderly env num a ev"

text \<open>A law is stated for one step; a stream is admitted when each of its events is.\<close>

fun admitted :: "(reply_accumulator \<Rightarrow> canonical_event \<Rightarrow> bool) \<Rightarrow> wire_env \<Rightarrow> reply_accumulator \<Rightarrow> canonical_event list \<Rightarrow> bool" where
  "admitted admits env a [] = True"
| "admitted admits env a (ev # evs) =
     (admits a ev \<and> admitted admits env (accumulator_apply (we_print env) a ev) evs)"

abbreviation replay :: "wire_env \<Rightarrow> reply_accumulator \<Rightarrow> canonical_event list \<Rightarrow> reply_accumulator" where
  "replay env a evs \<equiv> foldl (accumulator_apply (we_print env)) a evs"

definition call_closed :: "wire_env \<Rightarrow> accumulated_tool_call \<Rightarrow> accumulated_tool_call" where
  "call_closed env t =
     (if trim (at_arguments t) = [] then t\<lparr>at_arguments := we_print env (fragments_value env (at_arguments t))\<rparr> else t)"

definition tool_of :: "accumulated_tool_call \<Rightarrow> tool_call_accumulator" where
  "tool_of t = \<lparr>ta_id = at_id t, ta_name = at_name t, ta_fragments = at_arguments t\<rparr>"

lemma tool_of_id [simp]: "ta_id (tool_of t) = at_id t"
  by (simp add: tool_of_def)

lemma tool_arguments_of: "tool_arguments env (tool_of t) = fragments_value env (at_arguments t)"
  by (simp add: tool_of_def fragments_value_def tool_arguments_def split: option.split)

lemma count_at_jnat: "n \<le> U64_MAX \<Longrightarrow> map_of kvs k = Some (jnat n) \<Longrightarrow> count_at [k] (JObject kvs) = n"
  by (simp add: count_at_def)

lemma fragments_value_blank: "trim s = [] \<Longrightarrow> fragments_value env s = JObject []"
  by (simp add: fragments_value_def tool_arguments_def)

lemma fragments_value_print: "json_text_laws env num \<Longrightarrow> json_wf num v \<Longrightarrow> fragments_value env (we_print env v) = v"
  using json_text_lawsD(1,5) [of env num v] by (simp add: fragments_value_def tool_arguments_def)

lemma fragments_closed:
  assumes "json_text_laws env num"
  shows "fragments_value env (at_arguments (call_closed env t)) = fragments_value env (at_arguments t)"
  using fragments_value_print [OF assms, of "JObject []"] by (simp add: call_closed_def fragments_value_blank)

lemma admitted_mono: "(\<And>a ev. P a ev \<Longrightarrow> Q a ev) \<Longrightarrow> admitted P env a evs \<Longrightarrow> admitted Q env a evs"
  by (induction evs arbitrary: a) auto

lemma single_call_orderly: "single_call env num a ev \<Longrightarrow> orderly env num a ev"
  by (cases ev) auto

text \<open>The calls of an admitted stream have arguments the library can hold.\<close>

lemma admitted_calls_wf:
  assumes "json_text_laws env num"
  shows "admitted (orderly env num) env a evs \<Longrightarrow> list_all (\<lambda>t. json_wf num (fragments_value env (at_arguments t))) (ra_tool_calls a) \<Longrightarrow>
    list_all (\<lambda>t. json_wf num (fragments_value env (at_arguments t))) (ra_tool_calls (replay env a evs))"
proof (induction evs arbitrary: a)
  case (Cons ev evs)
  have "list_all (\<lambda>t. json_wf num (fragments_value env (at_arguments t))) (ra_tool_calls (accumulator_apply (we_print env) a ev))"
  proof (cases ev)
    case (EvToolCallEnd i v)
    with Cons.prems(1) obtain t where t: "ra_current_tool a = Some t" "i = at_id t" "v = fragments_value env (at_arguments t)" "json_wf num v" by auto
    then have "ra_tool_calls (accumulator_apply (we_print env) a ev) = ra_tool_calls a @ [call_closed env t]"
      using EvToolCallEnd by (simp add: call_closed_def Let_def)
    with Cons.prems(2) t fragments_closed [OF assms, of t] show ?thesis by simp
  qed (use Cons.prems(2) in \<open>auto split: option.split\<close>)
  with Cons show ?case by simp
qed simp

section \<open>The contract\<close>

locale stream_codec_law =
  fixes env :: wire_env
    and num :: "ustring \<Rightarrow> bool"
    and what :: ustring
    and dec :: "'d value_decoder"
    and enc :: "'e frame_encoder"
    and admits :: "reply_accumulator \<Rightarrow> canonical_event \<Rightarrow> bool"
    and sim :: "'d \<Rightarrow> 'e \<Rightarrow> reply_accumulator \<Rightarrow> reply_accumulator \<Rightarrow> bool"
  assumes step: "json_text_laws env num \<Longrightarrow> sim d e a b \<Longrightarrow> admits b ev \<Longrightarrow> enc e ev = (e', fs) \<Longrightarrow>
      decode_values env dec d fs = (d', out) \<Longrightarrow>
      sim d' e' (replay env a out) (accumulator_apply (we_print env) b ev)"
    and frames: "json_text_laws env num \<Longrightarrow> sim d e a b \<Longrightarrow> admits b ev \<Longrightarrow> enc e ev = (e', fs) \<Longrightarrow> list_all (frame_ok num) fs"
begin

lemma run:
  assumes "json_text_laws env num" and "sim d e a b" and "admitted admits env b evs" and "encode_events enc e evs = (e', fs)"
  shows "list_all (frame_ok num) fs \<and>
    (\<forall>d' out. decode_values env dec d fs = (d', out) \<longrightarrow> sim d' e' (replay env a out) (replay env b evs))"
  using assms(2-4)
proof (induction evs arbitrary: d e a b e' fs)
  case (Cons ev evs)
  obtain e1 fs1 e2 fs2 where s: "enc e ev = (e1, fs1)" "encode_events enc e1 evs = (e2, fs2)"
    by (metis surj_pair)
  obtain d1 out1 where d1: "decode_values env dec d fs1 = (d1, out1)" by fastforce
  have sim1: "sim d1 e1 (replay env a out1) (accumulator_apply (we_print env) b ev)"
    using step [OF assms(1) Cons.prems(1) _ s(1) d1] Cons.prems(2) by simp
  show ?case
    using Cons.IH [OF sim1 _ s(2)] Cons.prems(2,3) s d1 frames [OF assms(1) Cons.prems(1) _ s(1)]
    by (auto simp: decode_values_append split: prod.splits)
qed simp

text \<open>What is written for an admitted stream is read back, as text, to a reply the law relates.\<close>

lemma read_back:
  assumes "json_text_laws env num" and "sim d e a b" and "admitted admits env b evs" and "encode_events enc e evs = (e', fs)"
  shows "\<exists>d' out. decode_frames (decode_data env what dec) d (parse_sse (frames_text env fs)) = Inr (d', out) \<and>
    sim d' e' (replay env a out) (replay env b evs)"
proof -
  note r = run [OF assms]
  obtain d' out where d: "decode_values env dec d fs = (d', out)" by fastforce
  have "decode_frames (decode_data env what dec) d (parse_sse (frames_text env fs)) = Inr (d', out)"
    using r d parse_frames [OF assms(1), of fs] decode_frames_values [OF assms(1), of fs what dec d] by simp
  with r d show ?thesis by blast
qed

end

section \<open>A JSON library that keeps its promises\<close>

text \<open>For the samples: values are numbered, and a value is printed as that many letters.\<close>

instance json :: countable
  by countable_datatype

definition sample_parse :: "ustring \<Rightarrow> json option" where
  "sample_parse s = (if set s = {97} \<and> json_wf (\<lambda>_. True) (from_nat (length s - 1)) then Some (from_nat (length s - 1)) else None)"

definition sample_wire :: wire_env where
  "sample_wire = \<lparr>we_parse = sample_parse, we_print = (\<lambda>v. replicate (Suc (to_nat v)) 97), we_as_f64 = length,
     we_from_f64 = (\<lambda>n. JNumber (replicate n 48)), we_sha256 = (\<lambda>_. replicate 32 0), we_now_seconds = 0\<rparr>"

lemma sample_wire_laws: "json_text_laws sample_wire (\<lambda>_. True)"
proof -
  have blank: "trim s = [97] \<or> 97 \<in> set (trim s)" if "set s = {97}" for s
    using that trim_eq_Nil_iff [of s] set_trim_subset [of s] by (cases "trim s") (auto simp: is_whitespace_def)
  have "trim s \<noteq> [] \<and> trim s \<noteq> DONE" if "set s = {97}" for s
    using blank [OF that] by (auto simp: DONE_def lit_def)
  then show ?thesis
    by (auto simp: json_text_laws_def sample_wire_def sample_parse_def split: if_splits)
qed

definition sample_events :: "canonical_event list" where
  "sample_events = [EvStart (lit ''r'') (lit ''m'') usage_default, EvReasoningDelta (lit ''think''), EvTextDelta (lit ''hel''), EvTextDelta (lit ''lo''),
     EvToolCallStart (lit ''c'') (lit ''read''), EvToolCallEnd (lit ''c'') (JObject []), EvUsage (usage_default\<lparr>cu_output := 7\<rparr>), EvStop ToolUse]"

lemma sample_admitted_events: "admitted (orderly sample_wire (\<lambda>_. True)) sample_wire accumulator_default sample_events"
  by (simp add: sample_events_def accumulator_default_def usage_ok_def usage_default_def fragments_value_def tool_arguments_def U64_MAX_def)

lemma sample_reply:
  "ra_text (accumulate (we_print sample_wire) sample_events) = lit ''hello''"
  "length (ra_tool_calls (accumulate (we_print sample_wire) sample_events)) = 1"
  "ra_stop (accumulate (we_print sample_wire) sample_events) = Some ToolUse"
  by (simp_all add: sample_events_def accumulate_def accumulator_default_def Let_def) (simp add: lit_def)

lemma sample_single_call: "admitted (single_call sample_wire (\<lambda>_. True)) sample_wire accumulator_default sample_events"
    "ra_current_tool (accumulate (we_print sample_wire) sample_events) = None"
  by (simp_all add: sample_events_def accumulator_default_def usage_ok_def usage_default_def fragments_value_def tool_arguments_def U64_MAX_def accumulate_def Let_def)

end
