(* ===== verification/Wire_Anthropic.thy ===== *)
theory Wire_Anthropic
  imports Wire_Stream
begin

text \<open>
  The Anthropic Messages codec, \<open>crates/model-gateway/src/wire/anthropic.rs\<close>: content blocks,
  \<open>parse_request\<close>, \<open>build_request\<close>, \<open>render_response\<close>, \<open>parse_response\<close>, \<open>AnthropicDecoder\<close>
  and \<open>AnthropicEncoder\<close>. The block counter wraps at its width.
\<close>

abbreviation ANTHROPIC :: ustring where
  "ANTHROPIC \<equiv> wire_protocol_id AnthropicMessages"

definition DEFAULT_MAX_TOKENS :: nat where
  "DEFAULT_MAX_TOKENS = 8192"

section \<open>Content blocks\<close>

definition anthropic_image :: "json \<Rightarrow> gateway_error + content_part" where
  "anthropic_image item =
     (case get_field (lit ''source'') item of
        None \<Rightarrow> Inl (MalformedRequest (lit ''an Anthropic image block has no source''))
      | Some source \<Rightarrow>
          (let kind = or_default (string_field source (lit ''type'')) in
           if kind = lit ''base64'' then
             Inr (Image (Base64 (case string_field source (lit ''media_type'') of Some m \<Rightarrow> m | None \<Rightarrow> lit ''image/png'')
                (or_default (string_field source (lit ''data'')))))
           else if kind = lit ''url'' then Inr (Image (Url (or_default (string_field source (lit ''url'')))))
           else Inl (MalformedRequest (lit ''Anthropic image source `'' @ kind @ lit ''` is not supported''))))"

lemma size_get_field: "get_field k v = Some w \<Longrightarrow> size w < size v"
proof (cases v)
  case (JObject kvs)
  assume "get_field k v = Some w"
  then have "(k, w) \<in> set kvs" using JObject by (auto dest: map_of_SomeD)
  then have "size w < Suc (size_list (size_prod (\<lambda>_. 0) size) kvs)"
    by (induction kvs) auto
  then show ?thesis using JObject by simp
qed auto

function blocks :: "json option \<Rightarrow> gateway_error + content_part list" where
  "blocks None = Inr []"
| "blocks (Some JNull) = Inr []"
| "blocks (Some (JString text)) = Inr [Text text]"
| "blocks (Some (JArray vs)) =
     collect_results (\<lambda>item.
       let kind = or_default (string_field item (lit ''type'')) in
       if kind = lit ''text'' then Inr (Text (or_default (string_field item (lit ''text''))))
       else if kind = lit ''image'' then anthropic_image item
       else if kind = lit ''tool_use'' then
         Inr (ToolCall (or_default (string_field item (lit ''id''))) (or_default (string_field item (lit ''name'')))
           (case get_field (lit ''input'') item of Some v \<Rightarrow> v | None \<Rightarrow> JObject []))
       else if kind = lit ''tool_result'' then
         (case blocks (get_field (lit ''content'') item) of
            Inl e \<Rightarrow> Inl e
          | Inr inner \<Rightarrow> Inr (ToolResult (or_default (string_field item (lit ''tool_use_id''))) inner
              (case as_bool (get_field (lit ''is_error'') item) of Some b \<Rightarrow> b | None \<Rightarrow> False)))
       else if kind = lit ''thinking'' then
         Inr (Reasoning (or_default (string_field item (lit ''thinking'')))
           (map_option (\<lambda>s. \<lparr>os_protocol = ANTHROPIC, os_value = s\<rparr>) (string_field item (lit ''signature''))))
       else if kind = lit ''redacted_thinking'' then Inr (Opaque ANTHROPIC item)
       else Inl (MalformedRequest (lit ''Anthropic content block `'' @ kind @ lit ''` is not supported''))) vs"
| "blocks (Some (JBool b)) = Inl (MalformedRequest (lit ''an Anthropic message's content must be a string or an array''))"
| "blocks (Some (JNumber n)) = Inl (MalformedRequest (lit ''an Anthropic message's content must be a string or an array''))"
| "blocks (Some (JObject kvs)) = Inl (MalformedRequest (lit ''an Anthropic message's content must be a string or an array''))"
  by pat_completeness auto
termination
proof (relation "measure (\<lambda>c. case c of None \<Rightarrow> 0 | Some v \<Rightarrow> Suc (size v))", simp)
  fix vs :: "json list" and item
  assume "item \<in> set vs"
  then have "size item < size (JArray vs)" by (induction vs) auto
  then show "(get_field (lit ''content'') item, Some (JArray vs)) \<in> measure (\<lambda>c. case c of None \<Rightarrow> 0 | Some v \<Rightarrow> Suc (size v))"
    using size_get_field [of "lit ''content''" item] by (fastforce split: option.split)
qed

section \<open>Requests\<close>

definition anthropic_message :: "json \<Rightarrow> gateway_error + canonical_message" where
  "anthropic_message message =
     and_then (blocks (get_field (lit ''content'') message)) (\<lambda>parts.
       Inr \<lparr>cm_role = (if string_field message (lit ''role'') = Some (lit ''assistant'') then Assistant else User),
            cm_parts = parts\<rparr>)"

definition anthropic_tool :: "json \<Rightarrow> tool_definition option" where
  "anthropic_tool tool = map_option (\<lambda>name.
     \<lparr>td_name = name, td_description = or_default (string_field tool (lit ''description'')),
      td_parameters = (case get_field (lit ''input_schema'') tool of Some v \<Rightarrow> v
        | None \<Rightarrow> JObject [(lit ''type'', jstr ''object'')]),
      td_strict = (case as_bool (get_field (lit ''strict'') tool) of Some b \<Rightarrow> b | None \<Rightarrow> False)\<rparr>)
     (string_field tool (lit ''name''))"

definition anthropic_tool_choice :: "json option \<Rightarrow> tool_choice" where
  "anthropic_tool_choice choice =
     (case choice of
        None \<Rightarrow> ChoiceAuto
      | Some c \<Rightarrow>
          (let kind = string_field c (lit ''type'') in
           if kind = Some (lit ''any'') then ChoiceRequired
           else if kind = Some (lit ''none'') then ChoiceNone
           else if kind = Some (lit ''tool'') then ChoiceNamed (or_default (string_field c (lit ''name'')))
           else ChoiceAuto))"

definition anthropic_reasoning :: "json option \<Rightarrow> reasoning_request" where
  "anthropic_reasoning thinking =
     \<lparr>rr_disabled = (case thinking of None \<Rightarrow> False | Some t \<Rightarrow> string_field t (lit ''type'') = Some (lit ''disabled'')),
      rr_effort_asked = None\<rparr>"

definition anthropic_parse_request :: "wire_env \<Rightarrow> json \<Rightarrow> gateway_error + canonical_request" where
  "anthropic_parse_request env v =
     and_then (object_of v (lit ''an Anthropic request'')) (\<lambda>body.
      let model = or_default (string_field v (lit ''model'')) in
      if trim model = [] then Inl (MalformedRequest (lit ''an Anthropic request must name a model''))
      else and_then (blocks (get_field (lit ''system'') v)) (\<lambda>system.
      case as_array (get_field (lit ''messages'') v) of
        None \<Rightarrow> Inl (MalformedRequest (lit ''an Anthropic request must carry messages''))
      | Some raw \<Rightarrow> and_then (collect_results anthropic_message raw) (\<lambda>messages.
          Inr \<lparr>cr_model = model, cr_system = system, cr_messages = messages,
            cr_tools = (case as_array (get_field (lit ''tools'') v) of
                Some tools \<Rightarrow> List.map_filter anthropic_tool tools | None \<Rightarrow> []),
            cr_tool_choice = anthropic_tool_choice (get_field (lit ''tool_choice'') v),
            cr_parallel_tool_calls = None,
            cr_sampling = \<lparr>sp_temperature = number_field env v (lit ''temperature''),
              sp_top_p = number_field env v (lit ''top_p''),
              sp_max_tokens = uint_field v (lit ''max_tokens''),
              sp_stop = (case as_array (get_field (lit ''stop_sequences'') v) of Some stops \<Rightarrow> strings_of stops | None \<Rightarrow> [])\<rparr>,
            cr_reasoning = anthropic_reasoning (get_field (lit ''thinking'') v),
            cr_stream = (case as_bool (get_field (lit ''stream'') v) of Some b \<Rightarrow> b | None \<Rightarrow> False),
            cr_opaque = []\<rparr>)))"

definition text_block :: "ustring \<Rightarrow> json" where
  "text_block text = JObject [(lit ''type'', jstr ''text''), (lit ''text'', JString text)]"

fun image_block :: "image_source \<Rightarrow> gateway_error + json" where
  "image_block (Base64 media_type content) =
     Inr (JObject [(lit ''type'', jstr ''image''),
       (lit ''source'', JObject [(lit ''type'', jstr ''base64''), (lit ''media_type'', JString media_type), (lit ''data'', JString content)])])"
| "image_block (Url url) =
     Inr (JObject [(lit ''type'', jstr ''image''), (lit ''source'', JObject [(lit ''type'', jstr ''url''), (lit ''url'', JString url)])])"
| "image_block (VendorFileId _) = Inl UnsupportedImageReference"

definition is_image :: "content_part \<Rightarrow> bool" where
  "is_image p = (case p of Image _ \<Rightarrow> True | _ \<Rightarrow> False)"

definition text_or_blocks :: "content_part list \<Rightarrow> gateway_error + json" where
  "text_or_blocks parts =
     (let text = text_of_parts parts in
      if \<not> list_ex is_image parts then Inr (JString text)
      else and_then (collect_results image_block (List.map_filter (\<lambda>p. case p of Image s \<Rightarrow> Some s | _ \<Rightarrow> None) parts))
        (\<lambda>images. Inr (JArray ((if text = [] then [] else [text_block text]) @ images))))"

definition tool_result_block :: "ustring \<Rightarrow> content_part list \<Rightarrow> bool \<Rightarrow> gateway_error + json" where
  "tool_result_block call_id content is_error =
     and_then (text_or_blocks content) (\<lambda>v.
       Inr (JObject [(lit ''type'', jstr ''tool_result''), (lit ''tool_use_id'', JString call_id), (lit ''content'', v),
         (lit ''is_error'', JBool is_error)]))"

definition tool_use_block :: "ustring \<Rightarrow> ustring \<Rightarrow> json \<Rightarrow> json" where
  "tool_use_block i name arguments =
     JObject [(lit ''type'', jstr ''tool_use''), (lit ''id'', JString i), (lit ''name'', JString name), (lit ''input'', arguments)]"

definition thinking_block :: "ustring \<Rightarrow> ustring \<Rightarrow> json" where
  "thinking_block text signature =
     JObject [(lit ''type'', jstr ''thinking''), (lit ''thinking'', JString text), (lit ''signature'', JString signature)]"

fun user_result :: "content_part \<Rightarrow> (gateway_error + json) option" where
  "user_result (ToolResult i content err) = Some (tool_result_block i content err)"
| "user_result _ = None"

fun user_block :: "content_part \<Rightarrow> (gateway_error + json) option" where
  "user_block (Text text) = (if text = [] then None else Some (Inr (text_block text)))"
| "user_block (Image source) = Some (image_block source)"
| "user_block _ = None"

fun assistant_block :: "content_part \<Rightarrow> (gateway_error + json) option" where
  "assistant_block (Text text) = (if text = [] then None else Some (Inr (text_block text)))"
| "assistant_block (Reasoning text (Some s)) =
     (if os_protocol s = ANTHROPIC then Some (Inr (thinking_block text (os_value s))) else None)"
| "assistant_block (Reasoning text None) = None"
| "assistant_block (Opaque protocol payload) = (if protocol = ANTHROPIC then Some (Inr payload) else None)"
| "assistant_block (ToolCall i name arguments) = Some (Inr (tool_use_block i name arguments))"
| "assistant_block (ToolResult i content err) = Some (tool_result_block i content err)"
| "assistant_block (Image _) = None"

definition anthropic_content :: "canonical_message \<Rightarrow> gateway_error + json list" where
  "anthropic_content m =
     (case cm_role m of
        User \<Rightarrow> and_then (collect_results (\<lambda>r. r) (List.map_filter user_result (cm_parts m))) (\<lambda>results.
          and_then (collect_results (\<lambda>r. r) (List.map_filter user_block (cm_parts m))) (\<lambda>rest. Inr (results @ rest)))
      | Assistant \<Rightarrow> collect_results (\<lambda>r. r) (List.map_filter assistant_block (cm_parts m)))"

definition anthropic_system :: "content_part list \<Rightarrow> (ustring \<times> json) list" where
  "anthropic_system system =
     (case List.map_filter (\<lambda>p. case p of Text t \<Rightarrow> if t = [] then None else Some t | _ \<Rightarrow> None) system of
        [] \<Rightarrow> []
      | [t] \<Rightarrow> [(lit ''system'', JString t)]
      | ts \<Rightarrow> [(lit ''system'', JArray (map text_block ts))])"

definition anthropic_choice_value :: "tool_choice \<Rightarrow> json" where
  "anthropic_choice_value c =
     (case c of
        ChoiceAuto \<Rightarrow> JObject [(lit ''type'', jstr ''auto'')]
      | ChoiceNone \<Rightarrow> JObject [(lit ''type'', jstr ''none'')]
      | ChoiceRequired \<Rightarrow> JObject [(lit ''type'', jstr ''any'')]
      | ChoiceNamed n \<Rightarrow> JObject [(lit ''type'', jstr ''tool''), (lit ''name'', JString n)])"

definition anthropic_tools :: "tool_definition list \<Rightarrow> tool_choice \<Rightarrow> (ustring \<times> json) list" where
  "anthropic_tools tools choice =
     (if tools = [] then []
      else [(lit ''tools'', JArray (map (\<lambda>t. JObject [(lit ''name'', JString (td_name t)), (lit ''description'', JString (td_description t)),
                (lit ''input_schema'', td_parameters t)]) tools)),
            (lit ''tool_choice'', anthropic_choice_value choice)])"

definition anthropic_messages :: "canonical_message list \<Rightarrow> gateway_error + json list" where
  "anthropic_messages ms =
     and_then (collect_results (\<lambda>m. and_then (anthropic_content m) (\<lambda>content. Inr (m, content))) ms) (\<lambda>mcs.
       Inr (map (\<lambda>(m, content). JObject [(lit ''role'', JString (role_as_str (cm_role m))), (lit ''content'', JArray content)])
         (filter (\<lambda>(m, content). content \<noteq> []) mcs)))"

definition anthropic_build_request :: "wire_env \<Rightarrow> canonical_request \<Rightarrow> gateway_error + json" where
  "anthropic_build_request env r =
     and_then (anthropic_messages (cr_messages r)) (\<lambda>messages.
       let sampling = cr_sampling r in
       Inr (JObject (anthropic_system (cr_system r) @
         [(lit ''messages'', JArray messages),
          (lit ''max_tokens'', jnat (case sp_max_tokens sampling of Some n \<Rightarrow> n | None \<Rightarrow> DEFAULT_MAX_TOKENS))] @
         opt_field ''temperature'' (we_from_f64 env) (sp_temperature sampling) @
         opt_field ''top_p'' (we_from_f64 env) (sp_top_p sampling) @
         (if sp_stop sampling = [] then [] else [(lit ''stop_sequences'', JArray (map JString (sp_stop sampling)))]) @
         anthropic_tools (cr_tools r) (cr_tool_choice r) @
         (if rr_disabled (cr_reasoning r) then [(lit ''thinking'', JObject [(lit ''type'', jstr ''disabled'')])] else []) @
         [(lit ''stream'', JBool (cr_stream r))])))"

section \<open>Whole replies\<close>

definition anthropic_usage :: "json \<Rightarrow> canonical_usage" where
  "anthropic_usage v =
     \<lparr>cu_input = count_at [lit ''input_tokens''] v, cu_output = count_at [lit ''output_tokens''] v,
      cu_cached_read = count_at [lit ''cache_read_input_tokens''] v,
      cu_cached_write = count_at [lit ''cache_creation_input_tokens''] v, cu_reasoning = 0\<rparr>"

fun anthropic_reply_block :: "content_part \<Rightarrow> json option" where
  "anthropic_reply_block (Text text) = (if text = [] then None else Some (text_block text))"
| "anthropic_reply_block (Reasoning text (Some s)) =
     (if os_protocol s = ANTHROPIC then Some (thinking_block text (os_value s)) else None)"
| "anthropic_reply_block (ToolCall i name arguments) = Some (tool_use_block i name arguments)"
| "anthropic_reply_block _ = None"

definition anthropic_render_response :: "canonical_response \<Rightarrow> json" where
  "anthropic_render_response r =
     JObject [(lit ''id'', JString (cp_id r)), (lit ''type'', jstr ''message''), (lit ''role'', jstr ''assistant''),
       (lit ''model'', JString (cp_model r)), (lit ''content'', JArray (List.map_filter anthropic_reply_block (cp_parts r))),
       (lit ''stop_reason'', JString (stop_anthropic (cp_stop r))), (lit ''stop_sequence'', JNull),
       (lit ''usage'', JObject [(lit ''input_tokens'', jnat (cu_input (cp_usage r))), (lit ''output_tokens'', jnat (cu_output (cp_usage r))),
          (lit ''cache_read_input_tokens'', jnat (cu_cached_read (cp_usage r))),
          (lit ''cache_creation_input_tokens'', jnat (cu_cached_write (cp_usage r)))])]"

definition anthropic_parse_response :: "json \<Rightarrow> gateway_error + canonical_response" where
  "anthropic_parse_response v =
     and_then (blocks (Some (case get_field (lit ''content'') v of Some c \<Rightarrow> c | None \<Rightarrow> JArray []))) (\<lambda>parts.
       Inr \<lparr>cp_id = or_default (string_field v (lit ''id'')), cp_model = or_default (string_field v (lit ''model'')), cp_parts = parts,
         cp_stop = (case string_field v (lit ''stop_reason'') of Some s \<Rightarrow> from_anthropic s | None \<Rightarrow> EndTurn),
         cp_usage = (case not_null (get_field (lit ''usage'') v) of Some u \<Rightarrow> anthropic_usage u | None \<Rightarrow> usage_default)\<rparr>)"

section \<open>The decoder\<close>

record anthropic_decoder =
  ad_tool :: tool_call_accumulator
  ad_thinking :: bool
  ad_usage :: canonical_usage
  ad_started :: bool
  ad_id :: ustring
  ad_model :: ustring
  ad_stopped :: bool

definition anthropic_decoder_default :: anthropic_decoder where
  "anthropic_decoder_default = \<lparr>ad_tool = tool_default, ad_thinking = False, ad_usage = usage_default, ad_started = False,
     ad_id = [], ad_model = [], ad_stopped = False\<rparr>"

definition close_tool :: "wire_env \<Rightarrow> tool_call_accumulator \<Rightarrow> canonical_event list" where
  "close_tool env t = (if tool_is_empty t then [] else [EvToolCallEnd (ta_id t) (tool_arguments env t)])"

definition anthropic_block_start :: "wire_env \<Rightarrow> anthropic_decoder \<Rightarrow> json \<Rightarrow> anthropic_decoder \<times> canonical_event list" where
  "anthropic_block_start env d block =
     (let kind = or_default (string_field block (lit ''type'')) in
      if kind = lit ''tool_use'' then
        (let i = or_default (string_field block (lit ''id'')); name = or_default (string_field block (lit ''name''));
             started = tool_start i name (ad_tool d);
             whole = (case get_field (lit ''input'') block of
                Some (JObject kvs) \<Rightarrow> if kvs = [] then started else push_arguments (we_print env (JObject kvs)) started
              | _ \<Rightarrow> started)
         in (d\<lparr>ad_tool := whole\<rparr>, [EvToolCallStart i name]))
      else if kind = lit ''thinking'' then (d\<lparr>ad_thinking := True\<rparr>, [EvReasoningStart])
      else (d, []))"

definition anthropic_block_delta :: "anthropic_decoder \<Rightarrow> json \<Rightarrow> anthropic_decoder \<times> canonical_event list" where
  "anthropic_block_delta d delta =
     (let kind = or_default (string_field delta (lit ''type'')) in
      if kind = lit ''text_delta'' then (d, [EvTextDelta (or_default (string_field delta (lit ''text'')))])
      else if kind = lit ''thinking_delta'' then
        (d\<lparr>ad_thinking := True\<rparr>, (if ad_thinking d then [] else [EvReasoningStart]) @
           [EvReasoningDelta (or_default (string_field delta (lit ''thinking'')))])
      else if kind = lit ''signature_delta'' then (d, [EvReasoningSignature (or_default (string_field delta (lit ''signature'')))])
      else if kind = lit ''input_json_delta'' then
        (let fragment = or_default (string_field delta (lit ''partial_json''));
             tool = push_arguments fragment (ad_tool d)
         in (d\<lparr>ad_tool := tool\<rparr>, [EvToolCallArgumentsDelta (ta_id tool) fragment]))
      else (d, []))"

definition anthropic_message_start :: "anthropic_decoder \<Rightarrow> json \<Rightarrow> anthropic_decoder \<times> canonical_event list" where
  "anthropic_message_start d message =
     (let d1 = d\<lparr>ad_id := or_default (string_field message (lit ''id'')), ad_model := or_default (string_field message (lit ''model'')),
           ad_usage := (case get_field (lit ''usage'') message of Some u \<Rightarrow> usage_merge (ad_usage d) (anthropic_usage u) | None \<Rightarrow> ad_usage d),
           ad_started := True\<rparr>
      in (d1, [EvStart (ad_id d1) (ad_model d1) (ad_usage d1)]))"

definition anthropic_message_delta :: "anthropic_decoder \<Rightarrow> json \<Rightarrow> anthropic_decoder \<times> canonical_event list" where
  "anthropic_message_delta d v =
     (let (d1, usage) = (case get_field (lit ''usage'') v of
            Some u \<Rightarrow> (let merged = usage_merge (ad_usage d) (anthropic_usage u) in (d\<lparr>ad_usage := merged\<rparr>, [EvUsage merged]))
          | None \<Rightarrow> (d, []))
      in case as_str (pointer [lit ''delta'', lit ''stop_reason''] v) of
           Some reason \<Rightarrow> (d1\<lparr>ad_stopped := True\<rparr>, usage @ [EvStop (from_anthropic reason)])
         | None \<Rightarrow> (d1, usage))"

definition anthropic_decode :: "wire_env \<Rightarrow> anthropic_decoder value_decoder" where
  "anthropic_decode env d payload v =
     (let kind = or_default (string_field v (lit ''type'')) in
      if kind = lit ''message_start'' then anthropic_message_start d (or_null (get_field (lit ''message'') v))
      else if kind = lit ''content_block_start'' then anthropic_block_start env d (or_null (get_field (lit ''content_block'') v))
      else if kind = lit ''content_block_delta'' then anthropic_block_delta d (or_null (get_field (lit ''delta'') v))
      else if kind = lit ''content_block_stop'' then
        (d\<lparr>ad_thinking := False, ad_tool := tool_default\<rparr>, close_tool env (ad_tool d))
      else if kind = lit ''message_delta'' then anthropic_message_delta d v
      else if kind = lit ''message_stop'' then
        (if ad_stopped d then (d, []) else (d\<lparr>ad_stopped := True\<rparr>, [EvStop EndTurn]))
      else if kind = lit ''error'' then
        (d, [EvError 502 (case string_field (or_null (get_field (lit ''error'') v)) (lit ''message'') of
              Some m \<Rightarrow> m | None \<Rightarrow> lit ''the upstream reported an error'')])
      else (d, []))"

definition anthropic_decode_finish :: "wire_env \<Rightarrow> anthropic_decoder \<Rightarrow> canonical_event list" where
  "anthropic_decode_finish env d = close_tool env (ad_tool d)"

section \<open>The encoder\<close>

datatype open_block = OpenText | OpenThinking | OpenTool

record anthropic_encoder =
  ae_model :: ustring
  ae_id :: ustring
  ae_block_index :: nat
  ae_open :: "open_block option"
  ae_usage :: canonical_usage
  ae_started :: bool
  ae_terminal_emitted :: bool

definition anthropic_encoder_new :: "ustring \<Rightarrow> anthropic_encoder" where
  "anthropic_encoder_new model = \<lparr>ae_model = model, ae_id = [], ae_block_index = 0, ae_open = None, ae_usage = usage_default,
     ae_started = False, ae_terminal_emitted = False\<rparr>"

definition close_block :: "anthropic_encoder \<Rightarrow> anthropic_encoder \<times> wire_frame list" where
  "close_block e =
     (case ae_open e of
        None \<Rightarrow> (e, [])
      | Some _ \<Rightarrow> (e\<lparr>ae_open := None, ae_block_index := next_counter (ae_block_index e)\<rparr>,
          [(Some (lit ''content_block_stop''),
            JObject [(lit ''type'', jstr ''content_block_stop''), (lit ''index'', jnat (ae_block_index e))])]))"

definition open_block_frame :: "nat \<Rightarrow> json \<Rightarrow> wire_frame" where
  "open_block_frame index block =
     (Some (lit ''content_block_start''),
      JObject [(lit ''type'', jstr ''content_block_start''), (lit ''index'', jnat index), (lit ''content_block'', block)])"

definition open_block :: "json \<Rightarrow> open_block \<Rightarrow> anthropic_encoder \<Rightarrow> anthropic_encoder \<times> wire_frame list" where
  "open_block block kind e =
     (let (e1, closed) = close_block e
      in (e1\<lparr>ae_open := Some kind\<rparr>, closed @ [open_block_frame (ae_block_index e1) block]))"

definition delta_frame :: "anthropic_encoder \<Rightarrow> json \<Rightarrow> wire_frame" where
  "delta_frame e delta =
     (Some (lit ''content_block_delta''),
      JObject [(lit ''type'', jstr ''content_block_delta''), (lit ''index'', jnat (ae_block_index e)), (lit ''delta'', delta)])"

definition empty_thinking :: json where
  "empty_thinking = thinking_block [] []"

definition message_start_frame :: "anthropic_encoder \<Rightarrow> canonical_usage \<Rightarrow> wire_frame" where
  "message_start_frame e u =
     (Some (lit ''message_start''),
      JObject [(lit ''type'', jstr ''message_start''),
        (lit ''message'', JObject [(lit ''id'', JString (ae_id e)), (lit ''type'', jstr ''message''), (lit ''role'', jstr ''assistant''),
          (lit ''model'', JString (ae_model e)), (lit ''content'', JArray []), (lit ''stop_reason'', JNull), (lit ''stop_sequence'', JNull),
          (lit ''usage'', JObject [(lit ''input_tokens'', jnat (cu_input u)), (lit ''output_tokens'', jnat 0)])])])"

definition message_stop_frame :: wire_frame where
  "message_stop_frame = (Some (lit ''message_stop''), JObject [(lit ''type'', jstr ''message_stop'')])"

definition message_delta_frame :: "anthropic_encoder \<Rightarrow> stop_reason \<Rightarrow> wire_frame" where
  "message_delta_frame e r =
     (Some (lit ''message_delta''),
      JObject [(lit ''type'', jstr ''message_delta''),
        (lit ''delta'', JObject [(lit ''stop_reason'', JString (stop_anthropic r)), (lit ''stop_sequence'', JNull)]),
        (lit ''usage'', JObject [(lit ''output_tokens'', jnat (cu_output (ae_usage e)))])])"

fun anthropic_encode :: "anthropic_encoder frame_encoder" where
  "anthropic_encode e (EvStart i model u) =
     (let e1 = e\<lparr>ae_id := i, ae_usage := u, ae_model := (if model = [] then ae_model e else model)\<rparr> in
      if ae_started e then (e1, []) else (e1\<lparr>ae_started := True\<rparr>, [message_start_frame e1 u]))"
| "anthropic_encode e (EvTextDelta text) =
     (let (e1, fs) = (if ae_open e = Some OpenText then (e, []) else open_block (text_block []) OpenText e)
      in (e1, fs @ [delta_frame e1 (JObject [(lit ''type'', jstr ''text_delta''), (lit ''text'', JString text)])]))"
| "anthropic_encode e EvReasoningStart = open_block empty_thinking OpenThinking e"
| "anthropic_encode e (EvReasoningDelta text) =
     (let (e1, fs) = (if ae_open e = Some OpenThinking then (e, []) else open_block empty_thinking OpenThinking e)
      in (e1, fs @ [delta_frame e1 (JObject [(lit ''type'', jstr ''thinking_delta''), (lit ''thinking'', JString text)])]))"
| "anthropic_encode e (EvReasoningSignature s) =
     (e, [delta_frame e (JObject [(lit ''type'', jstr ''signature_delta''), (lit ''signature'', JString s)])])"
| "anthropic_encode e (EvToolCallStart i name) = open_block (tool_use_block i name (JObject [])) OpenTool e"
| "anthropic_encode e (EvToolCallArgumentsDelta _ fragment) =
     (e, [delta_frame e (JObject [(lit ''type'', jstr ''input_json_delta''), (lit ''partial_json'', JString fragment)])])"
| "anthropic_encode e (EvToolCallEnd _ _) = close_block e"
| "anthropic_encode e (EvUsage u) = (e\<lparr>ae_usage := u\<rparr>, [])"
| "anthropic_encode e (EvStop r) =
     (let (e1, fs) = close_block e in (e1\<lparr>ae_terminal_emitted := True\<rparr>, fs @ [message_delta_frame e1 r, message_stop_frame]))"
| "anthropic_encode e (EvError _ message) =
     (e, [(Some (lit ''error''), JObject [(lit ''type'', jstr ''error''),
        (lit ''error'', JObject [(lit ''type'', jstr ''api_error''), (lit ''message'', JString message)])])])"

definition anthropic_encode_finish :: "anthropic_encoder \<Rightarrow> wire_frame list" where
  "anthropic_encode_finish e =
     (if ae_terminal_emitted e then []
      else snd (close_block e) @ (if ae_started e then [message_stop_frame] else []))"

definition anthropic_keepalive :: ustring where
  "anthropic_keepalive = lit ''event: ping'' @ [10] @ lit ''data: {\"type\":\"ping\"}'' @ [10, 10]"

section \<open>The stream law\<close>

text \<open>What the decoder makes of each frame of the encoder.\<close>

lemma decode_open_frame: "anthropic_decode env d p (snd (open_block_frame i block)) = anthropic_block_start env d block"
  by (simp add: anthropic_decode_def open_block_frame_def string_field_def Let_def)

lemma decode_delta_frame: "anthropic_decode env d p (snd (delta_frame e delta)) = anthropic_block_delta d delta"
  by (simp add: anthropic_decode_def delta_frame_def string_field_def Let_def)

lemma decode_message_stop: "anthropic_decode env d p (snd message_stop_frame) =
    (if ad_stopped d then (d, []) else (d\<lparr>ad_stopped := True\<rparr>, [EvStop EndTurn]))"
  by (simp add: anthropic_decode_def message_stop_frame_def string_field_def Let_def)

lemma decode_message_delta:
  "cu_output (ae_usage e) \<le> U64_MAX \<Longrightarrow> \<exists>u. anthropic_decode env d p (snd (message_delta_frame e r)) =
    (d\<lparr>ad_usage := u, ad_stopped := True\<rparr>, [EvUsage u, EvStop (from_anthropic (stop_anthropic r))])"
  by (simp add: anthropic_decode_def anthropic_message_delta_def message_delta_frame_def string_field_def Let_def)

lemma block_start_text: "anthropic_block_start env d (text_block t) = (d, [])"
  by (simp add: anthropic_block_start_def text_block_def string_field_def)

lemma block_start_thinking: "anthropic_block_start env d empty_thinking = (d\<lparr>ad_thinking := True\<rparr>, [EvReasoningStart])"
  by (simp add: anthropic_block_start_def empty_thinking_def thinking_block_def string_field_def)

lemma block_start_tool: "anthropic_block_start env d (tool_use_block i n (JObject [])) =
    (d\<lparr>ad_tool := tool_start i n (ad_tool d)\<rparr>, [EvToolCallStart i n])"
  by (simp add: anthropic_block_start_def tool_use_block_def string_field_def Let_def)

definition anthropic_sim :: "anthropic_decoder \<Rightarrow> anthropic_encoder \<Rightarrow> reply_accumulator \<Rightarrow> reply_accumulator \<Rightarrow> bool" where
  "anthropic_sim d e a b \<longleftrightarrow>
     ra_text a = ra_text b \<and> ra_reasoning a = ra_reasoning b \<and> ra_tool_calls a = ra_tool_calls b \<and>
     ra_current_tool a = ra_current_tool b \<and> ra_stop a = map_option (from_anthropic \<circ> stop_anthropic) (ra_stop b) \<and>
     ae_block_index e \<le> U64_MAX \<and> cu_output (ae_usage e) \<le> U64_MAX \<and>
     (case ra_current_tool b of
        None \<Rightarrow> ad_tool d = tool_default \<and> ae_open e \<noteq> Some OpenTool
      | Some t \<Rightarrow> ad_tool d = tool_of t \<and> at_id t \<noteq> [] \<and> ae_open e = Some OpenTool)"

lemma anthropic_sim_thinking [simp]: "anthropic_sim (d\<lparr>ad_thinking := th\<rparr>) e a b = anthropic_sim d e a b"
  by (cases "ra_current_tool b") (simp_all add: anthropic_sim_def)

lemma close_block_silent:
  assumes "anthropic_sim d e a b" and "ra_current_tool b = None" and "close_block e = (e', fs)"
  shows "\<exists>th. decode_values env (anthropic_decode env) d fs = (d\<lparr>ad_thinking := th\<rparr>, [])"
    and "anthropic_sim (d\<lparr>ad_thinking := th\<rparr>) e' a b" and "ae_open e' = None"
proof -
  have t: "ad_tool d = tool_default" using assms(1,2) by (simp add: anthropic_sim_def)
  have quiet: "close_tool env tool_default = []" by (simp add: close_tool_def tool_is_empty_def tool_default_def)
  have keep: "d\<lparr>ad_thinking := False, ad_tool := tool_default\<rparr> = d\<lparr>ad_thinking := False\<rparr>" "d = d\<lparr>ad_thinking := ad_thinking d\<rparr>"
    using t by (cases d; simp)+
  show "\<exists>th. decode_values env (anthropic_decode env) d fs = (d\<lparr>ad_thinking := th\<rparr>, [])"
  proof (cases "ae_open e")
    case None
    then have "decode_values env (anthropic_decode env) d fs = (d, [])" using assms(3) by (auto simp: close_block_def)
    then show ?thesis by (metis keep(2))
  next
    case (Some k)
    then have "decode_values env (anthropic_decode env) d fs = (d\<lparr>ad_thinking := False\<rparr>, [])"
      using assms(3) t quiet keep(1) by (auto simp: close_block_def anthropic_decode_def string_field_def Let_def)
    then show ?thesis by blast
  qed
  show "anthropic_sim (d\<lparr>ad_thinking := th\<rparr>) e' a b" and "ae_open e' = None"
    using assms by (auto simp: anthropic_sim_def close_block_def next_counter_le split: option.splits)
qed

lemma same_thinking [simp]: "\<exists>th. d = d\<lparr>ad_thinking := th\<rparr>"
  by (rule exI [of _ "ad_thinking d"]) simp

lemma anthropic_open_step:
  assumes "anthropic_sim d e a b" and "ra_current_tool b = None" and "open_block block kind e = (e', fs)" and "kind \<noteq> OpenTool"
    and start: "\<And>d. \<exists>th. anthropic_block_start env d block = (d\<lparr>ad_thinking := th\<rparr>, quiet)"
  shows "\<exists>th. decode_values env (anthropic_decode env) d fs = (d\<lparr>ad_thinking := th\<rparr>, quiet) \<and>
    anthropic_sim (d\<lparr>ad_thinking := th\<rparr>) e' a b \<and> ae_open e' = Some kind"
proof -
  obtain e1 closed where c: "close_block e = (e1, closed)" by fastforce
  note s = close_block_silent [OF assms(1,2) c]
  obtain th where th: "decode_values env (anthropic_decode env) d closed = (d\<lparr>ad_thinking := th\<rparr>, [])" using s(1) by blast
  obtain th' where th': "anthropic_block_start env (d\<lparr>ad_thinking := th\<rparr>) block = (d\<lparr>ad_thinking := th'\<rparr>, quiet)"
    using start [of "d\<lparr>ad_thinking := th\<rparr>"] by auto
  have "decode_values env (anthropic_decode env) d (closed @ [open_block_frame i block]) = (d\<lparr>ad_thinking := th'\<rparr>, quiet)" for i
    using decode_values_append [of env "anthropic_decode env" d closed] th th' decode_open_frame [of env _ _ i block]
    by (cases "open_block_frame i block") simp
  moreover have "anthropic_sim (d\<lparr>ad_thinking := th'\<rparr>) (e1\<lparr>ae_open := Some kind\<rparr>) a b"
    using s(2,3) assms(2,4) by (auto simp: anthropic_sim_def)
  ultimately show ?thesis using assms(3) c by (auto simp: open_block_def)
qed

lemma anthropic_delta_step:
  assumes sim: "anthropic_sim d e a b" and idle: "ra_current_tool b = None"
    and opened: "(if ae_open e = Some kind then (e, []) else open_block block kind e) = (e1, fs1)" and "kind \<noteq> OpenTool"
    and start: "\<And>d. \<exists>th. anthropic_block_start env d block = (d\<lparr>ad_thinking := th\<rparr>, quiet)"
    and delta: "\<And>d. \<exists>th. anthropic_block_delta d delta = (d\<lparr>ad_thinking := th\<rparr>, out d)"
    and out: "decode_values env (anthropic_decode env) d (fs1 @ [delta_frame e1 delta]) = (d', evs)"
  shows "\<exists>d1 pre. evs = pre @ out d1 \<and> (pre = [] \<or> pre = quiet) \<and> anthropic_sim d' e1 a b"
proof -
  have "\<exists>th pre. decode_values env (anthropic_decode env) d fs1 = (d\<lparr>ad_thinking := th\<rparr>, pre) \<and> (pre = [] \<or> pre = quiet) \<and>
      anthropic_sim (d\<lparr>ad_thinking := th\<rparr>) e1 a b"
  proof (cases "ae_open e = Some kind")
    case True
    have "d = d\<lparr>ad_thinking := ad_thinking d\<rparr>" by simp
    with True opened sim show ?thesis by (intro exI [of _ "ad_thinking d"]) simp
  next
    case False
    then have "open_block block kind e = (e1, fs1)" using opened by simp
    from anthropic_open_step [OF sim idle this assms(4) start] show ?thesis by blast
  qed
  then obtain th pre where th: "decode_values env (anthropic_decode env) d fs1 = (d\<lparr>ad_thinking := th\<rparr>, pre)" "pre = [] \<or> pre = quiet"
      "anthropic_sim (d\<lparr>ad_thinking := th\<rparr>) e1 a b" by blast
  obtain th' where th': "anthropic_block_delta (d\<lparr>ad_thinking := th\<rparr>) delta = (d\<lparr>ad_thinking := th'\<rparr>, out (d\<lparr>ad_thinking := th\<rparr>))"
    using delta [of "d\<lparr>ad_thinking := th\<rparr>"] by auto
  have "decode_values env (anthropic_decode env) d (fs1 @ [delta_frame e1 delta]) =
      (d\<lparr>ad_thinking := th'\<rparr>, pre @ out (d\<lparr>ad_thinking := th\<rparr>))"
    using th(1) th' decode_delta_frame [of env _ _ e1 delta]
    by (cases "delta_frame e1 delta") (simp add: decode_values_append)
  then have "evs = pre @ out (d\<lparr>ad_thinking := th\<rparr>)" and d': "d' = d\<lparr>ad_thinking := th'\<rparr>" using out by simp_all
  moreover have "anthropic_sim d' e1 a b" using th(3) unfolding d' by simp
  ultimately show ?thesis using th(2) by blast
qed

lemma anthropic_step:
  assumes sim: "anthropic_sim d e a b" and ord: "orderly env num b ev" and enc: "anthropic_encode e ev = (e', fs)"
    and out: "decode_values env (anthropic_decode env) d fs = (d', evs)"
  shows "anthropic_sim d' e' (replay env a evs) (accumulator_apply (we_print env) b ev)"
proof (cases ev)
  case (EvStart i m u)
  have t: "ad_tool d' = ad_tool d" and "evs = [] \<or> (\<exists>i m u. evs = [EvStart i m u])"
    and e: "ae_open e' = ae_open e" "ae_block_index e' = ae_block_index e" "ae_usage e' = u"
    using enc out EvStart
    by (auto simp: Let_def message_start_frame_def anthropic_decode_def anthropic_message_start_def string_field_def split: if_splits)
  then have "ra_text (replay env a evs) = ra_text a" "ra_reasoning (replay env a evs) = ra_reasoning a"
    "ra_tool_calls (replay env a evs) = ra_tool_calls a" "ra_current_tool (replay env a evs) = ra_current_tool a"
    "ra_stop (replay env a evs) = ra_stop a"
    by auto
  then show ?thesis
    using sim ord EvStart t e by (cases "ra_current_tool b") (simp_all add: anthropic_sim_def usage_ok_def)
next
  case (EvTextDelta t)
  let ?delta = "JObject [(lit ''type'', jstr ''text_delta''), (lit ''text'', JString t)]"
  obtain e1 fs1 where o: "(if ae_open e = Some OpenText then (e, []) else open_block (text_block []) OpenText e) = (e1, fs1)" by fastforce
  have idle: "ra_current_tool b = None" using ord EvTextDelta by simp
  have e: "e' = e1" "fs = fs1 @ [delta_frame e1 ?delta]" using enc EvTextDelta o by (auto split: prod.splits)
  have "\<exists>(d1 :: anthropic_decoder) pre. evs = pre @ [EvTextDelta t] \<and> (pre = [] \<or> pre = []) \<and> anthropic_sim d' e1 a b"
    by (rule anthropic_delta_step [OF sim idle o, where out = "\<lambda>_. [EvTextDelta t]" and quiet = "[]"])
      (use out e in \<open>auto simp: block_start_text anthropic_block_delta_def string_field_def\<close>)
  then show ?thesis using EvTextDelta e by (auto simp: anthropic_sim_def split: option.splits)
next
  case EvReasoningStart
  have idle: "ra_current_tool b = None" using ord EvReasoningStart by simp
  have "open_block empty_thinking OpenThinking e = (e', fs)" using enc EvReasoningStart by simp
  moreover have "\<exists>th. anthropic_block_start env d empty_thinking = (d\<lparr>ad_thinking := th\<rparr>, [EvReasoningStart])" for d
    using block_start_thinking by blast
  ultimately obtain th where "decode_values env (anthropic_decode env) d fs = (d\<lparr>ad_thinking := th\<rparr>, [EvReasoningStart])"
      "anthropic_sim (d\<lparr>ad_thinking := th\<rparr>) e' a b"
    using anthropic_open_step [OF sim idle, of empty_thinking OpenThinking e' fs env "[EvReasoningStart]"] by blast
  then have "evs = [EvReasoningStart]" "anthropic_sim d' e' a b" using out by auto
  then show ?thesis using EvReasoningStart by (auto simp: anthropic_sim_def split: option.splits)
next
  case (EvReasoningDelta t)
  let ?delta = "JObject [(lit ''type'', jstr ''thinking_delta''), (lit ''thinking'', JString t)]"
  obtain e1 fs1 where o: "(if ae_open e = Some OpenThinking then (e, []) else open_block empty_thinking OpenThinking e) = (e1, fs1)" by fastforce
  have idle: "ra_current_tool b = None" using ord EvReasoningDelta by simp
  have e: "e' = e1" "fs = fs1 @ [delta_frame e1 ?delta]" using enc EvReasoningDelta o by (auto split: prod.splits)
  have "\<exists>(d1 :: anthropic_decoder) pre. evs = pre @ ((if ad_thinking d1 then [] else [EvReasoningStart]) @ [EvReasoningDelta t]) \<and>
      (pre = [] \<or> pre = [EvReasoningStart]) \<and> anthropic_sim d' e1 a b"
    by (rule anthropic_delta_step [OF sim idle o, where quiet = "[EvReasoningStart]"
          and out = "\<lambda>d. (if ad_thinking d then [] else [EvReasoningStart]) @ [EvReasoningDelta t]"])
      (use out e block_start_thinking in \<open>auto simp: anthropic_block_delta_def string_field_def\<close>)
  then show ?thesis using EvReasoningDelta e by (auto simp: anthropic_sim_def split: option.splits if_splits)
next
  case (EvReasoningSignature sg)
  then show ?thesis
    using assms by (auto simp: delta_frame_def anthropic_decode_def anthropic_block_delta_def string_field_def Let_def anthropic_sim_def)
next
  case (EvToolCallStart i n)
  have idle: "ra_current_tool b = None" using ord EvToolCallStart by simp
  obtain e1 closed where c: "close_block e = (e1, closed)" by fastforce
  note s = close_block_silent [OF sim idle c]
  obtain th where th: "decode_values env (anthropic_decode env) d closed = (d\<lparr>ad_thinking := th\<rparr>, [])" using s(1) by blast
  have "d' = d\<lparr>ad_thinking := th, ad_tool := tool_start i n tool_default\<rparr>" "evs = [EvToolCallStart i n]"
    "e' = e1\<lparr>ae_open := Some OpenTool\<rparr>"
    using enc out EvToolCallStart c th sim idle decode_open_frame [of env _ _ "ae_block_index e1" "tool_use_block i n (JObject [])"]
    by (cases "open_block_frame (ae_block_index e1) (tool_use_block i n (JObject []))",
        auto simp: open_block_def decode_values_append block_start_tool anthropic_sim_def)+
  then show ?thesis
    using s(2) [of th] idle EvToolCallStart ord
    by (auto simp: anthropic_sim_def tool_start_def tool_default_def tool_of_def)
next
  case (EvToolCallArgumentsDelta i f)
  then show ?thesis
    using assms by (auto simp: delta_frame_def anthropic_decode_def anthropic_block_delta_def string_field_def Let_def anthropic_sim_def
        push_arguments_def tool_of_def)
next
  case (EvToolCallEnd i v)
  obtain t where t: "ra_current_tool b = Some t" "i = at_id t" "v = fragments_value env (at_arguments t)" using ord EvToolCallEnd by auto
  have o: "ae_open e = Some OpenTool" "ad_tool d = tool_of t" "at_id t \<noteq> []" using sim t(1) by (auto simp: anthropic_sim_def)
  have "close_tool env (ad_tool d) = [EvToolCallEnd i v]"
    using o(2,3) t tool_arguments_of [of env t] by (simp add: close_tool_def tool_is_empty_def)
  then have "evs = [EvToolCallEnd i v]" "ad_tool d' = tool_default" "ae_open e' = None" "ae_block_index e' \<le> U64_MAX" "ae_usage e' = ae_usage e"
    using enc out EvToolCallEnd o
    by (auto simp: close_block_def anthropic_decode_def string_field_def Let_def next_counter_le)
  then show ?thesis using sim EvToolCallEnd t by (auto simp: anthropic_sim_def Let_def)
next
  case (EvUsage u)
  then show ?thesis using assms by (cases "ra_current_tool b") (auto simp: anthropic_sim_def usage_ok_def)
next
  case (EvStop r)
  have idle: "ra_current_tool b = None" using ord EvStop by simp
  obtain e1 closed where c: "close_block e = (e1, closed)" by fastforce
  note s = close_block_silent [OF sim idle c]
  obtain th where th: "decode_values env (anthropic_decode env) d closed = (d\<lparr>ad_thinking := th\<rparr>, [])" using s(1) by blast
  have u: "cu_output (ae_usage e1) \<le> U64_MAX" using s(2) by (simp add: anthropic_sim_def)
  obtain us where us: "anthropic_decode env (d\<lparr>ad_thinking := th\<rparr>) (we_print env (snd (message_delta_frame e1 r))) (snd (message_delta_frame e1 r)) =
      (d\<lparr>ad_thinking := th, ad_usage := us, ad_stopped := True\<rparr>, [EvUsage us, EvStop (from_anthropic (stop_anthropic r))])"
    using decode_message_delta [OF u] by blast
  have "fs = closed @ [message_delta_frame e1 r, message_stop_frame]" and e: "e' = e1\<lparr>ae_terminal_emitted := True\<rparr>"
    using enc EvStop c by auto
  then have "decode_values env (anthropic_decode env) d fs =
      (d\<lparr>ad_thinking := th, ad_usage := us, ad_stopped := True\<rparr>, [EvUsage us, EvStop (from_anthropic (stop_anthropic r))])"
    using th us by (simp add: decode_values_append decode_values_Cons decode_message_stop)
  then have "d' = d\<lparr>ad_thinking := th, ad_usage := us, ad_stopped := True\<rparr>" "evs = [EvUsage us, EvStop (from_anthropic (stop_anthropic r))]"
    using out by simp_all
  with e show ?thesis using s(2) [of th] EvStop by (auto simp: anthropic_sim_def split: option.splits)
next
  case (EvError st m)
  then show ?thesis using assms by (auto simp: anthropic_decode_def string_field_def Let_def anthropic_sim_def)
qed

lemma anthropic_frames:
  assumes laws: "json_text_laws env num" and sim: "anthropic_sim d e a b" and ord: "orderly env num b ev" and enc: "anthropic_encode e ev = (e', fs)"
  shows "list_all (frame_ok num) fs"
proof -
  note nums = json_wf_jnat [OF laws]
  have open_ok: "list_all (frame_ok num) fs" if "open_block block k e0 = (e1, fs)" "json_wf num block" "ae_block_index e0 \<le> U64_MAX" for block k e0 e1 fs
    using that nums next_counter_le by (auto simp: open_block_def close_block_def open_block_frame_def frame_ok_def split: option.splits)
  have close_ok: "list_all (frame_ok num) fs" if "close_block e0 = (e1, fs)" "ae_block_index e0 \<le> U64_MAX" for e0 e1 fs
    using that nums by (auto simp: close_block_def frame_ok_def split: option.splits)
  have delta_ok: "frame_ok num (delta_frame e0 delta)" if "json_wf num delta" "ae_block_index e0 \<le> U64_MAX" for e0 delta
    using that nums by (simp add: delta_frame_def frame_ok_def)
  have index: "ae_block_index e1 \<le> U64_MAX" if "open_block block k e0 = (e1, fs)" "ae_block_index e0 \<le> U64_MAX" for block k e0 e1 fs
    using that next_counter_le by (auto simp: open_block_def close_block_def split: option.splits)
  have usage: "ae_usage e1 = ae_usage e0" if "close_block e0 = (e1, fs)" for e0 e1 fs
    using that by (auto simp: close_block_def split: option.splits)
  have i: "ae_block_index e \<le> U64_MAX" "cu_output (ae_usage e) \<le> U64_MAX" using sim by (simp_all add: anthropic_sim_def)
  show ?thesis
  proof (cases ev)
    case (EvStart n m u)
    then show ?thesis using enc ord by (auto simp: Let_def message_start_frame_def frame_ok_def nums usage_ok_def split: if_splits)
  next
    case (EvTextDelta t)
    then show ?thesis
      using enc i open_ok [of "text_block []" OpenText e] index [of "text_block []" OpenText e]
      by (auto simp: text_block_def intro!: delta_ok split: if_splits prod.splits)
  next
    case EvReasoningStart
    then show ?thesis using enc i open_ok [of empty_thinking OpenThinking e] by (simp add: empty_thinking_def thinking_block_def)
  next
    case (EvReasoningDelta t)
    then show ?thesis
      using enc i open_ok [of empty_thinking OpenThinking e] index [of empty_thinking OpenThinking e]
      by (auto simp: empty_thinking_def thinking_block_def intro!: delta_ok split: if_splits prod.splits)
  next
    case (EvToolCallStart n m)
    then show ?thesis using enc i open_ok [of "tool_use_block n m (JObject [])" OpenTool e] by (simp add: tool_use_block_def)
  next
    case (EvStop r)
    obtain e1 closed where c: "close_block e = (e1, closed)" by fastforce
    then show ?thesis
      using EvStop enc i close_ok [OF c] usage [OF c] by (auto simp: message_delta_frame_def message_stop_frame_def frame_ok_def nums)
  next
    case (EvToolCallEnd n v)
    then show ?thesis using enc i close_ok by simp
  qed (use enc i in \<open>auto simp: frame_ok_def delta_frame_def nums\<close>)
qed

interpretation anthropic: stream_codec_law env num "lit ''an Anthropic''" "anthropic_decode env" anthropic_encode "orderly env num" anthropic_sim
  for env num
  by unfold_locales (use anthropic_step anthropic_frames in blast)+

lemma anthropic_start: "anthropic_sim anthropic_decoder_default (anthropic_encoder_new model) accumulator_default accumulator_default"
  by (simp add: anthropic_sim_def anthropic_decoder_default_def anthropic_encoder_new_def accumulator_default_def usage_default_def)

section \<open>Round trips of requests and replies\<close>

text \<open>What a reply and a request may hold that this protocol can say.\<close>

fun anthropic_sayable :: "content_part \<Rightarrow> bool" where
  "anthropic_sayable (Text t) = (t \<noteq> [])"
| "anthropic_sayable (Reasoning t (Some s)) = (os_protocol s = ANTHROPIC)"
| "anthropic_sayable (ToolCall i n v) = True"
| "anthropic_sayable _ = False"

lemma blocks_sayable:
  "list_all anthropic_sayable parts \<Longrightarrow> blocks (Some (JArray (List.map_filter anthropic_reply_block parts))) = Inr parts"
proof (induction parts)
  case (Cons p parts)
  then show ?case
    by (cases p rule: anthropic_sayable.cases)
      (auto simp: map_filter_simps text_block_def thinking_block_def tool_use_block_def string_field_def Let_def)
qed (simp add: map_filter_simps)

lemma anthropic_reply_back:
  assumes "list_all anthropic_sayable (cp_parts r)" and "usage_ok (cp_usage r)"
  shows "anthropic_parse_response (anthropic_render_response r) =
    Inr (r\<lparr>cp_stop := from_anthropic (stop_anthropic (cp_stop r)), cp_usage := (cp_usage r)\<lparr>cu_reasoning := 0\<rparr>\<rparr>)"
proof -
  have "anthropic_usage (JObject [(lit ''input_tokens'', jnat (cu_input u)), (lit ''output_tokens'', jnat (cu_output u)),
      (lit ''cache_read_input_tokens'', jnat (cu_cached_read u)), (lit ''cache_creation_input_tokens'', jnat (cu_cached_write u))]) =
      u\<lparr>cu_reasoning := 0\<rparr>" if "usage_ok u" for u
    using that by (cases u) (simp add: anthropic_usage_def count_at_jnat usage_ok_def)
  with assms blocks_sayable [OF assms(1)] show ?thesis
    by (simp add: anthropic_parse_response_def anthropic_render_response_def string_field_def not_null_def)
qed

fun anthropic_result_ok :: "content_part \<Rightarrow> bool" where
  "anthropic_result_ok (ToolResult i [Text t] err) = True"
| "anthropic_result_ok _ = False"

fun anthropic_user_ok :: "content_part \<Rightarrow> bool" where
  "anthropic_user_ok (Text t) = (t \<noteq> [])"
| "anthropic_user_ok (Image (VendorFileId _)) = False"
| "anthropic_user_ok (Image _) = True"
| "anthropic_user_ok _ = False"

definition anthropic_message_ok :: "canonical_message \<Rightarrow> bool" where
  "anthropic_message_ok m \<longleftrightarrow> cm_parts m \<noteq> [] \<and>
     (case cm_role m of
        User \<Rightarrow> list_all anthropic_user_ok (dropWhile anthropic_result_ok (cm_parts m))
      | Assistant \<Rightarrow> list_all anthropic_sayable (cm_parts m))"

lemma blocks_append:
  "blocks (Some (JArray xs)) = Inr ps \<Longrightarrow> blocks (Some (JArray ys)) = Inr qs \<Longrightarrow> blocks (Some (JArray (xs @ ys))) = Inr (ps @ qs)"
  by (simp add: collect_results_append)

lemma parts_there_and_back:
  assumes "\<And>p. p \<in> set parts \<Longrightarrow> \<exists>j. g p = Some (Inr j) \<and> blocks (Some (JArray [j])) = Inr [p]"
  shows "\<exists>js. collect_results (\<lambda>r. r) (List.map_filter g parts) = Inr js \<and> blocks (Some (JArray js)) = Inr parts"
  using assms
proof (induction parts)
  case (Cons p parts)
  then obtain j js where j: "g p = Some (Inr j)" "blocks (Some (JArray [j])) = Inr [p]"
    and js: "collect_results (\<lambda>r. r) (List.map_filter g parts) = Inr js" "blocks (Some (JArray js)) = Inr parts"
    by (metis list.set_intros(1,2))
  then show ?case using blocks_append [OF j(2) js(2)] by (auto simp: map_filter_simps simp del: blocks.simps)
qed (simp add: map_filter_simps)

lemma anthropic_content_back:
  assumes "anthropic_message_ok m"
  shows "\<exists>content. anthropic_content m = Inr content \<and> blocks (Some (JArray content)) = Inr (cm_parts m)"
proof (cases "cm_role m")
  case User
  define rs us where "rs = takeWhile anthropic_result_ok (cm_parts m)" and "us = dropWhile anthropic_result_ok (cm_parts m)"
  have parts: "cm_parts m = rs @ us" by (simp add: rs_def us_def)
  have ok: "list_all anthropic_result_ok rs" "list_all anthropic_user_ok us"
    using assms User by (auto simp: rs_def us_def anthropic_message_ok_def list_all_iff dest: set_takeWhileD)
  have "\<exists>j. user_result p = Some (Inr j) \<and> blocks (Some (JArray [j])) = Inr [p]" if "p \<in> set rs" for p
    using that ok(1) unfolding list_all_iff
    by (cases p rule: anthropic_result_ok.cases)
      (auto simp: tool_result_block_def text_or_blocks_def text_of_parts_def is_image_def map_filter_simps string_field_def Let_def)
  then obtain js where js: "collect_results (\<lambda>r. r) (List.map_filter user_result rs) = Inr js" "blocks (Some (JArray js)) = Inr rs"
    using parts_there_and_back by blast
  have "\<exists>j. user_block p = Some (Inr j) \<and> blocks (Some (JArray [j])) = Inr [p]" if "p \<in> set us" for p
    using that ok(2) unfolding list_all_iff
    by (cases p rule: anthropic_user_ok.cases) (auto simp: text_block_def anthropic_image_def string_field_def Let_def)
  then obtain ks where ks: "collect_results (\<lambda>r. r) (List.map_filter user_block us) = Inr ks" "blocks (Some (JArray ks)) = Inr us"
    using parts_there_and_back by blast
  have "user_result p = None" if "anthropic_user_ok p" for p using that by (cases p) auto
  moreover have "user_block p = None" if "anthropic_result_ok p" for p using that by (cases p) auto
  ultimately have "anthropic_content m = Inr (js @ ks)"
    using User js ks by (simp add: anthropic_content_def parts map_filter_append map_filter_none ok [unfolded list_all_iff])
  with blocks_append [OF js(2) ks(2)] parts show ?thesis by simp
next
  case Assistant
  then have "\<exists>j. assistant_block p = Some (Inr j) \<and> blocks (Some (JArray [j])) = Inr [p]" if "p \<in> set (cm_parts m)" for p
    using that assms unfolding anthropic_message_ok_def list_all_iff
    by (cases p rule: anthropic_sayable.cases)
      (auto simp: text_block_def thinking_block_def tool_use_block_def string_field_def Let_def)
  then show ?thesis
    using parts_there_and_back [of "cm_parts m" assistant_block] Assistant by (auto simp: anthropic_content_def)
qed

definition anthropic_request_ok :: "wire_env \<Rightarrow> canonical_request \<Rightarrow> bool" where
  "anthropic_request_ok env r \<longleftrightarrow>
     list_all anthropic_message_ok (cr_messages r) \<and>
     list_all nonempty_text (cr_system r) \<and> sampling_ok env (cr_sampling r)"

text \<open>What the protocol cannot say is what it loses: the strictness of tools, the effort, the wish for
  parallel calls, the choice among no tools; a missing limit becomes the default.\<close>

definition anthropic_heard :: "ustring \<Rightarrow> bool \<Rightarrow> canonical_request \<Rightarrow> canonical_request" where
  "anthropic_heard model stream r =
     r\<lparr>cr_model := model, cr_stream := stream, cr_opaque := [], cr_parallel_tool_calls := None,
       cr_tools := map (\<lambda>t. t\<lparr>td_strict := False\<rparr>) (cr_tools r),
       cr_tool_choice := (if cr_tools r = [] then ChoiceAuto else cr_tool_choice r),
       cr_reasoning := (cr_reasoning r)\<lparr>rr_effort_asked := None\<rparr>,
       cr_sampling := (cr_sampling r)\<lparr>sp_max_tokens := Some (case sp_max_tokens (cr_sampling r) of Some n \<Rightarrow> n | None \<Rightarrow> DEFAULT_MAX_TOKENS)\<rparr>\<rparr>"

lemma anthropic_messages_back:
  assumes "list_all anthropic_message_ok ms"
  shows "\<exists>js. anthropic_messages ms = Inr js \<and> collect_results anthropic_message js = Inr ms"
  using assms
proof (induction ms)
  case (Cons m ms)
  then obtain js where js: "anthropic_messages ms = Inr js" "collect_results anthropic_message js = Inr ms" by auto
  from Cons.prems obtain content where c: "anthropic_content m = Inr content" "blocks (Some (JArray content)) = Inr (cm_parts m)"
    using anthropic_content_back by auto
  have "content \<noteq> []" using c(2) Cons.prems by (auto simp: anthropic_message_ok_def)
  let ?j = "JObject [(lit ''role'', JString (role_as_str (cm_role m))), (lit ''content'', JArray content)]"
  have "anthropic_message ?j = Inr m"
    using c(2) by (cases "cm_role m") (simp_all add: anthropic_message_def string_field_def del: blocks.simps)
  moreover have "anthropic_messages (m # ms) = Inr (?j # js)"
    using js(1) c(1) \<open>content \<noteq> []\<close> by (auto simp: anthropic_messages_def and_then_def split: sum.splits)
  ultimately show ?case using js(2) by (intro exI [of _ "?j # js"]) simp
qed (simp add: anthropic_messages_def)

lemma anthropic_system_back:
  assumes "list_all nonempty_text system"
  shows "blocks (map_of (anthropic_system system) (lit ''system'')) = Inr system"
proof -
  define ts where "ts = List.map_filter (\<lambda>p. case p of Text t \<Rightarrow> if t = [] then None else Some t | _ \<Rightarrow> None) system"
  have s: "system = map Text ts"
    using nonempty_texts [OF assms] unfolding ts_def by (auto simp: map_filter_some list_all_iff)
  have "blocks (Some (JArray (map text_block us))) = Inr (map Text us)" for us
    by (induction us) (simp_all add: text_block_def string_field_def)
  from this [of ts] show ?thesis
    unfolding anthropic_system_def ts_def [symmetric] using s
    by (cases ts rule: remdups_adj.cases) (simp_all del: blocks.simps(4))
qed

lemma anthropic_tools_back:
  "tools \<noteq> [] \<Longrightarrow> List.map_filter anthropic_tool (map (\<lambda>t. JObject [(lit ''name'', JString (td_name t)), (lit ''description'', JString (td_description t)),
      (lit ''input_schema'', td_parameters t)]) tools) = map (\<lambda>t. t\<lparr>td_strict := False\<rparr>) tools"
  by (rule map_filter_some) (simp add: anthropic_tool_def string_field_def)

lemma anthropic_choice_back: "anthropic_tool_choice (Some (anthropic_choice_value c)) = c"
  by (cases c) (simp_all add: anthropic_tool_choice_def anthropic_choice_value_def string_field_def)

section \<open>Properties\<close>

text \<open>C15: A streamed reply whose calls come in fragments survives the Anthropic wire: for the events of a
  reply in order, with any number of calls one after the other, each with a nonempty id and name and an
  end that says what its fragments say, a client that reads the text the encoder writes with the decoder
  of the same protocol rebuilds the same text, reasoning and tool calls with their arguments, and the
  same reason to stop, except that the unmodelled reason reads as a natural end. A call whose arguments
  come whole is not covered; it loses them (\<open>anthropic_whole_arguments_lost\<close>).\<close>
theorem anthropic_stream_round_trip:
  assumes "json_text_laws env num" and "admitted (orderly env num) env accumulator_default evs"
    and "encode_events anthropic_encode (anthropic_encoder_new model) evs = (e', fs)"
  shows "\<exists>d' out. decode_frames (decode_data env (lit ''an Anthropic'') (anthropic_decode env)) anthropic_decoder_default
        (parse_sse (frames_text env fs)) = Inr (d', out) \<and>
     ra_text (accumulate (we_print env) out) = ra_text (accumulate (we_print env) evs) \<and>
     ra_reasoning (accumulate (we_print env) out) = ra_reasoning (accumulate (we_print env) evs) \<and>
     ra_tool_calls (accumulate (we_print env) out) = ra_tool_calls (accumulate (we_print env) evs) \<and>
     ra_stop (accumulate (we_print env) out) =
       map_option (from_anthropic \<circ> stop_anthropic) (ra_stop (accumulate (we_print env) evs))"
  using anthropic.read_back [OF assms(1) anthropic_start assms(2,3)] unfolding anthropic_sim_def accumulate_def by blast

lemma anthropic_stream_round_trip_witness:
  "\<exists>d' out. decode_frames (decode_data sample_wire (lit ''an Anthropic'') (anthropic_decode sample_wire)) anthropic_decoder_default
        (parse_sse (frames_text sample_wire (snd (encode_events anthropic_encode (anthropic_encoder_new []) sample_events)))) = Inr (d', out) \<and>
     ra_text (accumulate (we_print sample_wire) out) = lit ''hello'' \<and> length (ra_tool_calls (accumulate (we_print sample_wire) out)) = 1 \<and>
     ra_stop (accumulate (we_print sample_wire) out) = Some ToolUse"
  using anthropic_stream_round_trip [OF sample_wire_laws sample_admitted_events surjective_pairing, of "[]"] sample_reply
  by (fastforce simp: from_anthropic_def)

text \<open>A call whose arguments come whole reaches an Anthropic reader without them, also when an Anthropic
  upstream sent it, which may put the whole input on the start of the block.\<close>

lemma anthropic_whole_arguments_lost:
  assumes "i \<noteq> []" and "n \<noteq> []"
    and "encode_events anthropic_encode (anthropic_encoder_new model) [EvToolCallStart i n, EvToolCallEnd i v] = (e', fs)"
  shows "ra_tool_calls (accumulate (we_print env) [EvToolCallStart i n, EvToolCallEnd i v]) =
      [\<lparr>at_id = i, at_name = n, at_arguments = we_print env v\<rparr>] \<and>
    ra_tool_calls (accumulate (we_print env) (snd (decode_values env (anthropic_decode env) anthropic_decoder_default fs))) =
      [\<lparr>at_id = i, at_name = n, at_arguments = we_print env (fragments_value env [])\<rparr>]"
proof -
  have arguments: "tool_arguments env \<lparr>ta_id = x, ta_name = y, ta_fragments = []\<rparr> = fragments_value env []" for x y
    by (simp add: fragments_value_def tool_arguments_def)
  show ?thesis
    using assms
    by (auto simp: anthropic_encoder_new_def anthropic_decoder_default_def anthropic_decode_def open_block_def close_block_def open_block_frame_def
        tool_use_block_def anthropic_block_start_def anthropic_message_delta_def close_tool_def string_field_def Let_def tool_is_empty_def tool_default_def tool_start_def
        accumulate_def accumulator_default_def arguments trim_def trim_where_def next_counter_def)
qed

lemma anthropic_whole_input_read:
  assumes "i \<noteq> []" and "kvs \<noteq> []"
  shows "snd (decode_values env (anthropic_decode env) anthropic_decoder_default
     [open_block_frame 0 (tool_use_block i n (JObject kvs)), (None, JObject [(lit ''type'', jstr ''content_block_stop'')])]) =
    [EvToolCallStart i n, EvToolCallEnd i (fragments_value env (we_print env (JObject kvs)))]"
  using assms
  by (auto simp: anthropic_decoder_default_def anthropic_decode_def open_block_frame_def tool_use_block_def anthropic_block_start_def close_tool_def
      string_field_def Let_def tool_is_empty_def tool_default_def tool_start_def push_arguments_def fragments_value_def tool_arguments_def
      split: option.split)

text \<open>C16: A request in the form Anthropic has survives its wire: when no message and no text of the system is
  empty, tool results (each with exactly one text) come before the other parts of a user message, and the
  parts are otherwise nonempty texts and images by value or address of a user, or nonempty texts, calls
  and reasoning with an Anthropic signature of an assistant (\<open>anthropic_message_ok\<close>), the body built for
  an upstream, with the model and the stream flag the gateway decided, is read by the handler of the same
  protocol as the same system text, messages, tools and sampling, except for the strictness of tools, the
  effort, the wish for parallel calls and unknown fields, which the protocol or the builder leaves out; a
  missing token limit becomes the default. Requests of another form are changed by the builder itself
  and not covered.\<close>
theorem anthropic_request_round_trip:
  assumes ok: "anthropic_request_ok env r" and "trim model \<noteq> []"
  shows "\<exists>kvs. anthropic_build_request env r = Inr (JObject kvs) \<and>
    anthropic_parse_request env (JObject (obj_insert (lit ''stream'') (JBool stream) (obj_insert (lit ''model'') (JString model) kvs))) =
      Inr (anthropic_heard model stream r)"
proof -
  obtain js where js: "anthropic_messages (cr_messages r) = Inr js" "collect_results anthropic_message js = Inr (cr_messages r)"
    using anthropic_messages_back ok by (auto simp: anthropic_request_ok_def)
  have sys: "blocks (map_of (anthropic_system (cr_system r)) (lit ''system'')) = Inr (cr_system r)"
    using anthropic_system_back ok by (simp add: anthropic_request_ok_def)
  have sys_only: "map_of (anthropic_system (cr_system r)) (lit k) = None" if "k \<noteq> ''system''" for k
    using that by (simp add: anthropic_system_def split: list.split)
  have tools_only: "map_of (anthropic_tools ts c) (lit k) = None" if "k \<noteq> ''tools''" "k \<noteq> ''tool_choice''" for k ts c
    using that by (simp add: anthropic_tools_def)
  have tools: "(case as_array (map_of (anthropic_tools (cr_tools r) (cr_tool_choice r)) (lit ''tools'')) of
        Some ts \<Rightarrow> List.map_filter anthropic_tool ts | None \<Rightarrow> []) = map (\<lambda>t. t\<lparr>td_strict := False\<rparr>) (cr_tools r)"
    using anthropic_tools_back [of "cr_tools r"] by (cases "cr_tools r = []") (simp_all add: anthropic_tools_def)
  have choice: "anthropic_tool_choice (map_of (anthropic_tools (cr_tools r) (cr_tool_choice r)) (lit ''tool_choice'')) =
        (if cr_tools r = [] then ChoiceAuto else cr_tool_choice r)"
    using anthropic_choice_back [of "cr_tool_choice r"] by (simp add: anthropic_tools_def) (simp add: anthropic_tool_choice_def)
  let ?sp = "cr_sampling r"
  define kvs where "kvs = anthropic_system (cr_system r) @
     [(lit ''messages'', JArray js),
      (lit ''max_tokens'', jnat (case sp_max_tokens ?sp of Some n \<Rightarrow> n | None \<Rightarrow> DEFAULT_MAX_TOKENS))] @
     opt_field ''temperature'' (we_from_f64 env) (sp_temperature ?sp) @
     opt_field ''top_p'' (we_from_f64 env) (sp_top_p ?sp) @
     (if sp_stop ?sp = [] then [] else [(lit ''stop_sequences'', JArray (map JString (sp_stop ?sp)))]) @
     anthropic_tools (cr_tools r) (cr_tool_choice r) @
     (if rr_disabled (cr_reasoning r) then [(lit ''thinking'', JObject [(lit ''type'', jstr ''disabled'')])] else []) @
     [(lit ''stream'', JBool (cr_stream r))]"
  have get: "map_of kvs (lit ''system'') = map_of (anthropic_system (cr_system r)) (lit ''system'')"
    "map_of kvs (lit ''messages'') = Some (JArray js)"
    "map_of kvs (lit ''tools'') = map_of (anthropic_tools (cr_tools r) (cr_tool_choice r)) (lit ''tools'')"
    "map_of kvs (lit ''tool_choice'') = map_of (anthropic_tools (cr_tools r) (cr_tool_choice r)) (lit ''tool_choice'')"
    "map_of kvs (lit ''temperature'') = map_option (we_from_f64 env) (sp_temperature ?sp)"
    "map_of kvs (lit ''top_p'') = map_option (we_from_f64 env) (sp_top_p ?sp)"
    "map_of kvs (lit ''max_tokens'') = Some (jnat (case sp_max_tokens ?sp of Some n \<Rightarrow> n | None \<Rightarrow> DEFAULT_MAX_TOKENS))"
    "map_of kvs (lit ''stop_sequences'') = (if sp_stop ?sp = [] then None else Some (JArray (map JString (sp_stop ?sp))))"
    "map_of kvs (lit ''thinking'') = (if rr_disabled (cr_reasoning r) then Some (JObject [(lit ''type'', jstr ''disabled'')]) else None)"
    unfolding kvs_def by (simp_all add: lookup_fields lookup_skip lookup_here sys_only tools_only del: map_of_append)
  note num = number_back [of env "sp_temperature ?sp"] number_back [of env "sp_top_p ?sp"]
  have max: "(case sp_max_tokens ?sp of Some n \<Rightarrow> n | None \<Rightarrow> DEFAULT_MAX_TOKENS) \<le> U64_MAX"
    using ok by (auto simp: anthropic_request_ok_def sampling_ok_def DEFAULT_MAX_TOKENS_def U64_MAX_def split: option.split)
  have "anthropic_build_request env r = Inr (JObject kvs)" by (simp add: anthropic_build_request_def js kvs_def Let_def)
  moreover have "anthropic_parse_request env (JObject (obj_insert (lit ''stream'') (JBool stream) (obj_insert (lit ''model'') (JString model) kvs))) =
      Inr (anthropic_heard model stream r)"
    using assms(2) js(2) sys tools choice max num ok
    by (cases r; cases "cr_sampling r"; cases "cr_reasoning r")
      (simp add: anthropic_parse_request_def object_of_def string_field_def uint_field_def number_field_def get anthropic_reasoning_def
        anthropic_heard_def anthropic_request_ok_def sampling_ok_def Let_def del: blocks.simps)
  ultimately show ?thesis by blast
qed

lemma anthropic_request_round_trip_witness:
  "\<exists>kvs. anthropic_build_request sample_wire (for_model (lit ''m'')\<lparr>cr_messages := [\<lparr>cm_role = User, cm_parts = [ToolResult (lit ''c'') [Text (lit ''ok'')] False, Text (lit ''go'')]\<rparr>]\<rparr>) = Inr (JObject kvs) \<and>
    anthropic_parse_request sample_wire (JObject (obj_insert (lit ''stream'') (JBool True) (obj_insert (lit ''model'') (JString (lit ''x'')) kvs))) =
      Inr (anthropic_heard (lit ''x'') True (for_model (lit ''m'')\<lparr>cr_messages := [\<lparr>cm_role = User, cm_parts = [ToolResult (lit ''c'') [Text (lit ''ok'')] False, Text (lit ''go'')]\<rparr>]\<rparr>))"
  by (rule anthropic_request_round_trip)
    (simp_all add: anthropic_request_ok_def for_model_def anthropic_message_ok_def sampling_ok_def trim_def trim_where_def lit_def is_whitespace_def)

end
