(* ===== verification/Wire_Chat.thy ===== *)
theory Wire_Chat
  imports Wire_Stream
begin

text \<open>
  The Chat Completions codec, \<open>crates/model-gateway/src/wire/chat.rs\<close>: content, \<open>parse_request\<close>,
  \<open>build_request\<close>, \<open>render_response\<close>, \<open>parse_response\<close>, \<open>ChatDecoder\<close> and \<open>ChatEncoder\<close>.
\<close>

section \<open>Requests\<close>

definition chat_part :: "json \<Rightarrow> gateway_error + content_part" where
  "chat_part item =
     (let kind = or_default (string_field item (lit ''type'')) in
      if kind \<in> {lit ''text'', lit ''input_text'', lit ''output_text''} then Inr (Text (or_default (string_field item (lit ''text''))))
      else if kind = lit ''image_url'' then
        (case Option.bind (get_field (lit ''image_url'') item) (\<lambda>image.
            case as_str (Some image) of Some u \<Rightarrow> Some u | None \<Rightarrow> string_field image (lit ''url'')) of
           Some url \<Rightarrow> Inr (Image (image_source_of url))
         | None \<Rightarrow> Inl (MalformedRequest (lit ''a Chat image part has no URL'')))
      else if kind = lit ''refusal'' then Inr (Text (or_default (string_field item (lit ''refusal''))))
      else Inl (MalformedRequest (lit ''Chat content part `'' @ kind @ lit ''` is not supported'')))"

fun parts_from_content :: "json option \<Rightarrow> gateway_error + content_part list" where
  "parts_from_content None = Inr []"
| "parts_from_content (Some JNull) = Inr []"
| "parts_from_content (Some (JString text)) = Inr [Text text]"
| "parts_from_content (Some (JArray vs)) = collect_results chat_part vs"
| "parts_from_content (Some _) = Inl (MalformedRequest (lit ''a Chat message's content must be a string or an array''))"

definition arguments_value :: "wire_env \<Rightarrow> json option \<Rightarrow> json" where
  "arguments_value env v =
     (case v of Some (JString raw) \<Rightarrow> parse_or_string env raw | Some other \<Rightarrow> other | None \<Rightarrow> JObject [])"

definition chat_call :: "wire_env \<Rightarrow> json \<Rightarrow> content_part" where
  "chat_call env call =
     (let function = or_null (get_field (lit ''function'') call)
      in ToolCall (or_default (string_field call (lit ''id''))) (or_default (string_field function (lit ''name'')))
           (arguments_value env (get_field (lit ''arguments'') function)))"

text \<open>The parts of an assistant message: reasoning, then content, then calls.\<close>

definition chat_assistant_parts :: "wire_env \<Rightarrow> json \<Rightarrow> gateway_error + content_part list" where
  "chat_assistant_parts env message =
     and_then (parts_from_content (get_field (lit ''content'') message)) (\<lambda>content.
       Inr ((case string_field message (lit ''reasoning_content'') of
               Some r \<Rightarrow> if r = [] then [] else [Reasoning r None] | None \<Rightarrow> [])
          @ content
          @ (case as_array (get_field (lit ''tool_calls'') message) of Some calls \<Rightarrow> map (chat_call env) calls | None \<Rightarrow> [])))"

text \<open>What one message adds to the system text and to the conversation.\<close>

definition chat_message :: "wire_env \<Rightarrow> json \<Rightarrow> gateway_error + content_part list \<times> canonical_message list" where
  "chat_message env message =
     (let role = (case string_field message (lit ''role'') of Some r \<Rightarrow> r | None \<Rightarrow> lit ''user'');
          content = parts_from_content (get_field (lit ''content'') message)
      in if role \<in> {lit ''system'', lit ''developer''} then and_then content (\<lambda>parts. Inr (parts, []))
         else if role = lit ''user'' then and_then content (\<lambda>parts. Inr ([], [\<lparr>cm_role = User, cm_parts = parts\<rparr>]))
         else if role \<in> {lit ''tool'', lit ''function''} then and_then content (\<lambda>parts.
           Inr ([], [\<lparr>cm_role = User, cm_parts = [ToolResult (or_default (string_field message (lit ''tool_call_id''))) parts False]\<rparr>]))
         else if role = lit ''assistant'' then and_then (chat_assistant_parts env message) (\<lambda>parts.
           Inr ([], [\<lparr>cm_role = Assistant, cm_parts = parts\<rparr>]))
         else Inl (MalformedRequest (lit ''Chat role `'' @ role @ lit ''` is not supported'')))"

definition chat_tool :: "json \<Rightarrow> tool_definition option" where
  "chat_tool tool = Option.bind (get_field (lit ''function'') tool) (\<lambda>function.
     map_option (\<lambda>name.
       \<lparr>td_name = name, td_description = or_default (string_field function (lit ''description'')),
        td_parameters = (case get_field (lit ''parameters'') function of Some v \<Rightarrow> v | None \<Rightarrow> JObject [(lit ''type'', jstr ''object'')]),
        td_strict = (case as_bool (get_field (lit ''strict'') function) of Some b \<Rightarrow> b | None \<Rightarrow> False)\<rparr>)
      (string_field function (lit ''name'')))"

definition chat_tool_choice :: "json option \<Rightarrow> tool_choice" where
  "chat_tool_choice choice =
     (case choice of
        Some (JString c) \<Rightarrow> if c = lit ''none'' then ChoiceNone else if c = lit ''required'' then ChoiceRequired else ChoiceAuto
      | Some (JObject kvs) \<Rightarrow>
          (case Option.bind (map_of kvs (lit ''function'')) (\<lambda>f. string_field f (lit ''name'')) of
             Some n \<Rightarrow> ChoiceNamed n | None \<Rightarrow> ChoiceAuto)
      | _ \<Rightarrow> ChoiceAuto)"

definition stop_sequences :: "json option \<Rightarrow> ustring list" where
  "stop_sequences v = (case v of Some (JString stop) \<Rightarrow> [stop] | Some (JArray stops) \<Rightarrow> strings_of stops | _ \<Rightarrow> [])"

text \<open>\<open>reasoning_effort\<close> or \<open>reasoning.effort\<close>.\<close>

definition effort_request :: "ustring option \<Rightarrow> reasoning_request" where
  "effort_request effort =
     \<lparr>rr_disabled = (effort = Some (lit ''none'')), rr_effort_asked = (if effort = Some (lit ''none'') then None else effort)\<rparr>"

definition chat_parse_request :: "wire_env \<Rightarrow> json \<Rightarrow> gateway_error + canonical_request" where
  "chat_parse_request env v =
     and_then (object_of v (lit ''a Chat request'')) (\<lambda>body.
      let model = or_default (string_field v (lit ''model'')) in
      if trim model = [] then Inl (MalformedRequest (lit ''a Chat request must name a model''))
      else case as_array (get_field (lit ''messages'') v) of
        None \<Rightarrow> Inl (MalformedRequest (lit ''a Chat request must carry messages''))
      | Some raw \<Rightarrow> and_then (collect_results (chat_message env) raw) (\<lambda>read.
          Inr \<lparr>cr_model = model, cr_system = concat (map fst read), cr_messages = concat (map snd read),
            cr_tools = (case as_array (get_field (lit ''tools'') v) of Some tools \<Rightarrow> List.map_filter chat_tool tools | None \<Rightarrow> []),
            cr_tool_choice = chat_tool_choice (get_field (lit ''tool_choice'') v),
            cr_parallel_tool_calls = as_bool (get_field (lit ''parallel_tool_calls'') v),
            cr_sampling = \<lparr>sp_temperature = number_field env v (lit ''temperature''), sp_top_p = number_field env v (lit ''top_p''),
              sp_max_tokens = (case uint_field v (lit ''max_completion_tokens'') of Some n \<Rightarrow> Some n | None \<Rightarrow> uint_field v (lit ''max_tokens'')),
              sp_stop = stop_sequences (get_field (lit ''stop'') v)\<rparr>,
            cr_reasoning = effort_request (string_field v (lit ''reasoning_effort'')),
            cr_stream = (case as_bool (get_field (lit ''stream'') v) of Some b \<Rightarrow> b | None \<Rightarrow> False),
            cr_opaque = []\<rparr>))"

fun image_url :: "image_source \<Rightarrow> gateway_error + ustring" where
  "image_url (Base64 media_type content) = Inr (data_url media_type content)"
| "image_url (Url url) = Inr url"
| "image_url (VendorFileId _) = Inl UnsupportedImageReference"

fun chat_item :: "content_part \<Rightarrow> gateway_error + json list" where
  "chat_item (Text text) = Inr [JObject [(lit ''type'', jstr ''text''), (lit ''text'', JString text)]]"
| "chat_item (Image source) = and_then (image_url source) (\<lambda>url.
     Inr [JObject [(lit ''type'', jstr ''image_url''), (lit ''image_url'', JObject [(lit ''url'', JString url)])]])"
| "chat_item (Reasoning _ _) = Inr []"
| "chat_item (Opaque _ _) = Inr []"
| "chat_item _ = Inl (MalformedRequest (lit ''Chat message content cannot hold a tool block''))"

definition content_value :: "content_part list \<Rightarrow> gateway_error + json option" where
  "content_value parts =
     (if list_all (\<lambda>p. case p of Text _ \<Rightarrow> True | _ \<Rightarrow> False) parts
      then Inr (let text = text_of_parts parts in if text = [] then None else Some (JString text))
      else and_then (collect_results chat_item parts) (\<lambda>lists. Inr (Some (JArray (concat lists)))))"

definition is_tool_result :: "content_part \<Rightarrow> bool" where
  "is_tool_result p = (case p of ToolResult _ _ _ \<Rightarrow> True | _ \<Rightarrow> False)"

fun chat_result :: "content_part \<Rightarrow> gateway_error + json list" where
  "chat_result (ToolResult i content _) = and_then (content_value content) (\<lambda>v.
     Inr [JObject [(lit ''role'', jstr ''tool''), (lit ''tool_call_id'', JString i),
       (lit ''content'', case v of Some w \<Rightarrow> w | None \<Rightarrow> JString [])]])"
| "chat_result _ = Inr []"

definition chat_user_messages :: "content_part list \<Rightarrow> gateway_error + json list" where
  "chat_user_messages parts =
     and_then (collect_results chat_result parts) (\<lambda>results.
      let rest = filter (\<lambda>p. \<not> is_tool_result p) parts in
      if rest = [] then Inr (concat results)
      else and_then (content_value rest) (\<lambda>v.
        Inr (concat results @ [JObject [(lit ''role'', jstr ''user''), (lit ''content'', or_null v)]])))"

definition chat_call_value :: "wire_env \<Rightarrow> ustring \<Rightarrow> ustring \<Rightarrow> json \<Rightarrow> json" where
  "chat_call_value env i name arguments =
     JObject [(lit ''id'', JString i), (lit ''type'', jstr ''function''),
       (lit ''function'', JObject [(lit ''name'', JString name), (lit ''arguments'', JString (we_print env arguments))])]"

definition chat_calls :: "wire_env \<Rightarrow> content_part list \<Rightarrow> json list" where
  "chat_calls env parts = List.map_filter (\<lambda>p. case p of ToolCall i n v \<Rightarrow> Some (chat_call_value env i n v) | _ \<Rightarrow> None) parts"

definition chat_assistant_messages :: "wire_env \<Rightarrow> content_part list \<Rightarrow> json list" where
  "chat_assistant_messages env parts =
     (let reasoning = reasoning_of_parts parts; text = text_of_parts parts; calls = chat_calls env parts in
      if text = [] \<and> calls = [] \<and> reasoning = [] then []
      else [JObject ([(lit ''role'', jstr ''assistant'')]
        @ (if text = [] then [] else [(lit ''content'', JString text)])
        @ (if reasoning = [] then [] else [(lit ''reasoning_content'', JString reasoning)])
        @ (if calls = [] then [] else [(lit ''tool_calls'', JArray calls)]))])"

definition chat_message_values :: "wire_env \<Rightarrow> canonical_message \<Rightarrow> gateway_error + json list" where
  "chat_message_values env m =
     (case cm_role m of User \<Rightarrow> chat_user_messages (cm_parts m) | Assistant \<Rightarrow> Inr (chat_assistant_messages env (cm_parts m)))"

definition chat_messages :: "wire_env \<Rightarrow> canonical_request \<Rightarrow> gateway_error + json list" where
  "chat_messages env r =
     and_then (if cr_system r = [] then Inr []
        else and_then (content_value (cr_system r)) (\<lambda>v. Inr [JObject [(lit ''role'', jstr ''system''), (lit ''content'', or_null v)]]))
      (\<lambda>system. and_then (collect_results (chat_message_values env) (cr_messages r)) (\<lambda>lists. Inr (system @ concat lists)))"

definition chat_tool_value :: "tool_definition \<Rightarrow> json" where
  "chat_tool_value t = JObject [(lit ''type'', jstr ''function''),
     (lit ''function'', JObject [(lit ''name'', JString (td_name t)), (lit ''description'', JString (td_description t)),
        (lit ''parameters'', td_parameters t), (lit ''strict'', JBool (td_strict t))])]"

definition chat_choice_value :: "tool_choice \<Rightarrow> json" where
  "chat_choice_value c =
     (case c of
        ChoiceAuto \<Rightarrow> jstr ''auto''
      | ChoiceNone \<Rightarrow> jstr ''none''
      | ChoiceRequired \<Rightarrow> jstr ''required''
      | ChoiceNamed n \<Rightarrow> JObject [(lit ''type'', jstr ''function''), (lit ''function'', JObject [(lit ''name'', JString n)])])"

definition chat_tools :: "canonical_request \<Rightarrow> (ustring \<times> json) list" where
  "chat_tools r =
     (if cr_tools r = [] then []
      else [(lit ''tools'', JArray (map chat_tool_value (cr_tools r))), (lit ''tool_choice'', chat_choice_value (cr_tool_choice r))]
        @ opt_field ''parallel_tool_calls'' JBool (cr_parallel_tool_calls r))"

definition chat_sampling :: "wire_env \<Rightarrow> sampling_params \<Rightarrow> (ustring \<times> json) list" where
  "chat_sampling env sp =
     opt_field ''temperature'' (we_from_f64 env) (sp_temperature sp) @ opt_field ''top_p'' (we_from_f64 env) (sp_top_p sp) @
     opt_field ''max_tokens'' jnat (sp_max_tokens sp) @
     (if sp_stop sp = [] then [] else [(lit ''stop'', JArray (map JString (sp_stop sp)))])"

definition chat_build_request :: "wire_env \<Rightarrow> canonical_request \<Rightarrow> gateway_error + json" where
  "chat_build_request env r =
     and_then (chat_messages env r) (\<lambda>messages.
       Inr (JObject ([(lit ''messages'', JArray messages)] @ chat_tools r @ chat_sampling env (cr_sampling r) @
         (case rr_effort_asked (cr_reasoning r) of
            Some effort \<Rightarrow> [(lit ''reasoning_effort'', JString effort)]
          | None \<Rightarrow> if rr_disabled (cr_reasoning r) then [(lit ''reasoning_effort'', jstr ''none'')] else []) @
         [(lit ''stream'', JBool (cr_stream r))] @
         (if cr_stream r then [(lit ''stream_options'', JObject [(lit ''include_usage'', JBool True)])] else []))))"

section \<open>Whole replies\<close>

definition chat_usage :: "json \<Rightarrow> canonical_usage" where
  "chat_usage v =
     \<lparr>cu_input = count_at [lit ''prompt_tokens''] v, cu_output = count_at [lit ''completion_tokens''] v,
      cu_cached_read = count_at [lit ''prompt_tokens_details'', lit ''cached_tokens''] v, cu_cached_write = 0,
      cu_reasoning = count_at [lit ''completion_tokens_details'', lit ''reasoning_tokens''] v\<rparr>"

definition chat_render_response :: "wire_env \<Rightarrow> canonical_response \<Rightarrow> json" where
  "chat_render_response env r =
     (let reasoning = reasoning_of_parts (cp_parts r); calls = chat_calls env (cp_parts r); u = cp_usage r;
          message = [(lit ''role'', jstr ''assistant''), (lit ''content'', JString (text_of_parts (cp_parts r)))]
            @ (if reasoning = [] then [] else [(lit ''reasoning_content'', JString reasoning)])
            @ (if calls = [] then [] else [(lit ''tool_calls'', JArray calls)])
      in JObject [(lit ''id'', JString (cp_id r)), (lit ''object'', jstr ''chat.completion''), (lit ''model'', JString (cp_model r)),
        (lit ''choices'', JArray [JObject [(lit ''index'', jnat 0), (lit ''message'', JObject message),
            (lit ''finish_reason'', JString (stop_chat (cp_stop r)))]]),
        (lit ''usage'', JObject [(lit ''prompt_tokens'', jnat (cu_input u)), (lit ''completion_tokens'', jnat (cu_output u)),
            (lit ''total_tokens'', jnat (sat_add_u64 (cu_input u) (cu_output u))),
            (lit ''prompt_tokens_details'', JObject [(lit ''cached_tokens'', jnat (cu_cached_read u))]),
            (lit ''completion_tokens_details'', JObject [(lit ''reasoning_tokens'', jnat (cu_reasoning u))])])])"

definition chat_parse_response :: "wire_env \<Rightarrow> json \<Rightarrow> gateway_error + canonical_response" where
  "chat_parse_response env v =
     (case pointer [lit ''choices'', lit ''0''] v of
        None \<Rightarrow> Inl (UpstreamError 502 (lit ''the upstream reply carried no choice''))
      | Some choice \<Rightarrow>
          and_then (chat_assistant_parts env (or_null (get_field (lit ''message'') choice))) (\<lambda>parts.
            Inr \<lparr>cp_id = or_default (string_field v (lit ''id'')), cp_model = or_default (string_field v (lit ''model'')), cp_parts = parts,
              cp_stop = (case string_field choice (lit ''finish_reason'') of Some s \<Rightarrow> from_chat s | None \<Rightarrow> EndTurn),
              cp_usage = (case not_null (get_field (lit ''usage'') v) of Some u \<Rightarrow> chat_usage u | None \<Rightarrow> usage_default)\<rparr>))"

section \<open>The decoder\<close>

record chat_decoder =
  cd_tool :: tool_call_accumulator
  cd_tool_index :: "nat option"
  cd_usage :: canonical_usage
  cd_started :: bool
  cd_model :: ustring
  cd_ident :: ustring
  cd_finished :: bool

definition chat_decoder_default :: chat_decoder where
  "chat_decoder_default = \<lparr>cd_tool = tool_default, cd_tool_index = None, cd_usage = usage_default, cd_started = False,
     cd_model = [], cd_ident = [], cd_finished = False\<rparr>"

text \<open>What is known about the message itself: identity, model, usage, and the first event of all.\<close>

definition chat_head :: "chat_decoder \<Rightarrow> json \<Rightarrow> chat_decoder \<times> canonical_event list" where
  "chat_head d v =
     (let d1 = d\<lparr>cd_ident := (case string_field v (lit ''id'') of Some i \<Rightarrow> i | None \<Rightarrow> cd_ident d),
                 cd_model := (case string_field v (lit ''model'') of Some m \<Rightarrow> m | None \<Rightarrow> cd_model d)\<rparr>;
          (d2, usage) = (case not_null (get_field (lit ''usage'') v) of
             Some u \<Rightarrow> (let merged = usage_merge (cd_usage d1) (chat_usage u) in (d1\<lparr>cd_usage := merged\<rparr>, [EvUsage merged]))
           | None \<Rightarrow> (d1, []))
      in if cd_started d2 then (d2, usage)
         else (d2\<lparr>cd_started := True\<rparr>, EvStart (cd_ident d2) (cd_model d2) usage_default # usage))"

definition close_chat_tool :: "wire_env \<Rightarrow> chat_decoder \<Rightarrow> chat_decoder \<times> canonical_event list" where
  "close_chat_tool env d =
     (if tool_is_empty (cd_tool d) then (d, [])
      else (d\<lparr>cd_tool := tool_default\<rparr>, [EvToolCallEnd (ta_id (cd_tool d)) (tool_arguments env (cd_tool d))]))"

definition chat_call_delta :: "wire_env \<Rightarrow> chat_decoder \<Rightarrow> json \<Rightarrow> chat_decoder \<times> canonical_event list" where
  "chat_call_delta env d call =
     (let index = uint_field call (lit ''index''); function = or_null (get_field (lit ''function'') call);
          (d1, started) =
            (if index \<noteq> None \<and> index \<noteq> cd_tool_index d then
               (let (d0, ended) = close_chat_tool env d;
                    i = or_default (string_field call (lit ''id'')); name = or_default (string_field function (lit ''name''))
                in (d0\<lparr>cd_tool_index := index, cd_tool := tool_start i name (cd_tool d0)\<rparr>, ended @ [EvToolCallStart i name]))
             else
               (d\<lparr>cd_tool := tool_start (or_default (string_field call (lit ''id''))) (or_default (string_field function (lit ''name''))) (cd_tool d)\<rparr>, []))
      in case string_field function (lit ''arguments'') of
           Some arguments \<Rightarrow>
             (if arguments = [] then (d1, started)
              else (d1\<lparr>cd_tool := push_arguments arguments (cd_tool d1)\<rparr>,
                started @ [EvToolCallArgumentsDelta (ta_id (cd_tool d1)) arguments]))
         | None \<Rightarrow> (d1, started))"

definition delta_text :: "json \<Rightarrow> string \<Rightarrow> (ustring \<Rightarrow> canonical_event) \<Rightarrow> canonical_event list" where
  "delta_text delta key ev = (case string_field delta (lit key) of Some t \<Rightarrow> if t = [] then [] else [ev t] | None \<Rightarrow> [])"

definition chat_choice :: "wire_env \<Rightarrow> chat_decoder \<Rightarrow> json \<Rightarrow> chat_decoder \<times> canonical_event list" where
  "chat_choice env d choice =
     (let delta = or_null (get_field (lit ''delta'') choice);
          (d1, calls) = (case as_array (get_field (lit ''tool_calls'') delta) of
             Some cs \<Rightarrow> run_items (chat_call_delta env) d cs | None \<Rightarrow> (d, []));
          (d2, stops) = (case string_field choice (lit ''finish_reason'') of
             Some reason \<Rightarrow>
               (if cd_finished d1 then (d1, [])
                else let (d0, ended) = close_chat_tool env d1 in (d0\<lparr>cd_finished := True\<rparr>, ended @ [EvStop (from_chat reason)]))
           | None \<Rightarrow> (d1, []))
      in (d2, delta_text delta ''reasoning_content'' EvReasoningDelta @ delta_text delta ''content'' EvTextDelta @ calls @ stops))"

definition chat_decode :: "wire_env \<Rightarrow> chat_decoder value_decoder" where
  "chat_decode env d payload v =
     (let (d1, head) = chat_head d v in
      case as_array (get_field (lit ''choices'') v) of
        None \<Rightarrow> (d1, head)
      | Some choices \<Rightarrow> (let (d2, evs) = run_items (chat_choice env) d1 choices in (d2, head @ evs)))"

definition chat_decode_data :: "wire_env \<Rightarrow> chat_decoder \<Rightarrow> ustring \<Rightarrow> gateway_error + chat_decoder \<times> canonical_event list" where
  "chat_decode_data env d payload =
     (if trim payload = DONE then Inr (d, []) else decode_data env (lit ''a Chat'') (chat_decode env) d payload)"

definition chat_decode_finish :: "wire_env \<Rightarrow> chat_decoder \<Rightarrow> canonical_event list" where
  "chat_decode_finish env d =
     (let ended = snd (close_chat_tool env d)
      in ended @ (if cd_finished d then [] else [EvStop (if ended = [] then EndTurn else ToolUse)]))"

section \<open>The encoder\<close>

record chat_encoder =
  ce_model :: ustring
  ce_id :: ustring
  ce_role_sent :: bool
  ce_usage :: canonical_usage

definition chat_encoder_new :: "ustring \<Rightarrow> chat_encoder" where
  "chat_encoder_new model = \<lparr>ce_model = model, ce_id = [], ce_role_sent = False, ce_usage = usage_default\<rparr>"

definition chat_chunk :: "chat_encoder \<Rightarrow> json \<Rightarrow> ustring option \<Rightarrow> wire_frame" where
  "chat_chunk e delta finish =
     (None, JObject [(lit ''id'', JString (ce_id e)), (lit ''object'', jstr ''chat.completion.chunk''), (lit ''model'', JString (ce_model e)),
        (lit ''choices'', JArray [JObject [(lit ''index'', jnat 0), (lit ''delta'', delta),
           (lit ''finish_reason'', case finish of Some f \<Rightarrow> JString f | None \<Rightarrow> JNull)]])])"

fun chat_encode :: "chat_encoder frame_encoder" where
  "chat_encode e (EvStart i model _) =
     (let e1 = e\<lparr>ce_id := i, ce_model := (if model = [] then ce_model e else model), ce_role_sent := True\<rparr>
      in (e1, [chat_chunk e1 (JObject [(lit ''role'', jstr ''assistant''), (lit ''content'', JString [])]) None]))"
| "chat_encode e (EvTextDelta text) = (e, [chat_chunk e (JObject [(lit ''content'', JString text)]) None])"
| "chat_encode e EvReasoningStart = (e, [])"
| "chat_encode e (EvReasoningDelta text) = (e, [chat_chunk e (JObject [(lit ''reasoning_content'', JString text)]) None])"
| "chat_encode e (EvReasoningSignature _) = (e, [])"
| "chat_encode e (EvToolCallStart i name) =
     (e, [chat_chunk e (JObject [(lit ''tool_calls'', JArray [JObject [(lit ''index'', jnat 0), (lit ''id'', JString i), (lit ''type'', jstr ''function''),
        (lit ''function'', JObject [(lit ''name'', JString name), (lit ''arguments'', JString [])])]])]) None])"
| "chat_encode e (EvToolCallArgumentsDelta _ fragment) =
     (e, [chat_chunk e (JObject [(lit ''tool_calls'', JArray [JObject [(lit ''index'', jnat 0),
        (lit ''function'', JObject [(lit ''arguments'', JString fragment)])]])]) None])"
| "chat_encode e (EvToolCallEnd _ _) = (e, [])"
| "chat_encode e (EvUsage u) =
     (let e1 = e\<lparr>ce_usage := u\<rparr> in
      if \<not> ce_role_sent e then (e1, [])
      else (e1, [(None, JObject [(lit ''id'', JString (ce_id e)), (lit ''object'', jstr ''chat.completion.chunk''), (lit ''model'', JString (ce_model e)),
        (lit ''choices'', JArray []),
        (lit ''usage'', JObject [(lit ''prompt_tokens'', jnat (cu_input u)), (lit ''completion_tokens'', jnat (cu_output u)),
          (lit ''total_tokens'', jnat (sat_add_u64 (cu_input u) (cu_output u)))])])]))"
| "chat_encode e (EvStop r) = (e, [chat_chunk e (JObject []) (Some (stop_chat r))])"
| "chat_encode e (EvError _ message) =
     (e, [(None, JObject [(lit ''error'', JObject [(lit ''message'', JString message), (lit ''type'', jstr ''upstream_error'')])])])"

definition chat_finish_text :: ustring where
  "chat_finish_text = lit ''data: [DONE]'' @ [10, 10]"

definition chat_keepalive :: ustring where
  "chat_keepalive = lit '': keepalive'' @ [10, 10]"

section \<open>The stream law\<close>

definition chat_holds :: "chat_decoder \<Rightarrow> reply_accumulator \<Rightarrow> accumulated_tool_call \<Rightarrow> bool" where
  "chat_holds d a t \<longleftrightarrow> ra_current_tool a = Some t \<and> ra_tool_calls a = [] \<and> cd_tool d = tool_of t \<and> at_id t \<noteq> [] \<and> cd_tool_index d = Some 0"

definition chat_sim :: "wire_env \<Rightarrow> chat_decoder \<Rightarrow> chat_encoder \<Rightarrow> reply_accumulator \<Rightarrow> reply_accumulator \<Rightarrow> bool" where
  "chat_sim env d e a b \<longleftrightarrow>
     ra_text a = ra_text b \<and> ra_reasoning a = ra_reasoning b \<and>
     ra_stop a = map_option (from_chat \<circ> stop_chat) (ra_stop b) \<and> cd_finished d = (ra_stop b \<noteq> None) \<and>
     (case ra_current_tool b of
        Some t \<Rightarrow> chat_holds d a t \<and> ra_tool_calls b = [] \<and> ra_stop b = None
      | None \<Rightarrow>
          ra_current_tool a = None \<and> ra_tool_calls a = ra_tool_calls b \<and> cd_tool d = tool_default \<and>
            (ra_tool_calls b = [] \<and> ra_stop b = None \<longrightarrow> cd_tool_index d = None) \<and> (ra_stop b = None \<longrightarrow> ra_tool_calls b = []) \<or>
          ra_stop b = None \<and> (\<exists>t. chat_holds d a t \<and> ra_tool_calls b = [call_closed env t]))"

text \<open>What every chunk tells first changes nothing of the reply that the law compares.\<close>

lemma chat_head_quiet:
  assumes "chat_head d v = (d', evs)"
  shows "cd_tool d' = cd_tool d" "cd_tool_index d' = cd_tool_index d" "cd_finished d' = cd_finished d"
    "ra_text (replay env a evs) = ra_text a" "ra_reasoning (replay env a evs) = ra_reasoning a"
    "ra_tool_calls (replay env a evs) = ra_tool_calls a" "ra_current_tool (replay env a evs) = ra_current_tool a"
    "ra_stop (replay env a evs) = ra_stop a"
  using assms by (auto simp: chat_head_def Let_def split: option.splits if_splits prod.splits)

lemma chat_sim_head:
  "chat_head d v = (d', evs) \<Longrightarrow> chat_sim env d e a b \<Longrightarrow> chat_sim env d' e1 (replay env a evs) b"
  using chat_head_quiet(1-3) [of d v d' evs] chat_head_quiet(4-8) [of d v d' evs, where env = env and a = a] unfolding chat_sim_def chat_holds_def
  by (cases "ra_current_tool b") simp_all

lemma chat_sim_same [simp]:
  "chat_sim env d e a (b\<lparr>ra_usage := u\<rparr>) = chat_sim env d e a b" "chat_sim env d e a (b\<lparr>ra_open_reasoning := q\<rparr>) = chat_sim env d e a b"
  "chat_sim env d e a (b\<lparr>ra_id := i\<rparr>) = chat_sim env d e a b" "chat_sim env d e a (b\<lparr>ra_model := i\<rparr>) = chat_sim env d e a b"
  by (cases "ra_current_tool b"; simp add: chat_sim_def)+

lemma chat_sim_encoder [simp]: "chat_sim env d (e\<lparr>ce_usage := u\<rparr>) a b = chat_sim env d e a b"
  by (simp add: chat_sim_def)

lemma decode_chunk:
  assumes "chat_head d (snd (chat_chunk e delta finish)) = (d1, head)"
    and "chat_choice env d1 (JObject [(lit ''index'', jnat 0), (lit ''delta'', delta),
           (lit ''finish_reason'', case finish of Some f \<Rightarrow> JString f | None \<Rightarrow> JNull)]) = (d2, evs)"
  shows "chat_decode env d p (snd (chat_chunk e delta finish)) = (d2, head @ evs)"
  using assms by (simp add: chat_decode_def chat_chunk_def)

text \<open>One chunk, in terms of its delta.\<close>

lemma chat_chunk_step:
  assumes sim: "chat_sim env d e a b" and out: "decode_values env (chat_decode env) d [chat_chunk e0 delta finish] = (d', evs)"
    and choice: "\<And>d1 a1 d2 out2. chat_sim env d1 e' a1 b \<Longrightarrow>
       chat_choice env d1 (JObject [(lit ''index'', jnat 0), (lit ''delta'', delta),
         (lit ''finish_reason'', case finish of Some f \<Rightarrow> JString f | None \<Rightarrow> JNull)]) = (d2, out2) \<Longrightarrow>
       chat_sim env d2 e' (replay env a1 out2) b'"
  shows "chat_sim env d' e' (replay env a evs) b'"
proof -
  obtain d1 head where h: "chat_head d (snd (chat_chunk e0 delta finish)) = (d1, head)" by fastforce
  obtain d2 out2 where c: "chat_choice env d1 (JObject [(lit ''index'', jnat 0), (lit ''delta'', delta),
      (lit ''finish_reason'', case finish of Some f \<Rightarrow> JString f | None \<Rightarrow> JNull)]) = (d2, out2)" by fastforce
  have "d' = d2" "evs = head @ out2"
    using out decode_chunk [OF h c] by (auto simp: decode_values_Cons)
  then show ?thesis using choice [OF chat_sim_head [OF h sim] c] by simp
qed

lemmas chat_chunk_simps = chat_choice_def string_field_def delta_text_def Let_def

lemma chat_call_start:
  assumes "ra_current_tool b = None" "ra_tool_calls b = []" "ra_stop b = None" "i \<noteq> []" and sim: "chat_sim env d e a b"
    and "chat_choice env d (JObject [(lit ''index'', jnat 0), (lit ''delta'', JObject [(lit ''tool_calls'', JArray [JObject [(lit ''index'', jnat 0), (lit ''id'', JString i), (lit ''type'', jstr ''function''),
        (lit ''function'', JObject [(lit ''name'', JString n), (lit ''arguments'', JString [])])]])]), (lit ''finish_reason'', JNull)]) = (d', evs)"
  shows "chat_sim env d' e (replay env a evs) (accumulator_apply (we_print env) b (EvToolCallStart i n))"
proof -
  have d: "ra_current_tool a = None" "ra_tool_calls a = []" "cd_tool d = tool_default" "cd_tool_index d = None" "\<not> cd_finished d"
    using sim assms(1-3) by (auto simp: chat_sim_def)
  have "d' = d\<lparr>cd_tool_index := Some 0, cd_tool := tool_start i n tool_default\<rparr>" "evs = [EvToolCallStart i n]"
    using assms(6) d by (auto simp: chat_chunk_simps chat_call_delta_def uint_field_def close_chat_tool_def tool_is_empty_def tool_default_def)
  then show ?thesis
    using sim d assms by (simp add: chat_sim_def chat_holds_def tool_of_def tool_start_def tool_default_def)
qed

lemma chat_call_fragment:
  assumes t: "ra_current_tool b = Some t" and sim: "chat_sim env d e a b"
    and "chat_choice env d (JObject [(lit ''index'', jnat 0), (lit ''delta'', JObject [(lit ''tool_calls'', JArray [JObject [(lit ''index'', jnat 0),
        (lit ''function'', JObject [(lit ''arguments'', JString f)])]])]), (lit ''finish_reason'', JNull)]) = (d', evs)"
  shows "chat_sim env d' e (replay env a evs) (accumulator_apply (we_print env) b (EvToolCallArgumentsDelta i f))"
proof -
  have d: "ra_current_tool a = Some t" "cd_tool d = tool_of t" "cd_tool_index d = Some 0" using sim t by (auto simp: chat_sim_def chat_holds_def)
  have "d' = d\<lparr>cd_tool := push_arguments f (tool_of t)\<rparr> \<and> evs = (if f = [] then [] else [EvToolCallArgumentsDelta (at_id t) f])"
    using assms(3) d by (auto simp: chat_chunk_simps chat_call_delta_def uint_field_def tool_start_def push_arguments_def tool_of_def)
  then show ?thesis
    using sim d t by (auto simp: chat_sim_def chat_holds_def push_arguments_def tool_of_def)
qed

lemma chat_stop:
  assumes "ra_current_tool b = None" "ra_stop b = None" and sim: "chat_sim env d e a b"
    and "chat_choice env d (JObject [(lit ''index'', jnat 0), (lit ''delta'', JObject []), (lit ''finish_reason'', JString (stop_chat r))]) = (d', evs)"
  shows "chat_sim env d' e (replay env a evs) (accumulator_apply (we_print env) b (EvStop r))"
proof (cases "cd_tool d = tool_default")
  case True
  then have "evs = [EvStop (from_chat (stop_chat r))]" "d' = d\<lparr>cd_finished := True\<rparr>"
    using sim assms by (auto simp: chat_chunk_simps chat_sim_def close_chat_tool_def tool_is_empty_def tool_default_def)
  moreover have "ra_current_tool a = None" "ra_tool_calls a = ra_tool_calls b"
    using sim True assms(1,2) by (auto simp: chat_sim_def chat_holds_def tool_of_def tool_default_def)
  ultimately show ?thesis using sim True assms(1,2) by (simp add: chat_sim_def)
next
  case False
  then obtain t where t: "chat_holds d a t" "ra_tool_calls b = [call_closed env t]" using sim assms(1,2) by (auto simp: chat_sim_def)
  then have "evs = [EvToolCallEnd (at_id t) (fragments_value env (at_arguments t)), EvStop (from_chat (stop_chat r))]"
      "d' = d\<lparr>cd_tool := tool_default, cd_finished := True\<rparr>"
    using sim assms tool_arguments_of [of env t]
    by (auto simp: chat_chunk_simps chat_sim_def chat_holds_def close_chat_tool_def tool_is_empty_def tool_of_def)
  then show ?thesis using sim t assms(1,2) by (simp add: chat_sim_def chat_holds_def Let_def call_closed_def)
qed

lemma chat_step:
  assumes sim: "chat_sim env d e a b" and ord: "single_call env num b ev" and enc: "chat_encode e ev = (e', fs)"
    and out: "decode_values env (chat_decode env) d fs = (d', evs)"
  shows "chat_sim env d' e' (replay env a evs) (accumulator_apply (we_print env) b ev)"
proof (cases ev)
  case (EvStart i m u)
  then have fs: "fs = [chat_chunk e' (JObject [(lit ''role'', jstr ''assistant''), (lit ''content'', JString [])]) None]"
    using enc by (auto simp: Let_def)
  show ?thesis
    by (rule chat_chunk_step [OF sim out [unfolded fs]]) (auto simp: EvStart chat_chunk_simps)
next
  case (EvTextDelta t)
  then have fs: "fs = [chat_chunk e (JObject [(lit ''content'', JString t)]) None]" using enc by auto
  show ?thesis
    by (rule chat_chunk_step [OF sim out [unfolded fs]])
      (use EvTextDelta ord in \<open>auto simp: chat_chunk_simps chat_sim_def chat_holds_def\<close>)
next
  case (EvReasoningDelta t)
  then have fs: "fs = [chat_chunk e (JObject [(lit ''reasoning_content'', JString t)]) None]" using enc by auto
  show ?thesis
    by (rule chat_chunk_step [OF sim out [unfolded fs]])
      (use EvReasoningDelta ord in \<open>auto simp: chat_chunk_simps chat_sim_def chat_holds_def\<close>)
next
  case (EvToolCallStart i n)
  show ?thesis
    by (rule chat_chunk_step [OF sim, where ?e0.0 = e and ?e' = e'])
      (use EvToolCallStart ord enc out chat_call_start in auto)
next
  case (EvToolCallArgumentsDelta i f)
  show ?thesis
    by (rule chat_chunk_step [OF sim, where ?e0.0 = e and ?e' = e'])
      (use EvToolCallArgumentsDelta ord enc out chat_call_fragment in auto)
next
  case (EvToolCallEnd i v)
  then obtain t where t: "ra_current_tool b = Some t" "i = at_id t" "v = fragments_value env (at_arguments t)" using ord by auto
  have "chat_holds d a t" "ra_tool_calls b = []" "ra_stop b = None" "i \<noteq> []" using sim t by (simp_all add: chat_sim_def chat_holds_def)
  moreover have "accumulator_apply (we_print env) b ev = b\<lparr>ra_current_tool := None, ra_tool_calls := ra_tool_calls b @ [call_closed env t]\<rparr>"
    using EvToolCallEnd t by (simp add: call_closed_def Let_def)
  moreover have "d' = d" "evs = []" using enc out EvToolCallEnd by auto
  ultimately show ?thesis using sim by (simp add: chat_sim_def) blast
next
  case (EvUsage u)
  then show ?thesis using assms chat_sim_head [OF _ sim] by (auto simp: chat_decode_def Let_def split: if_splits prod.splits)
next
  case (EvStop r)
  show ?thesis
    by (rule chat_chunk_step [OF sim, where ?e0.0 = e and ?e' = e'])
      (use EvStop ord enc out chat_stop in auto)
next
  case (EvError st m)
  then show ?thesis using assms chat_sim_head [OF _ sim] by (auto simp: chat_decode_def split: prod.splits)
qed (use assms in auto)

lemma chat_frames:
  assumes laws: "json_text_laws env num" and sim: "chat_sim env d e a b" and ord: "single_call env num b ev" and enc: "chat_encode e ev = (e', fs)"
  shows "list_all (frame_ok num) fs"
proof -
  note nums = json_wf_jnat [OF laws]
  have zero: "json_wf num (jnat 0)" using nums by (simp add: U64_MAX_def)
  show ?thesis
    by (cases ev) (use enc ord nums zero in \<open>auto simp: Let_def usage_ok_def frame_ok_def chat_chunk_def sat_add_u64_def split: if_splits\<close>)
qed

interpretation chat: stream_codec_law env num "lit ''a Chat''" "chat_decode env" chat_encode "single_call env num" "chat_sim env"
  for env num
  by unfold_locales (use chat_step chat_frames in blast)+

lemma chat_start: "chat_sim env chat_decoder_default (chat_encoder_new model) accumulator_default accumulator_default"
  by (simp add: chat_sim_def chat_decoder_default_def accumulator_default_def)

text \<open>When the stream is over, its reader has seen the whole reply.\<close>

lemma chat_finish_reply:
  assumes "chat_sim env d e a b" and "ra_current_tool b = None"
  shows "ra_text (replay env a (chat_decode_finish env d)) = ra_text b"
    and "ra_reasoning (replay env a (chat_decode_finish env d)) = ra_reasoning b"
    and "ra_tool_calls (replay env a (chat_decode_finish env d)) = ra_tool_calls b"
    and "ra_stop (replay env a (chat_decode_finish env d)) =
      Some (case ra_stop b of Some r \<Rightarrow> from_chat (stop_chat r) | None \<Rightarrow> if ra_tool_calls b = [] then EndTurn else ToolUse)"
proof -
  have "chat_decode_finish env d = (if cd_finished d then [] else [EvStop EndTurn])" if "cd_tool d = tool_default"
    using that by (simp add: chat_decode_finish_def close_chat_tool_def tool_is_empty_def tool_default_def)
  moreover have "chat_decode_finish env d = [EvToolCallEnd (at_id t) (fragments_value env (at_arguments t))] @ (if cd_finished d then [] else [EvStop ToolUse])"
    if "chat_holds d a t" for t
    using that tool_arguments_of [of env t]
    by (simp add: chat_decode_finish_def close_chat_tool_def tool_is_empty_def chat_holds_def)
  ultimately show "ra_text (replay env a (chat_decode_finish env d)) = ra_text b"
    and "ra_reasoning (replay env a (chat_decode_finish env d)) = ra_reasoning b"
    and "ra_tool_calls (replay env a (chat_decode_finish env d)) = ra_tool_calls b"
    and "ra_stop (replay env a (chat_decode_finish env d)) =
      Some (case ra_stop b of Some r \<Rightarrow> from_chat (stop_chat r) | None \<Rightarrow> if ra_tool_calls b = [] then EndTurn else ToolUse)"
    using assms by (auto simp: chat_sim_def chat_holds_def Let_def call_closed_def)
qed

section \<open>Round trips of requests and replies\<close>

text \<open>What a Chat peer hears of a list of parts: reasoning first, then the text as one, then the calls.\<close>

definition chat_heard_parts :: "content_part list \<Rightarrow> content_part list" where
  "chat_heard_parts parts =
     (if reasoning_of_parts parts = [] then [] else [Reasoning (reasoning_of_parts parts) None]) @
     (if text_of_parts parts = [] then [] else [Text (text_of_parts parts)]) @ filter is_call parts"

lemma chat_calls_back:
  assumes "json_text_laws env num" and "list_all (call_arguments_ok num) parts"
  shows "map (chat_call env) (chat_calls env parts) = filter is_call parts"
  using assms(2)
proof (induction parts)
  case (Cons p parts)
  then show ?case
    by (cases p) (simp_all add: chat_calls_def map_filter_simps chat_call_def chat_call_value_def string_field_def arguments_value_def
        parse_or_string_def json_text_lawsD [OF assms(1)])
qed (simp add: chat_calls_def map_filter_simps)

lemma chat_calls_empty: "chat_calls env parts = [] \<longleftrightarrow> filter is_call parts = []"
proof (induction parts)
  case (Cons p parts)
  then show ?case by (cases p) (simp_all add: chat_calls_def map_filter_simps)
qed (simp add: chat_calls_def map_filter_simps)

text \<open>A whole reply is heard complete; an empty text is heard as a text.\<close>

lemma chat_reply_back:
  assumes laws: "json_text_laws env num" and calls: "list_all (call_arguments_ok num) (cp_parts r)" and u: "usage_ok (cp_usage r)"
  shows "chat_parse_response env (chat_render_response env r) =
    Inr (r\<lparr>cp_parts := (if reasoning_of_parts (cp_parts r) = [] then [] else [Reasoning (reasoning_of_parts (cp_parts r)) None]) @
        Text (text_of_parts (cp_parts r)) # filter is_call (cp_parts r),
      cp_stop := from_chat (stop_chat (cp_stop r)), cp_usage := (cp_usage r)\<lparr>cu_cached_write := 0\<rparr>\<rparr>)"
proof -
  have "chat_usage (JObject [(lit ''prompt_tokens'', jnat (cu_input u)), (lit ''completion_tokens'', jnat (cu_output u)),
            (lit ''total_tokens'', jnat n),
            (lit ''prompt_tokens_details'', JObject [(lit ''cached_tokens'', jnat (cu_cached_read u))]),
            (lit ''completion_tokens_details'', JObject [(lit ''reasoning_tokens'', jnat (cu_reasoning u))])]) = u\<lparr>cu_cached_write := 0\<rparr>"
    if "usage_ok u" for u n
    using that by (cases u) (simp add: chat_usage_def count_at_def usage_ok_def)
  moreover have "array_index (lit ''0'') = Some 0" by code_simp
  ultimately show ?thesis
    using u chat_calls_back [OF laws calls] chat_calls_empty [of env "cp_parts r"]
    by (simp add: chat_parse_response_def chat_render_response_def Let_def chat_assistant_parts_def string_field_def not_null_def and_then_def)
qed

text \<open>Content a Chat message can carry: an image by its data or by a URL that is not itself data.\<close>

fun chat_source_ok :: "image_source \<Rightarrow> bool" where
  "chat_source_ok (Base64 m d) = (59 \<notin> set m)"
| "chat_source_ok (Url u) = (strip_prefix (lit ''data:'') u = None)"
| "chat_source_ok (VendorFileId _) = False"

fun chat_part_ok :: "content_part \<Rightarrow> bool" where
  "chat_part_ok (Image s) = chat_source_ok s"
| "chat_part_ok (ToolCall _ _ _) = False"
| "chat_part_ok (ToolResult _ _ _) = False"
| "chat_part_ok _ = True"

fun is_said :: "content_part \<Rightarrow> bool" where
  "is_said (Text _) = True"
| "is_said (Image _) = True"
| "is_said _ = False"

abbreviation all_text :: "content_part list \<Rightarrow> bool" where
  "all_text parts \<equiv> list_all (\<lambda>p. case p of Text _ \<Rightarrow> True | _ \<Rightarrow> False) parts"

definition chat_heard_content :: "content_part list \<Rightarrow> content_part list" where
  "chat_heard_content parts =
     (if all_text parts then if text_of_parts parts = [] then [] else [Text (text_of_parts parts)] else filter is_said parts)"

definition chat_heard_result :: "content_part list \<Rightarrow> content_part list" where
  "chat_heard_result parts = (if all_text parts then [Text (text_of_parts parts)] else filter is_said parts)"

lemma chat_items_back:
  "list_all chat_part_ok parts \<Longrightarrow>
     \<exists>js. collect_results chat_item parts = Inr js \<and> collect_results chat_part (concat js) = Inr (filter is_said parts)"
proof (induction parts)
  case (Cons p parts)
  then obtain js where js: "collect_results chat_item parts = Inr js" "collect_results chat_part (concat js) = Inr (filter is_said parts)" by auto
  have "\<exists>xs. chat_item p = Inr xs \<and> collect_results chat_part xs = Inr (filter is_said [p])"
  proof (cases p)
    case (Image src)
    with Cons.prems show ?thesis
      by (cases src) (auto simp: chat_part_def string_field_def Let_def image_source_data_url image_source_plain_url)
  qed (use Cons.prems in \<open>auto simp: chat_part_def string_field_def Let_def\<close>)
  then obtain xs where "chat_item p = Inr xs" "collect_results chat_part xs = Inr (filter is_said [p])" by blast
  with js show ?case by (intro exI [of _ "xs # js"]) (simp add: collect_results_append split: if_splits)
qed simp

lemma chat_content_back:
  assumes "list_all chat_part_ok parts"
  shows "\<exists>v. content_value parts = Inr v \<and> parts_from_content (Some (or_null v)) = Inr (chat_heard_content parts) \<and>
    parts_from_content (Some (case v of Some w \<Rightarrow> w | None \<Rightarrow> JString [])) = Inr (chat_heard_result parts)"
  using chat_items_back [OF assms]
  by (auto simp: content_value_def chat_heard_content_def chat_heard_result_def Let_def and_then_def)

fun chat_result_ok :: "content_part \<Rightarrow> bool" where
  "chat_result_ok (ToolResult _ content _) = list_all chat_part_ok content"
| "chat_result_ok _ = True"

definition chat_message_ok :: "(ustring \<Rightarrow> bool) \<Rightarrow> canonical_message \<Rightarrow> bool" where
  "chat_message_ok num m \<longleftrightarrow>
     (case cm_role m of
        User \<Rightarrow> list_all chat_result_ok (cm_parts m) \<and> list_all chat_part_ok (filter (\<lambda>p. \<not> is_tool_result p) (cm_parts m))
      | Assistant \<Rightarrow> list_all (call_arguments_ok num) (cm_parts m))"

fun chat_heard_results :: "content_part \<Rightarrow> canonical_message list" where
  "chat_heard_results (ToolResult i content _) = [\<lparr>cm_role = User, cm_parts = [ToolResult i (chat_heard_result content) False]\<rparr>]"
| "chat_heard_results _ = []"

definition chat_heard_message :: "canonical_message \<Rightarrow> canonical_message list" where
  "chat_heard_message m =
     (case cm_role m of
        User \<Rightarrow> concat (map chat_heard_results (cm_parts m)) @
          (let rest = filter (\<lambda>p. \<not> is_tool_result p) (cm_parts m)
           in if rest = [] then [] else [\<lparr>cm_role = User, cm_parts = chat_heard_content rest\<rparr>])
      | Assistant \<Rightarrow> if chat_heard_parts (cm_parts m) = [] then [] else [\<lparr>cm_role = Assistant, cm_parts = chat_heard_parts (cm_parts m)\<rparr>])"

abbreviation chat_reads :: "wire_env \<Rightarrow> json list \<Rightarrow> canonical_message list \<Rightarrow> bool" where
  "chat_reads env js ms \<equiv> collect_results (chat_message env) js = Inr (map (\<lambda>m. ([], [m])) ms)"

lemma chat_results_back:
  "list_all chat_result_ok parts \<Longrightarrow>
     \<exists>js. collect_results chat_result parts = Inr js \<and> chat_reads env (concat js) (concat (map chat_heard_results parts))"
proof (induction parts)
  case (Cons p parts)
  then obtain js where js: "collect_results chat_result parts = Inr js" "chat_reads env (concat js) (concat (map chat_heard_results parts))" by auto
  have "\<exists>xs. chat_result p = Inr xs \<and> chat_reads env xs (chat_heard_results p)"
  proof (cases p)
    case (ToolResult i content err)
    with Cons.prems obtain v where "content_value content = Inr v"
      "parts_from_content (Some (case v of Some w \<Rightarrow> w | None \<Rightarrow> JString [])) = Inr (chat_heard_result content)"
      using chat_content_back [of content] by auto
    with ToolResult show ?thesis by (simp add: chat_message_def string_field_def Let_def)
  qed simp_all
  then obtain xs where "chat_result p = Inr xs" "chat_reads env xs (chat_heard_results p)" by blast
  with js show ?case by (intro exI [of _ "xs # js"]) (simp add: collect_results_append)
qed simp

lemma chat_assistant_back:
  assumes "json_text_laws env num" and "list_all (call_arguments_ok num) parts"
  shows "chat_reads env (chat_assistant_messages env parts)
    (if chat_heard_parts parts = [] then [] else [\<lparr>cm_role = Assistant, cm_parts = chat_heard_parts parts\<rparr>])"
proof -
  define said reasoning calls where "said = text_of_parts parts" and "reasoning = reasoning_of_parts parts" and "calls = chat_calls env parts"
  define kvs where "kvs = [(lit ''role'', jstr ''assistant'')]
        @ (if said = [] then [] else [(lit ''content'', JString said)])
        @ (if reasoning = [] then [] else [(lit ''reasoning_content'', JString reasoning)])
        @ (if calls = [] then [] else [(lit ''tool_calls'', JArray calls)])"
  have calls: "map (chat_call env) calls = filter is_call parts" "calls = [] \<longleftrightarrow> filter is_call parts = []"
    using chat_calls_back [OF assms] chat_calls_empty [of env parts] by (simp_all add: calls_def)
  have get: "map_of kvs (lit ''role'') = Some (jstr ''assistant'')" "map_of kvs (lit ''content'') = (if said = [] then None else Some (JString said))"
    "map_of kvs (lit ''reasoning_content'') = (if reasoning = [] then None else Some (JString reasoning))"
    "map_of kvs (lit ''tool_calls'') = (if calls = [] then None else Some (JArray calls))"
    by (simp_all add: kvs_def)
  have heard: "chat_heard_parts parts = (if reasoning = [] then [] else [Reasoning reasoning None]) @
      (if said = [] then [] else [Text said]) @ map (chat_call env) calls"
    by (simp only: chat_heard_parts_def said_def reasoning_def calls(1))
  have "chat_assistant_parts env (JObject kvs) = Inr (chat_heard_parts parts)"
    unfolding heard by (simp add: chat_assistant_parts_def string_field_def get)
  then have "chat_message env (JObject kvs) = Inr ([], [\<lparr>cm_role = Assistant, cm_parts = chat_heard_parts parts\<rparr>])"
    by (simp add: chat_message_def string_field_def get Let_def)
  moreover have "chat_assistant_messages env parts = (if chat_heard_parts parts = [] then [] else [JObject kvs])"
    unfolding heard chat_assistant_messages_def Let_def said_def [symmetric] reasoning_def [symmetric] calls_def [symmetric] kvs_def by auto
  ultimately show ?thesis by simp
qed

lemma chat_message_back:
  assumes "json_text_laws env num" and "chat_message_ok num m"
  shows "\<exists>js. chat_message_values env m = Inr js \<and> chat_reads env js (chat_heard_message m)"
proof (cases "cm_role m")
  case User
  define rest where "rest = filter (\<lambda>p. \<not> is_tool_result p) (cm_parts m)"
  obtain js where js: "collect_results chat_result (cm_parts m) = Inr js" "chat_reads env (concat js) (concat (map chat_heard_results (cm_parts m)))"
    using chat_results_back assms(2) User by (auto simp: chat_message_ok_def)
  obtain v where v: "content_value rest = Inr v" "parts_from_content (Some (or_null v)) = Inr (chat_heard_content rest)"
    using chat_content_back [of rest] assms(2) User by (auto simp: chat_message_ok_def rest_def)
  show ?thesis
  proof (cases "rest = []")
    case True
    with js User show ?thesis
      by (simp add: chat_message_values_def chat_user_messages_def chat_heard_message_def rest_def [symmetric] Let_def)
  next
    case False
    have "chat_message env (JObject [(lit ''role'', jstr ''user''), (lit ''content'', or_null v)]) = Inr ([], [\<lparr>cm_role = User, cm_parts = chat_heard_content rest\<rparr>])"
      using v(2) by (simp add: chat_message_def string_field_def Let_def)
    with False js User v(1) show ?thesis
      by (simp add: chat_message_values_def chat_user_messages_def chat_heard_message_def rest_def [symmetric] Let_def collect_results_append)
  qed
next
  case Assistant
  then show ?thesis
    using chat_assistant_back [OF assms(1)] assms(2) by (simp add: chat_message_values_def chat_heard_message_def chat_message_ok_def)
qed

lemma chat_messages_back:
  assumes "json_text_laws env num" and "list_all (chat_message_ok num) ms"
  shows "\<exists>js. collect_results (chat_message_values env) ms = Inr js \<and> chat_reads env (concat js) (concat (map chat_heard_message ms))"
  using assms(2)
proof (induction ms)
  case (Cons m ms)
  then obtain js where js: "collect_results (chat_message_values env) ms = Inr js" "chat_reads env (concat js) (concat (map chat_heard_message ms))" by auto
  obtain xs where "chat_message_values env m = Inr xs" "chat_reads env xs (chat_heard_message m)"
    using chat_message_back [OF assms(1)] Cons.prems by auto
  with js show ?case by (intro exI [of _ "xs # js"]) (simp add: collect_results_append)
qed simp

text \<open>What is read of the fields beside the messages.\<close>

lemma chat_tools_back: "List.map_filter chat_tool (map chat_tool_value ts) = ts"
  using map_filter_some [of ts chat_tool chat_tool_value "\<lambda>t. t"] by (simp add: chat_tool_def chat_tool_value_def string_field_def)

lemma chat_choice_back: "chat_tool_choice (Some (chat_choice_value c)) = c"
  by (cases c) (simp_all add: chat_tool_choice_def chat_choice_value_def string_field_def)

definition chat_effort :: "reasoning_request \<Rightarrow> ustring option" where
  "chat_effort rr = (case rr_effort_asked rr of Some effort \<Rightarrow> Some effort | None \<Rightarrow> if rr_disabled rr then Some (lit ''none'') else None)"

definition chat_heard :: "ustring \<Rightarrow> bool \<Rightarrow> canonical_request \<Rightarrow> canonical_request" where
  "chat_heard model stream r =
     r\<lparr>cr_model := model, cr_stream := stream, cr_opaque := [],
       cr_system := (if cr_system r = [] then [] else chat_heard_content (cr_system r)),
       cr_messages := concat (map chat_heard_message (cr_messages r)),
       cr_tool_choice := (if cr_tools r = [] then ChoiceAuto else cr_tool_choice r),
       cr_parallel_tool_calls := (if cr_tools r = [] then None else cr_parallel_tool_calls r),
       cr_reasoning := effort_request (chat_effort (cr_reasoning r))\<rparr>"

definition chat_request_ok :: "wire_env \<Rightarrow> (ustring \<Rightarrow> bool) \<Rightarrow> canonical_request \<Rightarrow> bool" where
  "chat_request_ok env num r \<longleftrightarrow>
     list_all (chat_message_ok num) (cr_messages r) \<and> list_all chat_part_ok (cr_system r) \<and> sampling_ok env (cr_sampling r)"

lemma chat_conversation_back:
  assumes "json_text_laws env num" and "chat_request_ok env num r"
  shows "\<exists>js read. chat_messages env r = Inr js \<and> collect_results (chat_message env) js = Inr read \<and>
    concat (map fst read) = cr_system (chat_heard model stream r) \<and> concat (map snd read) = concat (map chat_heard_message (cr_messages r))"
proof -
  have rest: "concat (map fst (map (\<lambda>m. ([], [m])) ms)) = ([] :: content_part list)" "concat (map snd (map (\<lambda>m. ([] :: content_part list, [m])) ms)) = ms" for ms :: "canonical_message list"
    by (induction ms) simp_all
  obtain js where js: "collect_results (chat_message_values env) (cr_messages r) = Inr js" "chat_reads env (concat js) (concat (map chat_heard_message (cr_messages r)))"
    using chat_messages_back [OF assms(1)] assms(2) by (auto simp: chat_request_ok_def)
  obtain v where v: "content_value (cr_system r) = Inr v" "parts_from_content (Some (or_null v)) = Inr (chat_heard_content (cr_system r))"
    using chat_content_back assms(2) by (auto simp: chat_request_ok_def)
  show ?thesis
  proof (cases "cr_system r = []")
    case True
    with js rest show ?thesis by (auto simp: chat_messages_def chat_heard_def simp del: map_map)
  next
    case False
    let ?s = "JObject [(lit ''role'', jstr ''system''), (lit ''content'', or_null v)]"
    have "chat_messages env r = Inr (?s # concat js)" using False js(1) v(1) by (simp add: chat_messages_def)
    moreover have "chat_message env ?s = Inr (chat_heard_content (cr_system r), [])"
      using v(2) by (simp add: chat_message_def string_field_def Let_def)
    ultimately show ?thesis
      using js(2) rest [of "concat (map chat_heard_message (cr_messages r))"] False by (auto simp: chat_heard_def simp del: map_map)
  qed
qed

section \<open>Properties\<close>

text \<open>A streamed reply with at most one tool call survives the Chat wire: a client that reads what the
  encoder writes, to the end of the stream, rebuilds the same text, reasoning and call with its
  arguments; the reason to stop is the one told, or, in a stream cut before one, the one a whole reply
  would be given.\<close>
lemma chat_stream_round_trip:
  assumes "json_text_laws env num" and "admitted (single_call env num) env accumulator_default evs"
    and "encode_events chat_encode (chat_encoder_new model) evs = (e', fs)"
    and "ra_current_tool (accumulate (we_print env) evs) = None"
  shows "\<exists>d' out. decode_frames (chat_decode_data env) chat_decoder_default (parse_sse (frames_text env fs)) = Inr (d', out) \<and>
     (let got = accumulate (we_print env) (out @ chat_decode_finish env d'); sent = accumulate (we_print env) evs in
      ra_text got = ra_text sent \<and> ra_reasoning got = ra_reasoning sent \<and> ra_tool_calls got = ra_tool_calls sent \<and>
      ra_stop got = Some (case ra_stop sent of Some r \<Rightarrow> from_chat (stop_chat r)
        | None \<Rightarrow> if ra_tool_calls sent = [] then EndTurn else ToolUse))"
proof -
  have same: "decode_frames (chat_decode_data env) d fs = decode_frames (decode_data env (lit ''a Chat'') (chat_decode env)) d fs" for d fs
    unfolding chat_decode_data_def [abs_def] by (rule decode_frames_done)
  obtain d' out where "decode_frames (chat_decode_data env) chat_decoder_default (parse_sse (frames_text env fs)) = Inr (d', out)"
      "chat_sim env d' e' (replay env accumulator_default out) (replay env accumulator_default evs)"
    using chat.read_back [OF assms(1) chat_start assms(2,3)] unfolding same by blast
  with chat_finish_reply [OF this(2)] assms(4) show ?thesis by (auto simp: accumulate_def Let_def)
qed

lemma chat_stream_round_trip_witness:
  "\<exists>d' out. decode_frames (chat_decode_data sample_wire) chat_decoder_default
       (parse_sse (frames_text sample_wire (snd (encode_events chat_encode (chat_encoder_new []) sample_events)))) = Inr (d', out) \<and>
     ra_text (accumulate (we_print sample_wire) (out @ chat_decode_finish sample_wire d')) = lit ''hello'' \<and>
     length (ra_tool_calls (accumulate (we_print sample_wire) (out @ chat_decode_finish sample_wire d'))) = 1 \<and>
     ra_stop (accumulate (we_print sample_wire) (out @ chat_decode_finish sample_wire d')) = Some ToolUse"
  using chat_stream_round_trip [OF sample_wire_laws sample_single_call(1) surjective_pairing sample_single_call(2), of "[]"] sample_reply
  by (fastforce simp: Let_def from_chat_def)

text \<open>C40: Two tool calls do not survive the Chat wire: the encoder numbers every call 0, so a reader takes
  the second for more of the first. It hears one call, with the id of the second, the name of the first
  and both argument texts run together.\<close>
theorem chat_parallel_calls_merged:
  assumes "i1 \<noteq> []" and "i2 \<noteq> []" and "n2 \<noteq> []" and "trim (f1 @ f2) \<noteq> []"
    and "encode_events chat_encode (chat_encoder_new model)
      [EvToolCallStart i1 n1, EvToolCallArgumentsDelta i1 f1, EvToolCallEnd i1 v1,
       EvToolCallStart i2 n2, EvToolCallArgumentsDelta i2 f2, EvToolCallEnd i2 v2, EvStop ToolUse] = (e', fs)"
  shows "ra_tool_calls (accumulate (we_print env) (snd (decode_values env (chat_decode env) chat_decoder_default fs))) =
    [\<lparr>at_id = i2, at_name = n1, at_arguments = f1 @ f2\<rparr>]"
proof -
  have zero: "uint_field (JObject ((lit ''index'', jnat 0) # kvs)) (lit ''index'') = Some 0" for kvs
    by (simp add: uint_field_def)
  show ?thesis
    using assms
    by (auto simp: chat_encoder_new_def chat_decoder_default_def chat_decode_def chat_chunk_def chat_head_def not_null_def chat_choice_def
        string_field_def delta_text_def Let_def chat_call_delta_def zero close_chat_tool_def tool_is_empty_def tool_default_def tool_start_def
        push_arguments_def accumulate_def accumulator_default_def)
qed

lemma chat_parallel_calls_merged_witness:
  "ra_tool_calls (accumulate (we_print sample_wire) (snd (decode_values sample_wire (chat_decode sample_wire) chat_decoder_default
     (snd (encode_events chat_encode (chat_encoder_new [])
        [EvToolCallStart (lit ''1'') (lit ''read''), EvToolCallArgumentsDelta (lit ''1'') (lit ''x''), EvToolCallEnd (lit ''1'') JNull,
         EvToolCallStart (lit ''2'') (lit ''write''), EvToolCallArgumentsDelta (lit ''2'') (lit ''y''), EvToolCallEnd (lit ''2'') JNull, EvStop ToolUse]))))) =
    [\<lparr>at_id = lit ''2'', at_name = lit ''read'', at_arguments = lit ''x'' @ lit ''y''\<rparr>]"
proof -
  have "trim (lit ''x'' @ lit ''y'') \<noteq> []" by code_simp
  from chat_parallel_calls_merged [OF _ _ _ this surjective_pairing] show ?thesis by simp
qed

text \<open>A call whose arguments come whole, with its end, reaches a Chat reader without them: the gateway itself
  holds the arguments, what it writes leaves them out.\<close>

lemma chat_whole_arguments_lost:
  assumes "i \<noteq> []" and "n \<noteq> []"
    and "encode_events chat_encode (chat_encoder_new model) [EvToolCallStart i n, EvToolCallEnd i v, EvStop ToolUse] = (e', fs)"
  shows "ra_tool_calls (accumulate (we_print env) [EvToolCallStart i n, EvToolCallEnd i v, EvStop ToolUse]) =
      [\<lparr>at_id = i, at_name = n, at_arguments = we_print env v\<rparr>] \<and>
    ra_tool_calls (accumulate (we_print env) (snd (decode_values env (chat_decode env) chat_decoder_default fs))) =
      [\<lparr>at_id = i, at_name = n, at_arguments = we_print env (fragments_value env [])\<rparr>]"
proof -
  have zero: "uint_field (JObject ((lit ''index'', jnat 0) # kvs)) (lit ''index'') = Some 0" for kvs
    by (simp add: uint_field_def)
  have arguments: "tool_arguments env \<lparr>ta_id = x, ta_name = y, ta_fragments = []\<rparr> = fragments_value env []" for x y
    by (simp add: fragments_value_def tool_arguments_def)
  show ?thesis
    using assms
    by (auto simp: chat_encoder_new_def chat_decoder_default_def chat_decode_def chat_chunk_def chat_head_def not_null_def chat_choice_def
        string_field_def delta_text_def Let_def chat_call_delta_def zero close_chat_tool_def tool_is_empty_def tool_default_def tool_start_def
        push_arguments_def accumulate_def accumulator_default_def arguments trim_def trim_where_def)
qed

text \<open>C17: A request survives the Chat wire: the body built for an upstream, with the model and the stream
  flag the gateway decided, is read by the handler of the same protocol as the same tools, choice, sampling
  and effort; a message is heard as Chat can say it: each tool result as a message of its own, text parts as
  one text, and an assistant's reasoning, text and calls in this order.\<close>
theorem chat_request_round_trip:
  assumes laws: "json_text_laws env num" and ok: "chat_request_ok env num r" and "trim model \<noteq> []"
  shows "\<exists>kvs. chat_build_request env r = Inr (JObject kvs) \<and>
    chat_parse_request env (JObject (obj_insert (lit ''stream'') (JBool stream) (obj_insert (lit ''model'') (JString model) kvs))) =
      Inr (chat_heard model stream r)"
proof -
  obtain js read where js: "chat_messages env r = Inr js" "collect_results (chat_message env) js = Inr read"
      "concat (map fst read) = cr_system (chat_heard model stream r)" "concat (map snd read) = concat (map chat_heard_message (cr_messages r))"
    using chat_conversation_back [OF laws ok] by blast
  let ?sp = "cr_sampling r" and ?e = "chat_effort (cr_reasoning r)"
  define kvs where "kvs = [(lit ''messages'', JArray js)] @ chat_tools r @ chat_sampling env ?sp @
         opt_field ''reasoning_effort'' JString ?e @ [(lit ''stream'', JBool (cr_stream r))] @
         (if cr_stream r then [(lit ''stream_options'', JObject [(lit ''include_usage'', JBool True)])] else [])"
  have "chat_build_request env r = Inr (JObject kvs)"
    by (simp add: chat_build_request_def js kvs_def opt_field_def chat_effort_def split: option.split)
  moreover have get: "map_of kvs (lit ''messages'') = Some (JArray js)"
    "map_of kvs (lit ''tools'') = (if cr_tools r = [] then None else Some (JArray (map chat_tool_value (cr_tools r))))"
    "map_of kvs (lit ''tool_choice'') = (if cr_tools r = [] then None else Some (chat_choice_value (cr_tool_choice r)))"
    "map_of kvs (lit ''parallel_tool_calls'') = (if cr_tools r = [] then None else map_option JBool (cr_parallel_tool_calls r))"
    "map_of kvs (lit ''temperature'') = map_option (we_from_f64 env) (sp_temperature ?sp)"
    "map_of kvs (lit ''top_p'') = map_option (we_from_f64 env) (sp_top_p ?sp)"
    "map_of kvs (lit ''max_tokens'') = map_option jnat (sp_max_tokens ?sp)" "map_of kvs (lit ''max_completion_tokens'') = None"
    "map_of kvs (lit ''stop'') = (if sp_stop ?sp = [] then None else Some (JArray (map JString (sp_stop ?sp))))"
    "map_of kvs (lit ''reasoning_effort'') = map_option JString ?e"
    unfolding kvs_def chat_tools_def chat_sampling_def by (cases "cr_tools r = []"; simp add: lookup_fields del: map_of_append)+
  note num = number_back [of env "sp_temperature ?sp"] number_back [of env "sp_top_p ?sp"]
  have max: "as_u64 (map_option jnat (sp_max_tokens ?sp)) = sp_max_tokens ?sp"
    using ok by (cases "sp_max_tokens ?sp") (simp_all add: chat_request_ok_def sampling_ok_def)
  have eff: "as_str (map_option JString ?e) = ?e" and par: "as_bool (map_option JBool p) = p" for p
    by (cases ?e; simp) (cases p; simp)
  have none: "chat_tool_choice None = ChoiceAuto" by (simp add: chat_tool_choice_def)
  have "chat_parse_request env (JObject (obj_insert (lit ''stream'') (JBool stream) (obj_insert (lit ''model'') (JString model) kvs))) =
      Inr (chat_heard model stream r)"
    using assms(3) js(2-4) num max eff par ok none chat_tools_back chat_choice_back
    by (cases r; cases "cr_sampling r")
      (simp add: chat_parse_request_def object_of_def string_field_def uint_field_def number_field_def get stop_sequences_def
        chat_heard_def chat_request_ok_def sampling_ok_def Let_def)
  ultimately show ?thesis by blast
qed

lemma chat_request_round_trip_witness:
  "\<exists>kvs. chat_build_request sample_wire (for_model (lit ''m'')\<lparr>cr_messages := [\<lparr>cm_role = User, cm_parts = [ToolResult (lit ''c'') [Text (lit ''ok'')] False, Text (lit ''go'')]\<rparr>]\<rparr>) = Inr (JObject kvs) \<and>
    chat_parse_request sample_wire (JObject (obj_insert (lit ''stream'') (JBool True) (obj_insert (lit ''model'') (JString (lit ''x'')) kvs))) =
      Inr (chat_heard (lit ''x'') True (for_model (lit ''m'')\<lparr>cr_messages := [\<lparr>cm_role = User, cm_parts = [ToolResult (lit ''c'') [Text (lit ''ok'')] False, Text (lit ''go'')]\<rparr>]\<rparr>))"
  by (rule chat_request_round_trip [OF sample_wire_laws])
    (simp_all add: chat_request_ok_def for_model_def chat_message_ok_def sampling_ok_def is_tool_result_def trim_def trim_where_def lit_def is_whitespace_def)

end
