(* ===== verification/Wire_Responses.thy ===== *)
theory Wire_Responses
  imports Wire_Stream
begin

text \<open>
  The Responses codec, \<open>crates/model-gateway/src/wire/responses.rs\<close>: content, \<open>parse_request\<close>,
  \<open>build_request\<close>, \<open>render_response\<close>, \<open>parse_response\<close>, \<open>ResponsesDecoder\<close> and
  \<open>ResponsesEncoder\<close>. Two argument objects are compared as the library compares objects, whatever
  the order of their keys. The counters of the encoder wrap at their width.
\<close>

abbreviation RESPONSES :: ustring where
  "RESPONSES \<equiv> wire_protocol_id Responses"

section \<open>Requests\<close>

definition responses_part :: "json \<Rightarrow> content_part option" where
  "responses_part item =
     (let kind = or_default (string_field item (lit ''type'')) in
      if kind \<in> {lit ''input_text'', lit ''output_text'', lit ''text''} then Some (Text (or_default (string_field item (lit ''text''))))
      else if kind = lit ''input_image'' then Some (Image (image_source_of (or_default (string_field item (lit ''image_url'')))))
      else if kind = lit ''input_file'' then
        Some (Image (VendorFileId (case string_field item (lit ''file_id'') of Some i \<Rightarrow> i
          | None \<Rightarrow> or_default (string_field item (lit ''file_url'')))))
      else if kind = lit ''refusal'' then Some (Text (or_default (string_field item (lit ''refusal''))))
      else None)"

fun content_parts :: "json option \<Rightarrow> gateway_error + content_part list" where
  "content_parts None = Inr []"
| "content_parts (Some JNull) = Inr []"
| "content_parts (Some (JString text)) = Inr [Text text]"
| "content_parts (Some (JArray vs)) = Inr (List.map_filter responses_part vs)"
| "content_parts (Some _) = Inl (MalformedRequest (lit ''a Responses content value must be a string or an array''))"

fun parse_arguments :: "wire_env \<Rightarrow> json \<Rightarrow> json" where
  "parse_arguments env (JString raw) = parse_or_string env raw"
| "parse_arguments env v = v"

definition responses_call :: "wire_env \<Rightarrow> json \<Rightarrow> content_part" where
  "responses_call env item =
     ToolCall (case string_field item (lit ''call_id'') of Some i \<Rightarrow> i | None \<Rightarrow> or_default (string_field item (lit ''id'')))
       (or_default (string_field item (lit ''name'')))
       (case get_field (lit ''arguments'') item of Some v \<Rightarrow> parse_arguments env v | None \<Rightarrow> JObject [])"

definition summary_text :: "json \<Rightarrow> ustring" where
  "summary_text item = or_default (as_str (pointer [lit ''summary'', lit ''0'', lit ''text''] item))"

text \<open>The messages read so far, and the reasoning that waits for the assistant's next message.\<close>

type_synonym responses_read = "canonical_message list \<times> content_part list"

definition push_call :: "content_part \<Rightarrow> canonical_message list \<Rightarrow> canonical_message list" where
  "push_call call ms =
     (if ms \<noteq> [] \<and> cm_role (last ms) = Assistant
      then butlast ms @ [(last ms)\<lparr>cm_parts := cm_parts (last ms) @ [call]\<rparr>]
      else ms @ [\<lparr>cm_role = Assistant, cm_parts = [call]\<rparr>])"

definition responses_item :: "wire_env \<Rightarrow> bool \<Rightarrow> responses_read \<Rightarrow> json \<Rightarrow> gateway_error + responses_read" where
  "responses_item env encrypted st item =
     (let (ms, pending) = st; kind = (case string_field item (lit ''type'') of Some k \<Rightarrow> k | None \<Rightarrow> lit ''message'') in
      if kind = lit ''message'' then
        and_then (content_parts (get_field (lit ''content'') item)) (\<lambda>parts.
          if string_field item (lit ''role'') = Some (lit ''assistant'')
          then Inr (ms @ [\<lparr>cm_role = Assistant, cm_parts = pending @ parts\<rparr>], [])
          else Inr (ms @ [\<lparr>cm_role = User, cm_parts = parts\<rparr>], pending))
      else if kind = lit ''function_call'' then Inr (push_call (responses_call env item) ms, pending)
      else if kind = lit ''function_call_output'' then
        and_then (content_parts (get_field (lit ''output'') item)) (\<lambda>parts.
          Inr (ms @ [\<lparr>cm_role = User, cm_parts = [ToolResult (or_default (string_field item (lit ''call_id''))) parts False]\<rparr>], pending))
      else if kind = lit ''reasoning'' then
        Inr (ms, if encrypted then pending @ [Opaque RESPONSES item]
                 else if summary_text item = [] then pending else pending @ [Reasoning (summary_text item) None])
      else Inr (ms, pending))"

fun responses_items :: "wire_env \<Rightarrow> bool \<Rightarrow> responses_read \<Rightarrow> json list \<Rightarrow> gateway_error + responses_read" where
  "responses_items env encrypted st [] = Inr st"
| "responses_items env encrypted st (item # rest) =
     (case responses_item env encrypted st item of Inl e \<Rightarrow> Inl e | Inr st1 \<Rightarrow> responses_items env encrypted st1 rest)"

definition wants_encrypted :: "json \<Rightarrow> bool" where
  "wants_encrypted v \<longleftrightarrow> (case as_array (get_field (lit ''include'') v) of
     Some vs \<Rightarrow> list_ex (\<lambda>x. as_str (Some x) = Some (lit ''reasoning.encrypted_content'')) vs | None \<Rightarrow> False)"

definition responses_messages :: "wire_env \<Rightarrow> json \<Rightarrow> gateway_error + canonical_message list" where
  "responses_messages env v =
     (case get_field (lit ''input'') v of
        Some (JString s) \<Rightarrow> Inr [\<lparr>cm_role = User, cm_parts = [Text s]\<rparr>]
      | Some (JArray vs) \<Rightarrow> and_then (responses_items env (wants_encrypted v) ([], []) vs) (\<lambda>(ms, pending). Inr ms)
      | _ \<Rightarrow> Inr [])"

definition responses_tool :: "json \<Rightarrow> tool_definition option" where
  "responses_tool tool =
     (if string_field tool (lit ''type'') \<noteq> Some (lit ''function'') then None
      else map_option (\<lambda>name.
       \<lparr>td_name = name, td_description = or_default (string_field tool (lit ''description'')),
        td_parameters = (case get_field (lit ''parameters'') tool of Some v \<Rightarrow> v | None \<Rightarrow> JObject [(lit ''type'', jstr ''object'')]),
        td_strict = (case as_bool (get_field (lit ''strict'') tool) of Some b \<Rightarrow> b | None \<Rightarrow> False)\<rparr>)
      (string_field tool (lit ''name'')))"

definition responses_tool_choice :: "json option \<Rightarrow> tool_choice" where
  "responses_tool_choice choice =
     (case choice of
        Some (JString c) \<Rightarrow> if c = lit ''none'' then ChoiceNone else if c = lit ''required'' then ChoiceRequired else ChoiceAuto
      | Some (JObject kvs) \<Rightarrow> (case string_field (JObject kvs) (lit ''name'') of Some n \<Rightarrow> ChoiceNamed n | None \<Rightarrow> ChoiceAuto)
      | _ \<Rightarrow> ChoiceAuto)"

definition responses_reasoning :: "json \<Rightarrow> reasoning_request" where
  "responses_reasoning v =
     (let effort = string_field (or_null (get_field (lit ''reasoning'') v)) (lit ''effort'')
      in \<lparr>rr_disabled = (effort = Some (lit ''none'')), rr_effort_asked = (if effort = Some (lit ''none'') then None else effort)\<rparr>)"

definition responses_parse_request :: "wire_env \<Rightarrow> json \<Rightarrow> gateway_error + canonical_request" where
  "responses_parse_request env v =
     and_then (object_of v (lit ''a Responses request'')) (\<lambda>body.
      let model = or_default (string_field v (lit ''model'')) in
      if trim model = [] then Inl (MalformedRequest (lit ''a Responses request must name a model''))
      else and_then (case get_field (lit ''instructions'') v of Some i \<Rightarrow> content_parts (Some i) | None \<Rightarrow> Inr []) (\<lambda>system.
        and_then (responses_messages env v) (\<lambda>messages.
          Inr \<lparr>cr_model = model, cr_system = system, cr_messages = messages,
            cr_tools = (case as_array (get_field (lit ''tools'') v) of Some tools \<Rightarrow> List.map_filter responses_tool tools | None \<Rightarrow> []),
            cr_tool_choice = responses_tool_choice (get_field (lit ''tool_choice'') v),
            cr_parallel_tool_calls = as_bool (get_field (lit ''parallel_tool_calls'') v),
            cr_sampling = \<lparr>sp_temperature = number_field env v (lit ''temperature''), sp_top_p = number_field env v (lit ''top_p''),
              sp_max_tokens = uint_field v (lit ''max_output_tokens''), sp_stop = []\<rparr>,
            cr_reasoning = responses_reasoning v,
            cr_stream = (case as_bool (get_field (lit ''stream'') v) of Some b \<Rightarrow> b | None \<Rightarrow> False),
            cr_opaque = (case get_field (lit ''include'') v of Some i \<Rightarrow> [i] | None \<Rightarrow> [])\<rparr>)))"

fun responses_image :: "image_source \<Rightarrow> json" where
  "responses_image (VendorFileId i) = JObject [(lit ''type'', jstr ''input_file''), (lit ''file_id'', JString i)]"
| "responses_image (Base64 media_type content) =
     JObject [(lit ''type'', jstr ''input_image''), (lit ''image_url'', JString (data_url media_type content))]"
| "responses_image (Url url) = JObject [(lit ''type'', jstr ''input_image''), (lit ''image_url'', JString url)]"

fun input_item_part :: "content_part \<Rightarrow> json option" where
  "input_item_part (Text text) = Some (JObject [(lit ''type'', jstr ''input_text''), (lit ''text'', JString text)])"
| "input_item_part (Image source) = Some (responses_image source)"
| "input_item_part _ = None"

definition tool_result_item :: "ustring \<Rightarrow> content_part list \<Rightarrow> json" where
  "tool_result_item call_id content =
     JObject [(lit ''type'', jstr ''function_call_output''), (lit ''call_id'', JString call_id), (lit ''output'', JString (text_of_parts content))]"

fun responses_result :: "content_part \<Rightarrow> json option" where
  "responses_result (ToolResult i content _) = Some (tool_result_item i content)"
| "responses_result _ = None"

definition responses_user_items :: "content_part list \<Rightarrow> json list" where
  "responses_user_items parts =
     (let said = List.map_filter input_item_part parts
      in List.map_filter responses_result parts @
         (if said = [] then []
          else [JObject [(lit ''type'', jstr ''message''), (lit ''role'', jstr ''user''), (lit ''content'', JArray said)]]))"

fun responses_assistant_item :: "wire_env \<Rightarrow> content_part \<Rightarrow> json option" where
  "responses_assistant_item env (Text text) =
     (if text = [] then None
      else Some (JObject [(lit ''type'', jstr ''message''), (lit ''role'', jstr ''assistant''),
        (lit ''content'', JArray [JObject [(lit ''type'', jstr ''output_text''), (lit ''text'', JString text)]])]))"
| "responses_assistant_item env (Reasoning text _) =
     (if text = [] then None
      else Some (JObject [(lit ''type'', jstr ''reasoning''),
        (lit ''summary'', JArray [JObject [(lit ''type'', jstr ''summary_text''), (lit ''text'', JString text)]])]))"
| "responses_assistant_item env (Opaque protocol payload) = (if protocol = RESPONSES then Some payload else None)"
| "responses_assistant_item env (ToolCall i name arguments) =
     Some (JObject [(lit ''type'', jstr ''function_call''), (lit ''call_id'', JString i), (lit ''name'', JString name),
       (lit ''arguments'', JString (we_print env arguments))])"
| "responses_assistant_item env _ = None"

definition responses_message_items :: "wire_env \<Rightarrow> canonical_message \<Rightarrow> json list" where
  "responses_message_items env m =
     (case cm_role m of
        User \<Rightarrow> responses_user_items (cm_parts m)
      | Assistant \<Rightarrow> List.map_filter (responses_assistant_item env) (cm_parts m))"

text \<open>\<open>join\<close> with a blank line.\<close>

fun join_with :: "ustring \<Rightarrow> ustring list \<Rightarrow> ustring" where
  "join_with sep [] = []"
| "join_with sep [x] = x"
| "join_with sep (x # y # xs) = x @ sep @ join_with sep (y # xs)"

definition responses_system :: "content_part list \<Rightarrow> (ustring \<times> json) list" where
  "responses_system system =
     (let s = join_with [10, 10] (List.map_filter (\<lambda>p. case p of Text t \<Rightarrow> if t = [] then None else Some t | _ \<Rightarrow> None) system)
      in if s = [] then [] else [(lit ''instructions'', JString s)])"

definition responses_tool_value :: "tool_definition \<Rightarrow> json" where
  "responses_tool_value t = JObject [(lit ''type'', jstr ''function''), (lit ''name'', JString (td_name t)),
     (lit ''description'', JString (td_description t)), (lit ''parameters'', td_parameters t), (lit ''strict'', JBool (td_strict t))]"

definition responses_choice_value :: "tool_choice \<Rightarrow> json" where
  "responses_choice_value c =
     (case c of
        ChoiceAuto \<Rightarrow> jstr ''auto''
      | ChoiceNone \<Rightarrow> jstr ''none''
      | ChoiceRequired \<Rightarrow> jstr ''required''
      | ChoiceNamed n \<Rightarrow> JObject [(lit ''type'', jstr ''function''), (lit ''name'', JString n)])"

definition responses_tools :: "canonical_request \<Rightarrow> (ustring \<times> json) list" where
  "responses_tools r =
     (if cr_tools r = [] then []
      else [(lit ''tools'', JArray (map responses_tool_value (cr_tools r))), (lit ''tool_choice'', responses_choice_value (cr_tool_choice r))]
        @ opt_field ''parallel_tool_calls'' JBool (cr_parallel_tool_calls r))"

definition responses_build_request :: "wire_env \<Rightarrow> canonical_request \<Rightarrow> gateway_error + json" where
  "responses_build_request env r =
     (let sampling = cr_sampling r in
      Inr (JObject (responses_system (cr_system r) @
        [(lit ''input'', JArray (concat (map (responses_message_items env) (cr_messages r))))] @ responses_tools r @
        opt_field ''temperature'' (we_from_f64 env) (sp_temperature sampling) @ opt_field ''top_p'' (we_from_f64 env) (sp_top_p sampling) @
        opt_field ''max_output_tokens'' jnat (sp_max_tokens sampling) @
        opt_field ''reasoning'' (\<lambda>effort. JObject [(lit ''effort'', JString effort)]) (rr_effort_asked (cr_reasoning r)) @
        [(lit ''stream'', JBool (cr_stream r))] @
        (case cr_opaque r of [] \<Rightarrow> [] | i # _ \<Rightarrow> [(lit ''include'', i)]))))"

section \<open>Whole replies\<close>

definition responses_usage :: "json \<Rightarrow> canonical_usage" where
  "responses_usage v =
     \<lparr>cu_input = count_at [lit ''input_tokens''] v, cu_output = count_at [lit ''output_tokens''] v,
      cu_cached_read = count_at [lit ''input_tokens_details'', lit ''cached_tokens''] v, cu_cached_write = 0,
      cu_reasoning = count_at [lit ''output_tokens_details'', lit ''reasoning_tokens''] v\<rparr>"

definition responses_usage_value :: "canonical_usage \<Rightarrow> json" where
  "responses_usage_value u =
     JObject [(lit ''input_tokens'', jnat (cu_input u)), (lit ''output_tokens'', jnat (cu_output u)), (lit ''total_tokens'', jnat (usage_total u)),
       (lit ''input_tokens_details'', JObject [(lit ''cached_tokens'', jnat (cu_cached_read u))]),
       (lit ''output_tokens_details'', JObject [(lit ''reasoning_tokens'', jnat (cu_reasoning u))])]"

definition function_call_item :: "wire_env \<Rightarrow> ustring \<Rightarrow> ustring \<Rightarrow> json \<Rightarrow> json" where
  "function_call_item env i name arguments =
     JObject [(lit ''type'', jstr ''function_call''), (lit ''id'', JString i), (lit ''call_id'', JString i), (lit ''name'', JString name),
       (lit ''arguments'', JString (we_print env arguments)), (lit ''status'', jstr ''completed'')]"

definition jint :: "int \<Rightarrow> json" where
  "jint i = JNumber (if i < 0 then lit ''-'' @ dec_string (nat (- i)) else dec_string (nat i))"

definition responses_render_response :: "wire_env \<Rightarrow> canonical_response \<Rightarrow> json" where
  "responses_render_response env r =
     (let text = text_of_parts (cp_parts r);
          message = JObject [(lit ''type'', jstr ''message''), (lit ''id'', jstr ''msg_0''), (lit ''role'', jstr ''assistant''),
            (lit ''status'', jstr ''completed''),
            (lit ''content'', JArray [JObject [(lit ''type'', jstr ''output_text''), (lit ''text'', JString text), (lit ''annotations'', JArray [])]])];
          calls = List.map_filter (\<lambda>p. case p of ToolCall i n v \<Rightarrow> Some (function_call_item env i n v) | _ \<Rightarrow> None) (cp_parts r)
      in JObject [(lit ''id'', JString (cp_id r)), (lit ''object'', jstr ''response''), (lit ''created_at'', jint (we_now_seconds env)),
        (lit ''status'', jstr ''completed''), (lit ''model'', JString (cp_model r)),
        (lit ''output'', JArray ((if text = [] then [] else [message]) @ calls)), (lit ''usage'', responses_usage_value (cp_usage r))])"

definition responses_output :: "wire_env \<Rightarrow> json \<Rightarrow> gateway_error + content_part list" where
  "responses_output env item =
     (let kind = or_default (string_field item (lit ''type'')) in
      if kind = lit ''message'' then content_parts (get_field (lit ''content'') item)
      else if kind = lit ''reasoning'' then Inr (if summary_text item = [] then [] else [Reasoning (summary_text item) None])
      else if kind = lit ''function_call'' then Inr [responses_call env item]
      else Inr [])"

definition responses_parse_response :: "wire_env \<Rightarrow> json \<Rightarrow> gateway_error + canonical_response" where
  "responses_parse_response env v =
     and_then (case as_array (get_field (lit ''output'') v) of Some vs \<Rightarrow> collect_results (responses_output env) vs | None \<Rightarrow> Inr []) (\<lambda>lists.
       Inr \<lparr>cp_id = or_default (string_field v (lit ''id'')), cp_model = or_default (string_field v (lit ''model'')), cp_parts = concat lists,
         cp_stop = (if string_field v (lit ''status'') = Some (lit ''incomplete'') then MaxTokens else EndTurn),
         cp_usage = (case not_null (get_field (lit ''usage'') v) of Some u \<Rightarrow> responses_usage u | None \<Rightarrow> usage_default)\<rparr>)"

section \<open>The decoder\<close>

text \<open>Equality of values: objects are equal with equal fields in whatever order.\<close>

function (sequential) json_eq :: "json \<Rightarrow> json \<Rightarrow> bool" where
  "json_eq (JArray vs) (JArray ws) = (length vs = length ws \<and> list_all (\<lambda>(v, w). json_eq v w) (zip vs ws))"
| "json_eq (JObject kvs) (JObject kws) =
     (length kvs = length kws \<and> list_all (\<lambda>(k, v). case map_of kws k of Some w \<Rightarrow> json_eq v w | None \<Rightarrow> False) kvs)"
| "json_eq v w = (v = w)"
  by pat_completeness auto
termination
proof (relation "measure (\<lambda>(v, w). size v)", simp)
  fix vs ws :: "json list" and p x y
  assume "p \<in> set (zip vs ws)" and "(x, y) = p"
  then have "x \<in> set vs" by (auto dest: set_zip_leftD)
  then have "size x < size (JArray vs)" by (induction vs) auto
  then show "((x, y), JArray vs, JArray ws) \<in> measure (\<lambda>(v, w). size v)" by simp
next
  fix kvs kws :: "(ustring \<times> json) list" and p k v w
  assume "p \<in> set kvs" and "(k, v) = p"
  then have "size v < size (JObject kvs)" by (induction kvs) auto
  then show "((v, w), JObject kvs, JObject kws) \<in> measure (\<lambda>(v, w). size v)" by simp
qed

record responses_decoder =
  rd_tool :: tool_call_accumulator
  rd_tool_open :: bool
  rd_usage :: canonical_usage
  rd_started :: bool
  rd_id :: ustring
  rd_model :: ustring
  rd_stopped :: bool

definition responses_decoder_default :: responses_decoder where
  "responses_decoder_default = \<lparr>rd_tool = tool_default, rd_tool_open = False, rd_usage = usage_default, rd_started = False,
     rd_id = [], rd_model = [], rd_stopped = False\<rparr>"

text \<open>What an event tells of the response as a whole.\<close>

definition responses_about :: "responses_decoder \<Rightarrow> json \<Rightarrow> responses_decoder \<times> canonical_event list" where
  "responses_about d response =
     (let d1 = d\<lparr>rd_id := (case string_field response (lit ''id'') of Some i \<Rightarrow> i | None \<Rightarrow> rd_id d),
                 rd_model := (case string_field response (lit ''model'') of Some m \<Rightarrow> m | None \<Rightarrow> rd_model d)\<rparr>
      in case not_null (get_field (lit ''usage'') response) of
           Some u \<Rightarrow> (let merged = usage_merge (rd_usage d1) (responses_usage u) in (d1\<lparr>rd_usage := merged\<rparr>, [EvUsage merged]))
         | None \<Rightarrow> (d1, []))"

definition responses_head :: "responses_decoder \<Rightarrow> ustring \<Rightarrow> json \<Rightarrow> responses_decoder \<times> canonical_event list" where
  "responses_head d kind v =
     (let (d1, usage) = (if strip_prefix (lit ''response.'') kind \<noteq> None then
              case get_field (lit ''response'') v of Some response \<Rightarrow> responses_about d response | None \<Rightarrow> (d, [])
            else (d, []))
      in if rd_started d1 then (d1, usage)
         else (d1\<lparr>rd_started := True\<rparr>, EvStart (rd_id d1) (rd_model d1) (rd_usage d1) # usage))"

definition responses_close :: "wire_env \<Rightarrow> responses_decoder \<Rightarrow> responses_decoder \<times> canonical_event list" where
  "responses_close env d =
     (if rd_tool_open d
      then (d\<lparr>rd_tool_open := False, rd_tool := tool_default\<rparr>, [EvToolCallEnd (ta_id (rd_tool d)) (tool_arguments env (rd_tool d))])
      else (d, []))"

definition responses_arguments_done :: "wire_env \<Rightarrow> responses_decoder \<Rightarrow> json \<Rightarrow> responses_decoder" where
  "responses_arguments_done env d v =
     (case string_field v (lit ''arguments'') of
        None \<Rightarrow> d
      | Some arguments \<Rightarrow>
          (if json_eq (tool_arguments env (rd_tool d)) (parse_arguments env (JString arguments)) then d
           else d\<lparr>rd_tool := push_arguments arguments (tool_start (or_default (string_field v (lit ''call_id''))) [] tool_default)\<rparr>))"

definition responses_stop_event :: "responses_decoder \<Rightarrow> json \<Rightarrow> responses_decoder \<times> canonical_event list" where
  "responses_stop_event d v =
     (if rd_stopped d then (d, [])
      else (d\<lparr>rd_stopped := True\<rparr>,
        [EvStop (if as_str (pointer [lit ''response'', lit ''status''] v) = Some (lit ''incomplete'') then MaxTokens else EndTurn)]))"

definition responses_event :: "wire_env \<Rightarrow> responses_decoder \<Rightarrow> ustring \<Rightarrow> json \<Rightarrow> responses_decoder \<times> canonical_event list" where
  "responses_event env d kind v =
     (let delta = string_field v (lit ''delta''); item = or_null (get_field (lit ''item'') v) in
      if kind = lit ''response.output_text.delta'' then
        (d, case delta of Some t \<Rightarrow> [EvTextDelta t] | None \<Rightarrow> [])
      else if kind \<in> {lit ''response.reasoning_summary_text.delta'', lit ''response.reasoning_text.delta''} then
        (d, case delta of Some t \<Rightarrow> [EvReasoningDelta t] | None \<Rightarrow> [])
      else if kind = lit ''response.output_item.added'' then
        (if string_field item (lit ''type'') = Some (lit ''function_call'') then
           (let i = (case string_field item (lit ''call_id'') of Some i \<Rightarrow> i | None \<Rightarrow> or_default (string_field item (lit ''id'')));
                name = or_default (string_field item (lit ''name''))
            in (d\<lparr>rd_tool := tool_start i name (rd_tool d), rd_tool_open := True\<rparr>, [EvToolCallStart i name]))
         else (d, []))
      else if kind = lit ''response.function_call_arguments.delta'' then
        (case delta of
           Some f \<Rightarrow> (d\<lparr>rd_tool := push_arguments f (rd_tool d)\<rparr>, [EvToolCallArgumentsDelta (ta_id (rd_tool d)) f])
         | None \<Rightarrow> (d, []))
      else if kind = lit ''response.function_call_arguments.done'' then (responses_arguments_done env d v, [])
      else if kind = lit ''response.output_item.done'' then
        (if string_field item (lit ''type'') = Some (lit ''function_call'') then responses_close env d else (d, []))
      else if kind \<in> {lit ''response.completed'', lit ''response.incomplete''} then
        responses_stop_event d v
      else if kind \<in> {lit ''response.failed'', lit ''error''} then
        (d, [EvError 502 (case as_str (case pointer [lit ''response'', lit ''error'', lit ''message''] v of
               Some m \<Rightarrow> Some m | None \<Rightarrow> pointer [lit ''error'', lit ''message''] v) of
             Some m \<Rightarrow> m | None \<Rightarrow> lit ''the upstream reported an error'')])
      else (d, []))"

definition responses_decode :: "wire_env \<Rightarrow> responses_decoder value_decoder" where
  "responses_decode env d payload v =
     (let kind = or_default (string_field v (lit ''type''));
          (d1, head) = responses_head d kind v;
          (d2, evs) = responses_event env d1 kind v
      in (d2, head @ evs))"

definition responses_decode_finish :: "wire_env \<Rightarrow> responses_decoder \<Rightarrow> canonical_event list" where
  "responses_decode_finish env d = snd (responses_close env d) @ (if rd_stopped d then [] else [EvStop EndTurn])"

section \<open>The encoder\<close>

record responses_encoder =
  re_model :: ustring
  re_sequence :: nat
  re_id :: ustring
  re_output_index :: nat
  re_tool :: tool_call_accumulator
  re_tool_open :: bool
  re_usage :: canonical_usage
  re_finished :: bool

definition responses_encoder_new :: "ustring \<Rightarrow> responses_encoder" where
  "responses_encoder_new model = \<lparr>re_model = model, re_sequence = 0, re_id = [], re_output_index = 0, re_tool = tool_default,
     re_tool_open = False, re_usage = usage_default, re_finished = False\<rparr>"

definition responses_frame :: "string \<Rightarrow> (ustring \<times> json) list \<Rightarrow> responses_encoder \<Rightarrow> responses_encoder \<times> wire_frame list" where
  "responses_frame event kvs e =
     (e\<lparr>re_sequence := next_counter (re_sequence e)\<rparr>,
      [(Some (lit event), JObject (obj_insert (lit ''sequence_number'') (jnat (re_sequence e)) (obj_insert (lit ''type'') (jstr event) kvs)))])"

text \<open>Two frames, one after the other.\<close>

definition then_frame :: "string \<Rightarrow> (ustring \<times> json) list \<Rightarrow> responses_encoder \<times> wire_frame list \<Rightarrow> responses_encoder \<times> wire_frame list" where
  "then_frame event kvs st = (let (e, fs) = st; (e1, gs) = responses_frame event kvs e in (e1, fs @ gs))"

definition stream_call_item :: "ustring \<Rightarrow> ustring \<Rightarrow> ustring \<Rightarrow> string \<Rightarrow> json" where
  "stream_call_item i name arguments status =
     JObject [(lit ''id'', JString i), (lit ''type'', jstr ''function_call''), (lit ''call_id'', JString i), (lit ''name'', JString name),
       (lit ''arguments'', JString arguments), (lit ''status'', jstr status)]"

fun responses_encode :: "wire_env \<Rightarrow> responses_encoder frame_encoder" where
  "responses_encode env e (EvStart i model _) =
     (let e1 = e\<lparr>re_id := (if i = [] then lit ''resp_'' @ request_fingerprint env i else i), re_model := (if model = [] then re_model e else model)\<rparr>
      in responses_frame ''response.created'' [(lit ''response'', JObject [(lit ''id'', JString (re_id e1)), (lit ''object'', jstr ''response''),
           (lit ''model'', JString (re_model e1)), (lit ''status'', jstr ''in_progress''), (lit ''output'', JArray [])])] e1)"
| "responses_encode env e (EvTextDelta text) =
     then_frame ''response.output_text.delta'' [(lit ''item_id'', jstr ''msg_0''), (lit ''output_index'', jnat (re_output_index e)),
         (lit ''content_index'', jnat 0), (lit ''delta'', JString text)]
       (responses_frame ''response.output_item.added'' [(lit ''output_index'', jnat (re_output_index e)),
         (lit ''item'', JObject [(lit ''id'', jstr ''msg_0''), (lit ''type'', jstr ''message''), (lit ''role'', jstr ''assistant''),
           (lit ''status'', jstr ''in_progress''), (lit ''content'', JArray [])])] e)"
| "responses_encode env e EvReasoningStart =
     responses_frame ''response.output_item.added'' [(lit ''output_index'', jnat (re_output_index e)),
       (lit ''item'', JObject [(lit ''id'', jstr ''rs_0''), (lit ''type'', jstr ''reasoning''), (lit ''summary'', JArray [])])] e"
| "responses_encode env e (EvReasoningDelta text) =
     responses_frame ''response.reasoning_summary_text.delta'' [(lit ''item_id'', jstr ''rs_0''), (lit ''output_index'', jnat (re_output_index e)),
       (lit ''summary_index'', jnat 0), (lit ''delta'', JString text)] e"
| "responses_encode env e (EvReasoningSignature _) = (e, [])"
| "responses_encode env e (EvToolCallStart i name) =
     responses_frame ''response.output_item.added'' [(lit ''output_index'', jnat (re_output_index e)),
       (lit ''item'', stream_call_item i name [] ''in_progress'')] (e\<lparr>re_tool := tool_start i name (re_tool e), re_tool_open := True\<rparr>)"
| "responses_encode env e (EvToolCallArgumentsDelta _ fragment) =
     responses_frame ''response.function_call_arguments.delta'' [(lit ''item_id'', JString (ta_id (re_tool e))),
       (lit ''output_index'', jnat (re_output_index e)), (lit ''delta'', JString fragment)] e"
| "responses_encode env e (EvToolCallEnd i arguments) =
     (let (e1, fs) = then_frame ''response.output_item.done'' [(lit ''output_index'', jnat (re_output_index e)),
           (lit ''item'', stream_call_item i (ta_name (re_tool e)) (we_print env arguments) ''completed'')]
         (responses_frame ''response.function_call_arguments.done'' [(lit ''item_id'', JString i),
           (lit ''output_index'', jnat (re_output_index e)), (lit ''arguments'', JString (we_print env arguments))] (e\<lparr>re_tool_open := False\<rparr>))
      in (e1\<lparr>re_output_index := next_counter (re_output_index e1)\<rparr>, fs))"
| "responses_encode env e (EvUsage u) = (e\<lparr>re_usage := u\<rparr>, [])"
| "responses_encode env e (EvStop r) =
     responses_frame (if r = MaxTokens then ''response.incomplete'' else ''response.completed'')
       [(lit ''response'', JObject [(lit ''id'', JString (re_id e)), (lit ''object'', jstr ''response''), (lit ''model'', JString (re_model e)),
          (lit ''status'', if r = MaxTokens then jstr ''incomplete'' else jstr ''completed''), (lit ''output'', JArray []),
          (lit ''usage'', responses_usage_value (re_usage e))])] (e\<lparr>re_finished := True\<rparr>)"
| "responses_encode env e (EvError _ message) =
     responses_frame ''response.failed'' [(lit ''response'', JObject [(lit ''id'', JString (re_id e)), (lit ''status'', jstr ''failed''),
        (lit ''error'', JObject [(lit ''code'', jstr ''upstream_error''), (lit ''message'', JString message)])])] e"

definition responses_keepalive :: ustring where
  "responses_keepalive = lit ''event: response.in_progress'' @ [10] @ lit ''data: {\"type\":\"response.in_progress\"}'' @ [10, 10]"

section \<open>The stream law\<close>

lemma json_eq_refl: "json_wf num v \<Longrightarrow> json_eq v v"
proof (induction num v rule: json_wf.induct)
  case (3 num kvs)
  then show ?case by (auto simp: list_all_iff)
qed (auto simp: list_all_iff zip_same_conv_map)

fun responses_admits :: "wire_env \<Rightarrow> (ustring \<Rightarrow> bool) \<Rightarrow> reply_accumulator \<Rightarrow> canonical_event \<Rightarrow> bool" where
  "responses_admits env num a (EvStop r) = (orderly env num a (EvStop r) \<and> ra_stop a = None)"
| "responses_admits env num a ev = orderly env num a ev"

definition responses_stop :: "stop_reason \<Rightarrow> stop_reason" where
  "responses_stop r = (if r = MaxTokens then MaxTokens else EndTurn)"

definition responses_core :: "responses_decoder \<Rightarrow> reply_accumulator \<Rightarrow> reply_accumulator \<Rightarrow> bool" where
  "responses_core d a b \<longleftrightarrow>
     ra_text a = ra_text b \<and> ra_reasoning a = ra_reasoning b \<and> ra_tool_calls a = ra_tool_calls b \<and> ra_current_tool a = ra_current_tool b \<and>
     ra_stop a = map_option responses_stop (ra_stop b) \<and> rd_stopped d = (ra_stop b \<noteq> None) \<and>
     (case ra_current_tool b of
        None \<Rightarrow> rd_tool d = tool_default \<and> \<not> rd_tool_open d
      | Some t \<Rightarrow> rd_tool d = tool_of t \<and> at_id t \<noteq> [] \<and> rd_tool_open d)"

definition responses_counts :: "responses_encoder \<Rightarrow> bool" where
  "responses_counts e \<longleftrightarrow> re_sequence e \<le> U64_MAX \<and> re_output_index e \<le> U64_MAX \<and> usage_ok (re_usage e)"

definition responses_sim :: "responses_decoder \<Rightarrow> responses_encoder \<Rightarrow> reply_accumulator \<Rightarrow> reply_accumulator \<Rightarrow> bool" where
  "responses_sim d e a b \<longleftrightarrow> responses_core d a b \<and> responses_counts e"

lemma responses_core_same [simp]:
  "responses_core d a (b\<lparr>ra_usage := u\<rparr>) = responses_core d a b" "responses_core d a (b\<lparr>ra_open_reasoning := q\<rparr>) = responses_core d a b"
  "responses_core d a (b\<lparr>ra_id := i\<rparr>) = responses_core d a b" "responses_core d a (b\<lparr>ra_model := i\<rparr>) = responses_core d a b"
  by (cases "ra_current_tool b"; simp add: responses_core_def)+

lemma responses_about_quiet:
  "responses_about d r = (d', evs) \<Longrightarrow> rd_tool d' = rd_tool d \<and> rd_tool_open d' = rd_tool_open d \<and> rd_stopped d' = rd_stopped d \<and>
    (evs = [] \<or> (\<exists>u. evs = [EvUsage u]))"
  by (auto simp: responses_about_def Let_def split: option.splits)

lemma responses_head_quiet:
  assumes "responses_head d kind v = (d', evs)" and "responses_core d a b"
  shows "responses_core d' (replay env a evs) b"
proof -
  obtain d1 usage where d1: "(if strip_prefix (lit ''response.'') kind \<noteq> None then
              case get_field (lit ''response'') v of Some response \<Rightarrow> responses_about d response | None \<Rightarrow> (d, [])
            else (d, [])) = (d1, usage)" by fastforce
  then have q: "rd_tool d1 = rd_tool d" "rd_tool_open d1 = rd_tool_open d" "rd_stopped d1 = rd_stopped d" "usage = [] \<or> (\<exists>u. usage = [EvUsage u])"
    using responses_about_quiet [of d] by (auto split: if_splits option.splits)
  have "evs = usage \<or> (\<exists>i m u. evs = EvStart i m u # usage)" "rd_tool d' = rd_tool d" "rd_tool_open d' = rd_tool_open d" "rd_stopped d' = rd_stopped d"
    using assms(1) q(1-3) unfolding responses_head_def d1 by (auto simp: Let_def split: if_splits)
  with q(4) have "ra_text (replay env a evs) = ra_text a" "ra_reasoning (replay env a evs) = ra_reasoning a"
    "ra_tool_calls (replay env a evs) = ra_tool_calls a" "ra_current_tool (replay env a evs) = ra_current_tool a" "ra_stop (replay env a evs) = ra_stop a"
    by auto
  then show ?thesis using assms(2) \<open>rd_tool d' = rd_tool d\<close> \<open>rd_tool_open d' = rd_tool_open d\<close> \<open>rd_stopped d' = rd_stopped d\<close>
    by (cases "ra_current_tool b") (simp_all add: responses_core_def)
qed

text \<open>One frame, in terms of the event it carries.\<close>

lemma responses_frame_step:
  assumes core: "responses_core d a b" and "responses_frame event kvs e = (e', fs)"
    and out: "decode_values env (responses_decode env) d fs = (d', evs)"
    and event: "\<And>d1 a1 d2 out2. responses_core d1 a1 b \<Longrightarrow>
       responses_event env d1 (lit event) (JObject (obj_insert (lit ''sequence_number'') (jnat (re_sequence e)) (obj_insert (lit ''type'') (jstr event) kvs))) = (d2, out2) \<Longrightarrow>
       responses_core d2 (replay env a1 out2) b'"
  shows "responses_core d' (replay env a evs) b'"
proof -
  let ?v = "JObject (obj_insert (lit ''sequence_number'') (jnat (re_sequence e)) (obj_insert (lit ''type'') (jstr event) kvs))"
  obtain d1 head where h: "responses_head d (lit event) ?v = (d1, head)" by fastforce
  obtain d2 out2 where o: "responses_event env d1 (lit event) ?v = (d2, out2)" by fastforce
  have "d' = d2" "evs = head @ out2"
    using assms(2) out h o by (auto simp: responses_frame_def responses_decode_def string_field_def)
  with event [OF responses_head_quiet [OF h core] o] show ?thesis by simp
qed

lemma responses_two_frames:
  assumes core: "responses_core d a b" and f: "responses_frame event1 kvs1 e = (e1, fs1)" and "then_frame event2 kvs2 (e1, fs1) = (e', fs)"
    and out: "decode_values env (responses_decode env) d fs = (d', evs)"
    and event1: "\<And>d1 a1 d2 out2. responses_core d1 a1 b \<Longrightarrow>
       responses_event env d1 (lit event1) (JObject (obj_insert (lit ''sequence_number'') (jnat (re_sequence e)) (obj_insert (lit ''type'') (jstr event1) kvs1))) = (d2, out2) \<Longrightarrow>
       responses_core d2 (replay env a1 out2) b"
    and event2: "\<And>d1 a1 d2 out2. responses_core d1 a1 b \<Longrightarrow>
       responses_event env d1 (lit event2) (JObject (obj_insert (lit ''sequence_number'') (jnat (re_sequence e1)) (obj_insert (lit ''type'') (jstr event2) kvs2))) = (d2, out2) \<Longrightarrow>
       responses_core d2 (replay env a1 out2) b'"
  shows "responses_core d' (replay env a evs) b'"
proof -
  obtain e2 fs2 where g: "responses_frame event2 kvs2 e1 = (e2, fs2)" by fastforce
  obtain d1 out1 where o1: "decode_values env (responses_decode env) d fs1 = (d1, out1)" by fastforce
  obtain d2 out2 where o2: "decode_values env (responses_decode env) d1 fs2 = (d2, out2)" by fastforce
  have "d' = d2" "evs = out1 @ out2" using assms(3) g out o1 o2 by (auto simp: then_frame_def decode_values_append)
  moreover have "responses_core d1 (replay env a out1) b" by (rule responses_frame_step [OF core f o1 event1])
  ultimately show ?thesis using responses_frame_step [OF _ g o2 event2] by simp
qed

text \<open>The decoder's branch for each event of the encoder.\<close>

lemma responses_event_kinds:
  "responses_event env d (lit ''response.created'') v = (d, [])"
  "responses_event env d (lit ''response.output_text.delta'') v = (d, case string_field v (lit ''delta'') of Some t \<Rightarrow> [EvTextDelta t] | None \<Rightarrow> [])"
  "responses_event env d (lit ''response.reasoning_summary_text.delta'') v = (d, case string_field v (lit ''delta'') of Some t \<Rightarrow> [EvReasoningDelta t] | None \<Rightarrow> [])"
  "responses_event env d (lit ''response.output_item.added'') v =
     (let item = or_null (get_field (lit ''item'') v) in
      if string_field item (lit ''type'') = Some (lit ''function_call'') then
           (let i = (case string_field item (lit ''call_id'') of Some i \<Rightarrow> i | None \<Rightarrow> or_default (string_field item (lit ''id'')));
                name = or_default (string_field item (lit ''name''))
            in (d\<lparr>rd_tool := tool_start i name (rd_tool d), rd_tool_open := True\<rparr>, [EvToolCallStart i name]))
         else (d, []))"
  "responses_event env d (lit ''response.function_call_arguments.delta'') v =
     (case string_field v (lit ''delta'') of
           Some f \<Rightarrow> (d\<lparr>rd_tool := push_arguments f (rd_tool d)\<rparr>, [EvToolCallArgumentsDelta (ta_id (rd_tool d)) f])
         | None \<Rightarrow> (d, []))"
  "responses_event env d (lit ''response.function_call_arguments.done'') v = (responses_arguments_done env d v, [])"
  "responses_event env d (lit ''response.output_item.done'') v =
     (if string_field (or_null (get_field (lit ''item'') v)) (lit ''type'') = Some (lit ''function_call'') then responses_close env d else (d, []))"
  "responses_event env d (lit ''response.completed'') v = responses_stop_event d v"
  "responses_event env d (lit ''response.incomplete'') v = responses_stop_event d v"
  "responses_event env d (lit ''response.failed'') v = (d, [EvError 502 (case as_str (case pointer [lit ''response'', lit ''error'', lit ''message''] v of
               Some m \<Rightarrow> Some m | None \<Rightarrow> pointer [lit ''error'', lit ''message''] v) of
             Some m \<Rightarrow> m | None \<Rightarrow> lit ''the upstream reported an error'')])"
  by (simp_all add: responses_event_def Let_def)

lemmas responses_event_simps = responses_event_kinds string_field_def Let_def stream_call_item_def

lemma responses_step:
  assumes laws: "json_text_laws env num" and core: "responses_core d a b" and ord: "responses_admits env num b ev"
    and enc: "responses_encode env e ev = (e', fs)" and out: "decode_values env (responses_decode env) d fs = (d', evs)"
  shows "responses_core d' (replay env a evs) (accumulator_apply (we_print env) b ev)"
proof (cases ev)
  case (EvStart i m u)
  show ?thesis
    by (rule responses_frame_step [OF core _ out]) (use EvStart enc in \<open>auto simp: responses_event_simps\<close>)
next
  case (EvTextDelta t)
  obtain e1 fs1 where f: "responses_frame ''response.output_item.added'' [(lit ''output_index'', jnat (re_output_index e)),
         (lit ''item'', JObject [(lit ''id'', jstr ''msg_0''), (lit ''type'', jstr ''message''), (lit ''role'', jstr ''assistant''),
           (lit ''status'', jstr ''in_progress''), (lit ''content'', JArray [])])] e = (e1, fs1)" by fastforce
  show ?thesis
    by (rule responses_two_frames [OF core f _ out])
      (use EvTextDelta enc ord f in \<open>auto simp: responses_event_simps responses_core_def\<close>)
next
  case (EvReasoningDelta t)
  show ?thesis
    by (rule responses_frame_step [OF core _ out])
      (use EvReasoningDelta enc ord in \<open>auto simp: responses_event_simps responses_core_def\<close>)
next
  case EvReasoningStart
  show ?thesis
    by (rule responses_frame_step [OF core _ out]) (use EvReasoningStart enc in \<open>auto simp: responses_event_simps\<close>)
next
  case (EvToolCallStart i n)
  show ?thesis
    by (rule responses_frame_step [OF core _ out])
      (use EvToolCallStart enc ord in \<open>auto simp: responses_event_simps responses_core_def tool_start_def tool_default_def tool_of_def\<close>)
next
  case (EvToolCallArgumentsDelta i f)
  show ?thesis
    by (rule responses_frame_step [OF core _ out])
      (use EvToolCallArgumentsDelta enc ord in \<open>auto simp: responses_event_simps responses_core_def push_arguments_def tool_of_def\<close>)
next
  case (EvToolCallEnd i v)
  then obtain t where t: "ra_current_tool b = Some t" "i = at_id t" "v = fragments_value env (at_arguments t)" "json_wf num v" using ord by auto
  obtain e1 fs1 where f: "responses_frame ''response.function_call_arguments.done'' [(lit ''item_id'', JString i),
           (lit ''output_index'', jnat (re_output_index e)), (lit ''arguments'', JString (we_print env v))] (e\<lparr>re_tool_open := False\<rparr>) = (e1, fs1)" by fastforce
  have same: "json_eq (tool_arguments env (tool_of t)) (parse_or_string env (we_print env v))"
    using t json_eq_refl json_text_lawsD(1) [OF laws] by (simp add: tool_arguments_of parse_or_string_def)
  obtain e2 where e2: "then_frame ''response.output_item.done'' [(lit ''output_index'', jnat (re_output_index e)),
           (lit ''item'', stream_call_item i (ta_name (re_tool e)) (we_print env v) ''completed'')] (e1, fs1) = (e2, fs)"
    using enc EvToolCallEnd f by (auto split: prod.splits)
  show ?thesis
    by (rule responses_two_frames [OF core f e2 out])
      (use EvToolCallEnd t same in \<open>auto simp: responses_event_simps responses_core_def responses_arguments_done_def responses_close_def tool_arguments_of\<close>)
next
  case (EvUsage u)
  then show ?thesis using enc out core by auto
next
  case (EvStop r)
  show ?thesis
    by (rule responses_frame_step [OF core _ out])
      (use EvStop enc ord in \<open>auto simp: responses_event_simps responses_stop_event_def responses_core_def responses_stop_def split: if_splits\<close>)
next
  case (EvError st m)
  show ?thesis
    by (rule responses_frame_step [OF core _ out]) (use EvError enc in \<open>auto simp: responses_event_simps\<close>)
qed (use enc out core in auto)

lemma responses_counts_step:
  "responses_counts e \<Longrightarrow> responses_admits env num b ev \<Longrightarrow> responses_encode env e ev = (e', fs) \<Longrightarrow> responses_counts e'"
  by (cases ev) (auto simp: responses_counts_def responses_frame_def then_frame_def Let_def next_counter_le)

lemma responses_frames:
  assumes laws: "json_text_laws env num" and counts: "responses_counts e" and enc: "responses_encode env e ev = (e', fs)"
  shows "list_all (frame_ok num) fs"
proof -
  note nums = json_wf_jnat [OF laws]
  have zero: "json_wf num (jnat 0)" using nums by (simp add: U64_MAX_def)
  have c: "re_sequence e \<le> U64_MAX" "re_output_index e \<le> U64_MAX" "usage_ok (re_usage e)" using counts by (simp_all add: responses_counts_def)
  have usage: "json_wf num (responses_usage_value (re_usage e))"
    using c(3) nums by (simp add: responses_usage_value_def usage_ok_def usage_total_def sat_add_u64_def)
  show ?thesis
    by (cases ev) (use enc c nums zero usage in
      \<open>auto simp: Let_def responses_frame_def then_frame_def frame_ok_def stream_call_item_def next_counter_le split: if_splits\<close>)
qed

lemma responses_sim_step:
  assumes "json_text_laws env num" and "responses_sim d e a b" and "responses_admits env num b ev" and "responses_encode env e ev = (e', fs)"
    and "decode_values env (responses_decode env) d fs = (d', evs)"
  shows "responses_sim d' e' (replay env a evs) (accumulator_apply (we_print env) b ev)"
  using assms(2) responses_step [OF assms(1) _ assms(3-5)] responses_counts_step [OF _ assms(3,4)] by (simp add: responses_sim_def)

interpretation responses: stream_codec_law env num "lit ''a Responses''" "responses_decode env" "responses_encode env" "responses_admits env num" responses_sim
  for env num
proof unfold_locales
  show "list_all (frame_ok num) fs" if "json_text_laws env num" "responses_sim d e a b" "responses_encode env e ev = (e', fs)" for d e a b ev e' fs
    using that responses_frames [OF that(1) _ that(3)] by (simp add: responses_sim_def)
qed (fact responses_sim_step)

lemma responses_start: "responses_sim responses_decoder_default (responses_encoder_new model) accumulator_default accumulator_default"
  by (simp add: responses_sim_def responses_core_def responses_counts_def responses_decoder_default_def responses_encoder_new_def accumulator_default_def
      usage_default_def usage_ok_def)

lemma responses_finish_reply:
  assumes "responses_core d a b" and "ra_current_tool b = None"
  shows "responses_decode_finish env d = (if ra_stop b = None then [EvStop EndTurn] else [])"
  using assms by (auto simp: responses_core_def responses_decode_finish_def responses_close_def)

section \<open>Round trips of requests and replies\<close>

lemma responses_usage_back: "usage_ok u \<Longrightarrow> responses_usage (responses_usage_value u) = u\<lparr>cu_cached_write := 0\<rparr>"
  by (cases u) (simp add: responses_usage_def responses_usage_value_def count_at_def usage_ok_def)

lemma responses_calls_back:
  assumes "json_text_laws env num" and "list_all (call_arguments_ok num) parts"
  shows "\<exists>lists. collect_results (responses_output env)
      (List.map_filter (\<lambda>p. case p of ToolCall i n v \<Rightarrow> Some (function_call_item env i n v) | _ \<Rightarrow> None) parts) = Inr lists \<and> concat lists = filter is_call parts"
  using assms(2)
proof (induction parts)
  case (Cons p parts)
  then show ?case
    by (cases p) (auto simp: map_filter_simps responses_output_def responses_call_def function_call_item_def string_field_def Let_def
        parse_or_string_def json_text_lawsD [OF assms(1)])
qed (simp add: map_filter_simps)

text \<open>A whole reply: text and calls are heard, reasoning is not told, and every reply is told as complete.\<close>

lemma responses_reply_back:
  assumes laws: "json_text_laws env num" and calls: "list_all (call_arguments_ok num) (cp_parts r)" and u: "usage_ok (cp_usage r)"
  shows "responses_parse_response env (responses_render_response env r) =
    Inr (r\<lparr>cp_parts := (if text_of_parts (cp_parts r) = [] then [] else [Text (text_of_parts (cp_parts r))]) @ filter is_call (cp_parts r),
      cp_stop := EndTurn, cp_usage := (cp_usage r)\<lparr>cu_cached_write := 0\<rparr>\<rparr>)"
proof -
  obtain lists where l: "collect_results (responses_output env)
      (List.map_filter (\<lambda>p. case p of ToolCall i n v \<Rightarrow> Some (function_call_item env i n v) | _ \<Rightarrow> None) (cp_parts r)) = Inr lists"
      "concat lists = filter is_call (cp_parts r)"
    using responses_calls_back [OF laws calls] by blast
  have m: "responses_output env (JObject [(lit ''type'', jstr ''message''), (lit ''id'', jstr ''msg_0''), (lit ''role'', jstr ''assistant''),
            (lit ''status'', jstr ''completed''),
            (lit ''content'', JArray [JObject [(lit ''type'', jstr ''output_text''), (lit ''text'', JString t), (lit ''annotations'', JArray [])]])]) = Inr [Text t]" for t
    by (simp add: responses_output_def responses_part_def string_field_def map_filter_simps Let_def)
  show ?thesis
    using l m u by (simp add: responses_parse_response_def responses_render_response_def string_field_def not_null_def Let_def
        responses_usage_back and_then_def responses_usage_value_def [THEN arg_cong [where f = "\<lambda>v. v = JNull"]])
qed

section \<open>Properties\<close>

text \<open>C18: A streamed reply survives the Responses wire, with any number of tool calls one after the other: a
  client that reads what the encoder writes, to the end of the stream, rebuilds the same text, reasoning
  and calls with their arguments; of the reasons to stop only the cut by the token limit is told.\<close>
theorem responses_stream_round_trip:
  assumes "json_text_laws env num" and "admitted (responses_admits env num) env accumulator_default evs"
    and "encode_events (responses_encode env) (responses_encoder_new model) evs = (e', fs)"
    and "ra_current_tool (accumulate (we_print env) evs) = None"
  shows "\<exists>d' out. decode_frames (decode_data env (lit ''a Responses'') (responses_decode env)) responses_decoder_default
        (parse_sse (frames_text env fs)) = Inr (d', out) \<and>
     (let got = accumulate (we_print env) (out @ responses_decode_finish env d'); sent = accumulate (we_print env) evs in
      ra_text got = ra_text sent \<and> ra_reasoning got = ra_reasoning sent \<and> ra_tool_calls got = ra_tool_calls sent \<and>
      ra_stop got = Some (if ra_stop sent = Some MaxTokens then MaxTokens else EndTurn))"
proof -
  obtain d' out where d: "decode_frames (decode_data env (lit ''a Responses'') (responses_decode env)) responses_decoder_default
        (parse_sse (frames_text env fs)) = Inr (d', out)"
      "responses_sim d' e' (replay env accumulator_default out) (replay env accumulator_default evs)"
    using responses.read_back [OF assms(1) responses_start assms(2,3)] by blast
  then have core: "responses_core d' (replay env accumulator_default out) (replay env accumulator_default evs)" by (simp add: responses_sim_def)
  note fin = responses_finish_reply [OF core, of env]
  show ?thesis
    using d(1) core fin assms(4)
    by (cases "ra_stop (replay env accumulator_default evs)") (auto simp: responses_core_def accumulate_def Let_def responses_stop_def)
qed

lemma sample_responses_events: "admitted (responses_admits sample_wire (\<lambda>_. True)) sample_wire accumulator_default sample_events"
  by (simp_all add: sample_events_def accumulator_default_def usage_ok_def usage_default_def fragments_value_def tool_arguments_def U64_MAX_def)

lemma responses_stream_round_trip_witness:
  "\<exists>d' out. decode_frames (decode_data sample_wire (lit ''a Responses'') (responses_decode sample_wire)) responses_decoder_default
       (parse_sse (frames_text sample_wire (snd (encode_events (responses_encode sample_wire) (responses_encoder_new []) sample_events)))) = Inr (d', out) \<and>
     ra_text (accumulate (we_print sample_wire) (out @ responses_decode_finish sample_wire d')) = lit ''hello'' \<and>
     length (ra_tool_calls (accumulate (we_print sample_wire) (out @ responses_decode_finish sample_wire d'))) = 1"
  using responses_stream_round_trip [OF sample_wire_laws sample_responses_events surjective_pairing sample_single_call(2), of "[]"] sample_reply
  by (fastforce simp: Let_def)

text \<open>A reply that comes from a Responses upstream never tells that it stopped to call a tool: whatever
  the upstream sends, no event the decoder gives, nor its end, is a stop for a tool call, even right after one.\<close>
lemma responses_never_tool_use:
  "EvStop ToolUse \<notin> set (snd (responses_decode env d payload v)) \<and> EvStop ToolUse \<notin> set (responses_decode_finish env d)"
proof -
  have "EvStop ToolUse \<notin> set (snd (responses_head d kind v))" for d kind
    by (auto simp: responses_head_def responses_about_def Let_def split: option.splits if_splits prod.splits)
  moreover have "EvStop ToolUse \<notin> set (snd (responses_event env d kind v))" for d kind
    by (auto simp: responses_event_def responses_stop_event_def responses_close_def Let_def split: option.splits if_splits)
  ultimately have "EvStop ToolUse \<notin> set (snd (responses_decode env d payload v))"
    by (auto simp: responses_decode_def Let_def split: prod.splits) (metis snd_conv)+
  then show ?thesis by (auto simp: responses_decode_finish_def responses_close_def)
qed

text \<open>An assistant's reasoning before a call, written and read again, is not where it was: it waits for
  the next message and is put there.\<close>

lemma responses_reasoning_moves:
  assumes "json_text_laws env num" and "json_wf num v" and "t \<noteq> []" and "answer \<noteq> []"
  shows "responses_items env False ([], []) (concat (map (responses_message_items env)
      [\<lparr>cm_role = Assistant, cm_parts = [Reasoning t None, ToolCall i n v]\<rparr>,
       \<lparr>cm_role = User, cm_parts = [ToolResult i [Text out] False]\<rparr>, \<lparr>cm_role = Assistant, cm_parts = [Text answer]\<rparr>])) =
    Inr ([\<lparr>cm_role = Assistant, cm_parts = [ToolCall i n v]\<rparr>, \<lparr>cm_role = User, cm_parts = [ToolResult i [Text out] False]\<rparr>,
       \<lparr>cm_role = Assistant, cm_parts = [Reasoning t None, Text answer]\<rparr>], [])"
proof -
  have zero: "array_index (lit ''0'') = Some 0" by code_simp
  show ?thesis
    using assms by (simp add: responses_message_items_def responses_user_items_def map_filter_simps responses_item_def string_field_def Let_def
        summary_text_def zero push_call_def responses_call_def parse_or_string_def json_text_lawsD [OF assms(1)] tool_result_item_def
        text_of_parts_def responses_part_def)
qed

end
