(* ===== verification/Wire_Gemini.thy ===== *)
theory Wire_Gemini
  imports Wire_Stream
begin

text \<open>
  The Gemini codec, \<open>crates/model-gateway/src/wire/gemini.rs\<close>: parts, the numbering of repeated calls,
  the case of schema types, \<open>parse_request\<close>, \<open>build_request\<close>, \<open>render_response\<close>, \<open>parse_response\<close>,
  \<open>GeminiDecoder\<close> and \<open>GeminiEncoder\<close>. Gemini names calls and gives them no id: the codec makes one
  from the name.
\<close>

abbreviation GEMINI :: ustring where
  "GEMINI \<equiv> wire_protocol_id GeminiGenerateContent"

section \<open>Parts\<close>

definition GEMINI_CALL_ID_PREFIX :: ustring where
  "GEMINI_CALL_ID_PREFIX = lit ''call_''"

definition gemini_text :: "json \<Rightarrow> ustring \<Rightarrow> content_part" where
  "gemini_text item text =
     (if (case as_bool (get_field (lit ''thought'') item) of Some b \<Rightarrow> b | None \<Rightarrow> False)
      then Reasoning text (map_option (\<lambda>s. \<lparr>os_protocol = GEMINI, os_value = s\<rparr>) (string_field item (lit ''thoughtSignature'')))
      else Text text)"

definition gemini_part :: "wire_env \<Rightarrow> json \<Rightarrow> content_part option" where
  "gemini_part env item =
     (case string_field item (lit ''text'') of Some text \<Rightarrow> Some (gemini_text item text) | None \<Rightarrow>
      case get_field (lit ''inlineData'') item of Some inline \<Rightarrow>
        Some (Image (Base64 (case string_field inline (lit ''mimeType'') of Some m \<Rightarrow> m | None \<Rightarrow> lit ''image/png'')
          (or_default (string_field inline (lit ''data'')))))
      | None \<Rightarrow>
      case get_field (lit ''fileData'') item of Some file \<Rightarrow> Some (Image (Url (or_default (string_field file (lit ''fileUri''))))) | None \<Rightarrow>
      case get_field (lit ''functionCall'') item of Some call \<Rightarrow>
        (let name = or_default (string_field call (lit ''name''))
         in Some (ToolCall (GEMINI_CALL_ID_PREFIX @ name) name (case get_field (lit ''args'') call of Some v \<Rightarrow> v | None \<Rightarrow> JObject [])))
      | None \<Rightarrow>
      case get_field (lit ''functionResponse'') item of Some response \<Rightarrow>
        (let name = (case string_field response (lit ''name'') of Some n \<Rightarrow> n | None \<Rightarrow> lit ''tool'')
         in Some (ToolResult (GEMINI_CALL_ID_PREFIX @ name) [Text (we_print env (or_null (get_field (lit ''response'') response)))] False))
      | None \<Rightarrow> None)"

definition gemini_parts :: "wire_env \<Rightarrow> json option \<Rightarrow> content_part list" where
  "gemini_parts env v = (case as_array v of Some vs \<Rightarrow> List.map_filter (gemini_part env) vs | None \<Rightarrow> [])"

definition gemini_call_name :: "ustring \<Rightarrow> ustring" where
  "gemini_call_name call_id =
     (let name = (case strip_prefix GEMINI_CALL_ID_PREFIX call_id of Some n \<Rightarrow> n | None \<Rightarrow> call_id)
      in case split_str (lit ''__'') name of Some (n, _) \<Rightarrow> n | None \<Rightarrow> name)"

text \<open>How often each name was called, and answered, so far.\<close>

type_synonym call_counts = "(ustring \<Rightarrow> nat) \<times> (ustring \<Rightarrow> nat)"

definition with_ordinal :: "ustring \<Rightarrow> nat \<Rightarrow> ustring" where
  "with_ordinal i times_seen = (if 1 < times_seen then i @ lit ''__'' @ dec_string times_seen else i)"

fun assign_ordinal :: "call_counts \<Rightarrow> content_part \<Rightarrow> call_counts \<times> content_part" where
  "assign_ordinal (calls, results) (ToolCall i name v) =
     (let times_seen = calls name + 1 in ((calls(name := times_seen), results), ToolCall (with_ordinal i times_seen) name v))"
| "assign_ordinal (calls, results) (ToolResult i content err) =
     (let name = (case strip_prefix GEMINI_CALL_ID_PREFIX i of Some n \<Rightarrow> n | None \<Rightarrow> i); times_seen = results name + 1
      in ((calls, results(name := times_seen)), ToolResult (with_ordinal i times_seen) content err))"
| "assign_ordinal counts p = (counts, p)"

fun assign_parts :: "call_counts \<Rightarrow> content_part list \<Rightarrow> call_counts \<times> content_part list" where
  "assign_parts counts [] = (counts, [])"
| "assign_parts counts (p # ps) =
     (let (counts1, q) = assign_ordinal counts p; (counts2, qs) = assign_parts counts1 ps in (counts2, q # qs))"

fun assign_messages :: "call_counts \<Rightarrow> canonical_message list \<Rightarrow> canonical_message list" where
  "assign_messages counts [] = []"
| "assign_messages counts (m # ms) =
     (let (counts1, ps) = assign_parts counts (cm_parts m) in m\<lparr>cm_parts := ps\<rparr> # assign_messages counts1 ms)"

definition assign_call_ordinals :: "canonical_message list \<Rightarrow> canonical_message list" where
  "assign_call_ordinals ms = assign_messages (\<lambda>_. 0, \<lambda>_. 0) ms"

section \<open>Schema types\<close>

definition SCHEMA_TYPE_KEYS :: "ustring list" where
  "SCHEMA_TYPE_KEYS = [lit ''type'', lit ''format'', lit ''x-type'', lit ''const'']"

definition SCHEMA_MAP_KEYS :: "ustring list" where
  "SCHEMA_MAP_KEYS = [lit ''properties'', lit ''patternProperties'', lit ''$defs'']"

definition lowercase :: "ustring \<Rightarrow> ustring" where
  "lowercase s = map to_ascii_lowercase s"

definition uppercase :: "ustring \<Rightarrow> ustring" where
  "uppercase s = map (\<lambda>c. if 97 \<le> c \<and> c \<le> 122 then c - 32 else c) s"

definition is_schema_type_name :: "ustring \<Rightarrow> bool" where
  "is_schema_type_name v \<longleftrightarrow> lowercase v \<in>
     {lit ''object'', lit ''array'', lit ''string'', lit ''number'', lit ''integer'', lit ''boolean'', lit ''null''}"

fun convert_type :: "(ustring \<Rightarrow> ustring) \<Rightarrow> json \<Rightarrow> json" where
  "convert_type convert (JString name) = JString (if is_schema_type_name name then convert name else name)"
| "convert_type convert v = v"

lemma size_field: "(k, v) \<in> set kvs \<Longrightarrow> size (v :: json) < size (JObject kvs)"
  by (induction kvs) auto

function map_schema_types :: "(ustring \<Rightarrow> ustring) \<Rightarrow> json \<Rightarrow> json" where
  "map_schema_types convert (JObject kvs) =
     JObject (map (\<lambda>(k, v). (k,
       if k \<in> set SCHEMA_TYPE_KEYS then convert_type convert v
       else if k \<in> set SCHEMA_MAP_KEYS then
         (case v of JObject ps \<Rightarrow> JObject (map (\<lambda>(name, schema). (name, map_schema_types convert schema)) ps) | _ \<Rightarrow> v)
       else map_schema_types convert v)) kvs)"
| "map_schema_types convert (JArray vs) = JArray (map (map_schema_types convert) vs)"
| "map_schema_types convert JNull = JNull"
| "map_schema_types convert (JBool b) = JBool b"
| "map_schema_types convert (JNumber n) = JNumber n"
| "map_schema_types convert (JString s) = JString s"
  by pat_completeness auto

termination
proof (relation "measure (\<lambda>(c, v). size v)", simp)
  fix convert :: "ustring \<Rightarrow> ustring" and kvs ps :: "(ustring \<times> json) list" and p q k v name schema
  assume "p \<in> set kvs" "(k, v) = p" "v = JObject ps" "q \<in> set ps" "(name, schema) = q"
  then have "size schema < size v" "size v < size (JObject kvs)" using size_field by metis+
  then show "((convert, schema), convert, JObject kvs) \<in> measure (\<lambda>(c, v). size v)" by simp
next
  fix convert :: "ustring \<Rightarrow> ustring" and kvs :: "(ustring \<times> json) list" and p k v
  assume "p \<in> set kvs" "(k, v) = p"
  then show "((convert, v), convert, JObject kvs) \<in> measure (\<lambda>(c, v). size v)" using size_field by fastforce
next
  fix convert :: "ustring \<Rightarrow> ustring" and vs :: "json list" and v
  assume "v \<in> set vs"
  then have "size v < size (JArray vs)" by (induction vs) auto
  then show "((convert, v), convert, JArray vs) \<in> measure (\<lambda>(c, v). size v)" by simp
qed

definition lowercase_schema_types :: "json \<Rightarrow> json" where
  "lowercase_schema_types v = map_schema_types lowercase v"

definition uppercase_schema_types :: "json \<Rightarrow> json" where
  "uppercase_schema_types v = map_schema_types uppercase v"

section \<open>Requests\<close>

definition gemini_message :: "wire_env \<Rightarrow> json \<Rightarrow> canonical_message" where
  "gemini_message env content =
     (let parts = gemini_parts env (get_field (lit ''parts'') content);
          answers = list_ex (\<lambda>p. case p of ToolResult _ _ _ \<Rightarrow> True | _ \<Rightarrow> False) parts;
          calls = list_ex (\<lambda>p. case p of ToolCall _ _ _ \<Rightarrow> True | _ \<Rightarrow> False) parts
      in \<lparr>cm_role = (if answers \<and> \<not> calls then User
            else if string_field content (lit ''role'') = Some (lit ''model'') then Assistant else User), cm_parts = parts\<rparr>)"

definition gemini_tool :: "json \<Rightarrow> tool_definition" where
  "gemini_tool declaration =
     \<lparr>td_name = or_default (string_field declaration (lit ''name'')), td_description = or_default (string_field declaration (lit ''description'')),
      td_parameters = (case (case get_field (lit ''parameters'') declaration of Some v \<Rightarrow> Some v | None \<Rightarrow> get_field (lit ''parametersJsonSchema'') declaration) of
          Some v \<Rightarrow> lowercase_schema_types v | None \<Rightarrow> JObject [(lit ''type'', jstr ''object'')]),
      td_strict = False\<rparr>"

definition gemini_tool_choice :: "json \<Rightarrow> tool_choice" where
  "gemini_tool_choice v =
     (case as_str (pointer [lit ''toolConfig'', lit ''functionCallingConfig'', lit ''mode''] v) of
        Some mode \<Rightarrow>
          (if mode = lit ''NONE'' then ChoiceNone
           else if mode = lit ''ANY'' then
             (case as_str (pointer [lit ''toolConfig'', lit ''functionCallingConfig'', lit ''allowedFunctionNames'', lit ''0''] v) of
                Some name \<Rightarrow> ChoiceNamed name | None \<Rightarrow> ChoiceRequired)
           else ChoiceAuto)
      | None \<Rightarrow> ChoiceAuto)"

text \<open>The two zeros of \<open>f64\<close>.\<close>

definition is_zero :: "f64_bits \<Rightarrow> bool" where
  "is_zero b \<longleftrightarrow> b = 0 \<or> b = 2 ^ 63"

definition gemini_disabled :: "wire_env \<Rightarrow> json \<Rightarrow> bool" where
  "gemini_disabled env generation \<longleftrightarrow>
     (case pointer [lit ''thinkingConfig'', lit ''thinkingBudget''] generation of
        Some (JNumber _) \<Rightarrow> (case number_field env generation (lit ''thinkingBudget'') of Some b \<Rightarrow> is_zero b | None \<Rightarrow> False)
      | _ \<Rightarrow> False)"

definition gemini_parse_request :: "wire_env \<Rightarrow> json \<Rightarrow> gateway_error + canonical_request" where
  "gemini_parse_request env v =
     and_then (object_of v (lit ''a Gemini request'')) (\<lambda>body.
      let generation = or_null (get_field (lit ''generationConfig'') v) in
      Inr \<lparr>cr_model = or_default (string_field v (lit ''model'')),
        cr_system = gemini_parts env (pointer [lit ''systemInstruction'', lit ''parts''] v),
        cr_messages = assign_call_ordinals (case as_array (get_field (lit ''contents'') v) of Some contents \<Rightarrow> map (gemini_message env) contents | None \<Rightarrow> []),
        cr_tools = (case as_array (pointer [lit ''tools'', lit ''0'', lit ''functionDeclarations''] v) of Some ds \<Rightarrow> map gemini_tool ds | None \<Rightarrow> []),
        cr_tool_choice = gemini_tool_choice v,
        cr_parallel_tool_calls = None,
        cr_sampling = \<lparr>sp_temperature = number_field env generation (lit ''temperature''), sp_top_p = number_field env generation (lit ''topP''),
          sp_max_tokens = uint_field generation (lit ''maxOutputTokens''),
          sp_stop = (case as_array (get_field (lit ''stopSequences'') generation) of Some stops \<Rightarrow> strings_of stops | None \<Rightarrow> [])\<rparr>,
        cr_reasoning = \<lparr>rr_disabled = gemini_disabled env generation, rr_effort_asked = None\<rparr>,
        cr_stream = (case as_bool (get_field (lit ''stream'') v) of Some b \<Rightarrow> b | None \<Rightarrow> False),
        cr_opaque = []\<rparr>)"

fun part_value :: "wire_env \<Rightarrow> content_part \<Rightarrow> gateway_error + json option" where
  "part_value env (Text text) = Inr (if text = [] then None else Some (JObject [(lit ''text'', JString text)]))"
| "part_value env (Reasoning text signature) =
     Inr (Some (JObject ([(lit ''text'', JString text), (lit ''thought'', JBool True)] @
       (case signature of Some s \<Rightarrow> if os_protocol s = GEMINI then [(lit ''thoughtSignature'', JString (os_value s))] else [] | None \<Rightarrow> []))))"
| "part_value env (Image (Base64 media_type content)) =
     Inr (Some (JObject [(lit ''inlineData'', JObject [(lit ''mimeType'', JString media_type), (lit ''data'', JString content)])]))"
| "part_value env (Image (Url url)) =
     Inr (Some (JObject [(lit ''fileData'', JObject [(lit ''mimeType'', jstr ''image/png''), (lit ''fileUri'', JString url)])]))"
| "part_value env (Image (VendorFileId _)) = Inl UnsupportedImageReference"
| "part_value env (ToolCall _ name arguments) =
     Inr (Some (JObject [(lit ''functionCall'', JObject [(lit ''name'', JString name), (lit ''args'', arguments)])]))"
| "part_value env (ToolResult call_id content _) =
     (let text = text_of_parts content
      in Inr (Some (JObject [(lit ''functionResponse'', JObject [(lit ''name'', JString (gemini_call_name call_id)),
           (lit ''response'', case we_parse env text of Some v \<Rightarrow> v | None \<Rightarrow> JObject [(lit ''result'', JString text)])])])))"
| "part_value env (Opaque _ _) = Inr None"

definition gemini_content :: "wire_env \<Rightarrow> canonical_message \<Rightarrow> gateway_error + json list" where
  "gemini_content env m =
     and_then (collect_results (part_value env) (cm_parts m)) (\<lambda>values.
       let parts = List.map_filter (\<lambda>v. v) values
       in Inr (if parts = [] then []
           else [JObject [(lit ''role'', case cm_role m of User \<Rightarrow> jstr ''user'' | Assistant \<Rightarrow> jstr ''model''), (lit ''parts'', JArray parts)]]))"

definition gemini_system :: "content_part list \<Rightarrow> (ustring \<times> json) list" where
  "gemini_system system =
     (let parts = List.map_filter (\<lambda>p. case p of Text t \<Rightarrow> Some (JObject [(lit ''text'', JString t)]) | _ \<Rightarrow> None) system
      in if parts = [] then [] else [(lit ''systemInstruction'', JObject [(lit ''parts'', JArray parts)])])"

definition gemini_choice_value :: "tool_choice \<Rightarrow> json" where
  "gemini_choice_value c =
     (case c of
        ChoiceAuto \<Rightarrow> JObject [(lit ''mode'', jstr ''AUTO'')]
      | ChoiceNone \<Rightarrow> JObject [(lit ''mode'', jstr ''NONE'')]
      | ChoiceRequired \<Rightarrow> JObject [(lit ''mode'', jstr ''ANY'')]
      | ChoiceNamed n \<Rightarrow> JObject [(lit ''mode'', jstr ''ANY''), (lit ''allowedFunctionNames'', JArray [JString n])])"

definition gemini_tool_value :: "tool_definition \<Rightarrow> json" where
  "gemini_tool_value t = JObject [(lit ''name'', JString (td_name t)), (lit ''description'', JString (td_description t)),
     (lit ''parametersJsonSchema'', uppercase_schema_types (td_parameters t))]"

definition gemini_tools :: "canonical_request \<Rightarrow> (ustring \<times> json) list" where
  "gemini_tools r =
     (if cr_tools r = [] then []
      else [(lit ''tools'', JArray [JObject [(lit ''functionDeclarations'', JArray (map gemini_tool_value (cr_tools r)))]]),
            (lit ''toolConfig'', JObject [(lit ''functionCallingConfig'', gemini_choice_value (cr_tool_choice r))])])"

definition gemini_generation :: "wire_env \<Rightarrow> canonical_request \<Rightarrow> (ustring \<times> json) list" where
  "gemini_generation env r =
     (let sp = cr_sampling r in
      opt_field ''temperature'' (we_from_f64 env) (sp_temperature sp) @ opt_field ''topP'' (we_from_f64 env) (sp_top_p sp) @
      opt_field ''maxOutputTokens'' jnat (sp_max_tokens sp) @
      (if sp_stop sp = [] then [] else [(lit ''stopSequences'', JArray (map JString (sp_stop sp)))]) @
      (if rr_disabled (cr_reasoning r) then [(lit ''thinkingConfig'', JObject [(lit ''thinkingBudget'', jnat 0)])] else []))"

definition gemini_build_request :: "wire_env \<Rightarrow> canonical_request \<Rightarrow> gateway_error + json" where
  "gemini_build_request env r =
     and_then (collect_results (gemini_content env) (cr_messages r)) (\<lambda>contents.
       Inr (JObject ([(lit ''contents'', JArray (concat contents))] @ gemini_system (cr_system r) @ gemini_tools r @
         (if gemini_generation env r = [] then [] else [(lit ''generationConfig'', JObject (gemini_generation env r))]))))"

section \<open>Whole replies\<close>

definition gemini_usage :: "json \<Rightarrow> canonical_usage" where
  "gemini_usage v =
     \<lparr>cu_input = count_at [lit ''promptTokenCount''] v, cu_output = count_at [lit ''candidatesTokenCount''] v,
      cu_cached_read = count_at [lit ''cachedContentTokenCount''] v, cu_cached_write = 0, cu_reasoning = count_at [lit ''thoughtsTokenCount''] v\<rparr>"

definition gemini_usage_value :: "canonical_usage \<Rightarrow> json" where
  "gemini_usage_value u =
     JObject [(lit ''promptTokenCount'', jnat (cu_input u)), (lit ''candidatesTokenCount'', jnat (cu_output u)),
       (lit ''cachedContentTokenCount'', jnat (cu_cached_read u)), (lit ''thoughtsTokenCount'', jnat (cu_reasoning u)),
       (lit ''totalTokenCount'', jnat (usage_total u))]"

fun gemini_reply_part :: "content_part \<Rightarrow> json option" where
  "gemini_reply_part (Text text) = (if text = [] then None else Some (JObject [(lit ''text'', JString text)]))"
| "gemini_reply_part (Reasoning text _) = Some (JObject [(lit ''text'', JString text), (lit ''thought'', JBool True)])"
| "gemini_reply_part (ToolCall _ name arguments) =
     Some (JObject [(lit ''functionCall'', JObject [(lit ''name'', JString name), (lit ''args'', arguments)])])"
| "gemini_reply_part _ = None"

definition gemini_render_response :: "canonical_response \<Rightarrow> json" where
  "gemini_render_response r =
     JObject [(lit ''candidates'', JArray [JObject [
         (lit ''content'', JObject [(lit ''role'', jstr ''model''), (lit ''parts'', JArray (List.map_filter gemini_reply_part (cp_parts r)))]),
         (lit ''finishReason'', JString (stop_gemini (cp_stop r))), (lit ''index'', jnat 0)]]),
       (lit ''usageMetadata'', gemini_usage_value (cp_usage r)), (lit ''modelVersion'', JString (cp_model r))]"

definition gemini_parse_response :: "wire_env \<Rightarrow> json \<Rightarrow> gateway_error + canonical_response" where
  "gemini_parse_response env v =
     Inr \<lparr>cp_id = [], cp_model = or_default (string_field v (lit ''modelVersion'')),
       cp_parts = gemini_parts env (pointer [lit ''candidates'', lit ''0'', lit ''content'', lit ''parts''] v),
       cp_stop = (case as_str (pointer [lit ''candidates'', lit ''0'', lit ''finishReason''] v) of Some s \<Rightarrow> from_gemini s | None \<Rightarrow> EndTurn),
       cp_usage = (case get_field (lit ''usageMetadata'') v of Some u \<Rightarrow> gemini_usage u | None \<Rightarrow> usage_default)\<rparr>"

section \<open>The decoder\<close>

record gemini_decoder =
  gd_tool :: tool_call_accumulator
  gd_usage :: canonical_usage
  gd_started :: bool
  gd_id :: ustring
  gd_model :: ustring
  gd_stopped :: bool
  gd_saw_tool_call :: bool

definition gemini_decoder_default :: gemini_decoder where
  "gemini_decoder_default = \<lparr>gd_tool = tool_default, gd_usage = usage_default, gd_started = False, gd_id = [], gd_model = [],
     gd_stopped = False, gd_saw_tool_call = False\<rparr>"

definition gemini_head :: "wire_env \<Rightarrow> gemini_decoder \<Rightarrow> ustring \<Rightarrow> json \<Rightarrow> gemini_decoder \<times> canonical_event list" where
  "gemini_head env d payload v =
     (let (d1, usage) = (case get_field (lit ''usageMetadata'') v of
             Some u \<Rightarrow> (let merged = usage_merge (gd_usage d) (gemini_usage u) in (d\<lparr>gd_usage := merged\<rparr>, [EvUsage merged]))
           | None \<Rightarrow> (d, []));
          d2 = d1\<lparr>gd_model := (case string_field v (lit ''modelVersion'') of Some m \<Rightarrow> m | None \<Rightarrow> gd_model d1)\<rparr>
      in if gd_started d2 then (d2, usage)
         else (let d3 = d2\<lparr>gd_started := True, gd_id := (if gd_id d2 = [] then lit ''gemini_'' @ request_fingerprint env payload else gd_id d2)\<rparr>
               in (d3, EvStart (gd_id d3) (gd_model d3) usage_default # usage)))"

definition gemini_part_event :: "wire_env \<Rightarrow> gemini_decoder \<Rightarrow> json \<Rightarrow> gemini_decoder \<times> canonical_event list" where
  "gemini_part_event env d part =
     (case get_field (lit ''functionCall'') part of
        Some call \<Rightarrow>
          (let name = or_default (string_field call (lit ''name'')); i = lit ''call_'' @ name;
               fragment = we_print env (or_null (get_field (lit ''args'') call))
           in (d\<lparr>gd_tool := push_arguments fragment (tool_start i name (gd_tool d)), gd_saw_tool_call := True\<rparr>,
               [EvToolCallStart i name, EvToolCallArgumentsDelta i fragment]))
      | None \<Rightarrow>
          (case string_field part (lit ''text'') of
             None \<Rightarrow> (d, [])
           | Some text \<Rightarrow> (d, [if (case as_bool (get_field (lit ''thought'') part) of Some b \<Rightarrow> b | None \<Rightarrow> False)
                             then EvReasoningDelta text else EvTextDelta text])))"

definition gemini_close :: "wire_env \<Rightarrow> gemini_decoder \<Rightarrow> gemini_decoder \<times> canonical_event list" where
  "gemini_close env d =
     (if tool_is_empty (gd_tool d) then (d, [])
      else (d\<lparr>gd_tool := tool_default\<rparr>, [EvToolCallEnd (ta_id (gd_tool d)) (tool_arguments env (gd_tool d))]))"

definition gemini_candidate :: "wire_env \<Rightarrow> gemini_decoder \<Rightarrow> json \<Rightarrow> gemini_decoder \<times> canonical_event list" where
  "gemini_candidate env d candidate =
     (let (d1, evs) = run_items (gemini_part_event env) d
            (case as_array (pointer [lit ''content'', lit ''parts''] candidate) of Some ps \<Rightarrow> ps | None \<Rightarrow> []);
          (d2, stops) = (case string_field candidate (lit ''finishReason'') of
             Some reason \<Rightarrow>
               (if gd_stopped d1 then (d1, [])
                else let (d0, ended) = gemini_close env d1; stop = from_gemini reason
                     in (d0\<lparr>gd_stopped := True\<rparr>, ended @ [EvStop (if stop = EndTurn \<and> gd_saw_tool_call d1 then ToolUse else stop)]))
           | None \<Rightarrow> (d1, []))
      in (d2, evs @ stops))"

definition gemini_decode :: "wire_env \<Rightarrow> gemini_decoder value_decoder" where
  "gemini_decode env d payload v =
     (let (d1, head) = gemini_head env d payload v in
      case as_array (get_field (lit ''candidates'') v) of
        None \<Rightarrow> (d1, head)
      | Some candidates \<Rightarrow> (let (d2, evs) = run_items (gemini_candidate env) d1 candidates in (d2, head @ evs)))"

definition gemini_decode_finish :: "wire_env \<Rightarrow> gemini_decoder \<Rightarrow> canonical_event list" where
  "gemini_decode_finish env d =
     snd (gemini_close env d) @ (if gd_stopped d then [] else [EvStop (if gd_saw_tool_call d then ToolUse else EndTurn)])"

section \<open>The encoder\<close>

record gemini_encoder =
  ge_model :: ustring
  ge_open_tools :: "(ustring \<times> tool_call_accumulator) list"
  ge_usage :: canonical_usage
  ge_finished :: bool

definition gemini_encoder_new :: "ustring \<Rightarrow> gemini_encoder" where
  "gemini_encoder_new model = \<lparr>ge_model = model, ge_open_tools = [], ge_usage = usage_default, ge_finished = False\<rparr>"

definition gemini_chunk :: "json list \<Rightarrow> wire_frame" where
  "gemini_chunk parts =
     (None, JObject [(lit ''candidates'', JArray [JObject [
        (lit ''content'', JObject [(lit ''role'', jstr ''model''), (lit ''parts'', JArray parts)]), (lit ''index'', jnat 0)]])])"

definition flush_tools :: "wire_env \<Rightarrow> gemini_encoder \<Rightarrow> wire_frame list" where
  "flush_tools env e =
     (if ge_open_tools e = [] then []
      else [gemini_chunk (map (\<lambda>(name, t). JObject [(lit ''functionCall'', JObject [(lit ''name'', JString name), (lit ''args'', tool_arguments env t)])])
        (ge_open_tools e))])"

definition gemini_stop_frame :: "gemini_encoder \<Rightarrow> ustring \<Rightarrow> json \<Rightarrow> wire_frame" where
  "gemini_stop_frame e reason usage =
     (None, JObject [(lit ''candidates'', JArray [JObject [
        (lit ''content'', JObject [(lit ''role'', jstr ''model''), (lit ''parts'', JArray [])]), (lit ''finishReason'', JString reason),
        (lit ''index'', jnat 0)]]), (lit ''usageMetadata'', usage), (lit ''modelVersion'', JString (ge_model e))])"

fun push_last :: "ustring \<Rightarrow> (ustring \<times> tool_call_accumulator) list \<Rightarrow> (ustring \<times> tool_call_accumulator) list" where
  "push_last fragment [] = []"
| "push_last fragment [(n, t)] = [(n, push_arguments fragment t)]"
| "push_last fragment (x # y # xs) = x # push_last fragment (y # xs)"

text \<open>The first call with the id takes whole arguments when it has none of its own.\<close>

fun adopt_arguments :: "wire_env \<Rightarrow> ustring \<Rightarrow> json \<Rightarrow> (ustring \<times> tool_call_accumulator) list \<Rightarrow> (ustring \<times> tool_call_accumulator) list" where
  "adopt_arguments env i v [] = []"
| "adopt_arguments env i v ((n, t) # xs) =
     (if ta_id t = i then
        (if tool_arguments env t = JObject [] \<and> v \<noteq> JObject [] then (n, push_arguments (we_print env v) t) # xs else (n, t) # xs)
      else (n, t) # adopt_arguments env i v xs)"

fun gemini_encode :: "wire_env \<Rightarrow> gemini_encoder frame_encoder" where
  "gemini_encode env e (EvStart _ model _) = (e\<lparr>ge_model := (if model = [] then ge_model e else model)\<rparr>, [])"
| "gemini_encode env e (EvTextDelta text) =
     (e\<lparr>ge_open_tools := []\<rparr>, flush_tools env e @ [gemini_chunk [JObject [(lit ''text'', JString text)]]])"
| "gemini_encode env e EvReasoningStart = (e, [])"
| "gemini_encode env e (EvReasoningDelta text) =
     (e\<lparr>ge_open_tools := []\<rparr>, flush_tools env e @ [gemini_chunk [JObject [(lit ''text'', JString text), (lit ''thought'', JBool True)]]])"
| "gemini_encode env e (EvReasoningSignature _) = (e, [])"
| "gemini_encode env e (EvToolCallStart i name) =
     (e\<lparr>ge_open_tools := ge_open_tools e @ [(name, if i = [] then tool_default else tool_start i name tool_default)]\<rparr>, [])"
| "gemini_encode env e (EvToolCallArgumentsDelta _ fragment) = (e\<lparr>ge_open_tools := push_last fragment (ge_open_tools e)\<rparr>, [])"
| "gemini_encode env e (EvToolCallEnd i arguments) = (e\<lparr>ge_open_tools := adopt_arguments env i arguments (ge_open_tools e)\<rparr>, [])"
| "gemini_encode env e (EvUsage u) = (e\<lparr>ge_usage := u\<rparr>, [])"
| "gemini_encode env e (EvStop r) =
     (e\<lparr>ge_open_tools := [], ge_finished := True\<rparr>, flush_tools env e @ [gemini_stop_frame e (stop_gemini r) (gemini_usage_value (ge_usage e))])"
| "gemini_encode env e (EvError _ message) =
     (e, [(None, JObject [(lit ''error'', JObject [(lit ''code'', jnat 502), (lit ''message'', JString message), (lit ''status'', jstr ''INTERNAL'')])])])"

definition gemini_encode_finish :: "wire_env \<Rightarrow> gemini_encoder \<Rightarrow> wire_frame list" where
  "gemini_encode_finish env e =
     (if ge_finished e then []
      else flush_tools env e @ [gemini_stop_frame e (lit ''STOP'')
        (JObject [(lit ''promptTokenCount'', jnat (cu_input (ge_usage e))), (lit ''candidatesTokenCount'', jnat (cu_output (ge_usage e))),
          (lit ''totalTokenCount'', jnat (usage_total (ge_usage e)))])])"

section \<open>The stream law\<close>

text \<open>What is heard of a call: its name, an id made from it, and its arguments as the library prints them.\<close>

definition gemini_heard_call :: "wire_env \<Rightarrow> accumulated_tool_call \<Rightarrow> accumulated_tool_call" where
  "gemini_heard_call env t =
     \<lparr>at_id = lit ''call_'' @ at_name t, at_name = at_name t, at_arguments = we_print env (fragments_value env (at_arguments t))\<rparr>"

definition gemini_stop :: "stop_reason \<Rightarrow> bool \<Rightarrow> stop_reason" where
  "gemini_stop r called = (let stop = from_gemini (stop_gemini r) in if stop = EndTurn \<and> called then ToolUse else stop)"

definition gemini_quiet :: "gemini_decoder \<Rightarrow> reply_accumulator \<Rightarrow> bool" where
  "gemini_quiet d a \<longleftrightarrow> gd_tool d = tool_default \<and> \<not> gd_saw_tool_call d \<and> ra_current_tool a = None \<and> ra_tool_calls a = []"

definition gemini_holds :: "wire_env \<Rightarrow> gemini_decoder \<Rightarrow> reply_accumulator \<Rightarrow> accumulated_tool_call \<Rightarrow> bool" where
  "gemini_holds env d a t \<longleftrightarrow> gd_tool d = tool_of (gemini_heard_call env t) \<and> gd_saw_tool_call d \<and>
     ra_current_tool a = Some (gemini_heard_call env t) \<and> ra_tool_calls a = []"

definition gemini_sim :: "wire_env \<Rightarrow> (ustring \<Rightarrow> bool) \<Rightarrow> gemini_decoder \<Rightarrow> gemini_encoder \<Rightarrow> reply_accumulator \<Rightarrow> reply_accumulator \<Rightarrow> bool" where
  "gemini_sim env num d e a b \<longleftrightarrow>
     ra_text a = ra_text b \<and> ra_reasoning a = ra_reasoning b \<and> gd_stopped d = (ra_stop b \<noteq> None) \<and>
     ra_stop a = map_option (\<lambda>r. gemini_stop r (ra_tool_calls b \<noteq> [])) (ra_stop b) \<and> usage_ok (ge_usage e) \<and>
     ge_finished e = (ra_stop b \<noteq> None) \<and>
     (case ra_current_tool b of
        Some t \<Rightarrow> ra_stop b = None \<and> ra_tool_calls b = [] \<and> at_id t \<noteq> [] \<and> gemini_quiet d a \<and> ge_open_tools e = [(at_name t, tool_of t)]
      | None \<Rightarrow>
          if ra_stop b = None then
            ra_tool_calls b = [] \<and> gemini_quiet d a \<and> ge_open_tools e = [] \<or>
            (\<exists>t. ra_tool_calls b = [call_closed env t] \<and> json_wf num (fragments_value env (at_arguments t)) \<and>
               (gemini_quiet d a \<and> ge_open_tools e = [(at_name t, tool_of t)] \<or> gemini_holds env d a t \<and> ge_open_tools e = []))
          else ge_open_tools e = [] \<and> gd_tool d = tool_default \<and> ra_current_tool a = None \<and>
            ra_tool_calls a = map (gemini_heard_call env) (ra_tool_calls b))"

lemma gemini_heard_closed: "json_text_laws env num \<Longrightarrow> gemini_heard_call env (call_closed env t) = gemini_heard_call env t"
  using fragments_closed [of env num t] by (simp add: gemini_heard_call_def) (simp add: call_closed_def)

lemma gemini_head_quiet:
  assumes "gemini_head env d p v = (d', evs)"
  shows "gd_tool d' = gd_tool d \<and> gd_stopped d' = gd_stopped d \<and> gd_saw_tool_call d' = gd_saw_tool_call d"
    "ra_text (replay env a evs) = ra_text a" "ra_reasoning (replay env a evs) = ra_reasoning a"
    "ra_tool_calls (replay env a evs) = ra_tool_calls a" "ra_current_tool (replay env a evs) = ra_current_tool a"
    "ra_stop (replay env a evs) = ra_stop a"
  using assms by (auto simp: gemini_head_def Let_def split: option.splits if_splits)

lemma gemini_sim_head:
  assumes "gemini_head env d p v = (d', evs)" and "gemini_sim env num d e a b"
  shows "gemini_sim env num d' e (replay env a evs) b"
proof -
  note q = gemini_head_quiet(1) [OF assms(1)] gemini_head_quiet(2-6) [OF assms(1), where a = a]
  have "gemini_quiet d' (replay env a evs) = gemini_quiet d a" "gemini_holds env d' (replay env a evs) t = gemini_holds env d a t" for t
    using q by (simp_all add: gemini_quiet_def gemini_holds_def)
  with assms(2) q show ?thesis unfolding gemini_sim_def by (cases "ra_current_tool b"; cases "ra_stop b") simp_all
qed

text \<open>One chunk, in terms of its parts.\<close>

lemma gemini_chunk_step:
  assumes sim: "gemini_sim env num d e a b" and out: "decode_values env (gemini_decode env) d [gemini_chunk ps] = (d', evs)"
    and parts: "\<And>d1 a1 d2 out2. gemini_sim env num d1 e a1 b \<Longrightarrow> run_items (gemini_part_event env) d1 ps = (d2, out2) \<Longrightarrow>
      gemini_sim env num d2 e' (replay env a1 out2) b'"
  shows "gemini_sim env num d' e' (replay env a evs) b'"
proof -
  obtain d1 head where h: "gemini_head env d (we_print env (snd (gemini_chunk ps))) (snd (gemini_chunk ps)) = (d1, head)" by fastforce
  obtain d2 out2 where o: "run_items (gemini_part_event env) d1 ps = (d2, out2)" by fastforce
  have "d' = d2" "evs = head @ out2"
    using out h o by (auto simp: gemini_chunk_def gemini_decode_def gemini_candidate_def string_field_def)
  with parts [OF gemini_sim_head [OF h sim] o] show ?thesis by simp
qed

text \<open>Writing the pending call leaves the encoder with none.\<close>

lemma gemini_flush:
  assumes laws: "json_text_laws env num" and sim: "gemini_sim env num d e a b" and idle: "ra_current_tool b = None"
    and out: "decode_values env (gemini_decode env) d (flush_tools env e) = (d', evs)"
  shows "gemini_sim env num d' (e\<lparr>ge_open_tools := []\<rparr>) (replay env a evs) b"
proof (cases "ge_open_tools e")
  case Nil
  then have "d' = d" "evs = []" using out by (simp_all add: flush_tools_def)
  moreover have "e\<lparr>ge_open_tools := []\<rparr> = e" using Nil by (cases e) simp
  ultimately show ?thesis using sim by simp
next
  case (Cons x xs)
  then obtain t where t: "ra_stop b = None" "ra_tool_calls b = [call_closed env t]" "json_wf num (fragments_value env (at_arguments t))"
      "ge_open_tools e = [(at_name t, tool_of t)]"
    using sim idle by (auto simp: gemini_sim_def gemini_quiet_def split: if_splits)
  have "gemini_holds env d2 (replay env a1 out2) t"
    if "gemini_quiet d1 a1" "run_items (gemini_part_event env) d1 [JObject [(lit ''functionCall'', JObject [(lit ''name'', JString (at_name t)), (lit ''args'', tool_arguments env (tool_of t))])]] = (d2, out2)"
    for d1 a1 d2 out2
    using that by (auto simp: gemini_quiet_def gemini_holds_def gemini_part_event_def string_field_def Let_def push_arguments_def tool_start_def
        tool_default_def tool_arguments_of gemini_heard_call_def) (simp_all add: tool_of_def)
  moreover have "ra_text (replay env a1 out2) = ra_text a1 \<and> ra_reasoning (replay env a1 out2) = ra_reasoning a1 \<and> ra_stop (replay env a1 out2) = ra_stop a1 \<and> gd_stopped d2 = gd_stopped d1"
    if "run_items (gemini_part_event env) d1 [JObject [(lit ''functionCall'', JObject [(lit ''name'', JString (at_name t)), (lit ''args'', tool_arguments env (tool_of t))])]] = (d2, out2)"
    for d1 a1 d2 out2
    using that by (auto simp: gemini_part_event_def string_field_def Let_def)
  moreover have fl: "flush_tools env e = [gemini_chunk [JObject [(lit ''functionCall'', JObject [(lit ''name'', JString (at_name t)), (lit ''args'', tool_arguments env (tool_of t))])]]]"
    using t(4) by (simp add: flush_tools_def)
  ultimately show ?thesis
    using t idle by (intro gemini_chunk_step [OF sim out [unfolded fl]]) (simp add: gemini_sim_def, blast)
qed

text \<open>Text and reasoning: the pending call first, then the delta.\<close>

lemma gemini_delta_step:
  assumes laws: "json_text_laws env num" and sim: "gemini_sim env num d e a b" and idle: "ra_current_tool b = None"
    and out: "decode_values env (gemini_decode env) d (flush_tools env e @ [gemini_chunk [part]]) = (d', evs)"
    and part: "\<And>d1. gemini_part_event env d1 part = (d1, [ev])" and ev: "ev = EvTextDelta t \<or> ev = EvReasoningDelta t"
  shows "gemini_sim env num d' (e\<lparr>ge_open_tools := []\<rparr>) (replay env a evs) (accumulator_apply (we_print env) b ev)"
proof -
  obtain d1 out1 where o1: "decode_values env (gemini_decode env) d (flush_tools env e) = (d1, out1)" by fastforce
  obtain d2 out2 where o2: "decode_values env (gemini_decode env) d1 [gemini_chunk [part]] = (d2, out2)" by fastforce
  have "d' = d2" "evs = out1 @ out2" using out o1 o2 by (simp_all add: decode_values_append)
  moreover have "gemini_sim env num d2 (e\<lparr>ge_open_tools := []\<rparr>) (replay env (replay env a out1) out2) (accumulator_apply (we_print env) b ev)"
    by (rule gemini_chunk_step [OF gemini_flush [OF laws sim idle o1] o2])
      (use part idle ev in \<open>auto simp: gemini_sim_def gemini_quiet_def gemini_holds_def\<close>)
  ultimately show ?thesis by simp
qed

text \<open>The last frame: the pending call, its end, the reason to stop.\<close>

lemma gemini_stop_step:
  assumes laws: "json_text_laws env num" and sim: "gemini_sim env num d e a b" and idle: "ra_current_tool b = None" "ra_stop b = None"
    and out: "decode_values env (gemini_decode env) d (flush_tools env e @ [gemini_stop_frame e (stop_gemini r) usage]) = (d', evs)"
  shows "gemini_sim env num d' (e\<lparr>ge_open_tools := [], ge_finished := True\<rparr>) (replay env a evs) (accumulator_apply (we_print env) b (EvStop r))"
proof -
  let ?f = "gemini_stop_frame e (stop_gemini r) usage"
  obtain d1 out1 where o1: "decode_values env (gemini_decode env) d (flush_tools env e) = (d1, out1)" by fastforce
  note s1 = gemini_flush [OF laws sim idle(1) o1]
  obtain d2 head where h: "gemini_head env d1 (we_print env (snd ?f)) (snd ?f) = (d2, head)" by fastforce
  note s2 = gemini_sim_head [OF h s1]
  obtain d0 ended where c: "gemini_close env d2 = (d0, ended)" by fastforce
  have "\<not> gd_stopped d2" using s2 idle by (simp add: gemini_sim_def)
  then have fin: "d' = d0\<lparr>gd_stopped := True\<rparr>" "evs = out1 @ head @ ended @ [EvStop (gemini_stop r (gd_saw_tool_call d2))]"
    using out o1 h c
    by (auto simp: decode_values_append decode_values_Cons gemini_stop_frame_def gemini_decode_def gemini_candidate_def string_field_def gemini_stop_def Let_def)
  let ?a = "replay env (replay env a out1) head"
  consider (none) "ra_tool_calls b = []" "gemini_quiet d2 ?a"
    | (held) t where "ra_tool_calls b = [call_closed env t]" "json_wf num (fragments_value env (at_arguments t))" "gemini_holds env d2 ?a t"
    using s2 idle by (auto simp: gemini_sim_def)
  then show ?thesis
  proof cases
    case none
    then have "ended = []" "d0 = d2" using c by (auto simp: gemini_close_def gemini_quiet_def tool_is_empty_def tool_default_def)
    with none fin s2 idle show ?thesis by (simp add: gemini_sim_def gemini_quiet_def)
  next
    case held
    let ?v = "fragments_value env (at_arguments t)"
    have "tool_arguments env (tool_of (gemini_heard_call env t)) = ?v" "trim (we_print env ?v) \<noteq> []"
      using json_text_lawsD(1,5) [OF laws held(2)]
      by (simp_all add: tool_arguments_of) (simp add: gemini_heard_call_def fragments_value_def [of env "we_print env ?v"] tool_arguments_def)
    then have "ended = [EvToolCallEnd (lit ''call_'' @ at_name t) ?v]" "d0 = d2\<lparr>gd_tool := tool_default\<rparr>"
      using c held(3) by (auto simp: gemini_close_def gemini_holds_def tool_is_empty_def) (simp_all add: gemini_heard_call_def)
    with held fin s2 idle gemini_heard_closed [OF laws] \<open>trim (we_print env ?v) \<noteq> []\<close> show ?thesis
      by (simp add: gemini_sim_def gemini_holds_def Let_def) (simp add: gemini_heard_call_def)
  qed
qed

lemma gemini_step:
  assumes laws: "json_text_laws env num" and sim: "gemini_sim env num d e a b" and ord: "single_call env num b ev"
    and enc: "gemini_encode env e ev = (e', fs)" and out: "decode_values env (gemini_decode env) d fs = (d', evs)"
  shows "gemini_sim env num d' e' (replay env a evs) (accumulator_apply (we_print env) b ev)"
proof (cases ev)
  case (EvTextDelta t)
  show ?thesis
    using gemini_delta_step [OF laws sim, of "JObject [(lit ''text'', JString t)]" d' evs ev t] ord enc out EvTextDelta
    by (auto simp: gemini_part_event_def string_field_def)
next
  case (EvReasoningDelta t)
  show ?thesis
    using gemini_delta_step [OF laws sim, of "JObject [(lit ''text'', JString t), (lit ''thought'', JBool True)]" d' evs ev t] ord enc out EvReasoningDelta
    by (auto simp: gemini_part_event_def string_field_def)
next
  case (EvStop r)
  then show ?thesis using gemini_stop_step [OF laws sim, of r] ord enc out by auto
next
  case (EvToolCallStart i n)
  then show ?thesis using sim ord enc out by (auto simp: gemini_sim_def gemini_quiet_def tool_of_def tool_start_def tool_default_def)
next
  case (EvToolCallArgumentsDelta i f)
  then show ?thesis using sim ord enc out by (auto simp: gemini_sim_def push_arguments_def tool_of_def)
next
  case (EvToolCallEnd i v)
  then obtain t where t: "ra_current_tool b = Some t" "i = at_id t" "v = fragments_value env (at_arguments t)" "json_wf num v" using ord by auto
  have s: "ra_stop b = None" "ra_tool_calls b = []" "at_id t \<noteq> []" "gemini_quiet d a" "ge_open_tools e = [(at_name t, tool_of t)]"
    using sim t(1) by (simp_all add: gemini_sim_def)
  have b: "accumulator_apply (we_print env) b ev = b\<lparr>ra_current_tool := None, ra_tool_calls := [call_closed env t]\<rparr>"
    using EvToolCallEnd t s by (simp add: call_closed_def Let_def)
  have "d' = d" "evs = []" "e' = e"
    using enc out EvToolCallEnd s t by (auto simp: tool_arguments_of)
  with sim s t b show ?thesis by (simp add: gemini_sim_def) blast
next
  case (EvUsage u)
  then show ?thesis using sim ord enc out by (cases "ra_current_tool b") (auto simp: gemini_sim_def)
next
  case (EvError st m)
  then show ?thesis using enc out gemini_sim_head [OF _ sim] by (auto simp: gemini_decode_def split: prod.splits)
next
  case (EvStart i m u)
  then show ?thesis using sim enc out by (cases "ra_current_tool b") (auto simp: gemini_sim_def)
qed (use sim enc out in \<open>cases "ra_current_tool b"; auto simp: gemini_sim_def\<close>)+

lemma gemini_pending_ok:
  assumes "json_text_laws env num" and "gemini_sim env num d e a b" and "ra_current_tool b = None"
  shows "list_all (frame_ok num) (flush_tools env e)"
proof -
  have zero: "json_wf num (jnat 0)" using json_wf_jnat [OF assms(1)] by (simp add: U64_MAX_def)
  have "ge_open_tools e = [] \<or> (\<exists>t. ge_open_tools e = [(at_name t, tool_of t)] \<and> json_wf num (fragments_value env (at_arguments t)))"
    using assms(2,3) by (auto simp: gemini_sim_def split: if_splits)
  then show ?thesis using zero by (auto simp: flush_tools_def gemini_chunk_def frame_ok_def tool_arguments_of)
qed

lemma gemini_frames:
  assumes laws: "json_text_laws env num" and sim: "gemini_sim env num d e a b" and ord: "single_call env num b ev"
    and enc: "gemini_encode env e ev = (e', fs)"
  shows "list_all (frame_ok num) fs"
proof -
  note nums = json_wf_jnat [OF laws]
  have num: "json_wf num (jnat 0)" "json_wf num (jnat 502)" using nums by (simp_all add: U64_MAX_def)
  have u: "json_wf num (gemini_usage_value (ge_usage e))"
    using sim nums by (simp add: gemini_sim_def gemini_usage_value_def usage_ok_def usage_total_def sat_add_u64_def)
  show ?thesis
    by (cases ev) (use enc ord num u gemini_pending_ok [OF laws sim] in \<open>auto simp: gemini_chunk_def gemini_stop_frame_def frame_ok_def\<close>)
qed

interpretation gemini: stream_codec_law env num "lit ''a Gemini''" "gemini_decode env" "gemini_encode env" "single_call env num" "gemini_sim env num"
  for env num
  by unfold_locales (fact gemini_step gemini_frames)+

lemma gemini_start: "gemini_sim env num gemini_decoder_default (gemini_encoder_new model) accumulator_default accumulator_default"
  by (simp add: gemini_sim_def gemini_quiet_def gemini_decoder_default_def gemini_encoder_new_def accumulator_default_def usage_default_def usage_ok_def)

text \<open>A stream that was not ended is ended as a natural stop.\<close>

lemma gemini_finish_step:
  assumes laws: "json_text_laws env num" and sim: "gemini_sim env num d e a b" and idle: "ra_current_tool b = None"
    and out: "decode_values env (gemini_decode env) d (gemini_encode_finish env e) = (d', evs)"
  shows "\<exists>e'. gemini_sim env num d' e' (replay env a evs) (if ra_stop b = None then accumulator_apply (we_print env) b (EvStop EndTurn) else b)"
    and "list_all (frame_ok num) (gemini_encode_finish env e)"
proof -
  show "\<exists>e'. gemini_sim env num d' e' (replay env a evs) (if ra_stop b = None then accumulator_apply (we_print env) b (EvStop EndTurn) else b)"
  proof (cases "ra_stop b = None")
    case True
    then have f: "\<not> ge_finished e" using sim by (simp add: gemini_sim_def)
    have "flush_tools env e @ [gemini_stop_frame e (stop_gemini EndTurn) u] = gemini_encode_finish env e"
      if "u = JObject [(lit ''promptTokenCount'', jnat (cu_input (ge_usage e))), (lit ''candidatesTokenCount'', jnat (cu_output (ge_usage e))),
          (lit ''totalTokenCount'', jnat (usage_total (ge_usage e)))]" for u
      using that f by (simp add: gemini_encode_finish_def)
    from gemini_stop_step [OF laws sim idle True out [folded this [OF refl]]] show ?thesis using True by auto
  next
    case False
    then have "gemini_encode_finish env e = []" using sim by (simp add: gemini_sim_def gemini_encode_finish_def)
    then show ?thesis using out sim False by auto
  qed
  note nums = json_wf_jnat [OF laws]
  have "json_wf num (jnat 0)" using nums by (simp add: U64_MAX_def)
  moreover have "usage_ok (ge_usage e)" using sim by (simp add: gemini_sim_def)
  ultimately show "list_all (frame_ok num) (gemini_encode_finish env e)"
    using nums gemini_pending_ok [OF laws sim idle]
    by (simp add: gemini_encode_finish_def gemini_stop_frame_def frame_ok_def usage_ok_def usage_total_def sat_add_u64_def)
qed

lemma gemini_reply:
  assumes "gemini_sim env num d e a b" and "ra_current_tool b = None" and "ra_stop b \<noteq> None"
  shows "ra_text a = ra_text b" "ra_reasoning a = ra_reasoning b" "ra_tool_calls a = map (gemini_heard_call env) (ra_tool_calls b)"
    "ra_stop a = map_option (\<lambda>r. gemini_stop r (ra_tool_calls b \<noteq> [])) (ra_stop b)"
  using assms by (auto simp: gemini_sim_def)

section \<open>Facts about schemas and call ids\<close>

lemma lower_upper: "lowercase (uppercase s) = lowercase s" "lowercase (lowercase s) = lowercase s"
  "is_schema_type_name (uppercase s) = is_schema_type_name s" "is_schema_type_name (lowercase s) = is_schema_type_name s"
proof -
  show *: "lowercase (uppercase s) = lowercase s" "lowercase (lowercase s) = lowercase s"
    by (auto simp: lowercase_def uppercase_def to_ascii_lowercase_def)
  show "is_schema_type_name (uppercase s) = is_schema_type_name s" "is_schema_type_name (lowercase s) = is_schema_type_name s"
    by (simp_all add: is_schema_type_name_def *)
qed

lemma convert_type_back: "convert_type lowercase (convert_type uppercase v) = convert_type lowercase v"
  "convert_type lowercase (convert_type lowercase v) = convert_type lowercase v"
  by (cases v; simp add: lower_upper)+

text \<open>A schema that went to Gemini reads as the schema in the common spelling.\<close>

lemma schema_types_back:
  assumes "c \<in> {uppercase, lowercase}"
  shows "map_schema_types lowercase (map_schema_types c v) = map_schema_types lowercase v"
proof (induction lowercase v rule: map_schema_types.induct)
  case (1 kvs)
  have c: "convert_type lowercase (convert_type c v) = convert_type lowercase v" for v
    using assms convert_type_back by auto
  show ?case
    using 1 by (auto simp: c split: json.splits)
next
  case (2 vs)
  then show ?case by simp
qed simp_all

text \<open>The calls of a conversation, and its answers, with the names they are numbered by.\<close>

fun call_of :: "content_part \<Rightarrow> (ustring \<times> ustring) option" where
  "call_of (ToolCall i n _) = Some (i, n)"
| "call_of _ = None"

fun answer_of :: "content_part \<Rightarrow> (ustring \<times> ustring) option" where
  "answer_of (ToolResult i _ _) = Some (i, case strip_prefix GEMINI_CALL_ID_PREFIX i of Some n \<Rightarrow> n | None \<Rightarrow> i)"
| "answer_of _ = None"

definition calls_of :: "canonical_message list \<Rightarrow> (ustring \<times> ustring) list" where
  "calls_of ms = List.map_filter call_of (concat (map cm_parts ms))"

definition answers_of :: "canonical_message list \<Rightarrow> (ustring \<times> ustring) list" where
  "answers_of ms = List.map_filter answer_of (concat (map cm_parts ms))"

text \<open>The ids that numbering gives to a list of calls.\<close>

fun numbered :: "(ustring \<Rightarrow> nat) \<Rightarrow> (ustring \<times> ustring) list \<Rightarrow> ustring list" where
  "numbered c [] = []"
| "numbered c ((i, n) # xs) = with_ordinal i (c n + 1) # numbered (c(n := c n + 1)) xs"

lemma assign_parts_numbers:
  assumes "assign_parts (c, r) ps = ((c', r'), qs)"
  shows "map fst (List.map_filter call_of (qs @ zs)) = numbered c (List.map_filter call_of ps) @ map fst (List.map_filter call_of zs)"
    and "numbered c (List.map_filter call_of ps @ ys) = numbered c (List.map_filter call_of ps) @ numbered c' ys"
    and "map fst (List.map_filter answer_of (qs @ zs)) = numbered r (List.map_filter answer_of ps) @ map fst (List.map_filter answer_of zs)"
    and "numbered r (List.map_filter answer_of ps @ ys) = numbered r (List.map_filter answer_of ps) @ numbered r' ys"
  using assms
proof (induction ps arbitrary: c r qs)
  case (Cons p ps)
  { case 1 then show ?case using Cons.IH(1) by (cases p) (auto simp: map_filter_simps Let_def split: prod.splits) }
  { case 2 then show ?case using Cons.IH(2) by (cases p) (auto simp: map_filter_simps Let_def split: prod.splits) }
  { case 3 then show ?case using Cons.IH(3) by (cases p) (auto simp: map_filter_simps Let_def split: prod.splits) }
  { case 4 then show ?case using Cons.IH(4) by (cases p) (auto simp: map_filter_simps Let_def split: prod.splits) }
qed (simp_all add: map_filter_simps)

lemma assign_messages_numbers:
  "map fst (calls_of (assign_messages (c, r) ms)) = numbered c (calls_of ms) \<and>
   map fst (answers_of (assign_messages (c, r) ms)) = numbered r (answers_of ms)"
proof (induction ms arbitrary: c r)
  case (Cons m ms)
  obtain c' r' qs where a: "assign_parts (c, r) (cm_parts m) = ((c', r'), qs)" by (metis prod.exhaust)
  show ?case using a Cons.IH assign_parts_numbers [OF a] by (simp add: calls_of_def answers_of_def map_filter_append)
qed (simp add: calls_of_def answers_of_def map_filter_simps)

text \<open>The number of a call: how often its name has occurred up to it.\<close>

definition occurrence :: "(ustring \<times> ustring) list \<Rightarrow> nat \<Rightarrow> nat" where
  "occurrence xs j = length (filter (\<lambda>(i, n). n = snd (xs ! j)) (take (Suc j) xs))"

lemma length_numbered [simp]: "length (numbered c xs) = length xs"
  by (induction xs arbitrary: c) auto

lemma numbered_nth:
  "j < length xs \<Longrightarrow> numbered c xs ! j = with_ordinal (fst (xs ! j)) (c (snd (xs ! j)) + occurrence xs j)"
proof (induction xs arbitrary: c j)
  case (Cons x xs)
  then show ?case by (cases x; cases j) (auto simp: occurrence_def)
qed simp

lemma occurrence_mono: "i < j \<Longrightarrow> j < length xs \<Longrightarrow> snd (xs ! i) = snd (xs ! j) \<Longrightarrow> occurrence xs i < occurrence xs j"
proof -
  assume a: "i < j" "j < length xs" "snd (xs ! i) = snd (xs ! j)"
  have cut: "take (Suc j) xs = take (Suc i) xs @ take (j - i) (drop (Suc i) xs)"
    using a(1) take_add [of "Suc i" "j - i" xs] by simp
  have "take (j - i) (drop (Suc i) xs) ! (j - Suc i) = xs ! j" "j - Suc i < length (take (j - i) (drop (Suc i) xs))" using a(1,2) by auto
  then have "xs ! j \<in> set (take (j - i) (drop (Suc i) xs))" by (metis nth_mem)
  then have "filter (\<lambda>(p, n). n = snd (xs ! j)) (take (j - i) (drop (Suc i) xs)) \<noteq> []"
    by (auto simp: filter_empty_conv case_prod_beta)
  with a(3) show ?thesis unfolding occurrence_def cut by simp
qed

text \<open>A name that does not end like a numbered id.\<close>

definition unnumbered_name :: "ustring \<Rightarrow> bool" where
  "unnumbered_name n \<longleftrightarrow> (\<nexists>z k. n = z @ lit ''__'' @ dec_string k)"

lemma split_str_found: "d \<noteq> [] \<Longrightarrow> split_str d (a @ d @ b) \<noteq> None"
proof (induction a)
  case Nil
  then show ?case by (cases "d @ b") (use strip_prefix_append [of d b] in auto)
next
  case (Cons c a)
  then show ?case by (auto split: option.split)
qed

lemma dec_string_no_bar: "95 \<notin> set (dec_string n)"
  using dec_string_digits [of 95 n] by (auto simp: is_ascii_digit_def)

text \<open>A numbered id tells the name and the number.\<close>

lemma with_ordinal_inj:
  assumes "with_ordinal (p @ m) j = with_ordinal (p @ n) k" and "unnumbered_name m" and "unnumbered_name n" and "1 \<le> j" and "1 \<le> k"
  shows "m = n \<and> j = k"
proof -
  have bar: "lit ''__'' = [95, 95]" by (simp add: lit_def)
  have tail: "x = y \<and> j = k" if "x @ [95, 95] @ dec_string j = y @ [95, 95] @ dec_string k" for x y
  proof -
    have cut: "takeWhile (\<lambda>c. c \<noteq> 95) (rev (z @ [95, 95] @ dec_string l)) = rev (dec_string l)" for z l
      using takeWhile_append2 [of "rev (dec_string l)" "\<lambda>c. c \<noteq> 95" "95 # 95 # rev z"] dec_string_no_bar [of l] by auto
    have "takeWhile (\<lambda>c. c \<noteq> 95) (rev (x @ [95, 95] @ dec_string j)) = takeWhile (\<lambda>c. c \<noteq> 95) (rev (y @ [95, 95] @ dec_string k))"
      by (simp only: that)
    then have "rev (dec_string j) = rev (dec_string k)" by (simp only: cut)
    then have "dec_string j = dec_string k" by simp
    moreover from this have "j = k" by (metis dec_value_dec_string)
    ultimately show ?thesis using that by simp
  qed
  have plain: "m \<noteq> n' @ [95, 95] @ dec_string z" if "unnumbered_name m" for m n' z
    using that by (auto simp: unnumbered_name_def bar)
  consider "1 < j" "1 < k" | "1 < j" "k = 1" | "j = 1" "1 < k" | "j = 1" "k = 1" using assms(4,5) by linarith
  then show ?thesis
  proof cases
    case 1
    then show ?thesis using assms(1) tail [of "p @ m" "p @ n"] by (simp add: with_ordinal_def bar)
  next
    case 2
    then show ?thesis using assms(1) plain [OF assms(3), of m j] by (simp add: with_ordinal_def bar)
  next
    case 3
    then show ?thesis using assms(1) plain [OF assms(2), of n k] by (simp add: with_ordinal_def bar)
  qed (use assms(1) in \<open>simp add: with_ordinal_def\<close>)
qed

lemma map_filter_source: "y \<in> set (List.map_filter f xs) \<Longrightarrow> \<exists>x \<in> set xs. f x = Some y"
  by (induction xs) (auto simp: map_filter_simps split: option.splits)

lemma gemini_calls_named:
  assumes "(i, n) \<in> set (calls_of (map (gemini_message env) cs))"
  shows "i = GEMINI_CALL_ID_PREFIX @ n"
proof -
  have part: "i = GEMINI_CALL_ID_PREFIX @ n" if "gemini_part env v = Some p" "call_of p = Some (i, n)" for v p i n
    using that by (auto simp: gemini_part_def gemini_text_def Let_def split: option.splits if_splits)
  from assms obtain p c where "p \<in> set (cm_parts (gemini_message env c))" "call_of p = Some (i, n)"
    unfolding calls_of_def by (auto dest!: map_filter_source)
  then show ?thesis using part by (auto simp: gemini_message_def gemini_parts_def Let_def split: option.splits dest!: map_filter_source)
qed

lemma gemini_answers_named:
  assumes "(i, n) \<in> set (answers_of (map (gemini_message env) cs))"
  shows "i = GEMINI_CALL_ID_PREFIX @ n"
proof -
  have part: "i = GEMINI_CALL_ID_PREFIX @ n" if "gemini_part env v = Some p" "answer_of p = Some (i, n)" for v p i n
    using that by (auto simp: gemini_part_def gemini_text_def Let_def split: option.splits if_splits)
  from assms obtain p c where "p \<in> set (cm_parts (gemini_message env c))" "answer_of p = Some (i, n)"
    unfolding answers_of_def by (auto dest!: map_filter_source)
  then show ?thesis using part by (auto simp: gemini_message_def gemini_parts_def Let_def split: option.splits dest!: map_filter_source)
qed

section \<open>Properties\<close>

text \<open>A streamed reply with at most one tool call survives the Gemini wire: a client that reads what the
  encoder writes, to the end of the stream, rebuilds the same text, reasoning and call; a call is told by its
  name and the value of its arguments, and a natural end after a call reads as a tool call.\<close>
lemma gemini_stream_round_trip:
  assumes "json_text_laws env num" and "admitted (single_call env num) env accumulator_default evs"
    and "encode_events (gemini_encode env) (gemini_encoder_new model) evs = (e', fs)"
    and "ra_current_tool (accumulate (we_print env) evs) = None"
  shows "\<exists>d' out. decode_frames (decode_data env (lit ''a Gemini'') (gemini_decode env)) gemini_decoder_default
        (parse_sse (frames_text env (fs @ gemini_encode_finish env e'))) = Inr (d', out) \<and>
     (let got = accumulate (we_print env) out; sent = accumulate (we_print env) evs in
      ra_text got = ra_text sent \<and> ra_reasoning got = ra_reasoning sent \<and>
      ra_tool_calls got = map (gemini_heard_call env) (ra_tool_calls sent) \<and>
      ra_stop got = Some (gemini_stop (case ra_stop sent of Some r \<Rightarrow> r | None \<Rightarrow> EndTurn) (ra_tool_calls sent \<noteq> [])))"
proof -
  let ?b = "replay env accumulator_default evs"
  note run = gemini.run [OF assms(1) gemini_start assms(2,3)]
  obtain d1 out1 where o1: "decode_values env (gemini_decode env) gemini_decoder_default fs = (d1, out1)" by fastforce
  obtain d2 out2 where o2: "decode_values env (gemini_decode env) d1 (gemini_encode_finish env e') = (d2, out2)" by fastforce
  have idle: "ra_current_tool ?b = None" using assms(4) by (simp add: accumulate_def)
  have sim: "gemini_sim env num d1 e' (replay env accumulator_default out1) ?b" using run o1 by blast
  note fin = gemini_finish_step [OF assms(1) sim idle o2]
  obtain e2 where sim2: "gemini_sim env num d2 e2 (replay env (replay env accumulator_default out1) out2)
      (if ra_stop ?b = None then accumulator_apply (we_print env) ?b (EvStop EndTurn) else ?b)" using fin(1) by blast
  have all: "list_all (frame_ok num) (fs @ gemini_encode_finish env e')" using run fin(2) by simp
  have "decode_values env (gemini_decode env) gemini_decoder_default (fs @ gemini_encode_finish env e') = (d2, out1 @ out2)"
    using o1 o2 by (simp add: decode_values_append)
  then have "decode_frames (decode_data env (lit ''a Gemini'') (gemini_decode env)) gemini_decoder_default
      (parse_sse (frames_text env (fs @ gemini_encode_finish env e'))) = Inr (d2, out1 @ out2)"
    using parse_frames [OF assms(1) all] decode_frames_values [OF assms(1) all, of "lit ''a Gemini''" "gemini_decode env" gemini_decoder_default] by simp
  moreover note gemini_reply [OF sim2]
  ultimately show ?thesis
    using idle by (cases "ra_stop ?b") (auto simp: accumulate_def Let_def)
qed

lemma gemini_stream_round_trip_witness:
  "\<exists>d' out. decode_frames (decode_data sample_wire (lit ''a Gemini'') (gemini_decode sample_wire)) gemini_decoder_default
       (parse_sse (frames_text sample_wire (snd (encode_events (gemini_encode sample_wire) (gemini_encoder_new []) sample_events) @
          gemini_encode_finish sample_wire (fst (encode_events (gemini_encode sample_wire) (gemini_encoder_new []) sample_events))))) = Inr (d', out) \<and>
     ra_text (accumulate (we_print sample_wire) out) = lit ''hello'' \<and> length (ra_tool_calls (accumulate (we_print sample_wire) out)) = 1 \<and>
     ra_stop (accumulate (we_print sample_wire) out) = Some ToolUse"
proof -
  have "gemini_stop ToolUse True = ToolUse" by (simp add: gemini_stop_def from_gemini_def)
  moreover have "ra_tool_calls (accumulate (we_print sample_wire) sample_events) \<noteq> []" using sample_reply(2) by auto
  ultimately show ?thesis
    using gemini_stream_round_trip [OF sample_wire_laws sample_single_call(1) surjective_pairing sample_single_call(2), of "[]"] sample_reply
    by (auto simp: Let_def)
qed

text \<open>C19: Gemini gives calls no ids; the ids the gateway makes for the turns of a conversation are distinct,
  however often a tool is called, and an answer gets the id of the call of its name with the same number.
  Tool names that themselves end in two underscores and a number are excluded (with them ids
  collide, \<open>gemini_ordinal_collision\<close>); other double underscores, as in
  \<open>mcp__server__tool\<close>, are not.\<close>
theorem gemini_call_ids_pair:
  assumes plain: "list_all unnumbered_name (map snd (calls_of (map (gemini_message env) contents)))"
  shows "distinct (map fst (calls_of (assign_call_ordinals (map (gemini_message env) contents)))) \<and>
    (\<forall>i < length (answers_of (map (gemini_message env) contents)). \<forall>j < length (calls_of (map (gemini_message env) contents)).
       snd (answers_of (map (gemini_message env) contents) ! i) = snd (calls_of (map (gemini_message env) contents) ! j) \<and>
       occurrence (answers_of (map (gemini_message env) contents)) i = occurrence (calls_of (map (gemini_message env) contents)) j \<longrightarrow>
       map fst (answers_of (assign_call_ordinals (map (gemini_message env) contents))) ! i =
       map fst (calls_of (assign_call_ordinals (map (gemini_message env) contents))) ! j)"
proof -
  let ?ms = "map (gemini_message env) contents"
  let ?calls = "calls_of ?ms" and ?answers = "answers_of ?ms"
  have ids: "map fst (calls_of (assign_call_ordinals ?ms)) = numbered (\<lambda>_. 0) ?calls" "map fst (answers_of (assign_call_ordinals ?ms)) = numbered (\<lambda>_. 0) ?answers"
    by (simp_all add: assign_call_ordinals_def assign_messages_numbers)
  have call: "numbered (\<lambda>_. 0) ?calls ! j = with_ordinal (GEMINI_CALL_ID_PREFIX @ snd (?calls ! j)) (occurrence ?calls j)" if "j < length ?calls" for j
    using that numbered_nth [OF that] gemini_calls_named [of "fst (?calls ! j)" "snd (?calls ! j)" env contents] by simp
  have answer: "numbered (\<lambda>_. 0) ?answers ! j = with_ordinal (GEMINI_CALL_ID_PREFIX @ snd (?answers ! j)) (occurrence ?answers j)" if "j < length ?answers" for j
    using that numbered_nth [OF that] gemini_answers_named [of "fst (?answers ! j)" "snd (?answers ! j)" env contents] by simp
  have one: "1 \<le> occurrence ?calls j" if "j < length ?calls" for j
    using that by (simp add: occurrence_def take_Suc_conv_app_nth case_prod_beta)
  have "distinct (numbered (\<lambda>_. 0) ?calls)"
    unfolding distinct_conv_nth
  proof (intro allI impI)
    fix i j assume i: "i < length (numbered (\<lambda>_. 0) ?calls)" and j: "j < length (numbered (\<lambda>_. 0) ?calls)" and "i \<noteq> j"
    then have "unnumbered_name (snd (?calls ! i))" "unnumbered_name (snd (?calls ! j))" using plain by (auto simp: list_all_length)
    moreover have "snd (?calls ! i) = snd (?calls ! j) \<Longrightarrow> occurrence ?calls i \<noteq> occurrence ?calls j"
      using occurrence_mono [of i j ?calls] occurrence_mono [of j i ?calls] i j \<open>i \<noteq> j\<close> by (cases "i < j") auto
    ultimately show "numbered (\<lambda>_. 0) ?calls ! i \<noteq> numbered (\<lambda>_. 0) ?calls ! j"
      using with_ordinal_inj one i j call by auto
  qed
  with ids call answer show ?thesis by simp
qed

lemma unnumbered_letter: "n \<noteq> [] \<Longrightarrow> \<not> is_ascii_digit (last n) \<Longrightarrow> unnumbered_name n"
proof -
  assume n: "n \<noteq> []" "\<not> is_ascii_digit (last n)"
  have "dec_string k \<noteq> []" for k by (subst dec_string.simps) simp
  then have "last (z @ lit ''__'' @ dec_string k) \<in> set (dec_string k)" for z k by simp
  then show ?thesis using n(2) dec_string_digits unfolding unnumbered_name_def by metis
qed

lemma gemini_call_ids_pair_witness:
  "distinct (map fst (calls_of (assign_call_ordinals (map (gemini_message sample_wire)
     [JObject [(lit ''parts'', JArray [JObject [(lit ''functionCall'', JObject [(lit ''name'', jstr ''mcp__s__a'')])], JObject [(lit ''functionCall'', JObject [(lit ''name'', jstr ''mcp__s__a'')])]])]]))))"
proof -
  have "unnumbered_name (lit ''mcp__s__a'')" by (rule unnumbered_letter) (simp_all add: is_ascii_digit_def lit_def)
  then show ?thesis
    using gemini_call_ids_pair [of sample_wire "[JObject [(lit ''parts'', JArray [JObject [(lit ''functionCall'', JObject [(lit ''name'', jstr ''mcp__s__a'')])], JObject [(lit ''functionCall'', JObject [(lit ''name'', jstr ''mcp__s__a'')])]])]]"]
    by (simp add: calls_of_def gemini_message_def gemini_parts_def gemini_part_def map_filter_simps string_field_def Let_def)
qed

text \<open>A tool survives its declaration to Gemini: what is declared, read back, is the tool with the types of its parameters in the common spelling, nested schemas included, whatever the
  caller's own names and values look like.\<close>
lemma gemini_tool_round_trip:
  "gemini_tool (gemini_tool_value t) = t\<lparr>td_parameters := lowercase_schema_types (td_parameters t), td_strict := False\<rparr>"
  using schema_types_back [of uppercase "td_parameters t"]
  by (simp add: gemini_tool_def gemini_tool_value_def string_field_def lowercase_schema_types_def uppercase_schema_types_def)

section \<open>Where the codec loses something\<close>

text \<open>Of two calls in one streamed reply the first is lost from the reply put together: its end is never
  told and the start of the second takes its place.\<close>

lemma gemini_parallel_call_lost:
  assumes "trim (we_print env v2) \<noteq> []"
  shows "ra_tool_calls (accumulate (we_print env) (snd (gemini_candidate env gemini_decoder_default
     (JObject [(lit ''content'', JObject [(lit ''parts'', JArray [JObject [(lit ''functionCall'', JObject [(lit ''name'', JString n1), (lit ''args'', v1)])],
         JObject [(lit ''functionCall'', JObject [(lit ''name'', JString n2), (lit ''args'', v2)])]])]), (lit ''finishReason'', jstr ''STOP'')])))) =
    [\<lparr>at_id = lit ''call_'' @ n2, at_name = n2, at_arguments = we_print env v2\<rparr>]"
  using assms
  by (simp add: gemini_candidate_def gemini_part_event_def string_field_def Let_def gemini_decoder_default_def gemini_close_def
      tool_is_empty_def tool_start_def push_arguments_def tool_default_def accumulate_def accumulator_default_def)

text \<open>A request to think is never read as disabled from what the gateway itself writes.\<close>

lemma gemini_disabled_unread: "\<not> gemini_disabled env (JObject (gemini_generation env r))"
proof -
  have "map_of (gemini_generation env r) (lit ''thinkingBudget'') = None"
    by (simp add: gemini_generation_def opt_field_def Let_def split: option.split)
  then show ?thesis by (simp add: gemini_disabled_def number_field_def split: option.split json.split)
qed

text \<open>The name in an answer is cut at the first double underscore of the tool's own name.\<close>

lemma gemini_call_name_cut:
  assumes "95 \<notin> set n"
  shows "gemini_call_name (GEMINI_CALL_ID_PREFIX @ n @ lit ''__'' @ rest) = n"
  using assms split_str_skip [of n "lit ''__''" rest] by (simp add: gemini_call_name_def Let_def) (simp add: lit_def)

text \<open>A tool whose name looks like a numbered call shares its id with one.\<close>

lemma gemini_ordinal_collision:
  "with_ordinal (GEMINI_CALL_ID_PREFIX @ n) 2 = with_ordinal (GEMINI_CALL_ID_PREFIX @ (n @ lit ''__2'')) 1"
  by (simp add: with_ordinal_def) (simp add: lit_def dec_string.simps)

end
