(* ===== verification/Wire.thy ===== *)
theory Wire
  imports Wire_Anthropic Wire_Chat Wire_Responses Wire_Gemini
begin

text \<open>
  The dispatch over the four protocols, \<open>crates/model-gateway/src/wire/mod.rs\<close>: \<open>parse_request\<close>,
  \<open>build_upstream_request\<close>, \<open>render_response\<close>, \<open>parse_reply\<close>, \<open>decoder\<close> and \<open>encoder\<close>. The objects
  behind the traits are a datatype each; \<open>wire_codec\<close> is the record of functions that the reply path
  calls and \<open>build_upstream_request\<close> the builder that the preparation of a request calls.
\<close>

section \<open>Requests and whole replies\<close>

text \<open>\<open>serde_json::from_slice\<close>: bytes that are no UTF-8 are no JSON.\<close>

definition parse_slice :: "wire_env \<Rightarrow> nat list \<Rightarrow> json option" where
  "parse_slice env bytes = (let s = utf8_lossy bytes in if utf8_encode s = bytes then we_parse env s else None)"

definition parse_request :: "wire_env \<Rightarrow> wire_protocol \<Rightarrow> nat list \<Rightarrow> gateway_error + canonical_request" where
  "parse_request env p body =
     (case parse_slice env body of
        None \<Rightarrow> Inl (MalformedRequest (lit ''the body is not valid JSON''))
      | Some v \<Rightarrow> (case p of
          ChatCompletions \<Rightarrow> chat_parse_request env v
        | Responses \<Rightarrow> responses_parse_request env v
        | AnthropicMessages \<Rightarrow> anthropic_parse_request env v
        | GeminiGenerateContent \<Rightarrow> gemini_parse_request env v))"

definition build_request :: "wire_env \<Rightarrow> wire_protocol \<Rightarrow> canonical_request \<Rightarrow> gateway_error + json" where
  "build_request env p r =
     (case p of
        ChatCompletions \<Rightarrow> chat_build_request env r
      | Responses \<Rightarrow> responses_build_request env r
      | AnthropicMessages \<Rightarrow> anthropic_build_request env r
      | GeminiGenerateContent \<Rightarrow> gemini_build_request env r)"

definition build_upstream_request :: "wire_env \<Rightarrow> codec" where
  "build_upstream_request env p r model stream =
     (if has_vendor_file_image r then Inl UnsupportedImageReference
      else and_then (build_request env p r) (\<lambda>v.
        Inr (case v of JObject kvs \<Rightarrow> JObject (obj_insert (lit ''stream'') (JBool stream) (obj_insert (lit ''model'') (JString model) kvs)) | _ \<Rightarrow> v)))"

definition render_response :: "wire_env \<Rightarrow> wire_protocol \<Rightarrow> canonical_response \<Rightarrow> json" where
  "render_response env p r =
     (case p of
        ChatCompletions \<Rightarrow> chat_render_response env r
      | Responses \<Rightarrow> responses_render_response env r
      | AnthropicMessages \<Rightarrow> anthropic_render_response r
      | GeminiGenerateContent \<Rightarrow> gemini_render_response r)"

definition parse_reply :: "wire_env \<Rightarrow> wire_protocol \<Rightarrow> nat list \<Rightarrow> gateway_error + canonical_response" where
  "parse_reply env p body =
     (case parse_slice env body of
        None \<Rightarrow> Inl (UpstreamError 502 (lit ''the upstream reply is not valid JSON''))
      | Some v \<Rightarrow> (case p of
          ChatCompletions \<Rightarrow> chat_parse_response env v
        | Responses \<Rightarrow> responses_parse_response env v
        | AnthropicMessages \<Rightarrow> anthropic_parse_response v
        | GeminiGenerateContent \<Rightarrow> gemini_parse_response env v))"

section \<open>Decoders and encoders\<close>

datatype any_decoder = ChatDec chat_decoder | ResponsesDec responses_decoder | AnthropicDec anthropic_decoder | GeminiDec gemini_decoder
datatype any_encoder = ChatEnc chat_encoder | ResponsesEnc responses_encoder | AnthropicEnc anthropic_encoder | GeminiEnc gemini_encoder

fun wire_decoder :: "wire_protocol \<Rightarrow> any_decoder" where
  "wire_decoder ChatCompletions = ChatDec chat_decoder_default"
| "wire_decoder Responses = ResponsesDec responses_decoder_default"
| "wire_decoder AnthropicMessages = AnthropicDec anthropic_decoder_default"
| "wire_decoder GeminiGenerateContent = GeminiDec gemini_decoder_default"

fun wire_encoder :: "wire_protocol \<Rightarrow> ustring \<Rightarrow> any_encoder" where
  "wire_encoder ChatCompletions model = ChatEnc (chat_encoder_new model)"
| "wire_encoder Responses model = ResponsesEnc (responses_encoder_new model)"
| "wire_encoder AnthropicMessages model = AnthropicEnc (anthropic_encoder_new model)"
| "wire_encoder GeminiGenerateContent model = GeminiEnc (gemini_encoder_new model)"

abbreviation rewrap :: "('d \<Rightarrow> any_decoder) \<Rightarrow> gateway_error + 'd \<times> canonical_event list \<Rightarrow> gateway_error + any_decoder \<times> canonical_event list" where
  "rewrap K \<equiv> map_sum (\<lambda>e. e) (map_prod K (\<lambda>evs. evs))"

fun wire_decode :: "wire_env \<Rightarrow> any_decoder \<Rightarrow> ustring \<Rightarrow> gateway_error + any_decoder \<times> canonical_event list" where
  "wire_decode env (ChatDec d) payload = rewrap ChatDec (chat_decode_data env d payload)"
| "wire_decode env (ResponsesDec d) payload = rewrap ResponsesDec (decode_data env (lit ''a Responses'') (responses_decode env) d payload)"
| "wire_decode env (AnthropicDec d) payload = rewrap AnthropicDec (decode_data env (lit ''an Anthropic'') (anthropic_decode env) d payload)"
| "wire_decode env (GeminiDec d) payload = rewrap GeminiDec (decode_data env (lit ''a Gemini'') (gemini_decode env) d payload)"

fun wire_decode_finish :: "wire_env \<Rightarrow> any_decoder \<Rightarrow> canonical_event list" where
  "wire_decode_finish env (ChatDec d) = chat_decode_finish env d"
| "wire_decode_finish env (ResponsesDec d) = responses_decode_finish env d"
| "wire_decode_finish env (AnthropicDec d) = anthropic_decode_finish env d"
| "wire_decode_finish env (GeminiDec d) = gemini_decode_finish env d"

fun wire_encode :: "wire_env \<Rightarrow> any_encoder \<Rightarrow> canonical_event \<Rightarrow> any_encoder \<times> ustring" where
  "wire_encode env (ChatEnc e) ev = map_prod ChatEnc (frames_text env) (chat_encode e ev)"
| "wire_encode env (ResponsesEnc e) ev = map_prod ResponsesEnc (frames_text env) (responses_encode env e ev)"
| "wire_encode env (AnthropicEnc e) ev = map_prod AnthropicEnc (frames_text env) (anthropic_encode e ev)"
| "wire_encode env (GeminiEnc e) ev = map_prod GeminiEnc (frames_text env) (gemini_encode env e ev)"

fun wire_encode_finish :: "wire_env \<Rightarrow> any_encoder \<Rightarrow> ustring" where
  "wire_encode_finish env (ChatEnc e) = chat_finish_text"
| "wire_encode_finish env (ResponsesEnc e) = []"
| "wire_encode_finish env (AnthropicEnc e) = frames_text env (anthropic_encode_finish e)"
| "wire_encode_finish env (GeminiEnc e) = frames_text env (gemini_encode_finish env e)"

fun wire_keepalive :: "any_encoder \<Rightarrow> ustring option" where
  "wire_keepalive (ChatEnc e) = Some chat_keepalive"
| "wire_keepalive (ResponsesEnc e) = Some responses_keepalive"
| "wire_keepalive (AnthropicEnc e) = Some anthropic_keepalive"
| "wire_keepalive (GeminiEnc e) = None"

definition wire_codec :: "wire_env \<Rightarrow> (any_decoder, any_encoder) stream_codec" where
  "wire_codec env =
     \<lparr>sc_decode = (\<lambda>d payload. case wire_decode env d payload of Inl e \<Rightarrow> (d, Inl e) | Inr (d1, evs) \<Rightarrow> (d1, Inr evs)),
      sc_decode_finish = (\<lambda>d. Inr (wire_decode_finish env d)),
      sc_encode = (\<lambda>e ev. case wire_encode env e ev of (e1, text) \<Rightarrow> (e1, Inr text)),
      sc_encode_finish = (\<lambda>e. Inr (wire_encode_finish env e)),
      sc_keepalive = wire_keepalive, sc_decoder = wire_decoder, sc_encoder = wire_encoder\<rparr>"

text \<open>What a client is sent for a list of events, and what it makes of it.\<close>

fun wire_encode_all :: "wire_env \<Rightarrow> any_encoder \<Rightarrow> canonical_event list \<Rightarrow> any_encoder \<times> ustring" where
  "wire_encode_all env e [] = (e, [])"
| "wire_encode_all env e (ev # evs) =
     (let (e1, text) = wire_encode env e ev; (e2, rest) = wire_encode_all env e1 evs in (e2, text @ rest))"

definition wire_sent :: "wire_env \<Rightarrow> wire_protocol \<Rightarrow> ustring \<Rightarrow> canonical_event list \<Rightarrow> ustring" where
  "wire_sent env p model evs =
     (case wire_encode_all env (wire_encoder p model) evs of (e, text) \<Rightarrow> text @ wire_encode_finish env e)"

definition wire_read :: "wire_env \<Rightarrow> wire_protocol \<Rightarrow> ustring \<Rightarrow> gateway_error + canonical_event list" where
  "wire_read env p text =
     (case decode_frames (wire_decode env) (wire_decoder p) (parse_sse text) of
        Inl e \<Rightarrow> Inl e
      | Inr (d, evs) \<Rightarrow> Inr (evs @ wire_decode_finish env d))"

section \<open>From the dispatch to the codecs\<close>

lemma frames_text_append: "frames_text env (fs @ gs) = frames_text env fs @ frames_text env gs"
  by (simp add: frames_text_def)

lemma wire_encode_all_frames:
  assumes "\<And>e ev. wire_encode env (K e) ev = map_prod K (frames_text env) (enc e ev)"
  shows "wire_encode_all env (K e) evs = map_prod K (frames_text env) (encode_events enc e evs)"
proof (induction evs arbitrary: e)
  case (Cons ev evs)
  then show ?case using assms by (auto simp: frames_text_append split: prod.split)
qed (simp add: frames_text_def)

lemma wire_decode_frames:
  assumes "\<And>d s. wire_decode env (K d) s = rewrap K (dec d s)"
  shows "decode_frames (wire_decode env) (K d) frames = rewrap K (decode_frames dec d frames)"
proof (induction frames arbitrary: d)
  case (Cons f frames)
  obtain ev s where "f = (ev, s)" by fastforce
  with Cons assms [of d s] show ?case by (cases "dec d s") (auto split: sum.split prod.split)
qed simp

lemma single_call_responses: "single_call env num a ev \<Longrightarrow> responses_admits env num a ev"
  by (cases ev) auto

text \<open>What a reply and the reply a client rebuilds agree on in every protocol.\<close>

definition same_reply :: "wire_env \<Rightarrow> reply_accumulator \<Rightarrow> reply_accumulator \<Rightarrow> bool" where
  "same_reply env a b \<longleftrightarrow> ra_text a = ra_text b \<and> ra_reasoning a = ra_reasoning b \<and>
     map (\<lambda>t. (at_name t, fragments_value env (at_arguments t))) (ra_tool_calls a) =
     map (\<lambda>t. (at_name t, fragments_value env (at_arguments t))) (ra_tool_calls b)"

lemma parse_done: "parse_sse chat_finish_text = [(None, DONE)]"
  using parse_data_frame [of DONE] by (simp add: chat_finish_text_def DONE_def) (simp add: lit_def)

lemma decode_frames_append:
  "decode_frames dec d (xs @ ys) = (case decode_frames dec d xs of Inl e \<Rightarrow> Inl e
     | Inr (d1, evs) \<Rightarrow> (case decode_frames dec d1 ys of Inl e \<Rightarrow> Inl e | Inr (d2, rest) \<Rightarrow> Inr (d2, evs @ rest)))"
proof (induction xs arbitrary: d)
  case Nil
  show ?case by (auto split: sum.split)
next
  case (Cons x xs)
  then show ?case by (cases x) (auto split: sum.split)
qed

lemma frames_decoded:
  assumes "json_text_laws env num" and "list_all (frame_ok num) fs" and "decode_values env dec d fs = r"
  shows "decode_frames (decode_data env what dec) d (parse_sse (frames_text env fs)) = Inr r"
  using parse_frames [OF assms(1,2)] decode_frames_values [OF assms(1,2), of what dec d] assms(3) by simp

text \<open>The end of an Anthropic stream.\<close>

lemma anthropic_ends_quietly:
  assumes laws: "json_text_laws env num" and sim: "anthropic_sim d e a b" and idle: "ra_current_tool b = None"
    and out: "decode_values env (anthropic_decode env) d (anthropic_encode_finish e) = (d', evs)"
  shows "list_all (frame_ok num) (anthropic_encode_finish e)" and "evs @ anthropic_decode_finish env d' \<in> {[], [EvStop EndTurn]}"
proof -
  obtain e1 closed where c: "close_block e = (e1, closed)" by fastforce
  note s = close_block_silent [OF sim idle c]
  obtain th where th: "decode_values env (anthropic_decode env) d closed = (d\<lparr>ad_thinking := th\<rparr>, [])" using s(1) by blast
  have t: "ad_tool d = tool_default" using sim idle by (simp add: anthropic_sim_def)
  have quiet: "close_tool env tool_default = []" by (simp add: close_tool_def tool_is_empty_def tool_default_def)
  show "list_all (frame_ok num) (anthropic_encode_finish e)"
    using sim c json_wf_jnat [OF laws]
    by (auto simp: anthropic_encode_finish_def message_stop_frame_def frame_ok_def close_block_def anthropic_sim_def split: option.splits)
  show "evs @ anthropic_decode_finish env d' \<in> {[], [EvStop EndTurn]}"
    using out c th t quiet
    by (auto simp: anthropic_encode_finish_def anthropic_decode_finish_def decode_values_append decode_values_Cons decode_message_stop split: if_splits)
qed

lemma wire_read_anthropic:
  assumes "json_text_laws env num" and "admitted (orderly env num) env accumulator_default evs"
    and "ra_current_tool (accumulate (we_print env) evs) = None"
  shows "\<exists>out. wire_read env AnthropicMessages (wire_sent env AnthropicMessages model evs) = Inr out \<and>
    same_reply env (accumulate (we_print env) out) (accumulate (we_print env) evs)"
proof -
  obtain e' fs where enc: "encode_events anthropic_encode (anthropic_encoder_new model) evs = (e', fs)" by fastforce
  note run = anthropic.run [OF assms(1) anthropic_start assms(2) enc]
  obtain d1 out1 where o1: "decode_values env (anthropic_decode env) anthropic_decoder_default fs = (d1, out1)" by fastforce
  obtain d2 out2 where o2: "decode_values env (anthropic_decode env) d1 (anthropic_encode_finish e') = (d2, out2)" by fastforce
  have sim: "anthropic_sim d1 e' (replay env accumulator_default out1) (replay env accumulator_default evs)" using run o1 by blast
  note fin = anthropic_ends_quietly [OF assms(1) sim _ o2] assms(3)
  have all: "list_all (frame_ok num) (fs @ anthropic_encode_finish e')" using run fin by (simp add: accumulate_def)
  have both: "decode_values env (anthropic_decode env) anthropic_decoder_default (fs @ anthropic_encode_finish e') = (d2, out1 @ out2)" using o1 o2 by (simp add: decode_values_append)
  have sent: "wire_sent env AnthropicMessages model evs = frames_text env (fs @ anthropic_encode_finish e')"
    using wire_encode_all_frames [of env AnthropicEnc anthropic_encode] enc by (simp add: wire_sent_def frames_text_append)
  have "decode_frames (wire_decode env) (AnthropicDec anthropic_decoder_default) (parse_sse (frames_text env (fs @ anthropic_encode_finish e'))) =
      Inr (AnthropicDec d2, out1 @ out2)"
    using wire_decode_frames [of env AnthropicDec "decode_data env (lit ''an Anthropic'') (anthropic_decode env)"] frames_decoded [OF assms(1) all both] by simp
  moreover obtain tail where "tail = out2 @ anthropic_decode_finish env d2" "tail \<in> {[], [EvStop EndTurn]}" using fin by (simp add: accumulate_def)
  ultimately have "wire_read env AnthropicMessages (wire_sent env AnthropicMessages model evs) = Inr (out1 @ tail)" "tail \<in> {[], [EvStop EndTurn]}"
    by (simp_all add: wire_read_def sent)
  then show ?thesis using sim by (auto simp: same_reply_def accumulate_def anthropic_sim_def)
qed

lemma wire_read_responses:
  assumes "json_text_laws env num" and "admitted (responses_admits env num) env accumulator_default evs"
    and "ra_current_tool (accumulate (we_print env) evs) = None"
  shows "\<exists>out. wire_read env Responses (wire_sent env Responses model evs) = Inr out \<and>
    same_reply env (accumulate (we_print env) out) (accumulate (we_print env) evs)"
proof -
  obtain e' fs where enc: "encode_events (responses_encode env) (responses_encoder_new model) evs = (e', fs)" by fastforce
  obtain d' out where d: "decode_frames (decode_data env (lit ''a Responses'') (responses_decode env)) responses_decoder_default
        (parse_sse (frames_text env fs)) = Inr (d', out)"
      "responses_sim d' e' (replay env accumulator_default out) (replay env accumulator_default evs)"
    using responses.read_back [OF assms(1) responses_start assms(2) enc] by blast
  have core: "responses_core d' (replay env accumulator_default out) (replay env accumulator_default evs)" using d(2) by (simp add: responses_sim_def)
  have sent: "wire_sent env Responses model evs = frames_text env fs"
    using wire_encode_all_frames [of env ResponsesEnc "responses_encode env"] enc by (simp add: wire_sent_def)
  have "wire_read env Responses (wire_sent env Responses model evs) = Inr (out @ responses_decode_finish env d')"
    using wire_decode_frames [of env ResponsesDec "decode_data env (lit ''a Responses'') (responses_decode env)"] d(1)
    by (simp add: wire_read_def sent)
  moreover have "responses_decode_finish env d' \<in> {[], [EvStop EndTurn]}"
    using responses_finish_reply [OF core, of env] assms(3) by (simp add: accumulate_def)
  ultimately show ?thesis using core by (auto simp: same_reply_def accumulate_def responses_core_def)
qed

lemma wire_read_chat:
  assumes "json_text_laws env num" and "admitted (single_call env num) env accumulator_default evs"
    and "ra_current_tool (accumulate (we_print env) evs) = None"
  shows "\<exists>out. wire_read env ChatCompletions (wire_sent env ChatCompletions model evs) = Inr out \<and>
    same_reply env (accumulate (we_print env) out) (accumulate (we_print env) evs)"
proof -
  obtain e' fs where enc: "encode_events chat_encode (chat_encoder_new model) evs = (e', fs)" by fastforce
  note run = chat.run [OF assms(1) chat_start assms(2) enc]
  obtain d' out where o: "decode_values env (chat_decode env) chat_decoder_default fs = (d', out)" by fastforce
  have sim: "chat_sim env d' e' (replay env accumulator_default out) (replay env accumulator_default evs)" using run o by blast
  have sent: "wire_sent env ChatCompletions model evs = frames_text env fs @ chat_finish_text"
    using wire_encode_all_frames [of env ChatEnc chat_encode] enc by (simp add: wire_sent_def)
  have trim: "trim DONE = DONE" by code_simp
  have same: "decode_frames (chat_decode_data env) d fs = decode_frames (decode_data env (lit ''a Chat'') (chat_decode env)) d fs" for d fs
    unfolding chat_decode_data_def [abs_def] by (rule decode_frames_done)
  have "decode_frames (chat_decode_data env) chat_decoder_default (parse_sse (frames_text env fs @ chat_finish_text)) = Inr (d', out)"
    using parse_frames_then [OF assms(1), of fs chat_finish_text] run decode_frames_values [OF assms(1), of fs "lit ''a Chat''" "chat_decode env"] o
    by (simp add: same parse_done decode_frames_append trim)
  then have "wire_read env ChatCompletions (wire_sent env ChatCompletions model evs) = Inr (out @ chat_decode_finish env d')"
    using wire_decode_frames [of env ChatDec "chat_decode_data env"] by (simp add: wire_read_def sent)
  then show ?thesis
    using chat_finish_reply [OF sim] assms(3) by (auto simp: same_reply_def accumulate_def)
qed

lemma wire_read_gemini:
  assumes "json_text_laws env num" and "admitted (single_call env num) env accumulator_default evs"
    and "ra_current_tool (accumulate (we_print env) evs) = None"
  shows "\<exists>out. wire_read env GeminiGenerateContent (wire_sent env GeminiGenerateContent model evs) = Inr out \<and>
    same_reply env (accumulate (we_print env) out) (accumulate (we_print env) evs)"
proof -
  let ?b = "replay env accumulator_default evs"
  obtain e' fs where enc: "encode_events (gemini_encode env) (gemini_encoder_new model) evs = (e', fs)" by fastforce
  note run = gemini.run [OF assms(1) gemini_start assms(2) enc]
  obtain d1 out1 where o1: "decode_values env (gemini_decode env) gemini_decoder_default fs = (d1, out1)" by fastforce
  obtain d2 out2 where o2: "decode_values env (gemini_decode env) d1 (gemini_encode_finish env e') = (d2, out2)" by fastforce
  have idle: "ra_current_tool ?b = None" using assms(3) by (simp add: accumulate_def)
  have sim: "gemini_sim env num d1 e' (replay env accumulator_default out1) ?b" using run o1 by blast
  note fin = gemini_finish_step [OF assms(1) sim idle o2]
  let ?c = "if ra_stop ?b = None then accumulator_apply (we_print env) ?b (EvStop EndTurn) else ?b"
  obtain e2 where sim2: "gemini_sim env num d2 e2 (replay env (replay env accumulator_default out1) out2) ?c" using fin(1) by blast
  have all: "list_all (frame_ok num) (fs @ gemini_encode_finish env e')" using run fin(2) by simp
  have both: "decode_values env (gemini_decode env) gemini_decoder_default (fs @ gemini_encode_finish env e') = (d2, out1 @ out2)" using o1 o2 by (simp add: decode_values_append)
  have sent: "wire_sent env GeminiGenerateContent model evs = frames_text env (fs @ gemini_encode_finish env e')"
    using wire_encode_all_frames [of env GeminiEnc "gemini_encode env"] enc by (simp add: wire_sent_def frames_text_append)
  have "decode_frames (wire_decode env) (GeminiDec gemini_decoder_default) (parse_sse (frames_text env (fs @ gemini_encode_finish env e'))) =
      Inr (GeminiDec d2, out1 @ out2)"
    using wire_decode_frames [of env GeminiDec "decode_data env (lit ''a Gemini'') (gemini_decode env)"] frames_decoded [OF assms(1) all both] by simp
  moreover have "ra_current_tool ?c = None" "ra_stop ?c \<noteq> None" using idle by auto
  then have "gemini_decode_finish env d2 = []" using sim2
    by (auto simp: gemini_sim_def gemini_decode_finish_def gemini_close_def tool_is_empty_def tool_default_def)
  ultimately have read: "wire_read env GeminiGenerateContent (wire_sent env GeminiGenerateContent model evs) = Inr (out1 @ out2)"
    by (simp add: wire_read_def sent)
  have wf: "list_all (\<lambda>t. json_wf num (fragments_value env (at_arguments t))) (ra_tool_calls ?b)"
    using admitted_calls_wf [OF assms(1) admitted_mono [OF single_call_orderly assms(2)]] by (simp add: accumulator_default_def)
  have "map (\<lambda>t. (at_name t, fragments_value env (at_arguments t))) (map (gemini_heard_call env) ts) = map (\<lambda>t. (at_name t, fragments_value env (at_arguments t))) ts"
    if "list_all (\<lambda>t. json_wf num (fragments_value env (at_arguments t))) ts" for ts
    using that fragments_value_print [OF assms(1)] by (auto simp: gemini_heard_call_def list_all_iff)
  from this [OF wf] read gemini_reply [OF sim2 \<open>ra_current_tool ?c = None\<close> \<open>ra_stop ?c \<noteq> None\<close>] show ?thesis
    by (auto simp: same_reply_def accumulate_def split: if_splits)
qed

section \<open>The reply path with these codecs\<close>

text \<open>Relaying events and frames through \<open>wire_codec\<close> is encoding what was decoded.\<close>

lemma relay_events_wire:
  assumes "re_codec env = wire_codec w"
  shows "foldl (relay_event env) st evs =
    (case wire_encode_all w (rl_encoder st) (map (restore_event (re_names env)) evs) of (e, text) \<Rightarrow>
       st\<lparr>rl_encoder := e, rl_reply := foldl (accumulator_apply (re_print env)) (rl_reply st) (map (restore_event (re_names env)) evs),
          rl_out := rl_out st @ text\<rparr>)"
proof (induction evs arbitrary: st)
  case (Cons ev evs)
  have "relay_event env st ev =
    (case wire_encode w (rl_encoder st) (restore_event (re_names env) ev) of (e, text) \<Rightarrow>
       st\<lparr>rl_encoder := e, rl_reply := accumulator_apply (re_print env) (rl_reply st) (restore_event (re_names env) ev), rl_out := rl_out st @ text\<rparr>)"
    by (simp add: relay_event_def assms wire_codec_def Let_def split: prod.split)
  then show ?case by (auto simp: Cons.IH split: prod.splits)
qed simp

lemma wire_encode_all_append:
  "wire_encode_all w e (xs @ ys) =
     (case wire_encode_all w e xs of (e1, t1) \<Rightarrow> case wire_encode_all w e1 ys of (e2, t2) \<Rightarrow> (e2, t1 @ t2))"
  by (induction xs arbitrary: e) (auto split: prod.splits)

lemma relay_frames_wire:
  assumes "re_codec env = wire_codec w" and "decode_frames (wire_decode w) (rl_decoder st) frames = Inr (d', evs)"
  shows "foldl (relay_frame env) st frames = (foldl (relay_event env) st evs)\<lparr>rl_decoder := d'\<rparr>"
  using assms(2)
proof (induction frames arbitrary: st evs)
  case (Cons f frames)
  obtain event payload where f: "f = (event, payload)" by fastforce
  show ?case
  proof (cases "trim payload = DONE")
    case True
    then show ?thesis using Cons f by (simp add: relay_frame_def)
  next
    case False
    with Cons.prems f obtain d1 evs1 evs2 where d: "wire_decode w (rl_decoder st) payload = Inr (d1, evs1)"
        "decode_frames (wire_decode w) d1 frames = Inr (d', evs2)" "evs = evs1 @ evs2"
      by (auto split: sum.splits)
    let ?st = "foldl (relay_event env) (st\<lparr>rl_decoder := d1\<rparr>) evs1"
    have "relay_frame env st f = ?st" using False f d(1) by (simp add: relay_frame_def assms(1) wire_codec_def)
    moreover have "rl_decoder ?st = d1" by (simp add: relay_events_wire [OF assms(1)] split: prod.split)
    then have "foldl (relay_frame env) ?st frames = (foldl (relay_event env) ?st evs2)\<lparr>rl_decoder := d'\<rparr>"
      using Cons.IH [of ?st evs2] d(2) by simp
    moreover have "(foldl (relay_event env) ?st evs2)\<lparr>rl_decoder := d'\<rparr> = (foldl (relay_event env) st evs)\<lparr>rl_decoder := d'\<rparr>"
      by (simp add: d(3) relay_events_wire [OF assms(1)] split: prod.split)
    ultimately show ?thesis by simp
  qed
qed simp

lemma translate_wire:
  assumes "re_codec env = wire_codec w" and "wire_read w p text = Inr evs"
    and "rl_decoder st = wire_decoder p" and "rl_encoder st = wire_encoder q model" and "rl_out st = []" and "rl_error st = None"
  shows "fst (translate_text env st text) = wire_sent w q model (map (restore_event (re_names env)) evs)"
    and "rl_error (foldl (relay_frame env) st (parse_sse text)) = None"
proof -
  obtain d evs1 where d: "decode_frames (wire_decode w) (wire_decoder p) (parse_sse text) = Inr (d, evs1)" "evs = evs1 @ wire_decode_finish w d"
    using assms(2) by (auto simp: wire_read_def split: sum.splits)
  let ?r = "(foldl (relay_event env) st evs1)\<lparr>rl_decoder := d\<rparr>"
  have r: "foldl (relay_frame env) st (parse_sse text) = ?r" using relay_frames_wire [OF assms(1)] d(1) assms(3) by simp
  have fe: "final_events env ?r = wire_decode_finish w d" by (simp add: final_events_def assms(1) wire_codec_def)
  have ft: "final_text env x = wire_encode_finish w (rl_encoder x)" for x by (simp add: final_text_def assms(1) wire_codec_def)
  show "fst (translate_text env st text) = wire_sent w q model (map (restore_event (re_names env)) evs)"
    unfolding translate_text_def r Let_def fe ft using assms(4,5) d(2)
    by (simp add: relay_events_wire [OF assms(1)] wire_sent_def wire_encode_all_append split: prod.split)
  show "rl_error (foldl (relay_frame env) st (parse_sse text)) = None"
    using assms(6) by (simp add: r relay_events_wire [OF assms(1)] split: prod.split)
qed

lemma forward_start_wire:
  assumes "re_codec env = wire_codec w"
  shows "rl_decoder (fw_relay (forward_start env ac)) = wire_decoder (ua_target (ac_attempt ac))"
    "\<exists>model. rl_encoder (fw_relay (forward_start env ac)) = wire_encoder (pc_inbound (ac_call ac)) model"
    "rl_out (fw_relay (forward_start env ac)) = []" "rl_error (fw_relay (forward_start env ac)) = None"
  by (auto simp: forward_start_def assms wire_codec_def Let_def)

text \<open>All four protocols.\<close>

lemma wire_reply_kept:
  assumes "json_text_laws env num" and "admitted (single_call env num) env accumulator_default evs"
    and "ra_current_tool (accumulate (we_print env) evs) = None"
  shows "\<exists>out. wire_read env p (wire_sent env p model evs) = Inr out \<and>
    same_reply env (accumulate (we_print env) out) (accumulate (we_print env) evs)"
proof (cases p)
  case AnthropicMessages
  then show ?thesis using wire_read_anthropic [OF assms(1) admitted_mono [OF single_call_orderly assms(2)] assms(3)] by simp
next
  case Responses
  then show ?thesis using wire_read_responses [OF assms(1) admitted_mono [OF single_call_responses assms(2)] assms(3)] by simp
qed (use wire_read_chat [OF assms] wire_read_gemini [OF assms] in simp_all)

section \<open>Properties\<close>

text \<open>C5: Whatever protocol a client speaks, it rebuilds a reply whose call comes in fragments: for the events of
  a reply in order with at most one tool call, which has an id and a name and ends with the value of its
  fragments, and at most one reason to stop, the text the gateway writes in that protocol, terminal bytes
  included, read by the protocol's own decoder to its end, gives the same text, the same reasoning and the
  same call by name and argument value. A call whose arguments come whole, on its end, is not covered: the
  Chat and the Anthropic encoder drop them.\<close>
theorem wire_stream_keeps_reply:
  assumes "json_text_laws env num" and "admitted (single_call env num) env accumulator_default evs"
    and "ra_current_tool (accumulate (we_print env) evs) = None"
  shows "\<exists>out. wire_read env p (wire_sent env p model evs) = Inr out \<and>
    same_reply env (accumulate (we_print env) out) (accumulate (we_print env) evs)"
  by (rule wire_reply_kept [OF assms])

lemma wire_stream_keeps_reply_witness:
  "\<exists>out. wire_read sample_wire Responses (wire_sent sample_wire Responses [] sample_events) = Inr out \<and>
    same_reply sample_wire (accumulate (we_print sample_wire) out) (accumulate (we_print sample_wire) sample_events)"
  by (rule wire_stream_keeps_reply [OF sample_wire_laws sample_single_call])

text \<open>C2: A translated reply reaches the client: the upstream streams in its protocol, cut anywhere between
  characters, the gateway translates, and a client that reads what it was sent in its own protocol (keep-alive
  comments aside) rebuilds the text, the reasoning and the tool call the upstream sent, under the client's
  own tool names. The upstream's reply is one whose events come in order with at most one tool call, in
  fragments that its end repeats; a call whose arguments an upstream sends whole is not covered (Chat and
  Anthropic clients get it without them). The client stays and the first token comes in time.\<close>
theorem translated_reply_reaches_client:
  assumes laws: "json_text_laws w num" and codec: "re_codec env = wire_codec w"
    and "\<not> ua_passthrough (ac_attempt ac)" and "map snd (rb_chunks body) = map (Some \<circ> utf8_encode) parts"
    and "\<forall>part \<in> set parts. \<forall>c \<in> set part. scalar_value c"
    and "on_time (first_token_deadline (ac_call ac) (ua_profile_id (ac_attempt ac))) (rb_ended_at body) (rb_chunks body)"
    and "forward env ac body always elapsed gw = (gw', sent)"
    and read: "wire_read w (ua_target (ac_attempt ac)) (concat parts) = Inr evs"
    and "admitted (single_call w num) w accumulator_default (map (restore_event (re_names env)) evs)"
    and "ra_current_tool (accumulate (we_print w) (map (restore_event (re_names env)) evs)) = None"
  shows "\<exists>out. wire_read w (pc_inbound (ac_call ac)) (written sent) = Inr out \<and>
    same_reply w (accumulate (we_print w) out) (accumulate (we_print w) (map (restore_event (re_names env)) evs))"
proof -
  note start = forward_start_wire [OF codec, of ac]
  obtain model where m: "rl_encoder (fw_relay (forward_start env ac)) = wire_encoder (pc_inbound (ac_call ac)) model" using start(2) by blast
  note tr = translate_wire [OF codec read start(1) m start(3,4)]
  have "written sent = wire_sent w (pc_inbound (ac_call ac)) model (map (restore_event (re_names env)) evs)"
    using forward_translation [OF assms(3-6) tr(2) assms(7)] tr(1) by simp
  with wire_reply_kept [OF laws assms(9,10)] show ?thesis by metis
qed

text \<open>A Chat upstream that says one word to an Anthropic client.\<close>

definition hi_frame :: wire_frame where
  "hi_frame = (None, JObject [(lit ''choices'', JArray [JObject [(lit ''delta'', JObject [(lit ''content'', jstr ''hi'')])]])])"

definition sample_wire_env :: "(any_decoder, any_encoder) relay_env" where
  "sample_wire_env = \<lparr>re_codec = wire_codec sample_wire, re_parse = we_parse sample_wire, re_print = we_print sample_wire,
     re_names = \<lparr>original_to_wire = Map.empty, wire_to_original = Map.empty\<rparr>\<rparr>"

definition sample_anthropic_answer :: answer_context where
  "sample_anthropic_answer = (sample_answer False)\<lparr>ac_call := sample_call\<lparr>pc_inbound := AnthropicMessages\<rparr>\<rparr>"

lemma sample_word_read:
  "wire_read sample_wire ChatCompletions (frames_text sample_wire [hi_frame]) = Inr [EvStart [] [] usage_default, EvTextDelta (lit ''hi''), EvStop EndTurn]"
proof -
  have ok: "list_all (frame_ok (\<lambda>_. True)) [hi_frame]" by (simp add: hi_frame_def frame_ok_def)
  have "decode_values sample_wire (chat_decode sample_wire) chat_decoder_default [hi_frame] =
      (chat_decoder_default\<lparr>cd_started := True\<rparr>, [EvStart [] [] usage_default, EvTextDelta (lit ''hi'')])"
    by (simp add: hi_frame_def chat_decode_def chat_head_def not_null_def chat_choice_def string_field_def delta_text_def Let_def chat_decoder_default_def)
  from frames_decoded [OF sample_wire_laws ok this, of "lit ''a Chat''"]
  have "decode_frames (chat_decode_data sample_wire) chat_decoder_default (parse_sse (frames_text sample_wire [hi_frame])) =
      Inr (chat_decoder_default\<lparr>cd_started := True\<rparr>, [EvStart [] [] usage_default, EvTextDelta (lit ''hi'')])"
    unfolding chat_decode_data_def [abs_def] decode_frames_done .
  then show ?thesis
    using wire_decode_frames [of sample_wire ChatDec "chat_decode_data sample_wire"]
    by (simp add: wire_read_def chat_decode_finish_def close_chat_tool_def chat_decoder_default_def tool_is_empty_def tool_default_def)
qed

lemma translated_reply_reaches_client_witness:
  "\<exists>sent out. snd (forward sample_wire_env sample_anthropic_answer
       \<lparr>rb_chunks = [(1, Some (utf8_encode (frames_text sample_wire [hi_frame])))], rb_ended_at = 3\<rparr> always 4 sample_gateway) = sent \<and>
     wire_read sample_wire AnthropicMessages (written sent) = Inr out \<and> ra_text (accumulate (we_print sample_wire) out) = lit ''hi''"
proof -
  let ?body = "\<lparr>rb_chunks = [(1, Some (utf8_encode (frames_text sample_wire [hi_frame])))], rb_ended_at = 3\<rparr>"
  let ?evs = "[EvStart [] [] usage_default, EvTextDelta (lit ''hi''), EvStop EndTurn]"
  obtain gw' sent where f: "forward sample_wire_env sample_anthropic_answer ?body always 4 sample_gateway = (gw', sent)" by fastforce
  have names: "map (restore_event (re_names sample_wire_env)) ?evs = ?evs"
    by (simp add: restore_event_def names_is_empty_def sample_wire_env_def)
  have chars: "\<forall>part \<in> set [frames_text sample_wire [hi_frame]]. \<forall>c \<in> set part. scalar_value c"
    by (auto simp: frames_text_def hi_frame_def sse_frame_def sample_wire_def scalar_value_def lit_def)
  have time: "on_time (first_token_deadline (ac_call sample_anthropic_answer) (ua_profile_id (ac_attempt sample_anthropic_answer))) (rb_ended_at ?body) (rb_chunks ?body)"
    by (simp add: on_time_def sample_anthropic_answer_def sample_answer_def first_token_deadline_def sample_call_def member_of_call_def sample_target_def)
  have adm: "admitted (single_call sample_wire (\<lambda>_. True)) sample_wire accumulator_default ?evs"
    "ra_current_tool (accumulate (we_print sample_wire) ?evs) = None" "ra_text (accumulate (we_print sample_wire) ?evs) = lit ''hi''"
    by (simp_all add: accumulator_default_def usage_ok_def usage_default_def accumulate_def)
  have "\<exists>out. wire_read sample_wire AnthropicMessages (written sent) = Inr out \<and>
      same_reply sample_wire (accumulate (we_print sample_wire) out) (accumulate (we_print sample_wire) ?evs)"
    using translated_reply_reaches_client [OF sample_wire_laws _ _ _ chars time f, of ?evs] names adm sample_word_read
    by (simp add: sample_wire_env_def sample_anthropic_answer_def sample_answer_def)
  with f adm(3) show ?thesis by (auto simp: same_reply_def)
qed

end
