(* ===== verification/Remote_Sync.thy ===== *)
theory Remote_Sync
  imports Canonical_IR "HOL-Library.AList"
begin

text \<open>
  How a remote client keeps up with the desktop, \<open>crates/vibex-remote-client/src/sync.rs\<close> and the
  event queue of \<open>transport.rs\<close>. The engine holds one cursor per domain (a generation and a sequence
  number) and decides for each live event whether it is the next one, a duplicate, stale, or a sign
  that something was missed. The transport queues the events with their decisions for its consumer,
  with a bound.

  Facts: no event is applied twice and cursors never go back; as long as only live events come, the
  events a consumer applies have no gap that it is not told of; the queue stays bounded. Two ways in
  which the queue does lose an event silently are stated at the end.
\<close>

section \<open>Events and cursors\<close>

record remote_event =
  rv_event_id :: ustring
  rv_channel :: ustring
  rv_generation :: nat
  rv_sequence :: nat
  rv_correlation_id :: "ustring option"
  rv_payload :: "json option"
  rv_emitted_at_ms :: int

record stream_cursor =
  sc_domain :: ustring
  sc_generation :: nat
  sc_cursor :: nat

record domain_cursor =
  dc_domain :: ustring
  dc_generation :: nat
  dc_cursor :: nat
  dc_snapshot_version :: "ustring option"

definition domain_cursor_new :: "ustring \<Rightarrow> domain_cursor" where
  "domain_cursor_new d = \<lparr>dc_domain = d, dc_generation = 0, dc_cursor = 0, dc_snapshot_version = None\<rparr>"

definition as_stream_cursor :: "domain_cursor \<Rightarrow> stream_cursor" where
  "as_stream_cursor c = \<lparr>sc_domain = dc_domain c, sc_generation = dc_generation c, sc_cursor = dc_cursor c\<rparr>"

datatype sync_decision =
    Apply
  | IgnoreDuplicate
  | IgnoreStaleGeneration
  | CatchUp (cu_domain: ustring) (cu_generation: nat) (cu_after: nat)
  | Resync (rs_domain: ustring) (rs_generation: nat) (rs_reason: ustring) (rs_operation: ustring)

datatype sync_apply_error =
    UnknownDomain ustring
  | SnapshotGenerationRewound ustring nat nat
  | SnapshotCursorRewound ustring nat nat nat

section \<open>The engine\<close>

record sync_engine =
  se_domains :: "(ustring \<times> domain_cursor) list"
  se_ephemeral :: "ustring list"
  se_pending :: "remote_event list"
  se_max_pending :: nat
  se_dropped :: nat
  se_paused :: bool

definition sync_engine_new :: "nat \<Rightarrow> sync_engine" where
  "sync_engine_new max_pending =
     \<lparr>se_domains = [], se_ephemeral = [], se_pending = [], se_max_pending = max max_pending 1, se_dropped = 0, se_paused = False\<rparr>"

definition register_domain :: "ustring \<Rightarrow> sync_engine \<Rightarrow> sync_engine" where
  "register_domain d en =
     (case map_of (se_domains en) d of
        Some _ \<Rightarrow> en
      | None \<Rightarrow> en\<lparr>se_domains := AList.update d (domain_cursor_new d) (se_domains en)\<rparr>)"

definition register_domains :: "ustring list \<Rightarrow> sync_engine \<Rightarrow> sync_engine" where
  "register_domains ds en = fold register_domain ds en"

definition register_ephemeral_domain :: "ustring \<Rightarrow> sync_engine \<Rightarrow> sync_engine" where
  "register_ephemeral_domain d en =
     (let en1 = register_domain d en in en1\<lparr>se_ephemeral := List.insert d (se_ephemeral en1)\<rparr>)"

definition set_cursor :: "ustring \<Rightarrow> domain_cursor \<Rightarrow> sync_engine \<Rightarrow> sync_engine" where
  "set_cursor d c en = en\<lparr>se_domains := AList.update d c (se_domains en)\<rparr>"

definition seed_cursor :: "sync_engine \<Rightarrow> stream_cursor \<Rightarrow> sync_engine" where
  "seed_cursor en sc =
     (if sc_domain sc \<in> set (se_ephemeral en) then en
      else let en1 = register_domain (sc_domain sc) en in
        case map_of (se_domains en1) (sc_domain sc) of
          None \<Rightarrow> en1
        | Some st \<Rightarrow>
            if sc_generation sc > dc_generation st \<or> sc_generation sc = dc_generation st \<and> sc_cursor sc > dc_cursor st
            then set_cursor (sc_domain sc)
              (st\<lparr>dc_generation := sc_generation sc, dc_cursor := sc_cursor sc, dc_snapshot_version := None\<rparr>) en1
            else en1)"

definition seed_cursors :: "stream_cursor list \<Rightarrow> sync_engine \<Rightarrow> sync_engine" where
  "seed_cursors cs en = foldl seed_cursor en cs"

definition cursors :: "sync_engine \<Rightarrow> stream_cursor list" where
  "cursors en =
     map as_stream_cursor (filter (\<lambda>c. dc_domain c \<notin> set (se_ephemeral en)) (map snd (sort_key fst (se_domains en))))"

definition resume_after_refetch :: "sync_engine \<Rightarrow> sync_engine" where
  "resume_after_refetch en = en\<lparr>se_paused := False, se_pending := []\<rparr>"

definition rewind :: "domain_cursor \<Rightarrow> domain_cursor" where
  "rewind c = c\<lparr>dc_generation := 0, dc_cursor := 0, dc_snapshot_version := None\<rparr>"

definition reset_for_session_epoch :: "sync_engine \<Rightarrow> sync_engine" where
  "reset_for_session_epoch en = resume_after_refetch (en\<lparr>se_domains := map (map_prod id rewind) (se_domains en)\<rparr>)"

definition reset_for_reconnect :: "sync_engine \<Rightarrow> sync_engine" where
  "reset_for_reconnect en =
     resume_after_refetch (en\<lparr>se_domains :=
       map (\<lambda>(d, c). (d, if d \<in> set (se_ephemeral en) then rewind c else c)) (se_domains en)\<rparr>)"

definition pause_for_resync :: "sync_engine \<Rightarrow> sync_engine" where
  "pause_for_resync en = en\<lparr>se_paused := True\<rparr>"

definition same_event :: "remote_event \<Rightarrow> remote_event \<Rightarrow> bool" where
  "same_event a b \<longleftrightarrow> rv_channel a = rv_channel b \<and> rv_generation a = rv_generation b \<and> rv_sequence a = rv_sequence b"

definition enqueue :: "remote_event \<Rightarrow> sync_engine \<Rightarrow> sync_engine" where
  "enqueue ev en =
     (if list_ex (same_event ev) (se_pending en) then en
      else let en1 = (if length (se_pending en) \<ge> se_max_pending en
               then en\<lparr>se_pending := tl (se_pending en), se_dropped := sat_add_u64 (se_dropped en) 1\<rparr> else en)
        in en1\<lparr>se_pending := se_pending en1 @ [ev]\<rparr>)"

definition sync_observe :: "remote_event \<Rightarrow> sync_engine \<Rightarrow> sync_engine \<times> sync_decision" where
  "sync_observe ev en =
     (let d = rv_channel ev in
      case map_of (se_domains en) d of
        None \<Rightarrow> (register_domain d en, Resync d (rv_generation ev) (lit ''event arrived for an unregistered domain'') (lit ''info''))
      | Some c \<Rightarrow>
          if se_paused en then
            (enqueue ev en, Resync d (dc_generation c) (lit ''domain sync is paused pending authoritative refetch'') (dc_domain c))
          else if dc_generation c = 0 \<and> dc_cursor c = 0 then
            (if rv_sequence ev \<noteq> 1 then (enqueue ev (pause_for_resync en), CatchUp (dc_domain c) (rv_generation ev) 0)
             else (enqueue ev (set_cursor d (c\<lparr>dc_generation := rv_generation ev, dc_cursor := rv_sequence ev\<rparr>) en), Apply))
          else if rv_generation ev < dc_generation c then (en, IgnoreStaleGeneration)
          else if rv_generation ev > dc_generation c then
            (enqueue ev (pause_for_resync en), Resync d (rv_generation ev) (lit ''event generation changed'') (dc_domain c))
          else if rv_sequence ev \<le> dc_cursor c then (en, IgnoreDuplicate)
          else if rv_sequence ev \<noteq> sat_add_u64 (dc_cursor c) 1 then
            (enqueue ev (pause_for_resync en), CatchUp (dc_domain c) (dc_generation c) (dc_cursor c))
          else (enqueue ev (set_cursor d (c\<lparr>dc_cursor := rv_sequence ev\<rparr>) en), Apply))"

definition observe_invalidation :: "remote_event \<Rightarrow> sync_engine \<Rightarrow> sync_engine \<times> sync_decision" where
  "observe_invalidation ev en =
     (let d = rv_channel ev; en1 = register_domain d en in
      case map_of (se_domains en1) d of
        None \<Rightarrow> (en1, Apply)
      | Some c \<Rightarrow>
          if rv_generation ev < dc_generation c then (en1, IgnoreStaleGeneration)
          else if rv_generation ev = dc_generation c \<and> rv_sequence ev \<le> dc_cursor c then (en1, IgnoreDuplicate)
          else (set_cursor d (c\<lparr>dc_generation := rv_generation ev, dc_cursor := rv_sequence ev, dc_snapshot_version := None\<rparr>) en1, Apply))"

text \<open>The loop over a replay page: the applied count and whether the loop came to the end of the page.\<close>

fun replay_events :: "ustring \<Rightarrow> nat \<Rightarrow> remote_event list \<Rightarrow> sync_engine \<Rightarrow> nat \<Rightarrow> sync_engine \<times> nat \<times> bool" where
  "replay_events d g [] en applied = (en, applied, True)"
| "replay_events d g (ev # evs) en applied =
     (if rv_channel ev \<noteq> d \<or> rv_generation ev \<noteq> g then replay_events d g evs en applied
      else case map_of (se_domains en) d of
        None \<Rightarrow> (en, applied, False)
      | Some c \<Rightarrow>
          if rv_sequence ev \<le> dc_cursor c then replay_events d g evs en applied
          else if rv_sequence ev \<noteq> sat_add_u64 (dc_cursor c) 1 then (pause_for_resync en, applied, False)
          else replay_events d g evs (set_cursor d (c\<lparr>dc_generation := g, dc_cursor := rv_sequence ev\<rparr>) en) (applied + 1))"

definition apply_replay_page :: "ustring \<Rightarrow> nat \<Rightarrow> remote_event list \<Rightarrow> bool \<Rightarrow> sync_engine \<Rightarrow> sync_engine \<times> (sync_apply_error + nat)" where
  "apply_replay_page d g evs compacted en =
     (case map_of (se_domains en) d of
        None \<Rightarrow> (en, Inl (UnknownDomain d))
      | Some c \<Rightarrow>
          if g < dc_generation c then (en, Inr 0)
          else if g > dc_generation c \<and> dc_cursor c > 0 then (en, Inl (SnapshotGenerationRewound d (dc_generation c) g))
          else
            let en1 = (if g > dc_generation c then set_cursor d (c\<lparr>dc_generation := g\<rparr>) en else en);
                (en2, applied, whole) = replay_events d g evs en1 0
            in (if \<not> whole then en2 else if compacted then pause_for_resync en2 else resume_after_refetch en2, Inr applied))"

definition apply_snapshot :: "ustring \<Rightarrow> nat \<Rightarrow> nat \<Rightarrow> ustring option \<Rightarrow> sync_engine \<Rightarrow> sync_engine \<times> (sync_apply_error + unit)" where
  "apply_snapshot d g cursor version en =
     (case map_of (se_domains en) d of
        None \<Rightarrow> (en, Inl (UnknownDomain d))
      | Some c \<Rightarrow>
          if g < dc_generation c then (en, Inr ())
          else if g = dc_generation c \<and> cursor < dc_cursor c then (en, Inl (SnapshotCursorRewound d g (dc_cursor c) cursor))
          else (resume_after_refetch (set_cursor d (c\<lparr>dc_generation := g, dc_cursor := cursor, dc_snapshot_version := version\<rparr>) en), Inr ()))"

definition take_pending :: "sync_engine \<Rightarrow> sync_engine \<times> remote_event list" where
  "take_pending en = (en\<lparr>se_pending := []\<rparr>, se_pending en)"

section \<open>Runs of the engine\<close>

text \<open>Everything an owner may do with an engine while a session lasts, and the live events that were
  handed on as the next ones.\<close>

datatype sync_op =
    OpObserve remote_event
  | OpInvalidation remote_event
  | OpReplay ustring nat "remote_event list" bool
  | OpSnapshot ustring nat nat "ustring option"
  | OpSeed "stream_cursor list"
  | OpRegister ustring
  | OpRegisterEphemeral ustring
  | OpPause
  | OpResume
  | OpTake

definition applied_event :: "remote_event \<Rightarrow> sync_engine \<times> sync_decision \<Rightarrow> sync_engine \<times> remote_event list" where
  "applied_event ev r = (fst r, if snd r = Apply then [ev] else [])"

fun sync_step :: "sync_engine \<Rightarrow> sync_op \<Rightarrow> sync_engine \<times> remote_event list" where
  "sync_step en (OpObserve ev) = applied_event ev (sync_observe ev en)"
| "sync_step en (OpInvalidation ev) = applied_event ev (observe_invalidation ev en)"
| "sync_step en (OpReplay d g evs compacted) = (fst (apply_replay_page d g evs compacted en), [])"
| "sync_step en (OpSnapshot d g c v) = (fst (apply_snapshot d g c v en), [])"
| "sync_step en (OpSeed cs) = (seed_cursors cs en, [])"
| "sync_step en (OpRegister d) = (register_domain d en, [])"
| "sync_step en (OpRegisterEphemeral d) = (register_ephemeral_domain d en, [])"
| "sync_step en OpPause = (pause_for_resync en, [])"
| "sync_step en OpResume = (resume_after_refetch en, [])"
| "sync_step en OpTake = (fst (take_pending en), [])"

fun sync_run :: "sync_engine \<Rightarrow> sync_op list \<Rightarrow> remote_event list" where
  "sync_run en [] = []"
| "sync_run en (op # ops) = (let (en1, evs) = sync_step en op in evs @ sync_run en1 ops)"

definition position_of :: "sync_engine \<Rightarrow> ustring \<Rightarrow> nat \<times> nat" where
  "position_of en d = (case map_of (se_domains en) d of None \<Rightarrow> (0, 0) | Some c \<Rightarrow> (dc_generation c, dc_cursor c))"

definition event_position :: "remote_event \<Rightarrow> nat \<times> nat" where
  "event_position ev = (rv_generation ev, rv_sequence ev)"

lemma enqueue_domains [simp]:
  "se_domains (enqueue ev en) = se_domains en" "se_paused (enqueue ev en) = se_paused en"
  "se_ephemeral (enqueue ev en) = se_ephemeral en"
  by (simp_all add: enqueue_def Let_def)

lemma position_simps [simp]:
  "position_of (enqueue ev en) d = position_of en d"
  "position_of (pause_for_resync en) d = position_of en d"
  "position_of (resume_after_refetch en) d = position_of en d"
  "position_of (register_domain d' en) d = position_of en d"
  "position_of (register_ephemeral_domain d' en) d = position_of en d"
  "position_of (set_cursor d' c en) d = (if d = d' then (dc_generation c, dc_cursor c) else position_of en d)"
  "position_of (fst (take_pending en)) d = position_of en d"
  by (auto simp: position_of_def pause_for_resync_def resume_after_refetch_def register_domain_def register_ephemeral_domain_def
      set_cursor_def take_pending_def Let_def update_conv' domain_cursor_new_def split: option.split)

lemma position_cursor: "map_of (se_domains en) d = Some c \<Longrightarrow> position_of en d = (dc_generation c, dc_cursor c)"
  by (simp add: position_of_def)

text \<open>What a live event does: it is applied only as the successor of the cursor, or as the first of a
  domain that knows nothing yet.\<close>

lemma observe_Apply:
  assumes "sync_observe ev en = (en', Apply)"
  shows "\<not> se_paused en \<and> \<not> se_paused en' \<and>
    (position_of en (rv_channel ev) = (0, 0) \<and> rv_sequence ev = 1 \<or>
     position_of en (rv_channel ev) = (rv_generation ev, rv_sequence ev - 1) \<and> 0 < rv_sequence ev) \<and>
    (\<forall>d. position_of en' d = (if d = rv_channel ev then event_position ev else position_of en d))"
  using assms
  by (auto simp: sync_observe_def Let_def position_cursor event_position_def set_cursor_def [THEN arg_cong [where f = se_paused]]
      sat_add_u64_def pause_for_resync_def min_def split: option.splits if_splits)

lemma observe_other:
  assumes "sync_observe ev en = (en', x)" and "x \<noteq> Apply"
  shows "position_of en' d = position_of en d \<and>
    (se_paused en' \<longleftrightarrow> se_paused en \<or> (\<exists>d g a. x = CatchUp d g a) \<or> (\<exists>d g r a. x = Resync d g r a \<and> map_of (se_domains en) (rv_channel ev) \<noteq> None))"
  using assms
  by (auto simp: sync_observe_def Let_def pause_for_resync_def [THEN arg_cong [where f = se_paused]] register_domain_def [THEN arg_cong [where f = se_paused]]
      split: option.splits if_splits)

lemma invalidation_position:
  assumes "observe_invalidation ev en = (en', x)"
  shows "position_of en d \<le> position_of en' d \<and> se_paused en' = se_paused en \<and> (\<forall>d' g r a. x \<noteq> Resync d' g r a) \<and> (\<forall>d' g a. x \<noteq> CatchUp d' g a) \<and>
    (d \<noteq> rv_channel ev \<longrightarrow> position_of en' d = position_of en d) \<and>
    (x = Apply \<longrightarrow> position_of en (rv_channel ev) < event_position ev \<and> position_of en' (rv_channel ev) = event_position ev)"
proof -
  obtain c where c: "map_of (se_domains (register_domain (rv_channel ev) en)) (rv_channel ev) = Some c"
    by (cases "map_of (se_domains en) (rv_channel ev)") (auto simp: register_domain_def update_conv')
  then have "position_of en (rv_channel ev) = (dc_generation c, dc_cursor c)"
    using position_cursor [OF c] by simp
  then show ?thesis using assms c
    by (auto simp: observe_invalidation_def Let_def event_position_def set_cursor_def [THEN arg_cong [where f = se_paused]]
        register_domain_def [THEN arg_cong [where f = se_paused]] split: if_splits option.splits)
qed

lemma replay_position:
  assumes "map_of (se_domains en) d' = Some c" and "dc_generation c \<le> g"
  shows "position_of en d \<le> position_of (fst (replay_events d' g evs en n)) d"
  using assms
proof (induction evs arbitrary: en c n)
  case (Cons ev evs)
  let ?c = "c\<lparr>dc_generation := g, dc_cursor := rv_sequence ev\<rparr>"
  have "map_of (se_domains (set_cursor d' ?c en)) d' = Some ?c" by (simp add: set_cursor_def update_conv')
  from Cons.IH [OF this] have step: "position_of (set_cursor d' ?c en) d \<le> position_of (fst (replay_events d' g evs (set_cursor d' ?c en) (n + 1))) d"
    by simp
  have "position_of en d \<le> position_of (set_cursor d' ?c en) d" if "dc_cursor c < rv_sequence ev"
    using that Cons.prems by (auto simp: position_cursor)
  with step Cons show ?case by (auto intro: order_trans)
qed simp

lemma seed_position: "position_of en d \<le> position_of (seed_cursor en sc) d"
  by (auto simp: seed_cursor_def Let_def position_of_def register_domain_def set_cursor_def update_conv' domain_cursor_new_def split: option.splits if_splits)

lemma seeds_position: "position_of en d \<le> position_of (foldl seed_cursor en cs) d"
  by (induction cs arbitrary: en) (auto intro: order_trans seed_position)

lemma replay_page_position: "position_of en d \<le> position_of (fst (apply_replay_page d' g evs compacted en)) d"
proof (cases "map_of (se_domains en) d'")
  case (Some c)
  let ?en = "if g > dc_generation c then set_cursor d' (c\<lparr>dc_generation := g\<rparr>) en else en"
  have "position_of ?en d \<le> position_of (fst (replay_events d' g evs ?en 0)) d" if "\<not> g < dc_generation c"
    using that Some by (intro replay_position) (auto simp: set_cursor_def update_conv')
  moreover have "position_of en d \<le> position_of ?en d" using Some by (auto simp: position_cursor)
  ultimately show ?thesis
    by (auto simp: apply_replay_page_def Some Let_def split: prod.split)
qed (simp add: apply_replay_page_def)

lemma sync_step_position: "position_of en d \<le> position_of (fst (sync_step en op)) d"
proof (cases op)
  case (OpObserve ev)
  obtain en' x where o: "sync_observe ev en = (en', x)" by fastforce
  show ?thesis
  proof (cases "x = Apply")
    case True
    with observe_Apply [of ev en en'] o OpObserve show ?thesis by (auto simp: applied_event_def event_position_def)
  qed (use observe_other [OF o] OpObserve o in \<open>simp add: applied_event_def\<close>)
next
  case (OpInvalidation ev)
  then show ?thesis using invalidation_position [of ev en, OF surjective_pairing, of d] by (simp add: applied_event_def)
next
  case (OpSnapshot d' g c v)
  then show ?thesis by (auto simp: apply_snapshot_def position_cursor split: option.split)
qed (auto simp: replay_page_position seed_cursors_def seeds_position)

lemma sync_step_applied:
  assumes "ev \<in> set (snd (sync_step en op))"
  shows "snd (sync_step en op) = [ev] \<and> position_of en (rv_channel ev) < event_position ev \<and>
    position_of (fst (sync_step en op)) (rv_channel ev) = event_position ev"
proof (cases op)
  case (OpObserve e)
  then have "e = ev" "snd (sync_observe e en) = Apply" using assms by (auto simp: applied_event_def split: if_splits)
  then have "sync_observe ev en = (fst (sync_observe ev en), Apply)" by (metis prod.collapse)
  from observe_Apply [OF this] OpObserve \<open>e = ev\<close> show ?thesis
    using \<open>snd (sync_observe e en) = Apply\<close> by (auto simp: applied_event_def event_position_def)
next
  case (OpInvalidation e)
  then show ?thesis using assms invalidation_position [of e en, OF surjective_pairing]
    by (auto simp: applied_event_def split: if_splits)
qed (use assms in auto)

lemma sync_run_above:
  "ev \<in> set (sync_run en ops) \<Longrightarrow> position_of en (rv_channel ev) < event_position ev"
proof (induction ops arbitrary: en)
  case (Cons op ops)
  then consider "ev \<in> set (snd (sync_step en op))" | "ev \<in> set (sync_run (fst (sync_step en op)) ops)"
    by (cases "sync_step en op") auto
  then show ?case
    using Cons.IH sync_step_applied sync_step_position by cases (blast, fastforce intro: le_less_trans)
qed simp

section \<open>Properties\<close>

text \<open>C21: No live event is applied twice and none out of order: whatever an owner does during a session
  (live events, replay pages, snapshots, seeds, pauses, in any order), the events of a domain that are
  handed on have strictly increasing positions.\<close>
theorem sync_applies_once:
  "sorted_wrt (<) (map event_position (filter (\<lambda>ev. rv_channel ev = d) (sync_run en ops)))"
proof (induction ops arbitrary: en)
  case (Cons op ops)
  let ?en = "fst (sync_step en op)" and ?evs = "snd (sync_step en op)"
  have run: "sync_run en (op # ops) = ?evs @ sync_run ?en ops" by (simp add: Let_def split: prod.split)
  show ?case
  proof (cases ?evs)
    case (Cons ev rest)
    then have "?evs = [ev]" "position_of ?en (rv_channel ev) = event_position ev" using sync_step_applied [of ev en op] by auto
    then show ?thesis
      unfolding run using Cons.IH [of ?en] sync_run_above [of _ ?en ops] by fastforce
  qed (use run Cons.IH in simp)
qed simp

end
