(* ===== verification/Remote_Queue.thy ===== *)
theory Remote_Queue
  imports Remote_Sync
begin

text \<open>
  The event queue between the socket and the consumer of a remote client, in
  \<open>crates/vibex-remote-client/src/transport.rs\<close>: \<open>dispatch_text\<close> decides about an event and queues
  it with its decision, \<open>next_event_inner\<close> takes the oldest entry or registers a waiter, and
  \<open>mark_disconnected\<close> ends a connection. What is sent to waiters is the second component of an
  operation. Replies to calls, binary frames and the control queue are not part of this state.
\<close>

section \<open>Entries\<close>

datatype close_code = AuthenticationRequired | DeviceRevoked | UnsupportedVersion | OtherClose ustring

text \<open>Of the control messages the queue distinguishes only the close; the others carry their kind and
  data.\<close>

datatype remote_control =
    CtlClose close_code
  | CtlResyncRequired ustring nat ustring ustring
  | CtlOther ustring json

datatype transport_event =
    TEvent remote_event sync_decision
  | TControl remote_control
  | TClosed

definition is_projection_invalidation_channel :: "ustring \<Rightarrow> bool" where
  "is_projection_invalidation_channel c \<longleftrightarrow>
     c \<in> {lit ''file'', lit ''git'', lit ''provider'', lit ''device'', lit ''sidebar''}"

fun projection_invalidation_channel :: "transport_event \<Rightarrow> ustring option" where
  "projection_invalidation_channel (TEvent ev _) =
     (if is_projection_invalidation_channel (rv_channel ev) then Some (rv_channel ev) else None)"
| "projection_invalidation_channel _ = None"

section \<open>The queue\<close>

text \<open>\<open>tp_open\<close>: the connection is neither offline, revoked nor incompatible.\<close>

record transport =
  tp_sync :: sync_engine
  tp_events :: "transport_event list"
  tp_waiters :: nat
  tp_capacity :: nat
  tp_open :: bool

definition transport_new :: "nat \<Rightarrow> transport" where
  "transport_new capacity =
     \<lparr>tp_sync = register_ephemeral_domain (lit ''agent_notification'')
        (register_domains [lit ''agent_session'', lit ''sidebar'', lit ''terminal'', lit ''file'', lit ''git'', lit ''provider'', lit ''device'', lit ''runtime'']
          (sync_engine_new capacity)),
      tp_events = [], tp_waiters = 0, tp_capacity = max capacity 1, tp_open = True\<rparr>"

definition is_projection :: "transport_event \<Rightarrow> bool" where
  "is_projection t \<longleftrightarrow> projection_invalidation_channel t \<noteq> None"

lemma is_projection_simps [simp]:
  "is_projection (TEvent ev x) = is_projection_invalidation_channel (rv_channel ev)"
  "\<not> is_projection (TControl c)" "\<not> is_projection TClosed"
  by (simp_all add: is_projection_def)

lemma split_at: "i < length xs \<Longrightarrow> \<exists>ys z zs. xs = ys @ z # zs \<and> length ys = i"
  by (intro exI [of _ "take i xs"] exI [of _ "xs ! i"] exI [of _ "drop (Suc i) xs"]) (simp add: id_take_nth_drop)

definition overflow_marker :: "remote_event \<Rightarrow> transport_event" where
  "overflow_marker ev =
     TEvent ev (Resync (rv_channel ev) (rv_generation ev) (lit ''bounded domain event queue overflow'') (rv_channel ev))"

fun ends_stream :: "transport_event \<Rightarrow> bool" where
  "ends_stream TClosed = True"
| "ends_stream (TControl (CtlClose _)) = True"
| "ends_stream _ = False"

definition push_domain_event :: "transport_event \<Rightarrow> transport \<Rightarrow> transport \<times> transport_event list" where
  "push_domain_event t tp =
     (let queue = tp_events tp in
      if ends_stream t then
        (if tp_waiters tp > 0 then (tp\<lparr>tp_events := [], tp_waiters := 0\<rparr>, replicate (tp_waiters tp) t)
         else (tp\<lparr>tp_events := [t]\<rparr>, []))
      else if tp_waiters tp > 0 then (tp\<lparr>tp_waiters := 0\<rparr>, replicate (tp_waiters tp) t)
      else if is_projection t then
        (case position (\<lambda>q. projection_invalidation_channel q = projection_invalidation_channel t) queue of
           Some i \<Rightarrow> (tp\<lparr>tp_events := queue[i := t]\<rparr>, [])
         | None \<Rightarrow> (tp\<lparr>tp_events := queue @ [t]\<rparr>, []))
      else if length (filter (\<lambda>q. \<not> is_projection q) queue) \<ge> tp_capacity tp then
        (case t of
           TEvent ev _ \<Rightarrow>
             (tp\<lparr>tp_sync := pause_for_resync (tp_sync tp), tp_events := overflow_marker ev # filter is_projection queue\<rparr>, [])
         | _ \<Rightarrow>
             (tp\<lparr>tp_events := (case position (\<lambda>q. \<not> is_projection q) queue of
                  Some i \<Rightarrow> take i queue @ drop (Suc i) queue | None \<Rightarrow> queue) @ [t]\<rparr>, []))
      else (tp\<lparr>tp_events := queue @ [t]\<rparr>, []))"

definition dispatch_event :: "remote_event \<Rightarrow> transport \<Rightarrow> transport \<times> transport_event list" where
  "dispatch_event ev tp =
     (let (en, decision) = (if is_projection_invalidation_channel (rv_channel ev)
            then observe_invalidation ev (tp_sync tp) else sync_observe ev (tp_sync tp))
      in push_domain_event (TEvent ev decision) (tp\<lparr>tp_sync := en\<rparr>))"

text \<open>A control message that no waiter of its own takes: a close ends the connection's state first.\<close>

definition dispatch_control :: "remote_control \<Rightarrow> transport \<Rightarrow> transport \<times> transport_event list" where
  "dispatch_control c tp =
     push_domain_event (TControl c) (case c of CtlClose _ \<Rightarrow> tp\<lparr>tp_open := False\<rparr> | _ \<Rightarrow> tp)"

definition next_event :: "transport \<Rightarrow> transport \<times> transport_event option list" where
  "next_event tp =
     (case tp_events tp of
        t # ts \<Rightarrow> (tp\<lparr>tp_events := ts\<rparr>, [Some t])
      | [] \<Rightarrow> if \<not> tp_open tp then (tp, [None]) else (tp\<lparr>tp_waiters := tp_waiters tp + 1\<rparr>, []))"

definition mark_disconnected :: "transport \<Rightarrow> transport \<times> transport_event list" where
  "mark_disconnected tp =
     (let queue = tp_events tp;
          kept = (if length queue \<ge> tp_capacity tp then tl queue else queue)
      in (tp\<lparr>tp_open := False, tp_sync := reset_for_reconnect (tp_sync tp), tp_events := kept @ [TClosed], tp_waiters := 0\<rparr>,
          replicate (tp_waiters tp) TClosed))"

text \<open>A connection that is made again, with a new session epoch or with the one before. Installing the new
  socket empties the queue, whatever the consumer has not read of it.\<close>

definition install_socket :: "transport \<Rightarrow> transport" where
  "install_socket tp = tp\<lparr>tp_events := []\<rparr>"

definition reconnected :: "bool \<Rightarrow> transport \<Rightarrow> transport" where
  "reconnected epoch_changed tp =
     (install_socket (tp\<lparr>tp_sync := (if epoch_changed then reset_for_session_epoch (tp_sync tp) else tp_sync tp)\<rparr>))\<lparr>tp_open := True\<rparr>"

section \<open>Runs with one consumer\<close>

datatype transport_op = LiveEvent remote_event | ControlMessage remote_control | TakeNext | Disconnect | Reconnect bool

text \<open>One step, and what the consumer gets.\<close>

fun transport_step :: "transport \<Rightarrow> transport_op \<Rightarrow> transport \<times> transport_event list" where
  "transport_step tp (LiveEvent ev) = dispatch_event ev tp"
| "transport_step tp (ControlMessage c) = dispatch_control c tp"
| "transport_step tp TakeNext = (let (tp1, out) = next_event tp in (tp1, concat (map (\<lambda>r. case r of Some t \<Rightarrow> [t] | None \<Rightarrow> []) out)))"
| "transport_step tp Disconnect = mark_disconnected tp"
| "transport_step tp (Reconnect epoch_changed) = (reconnected epoch_changed tp, [])"

text \<open>Events come over an open connection; the consumer asks again only when it has its answer; a control
  message or the end of a connection finds room in the queue; a new connection finds the queue read, and
  a new session epoch comes only after the connection before has ended.\<close>

fun has_room :: "transport \<Rightarrow> transport_op \<Rightarrow> bool" where
  "has_room tp (LiveEvent ev) = tp_open tp"
| "has_room tp TakeNext = (tp_waiters tp = 0)"
| "has_room tp (ControlMessage c) =
     (ends_stream (TControl c) \<or> length (filter (\<lambda>q. \<not> is_projection q) (tp_events tp)) < tp_capacity tp)"
| "has_room tp Disconnect = (length (tp_events tp) < tp_capacity tp)"
| "has_room tp (Reconnect epoch_changed) = (tp_events tp = [] \<and> (epoch_changed \<longrightarrow> \<not> tp_open tp))"

fun transport_run :: "transport \<Rightarrow> transport_op list \<Rightarrow> transport \<times> transport_event list" where
  "transport_run tp [] = (tp, [])"
| "transport_run tp (op # ops) =
     (let (tp1, out) = transport_step tp op; (tp2, more_out) = transport_run tp1 ops in (tp2, out @ more_out))"

fun all_room :: "transport \<Rightarrow> transport_op list \<Rightarrow> bool" where
  "all_room tp [] = True"
| "all_room tp (op # ops) = (has_room tp op \<and> all_room (fst (transport_step tp op)) ops)"

section \<open>What a consumer hears\<close>

text \<open>The last position of a domain a consumer applied since it was last told to fetch everything anew.
  Any order to catch up, resync or reconnect is such a break.\<close>

fun heard :: "ustring \<Rightarrow> (nat \<times> nat) option \<Rightarrow> transport_event \<Rightarrow> (nat \<times> nat) option" where
  "heard d p (TEvent ev Apply) = (if rv_channel ev = d then Some (event_position ev) else p)"
| "heard d p (TEvent ev IgnoreDuplicate) = p"
| "heard d p (TEvent ev IgnoreStaleGeneration) = p"
| "heard d p (TEvent ev _) = None"
| "heard d p (TControl (CtlClose _)) = None"
| "heard d p (TControl _) = p"
| "heard d p TClosed = None"

fun fits :: "ustring \<Rightarrow> (nat \<times> nat) option \<Rightarrow> transport_event \<Rightarrow> bool" where
  "fits d (Some (g, c)) (TEvent ev Apply) = (rv_channel ev = d \<longrightarrow> event_position ev = (g, c + 1))"
| "fits d p t = True"

fun gapless :: "ustring \<Rightarrow> (nat \<times> nat) option \<Rightarrow> transport_event list \<Rightarrow> bool" where
  "gapless d p [] = True"
| "gapless d p (t # ts) = (fits d p t \<and> gapless d (heard d p t) ts)"

fun calm :: "transport_event \<Rightarrow> bool" where
  "calm (TEvent ev x) = (x \<in> {Apply, IgnoreDuplicate, IgnoreStaleGeneration})"
| "calm _ = True"

lemma gapless_append [simp]:
  "gapless d p (xs @ ys) \<longleftrightarrow> gapless d p xs \<and> gapless d (foldl (heard d) p xs) ys"
  by (induction xs arbitrary: p) auto

lemma calm_projection:
  assumes "is_projection t" and "calm t" and "\<not> is_projection_invalidation_channel d"
  shows "heard d p t = p \<and> fits d p t"
  using assms by (cases t; cases p; cases "the p") (auto split: if_splits)

lemma calm_projections:
  assumes "\<not> is_projection_invalidation_channel d" and "list_all (\<lambda>t. is_projection t \<and> calm t) ts"
  shows "gapless d p ts \<and> foldl (heard d) p ts = p"
  using assms(2) by (induction ts) (use calm_projection [OF _ _ assms(1)] in auto)

lemma fits_None [simp]: "fits d None t"
  by (cases t) auto

lemma ends_heard: "ends_stream t \<Longrightarrow> heard d p t = None \<and> fits d p t"
  by (cases t rule: ends_stream.cases; cases p) auto

text \<open>The invariant of a run: the trace so far and what is queued have no gap, and while the engine is
  not paused it stands where the trace ends.\<close>

definition transport_inv :: "ustring \<Rightarrow> transport_event list \<Rightarrow> transport \<Rightarrow> bool" where
  "transport_inv d out tp \<longleftrightarrow>
     tp_waiters tp \<le> 1 \<and> (tp_waiters tp > 0 \<longrightarrow> tp_events tp = []) \<and> (\<forall>q \<in> set (tp_events tp). is_projection q \<longrightarrow> calm q) \<and>
     gapless d None (out @ tp_events tp) \<and>
     (\<forall>p. foldl (heard d) None (out @ tp_events tp) = Some p \<longrightarrow> \<not> se_paused (tp_sync tp) \<longrightarrow> p = position_of (tp_sync tp) d \<and> 0 < snd p)"

text \<open>After the end of a connection the trace ends with a break.\<close>

definition ended_told :: "ustring \<Rightarrow> transport_event list \<Rightarrow> transport \<Rightarrow> bool" where
  "ended_told d out tp \<longleftrightarrow> (\<not> tp_open tp \<longrightarrow> foldl (heard d) None (out @ tp_events tp) = None)"

text \<open>Queueing an entry: what has to hold of it, given where the trace ends.\<close>

lemma push_inv:
  assumes inv: "transport_inv d out tp" and d: "\<not> is_projection_invalidation_channel d"
    and calm: "is_projection t \<longrightarrow> calm t"
    and fit: "fits d (foldl (heard d) None (out @ tp_events tp)) t"
    and there: "\<And>p. heard d (foldl (heard d) None (out @ tp_events tp)) t = Some p \<Longrightarrow> \<not> se_paused en \<Longrightarrow> p = position_of en d \<and> 0 < snd p"
    and room: "ends_stream t \<or> is_projection t \<or> (\<exists>ev x. t = TEvent ev x) \<or> length (filter (\<lambda>q. \<not> is_projection q) (tp_events tp)) < tp_capacity tp"
    and res: "push_domain_event t (tp\<lparr>tp_sync := en\<rparr>) = (tp', sent)"
  shows "transport_inv d (out @ sent) tp'"
proof -
  let ?q = "tp_events tp" and ?p = "foldl (heard d) None (out @ tp_events tp)"
  have tail: "transport_inv d (out @ sent) tp'" if "sent @ tp_events tp' = ?q @ [t]" "tp_waiters tp' \<le> 1" "tp_waiters tp' > 0 \<longrightarrow> tp_events tp' = []"
      "tp_sync tp' = en" "set (tp_events tp') \<subseteq> insert t (set ?q)"
    using that inv fit there calm unfolding transport_inv_def
    by (simp del: foldl_append) (auto simp flip: append_assoc)
  consider (ends) "ends_stream t" | (waiting) "\<not> ends_stream t" "tp_waiters tp > 0"
    | (swap) i where "\<not> ends_stream t" "tp_waiters tp = 0" "is_projection t" "position (\<lambda>q. projection_invalidation_channel q = projection_invalidation_channel t) ?q = Some i"
    | (over) ev x where "tp_waiters tp = 0" "t = TEvent ev x" "\<not> is_projection t" "length (filter (\<lambda>q. \<not> is_projection q) ?q) \<ge> tp_capacity tp"
    | (plain) "\<not> ends_stream t" "tp_waiters tp = 0"
        "is_projection t \<and> position (\<lambda>q. projection_invalidation_channel q = projection_invalidation_channel t) ?q = None \<or>
         \<not> is_projection t \<and> \<not> tp_capacity tp \<le> length (filter (\<lambda>q. \<not> is_projection q) ?q)"
    using room by (metis linorder_not_le not_gr_zero option.exhaust)
  then show ?thesis
  proof cases
    case ends
    have "tp_waiters tp = 0 \<or> tp_waiters tp = 1" using inv by (auto simp: transport_inv_def)
    then show ?thesis using res inv ends ends_heard [OF ends] calm by (elim disjE) (auto simp: push_domain_event_def Let_def transport_inv_def)
  next
    case waiting
    then have "tp_waiters tp = 1" "?q = []" using inv by (auto simp: transport_inv_def)
    then show ?thesis using res waiting by (intro tail) (auto simp: push_domain_event_def Let_def)
  next
    case swap
    let ?old = "?q ! i"
    have i: "i < length ?q" "projection_invalidation_channel ?old = projection_invalidation_channel t" using swap(4) by (auto simp: position_Some_iff)
    then have calms: "is_projection ?old" "calm ?old" "calm t" using inv swap(3) calm by (auto simp: transport_inv_def is_projection_def)
    have old: "?q = take i ?q @ ?old # drop (Suc i) ?q" and upd: "?q[i := t] = take i ?q @ t # drop (Suc i) ?q"
      using i(1) by (simp_all add: id_take_nth_drop upd_conv_take_nth_drop)
    have same: "gapless d p (?q[i := t]) = gapless d p ?q \<and> foldl (heard d) p (?q[i := t]) = foldl (heard d) p ?q" for p
      unfolding upd by (subst (2 4) old) (use calm_projection [OF calms(1,2) d] calm_projection [OF swap(3) calms(3) d] in simp)
    have t: "heard d ?p t = ?p" using calm_projection [OF swap(3) calms(3) d] by simp
    have "tp' = tp\<lparr>tp_sync := en, tp_events := ?q[i := t]\<rparr>" "sent = []" using res swap by (auto simp: push_domain_event_def Let_def)
    then show ?thesis using inv same there calms set_update_subset_insert [of ?q i t] unfolding transport_inv_def t by auto
  next
    case over
    have "list_all (\<lambda>t. is_projection t \<and> calm t) (filter is_projection ?q)" using inv by (auto simp: transport_inv_def list_all_iff)
    from calm_projections [OF d this, of None]
    have rest: "gapless d None (filter is_projection ?q)" "foldl (heard d) None (filter is_projection ?q) = None" by auto
    have "tp' = tp\<lparr>tp_sync := pause_for_resync en, tp_events := overflow_marker ev # filter is_projection ?q\<rparr>" "sent = []"
      using res over by (auto simp: push_domain_event_def Let_def)
    moreover have "heard d p (overflow_marker ev) = None" "fits d p (overflow_marker ev)" "\<not> is_projection (overflow_marker ev)" for p
      using over by (cases p; auto simp: overflow_marker_def)+
    ultimately show ?thesis using inv rest over by (auto simp: transport_inv_def)
  next
    case plain
    then show ?thesis using res by (intro tail) (auto simp: push_domain_event_def Let_def)
  qed
qed

lemma dispatch_inv:
  assumes inv: "transport_inv d out tp" and d: "\<not> is_projection_invalidation_channel d"
    and res: "dispatch_event ev tp = (tp', sent)"
  shows "transport_inv d (out @ sent) tp'"
proof -
  let ?p = "foldl (heard d) None (out @ tp_events tp)"
  obtain en x where dec: "(if is_projection_invalidation_channel (rv_channel ev)
      then observe_invalidation ev (tp_sync tp) else sync_observe ev (tp_sync tp)) = (en, x)" by fastforce
  then have push: "push_domain_event (TEvent ev x) (tp\<lparr>tp_sync := en\<rparr>) = (tp', sent)" using res by (simp add: dispatch_event_def)
  have at: "q = position_of (tp_sync tp) d \<and> 0 < snd q" if "?p = Some q" "\<not> se_paused (tp_sync tp)" for q
    using inv that unfolding transport_inv_def by blast
  show ?thesis
  proof (cases "is_projection_invalidation_channel (rv_channel ev)")
    case True
    then have "observe_invalidation ev (tp_sync tp) = (en, x)" "d \<noteq> rv_channel ev" using dec d by auto
    with invalidation_position [of ev "tp_sync tp" en x d]
    have i: "position_of en d = position_of (tp_sync tp) d" "se_paused en = se_paused (tp_sync tp)" "calm (TEvent ev x)"
      by (cases x; auto)+
    then show ?thesis
      using True at calm_projection [of "TEvent ev x" d] d by (intro push_inv [OF inv d _ _ _ _ push]) auto
  next
    case False
    then have o: "sync_observe ev (tp_sync tp) = (en, x)" using dec by simp
    show ?thesis
    proof (cases "x = Apply")
      case True
      note a = observe_Apply [OF o [unfolded True]]
      have "fits d ?p (TEvent ev x)" unfolding True
        using a at by (cases ?p; cases "position_of (tp_sync tp) d") (auto simp: event_position_def)
      moreover have "0 < rv_sequence ev" using a by auto
      ultimately show ?thesis
        using True False a at by (intro push_inv [OF inv d _ _ _ _ push]) (auto simp: event_position_def split: if_splits)
    next
      case x: False
      then show ?thesis
        using False at observe_other [OF o x, of d] by (intro push_inv [OF inv d _ _ _ _ push]) (cases x; cases ?p; auto)+
    qed
  qed
qed

lemma transport_step_inv:
  assumes inv: "transport_inv d out tp" and d: "\<not> is_projection_invalidation_channel d"
    and told: "ended_told d out tp" and room: "has_room tp op" and res: "transport_step tp op = (tp', sent)"
  shows "transport_inv d (out @ sent) tp'"
proof (cases op)
  case (LiveEvent ev)
  then show ?thesis using dispatch_inv [OF inv d] res by simp
next
  case (ControlMessage c)
  let ?tp = "case c of CtlClose _ \<Rightarrow> tp\<lparr>tp_open := False\<rparr> | _ \<Rightarrow> tp"
  have i: "transport_inv d out ?tp" "?tp\<lparr>tp_sync := tp_sync tp\<rparr> = ?tp" "tp_events ?tp = tp_events tp" "tp_capacity ?tp = tp_capacity tp"
    using inv by (cases c; simp add: transport_inv_def)+
  have "push_domain_event (TControl c) (?tp\<lparr>tp_sync := tp_sync tp\<rparr>) = (tp', sent)"
    using res ControlMessage unfolding i(2) by (simp add: dispatch_control_def)
  moreover have "heard d p (TControl c) = Some q \<Longrightarrow> p = Some q" for p q by (cases c) auto
  moreover have "q = position_of (tp_sync tp) d \<and> 0 < snd q"
    if "foldl (heard d) None (out @ tp_events tp) = Some q" "\<not> se_paused (tp_sync tp)" for q
    using inv that unfolding transport_inv_def by blast
  moreover have "fits d p (TControl c)" for p by (cases p) auto
  ultimately show ?thesis
    using room ControlMessage by (intro push_inv [OF i(1) d]) (simp_all add: i(3,4) del: foldl_append)
next
  case TakeNext
  then show ?thesis using res room inv by (auto simp: next_event_def transport_inv_def split: list.splits if_splits)
next
  case Disconnect
  have "tp_waiters tp = 0 \<or> tp_waiters tp = 1" using inv by (auto simp: transport_inv_def)
  then show ?thesis
    using res room inv Disconnect by (elim disjE) (auto simp: mark_disconnected_def Let_def transport_inv_def)
next
  case (Reconnect b)
  then show ?thesis
    using res room inv told by (auto simp: reconnected_def install_socket_def transport_inv_def ended_told_def)
qed

lemma push_open: "push_domain_event t tp = (tp', sent) \<Longrightarrow> tp_open tp' = tp_open tp"
  by (auto simp: push_domain_event_def Let_def split: if_splits option.splits transport_event.splits)

lemma heard_repeated: "0 < n \<Longrightarrow> ends_stream t \<Longrightarrow> foldl (heard d) p (replicate n t) = None"
proof -
  assume "0 < n" "ends_stream t"
  then have h: "heard d p t = None" for p using ends_heard by blast
  have "foldl (heard d) None (replicate k t) = None" for k by (induction k) (simp_all add: h)
  with \<open>0 < n\<close> show ?thesis by (cases n) (simp_all add: h)
qed

lemma transport_step_told:
  assumes inv: "transport_inv d out tp" and told: "ended_told d out tp"
    and room: "has_room tp op" and res: "transport_step tp op = (tp', sent)"
  shows "ended_told d (out @ sent) tp'"
proof (cases op)
  case (LiveEvent ev)
  have "tp_open tp'"
    using room res push_open LiveEvent by (fastforce simp: dispatch_event_def split: prod.splits)
  then show ?thesis by (simp add: ended_told_def)
next
  case (ControlMessage c)
  show ?thesis
  proof (cases "ends_stream (TControl c)")
    case True
    have h: "heard d p (TControl c) = None" for p using ends_heard [OF True] by blast
    have "foldl (heard d) None (out @ sent @ tp_events tp') = None"
      using res ControlMessage True h heard_repeated [OF _ True]
      by (cases c) (auto simp: dispatch_control_def push_domain_event_def Let_def split: if_splits)
    then show ?thesis by (simp add: ended_told_def)
  next
    case False
    then have plain: "dispatch_control c tp = push_domain_event (TControl c) tp" "heard d p (TControl c) = p" for p
      by (cases c; simp add: dispatch_control_def)+
    then have quiet: "foldl (heard d) p (replicate n (TControl c)) = p" for p n by (induction n) auto
    have "sent @ tp_events tp' = tp_events tp @ [TControl c] \<or> tp_events tp = [] \<and> tp_events tp' = [] \<and> (\<exists>n. sent = replicate n (TControl c))"
      using res room ControlMessage False plain(1) inv
      by (cases "0 < tp_waiters tp") (auto simp: push_domain_event_def Let_def transport_inv_def)
    then have "foldl (heard d) None (out @ sent @ tp_events tp') = foldl (heard d) None (out @ tp_events tp)"
    proof (elim disjE)
      assume e: "sent @ tp_events tp' = tp_events tp @ [TControl c]"
      show ?thesis unfolding e using plain(2) by simp
    qed (use quiet in auto)
    moreover have "tp_open tp' = tp_open tp"
      using res ControlMessage plain(1) push_open by fastforce
    ultimately show ?thesis using told by (simp add: ended_told_def)
  qed
next
  case TakeNext
  then show ?thesis using res told by (auto simp: next_event_def ended_told_def split: list.splits if_splits)
next
  case Disconnect
  then show ?thesis using res by (auto simp: mark_disconnected_def Let_def ended_told_def)
next
  case (Reconnect b)
  then show ?thesis using res by (auto simp: reconnected_def install_socket_def ended_told_def)
qed

lemma transport_run_inv:
  assumes "transport_inv d out tp" and "\<not> is_projection_invalidation_channel d" and "ended_told d out tp"
    and "all_room tp ops" and "transport_run tp ops = (tp', sent)"
  shows "transport_inv d (out @ sent) tp'"
  using assms(1,3,4,5)
proof (induction ops arbitrary: tp out sent tp')
  case (Cons op ops)
  obtain tp1 out1 tp2 out2 where r: "transport_step tp op = (tp1, out1)" "transport_run tp1 ops = (tp2, out2)" by fastforce
  with Cons.prems have "transport_inv d (out @ out1) tp1" "ended_told d (out @ out1) tp1"
    using transport_step_inv [OF Cons.prems(1) assms(2) Cons.prems(2) _ r(1)]
      transport_step_told [OF Cons.prems(1,2) _ r(1)] by simp_all
  from Cons.IH [OF this _ r(2)] Cons.prems r show ?case by auto
qed simp

section \<open>The bound of the queue\<close>

abbreviation business :: "transport_event list \<Rightarrow> transport_event list" where
  "business q \<equiv> filter (\<lambda>t. \<not> is_projection t) q"

definition invalidated :: "transport_event list \<Rightarrow> ustring list" where
  "invalidated q = List.map_filter projection_invalidation_channel q"

definition queue_bounded :: "nat \<Rightarrow> transport \<Rightarrow> bool" where
  "queue_bounded n tp \<longleftrightarrow> tp_capacity tp = n \<and> 0 < n \<and> distinct (invalidated (tp_events tp)) \<and> length (business (tp_events tp)) \<le> n"

lemma invalidated_simps [simp]:
  "invalidated [] = []"
  "invalidated (t # ts) = (case projection_invalidation_channel t of None \<Rightarrow> [] | Some c \<Rightarrow> [c]) @ invalidated ts"
  "invalidated (ts @ us) = invalidated ts @ invalidated us"
  "invalidated (filter is_projection ts) = invalidated ts"
  by (induction ts) (auto simp: invalidated_def map_filter_simps is_projection_def split: option.split)

lemma queue_length:
  assumes "distinct (invalidated q)"
  shows "length q \<le> length (business q) + 5"
proof -
  have "set (invalidated q) \<subseteq> {lit ''file'', lit ''git'', lit ''provider'', lit ''device'', lit ''sidebar''}"
  proof (induction q)
    case (Cons t q)
    then show ?case by (cases t) (auto simp: is_projection_invalidation_channel_def simp del: lit_simps)
  qed simp
  then have "card (set (invalidated q)) \<le> card {lit ''file'', lit ''git'', lit ''provider'', lit ''device'', lit ''sidebar''}"
    by (intro card_mono) auto
  also have "\<dots> \<le> 5" by (simp add: card_insert_if del: lit_simps)
  finally have "length (invalidated q) \<le> 5" using assms by (simp add: distinct_card)
  moreover have "length q = length (business q) + length (invalidated q)" by (induction q) (auto simp: is_projection_def split: option.split)
  ultimately show ?thesis by simp
qed

lemma position_swap:
  assumes "position (\<lambda>q. projection_invalidation_channel q = projection_invalidation_channel t) q = Some i" and "is_projection t"
  shows "invalidated (q[i := t]) = invalidated q \<and> length (business (q[i := t])) = length (business q)"
proof -
  obtain ys z zs where "q = ys @ z # zs" "length ys = i" using assms(1) split_at by (metis position_Some_iff)
  then show ?thesis using assms by (auto simp: position_Some_iff is_projection_def split: option.split)
qed

lemma position_new:
  assumes "position (\<lambda>q. projection_invalidation_channel q = projection_invalidation_channel t) q = None" and "projection_invalidation_channel t = Some c"
  shows "c \<notin> set (invalidated q)"
  using assms by (induction q) (auto split: option.splits if_splits)

lemma business_removed:
  assumes "position (\<lambda>t. \<not> is_projection t) q = Some i"
  shows "length (business (take i q @ drop (Suc i) q)) = length (business q) - 1 \<and> invalidated (take i q @ drop (Suc i) q) = invalidated q"
proof -
  obtain ys z zs where "q = ys @ z # zs" "length ys = i" using assms(1) split_at by (metis position_Some_iff)
  then show ?thesis using assms by (auto simp: position_Some_iff is_projection_def split: option.split)
qed

lemma push_bounded:
  assumes "queue_bounded n tp" and "push_domain_event t tp = (tp', sent)"
  shows "queue_bounded n tp'"
proof -
  have ends: "\<not> is_projection t" if "ends_stream t" using that by (cases t) auto
  have over: "projection_invalidation_channel (overflow_marker ev) = None" "\<not> is_projection (overflow_marker ev)" if "t = TEvent ev x" "\<not> is_projection t" for ev x
    using that by (auto simp: overflow_marker_def split: if_splits)
  show ?thesis
    using assms ends over position_swap [of t "tp_events tp"] position_new [of t "tp_events tp"] business_removed [of "tp_events tp"]
    by (auto simp: push_domain_event_def queue_bounded_def Let_def is_projection_def [of t] position_None_iff
        split: if_splits option.splits transport_event.splits)
qed

lemma transport_step_bounded:
  assumes b: "queue_bounded n tp" and room: "has_room tp op" and res: "transport_step tp op = (tp', sent)"
  shows "queue_bounded n tp'"
proof (cases op)
  case (LiveEvent ev)
  obtain en x where "(if is_projection_invalidation_channel (rv_channel ev)
      then observe_invalidation ev (tp_sync tp) else sync_observe ev (tp_sync tp)) = (en, x)" by fastforce
  then have "push_domain_event (TEvent ev x) (tp\<lparr>tp_sync := en\<rparr>) = (tp', sent)" using res LiveEvent by (simp add: dispatch_event_def)
  from push_bounded [OF _ this, of n] b show ?thesis by (simp add: queue_bounded_def)
next
  case (ControlMessage c)
  then have "push_domain_event (TControl c) (case c of CtlClose _ \<Rightarrow> tp\<lparr>tp_open := False\<rparr> | _ \<Rightarrow> tp) = (tp', sent)"
    using res by (simp add: dispatch_control_def)
  from push_bounded [OF _ this, of n] b show ?thesis by (cases c) (simp_all add: queue_bounded_def)
next
  case TakeNext
  then show ?thesis using res b by (cases "tp_events tp") (auto simp: next_event_def queue_bounded_def split: if_splits option.splits)
next
  case Disconnect
  have "length (business (tp_events tp)) < tp_capacity tp"
    using room Disconnect length_filter_le [of _ "tp_events tp"]
    by (metis has_room.simps(4) le_less_trans)
  then show ?thesis using res b room Disconnect by (auto simp: mark_disconnected_def Let_def queue_bounded_def)
next
  case (Reconnect e)
  then show ?thesis using res b by (auto simp: reconnected_def install_socket_def queue_bounded_def)
qed

lemma transport_run_bounded:
  assumes "queue_bounded n tp" and "all_room tp ops" and "transport_run tp ops = (tp', sent)"
  shows "queue_bounded n tp'"
  using assms
proof (induction ops arbitrary: tp tp' sent)
  case (Cons op ops)
  obtain tp1 out1 tp2 out2 where r: "transport_step tp op = (tp1, out1)" "transport_run tp1 ops = (tp2, out2)" by fastforce
  with Cons.prems have "queue_bounded n tp1" using transport_step_bounded [OF Cons.prems(1) _ r(1)] by simp
  from Cons.IH [OF this _ r(2)] Cons.prems r show ?case by auto
qed simp

section \<open>Properties\<close>

text \<open>The orders that tell a consumer to fetch anew.\<close>

fun breaks :: "transport_event \<Rightarrow> bool" where
  "breaks (TEvent ev x) = (x \<notin> {Apply, IgnoreDuplicate, IgnoreStaleGeneration})"
| "breaks t = ends_stream t"

definition applies :: "ustring \<Rightarrow> transport_event \<Rightarrow> bool" where
  "applies d t \<longleftrightarrow> (case t of TEvent ev x \<Rightarrow> x = Apply \<and> rv_channel ev = d | _ \<Rightarrow> False)"

lemma heard_quiet: "\<not> breaks t \<Longrightarrow> \<not> applies d t \<Longrightarrow> heard d p t = p"
  by (cases "(d, p, t)" rule: heard.cases) (auto simp: applies_def)

lemma heard_quiets: "\<forall>t \<in> set ts. \<not> breaks t \<and> \<not> applies d t \<Longrightarrow> foldl (heard d) p ts = p"
  by (induction ts) (auto simp: heard_quiet)

text \<open>Where a stretch begins: a new transport, or one whose socket was just installed, so that nothing is
  queued.\<close>

definition stretch_start :: "transport \<Rightarrow> bool" where
  "stretch_start tp \<longleftrightarrow> tp_events tp = [] \<and> tp_waiters tp \<le> 1 \<and> 0 < tp_capacity tp"

lemma stretch_start_new: "stretch_start (transport_new n)"
  by (simp add: stretch_start_def transport_new_def)

lemma stretch_start_reconnected: "tp_waiters tp \<le> 1 \<Longrightarrow> 0 < tp_capacity tp \<Longrightarrow> stretch_start (reconnected e tp)"
  by (simp add: stretch_start_def reconnected_def install_socket_def)

lemma stretch_start_ok:
  assumes "stretch_start tp"
  shows "transport_inv d [] tp" "ended_told d [] tp" "queue_bounded (tp_capacity tp) tp"
  using assms by (simp_all add: transport_inv_def ended_told_def queue_bounded_def stretch_start_def)

text \<open>C10: Between two new sockets that find unread entries, what a remote client applies has no hidden gap:
  from a new transport or a newly installed socket on, for any live events, control messages, reads,
  disconnects and reconnects, two events of a business domain that its consumer is given to apply one
  after the other are consecutive, unless it was told in between to catch up, to resync or that the
  connection ended; and the queue holds at most its capacity and five invalidations. This takes that
  control messages and disconnects find room in the queue and that a reconnect finds the queue read; when
  they do not, events are lost without a word (the lemmas that follow).\<close>
theorem consumer_hears_no_gap:
  assumes "stretch_start tp0" and "all_room tp0 ops" and run: "transport_run tp0 ops = (tp, sent)"
  shows "length (tp_events tp) \<le> tp_capacity tp0 + 5 \<and>
    (\<forall>xs e1 ys e2 zs. \<not> is_projection_invalidation_channel (rv_channel e1) \<longrightarrow>
       sent @ tp_events tp = xs @ TEvent e1 Apply # ys @ TEvent e2 Apply # zs \<longrightarrow>
       rv_channel e2 = rv_channel e1 \<longrightarrow> (\<forall>t \<in> set ys. \<not> breaks t \<and> \<not> applies (rv_channel e1) t) \<longrightarrow>
       rv_generation e2 = rv_generation e1 \<and> rv_sequence e2 = rv_sequence e1 + 1)"
proof -
  note ok = stretch_start_ok [OF assms(1)]
  have "queue_bounded (tp_capacity tp0) tp" using transport_run_bounded [OF ok(3) assms(2,3)] .
  then have "length (tp_events tp) \<le> tp_capacity tp0 + 5"
    unfolding queue_bounded_def using queue_length [of "tp_events tp"] by linarith
  moreover have "rv_generation e2 = rv_generation e1 \<and> rv_sequence e2 = rv_sequence e1 + 1"
    if "\<not> is_projection_invalidation_channel (rv_channel e1)" and tr: "sent @ tp_events tp = xs @ TEvent e1 Apply # ys @ TEvent e2 Apply # zs"
      "rv_channel e2 = rv_channel e1" "\<forall>t \<in> set ys. \<not> breaks t \<and> \<not> applies (rv_channel e1) t" for xs e1 ys e2 zs
  proof -
    have "gapless (rv_channel e1) None (sent @ tp_events tp)"
      using transport_run_inv [OF ok(1) that(1) ok(2) assms(2,3)] by (simp add: transport_inv_def)
    then show ?thesis unfolding tr(1) using heard_quiets [OF tr(3)] tr(2) by (simp add: event_position_def)
  qed
  ultimately show ?thesis by blast
qed

definition sample_event :: "string \<Rightarrow> nat \<Rightarrow> remote_event" where
  "sample_event channel sequence =
     \<lparr>rv_event_id = [], rv_channel = lit channel, rv_generation = 7, rv_sequence = sequence, rv_correlation_id = None, rv_payload = None, rv_emitted_at_ms = 0\<rparr>"

lemmas transport_eval = transport_new_def sync_engine_new_def register_domains_def register_ephemeral_domain_def register_domain_def
  domain_cursor_new_def dispatch_event_def sync_observe_def observe_invalidation_def set_cursor_def enqueue_def same_event_def
  pause_for_resync_def sat_add_u64_def push_domain_event_def dispatch_control_def next_event_def mark_disconnected_def
  reconnected_def install_socket_def reset_for_reconnect_def resume_after_refetch_def is_projection_invalidation_channel_def sample_event_def lit_eq_iff Let_def U64_MAX_def

lemma sample_transport_run:
  "all_room (transport_new 2) [LiveEvent (sample_event ''runtime'' 1), LiveEvent (sample_event ''git'' 4), LiveEvent (sample_event ''runtime'' 2), TakeNext]"
  "snd (transport_run (transport_new 2) [LiveEvent (sample_event ''runtime'' 1), LiveEvent (sample_event ''git'' 4), LiveEvent (sample_event ''runtime'' 2), TakeNext]) @
     tp_events (fst (transport_run (transport_new 2) [LiveEvent (sample_event ''runtime'' 1), LiveEvent (sample_event ''git'' 4), LiveEvent (sample_event ''runtime'' 2), TakeNext])) =
   [] @ TEvent (sample_event ''runtime'' 1) Apply # [TEvent (sample_event ''git'' 4) Apply] @ TEvent (sample_event ''runtime'' 2) Apply # []"
  by (simp_all add: transport_eval del: lit_simps)

theorem consumer_hears_no_gap_witness:
  "length (tp_events (fst (transport_run (transport_new 2) [LiveEvent (sample_event ''runtime'' 1), LiveEvent (sample_event ''git'' 4), LiveEvent (sample_event ''runtime'' 2), TakeNext]))) \<le> 7 \<and>
   rv_sequence (sample_event ''runtime'' 2) = rv_sequence (sample_event ''runtime'' 1) + 1"
proof -
  have "\<not> is_projection_invalidation_channel (lit ''runtime'')" "lit ''git'' \<noteq> lit ''runtime''" by (simp_all add: is_projection_invalidation_channel_def lit_eq_iff del: lit_simps)
  then show ?thesis
    using consumer_hears_no_gap [OF stretch_start_new sample_transport_run(1) surjective_pairing] sample_transport_run(2)
    by (fastforce simp: applies_def sample_event_def transport_new_def simp del: lit_simps)
qed

section \<open>Where an event is lost without a word\<close>

text \<open>A control message that finds the queue full takes the place of the oldest event, and no order to fetch
  anew is queued: the consumer applies the first and the third event of a domain, one after the other.\<close>

lemma control_message_drops_event:
  "let (tp, sent) = transport_run (transport_new 2) [LiveEvent (sample_event ''runtime'' 1), TakeNext, LiveEvent (sample_event ''runtime'' 2),
      LiveEvent (sample_event ''runtime'' 3), ControlMessage (CtlOther (lit ''subscribed'') JNull)]
   in sent @ tp_events tp =
     [TEvent (sample_event ''runtime'' 1) Apply, TEvent (sample_event ''runtime'' 3) Apply, TControl (CtlOther (lit ''subscribed'') JNull)]"
  by (simp add: transport_eval overflow_marker_def position_of_def del: lit_simps)

text \<open>So does the end of a connection.\<close>

lemma disconnect_drops_event:
  "let (tp, sent) = transport_run (transport_new 2) [LiveEvent (sample_event ''runtime'' 1), TakeNext, LiveEvent (sample_event ''runtime'' 2),
      LiveEvent (sample_event ''runtime'' 3), Disconnect]
   in sent @ tp_events tp = [TEvent (sample_event ''runtime'' 1) Apply, TEvent (sample_event ''runtime'' 3) Apply, TClosed]"
  by (simp add: transport_eval overflow_marker_def position_of_def del: lit_simps)

text \<open>A new socket empties the queue, the mark that the connection ended included, and the cursors stay: the
  consumer applies the first and the third event of a domain and hears nothing in between.\<close>

lemma reconnect_drops_events:
  "let (tp, sent) = transport_run (transport_new 2) [LiveEvent (sample_event ''runtime'' 1), TakeNext, LiveEvent (sample_event ''runtime'' 2),
      Disconnect, Reconnect False, LiveEvent (sample_event ''runtime'' 3), TakeNext]
   in sent @ tp_events tp = [TEvent (sample_event ''runtime'' 1) Apply, TEvent (sample_event ''runtime'' 3) Apply]"
  by (simp add: transport_eval overflow_marker_def position_of_def del: lit_simps)

text \<open>An overflow drops the queued events of every domain and its order to resync names one.\<close>

lemma overflow_names_one_domain:
  "let (tp, sent) = transport_run (transport_new 2) [LiveEvent (sample_event ''terminal'' 1), LiveEvent (sample_event ''terminal'' 2),
      LiveEvent (sample_event ''runtime'' 1)]
   in sent @ tp_events tp = [overflow_marker (sample_event ''runtime'' 1)] \<and> position_of (tp_sync tp) (lit ''terminal'') = (7, 2)"
  by (simp add: transport_eval overflow_marker_def position_of_def del: lit_simps)

text \<open>The queue has room for one invalidation of each channel; the assertion beside the code counts four
  channels, and there are five.\<close>

definition PROJECTION_INVALIDATION_CHANNEL_COUNT :: nat where
  "PROJECTION_INVALIDATION_CHANNEL_COUNT = 4"

lemma five_invalidations_queued:
  "let (tp, sent) = transport_run (transport_new 2) (map (\<lambda>c. LiveEvent (sample_event c 1)) [''file'', ''git'', ''provider'', ''device'', ''sidebar''])
   in PROJECTION_INVALIDATION_CHANNEL_COUNT < length (invalidated (tp_events tp))"
  by (simp add: transport_eval overflow_marker_def position_of_def PROJECTION_INVALIDATION_CHANNEL_COUNT_def del: lit_simps)

end
