(* ===== verification/Computer_Policy.thy ===== *)
theory Computer_Policy
  imports Interfaces
begin

text \<open>
  What an agent may do to the desktop: the risk classes of \<open>crates/core/src/computer.rs\<close>, their
  assessment, enforcement and the session grants of \<open>crates/computer/src/policy.rs\<close>, and the
  gate every tool goes through in \<open>crates/computer/src/service.rs\<close>. Whether a character is
  alphanumeric in Unicode is a parameter; the state of the desktop an assessment reads is an
  argument.

  Facts: credential targets and the runtime's own window are refused whatever was approved; an
  action proceeds only when it is ordinary, approved for this call or granted for the session,
  and only reversible classes are ever granted; the label scan finds exactly the destructive
  words at word boundaries; a selector resolves to one application of the list or to none.
\<close>

section \<open>Risk classes\<close>

datatype action_kind =
    ListApps | LaunchAppAction | KillAppAction | GetAppState | Click | TypeText | SetValue | PressKey | Scroll
  | ScreenshotAction | Permissions | Verify | ClipboardReadAction | ClipboardWriteAction | StopAction | PauseAction
  | ResumeAction | UnknownAction

datatype risk_class =
    CredentialTarget | ClipboardRead | ClipboardWrite | DestructiveClick | FileDeletionOrShare | LaunchApp | KillApp
  | SelfTarget | ConcurrentUserActivity | ForegroundEscalation | Ordinary

datatype risk_policy = Allowed | RequiresApproval | HardDeny

datatype granularity = NoApproval | Once | SessionWide

fun default_policy :: "risk_class \<Rightarrow> risk_policy" where
  "default_policy CredentialTarget = HardDeny"
| "default_policy SelfTarget = HardDeny"
| "default_policy Ordinary = Allowed"
| "default_policy _ = RequiresApproval"

fun approval_granularity :: "risk_class \<Rightarrow> granularity" where
  "approval_granularity LaunchApp = SessionWide"
| "approval_granularity ClipboardWrite = SessionWide"
| "approval_granularity Ordinary = NoApproval"
| "approval_granularity _ = Once"

definition can_be_remembered :: "risk_class \<Rightarrow> bool" where
  "can_be_remembered c \<longleftrightarrow> approval_granularity c = SessionWide"

definition is_blocked_by_policy :: "risk_class \<Rightarrow> bool" where
  "is_blocked_by_policy c \<longleftrightarrow> default_policy c = HardDeny"

fun risk_severity :: "risk_class \<Rightarrow> nat" where
  "risk_severity CredentialTarget = 0"
| "risk_severity SelfTarget = 1"
| "risk_severity DestructiveClick = 2"
| "risk_severity FileDeletionOrShare = 3"
| "risk_severity ClipboardRead = 4"
| "risk_severity ForegroundEscalation = 5"
| "risk_severity KillApp = 6"
| "risk_severity ConcurrentUserActivity = 7"
| "risk_severity ClipboardWrite = 8"
| "risk_severity LaunchApp = 9"
| "risk_severity Ordinary = 10"

definition COMPUTER_CALL_TIMEOUT_CHOICES_MS :: "nat list" where
  "COMPUTER_CALL_TIMEOUT_CHOICES_MS = [30000, 60000, 120000, 300000]"

definition COMPUTER_CALL_TIMEOUT_DEFAULT_MS :: nat where
  "COMPUTER_CALL_TIMEOUT_DEFAULT_MS = 60000"

definition normalize_call_timeout_ms :: "nat \<Rightarrow> nat" where
  "normalize_call_timeout_ms v =
     (case find (\<lambda>choice. choice = v) COMPUTER_CALL_TIMEOUT_CHOICES_MS of
        Some choice \<Rightarrow> choice
      | None \<Rightarrow> (case find (\<lambda>choice. choice \<ge> v) COMPUTER_CALL_TIMEOUT_CHOICES_MS of
          Some choice \<Rightarrow> choice | None \<Rightarrow> COMPUTER_CALL_TIMEOUT_DEFAULT_MS))"

section \<open>Applications and elements\<close>

text \<open>The records leave out the rectangles on the screen, which no decision here reads.\<close>

record computer_window =
  cw_window_id :: ustring
  cw_title :: ustring
  cw_focused :: bool
  cw_frontmost :: bool

record computer_application =
  ap_app_id :: ustring
  ap_display_name :: ustring
  ap_executable_path :: "ustring option"
  ap_bundle_id :: "ustring option"
  ap_running :: bool
  ap_pid :: "int option"
  ap_windows :: "computer_window list"

record computer_element =
  el_reference :: ustring
  el_role :: ustring
  el_name :: ustring
  el_value :: "ustring option"
  el_editable :: bool
  el_secure :: bool
  el_disabled :: bool

abbreviation ascii_lower :: "ustring \<Rightarrow> ustring" where
  "ascii_lower s \<equiv> map to_ascii_lowercase s"

fun join_sep :: "ustring \<Rightarrow> ustring list \<Rightarrow> ustring" where
  "join_sep sep [] = []"
| "join_sep sep [x] = x"
| "join_sep sep (x # xs) = x @ sep @ join_sep sep xs"

definition canonical_identity :: "computer_application \<Rightarrow> ustring" where
  "canonical_identity a =
     ascii_lower (join_sep (lit '' '') ([ap_app_id a, ap_display_name a] @
       (case ap_bundle_id a of Some b \<Rightarrow> [b] | None \<Rightarrow> []) @ (case ap_executable_path a of Some p \<Rightarrow> [p] | None \<Rightarrow> [])))"

section \<open>Reading a target\<close>

definition is_secure_field_role :: "ustring \<Rightarrow> bool" where
  "is_secure_field_role role =
     (let r = trim role in
      list_ex (eq_ignore_ascii_case r) [lit ''AXSecureTextField'', lit ''AXSecureTextField'', lit ''password'', lit ''passwordBox'', lit ''secureTextField''])"

definition COMPUTER_CREDENTIAL_APP_DENYLIST :: "ustring list" where
  "COMPUTER_CREDENTIAL_APP_DENYLIST =
     [lit ''1password'', lit ''bitwarden'', lit ''dashlane'', lit ''lastpass'', lit ''nordpass'', lit ''proton pass'', lit ''protonpass'',
      lit ''keeper'', lit ''keepass'', lit ''keepassxc'', lit ''enpass'', lit ''roboform'', lit ''keychain access'', lit ''gnome-keyring'',
      lit ''seahorse'', lit ''kwallet'', lit ''password-store'']"

definition is_credential_application :: "ustring \<Rightarrow> bool" where
  "is_credential_application identity =
     list_ex (contains_str (ascii_lower identity)) COMPUTER_CREDENTIAL_APP_DENYLIST"

definition COMPUTER_DESTRUCTIVE_ACTION_WORDS :: "ustring list" where
  "COMPUTER_DESTRUCTIVE_ACTION_WORDS =
     [lit ''delete'', lit ''delete all'', lit ''remove'', lit ''erase'', lit ''wipe'', lit ''send'', lit ''send now'', lit ''submit payment'',
      lit ''buy now'', lit ''purchase'', lit ''place order'', lit ''checkout'', lit ''pay now'', lit ''pay'', lit ''transfer'',
      lit ''confirm transfer'', lit ''wire'', lit ''withdraw'', lit ''unsubscribe'', lit ''deactivate'', lit ''close account'',
      lit ''format disk'', lit ''empty trash'', lit ''move to trash'',
      [0x5220, 0x9664], [0x5220, 0x9664, 0x5168, 0x90e8], [0x6e05, 0x7a7a], [0x79fb, 0x9664], [0x53d1, 0x9001],
      [0x7acb, 0x5373, 0x53d1, 0x9001], [0x63d0, 0x4ea4], [0x786e, 0x8ba4], [0x652f, 0x4ed8], [0x4ed8, 0x6b3e], [0x8d2d, 0x4e70],
      [0x4e0b, 0x5355], [0x7ed3, 0x7b97], [0x8f6c, 0x8d26], [0x786e, 0x8ba4, 0x8f6c, 0x8d26], [0x63d0, 0x73b0], [0x6ce8, 0x9500],
      [0x89e3, 0x7ed1], [0x6e05, 0x7a7a, 0x56de, 0x6536, 0x7ad9]]"

text \<open>\<open>str::find\<close>: the first place where a word occurs.\<close>

fun find_str :: "ustring \<Rightarrow> ustring \<Rightarrow> nat option" where
  "find_str w [] = (if w = [] then Some 0 else None)"
| "find_str w (c # cs) = (if take (length w) (c # cs) = w then Some 0 else map_option Suc (find_str w cs))"

lemma find_str_Some: "find_str w s = Some i \<Longrightarrow> i + length w \<le> length s \<and> take (length w) (drop i s) = w \<and> (\<forall>j < i. take (length w) (drop j s) \<noteq> w)"
proof (induction s arbitrary: i)
  case (Cons c cs)
  show ?case
  proof (cases "take (length w) (c # cs) = w")
    case True
    then show ?thesis using Cons.prems by (auto dest: arg_cong [where f = length])
  next
    case False
    then obtain k where "i = Suc k" "find_str w cs = Some k" using Cons.prems by auto
    with Cons.IH [of k] False show ?thesis by (auto simp: less_Suc_eq_0_disj)
  qed
qed (auto split: if_splits)

text \<open>The scan for a word at its boundaries, after the text up to the last match is done: \<open>prev\<close> is the
  character before the rest. The list of words has no empty word.\<close>

function scan_word :: "(uchar \<Rightarrow> bool) \<Rightarrow> ustring \<Rightarrow> uchar option \<Rightarrow> ustring \<Rightarrow> bool" where
  "scan_word alnum w prev rest =
     (if w = [] then False
      else case find_str w rest of
        None \<Rightarrow> False
      | Some i \<Rightarrow>
          let before = (if i = 0 then prev else Some (rest ! (i - 1)));
              behind = drop (i + length w) rest;
              before_ok = (case before of None \<Rightarrow> True | Some c \<Rightarrow> \<not> alnum c);
              after_ok = (case behind of [] \<Rightarrow> True | c # _ \<Rightarrow> \<not> alnum c)
          in if before_ok \<and> after_ok then True else scan_word alnum w (Some (last w)) behind)"
  by pat_completeness auto

termination
proof (relation "measure (\<lambda>(alnum, w, prev, rest). length rest)", goal_cases)
  case (2 alnum w prev rest i before behind before_ok after_ok)
  then show ?case using find_str_Some [of w rest i] by (cases w) auto
qed simp

declare scan_word.simps [simp del]

definition is_destructive_action_label :: "(uchar \<Rightarrow> bool) \<Rightarrow> ustring \<Rightarrow> bool" where
  "is_destructive_action_label alnum label =
     (let l = ascii_lower (trim label) in
      l \<noteq> [] \<and>
      list_ex (\<lambda>word. let w = ascii_lower word in
        if \<not> list_all (\<lambda>c. c < 128) w then contains_str l w else scan_word alnum w None l) COMPUTER_DESTRUCTIVE_ACTION_WORDS)"

text \<open>\<open>split_whitespace().count()\<close>.\<close>

fun count_words :: "bool \<Rightarrow> ustring \<Rightarrow> nat" where
  "count_words inside [] = 0"
| "count_words inside (c # cs) =
     (if is_whitespace c then count_words False cs else (if inside then 0 else 1) + count_words True cs)"

definition is_file_deletion_control :: "ustring \<Rightarrow> ustring \<Rightarrow> bool" where
  "is_file_deletion_control role0 name0 =
     (let role = ascii_lower role0; name = ascii_lower name0;
          destructive = [lit ''delete'', lit ''move to trash'', lit ''empty trash'', [0x5220, 0x9664], [0x79fb, 0x5230, 0x5e9f, 0x7eb8, 0x7bd3], [0x6e05, 0x7a7a]];
          externalising = [lit ''upload'', lit ''share'', lit ''attach'', [0x4e0a, 0x4f20], [0x5206, 0x4eab], [0x4f5c, 0x4e3a, 0x9644, 0x4ef6]];
          file_context = contains_str role (lit ''file'') \<or> contains_str role (lit ''outline'') \<or> contains_str name (lit ''file'') \<or>
            contains_str name (lit ''folder'') \<or> contains_str name [0x6587, 0x4ef6] \<or> contains_str name [0x6587, 0x4ef6, 0x5939]
      in file_context \<and> list_ex (contains_str name) (destructive @ externalising) \<or>
         list_ex (contains_str name) destructive \<and> count_words False name \<le> 3)"

section \<open>Assessment\<close>

record policy_request =
  pr_kind :: action_kind
  pr_app :: computer_application
  pr_element :: "computer_element option"
  pr_label :: "ustring option"
  pr_foreground :: bool
  pr_writes_text :: bool
  pr_target_is_frontmost :: bool
  pr_user_activity_age_ms :: "int option"
  pr_self_target :: bool

record policy_outcome =
  po_risk :: risk_class
  po_policy :: risk_policy
  po_requires_approval :: bool
  po_granularity :: granularity
  po_reason :: ustring
  po_classes :: "risk_class list"

definition COMPUTER_CONCURRENT_ACTIVITY_MS :: int where
  "COMPUTER_CONCURRENT_ACTIVITY_MS = 3000"

text \<open>\<open>Iterator::min_by_key\<close>: the first of the least.\<close>

fun min_by_key :: "('a \<Rightarrow> nat) \<Rightarrow> 'a list \<Rightarrow> 'a option" where
  "min_by_key f [] = None"
| "min_by_key f (x # xs) = (case min_by_key f xs of None \<Rightarrow> Some x | Some y \<Rightarrow> if f x \<le> f y then Some x else Some y)"

fun policy_rank :: "risk_policy \<Rightarrow> nat" where
  "policy_rank HardDeny = 0"
| "policy_rank RequiresApproval = 1"
| "policy_rank Allowed = 2"

fun granularity_rank :: "granularity \<Rightarrow> nat" where
  "granularity_rank Once = 0"
| "granularity_rank SessionWide = 1"
| "granularity_rank NoApproval = 2"

definition from_classes :: "risk_class list \<Rightarrow> ustring \<Rightarrow> policy_outcome" where
  "from_classes classes reason =
     (let policy = (case min_by_key policy_rank (map default_policy classes) of Some p \<Rightarrow> p | None \<Rightarrow> Allowed);
          granularity = (case min_by_key granularity_rank (map approval_granularity classes) of Some g \<Rightarrow> g | None \<Rightarrow> NoApproval);
          risk = (case min_by_key risk_severity classes of Some r \<Rightarrow> r | None \<Rightarrow> Ordinary)
      in \<lparr>po_risk = risk, po_policy = policy, po_requires_approval = (policy = RequiresApproval), po_granularity = granularity,
          po_reason = reason, po_classes = classes\<rparr>)"

text \<open>The classes that apply, each with the reason the card shows, if it adds one.\<close>

definition kind_classes :: "(uchar \<Rightarrow> bool) \<Rightarrow> policy_request \<Rightarrow> (risk_class \<times> ustring option) list" where
  "kind_classes alnum r =
     (case pr_kind r of
        ClipboardReadAction \<Rightarrow> [(ClipboardRead, Some (lit ''reading the clipboard can expose a password''))]
      | ClipboardWriteAction \<Rightarrow> [(ClipboardWrite, Some (lit ''this replaces what the user has copied''))]
      | LaunchAppAction \<Rightarrow> [(LaunchApp, Some (lit ''start '' @ ap_display_name (pr_app r) @ lit '' on the desktop''))]
      | KillAppAction \<Rightarrow> [(KillApp, Some (lit ''quit '' @ ap_display_name (pr_app r)))]
      | Click \<Rightarrow>
          (let label = (case pr_label r of Some l \<Rightarrow> l | None \<Rightarrow> (case pr_element r of Some e \<Rightarrow> el_name e | None \<Rightarrow> [])) in
           (if is_destructive_action_label alnum label
            then [(DestructiveClick, Some (lit ''the control is labelled '' @ [0x201c] @ label @ [0x201d]))] else []) @
           (case pr_element r of
              Some e \<Rightarrow> if is_file_deletion_control (el_role e) (el_name e)
                then [(FileDeletionOrShare, Some (lit ''this deletes or externalises a file''))] else []
            | None \<Rightarrow> []))
      | TypeText \<Rightarrow> if is_credential_application (canonical_identity (pr_app r)) then [(CredentialTarget, None)] else []
      | SetValue \<Rightarrow> if is_credential_application (canonical_identity (pr_app r)) then [(CredentialTarget, None)] else []
      | _ \<Rightarrow> [])"

definition risk_classes :: "(uchar \<Rightarrow> bool) \<Rightarrow> policy_request \<Rightarrow> (risk_class \<times> ustring option) list" where
  "risk_classes alnum r =
     (if pr_self_target r then [(SelfTarget, Some (lit ''the target is Vibex's own window''))] else []) @
     (if is_credential_application (canonical_identity (pr_app r))
      then [(CredentialTarget, Some (ap_display_name (pr_app r) @ lit '' is a credential store''))] else []) @
     (case pr_element r of
        Some e \<Rightarrow> if el_secure e \<or> is_secure_field_role (el_role e)
          then [(CredentialTarget, Some (lit ''the target is a secure text field''))] else []
      | None \<Rightarrow> []) @
     kind_classes alnum r @
     (if pr_foreground r then [(ForegroundEscalation, Some (lit ''this briefly takes over the foreground''))] else []) @
     (if pr_target_is_frontmost r \<and> (case pr_user_activity_age_ms r of Some age \<Rightarrow> age < COMPUTER_CONCURRENT_ACTIVITY_MS | None \<Rightarrow> False)
      then [(ConcurrentUserActivity, Some (lit ''the user appears to be using this window right now''))] else [])"

definition assess :: "(uchar \<Rightarrow> bool) \<Rightarrow> policy_request \<Rightarrow> policy_outcome" where
  "assess alnum r =
     (let cs = risk_classes alnum r;
          found = (if cs = [] then [(Ordinary, Some (lit ''an ordinary desktop action''))] else cs)
      in from_classes (map fst found) (join_sep (lit ''; '') (concat (map (\<lambda>(c, why). case why of Some t \<Rightarrow> [t] | None \<Rightarrow> []) found))))"

datatype computer_error = Permission string | Invalid string

definition enforce :: "policy_outcome \<Rightarrow> computer_error + unit" where
  "enforce po =
     (case po_risk po of
        CredentialTarget \<Rightarrow> Inl (Permission ''computer_credential_target_blocked'')
      | SelfTarget \<Rightarrow> Inl (Permission ''computer_self_target_blocked'')
      | _ \<Rightarrow> if po_policy po = HardDeny then Inl (Permission ''computer_action_blocked'') else Inr ())"

section \<open>Selectors\<close>

definition resolve_target :: "computer_application list \<Rightarrow> ustring \<Rightarrow> computer_error + computer_application" where
  "resolve_target apps selector0 =
     (let selector = trim selector0 in
      if selector = [] then Inl (Invalid ''computer_application_not_found'')
      else case find (\<lambda>a. ap_app_id a = selector) apps of
        Some a \<Rightarrow> Inr a
      | None \<Rightarrow> (case find (\<lambda>a. ap_bundle_id a = Some selector) apps of
          Some a \<Rightarrow> Inr a
        | None \<Rightarrow>
            (let named = filter (\<lambda>a. ascii_lower (ap_display_name a) = ascii_lower selector) apps;
                 matches = (if named = [] then filter (\<lambda>a. ap_executable_path a = Some selector) apps else named)
             in case matches of [a] \<Rightarrow> Inr a | _ \<Rightarrow> Inl (Invalid ''computer_application_not_found''))))"

section \<open>Grants and the gate\<close>

type_synonym grant_store = "(risk_class \<times> ustring) list"

definition is_granted :: "grant_store \<Rightarrow> risk_class \<Rightarrow> computer_application \<Rightarrow> bool" where
  "is_granted gs risk a \<longleftrightarrow> can_be_remembered risk \<and> (risk, canonical_identity a) \<in> set gs"

definition remember :: "risk_class \<Rightarrow> computer_application \<Rightarrow> grant_store \<Rightarrow> grant_store \<times> bool" where
  "remember risk a gs =
     (if \<not> can_be_remembered risk then (gs, False)
      else (List.insert (risk, canonical_identity a) gs, (risk, canonical_identity a) \<notin> set gs))"

record approved_action =
  aa_risk :: risk_class
  aa_target :: ustring
  aa_foreground :: bool

definition approval_for :: "approved_action list \<Rightarrow> risk_class \<Rightarrow> computer_application \<Rightarrow> bool \<Rightarrow> bool" where
  "approval_for approved risk target foreground =
     list_ex (\<lambda>ap. aa_risk ap = risk \<and> aa_target ap = canonical_identity target \<and> (\<not> foreground \<or> aa_foreground ap)) approved"

text \<open>What the gate reads of the desktop when it assesses an action.\<close>

record desktop_view =
  dv_user_activity_age_ms :: "int option"
  dv_host_pids :: "int list"

definition service_assess :: "(uchar \<Rightarrow> bool) \<Rightarrow> desktop_view \<Rightarrow> action_kind \<Rightarrow> computer_application \<Rightarrow> computer_element option \<Rightarrow> bool \<Rightarrow> bool \<Rightarrow> policy_outcome" where
  "service_assess alnum view kind app element foreground writes_text =
     assess alnum \<lparr>pr_kind = kind, pr_app = app, pr_element = element, pr_label = None, pr_foreground = foreground,
       pr_writes_text = writes_text, pr_target_is_frontmost = list_ex cw_frontmost (ap_windows app),
       pr_user_activity_age_ms = dv_user_activity_age_ms view,
       pr_self_target = (case ap_pid app of Some pid \<Rightarrow> pid \<in> set (dv_host_pids view) | None \<Rightarrow> False)\<rparr>"

datatype gate_result =
    Proceed risk_class
  | Ask (ask_risk: risk_class) (ask_classes: "risk_class list") (ask_granularity: granularity) (ask_reason: ustring)
  | Deny computer_error risk_class

definition gate :: "(uchar \<Rightarrow> bool) \<Rightarrow> desktop_view \<Rightarrow> approved_action list \<Rightarrow> grant_store \<Rightarrow> action_kind \<Rightarrow> computer_application \<Rightarrow>
    computer_element option \<Rightarrow> bool \<Rightarrow> bool \<Rightarrow> gate_result" where
  "gate alnum view approved grants kind app element foreground writes_text =
     (let po = service_assess alnum view kind app element foreground writes_text in
      case enforce po of
        Inl e \<Rightarrow> Deny e (po_risk po)
      | Inr _ \<Rightarrow>
          if \<not> po_requires_approval po then Proceed (po_risk po)
          else if approval_for approved (po_risk po) app foreground then Proceed (po_risk po)
          else if is_granted grants (po_risk po) app then Proceed (po_risk po)
          else Ask (po_risk po) (po_classes po) (po_granularity po) (po_reason po))"


definition clear_grants :: "grant_store \<Rightarrow> grant_store" where
  "clear_grants gs = []"

section \<open>The strictest class decides\<close>

lemma min_by_key_Some: "min_by_key f xs = Some y \<Longrightarrow> y \<in> set xs \<and> (\<forall>x \<in> set xs. f y \<le> f x)"
proof (induction xs arbitrary: y)
  case (Cons x xs)
  show ?case
  proof (cases "min_by_key f xs")
    case None
    then have "xs = []" by (cases xs) (auto split: option.splits if_splits)
    with Cons.prems show ?thesis by simp
  next
    case (Some z)
    with Cons show ?thesis by (force split: if_splits)
  qed
qed simp

lemma min_by_key_ex: "xs \<noteq> [] \<Longrightarrow> \<exists>y. min_by_key f xs = Some y"
  by (cases xs) (auto split: option.split)

lemma severity_orders:
  "risk_severity a \<le> risk_severity b \<Longrightarrow> policy_rank (default_policy a) \<le> policy_rank (default_policy b)"
  "risk_severity a \<le> risk_severity b \<Longrightarrow> a \<noteq> b \<Longrightarrow> granularity_rank (approval_granularity a) \<le> granularity_rank (approval_granularity b)"
  by (cases a; cases b; simp)+

lemma rank_inj: "policy_rank p = policy_rank q \<Longrightarrow> p = q" "granularity_rank g = granularity_rank h \<Longrightarrow> g = h"
  by (cases p; cases q; simp) (cases g; cases h; simp)

lemma min_by_key_image:
  assumes m: "min_by_key f xs = Some y" and mono: "\<And>a b. f a \<le> f b \<Longrightarrow> (g (h a) :: nat) \<le> g (h b)" and inj: "\<And>p q. g p = g q \<Longrightarrow> p = q"
  shows "min_by_key g (map h xs) = Some (h y)"
proof -
  have y: "y \<in> set xs" "\<And>x. x \<in> set xs \<Longrightarrow> f y \<le> f x" using min_by_key_Some [OF m] by auto
  have "map h xs \<noteq> []" using y(1) by (cases xs) auto
  then obtain z where z: "min_by_key g (map h xs) = Some z" by (rule exE [OF min_by_key_ex])
  have "z \<in> h ` set xs" "g z \<le> g (h y)" using min_by_key_Some [OF z] y(1) by simp_all
  then obtain x where x: "x \<in> set xs" "z = h x" by blast
  with \<open>g z \<le> g (h y)\<close> have "g z = g (h y)" using mono [OF y(2) [OF x(1)]] by simp
  with z inj show ?thesis by auto
qed

text \<open>The three minima agree: the policy and the granularity are those of the most severe class.\<close>

lemma from_classes_agree:
  assumes "cs \<noteq> []"
  shows "po_risk (from_classes cs why) \<in> set cs" "c \<in> set cs \<Longrightarrow> risk_severity (po_risk (from_classes cs why)) \<le> risk_severity c"
    "po_policy (from_classes cs why) = default_policy (po_risk (from_classes cs why))"
    "po_granularity (from_classes cs why) = approval_granularity (po_risk (from_classes cs why))"
    "po_requires_approval (from_classes cs why) \<longleftrightarrow> default_policy (po_risk (from_classes cs why)) = RequiresApproval"
    "po_classes (from_classes cs why) = cs"
proof -
  obtain r where r: "min_by_key risk_severity cs = Some r" using min_by_key_ex [OF assms] by blast
  have "min_by_key policy_rank (map default_policy cs) = Some (default_policy r)"
    by (rule min_by_key_image [OF r]) (use severity_orders(1) rank_inj(1) in auto)
  moreover have "granularity_rank (approval_granularity a) \<le> granularity_rank (approval_granularity b)" if "risk_severity a \<le> risk_severity b" for a b
    using severity_orders(2) [OF that] by (cases "a = b") auto
  then have "min_by_key granularity_rank (map approval_granularity cs) = Some (approval_granularity r)"
    by (intro min_by_key_image [OF r]) (use rank_inj(2) in auto)
  ultimately show "po_risk (from_classes cs why) \<in> set cs" "c \<in> set cs \<Longrightarrow> risk_severity (po_risk (from_classes cs why)) \<le> risk_severity c"
    "po_policy (from_classes cs why) = default_policy (po_risk (from_classes cs why))"
    "po_granularity (from_classes cs why) = approval_granularity (po_risk (from_classes cs why))"
    "po_requires_approval (from_classes cs why) \<longleftrightarrow> default_policy (po_risk (from_classes cs why)) = RequiresApproval"
    "po_classes (from_classes cs why) = cs"
    using r min_by_key_Some [OF r] by (auto simp: from_classes_def Let_def)
qed

text \<open>The classes an assessment reports.\<close>

definition found_classes :: "(uchar \<Rightarrow> bool) \<Rightarrow> policy_request \<Rightarrow> risk_class list" where
  "found_classes alnum r = (if risk_classes alnum r = [] then [Ordinary] else map fst (risk_classes alnum r))"

lemma assess_found: "\<exists>why. assess alnum r = from_classes (found_classes alnum r) why"
  by (simp add: assess_def found_classes_def Let_def) blast

lemma found_classes_nonempty: "found_classes alnum r \<noteq> []"
  by (simp add: found_classes_def)

lemma assess_agree:
  "po_risk (assess alnum r) \<in> set (found_classes alnum r)"
  "c \<in> set (found_classes alnum r) \<Longrightarrow> risk_severity (po_risk (assess alnum r)) \<le> risk_severity c"
  "po_policy (assess alnum r) = default_policy (po_risk (assess alnum r))"
  "po_granularity (assess alnum r) = approval_granularity (po_risk (assess alnum r))"
  "po_requires_approval (assess alnum r) \<longleftrightarrow> default_policy (po_risk (assess alnum r)) = RequiresApproval"
  "po_classes (assess alnum r) = found_classes alnum r"
  using assess_found [of alnum r] from_classes_agree [OF found_classes_nonempty] by metis+

text \<open>A forbidden target: the runtime's own process, a credential store or a secure field.\<close>

definition forbidden_target :: "desktop_view \<Rightarrow> computer_application \<Rightarrow> computer_element option \<Rightarrow> bool" where
  "forbidden_target view app element \<longleftrightarrow>
     (\<exists>pid. ap_pid app = Some pid \<and> pid \<in> set (dv_host_pids view)) \<or>
     (\<exists>name \<in> set COMPUTER_CREDENTIAL_APP_DENYLIST. sublist name (canonical_identity app)) \<or>
     (\<exists>e. element = Some e \<and> (el_secure e \<or> is_secure_field_role (el_role e)))"

lemma canonical_identity_lower: "ascii_lower (canonical_identity a) = canonical_identity a"
  by (simp add: canonical_identity_def to_ascii_lowercase_def)

lemma is_credential_application_iff:
  "is_credential_application (canonical_identity a) \<longleftrightarrow> (\<exists>name \<in> set COMPUTER_CREDENTIAL_APP_DENYLIST. sublist name (canonical_identity a))"
  by (simp add: is_credential_application_def canonical_identity_lower contains_str_iff list_ex_iff)

abbreviation service_request :: "desktop_view \<Rightarrow> action_kind \<Rightarrow> computer_application \<Rightarrow> computer_element option \<Rightarrow> bool \<Rightarrow> bool \<Rightarrow> policy_request" where
  "service_request view kind app element foreground writes_text \<equiv>
     \<lparr>pr_kind = kind, pr_app = app, pr_element = element, pr_label = None, pr_foreground = foreground,
       pr_writes_text = writes_text, pr_target_is_frontmost = list_ex cw_frontmost (ap_windows app),
       pr_user_activity_age_ms = dv_user_activity_age_ms view,
       pr_self_target = (case ap_pid app of Some pid \<Rightarrow> pid \<in> set (dv_host_pids view) | None \<Rightarrow> False)\<rparr>"

lemma kind_classes_set:
  "(SelfTarget, w) \<notin> set (kind_classes alnum r)" "(Ordinary, w) \<notin> set (kind_classes alnum r)"
  "(CredentialTarget, w) \<in> set (kind_classes alnum r) \<Longrightarrow> is_credential_application (canonical_identity (pr_app r))"
  by (cases "pr_kind r"; auto simp: kind_classes_def Let_def split: if_splits option.splits)+

lemma self_class_iff: "SelfTarget \<in> set (found_classes alnum r) \<longleftrightarrow> pr_self_target r"
  using kind_classes_set(1) [of _ alnum r] by (auto simp: found_classes_def risk_classes_def split: option.splits if_splits)

lemma credential_class_iff:
  "CredentialTarget \<in> set (found_classes alnum r) \<longleftrightarrow>
     is_credential_application (canonical_identity (pr_app r)) \<or> (\<exists>e. pr_element r = Some e \<and> (el_secure e \<or> is_secure_field_role (el_role e)))"
  using kind_classes_set(3) [of _ alnum r] by (auto simp: found_classes_def risk_classes_def split: option.splits if_splits)

lemma forbidden_iff:
  "forbidden_target view app element \<longleftrightarrow>
     SelfTarget \<in> set (found_classes alnum (service_request view kind app element foreground writes_text)) \<or>
     CredentialTarget \<in> set (found_classes alnum (service_request view kind app element foreground writes_text))"
  unfolding self_class_iff credential_class_iff forbidden_target_def is_credential_application_iff by (auto split: option.splits)

lemma ordinary_alone: "Ordinary \<in> set (found_classes alnum r) \<longleftrightarrow> risk_classes alnum r = []"
  using kind_classes_set(2) [of _ alnum r] by (auto simp: found_classes_def risk_classes_def split: option.splits if_splits)

section \<open>What passes the gate\<close>

lemma hard_deny_iff: "default_policy c = HardDeny \<longleftrightarrow> c = SelfTarget \<or> c = CredentialTarget"
  and allowed_iff: "default_policy c = Allowed \<longleftrightarrow> c = Ordinary"
  by (cases c; simp)+

lemma enforce_refuses: "po_policy po = default_policy (po_risk po) \<Longrightarrow> (\<exists>e. enforce po = Inl e) \<longleftrightarrow> default_policy (po_risk po) = HardDeny"
  by (cases "po_risk po") (auto simp: enforce_def)

text \<open>Every class of an action may be remembered when its most severe one may.\<close>

lemma remembered_all:
  assumes "can_be_remembered (po_risk (assess alnum r))" and "c \<in> set (found_classes alnum r)"
  shows "can_be_remembered c"
proof -
  have "c \<noteq> Ordinary"
  proof
    assume "c = Ordinary"
    then have "found_classes alnum r = [Ordinary]" using ordinary_alone [of alnum r] assms(2) by (simp add: found_classes_def)
    then show False using assess_agree(1) [of alnum r] assms(1) by (simp add: can_be_remembered_def)
  qed
  with assms(1) assess_agree(2) [OF assms(2)] show ?thesis
    by (cases "po_risk (assess alnum r)"; cases c; simp add: can_be_remembered_def)
qed

lemma hard_deny_forbidden:
  "default_policy (po_risk (assess alnum (service_request view kind app element foreground writes_text))) = HardDeny \<longleftrightarrow>
     forbidden_target view app element"
proof
  let ?r = "service_request view kind app element foreground writes_text"
  let ?po = "assess alnum ?r"
  note agree = assess_agree [where alnum = alnum and r = ?r]
  show "default_policy (po_risk ?po) = HardDeny \<Longrightarrow> forbidden_target view app element"
    using agree(1) unfolding forbidden_iff [of _ _ _ alnum kind foreground writes_text] hard_deny_iff by auto
  assume "forbidden_target view app element"
  then obtain c where "c \<in> set (found_classes alnum ?r)" "risk_severity c \<le> 1"
    unfolding forbidden_iff [of _ _ _ alnum kind foreground writes_text] by auto
  with agree(2) have "risk_severity (po_risk ?po) \<le> 1" by fastforce
  then show "default_policy (po_risk ?po) = HardDeny" by (cases "po_risk ?po") auto
qed

lemma gate_denies_forbidden:
  assumes "forbidden_target view app element"
  shows "\<exists>e c. gate alnum view approved grants kind app element foreground writes_text = Deny e c"
proof -
  let ?po = "assess alnum (service_request view kind app element foreground writes_text)"
  have "\<exists>e. enforce ?po = Inl e"
    using enforce_refuses assess_agree(3) hard_deny_forbidden assms by blast
  then show ?thesis by (auto simp: gate_def service_assess_def)
qed

text \<open>C11: Every action on the desktop goes through one decision, which reads neither the approval policy nor
  the own-window switch of the settings, so that it is what their defaults ask for, whatever they are set
  to (\<open>gate_documented_by_default\<close> and what follows it). An action is refused exactly when its target is
  the runtime's own process, a credential store or a secure field, whatever was approved or granted before.
  It proceeds only when nothing risky was found, or the user approved this very call for its most severe
  class, this application and, where it takes the foreground, the foreground, or a session grant covers
  that class and no class it has is a one-off. Otherwise the user is asked, with every class found, and
  is offered to remember the answer only when each class may be remembered.\<close>
theorem gate_respects_policy:
  "let classes = found_classes alnum (service_request view kind app element foreground writes_text);
       result = gate alnum view approved grants kind app element foreground writes_text
   in ((\<exists>e c. result = Deny e c) \<longleftrightarrow> forbidden_target view app element) \<and>
      (\<forall>c. result = Proceed c \<longrightarrow> c \<in> set classes \<and> (\<forall>d \<in> set classes. risk_severity c \<le> risk_severity d) \<and>
         (classes = [Ordinary] \<or>
          (\<exists>ap \<in> set approved. aa_risk ap = c \<and> aa_target ap = canonical_identity app \<and> (foreground \<longrightarrow> aa_foreground ap)) \<or>
          (c, canonical_identity app) \<in> set grants \<and> (\<forall>d \<in> set classes. can_be_remembered d))) \<and>
      (\<forall>c cs g why. result = Ask c cs g why \<longrightarrow> cs = classes \<and> \<not> approval_for approved c app foreground \<and>
         (g = SessionWide \<longrightarrow> (\<forall>d \<in> set classes. can_be_remembered d)))"
proof -
  let ?r = "service_request view kind app element foreground writes_text"
  let ?po = "assess alnum ?r"
  note agree = assess_agree [where alnum = alnum and r = ?r]
  note deny = hard_deny_forbidden [where alnum = alnum and view = view and kind = kind and app = app and element = element and
      foreground = foreground and writes_text = writes_text]
  have ord: "found_classes alnum ?r = [Ordinary]" if "po_risk ?po = Ordinary"
    using that agree(1) ordinary_alone [of alnum ?r] by (simp add: found_classes_def)
  have rem: "c \<in> set (found_classes alnum ?r) \<Longrightarrow> can_be_remembered c" if "can_be_remembered (po_risk ?po)" for c
    by (rule remembered_all [OF that])
  have ses: "can_be_remembered (po_risk ?po)" if "po_granularity ?po = SessionWide" using that agree(4) by (simp add: can_be_remembered_def)
  show ?thesis
  proof (cases "enforce ?po")
    case (Inl e)
    then have "forbidden_target view app element" using enforce_refuses [OF agree(3)] deny by auto
    with Inl show ?thesis by (simp add: gate_def service_assess_def)
  next
    case (Inr u)
    then have free: "\<not> forbidden_target view app element" and p: "default_policy (po_risk ?po) \<noteq> HardDeny"
      using enforce_refuses [OF agree(3)] deny by auto
    have "po_risk ?po = Ordinary" if "\<not> po_requires_approval ?po"
      using that p agree(5) allowed_iff [of "po_risk ?po"] by (cases "default_policy (po_risk ?po)") auto
    with Inr free ord rem ses agree(1,2,6) show ?thesis
      by (auto simp: gate_def service_assess_def Let_def approval_for_def is_granted_def list_ex_iff)
  qed
qed

definition sample_app :: computer_application where
  "sample_app = \<lparr>ap_app_id = lit ''notes'', ap_display_name = lit ''Notes'', ap_executable_path = None, ap_bundle_id = None,
     ap_running = False, ap_pid = None, ap_windows = []\<rparr>"

abbreviation sample_view :: desktop_view where
  "sample_view \<equiv> \<lparr>dv_user_activity_age_ms = Some 100, dv_host_pids = [17]\<rparr>"

lemma sample_gate:
  "gate is_ascii_alphanumeric sample_view [] [(LaunchApp, canonical_identity sample_app)] LaunchAppAction sample_app None False False = Proceed LaunchApp"
  "gate is_ascii_alphanumeric sample_view [] [(LaunchApp, canonical_identity sample_app)] LaunchAppAction sample_app None True False =
     Ask ForegroundEscalation [LaunchApp, ForegroundEscalation] Once (lit ''start Notes on the desktop; this briefly takes over the foreground'')"
  by (simp_all add: gate_def service_assess_def assess_def risk_classes_def kind_classes_def from_classes_def enforce_def approval_for_def
      is_granted_def can_be_remembered_def is_credential_application_def canonical_identity_def sample_app_def Let_def
      COMPUTER_CREDENTIAL_APP_DENYLIST_def to_ascii_lowercase_def)

theorem gate_respects_policy_witness:
  "gate is_ascii_alphanumeric sample_view [] [(LaunchApp, canonical_identity sample_app)] LaunchAppAction sample_app None False False = Proceed LaunchApp \<and>
   \<not> forbidden_target sample_view sample_app None \<and>
   LaunchApp \<in> set (found_classes is_ascii_alphanumeric (service_request sample_view LaunchAppAction sample_app None False False))"
  using gate_respects_policy [where alnum = is_ascii_alphanumeric and view = sample_view and kind = LaunchAppAction and app = sample_app
      and element = None and foreground = False and writes_text = False and approved = "[]" and grants = "[(LaunchApp, canonical_identity sample_app)]"]
  unfolding Let_def sample_gate(1) by blast

text \<open>The settings a user can change while the runtime runs, said to be read on every action, and the
  decision their documentation describes: the own window is no target of its own when it is allowed, and
  the policy runs or refuses what would be asked.\<close>

datatype approval_policy = PolicyAsk | PolicyAllow | PolicyDeny

record runtime_settings =
  rt_enabled :: bool
  rt_approval_policy :: approval_policy
  rt_allow_self_target :: bool
  rt_call_timeout_ms :: nat
  rt_wayland_opt_in :: "bool option"

definition documented_gate :: "runtime_settings \<Rightarrow> (uchar \<Rightarrow> bool) \<Rightarrow> desktop_view \<Rightarrow> approved_action list \<Rightarrow> grant_store \<Rightarrow> action_kind \<Rightarrow>
    computer_application \<Rightarrow> computer_element option \<Rightarrow> bool \<Rightarrow> bool \<Rightarrow> gate_result" where
  "documented_gate settings alnum view approved grants kind app element foreground writes_text =
     (let view' = (if rt_allow_self_target settings then view\<lparr>dv_host_pids := []\<rparr> else view) in
      case gate alnum view' approved grants kind app element foreground writes_text of
        Ask risk classes granularity why \<Rightarrow>
          (case rt_approval_policy settings of
             PolicyAsk \<Rightarrow> Ask risk classes granularity why
           | PolicyAllow \<Rightarrow> Proceed risk
           | PolicyDeny \<Rightarrow> Deny (Permission ''computer_approval_policy_denied'') risk)
      | decided \<Rightarrow> decided)"

lemma gate_documented_by_default:
  "rt_approval_policy settings = PolicyAsk \<Longrightarrow> \<not> rt_allow_self_target settings \<Longrightarrow>
     gate alnum view approved grants kind app element foreground writes_text =
     documented_gate settings alnum view approved grants kind app element foreground writes_text"
  by (simp add: documented_gate_def Let_def split: gate_result.split)

lemma gate_ignores_policy:
  "gate is_ascii_alphanumeric sample_view [] [] LaunchAppAction sample_app None False False \<noteq>
   documented_gate \<lparr>rt_enabled = True, rt_approval_policy = policy, rt_allow_self_target = False, rt_call_timeout_ms = 30000, rt_wayland_opt_in = None\<rparr>
     is_ascii_alphanumeric sample_view [] [] LaunchAppAction sample_app None False False \<longleftrightarrow> policy \<noteq> PolicyAsk"
proof -
  obtain risk cs g why where "gate is_ascii_alphanumeric sample_view [] [] LaunchAppAction sample_app None False False = Ask risk cs g why"
    by (simp add: gate_def service_assess_def assess_def risk_classes_def kind_classes_def from_classes_def enforce_def approval_for_def
      is_granted_def can_be_remembered_def is_credential_application_def canonical_identity_def sample_app_def Let_def
      COMPUTER_CREDENTIAL_APP_DENYLIST_def to_ascii_lowercase_def)
  then show ?thesis by (cases policy) (simp_all add: documented_gate_def Let_def)
qed

text \<open>The own window stays refused when the switch allows it.\<close>

lemma gate_ignores_self_target:
  assumes "ap_pid app = Some pid" "pid \<in> set (dv_host_pids view)"
  shows "\<exists>e c. gate alnum view approved grants kind app element foreground writes_text = Deny e c"
proof -
  have "forbidden_target view app element" using assms by (simp add: forbidden_target_def)
  then show ?thesis
    using gate_denies_forbidden by blast
qed

section \<open>Destructive labels\<close>

lemma find_str_None_iff: "find_str w s = None \<longleftrightarrow> \<not> sublist w s"
proof (induction s)
  case (Cons c cs)
  have "take (length w) (c # cs) = w \<longleftrightarrow> prefix w (c # cs)"
    by (metis append_eq_conv_conj append_take_drop_id prefix_def)
  then show ?case using Cons by (auto simp: sublist_Cons_right)
qed simp

text \<open>A word between characters that are not alphanumeric, with \<open>prev\<close> before the text.\<close>

definition word_at :: "(uchar \<Rightarrow> bool) \<Rightarrow> uchar option \<Rightarrow> ustring \<Rightarrow> ustring \<Rightarrow> ustring \<Rightarrow> bool" where
  "word_at alnum prev p w s \<longleftrightarrow>
     (case (if p = [] then prev else Some (last p)) of None \<Rightarrow> True | Some c \<Rightarrow> \<not> alnum c) \<and> (s = [] \<or> \<not> alnum (hd s))"

text \<open>No occurrence of a word starts behind a boundary inside another.\<close>

definition separable :: "(uchar \<Rightarrow> bool) \<Rightarrow> ustring \<Rightarrow> bool" where
  "separable alnum w \<longleftrightarrow> (\<forall>k \<in> {1..<length w}. alnum (w ! (k - 1)) \<or> \<not> prefix (drop k w) w)"

lemma overlap_impossible:
  assumes sep: "separable alnum w" and eq: "p0 @ w @ s0 = p @ w @ s" and len: "length p0 < length p" "length p < length p0 + length w"
    and at: "word_at alnum prev p w s"
  shows False
proof -
  define k where "k = length p - length p0"
  have k: "0 < k" "k < length w" using len by (auto simp: k_def)
  have p: "p = p0 @ take k w" and rest: "drop k w @ s0 = w @ s"
  proof -
    have "take (length p) (p0 @ w @ s0) = p" "drop (length p) (p0 @ w @ s0) = w @ s" by (simp_all add: eq)
    with len k show "p = p0 @ take k w" "drop k w @ s0 = w @ s" by (simp_all add: k_def)
  qed
  have "prefix (drop k w) w" using rest k by (metis append_eq_append_conv2 length_drop diff_le_self prefix_def prefix_length_prefix prefixI)
  moreover have "last p = w ! (k - 1)" "p \<noteq> []" using p k by (auto simp: last_append last_conv_nth [of "take k w"])
  ultimately show False using sep at k by (auto simp: separable_def word_at_def)
qed

lemma scan_word_iff:
  assumes "w \<noteq> []" and "separable alnum w"
  shows "scan_word alnum w prev rest \<longleftrightarrow> (\<exists>p s. rest = p @ w @ s \<and> word_at alnum prev p w s)"
  using assms
proof (induction alnum w prev rest rule: scan_word.induct)
  case (1 alnum w prev rest)
  show ?case
  proof (cases "find_str w rest")
    case None
    then have "\<not> sublist w rest" by (simp add: find_str_None_iff)
    with None "1.prems" show ?thesis by (auto simp: scan_word.simps [of alnum w prev rest] sublist_def)
  next
    case (Some i)
    note f = find_str_Some [OF Some]
    define p0 s0 where "p0 = take i rest" and "s0 = drop (i + length w) rest"
    have rest: "rest = p0 @ w @ s0" and i: "length p0 = i"
      using f by (simp_all add: p0_def s0_def) (metis append_take_drop_id drop_drop add.commute)
    have before: "(if i = 0 then prev else Some (rest ! (i - 1))) = (if p0 = [] then prev else Some (last p0))"
      using i by (auto simp: rest last_conv_nth nth_append)
    have after: "(case s0 of [] \<Rightarrow> True | c # _ \<Rightarrow> \<not> alnum c) \<longleftrightarrow> s0 = [] \<or> \<not> alnum (hd s0)" by (cases s0) auto
    have unf: "scan_word alnum w prev rest = (word_at alnum prev p0 w s0 \<or> scan_word alnum w (Some (last w)) s0)"
      using "1.prems"(1) by (subst scan_word.simps) (auto simp: Some Let_def before word_at_def after split: if_splits option.splits simp flip: s0_def)
    show ?thesis
    proof (cases "word_at alnum prev p0 w s0")
      case True
      with unf rest show ?thesis by auto
    next
      case False
      have ih: "scan_word alnum w (Some (last w)) s0 \<longleftrightarrow> (\<exists>p s. s0 = p @ w @ s \<and> word_at alnum (Some (last w)) p w s)"
        using False "1.IH" [OF "1.prems"(1) Some refl refl refl refl] "1.prems" by (simp add: before word_at_def after flip: s0_def)
      have "(\<exists>p s. s0 = p @ w @ s \<and> word_at alnum (Some (last w)) p w s) \<longleftrightarrow> (\<exists>p s. rest = p @ w @ s \<and> word_at alnum prev p w s)"
      proof (intro iffI; elim exE conjE)
        fix p s assume "s0 = p @ w @ s" "word_at alnum (Some (last w)) p w s"
        then show "\<exists>p s. rest = p @ w @ s \<and> word_at alnum prev p w s"
          using "1.prems"(1) by (intro exI [of _ "p0 @ w @ p"] exI [of _ s]) (auto simp: rest word_at_def split: if_splits)
      next
        fix p s assume o: "rest = p @ w @ s" "word_at alnum prev p w s"
        have "take (length w) (drop (length p) rest) = w" by (simp add: o)
        then have ge: "length p0 \<le> length p" using f i by (meson linorder_not_le)
        moreover have "length p \<noteq> length p0" using False o rest by auto
        moreover have "\<not> length p < length p0 + length w"
          using overlap_impossible [OF "1.prems"(2) _ _ _ o(2), of p0 s0] o(1) rest ge calculation(2) by auto
        ultimately have "length (p0 @ w) \<le> length p" by simp
        moreover have "(p0 @ w) @ s0 = p @ w @ s" using o(1) rest by simp
        ultimately obtain p' where p': "p = (p0 @ w) @ p'" "s0 = p' @ w @ s"
          by (metis append_eq_append_conv_if append_take_drop_id)
        then show "\<exists>p s. s0 = p @ w @ s \<and> word_at alnum (Some (last w)) p w s"
          using o(2) "1.prems"(1) by (intro exI [of _ p'] exI [of _ s]) (auto simp: word_at_def split: if_splits)
      qed
      with unf ih False show ?thesis by simp
    qed
  qed
qed

text \<open>The words of the list, and a reading of characters for which it is all that matters.\<close>

definition reads_letters :: "(uchar \<Rightarrow> bool) \<Rightarrow> bool" where
  "reads_letters alnum \<longleftrightarrow> (\<forall>c. 97 \<le> c \<and> c \<le> 122 \<longrightarrow> alnum c)"

lemma words_separable:
  assumes "reads_letters alnum" and "w \<in> set COMPUTER_DESTRUCTIVE_ACTION_WORDS" and "list_all (\<lambda>c. c < 128) w"
  shows "separable alnum w"
proof -
  have "list_all (\<lambda>w. list_all (\<lambda>c. c < 128) w \<longrightarrow>
      list_all (\<lambda>k. 97 \<le> w ! (k - 1) \<and> w ! (k - 1) \<le> 122 \<or> take (length w - k) w \<noteq> drop k w) [1..<length w]) COMPUTER_DESTRUCTIVE_ACTION_WORDS"
    by (simp add: COMPUTER_DESTRUCTIVE_ACTION_WORDS_def upt_rec)
  then have "\<forall>k \<in> {1..<length w}. 97 \<le> w ! (k - 1) \<and> w ! (k - 1) \<le> 122 \<or> take (length w - k) w \<noteq> drop k w"
    using assms(2,3) by (simp add: list_all_iff)
  moreover have "take (length w - k) w = drop k w" if "prefix (drop k w) w" for k
    using that by (metis append_eq_conv_conj length_drop prefix_def)
  ultimately show ?thesis using assms(1) unfolding separable_def reads_letters_def by metis
qed

lemma words_lower:
  assumes "w \<in> set COMPUTER_DESTRUCTIVE_ACTION_WORDS"
  shows "ascii_lower w = w" "w \<noteq> []"
proof -
  have "list_all (\<lambda>w. ascii_lower w = w \<and> w \<noteq> []) COMPUTER_DESTRUCTIVE_ACTION_WORDS"
    by (simp add: COMPUTER_DESTRUCTIVE_ACTION_WORDS_def to_ascii_lowercase_def)
  then show "ascii_lower w = w" "w \<noteq> []" using assms by (auto simp: list_all_iff)
qed

text \<open>C24: A label is destructive exactly when it holds one of the listed words: an ASCII word between
  characters that are not alphanumeric, at either end or both, or one of the other words anywhere. The scan,
  which goes on behind a match that is no whole word, misses none. ASCII letters are taken to be alphanumeric.\<close>
theorem destructive_label_iff:
  assumes "reads_letters alnum"
  shows "is_destructive_action_label alnum label \<longleftrightarrow>
    (\<exists>w \<in> set COMPUTER_DESTRUCTIVE_ACTION_WORDS. \<exists>p s. ascii_lower (trim label) = p @ w @ s \<and>
       ((\<forall>c \<in> set w. c < 128) \<longrightarrow> (p = [] \<or> \<not> alnum (last p)) \<and> (s = [] \<or> \<not> alnum (hd s))))"
proof -
  let ?l = "ascii_lower (trim label)"
  have word: "(if \<not> list_all (\<lambda>c. c < 128) w then contains_str ?l w else scan_word alnum w None ?l) \<longleftrightarrow>
      (\<exists>p s. ?l = p @ w @ s \<and> ((\<forall>c \<in> set w. c < 128) \<longrightarrow> (p = [] \<or> \<not> alnum (last p)) \<and> (s = [] \<or> \<not> alnum (hd s))))"
    if "w \<in> set COMPUTER_DESTRUCTIVE_ACTION_WORDS" for w
  proof (cases "list_all (\<lambda>c. c < 128) w")
    case True
    have "word_at alnum None p w s \<longleftrightarrow> (p = [] \<or> \<not> alnum (last p)) \<and> (s = [] \<or> \<not> alnum (hd s))" for p s
      by (simp add: word_at_def)
    moreover have "\<forall>c \<in> set w. c < 128" using True by (simp add: list_all_iff)
    ultimately show ?thesis
      using scan_word_iff [OF words_lower(2) [OF that] words_separable [OF assms that True], of None ?l] True by (simp only:) simp
  next
    case False
    then show ?thesis by (auto simp: contains_str_iff sublist_def list_all_iff)
  qed
  have "?l \<noteq> []" if "?l = p @ w @ s" "w \<in> set COMPUTER_DESTRUCTIVE_ACTION_WORDS" for p w s
    using that words_lower(2) [OF that(2)] by auto
  moreover have "list_ex (\<lambda>word. let w = ascii_lower word in
        if \<not> list_all (\<lambda>c. c < 128) w then contains_str ?l w else scan_word alnum w None ?l) COMPUTER_DESTRUCTIVE_ACTION_WORDS \<longleftrightarrow>
    (\<exists>w \<in> set COMPUTER_DESTRUCTIVE_ACTION_WORDS. \<exists>p s. ?l = p @ w @ s \<and>
       ((\<forall>c \<in> set w. c < 128) \<longrightarrow> (p = [] \<or> \<not> alnum (last p)) \<and> (s = [] \<or> \<not> alnum (hd s))))"
    unfolding list_ex_iff Let_def by (rule bex_cong [OF refl]) (simp only: words_lower(1) word)
  ultimately show ?thesis unfolding is_destructive_action_label_def Let_def by blast
qed

lemma sample_label:
  "is_destructive_action_label is_ascii_alphanumeric (lit ''Resend; Send'')"
  "\<not> is_destructive_action_label is_ascii_alphanumeric (lit ''Sender'')"
  by (simp_all add: is_destructive_action_label_def COMPUTER_DESTRUCTIVE_ACTION_WORDS_def trim_def trim_where_def is_whitespace_def
      to_ascii_lowercase_def scan_word.simps is_ascii_alphanumeric_def is_ascii_digit_def)

theorem destructive_label_iff_witness:
  "\<exists>w \<in> set COMPUTER_DESTRUCTIVE_ACTION_WORDS. \<exists>p s. ascii_lower (trim (lit ''Resend; Send'')) = p @ w @ s"
proof -
  have "reads_letters is_ascii_alphanumeric" by (simp add: reads_letters_def is_ascii_alphanumeric_def)
  from destructive_label_iff [OF this] sample_label(1) show ?thesis by blast
qed

section \<open>Selectors and timeouts\<close>

text \<open>A selector stands for an application the engine listed and never for a choice between two: by
  its identifier, else its bundle identifier, else as the only one with that name, else as the only one
  with that path and none with that name; a selector that is no identifier and names two is refused.\<close>
lemma resolve_target_unambiguous:
  "case resolve_target apps selector of
     Inr a \<Rightarrow> a \<in> set apps \<and> trim selector \<noteq> [] \<and>
       (ap_app_id a = trim selector \<or>
        (\<forall>b \<in> set apps. ap_app_id b \<noteq> trim selector) \<and>
        (ap_bundle_id a = Some (trim selector) \<or>
         (\<forall>b \<in> set apps. ap_bundle_id b \<noteq> Some (trim selector)) \<and>
         (eq_ignore_ascii_case (ap_display_name a) (trim selector) \<or> ap_executable_path a = Some (trim selector)) \<and>
         (\<forall>b \<in> set apps. eq_ignore_ascii_case (ap_display_name b) (trim selector) \<longrightarrow> b = a)))
   | Inl e \<Rightarrow> e = Invalid ''computer_application_not_found'' \<and>
       (trim selector = [] \<or> (\<forall>b \<in> set apps. ap_app_id b \<noteq> trim selector \<and> ap_bundle_id b \<noteq> Some (trim selector)) \<and>
          length (filter (\<lambda>b. eq_ignore_ascii_case (ap_display_name b) (trim selector)) apps) \<noteq> 1)"
proof -
  have one: "a \<in> set xs \<and> P a \<and> (\<forall>b \<in> set xs. P b \<longrightarrow> b = a)" if "filter P xs = [a]" for P :: "computer_application \<Rightarrow> bool" and xs a
  proof -
    have "{x \<in> set xs. P x} = {a}" using arg_cong [OF that, of set] by simp
    then show ?thesis by blast
  qed
  have found: "find P xs = Some a \<Longrightarrow> a \<in> set xs \<and> P a" "find P xs = None \<Longrightarrow> \<forall>b \<in> set xs. \<not> P b" for P :: "computer_application \<Rightarrow> bool" and xs a
    by (auto simp: find_Some_iff find_None_iff)
  let ?s = "trim selector" and ?named = "filter (\<lambda>b. eq_ignore_ascii_case (ap_display_name b) (trim selector)) apps"
    and ?at = "filter (\<lambda>b. ap_executable_path b = Some (trim selector)) apps"
  consider (empty) "?s = []" | (id) a where "?s \<noteq> []" "find (\<lambda>a. ap_app_id a = ?s) apps = Some a"
    | (bundled) a where "?s \<noteq> []" "find (\<lambda>a. ap_app_id a = ?s) apps = None" "find (\<lambda>a. ap_bundle_id a = Some ?s) apps = Some a"
    | (rest) "?s \<noteq> []" "find (\<lambda>a. ap_app_id a = ?s) apps = None" "find (\<lambda>a. ap_bundle_id a = Some ?s) apps = None"
    by (meson not_Some_eq)
  then show ?thesis
  proof cases
    case rest
    then have none: "\<forall>b \<in> set apps. ap_app_id b \<noteq> ?s" "\<forall>b \<in> set apps. ap_bundle_id b \<noteq> Some ?s" using found(2) by blast+
    have unf: "resolve_target apps selector =
        (case (if ?named = [] then ?at else ?named) of [a] \<Rightarrow> Inr a | _ \<Rightarrow> Inl (Invalid ''computer_application_not_found''))"
      using rest by (simp add: resolve_target_def eq_ignore_ascii_case_def)
    show ?thesis
    proof (cases "\<exists>a. (if ?named = [] then ?at else ?named) = [a]")
      case True
      then obtain a where a: "(if ?named = [] then ?at else ?named) = [a]" by blast
      then have "a \<in> set apps \<and> (eq_ignore_ascii_case (ap_display_name a) ?s \<or> ap_executable_path a = Some ?s) \<and>
          (\<forall>b \<in> set apps. eq_ignore_ascii_case (ap_display_name b) ?s \<longrightarrow> b = a)"
      proof (cases "?named = []")
        case True
        with a have "?at = [a]" by simp
        from one [OF this] True show ?thesis by (simp add: filter_empty_conv)
      next
        case False
        with a have "?named = [a]" by simp
        from one [OF this] show ?thesis by simp
      qed
      with none rest show ?thesis unfolding unf a by simp
    next
      case False
      then have "resolve_target apps selector = Inl (Invalid ''computer_application_not_found'')" unfolding unf by (auto split: list.splits)
      moreover have "length ?named \<noteq> 1" using False by (auto simp: length_Suc_conv split: if_splits)
      ultimately show ?thesis using none by simp
    qed
  next
    case (id a)
    then show ?thesis using found(1) [OF id(2)] by (simp add: resolve_target_def)
  next
    case (bundled a)
    then show ?thesis using found(1) [OF bundled(3)] found(2) [OF bundled(2)] by (simp add: resolve_target_def)
  qed (simp add: resolve_target_def)
qed

text \<open>A timeout above every choice becomes the default, which is shorter.\<close>

lemma normalize_call_timeout_cases:
  "normalize_call_timeout_ms v \<in> set COMPUTER_CALL_TIMEOUT_CHOICES_MS"
  "v \<le> 300000 \<Longrightarrow> v \<le> normalize_call_timeout_ms v"
  "300000 < v \<Longrightarrow> normalize_call_timeout_ms v = 60000"
  by (auto simp: normalize_call_timeout_ms_def COMPUTER_CALL_TIMEOUT_CHOICES_MS_def COMPUTER_CALL_TIMEOUT_DEFAULT_MS_def)

end
