(* ===== verification/Computer_Guards.thy ===== *)
theory Computer_Guards
  imports Computer_Policy Tool_Names "HOL-Library.Word"
begin

unbundle bit_operations_syntax

text \<open>
  The two guards beside the policy of desktop control: the loop detector of
  \<open>crates/computer/src/loopguard.rs\<close> with the entries that \<open>service.rs\<close> records, and the guard
  against operating the runtime's own window, \<open>crates/computer/src/selfguard.rs\<close>. The arithmetic
  of \<open>f64\<close> is a record of functions.

  Facts: the history is bounded and three equal actions always warn; two of the six shapes can never
  be seen with the entries the service records and longer patterns never repeat often enough; the
  self guard refuses every payload in which a host process is named at any place it looks at, however
  deep.
\<close>

section \<open>The loop guard\<close>

record loop_entry =
  le_action :: ustring
  le_screen :: "64 word option"

record loop_warning =
  lw_pattern :: ustring
  lw_repeats :: nat
  lw_message :: ustring

definition COMPUTER_LOOP_HISTORY_ITEMS :: nat where
  "COMPUTER_LOOP_HISTORY_ITEMS = 50"

text \<open>\<open>iter().rev().take(n)\<close>, newest first.\<close>

definition newest :: "nat \<Rightarrow> 'a list \<Rightarrow> 'a list" where
  "newest n xs = take n (rev xs)"

definition starts_with :: "ustring \<Rightarrow> string \<Rightarrow> bool" where
  "starts_with s p \<longleftrightarrow> take (length p) s = lit p"

text \<open>How many chunks of the length of the candidate equal it, from the start.\<close>

function leading_repeats :: "ustring list \<Rightarrow> ustring list \<Rightarrow> nat" where
  "leading_repeats candidate actions =
     (if candidate \<noteq> [] \<and> take (length candidate) actions = candidate
      then Suc (leading_repeats candidate (drop (length candidate) actions)) else 0)"
  by pat_completeness auto

termination
proof (relation "measure (\<lambda>(c, as). length as)", goal_cases)
  case (2 candidate actions)
  then show ?case by (cases actions; cases candidate) auto
qed simp

declare leading_repeats.simps [simp del]

definition sequence_warning :: "nat \<Rightarrow> nat \<Rightarrow> loop_warning" where
  "sequence_warning pattern repeats =
     \<lparr>lw_pattern = lit ''repeated_sequence_'' @ dec_string pattern, lw_repeats = repeats,
      lw_message = lit ''The last '' @ dec_string (pattern * repeats) @ lit '' actions repeat the same pattern of '' @ dec_string pattern @
        lit ''. The screen does not seem to be changing; take a fresh look at the application state before acting again.''\<rparr>"

definition sequence_of :: "ustring list \<Rightarrow> nat \<Rightarrow> loop_warning option" where
  "sequence_of actions pattern =
     (if length actions < pattern * 3 then None
      else let repeats = leading_repeats (take pattern actions) actions
        in if repeats \<ge> 3 then Some (sequence_warning pattern repeats) else None)"

fun first_found :: "('a \<Rightarrow> 'b option) \<Rightarrow> 'a list \<Rightarrow> 'b option" where
  "first_found f [] = None"
| "first_found f (x # xs) = (case f x of Some y \<Rightarrow> Some y | None \<Rightarrow> first_found f xs)"

definition repeated_sequence :: "loop_entry list \<Rightarrow> loop_warning option" where
  "repeated_sequence entries = first_found (sequence_of (map le_action (rev (newest 10 entries)))) [2, 3, 4, 5]"

definition identical_actions :: "nat \<Rightarrow> ustring \<Rightarrow> loop_entry list \<Rightarrow> loop_warning option" where
  "identical_actions threshold pattern entries =
     (if length entries < threshold then None
      else case newest threshold entries of
        [] \<Rightarrow> None
      | first # rest \<Rightarrow>
          if list_all (\<lambda>e. le_action e = le_action first) (first # rest)
          then Some \<lparr>lw_pattern = pattern, lw_repeats = threshold,
            lw_message = lit ''`'' @ le_action first @ lit ''` has been attempted '' @ dec_string threshold @
              lit '' times in a row. Re-read the application state with computer_get_app_state before trying again.''\<rparr>
          else None)"

definition screen_is_stuck :: "loop_entry list \<Rightarrow> loop_warning option" where
  "screen_is_stuck entries =
     (let fingerprints = map le_screen (newest 6 entries) in
      if length fingerprints < 6 then None
      else case hd fingerprints of
        None \<Rightarrow> None
      | Some first \<Rightarrow>
          if list_all (\<lambda>v. v = Some first) fingerprints
          then Some \<lparr>lw_pattern = lit ''screen_unchanged'', lw_repeats = 6,
            lw_message = lit ''The screen has not changed across the last 6 actions. The action is probably not reaching the target; check which window is focused or whether the element is still present.''\<rparr>
          else None)"

definition is_pointer :: "loop_entry \<Rightarrow> bool" where
  "is_pointer e = list_ex (starts_with (le_action e)) [''click'', ''scroll'', ''move'', ''drag'']"

definition is_typing :: "loop_entry \<Rightarrow> bool" where
  "is_typing e = list_ex (starts_with (le_action e)) [''type_text'', ''set_value'', ''press_key'']"

definition pointer_only_stretch :: "loop_entry list \<Rightarrow> loop_warning option" where
  "pointer_only_stretch entries =
     (let tail = newest 10 entries in
      if length tail < 10 then None
      else let pointer = length (filter is_pointer tail);
               typed = list_ex is_typing tail;
               distinct_screens = remdups (map le_screen tail)
        in if pointer \<ge> 8 \<and> \<not> typed \<and> length distinct_screens \<le> 2
           then Some \<lparr>lw_pattern = lit ''pointer_only'', lw_repeats = pointer,
             lw_message = dec_string pointer @ lit '' of the last 10 actions were pointer actions with no typing or key press. If a click is not taking effect, try activating the control semantically (computer_set_value) or ask the user.''\<rparr>
           else None)"

definition typing_without_effect :: "loop_entry list \<Rightarrow> loop_warning option" where
  "typing_without_effect entries =
     (let tail = newest 3 entries in
      if length tail < 3 then None
      else if list_all (\<lambda>e. starts_with (le_action e) ''type_text'' \<or> starts_with (le_action e) ''set_value'') tail
        then let screen = le_screen (hd tail) in
          if screen \<noteq> None \<and> list_all (\<lambda>e. le_screen e = screen) tail
          then Some \<lparr>lw_pattern = lit ''typing_without_effect'', lw_repeats = 3,
            lw_message = lit ''Text was entered three times with no visible change. The field may not be focused; observe the application again before typing.''\<rparr>
          else None
        else None)"

definition observe_act_cycle :: "loop_entry list \<Rightarrow> loop_warning option" where
  "observe_act_cycle entries =
     (let tail = newest 6 entries in
      if length tail < 6 then None
      else let observes = length (filter (\<lambda>e. le_action e = lit ''observe'') tail) in
        if observes \<ge> 2 \<and> le_screen (hd tail) \<noteq> None \<and> list_all (\<lambda>e. le_screen e = le_screen (hd tail)) tail
        then Some \<lparr>lw_pattern = lit ''observe_act_cycle'', lw_repeats = observes,
          lw_message = lit ''The same observation keeps coming back unchanged. The Agent may be acting on a stale element reference; take a new observation and use the reference it returns.''\<rparr>
        else None)"

definition detect :: "loop_entry list \<Rightarrow> loop_warning option" where
  "detect entries =
     first_found (\<lambda>f. f entries)
       [repeated_sequence, identical_actions 3 (lit ''repeated_action''), screen_is_stuck, pointer_only_stretch, typing_without_effect, observe_act_cycle]"

definition record_entry :: "ustring \<Rightarrow> 64 word option \<Rightarrow> loop_entry list \<Rightarrow> loop_entry list \<times> loop_warning option" where
  "record_entry action screen entries =
     (let all = entries @ [\<lparr>le_action = action, le_screen = screen\<rparr>];
          kept = drop (length all - COMPUTER_LOOP_HISTORY_ITEMS) all
      in (kept, detect kept))"

text \<open>What the service records: an action without a screen, an observation with one.\<close>

fun action_as_str :: "action_kind \<Rightarrow> string" where
  "action_as_str ListApps = ''list_apps''"
| "action_as_str LaunchAppAction = ''launch_app''"
| "action_as_str KillAppAction = ''kill_app''"
| "action_as_str GetAppState = ''get_app_state''"
| "action_as_str Click = ''click''"
| "action_as_str TypeText = ''type_text''"
| "action_as_str SetValue = ''set_value''"
| "action_as_str PressKey = ''press_key''"
| "action_as_str Scroll = ''scroll''"
| "action_as_str ScreenshotAction = ''screenshot''"
| "action_as_str Permissions = ''permissions''"
| "action_as_str Verify = ''verify''"
| "action_as_str ClipboardReadAction = ''clipboard_read''"
| "action_as_str ClipboardWriteAction = ''clipboard_write''"
| "action_as_str StopAction = ''stop''"
| "action_as_str PauseAction = ''pause''"
| "action_as_str ResumeAction = ''resume''"
| "action_as_str UnknownAction = ''unknown''"

definition note_action :: "action_kind \<Rightarrow> ustring \<Rightarrow> loop_entry list \<Rightarrow> loop_entry list \<times> loop_warning option" where
  "note_action kind app_id entries = record_entry (lit (action_as_str kind) @ lit '':'' @ app_id) None entries"

definition fingerprint_bytes :: "8 word list \<Rightarrow> 64 word" where
  "fingerprint_bytes bytes =
     foldl (\<lambda>h b. (h XOR ucast b) * 0x100000001b3) 0xcbf29ce484222325
       (map (\<lambda>i. bytes ! i) (filter (\<lambda>i. i mod 1000 = 0) [0..<length bytes])) XOR of_nat (length bytes)"

definition note_screen :: "ustring \<Rightarrow> 8 word list \<Rightarrow> loop_entry list \<Rightarrow> loop_entry list" where
  "note_screen app_id bytes entries = fst (record_entry (lit ''observe:'' @ app_id) (Some (fingerprint_bytes bytes)) entries)"

section \<open>The self guard\<close>

text \<open>The arithmetic of \<open>f64\<close> that rectangles need, with the reading of a JSON number.\<close>

record 'f float_ops =
  fo_of_json :: "json \<Rightarrow> 'f option"
  fo_add :: "'f \<Rightarrow> 'f \<Rightarrow> 'f"
  fo_less :: "'f \<Rightarrow> 'f \<Rightarrow> bool"
  fo_le :: "'f \<Rightarrow> 'f \<Rightarrow> bool"
  fo_zero :: 'f

record 'f computer_rect =
  cr_x :: 'f
  cr_y :: 'f
  cr_width :: 'f
  cr_height :: 'f

definition rect_contains :: "'f float_ops \<Rightarrow> 'f computer_rect \<Rightarrow> 'f \<Rightarrow> 'f \<Rightarrow> bool" where
  "rect_contains fo r x y \<longleftrightarrow>
     fo_le fo (cr_x r) x \<and> fo_le fo (cr_y r) y \<and> fo_le fo x (fo_add fo (cr_x r) (cr_width r)) \<and> fo_le fo y (fo_add fo (cr_y r) (cr_height r))"

definition rect_intersects :: "'f float_ops \<Rightarrow> 'f computer_rect \<Rightarrow> 'f computer_rect \<Rightarrow> bool" where
  "rect_intersects fo a b \<longleftrightarrow>
     fo_less fo (cr_x a) (fo_add fo (cr_x b) (cr_width b)) \<and> fo_less fo (cr_x b) (fo_add fo (cr_x a) (cr_width a)) \<and>
     fo_less fo (cr_y a) (fo_add fo (cr_y b) (cr_height b)) \<and> fo_less fo (cr_y b) (fo_add fo (cr_y a) (cr_height a))"

definition MAX_SCAN_DEPTH :: nat where
  "MAX_SCAN_DEPTH = 12"

definition PID_KEYS :: "ustring list" where
  "PID_KEYS = [lit ''pid'', lit ''process_id'', lit ''processId'', lit ''owner_pid'', lit ''ownerPid'']"

definition WINDOW_KEYS :: "ustring list" where
  "WINDOW_KEYS = [lit ''window_id'', lit ''windowId'', lit ''handle'', lit ''window'']"

definition TARGET_KEYS :: "ustring list" where
  "TARGET_KEYS = [lit ''target'', lit ''targets'', lit ''window'', lit ''windows'', lit ''element'', lit ''elements'']"

record 'f self_guard =
  sg_host_pids :: "int list"
  sg_host_window_ids :: "ustring list"
  sg_host_windows :: "'f computer_rect list"
  sg_host_desktop :: "'f computer_rect option"

definition self_guard_new :: "'f self_guard" where
  "self_guard_new = \<lparr>sg_host_pids = [], sg_host_window_ids = [], sg_host_windows = [], sg_host_desktop = None\<rparr>"

definition add_host_pid :: "int \<Rightarrow> 'f self_guard \<Rightarrow> 'f self_guard" where
  "add_host_pid pid g = (if pid > 0 then g\<lparr>sg_host_pids := List.insert pid (sg_host_pids g)\<rparr> else g)"

definition add_host_window :: "ustring \<Rightarrow> 'f computer_rect option \<Rightarrow> 'f self_guard \<Rightarrow> 'f self_guard" where
  "add_host_window window_id bounds g =
     (let g1 = (if window_id \<noteq> [] then g\<lparr>sg_host_window_ids := List.insert window_id (sg_host_window_ids g)\<rparr> else g)
      in case bounds of Some b \<Rightarrow> g1\<lparr>sg_host_windows := sg_host_windows g1 @ [b]\<rparr> | None \<Rightarrow> g1)"

definition add_host_bounds :: "'f computer_rect \<Rightarrow> 'f self_guard \<Rightarrow> 'f self_guard" where
  "add_host_bounds b g = g\<lparr>sg_host_windows := sg_host_windows g @ [b]\<rparr>"

definition cover_entire_desktop :: "'f computer_rect \<Rightarrow> 'f self_guard \<Rightarrow> 'f self_guard" where
  "cover_entire_desktop b g = g\<lparr>sg_host_desktop := Some b\<rparr>"

definition is_blind :: "'f self_guard \<Rightarrow> bool" where
  "is_blind g \<longleftrightarrow> sg_host_pids g = [] \<and> sg_host_window_ids g = [] \<and> sg_host_windows g = []"

text \<open>\<open>Value::as_i64\<close>, where \<open>-0\<close> is a float, and the cast \<open>as i32\<close>.\<close>

fun as_i64 :: "json \<Rightarrow> int option" where
  "as_i64 (JNumber s) =
     (if s \<noteq> [] \<and> hd s = 45 then
        (let n = int (dec_value (tl s)) in if tl s \<noteq> [] \<and> list_all is_ascii_digit (tl s) \<and> 0 < n \<and> I64_MIN \<le> - n then Some (- n) else None)
      else if s \<noteq> [] \<and> list_all is_ascii_digit s \<and> int (dec_value s) \<le> I64_MAX then Some (int (dec_value s)) else None)"
| "as_i64 _ = None"

definition as_i32 :: "int \<Rightarrow> int" where
  "as_i32 i = (i + 2 ^ 31) mod 2 ^ 32 - 2 ^ 31"

definition int_string :: "int \<Rightarrow> ustring" where
  "int_string i = (if i < 0 then lit ''-'' @ dec_string (nat (- i)) else dec_string (nat i))"

definition number_at :: "'f float_ops \<Rightarrow> ustring list \<Rightarrow> (ustring \<times> json) list \<Rightarrow> 'f option" where
  "number_at fo keys kvs = first_found (\<lambda>k. case map_of kvs k of Some v \<Rightarrow> fo_of_json fo v | None \<Rightarrow> None) keys"

definition plain_rect :: "'f float_ops \<Rightarrow> (ustring \<times> json) list \<Rightarrow> 'f computer_rect option" where
  "plain_rect fo kvs =
     (case (number_at fo [lit ''x'', lit ''left''] kvs, number_at fo [lit ''y'', lit ''top''] kvs,
            number_at fo [lit ''width'', lit ''w''] kvs, number_at fo [lit ''height'', lit ''h''] kvs) of
        (Some x, Some y, Some w, Some h) \<Rightarrow>
          if fo_le fo w (fo_zero fo) \<or> fo_le fo h (fo_zero fo) then None else Some \<lparr>cr_x = x, cr_y = y, cr_width = w, cr_height = h\<rparr>
      | _ \<Rightarrow> None)"

lemma size_member: "x \<in> set vs \<Longrightarrow> size (x :: json) < size (JArray vs)"
  by (induction vs) auto

lemma size_map_of: "map_of kvs k = Some v \<Longrightarrow> size (v :: json) < size (JObject kvs)"
  by (induction kvs) (auto split: if_splits)

function rect_from_object :: "'f float_ops \<Rightarrow> (ustring \<times> json) list \<Rightarrow> 'f computer_rect option" where
  "rect_from_object fo kvs =
     (case first_found (map_of kvs) [lit ''bounds'', lit ''frame'', lit ''rect''] of
        None \<Rightarrow> plain_rect fo kvs
      | Some v \<Rightarrow> (case v of
          JObject inner \<Rightarrow> (case rect_from_object fo inner of Some r \<Rightarrow> Some r | None \<Rightarrow> plain_rect fo kvs)
        | _ \<Rightarrow> None))"
  by pat_completeness auto

termination
proof (relation "measure (\<lambda>(fo, kvs). size (JObject kvs))", goal_cases)
  case (2 fo kvs v inner)
  then have "\<exists>k. map_of kvs k = Some v" by (auto split: option.splits)
  then show ?case using size_map_of 2 by fastforce
qed simp

declare rect_from_object.simps [simp del]

datatype self_reason = NestsTooDeep | NamesPid int | NamesWindow ustring | OverlapsDesktop | OverlapsWindow

lemma first_found_cong [fundef_cong]:
  "xs = ys \<Longrightarrow> (\<And>x. x \<in> set ys \<Longrightarrow> f x = g x) \<Longrightarrow> first_found f xs = first_found g ys"
  by (induction ys arbitrary: xs) (auto split: option.split)

definition first_of :: "'a option \<Rightarrow> 'a option \<Rightarrow> 'a option" where
  "first_of x y = (case x of Some a \<Rightarrow> Some a | None \<Rightarrow> y)"

definition pid_reason :: "'f self_guard \<Rightarrow> (ustring \<times> json) list \<Rightarrow> ustring \<Rightarrow> self_reason option" where
  "pid_reason g kvs k =
     (case map_of kvs k of
        Some v \<Rightarrow> (case as_i64 v of Some pid \<Rightarrow> if as_i32 pid \<in> set (sg_host_pids g) then Some (NamesPid pid) else None | None \<Rightarrow> None)
      | None \<Rightarrow> None)"

definition window_id_reason :: "'f self_guard \<Rightarrow> json \<Rightarrow> self_reason option" where
  "window_id_reason g w =
     (case w of
        JString i \<Rightarrow> if i \<in> set (sg_host_window_ids g) then Some (NamesWindow i) else None
      | _ \<Rightarrow> (case as_i64 w of
          Some i \<Rightarrow> if int_string i \<in> set (sg_host_window_ids g) then Some (NamesWindow (int_string i)) else None
        | None \<Rightarrow> None))"

definition rect_reason :: "'f float_ops \<Rightarrow> 'f self_guard \<Rightarrow> (ustring \<times> json) list \<Rightarrow> self_reason option" where
  "rect_reason fo g kvs =
     (case rect_from_object fo kvs of
        None \<Rightarrow> None
      | Some b \<Rightarrow> (case sg_host_desktop g of
          Some desktop \<Rightarrow> if rect_intersects fo b desktop then Some OverlapsDesktop else None
        | None \<Rightarrow> if list_ex (\<lambda>w. rect_intersects fo w b) (sg_host_windows g) then Some OverlapsWindow else None))"

fun is_object :: "json \<Rightarrow> bool" where
  "is_object (JObject _) = True"
| "is_object _ = False"

function inspect_value :: "'f float_ops \<Rightarrow> 'f self_guard \<Rightarrow> json \<Rightarrow> nat \<Rightarrow> self_reason option" where
  "inspect_value fo g v depth =
     (if depth > MAX_SCAN_DEPTH then Some NestsTooDeep
      else case v of
        JArray vs \<Rightarrow> first_found (\<lambda>x. inspect_value fo g x (depth + 1)) vs
      | JObject kvs \<Rightarrow>
          first_of (first_found (pid_reason g kvs) PID_KEYS)
          (first_of (first_found (\<lambda>k. case map_of kvs k of
               None \<Rightarrow> None
             | Some w \<Rightarrow> first_of (window_id_reason g w) (if is_object w then inspect_value fo g w (depth + 1) else None)) WINDOW_KEYS)
          (first_of (first_found (\<lambda>k. case map_of kvs k of None \<Rightarrow> None | Some w \<Rightarrow> inspect_value fo g w (depth + 1)) TARGET_KEYS)
             (rect_reason fo g kvs)))
      | _ \<Rightarrow> None)"
  by pat_completeness auto

termination
proof (relation "measure (\<lambda>(fo, g, v, depth). size v)", goal_cases)
  case (2 fo g v depth vs x)
  then show ?case using size_member by simp
qed (auto dest: size_map_of)

declare inspect_value.simps [simp del]

definition inspect :: "'f float_ops \<Rightarrow> 'f self_guard \<Rightarrow> json \<Rightarrow> self_reason option" where
  "inspect fo g payload = inspect_value fo g payload 0"

definition block_point :: "'f float_ops \<Rightarrow> 'f self_guard \<Rightarrow> 'f \<Rightarrow> 'f \<Rightarrow> self_reason option" where
  "block_point fo g x y =
     (if (case sg_host_desktop g of Some d \<Rightarrow> rect_contains fo d x y | None \<Rightarrow> False) then Some OverlapsDesktop
      else if list_ex (\<lambda>w. rect_contains fo w x y) (sg_host_windows g) then Some OverlapsWindow else None)"

text \<open>The refusal the service makes before it acts on an application.\<close>

definition refuse_self_target_app :: "'f float_ops \<Rightarrow> 'f self_guard \<Rightarrow> computer_application \<Rightarrow> computer_error + unit" where
  "refuse_self_target_app fo g app =
     (if (case ap_pid app of Some pid \<Rightarrow> pid \<in> set (sg_host_pids g) | None \<Rightarrow> False) then Inl (Permission ''computer_self_target_blocked'')
      else if list_ex (\<lambda>w. sg_host_window_ids g \<noteq> [] \<and> inspect fo g (JObject [(lit ''window_id'', JString (cw_window_id w))]) \<noteq> None) (ap_windows app)
        then Inl (Permission ''computer_self_target_blocked'')
      else Inr ())"

section \<open>When the loop guard warns\<close>

lemma leading_repeats_ge:
  assumes "c \<noteq> []"
  shows "n \<le> leading_repeats c xs \<longleftrightarrow> take (n * length c) xs = concat (replicate n c)"
proof (induction n arbitrary: xs)
  case (Suc n)
  have "take (Suc n * length c) xs = take (length c) xs @ take (n * length c) (drop (length c) xs)"
    by (simp add: take_add)
  moreover have "take (length c) xs @ ys = c @ zs \<longleftrightarrow> take (length c) xs = c \<and> ys = zs" if "length (take (length c) xs) < length c \<longrightarrow> ys = []" for ys zs
  proof (cases "length xs < length c")
    case True
    then have "length (take (length c) xs @ ys) < length (c @ zs)" using that by simp
    with True assms show ?thesis by (metis length_take min.absorb4 nat_neq_iff)
  qed simp
  ultimately show ?case using Suc assms by (subst leading_repeats.simps) auto
qed simp

lemma first_found_None: "first_found f xs = None \<longleftrightarrow> (\<forall>x \<in> set xs. f x = None)"
  by (induction xs) (auto split: option.split)

lemma sequence_of_iff:
  assumes "0 < p"
  shows "sequence_of xs p \<noteq> None \<longleftrightarrow> 3 * p \<le> length xs \<and> take (3 * p) xs = take p xs @ take p xs @ take p xs"
proof (cases "length xs < p * 3")
  case False
  then have "take p xs \<noteq> []" "length (take p xs) = p" using assms by auto
  then show ?thesis using False leading_repeats_ge [of "take p xs" 3 xs]
    by (auto simp: sequence_of_def Let_def numeral_3_eq_3 mult.commute)
qed (simp add: sequence_of_def mult.commute)

lemma repeated_sequence_iff:
  "repeated_sequence es \<noteq> None \<longleftrightarrow>
     (\<exists>p \<in> {2, 3}. let w = map le_action (rev (newest 10 es)) in 3 * p \<le> length w \<and> take (3 * p) w = take p w @ take p w @ take p w)"
proof -
  let ?w = "map le_action (rev (newest 10 es))"
  have "length ?w \<le> 10" by (simp add: newest_def)
  then have "sequence_of ?w 4 = None" "sequence_of ?w 5 = None" by (simp_all add: sequence_of_def)
  then have "repeated_sequence es \<noteq> None \<longleftrightarrow> sequence_of ?w 2 \<noteq> None \<or> sequence_of ?w 3 \<noteq> None"
    unfolding repeated_sequence_def by (auto split: option.split)
  also have "\<dots> \<longleftrightarrow> (\<exists>p \<in> {2, 3}. 3 * p \<le> length ?w \<and> take (3 * p) ?w = take p ?w @ take p ?w @ take p ?w)"
    unfolding sequence_of_iff [OF zero_less_numeral] by blast
  finally show ?thesis unfolding Let_def .
qed

lemma identical_actions_iff:
  "identical_actions 3 pat es \<noteq> None \<longleftrightarrow> (\<exists>a. map le_action (newest 3 es) = [a, a, a])"
proof (cases "length es < 3")
  case True
  then show ?thesis by (auto simp: identical_actions_def newest_def dest: arg_cong [where f = length])
next
  case False
  then have "length (newest 3 es) = 3" by (simp add: newest_def)
  then obtain x y z where "newest 3 es = [x, y, z]" by (auto simp: numeral_3_eq_3 length_Suc_conv)
  with False show ?thesis by (auto simp: identical_actions_def)
qed

text \<open>An action that is recorded without a screen never shows the three shapes that compare screens.\<close>

lemma no_screen_no_shape:
  assumes "es \<noteq> []" and "le_screen (last es) = None"
  shows "screen_is_stuck es = None" "typing_without_effect es = None" "observe_act_cycle es = None"
proof -
  have hd: "le_screen (hd (newest n es)) = None" if "0 < n" for n
    using assms that by (cases es rule: rev_cases) (auto simp: newest_def)
  have map: "hd (map le_screen (newest n es)) = None" if "0 < n" for n
    using hd [OF that] assms that by (cases es rule: rev_cases) (auto simp: newest_def hd_map take_Suc)
  show "screen_is_stuck es = None" "typing_without_effect es = None" "observe_act_cycle es = None"
    using hd [of 3] hd [of 6] map [of 6] by (simp_all add: screen_is_stuck_def typing_without_effect_def observe_act_cycle_def Let_def)
qed

lemma detect_None_iff:
  "detect es = None \<longleftrightarrow>
     repeated_sequence es = None \<and> identical_actions 3 (lit ''repeated_action'') es = None \<and> screen_is_stuck es = None \<and>
     pointer_only_stretch es = None \<and> typing_without_effect es = None \<and> observe_act_cycle es = None"
  unfolding detect_def first_found_None by (simp del: lit_simps)

text \<open>C26: The warning an action of an agent gets is exactly this: the last three actions are the same, or
  the last ten records start with a pattern of two or three actions that is there three times, or at least
  eight of the last ten are pointer actions, none enters text and there are at most two screens. The shapes
  of a stuck screen, of typing without effect and of an observation that comes back, and the patterns of
  four and five, are never reported, since an action is recorded without a screen and the window is ten.
  The history keeps the newest fifty records.\<close>
theorem note_action_warns_iff:
  "let (es', warning) = note_action kind app_id es;
       window = rev (newest 10 es'); w = map le_action window
   in (warning \<noteq> None \<longleftrightarrow>
         (\<exists>a. map le_action (newest 3 es') = [a, a, a]) \<or>
         (\<exists>p \<in> {2, 3}. 3 * p \<le> length w \<and> take (3 * p) w = take p w @ take p w @ take p w) \<or>
         (length window = 10 \<and> 8 \<le> length (filter is_pointer window) \<and> filter is_typing window = [] \<and> card (le_screen ` set window) \<le> 2)) \<and>
      es' = rev (newest 50 (es @ [\<lparr>le_action = lit (action_as_str kind) @ lit '':'' @ app_id, le_screen = None\<rparr>]))"
proof -
  let ?e = "\<lparr>le_action = lit (action_as_str kind) @ lit '':'' @ app_id, le_screen = None\<rparr>"
  let ?es = "rev (newest 50 (es @ [?e]))"
  have noted: "note_action kind app_id es = (?es, detect ?es)"
    by (simp add: note_action_def record_entry_def newest_def COMPUTER_LOOP_HISTORY_ITEMS_def Let_def rev_take)
  have last: "?es \<noteq> []" "le_screen (last ?es) = None" by (simp_all add: newest_def last_rev)
  have stretch: "pointer_only_stretch es \<noteq> None \<longleftrightarrow> (let window = rev (newest 10 es) in
      length window = 10 \<and> 8 \<le> length (filter is_pointer window) \<and> filter is_typing window = [] \<and> card (le_screen ` set window) \<le> 2)" for es
    by (auto simp: pointer_only_stretch_def Let_def newest_def list_ex_iff filter_empty_conv length_remdups_card_conv
        simp flip: rev_filter)
  have "detect ?es \<noteq> None \<longleftrightarrow> identical_actions 3 (lit ''repeated_action'') ?es \<noteq> None \<or> repeated_sequence ?es \<noteq> None \<or> pointer_only_stretch ?es \<noteq> None"
    unfolding detect_None_iff no_screen_no_shape [OF last] by (simp only: simp_thms de_Morgan_conj disj_left_commute)
  then show ?thesis
    unfolding noted identical_actions_iff repeated_sequence_iff stretch Let_def prod.case by (simp only: simp_thms)
qed

text \<open>The window is compared from its oldest record on: a pair that is there three times behind one other
  action is not reported, and one that was there three times is still called the last six actions after two
  others.\<close>

abbreviation did :: "string \<Rightarrow> loop_entry" where
  "did a \<equiv> \<lparr>le_action = lit a, le_screen = None\<rparr>"

lemma pattern_behind_one_missed:
  "repeated_sequence [did ''launch'', did ''click'', did ''type'', did ''click'', did ''type'', did ''click'', did ''type''] = None"
  by (simp add: repeated_sequence_def sequence_of_def newest_def leading_repeats.simps lit_eq_iff del: lit_simps)

lemma pattern_before_others_reported:
  "repeated_sequence [did ''click'', did ''type'', did ''click'', did ''type'', did ''click'', did ''type'', did ''launch'', did ''scroll''] =
     Some (sequence_warning 2 3)"
  by (simp add: repeated_sequence_def sequence_of_def newest_def leading_repeats.simps lit_eq_iff numeral_3_eq_3 del: lit_simps)

section \<open>What the self guard finds\<close>

text \<open>The values the scan comes to, with their depth.\<close>

inductive reaches :: "json \<Rightarrow> json \<Rightarrow> nat \<Rightarrow> bool" where
  here: "reaches v v 0"
| item: "x \<in> set vs \<Longrightarrow> reaches x v n \<Longrightarrow> reaches (JArray vs) v (Suc n)"
| target: "k \<in> set TARGET_KEYS \<Longrightarrow> map_of kvs k = Some x \<Longrightarrow> reaches x v n \<Longrightarrow> reaches (JObject kvs) v (Suc n)"
| window: "k \<in> set WINDOW_KEYS \<Longrightarrow> map_of kvs k = Some x \<Longrightarrow> is_object x \<Longrightarrow> reaches x v n \<Longrightarrow> reaches (JObject kvs) v (Suc n)"

inductive_cases reaches_cases: "reaches v w n"

lemma reaches_iff:
  "reaches v w n \<longleftrightarrow> v = w \<and> n = 0 \<or>
     (\<exists>m x. n = Suc m \<and> reaches x w m \<and>
        ((\<exists>vs. v = JArray vs \<and> x \<in> set vs) \<or>
         (\<exists>kvs k. v = JObject kvs \<and> map_of kvs k = Some x \<and> (k \<in> set TARGET_KEYS \<or> k \<in> set WINDOW_KEYS \<and> is_object x))))"
  by (auto elim: reaches.cases intro: reaches.intros)

text \<open>An object that names the host: one of its processes, one of its windows, or a rectangle over it.\<close>

definition names_host :: "'f float_ops \<Rightarrow> 'f self_guard \<Rightarrow> (ustring \<times> json) list \<Rightarrow> bool" where
  "names_host fo g kvs \<longleftrightarrow>
     (\<exists>k \<in> set PID_KEYS. \<exists>v pid. map_of kvs k = Some v \<and> as_i64 v = Some pid \<and> as_i32 pid \<in> set (sg_host_pids g)) \<or>
     (\<exists>k \<in> set WINDOW_KEYS. \<exists>i \<in> set (sg_host_window_ids g).
        map_of kvs k = Some (JString i) \<or> (\<exists>v j. map_of kvs k = Some v \<and> as_i64 v = Some j \<and> i = int_string j)) \<or>
     (\<exists>b. rect_from_object fo kvs = Some b \<and>
        (case sg_host_desktop g of Some desktop \<Rightarrow> rect_intersects fo b desktop | None \<Rightarrow> \<exists>w \<in> set (sg_host_windows g). rect_intersects fo w b))"

lemma first_of_None: "first_of x y = None \<longleftrightarrow> x = None \<and> y = None"
  by (simp add: first_of_def split: option.split)

lemma pid_reason_None:
  "pid_reason g kvs k = None \<longleftrightarrow> \<not> (\<exists>v pid. map_of kvs k = Some v \<and> as_i64 v = Some pid \<and> as_i32 pid \<in> set (sg_host_pids g))"
  by (simp add: pid_reason_def split: option.split)

lemma window_id_reason_None:
  "window_id_reason g w = None \<longleftrightarrow>
     \<not> (\<exists>i \<in> set (sg_host_window_ids g). w = JString i \<or> (\<exists>j. as_i64 w = Some j \<and> i = int_string j))"
  by (cases w) (auto simp: window_id_reason_def split: option.split)

lemma rect_reason_None:
  "rect_reason fo g kvs = None \<longleftrightarrow> \<not> (\<exists>b. rect_from_object fo kvs = Some b \<and>
     (case sg_host_desktop g of Some desktop \<Rightarrow> rect_intersects fo b desktop | None \<Rightarrow> \<exists>w \<in> set (sg_host_windows g). rect_intersects fo w b))"
  by (auto simp: rect_reason_def list_ex_iff split: option.split)

lemma inspect_object:
  assumes "\<not> depth > MAX_SCAN_DEPTH"
  shows "inspect_value fo g (JObject kvs) depth \<noteq> None \<longleftrightarrow>
    names_host fo g kvs \<or>
    (\<exists>k x. map_of kvs k = Some x \<and> (k \<in> set TARGET_KEYS \<or> k \<in> set WINDOW_KEYS \<and> is_object x) \<and> inspect_value fo g x (depth + 1) \<noteq> None)"
proof -
  have "inspect_value fo g (JObject kvs) depth = None \<longleftrightarrow>
      (\<forall>k \<in> set PID_KEYS. pid_reason g kvs k = None) \<and>
      (\<forall>k \<in> set WINDOW_KEYS. \<forall>w. map_of kvs k = Some w \<longrightarrow> window_id_reason g w = None \<and> (is_object w \<longrightarrow> inspect_value fo g w (depth + 1) = None)) \<and>
      (\<forall>k \<in> set TARGET_KEYS. \<forall>w. map_of kvs k = Some w \<longrightarrow> inspect_value fo g w (depth + 1) = None) \<and> rect_reason fo g kvs = None"
    using assms by (subst inspect_value.simps) (auto simp: first_of_None first_found_None split: option.split)
  moreover have "(\<forall>k \<in> set WINDOW_KEYS. \<forall>w. map_of kvs k = Some w \<longrightarrow> window_id_reason g w = None) \<longleftrightarrow>
      \<not> (\<exists>k \<in> set WINDOW_KEYS. \<exists>i \<in> set (sg_host_window_ids g).
        map_of kvs k = Some (JString i) \<or> (\<exists>v j. map_of kvs k = Some v \<and> as_i64 v = Some j \<and> i = int_string j))"
    unfolding window_id_reason_None by blast
  moreover have "(\<exists>k x. map_of kvs k = Some x \<and> (k \<in> set TARGET_KEYS \<or> k \<in> set WINDOW_KEYS \<and> is_object x) \<and> inspect_value fo g x (depth + 1) \<noteq> None) \<longleftrightarrow>
      \<not> ((\<forall>k \<in> set WINDOW_KEYS. \<forall>w. map_of kvs k = Some w \<longrightarrow> is_object w \<longrightarrow> inspect_value fo g w (depth + 1) = None) \<and>
       (\<forall>k \<in> set TARGET_KEYS. \<forall>w. map_of kvs k = Some w \<longrightarrow> inspect_value fo g w (depth + 1) = None))"     by (auto; metis option.distinct(1))
  moreover have "(\<forall>k \<in> set PID_KEYS. pid_reason g kvs k = None) \<longleftrightarrow>
      \<not> (\<exists>k \<in> set PID_KEYS. \<exists>v pid. map_of kvs k = Some v \<and> as_i64 v = Some pid \<and> as_i32 pid \<in> set (sg_host_pids g))"
    unfolding pid_reason_None by blast
  ultimately show ?thesis unfolding names_host_def rect_reason_None imp_conjR all_conj_distrib ball_conj_distrib by argo
qed

lemma inspect_value_iff:
  "inspect_value fo g v depth \<noteq> None \<longleftrightarrow>
     (\<exists>w n. reaches v w n \<and> (depth + n > MAX_SCAN_DEPTH \<or> (\<exists>kvs. w = JObject kvs \<and> names_host fo g kvs)))"
    (is "_ \<longleftrightarrow> ?R v depth")
proof (induction "size v" arbitrary: v depth rule: less_induct)
  case less
  show ?case
  proof (cases "depth > MAX_SCAN_DEPTH")
    case True
    then have "inspect_value fo g v depth \<noteq> None" by (subst inspect_value.simps) simp
    moreover have "?R v depth" using True reaches.here [of v] by fastforce
    ultimately show ?thesis by simp
  next
    case False
    define Q where "Q x \<longleftrightarrow> ?R x (depth + 1)" for x
    have step: "?R v depth \<longleftrightarrow> (\<exists>kvs. v = JObject kvs \<and> names_host fo g kvs) \<or>
        (\<exists>x. ((\<exists>vs. v = JArray vs \<and> x \<in> set vs) \<or>
         (\<exists>kvs k. v = JObject kvs \<and> map_of kvs k = Some x \<and> (k \<in> set TARGET_KEYS \<or> k \<in> set WINDOW_KEYS \<and> is_object x))) \<and> Q x)"
      (is "_ \<longleftrightarrow> ?S")
    proof
      assume "?R v depth"
      then obtain w n where r: "reaches v w n" "depth + n > MAX_SCAN_DEPTH \<or> (\<exists>kvs. w = JObject kvs \<and> names_host fo g kvs)" by blast
      from r(1) show ?S
      proof (cases rule: reaches.cases)
        case here
        then show ?thesis using r(2) False by auto
      next
        case (item x vs n)
        then have "Q x" unfolding Q_def using r(2) by (intro exI [of _ w] exI [of _ n]) auto
        with item show ?thesis by blast
      next
        case (target k kvs x n)
        then have "Q x" unfolding Q_def using r(2) by (intro exI [of _ w] exI [of _ n]) auto
        with target show ?thesis by blast
      next
        case (window k kvs x n)
        then have "Q x" unfolding Q_def using r(2) by (intro exI [of _ w] exI [of _ n]) auto
        with window show ?thesis by blast
      qed
    next
      assume ?S
      then show "?R v depth"
      proof (elim disjE)
        assume "\<exists>kvs. v = JObject kvs \<and> names_host fo g kvs"
        then show "?R v depth" using reaches.here [of v] by blast
      next
        assume "\<exists>x. ((\<exists>vs. v = JArray vs \<and> x \<in> set vs) \<or>
          (\<exists>kvs k. v = JObject kvs \<and> map_of kvs k = Some x \<and> (k \<in> set TARGET_KEYS \<or> k \<in> set WINDOW_KEYS \<and> is_object x))) \<and> Q x"
        then obtain x w n where x: "(\<exists>vs. v = JArray vs \<and> x \<in> set vs) \<or>
            (\<exists>kvs k. v = JObject kvs \<and> map_of kvs k = Some x \<and> (k \<in> set TARGET_KEYS \<or> k \<in> set WINDOW_KEYS \<and> is_object x))"
          "reaches x w n" "depth + 1 + n > MAX_SCAN_DEPTH \<or> (\<exists>kvs. w = JObject kvs \<and> names_host fo g kvs)" unfolding Q_def by blast
        then have "reaches v w (Suc n)" using reaches.intros by blast
        with x(3) show "?R v depth" by (intro exI [of _ w] exI [of _ "Suc n"]) simp
      qed
    qed
    have kid: "inspect_value fo g x (depth + 1) \<noteq> None \<longleftrightarrow> Q x" if "size x < size v" for x
      unfolding Q_def by (rule less [OF that])
    show ?thesis
    proof (cases v)
      case (JArray vs)
      have "inspect_value fo g v depth \<noteq> None \<longleftrightarrow> (\<exists>x \<in> set vs. inspect_value fo g x (depth + 1) \<noteq> None)"
        using False JArray by (subst inspect_value.simps) (auto simp: first_found_None)
      also have "\<dots> \<longleftrightarrow> (\<exists>x \<in> set vs. Q x)" using kid size_member [of _ vs] JArray by blast
      finally show ?thesis unfolding step using JArray by blast
    next
      case (JObject kvs)
      have "inspect_value fo g v depth \<noteq> None \<longleftrightarrow> names_host fo g kvs \<or>
          (\<exists>k x. map_of kvs k = Some x \<and> (k \<in> set TARGET_KEYS \<or> k \<in> set WINDOW_KEYS \<and> is_object x) \<and> Q x)"
        unfolding JObject inspect_object [OF False, of fo g kvs] using kid size_map_of [of kvs] JObject by blast
      then show ?thesis unfolding step using JObject by blast
    qed (subst step, subst inspect_value.simps, simp add: False)+
  qed
qed

text \<open>C23: The guard fails closed: a payload is refused exactly when, going through arrays and the keys that
  hold targets and windows, the scan comes to an object that names a process or window of the host or lies
  over it, or to anything more than twelve levels down.\<close>
theorem inspect_iff:
  "inspect fo g payload \<noteq> None \<longleftrightarrow>
     (\<exists>v n. reaches payload v n \<and> (12 < n \<or> (\<exists>kvs. v = JObject kvs \<and> names_host fo g kvs)))"
  unfolding inspect_def inspect_value_iff by (simp add: MAX_SCAN_DEPTH_def)

text \<open>What is registered is never forgotten, and once a process or a window is known its application is refused.\<close>

lemma refuse_self_target_app_iff:
  "refuse_self_target_app fo g app = Inr () \<longleftrightarrow>
     \<not> ((\<exists>pid \<in> set (sg_host_pids g). ap_pid app = Some pid) \<or> (\<exists>w \<in> set (ap_windows app). cw_window_id w \<in> set (sg_host_window_ids g)))"
proof -
  have one: "inspect fo g (JObject [(lit ''window_id'', JString i)]) \<noteq> None \<longleftrightarrow> i \<in> set (sg_host_window_ids g)" for i
    unfolding inspect_def inspect_object [OF not_less0 [of MAX_SCAN_DEPTH]] names_host_def
    by (simp add: PID_KEYS_def WINDOW_KEYS_def TARGET_KEYS_def rect_from_object.simps plain_rect_def number_at_def lit_eq_iff del: lit_simps)
  show ?thesis unfolding refuse_self_target_app_def one by (auto simp: list_ex_iff split: option.splits if_splits)
qed

text \<open>A guard that knows nothing refuses no application, and a process under a key that is not scanned, or a
  rectangle beside a key of another kind, is not seen.\<close>

lemma blind_guard_refuses_nothing: "is_blind g \<Longrightarrow> refuse_self_target_app fo g app = Inr ()"
  by (simp add: is_blind_def refuse_self_target_app_iff)

lemma sample_pid: "as_i64 (JNumber (lit ''7'')) = Some 7"
  by (simp add: is_ascii_digit_def dec_value_def I64_MAX_def)

lemma unscanned_key_not_seen:
  "inspect fo (add_host_pid 7 self_guard_new) (JObject [(lit ''app'', JObject [(lit ''pid'', JNumber (lit ''7''))])]) = None"
  "inspect fo (add_host_pid 7 self_guard_new) (JObject [(lit ''target'', JObject [(lit ''pid'', JNumber (lit ''7''))])]) = Some (NamesPid 7)"
  by (simp_all add: inspect_def inspect_value.simps MAX_SCAN_DEPTH_def first_of_def pid_reason_def rect_reason_def add_host_pid_def self_guard_new_def
      PID_KEYS_def WINDOW_KEYS_def TARGET_KEYS_def rect_from_object.simps plain_rect_def number_at_def lit_eq_iff sample_pid as_i32_def
      del: lit_simps as_i64.simps split: option.splits)

end
