(* ===== verification/Session_Group.thy ===== *)
theory Session_Group
  imports Interfaces Tool_Names
begin

text \<open>
  Session groups of the desktop, \<open>crates/desktop-model/src/session_group.rs\<close>: a group of agent
  sessions and the tree of panes that shows them. A split holds its children and their shares in
  per mille; a pane the sessions stacked in it. Operations that return early give \<open>None\<close>, or the
  state unchanged with \<open>False\<close>, as in the code. The width of the column enters as the number of
  24-rem columns it holds.

  Facts: after a normalisation every member is in exactly one pane when the layout it started from
  has a pane and shows no session twice; moves, splits and presets keep every session; the shares of
  a split fill it exactly for as many panes as a group may have. Where a nested layout loses a pane or
  a session is stated at the end.
\<close>

section \<open>Panes and layouts\<close>

definition SESSION_GROUP_LIMIT :: nat where "SESSION_GROUP_LIMIT = 500"
definition SESSION_GROUP_MEMBER_LIMIT :: nat where "SESSION_GROUP_MEMBER_LIMIT = 64"
definition SESSION_GROUP_NAME_MAX_CHARS :: nat where "SESSION_GROUP_NAME_MAX_CHARS = 160"
definition SESSION_GROUP_PANE_LIMIT :: nat where "SESSION_GROUP_PANE_LIMIT = 8"
definition SESSION_GROUP_LIVE_PANE_LIMIT :: nat where "SESSION_GROUP_LIVE_PANE_LIMIT = 4"
definition SESSION_GROUP_SPLIT_SCALE :: nat where "SESSION_GROUP_SPLIT_SCALE = 1000"
definition SESSION_GROUP_MIN_SPLIT_SHARE :: nat where "SESSION_GROUP_MIN_SPLIT_SHARE = 50"
definition SESSION_GROUP_MAX_SPLIT_SHARE :: nat where "SESSION_GROUP_MAX_SPLIT_SHARE = 950"
definition SESSION_GROUP_MAIN_PANE_ID :: ustring where "SESSION_GROUP_MAIN_PANE_ID = lit ''session-group-pane-main''"

datatype split_direction = Horizontal | Vertical

datatype split_position = Before | After

record group_pane =
  gp_id :: ustring
  gp_sessions :: "ustring list"
  gp_active :: "ustring option"

datatype session_layout =
    Pane group_pane
  | Split ustring split_direction "session_layout list" "nat list"

definition pane_new :: "ustring \<Rightarrow> group_pane" where
  "pane_new i = \<lparr>gp_id = i, gp_sessions = [], gp_active = None\<rparr>"

definition first_session :: "group_pane \<Rightarrow> ustring option" where
  "first_session p = (case gp_sessions p of [] \<Rightarrow> None | s # _ \<Rightarrow> Some s)"

definition pane_normalize :: "ustring list \<Rightarrow> group_pane \<Rightarrow> group_pane" where
  "pane_normalize members p =
     (let p1 = p\<lparr>gp_sessions := take SESSION_GROUP_MEMBER_LIMIT (rev (remdups (rev (filter (\<lambda>s. s \<in> set members) (gp_sessions p)))))\<rparr> in
      if (case gp_active p1 of Some s \<Rightarrow> s \<in> set (gp_sessions p1) | None \<Rightarrow> False) then p1
      else p1\<lparr>gp_active := first_session p1\<rparr>)"

definition layout_default :: session_layout where
  "layout_default = Pane (pane_new SESSION_GROUP_MAIN_PANE_ID)"

fun panes :: "session_layout \<Rightarrow> group_pane list" where
  "panes (Pane p) = [p]"
| "panes (Split _ _ cs _) = concat (map panes cs)"

fun map_panes :: "(group_pane \<Rightarrow> group_pane) \<Rightarrow> session_layout \<Rightarrow> session_layout" where
  "map_panes f (Pane p) = Pane (f p)"
| "map_panes f (Split i d cs sizes) = Split i d (map (map_panes f) cs) sizes"

definition pane_ids :: "session_layout \<Rightarrow> ustring list" where
  "pane_ids l = map gp_id (panes l)"

definition pane_count :: "session_layout \<Rightarrow> nat" where
  "pane_count l = length (pane_ids l)"

definition find_pane :: "ustring \<Rightarrow> session_layout \<Rightarrow> group_pane option" where
  "find_pane i l = find (\<lambda>p. gp_id p = i) (panes l)"

definition contains_pane :: "ustring \<Rightarrow> session_layout \<Rightarrow> bool" where
  "contains_pane i l \<longleftrightarrow> find_pane i l \<noteq> None"

definition pane_containing_session :: "ustring \<Rightarrow> session_layout \<Rightarrow> ustring option" where
  "pane_containing_session s l = map_option gp_id (find (\<lambda>p. s \<in> set (gp_sessions p)) (panes l))"

definition first_pane_id :: "session_layout \<Rightarrow> ustring option" where
  "first_pane_id l = (case panes l of [] \<Rightarrow> None | p # _ \<Rightarrow> Some (gp_id p))"

definition ordered_session_ids :: "session_layout \<Rightarrow> ustring list" where
  "ordered_session_ids l = concat (map gp_sessions (panes l))"

definition empty_pane_ids :: "session_layout \<Rightarrow> ustring list" where
  "empty_pane_ids l = map gp_id (filter (\<lambda>p. gp_sessions p = []) (panes l))"

text \<open>Changing the first child for which the change applies.\<close>

fun update_first :: "('a \<Rightarrow> 'a option) \<Rightarrow> 'a list \<Rightarrow> 'a list option" where
  "update_first f [] = None"
| "update_first f (x # xs) = (case f x of Some y \<Rightarrow> Some (y # xs) | None \<Rightarrow> map_option (Cons x) (update_first f xs))"

lemma update_first_cong [fundef_cong]:
  "xs = ys \<Longrightarrow> (\<And>x. x \<in> set ys \<Longrightarrow> f x = g x) \<Longrightarrow> update_first f xs = update_first g ys"
  by (induction ys arbitrary: xs) (auto split: option.split)

text \<open>\<open>find_pane_mut\<close> and a change of the pane found.\<close>

fun update_pane :: "ustring \<Rightarrow> (group_pane \<Rightarrow> group_pane) \<Rightarrow> session_layout \<Rightarrow> session_layout option" where
  "update_pane i f (Pane p) = (if gp_id p = i then Some (Pane (f p)) else None)"
| "update_pane i f (Split j d cs sizes) = map_option (\<lambda>ds. Split j d ds sizes) (update_first (update_pane i f) cs)"

text \<open>\<open>last_pane_mut\<close> and a change of it.\<close>

fun update_last :: "(group_pane \<Rightarrow> group_pane) \<Rightarrow> session_layout \<Rightarrow> session_layout option" where
  "update_last f (Pane p) = Some (Pane (f p))"
| "update_last f (Split j d cs sizes) = map_option (\<lambda>ds. Split j d (rev ds) sizes) (update_first (update_last f) (rev cs))"

section \<open>Pruning and shares\<close>

fun keeps_child :: "ustring list \<Rightarrow> session_layout \<Rightarrow> bool" where
  "keeps_child keep (Pane p) = (gp_sessions p \<noteq> [] \<or> gp_id p \<in> set keep)"
| "keeps_child keep (Split _ _ _ _) = True"

fun prune_empty_panes_preserving :: "ustring list \<Rightarrow> session_layout \<Rightarrow> session_layout" where
  "prune_empty_panes_preserving keep (Pane p) = Pane p"
| "prune_empty_panes_preserving keep (Split i d cs sizes) =
     (case filter (keeps_child keep) (map (prune_empty_panes_preserving []) cs) of
        [only] \<Rightarrow> only
      | kept \<Rightarrow> Split i d kept sizes)"

fun has_any_pane :: "session_layout \<Rightarrow> bool" where
  "has_any_pane (Pane _) = True"
| "has_any_pane (Split _ _ cs _) = (cs \<noteq> [])"

definition clamp :: "nat \<Rightarrow> nat \<Rightarrow> nat \<Rightarrow> nat" where
  "clamp lo hi x = max lo (min hi x)"

abbreviation clamp_share :: "nat \<Rightarrow> nat" where
  "clamp_share x \<equiv> clamp SESSION_GROUP_MIN_SPLIT_SHARE SESSION_GROUP_MAX_SPLIT_SHARE x"

text \<open>\<open>max_by_key\<close> over the shares: the last of the greatest.\<close>

fun last_max :: "nat list \<Rightarrow> nat option" where
  "last_max [] = None"
| "last_max (x # xs) = (case last_max xs of None \<Rightarrow> Some 0 | Some i \<Rightarrow> if x > xs ! i then Some 0 else Some (Suc i))"

definition scaled_shares :: "nat \<Rightarrow> nat list \<Rightarrow> nat list" where
  "scaled_shares n sizes0 =
     (let sizes = take n sizes0 @ replicate (n - length sizes0) 1;
          total = sum_list sizes
      in if sizes \<noteq> [] \<and> total = 0 then replicate n (SESSION_GROUP_SPLIT_SCALE div max n 1)
         else map (\<lambda>s. s * SESSION_GROUP_SPLIT_SCALE div total) sizes)"

definition normal_shares :: "nat \<Rightarrow> nat list \<Rightarrow> nat list" where
  "normal_shares n sizes0 =
     (let sizes = map clamp_share (scaled_shares n sizes0);
          total = sum_list sizes
      in if total = SESSION_GROUP_SPLIT_SCALE then sizes
         else case last_max sizes of
           None \<Rightarrow> sizes
         | Some i \<Rightarrow> sizes[i := clamp_share (sizes ! i + SESSION_GROUP_SPLIT_SCALE - total)])"

fun normalize_sizes :: "session_layout \<Rightarrow> session_layout" where
  "normalize_sizes (Pane p) = Pane p"
| "normalize_sizes (Split i d cs sizes) = Split i d (map normalize_sizes cs) (normal_shares (length cs) sizes)"

section \<open>Membership\<close>

definition truncated :: "ustring list \<Rightarrow> ustring list" where
  "truncated = take SESSION_GROUP_MEMBER_LIMIT"

definition pane_with :: "ustring \<Rightarrow> ustring list \<Rightarrow> group_pane" where
  "pane_with i sessions = (let p = (pane_new i)\<lparr>gp_sessions := truncated sessions\<rparr> in p\<lparr>gp_active := first_session p\<rparr>)"

definition extend_pane :: "ustring list \<Rightarrow> group_pane \<Rightarrow> group_pane" where
  "extend_pane missing p =
     (let p1 = p\<lparr>gp_sessions := truncated (gp_sessions p @ missing)\<rparr>
      in if gp_active p1 = None then p1\<lparr>gp_active := first_session p1\<rparr> else p1)"

definition reconcile_members :: "ustring list \<Rightarrow> ustring \<Rightarrow> session_layout \<Rightarrow> session_layout" where
  "reconcile_members members preferred l =
     (let already_empty = empty_pane_ids l;
          l1 = map_panes (pane_normalize members) l;
          missing = rev (remdups (rev (filter (\<lambda>s. s \<notin> set (ordered_session_ids l1)) members)));
          first_id = (case first_pane_id l1 of Some i \<Rightarrow> i | None \<Rightarrow> preferred);
          l2 = (if missing = [] then l1 else case update_pane first_id (extend_pane missing) l1 of Some l' \<Rightarrow> l' | None \<Rightarrow> l1);
          l3 = prune_empty_panes_preserving already_empty l2
      in if has_any_pane l3 then l3 else Pane (pane_with preferred members))"

definition collapse_to_single_pane :: "ustring \<Rightarrow> ustring list \<Rightarrow> session_layout" where
  "collapse_to_single_pane i members = Pane (pane_with i members)"

section \<open>Moving sessions\<close>

definition drop_session :: "ustring \<Rightarrow> group_pane \<Rightarrow> group_pane" where
  "drop_session s p =
     (let p1 = p\<lparr>gp_sessions := filter (\<lambda>x. x \<noteq> s) (gp_sessions p)\<rparr>
      in if gp_active p1 = Some s then p1\<lparr>gp_active := first_session p1\<rparr> else p1)"

definition show_session :: "ustring \<Rightarrow> group_pane \<Rightarrow> group_pane" where
  "show_session s p =
     (if s \<in> set (gp_sessions p) then p else p\<lparr>gp_sessions := gp_sessions p @ [s]\<rparr>)\<lparr>gp_active := Some s\<rparr>"

fun splice_split :: "ustring \<Rightarrow> ustring \<Rightarrow> split_direction \<Rightarrow> session_layout \<Rightarrow> split_position \<Rightarrow> session_layout \<Rightarrow> session_layout option" where
  "splice_split i split_id d moved pos (Pane p) =
     (if gp_id p = i
      then Some (Split split_id d (case pos of Before \<Rightarrow> [moved, Pane p] | After \<Rightarrow> [Pane p, moved]) [SESSION_GROUP_SPLIT_SCALE div 2, SESSION_GROUP_SPLIT_SCALE div 2])
      else None)"
| "splice_split i split_id d moved pos (Split j e cs sizes) =
     map_option (\<lambda>ds. Split j e ds sizes) (update_first (splice_split i split_id d moved pos) cs)"

definition split_with_session ::
    "ustring \<Rightarrow> ustring \<Rightarrow> split_direction \<Rightarrow> ustring \<Rightarrow> ustring \<Rightarrow> split_position \<Rightarrow> session_layout \<Rightarrow> session_layout \<times> ustring option" where
  "split_with_session i s d new_pane_id new_split_id pos l =
     (if pane_count l \<ge> SESSION_GROUP_PANE_LIMIT \<or> new_pane_id = [] \<or> contains_pane new_pane_id l then (l, None)
      else case find_pane i l of
        None \<Rightarrow> (l, None)
      | Some p \<Rightarrow>
          if gp_sessions p = [] then (l, None)
          else case pane_containing_session s l of
            None \<Rightarrow> (l, None)
          | Some source \<Rightarrow>
              (let already_empty = empty_pane_ids l @ (if source = i then [i] else []) in
               case update_pane source (drop_session s) l of
                 None \<Rightarrow> (l, None)
               | Some l1 \<Rightarrow>
                   (case splice_split i new_split_id d (Pane \<lparr>gp_id = new_pane_id, gp_sessions = [s], gp_active = Some s\<rparr>) pos l1 of
                      None \<Rightarrow> (l1, None)
                    | Some l2 \<Rightarrow> (normalize_sizes (prune_empty_panes_preserving already_empty l2), Some new_pane_id))))"

definition split_open_pane ::
    "ustring \<Rightarrow> split_direction \<Rightarrow> ustring \<Rightarrow> ustring \<Rightarrow> split_position \<Rightarrow> session_layout \<Rightarrow> session_layout \<times> ustring option" where
  "split_open_pane i d new_pane_id new_split_id pos l =
     (if pane_count l \<ge> SESSION_GROUP_PANE_LIMIT \<or> new_pane_id = [] \<or> contains_pane new_pane_id l \<or> \<not> contains_pane i l then (l, None)
      else case splice_split i new_split_id d (Pane (pane_new new_pane_id)) pos l of
        None \<Rightarrow> (l, None)
      | Some l1 \<Rightarrow> (normalize_sizes l1, Some new_pane_id))"

definition move_session_to_pane :: "ustring \<Rightarrow> ustring \<Rightarrow> session_layout \<Rightarrow> session_layout \<times> bool" where
  "move_session_to_pane s target l =
     (case pane_containing_session s l of
        None \<Rightarrow> (l, False)
      | Some source \<Rightarrow>
          if source = target \<or> \<not> contains_pane target l then (l, False)
          else let already_empty = empty_pane_ids l in
            case update_pane source (drop_session s) l of
              None \<Rightarrow> (l, False)
            | Some l1 \<Rightarrow> (case update_pane target (show_session s) l1 of
                None \<Rightarrow> (l1, False)
              | Some l2 \<Rightarrow> (normalize_sizes (prune_empty_panes_preserving already_empty l2), True)))"

definition remove_at :: "nat \<Rightarrow> 'a list \<Rightarrow> 'a list" where
  "remove_at i xs = take i xs @ drop (Suc i) xs"

definition insert_at :: "nat \<Rightarrow> 'a \<Rightarrow> 'a list \<Rightarrow> 'a list" where
  "insert_at i x xs = take i xs @ x # drop i xs"

definition reorder_pane_session :: "ustring \<Rightarrow> ustring \<Rightarrow> ustring \<Rightarrow> bool \<Rightarrow> session_layout \<Rightarrow> session_layout \<times> bool" where
  "reorder_pane_session i s anchor after l =
     (if s = anchor then (l, False)
      else case find_pane i l of
        None \<Rightarrow> (l, False)
      | Some p \<Rightarrow>
          if anchor \<notin> set (gp_sessions p) then (l, False)
          else case position (\<lambda>x. x = s) (gp_sessions p) of
            None \<Rightarrow> (l, False)
          | Some index \<Rightarrow>
              (let rest = remove_at index (gp_sessions p) in
               case position (\<lambda>x. x = anchor) rest of
                 None \<Rightarrow> (l, False)
               | Some at \<Rightarrow>
                   (case update_pane i (\<lambda>p. p\<lparr>gp_sessions := insert_at (at + (if after then 1 else 0)) s rest\<rparr>) l of
                      Some l1 \<Rightarrow> (l1, True) | None \<Rightarrow> (l, False))))"

definition focus_session :: "ustring \<Rightarrow> ustring \<Rightarrow> session_layout \<Rightarrow> session_layout \<times> bool" where
  "focus_session i s l =
     (case find_pane i l of
        None \<Rightarrow> (l, False)
      | Some p \<Rightarrow>
          if s \<notin> set (gp_sessions p) \<or> gp_active p = Some s then (l, False)
          else case update_pane i (\<lambda>p. p\<lparr>gp_active := Some s\<rparr>) l of Some l1 \<Rightarrow> (l1, True) | None \<Rightarrow> (l, False))"

fun resize_layout :: "ustring \<Rightarrow> nat list \<Rightarrow> session_layout \<Rightarrow> session_layout option" where
  "resize_layout split_id sizes (Pane p) = None"
| "resize_layout split_id sizes (Split i d cs current) =
     (if i = split_id then
        if length sizes \<noteq> length cs \<or> current = sizes then None else Some (normalize_sizes (Split i d cs sizes))
      else map_option (\<lambda>ds. Split i d ds current) (update_first (resize_layout split_id sizes) cs))"

definition resize_split :: "ustring \<Rightarrow> nat list \<Rightarrow> session_layout \<Rightarrow> session_layout \<times> bool" where
  "resize_split split_id sizes l = (case resize_layout split_id sizes l of Some l1 \<Rightarrow> (l1, True) | None \<Rightarrow> (l, False))"

section \<open>Presets\<close>

definition even_sizes :: "nat \<Rightarrow> nat list" where
  "even_sizes n =
     (if n = 0 then []
      else let share = SESSION_GROUP_SPLIT_SCALE div n
        in replicate (n - 1) share @ [SESSION_GROUP_SPLIT_SCALE - share * (n - 1)])"

definition even_split :: "ustring \<Rightarrow> split_direction \<Rightarrow> session_layout list \<Rightarrow> session_layout" where
  "even_split i d cs = Split i d cs (even_sizes (length cs))"

definition pane_id :: "nat \<Rightarrow> ustring" where
  "pane_id index = (if index = 0 then SESSION_GROUP_MAIN_PANE_ID else SESSION_GROUP_MAIN_PANE_ID @ lit ''-'' @ dec_string index)"

definition numbered_pane :: "ustring list \<Rightarrow> nat \<Rightarrow> session_layout" where
  "numbered_pane visible index = Pane (pane_with (pane_id index) [visible ! index])"

definition stack_sessions :: "ustring list \<Rightarrow> group_pane \<Rightarrow> group_pane" where
  "stack_sessions tabbed p = p\<lparr>gp_sessions := gp_sessions p @ tabbed\<rparr>"

definition live_panes :: "ustring list \<Rightarrow> nat \<Rightarrow> nat" where
  "live_panes ordered live = min (max live 1) (length ordered)"

text \<open>The code also returns what is visible and what is stacked; its callers drop both.\<close>

definition columns_layout :: "ustring list \<Rightarrow> nat \<Rightarrow> session_layout" where
  "columns_layout ordered live0 =
     (let live = live_panes ordered live0; visible = take live ordered; tabbed = drop live ordered in
      if live = 1 then Pane (stack_sessions tabbed (pane_with SESSION_GROUP_MAIN_PANE_ID visible))
      else let children = map (numbered_pane visible) [0..<live] in
        even_split (lit ''session-group-split-columns'') Horizontal
          (if children = [] then [] else butlast children @ [map_panes (stack_sessions tabbed) (last children)]))"

definition stack_last :: "ustring list \<Rightarrow> session_layout \<Rightarrow> session_layout" where
  "stack_last tabbed l =
     (if tabbed = [] then l else case update_last (stack_sessions tabbed) l of Some l' \<Rightarrow> l' | None \<Rightarrow> l)"

definition grid_row :: "ustring list \<Rightarrow> nat \<Rightarrow> nat \<Rightarrow> session_layout" where
  "grid_row visible columns row =
     (let cells = map (numbered_pane visible) (filter (\<lambda>index. index < length visible) (map (\<lambda>column. row * columns + column) [0..<columns])) in
      case cells of [cell] \<Rightarrow> cell | _ \<Rightarrow> even_split (lit ''session-group-split-row-'' @ dec_string row) Horizontal cells)"

definition grid_layout :: "ustring list \<Rightarrow> nat \<Rightarrow> session_layout" where
  "grid_layout ordered live0 =
     (let live = live_panes ordered live0; visible = take live ordered; tabbed = drop live ordered in
      if live \<le> 2 then columns_layout ordered live
      else let columns = (live + 1) div 2 in
        stack_last tabbed (even_split (lit ''session-group-split-grid'') Vertical (map (grid_row visible columns) [0..<2])))"

definition lead_and_workers_layout :: "ustring list \<Rightarrow> nat \<Rightarrow> session_layout" where
  "lead_and_workers_layout ordered live0 =
     (let live = live_panes ordered live0 in
      if live \<le> 2 then columns_layout ordered live
      else let visible = take live ordered; tabbed = drop live ordered;
               workers = map (numbered_pane visible) [1..<live];
               column = (case workers of [worker] \<Rightarrow> worker | _ \<Rightarrow> even_split (lit ''session-group-split-workers'') Vertical workers)
        in even_split (lit ''session-group-split-lead'') Horizontal [numbered_pane visible 0, stack_last tabbed column])"

section \<open>Groups\<close>

datatype layout_preset = SinglePreset | TabsPreset | ColumnsPreset | GridPreset | LeadAndWorkers

record layout_intent =
  li_preset :: layout_preset
  li_lead :: "(ustring \<times> ustring) option"
  li_live :: "nat option"

record applied_layout =
  al_preset :: layout_preset
  al_live_panes :: nat
  al_visible :: "ustring list"
  al_tabbed :: "ustring list"

record session_group =
  sg_name :: ustring
  sg_project_id :: ustring
  sg_workspace_id :: ustring
  sg_members :: "ustring list"
  sg_layout :: session_layout
  sg_focused :: ustring
  sg_maximized :: "ustring option"
  sg_auto_continue :: "bool option"
  sg_pinned :: bool
  sg_automatic :: "layout_intent option"
  sg_applied :: "layout_intent option"

definition bounded_text :: "ustring \<Rightarrow> nat \<Rightarrow> ustring option" where
  "bounded_text v n = (let t = trim v in if t = [] \<or> length t > n then None else Some t)"

definition or_text :: "ustring option \<Rightarrow> ustring \<Rightarrow> ustring" where
  "or_text x d = (case x of Some t \<Rightarrow> t | None \<Rightarrow> d)"

definition normal_members :: "ustring list \<Rightarrow> ustring list" where
  "normal_members members =
     take SESSION_GROUP_MEMBER_LIMIT (rev (remdups (rev (List.map_filter (\<lambda>s. bounded_text s 256) members))))"

definition group_normalize :: "session_group \<Rightarrow> session_group" where
  "group_normalize g =
     (let members = normal_members (sg_members g);
          preferred = (if sg_focused g = [] then SESSION_GROUP_MAIN_PANE_ID else sg_focused g);
          layout = normalize_sizes (reconcile_members members preferred (sg_layout g));
          ids = pane_ids layout
      in g\<lparr>sg_name := or_text (bounded_text (sg_name g) SESSION_GROUP_NAME_MAX_CHARS) (lit ''Session group''),
           sg_project_id := or_text (bounded_text (sg_project_id g) 256) [],
           sg_workspace_id := or_text (bounded_text (sg_workspace_id g) 256) [],
           sg_members := members,
           sg_layout := layout,
           sg_focused := (if sg_focused g \<in> set ids then sg_focused g else case ids of [] \<Rightarrow> SESSION_GROUP_MAIN_PANE_ID | i # _ \<Rightarrow> i),
           sg_maximized := (case sg_maximized g of Some i \<Rightarrow> if i \<in> set ids then Some i else None | None \<Rightarrow> None)\<rparr>)"

definition group_new :: "ustring \<Rightarrow> ustring \<Rightarrow> ustring \<Rightarrow> ustring list \<Rightarrow> session_group" where
  "group_new name project_id workspace_id members =
     group_normalize \<lparr>sg_name = name, sg_project_id = project_id, sg_workspace_id = workspace_id,
       sg_members = take SESSION_GROUP_MEMBER_LIMIT members, sg_layout = layout_default, sg_focused = SESSION_GROUP_MAIN_PANE_ID,
       sg_maximized = None, sg_auto_continue = None, sg_pinned = False, sg_automatic = None, sg_applied = None\<rparr>"

definition focused_session_id :: "session_group \<Rightarrow> ustring option" where
  "focused_session_id g = (case find_pane (sg_focused g) (sg_layout g) of Some p \<Rightarrow> gp_active p | None \<Rightarrow> None)"

definition live_session_ids :: "session_group \<Rightarrow> ustring list" where
  "live_session_ids g =
     (let ids = pane_ids (sg_layout g);
          ordered0 = rev (remdups (rev ((if sg_focused g \<in> set ids then [sg_focused g] else []) @ ids)));
          ordered = (case sg_maximized g of
            Some m \<Rightarrow> if m \<in> set ordered0 then filter (\<lambda>i. i = m) ordered0 else ordered0
          | None \<Rightarrow> ordered0)
      in rev (remdups (rev (List.map_filter (\<lambda>i. case find_pane i (sg_layout g) of Some p \<Rightarrow> gp_active p | None \<Rightarrow> None)
           (take SESSION_GROUP_LIVE_PANE_LIMIT ordered)))))"

definition observed_layout :: "session_group \<Rightarrow> applied_layout" where
  "observed_layout g =
     (let visible = live_session_ids g in
      \<lparr>al_preset = (if sg_maximized g \<noteq> None then SinglePreset
         else case sg_applied g of
           Some a \<Rightarrow> li_preset a
         | None \<Rightarrow> (case sg_layout g of Pane _ \<Rightarrow> TabsPreset | Split _ d _ _ \<Rightarrow> (case d of Horizontal \<Rightarrow> ColumnsPreset | Vertical \<Rightarrow> GridPreset))),
       al_live_panes = length visible, al_visible = visible,
       al_tabbed = filter (\<lambda>s. s \<notin> set visible) (sg_members g)\<rparr>)"

definition preset_order :: "ustring option \<Rightarrow> ustring list \<Rightarrow> ustring list" where
  "preset_order lead_id members =
     (let lead = (case lead_id of
            Some i \<Rightarrow> if i \<in> set members then Some i else (case members of [] \<Rightarrow> None | m # _ \<Rightarrow> Some m)
          | None \<Rightarrow> (case members of [] \<Rightarrow> None | m # _ \<Rightarrow> Some m))
      in (case lead of Some i \<Rightarrow> [i] | None \<Rightarrow> []) @ filter (\<lambda>s. Some s \<noteq> lead) members)"

definition preset_layout :: "layout_preset \<Rightarrow> ustring list \<Rightarrow> nat \<Rightarrow> session_layout" where
  "preset_layout preset ordered budget =
     (if ordered = [] then layout_default
      else case preset of
        SinglePreset \<Rightarrow> Pane (pane_with SESSION_GROUP_MAIN_PANE_ID ordered)
      | TabsPreset \<Rightarrow> Pane (pane_with SESSION_GROUP_MAIN_PANE_ID ordered)
      | ColumnsPreset \<Rightarrow> columns_layout ordered (min (length ordered) budget)
      | GridPreset \<Rightarrow> grid_layout ordered (min (length ordered) budget)
      | LeadAndWorkers \<Rightarrow> lead_and_workers_layout ordered (min (length ordered) budget))"

definition apply_layout_preset :: "layout_preset \<Rightarrow> ustring option \<Rightarrow> nat option \<Rightarrow> session_group \<Rightarrow> session_group \<times> applied_layout" where
  "apply_layout_preset preset lead preferred g =
     (let budget = min (clamp 1 SESSION_GROUP_LIVE_PANE_LIMIT (case preferred of Some n \<Rightarrow> n | None \<Rightarrow> SESSION_GROUP_LIVE_PANE_LIMIT)) SESSION_GROUP_MEMBER_LIMIT;
          layout = preset_layout preset (preset_order lead (sg_members g)) budget;
          g1 = group_normalize (g\<lparr>sg_layout := layout, sg_maximized := None,
            sg_focused := (case pane_ids layout of [] \<Rightarrow> SESSION_GROUP_MAIN_PANE_ID | i # _ \<Rightarrow> i)\<rparr>)
      in (g1, (observed_layout g1)\<lparr>al_preset := preset\<rparr>))"

definition VIBEX_USE_MAX_LIVE_PANES :: nat where "VIBEX_USE_MAX_LIVE_PANES = 4"

text \<open>The arguments \<open>columns\<close>: how many columns of 24 rem the width holds, one when it is not finite.\<close>

definition effective_automatic_layout :: "nat \<Rightarrow> session_group \<Rightarrow> layout_intent option" where
  "effective_automatic_layout columns g =
     map_option (\<lambda>intent.
       let budget = min (clamp 1 VIBEX_USE_MAX_LIVE_PANES (case li_live intent of Some n \<Rightarrow> n | None \<Rightarrow> VIBEX_USE_MAX_LIVE_PANES)) (max (length (sg_members g)) 1);
           preset = (if li_preset intent = SinglePreset \<or> li_preset intent = TabsPreset then li_preset intent
             else if columns < 2 then TabsPreset
             else if li_preset intent = LeadAndWorkers \<and> budget = 3 \<and> columns \<ge> 3 then ColumnsPreset
             else if li_preset intent = LeadAndWorkers \<and> budget \<ge> 4 then GridPreset
             else if li_preset intent = ColumnsPreset \<and> columns < budget then GridPreset
             else li_preset intent)
       in \<lparr>li_preset = preset, li_lead = li_lead intent, li_live = Some budget\<rparr>) (sg_automatic g)"

definition needs_layout_adaptation :: "nat \<Rightarrow> session_group \<Rightarrow> bool" where
  "needs_layout_adaptation columns g \<longleftrightarrow> effective_automatic_layout columns g \<noteq> sg_applied g"

definition adapt_layout_to_width :: "nat \<Rightarrow> session_group \<Rightarrow> session_group \<times> bool" where
  "adapt_layout_to_width columns g =
     (case effective_automatic_layout columns g of
        None \<Rightarrow> (g, False)
      | Some effective \<Rightarrow>
          if sg_applied g = Some effective then (g, False)
          else let focused = focused_session_id g;
                   g1 = fst (apply_layout_preset (li_preset effective) (map_option snd (li_lead effective)) (li_live effective) g);
                   g2 = (case focused of
                     Some s \<Rightarrow> (case pane_containing_session s (sg_layout g1) of
                         Some i \<Rightarrow> g1\<lparr>sg_layout := fst (focus_session i s (sg_layout g1)), sg_focused := i\<rparr>
                       | None \<Rightarrow> g1)
                   | None \<Rightarrow> g1);
                   g3 = g2\<lparr>sg_applied := Some effective\<rparr>
            in (g3, sg_layout g \<noteq> sg_layout g3))"

definition set_automatic_layout :: "layout_intent \<Rightarrow> nat \<Rightarrow> session_group \<Rightarrow> session_group \<times> applied_layout" where
  "set_automatic_layout intent columns g =
     (let g1 = fst (adapt_layout_to_width columns (g\<lparr>sg_automatic := Some intent, sg_applied := None\<rparr>)) in (g1, observed_layout g1))"

definition disable_automatic_layout :: "session_group \<Rightarrow> session_group" where
  "disable_automatic_layout g = g\<lparr>sg_automatic := None, sg_applied := None\<rparr>"

fun append_members :: "ustring list \<Rightarrow> ustring list \<Rightarrow> ustring list \<times> bool" where
  "append_members members [] = (members, False)"
| "append_members members (s # ss) =
     (case bounded_text s 256 of
        None \<Rightarrow> append_members members ss
      | Some t \<Rightarrow>
          if length members \<ge> SESSION_GROUP_MEMBER_LIMIT then (members, False)
          else if t \<in> set members then append_members members ss
          else (fst (append_members (members @ [t]) ss), True))"

definition add_members :: "ustring list \<Rightarrow> session_group \<Rightarrow> session_group \<times> bool" where
  "add_members ids g =
     (let (members, changed) = append_members (sg_members g) ids; g1 = g\<lparr>sg_members := members\<rparr>
      in if changed then (group_normalize g1, True) else (g1, False))"

definition remove_members :: "ustring list \<Rightarrow> session_group \<Rightarrow> session_group \<times> bool" where
  "remove_members ids g =
     (let members = filter (\<lambda>s. s \<notin> set ids) (sg_members g) in
      if length members = length (sg_members g) then (g\<lparr>sg_members := members\<rparr>, False)
      else (group_normalize (g\<lparr>sg_members := members\<rparr>), True))"

definition set_members :: "ustring list \<Rightarrow> session_group \<Rightarrow> session_group \<times> bool" where
  "set_members ids g = (if sg_members g = ids then (g, False) else (group_normalize (g\<lparr>sg_members := ids\<rparr>), True))"

definition move_strings_relative :: "ustring list \<Rightarrow> ustring \<Rightarrow> bool \<Rightarrow> ustring list \<Rightarrow> ustring list \<times> bool" where
  "move_strings_relative moving target after order =
     (if moving = [] \<or> \<not> distinct moving \<or> target \<in> set moving \<or> \<not> set moving \<subseteq> set order then (order, False)
      else let rest = filter (\<lambda>i. i \<notin> set moving) order in
        case position (\<lambda>i. i = target) rest of
          None \<Rightarrow> (order, False)
        | Some index \<Rightarrow>
            (let at = index + (if after then 1 else 0); moved = take at rest @ moving @ drop at rest in (moved, moved \<noteq> order)))"

definition reorder_members :: "ustring list \<Rightarrow> ustring \<Rightarrow> bool \<Rightarrow> session_group \<Rightarrow> session_group \<times> bool" where
  "reorder_members moving target after g =
     (if \<not> set moving \<subseteq> set (sg_members g) \<or> target \<notin> set (sg_members g) then (g, False)
      else let (members, changed) = move_strings_relative moving target after (sg_members g) in (g\<lparr>sg_members := members\<rparr>, changed))"

definition focus_pane :: "ustring \<Rightarrow> session_group \<Rightarrow> session_group \<times> bool" where
  "focus_pane i g =
     (if sg_focused g = i \<or> \<not> contains_pane i (sg_layout g) then (g, False) else (g\<lparr>sg_focused := i\<rparr>, True))"

definition toggle_maximized_pane :: "ustring \<Rightarrow> session_group \<Rightarrow> session_group \<times> bool" where
  "toggle_maximized_pane i g =
     (if \<not> contains_pane i (sg_layout g) then (g, False)
      else if sg_maximized g = Some i then (g\<lparr>sg_maximized := None\<rparr>, True)
      else (g\<lparr>sg_maximized := Some i, sg_focused := i\<rparr>, True))"

definition merge_panes :: "session_group \<Rightarrow> session_group \<times> bool" where
  "merge_panes g =
     (if pane_count (sg_layout g) \<le> 1 \<and> sg_maximized g = None then (g, False)
      else let i = (case first_pane_id (sg_layout g) of Some i \<Rightarrow> i | None \<Rightarrow> SESSION_GROUP_MAIN_PANE_ID)
        in (g\<lparr>sg_layout := collapse_to_single_pane i (sg_members g), sg_focused := i, sg_maximized := None\<rparr>, True))"

section \<open>The panes of a changed layout\<close>

lemma update_first_Some:
  "update_first f xs = Some ys \<Longrightarrow> \<exists>us x vs y. xs = us @ x # vs \<and> ys = us @ y # vs \<and> f x = Some y \<and> (\<forall>u \<in> set us. f u = None)"
proof (induction xs arbitrary: ys)
  case (Cons x xs)
  show ?case
  proof (cases "f x")
    case None
    then obtain zs where z: "update_first f xs = Some zs" "ys = x # zs" using Cons.prems by auto
    from Cons.IH [OF z(1)] obtain us x' vs y where "xs = us @ x' # vs" "zs = us @ y # vs" "f x' = Some y" "\<forall>u \<in> set us. f u = None" by blast
    with None z(2) show ?thesis by (intro exI [of _ "x # us"] exI [of _ x'] exI [of _ vs] exI [of _ y]) simp
  qed (use Cons.prems in force)
qed simp

lemma update_first_None: "update_first f xs = None \<longleftrightarrow> (\<forall>x \<in> set xs. f x = None)"
  by (induction xs) (auto split: option.split)

lemma panes_Split_append: "panes (Split i d (us @ x # vs) sizes) = concat (map panes us) @ panes x @ concat (map panes vs)"
  by simp

lemma update_pane_None_iff: "update_pane i f l = None \<longleftrightarrow> i \<notin> set (pane_ids l)"
  by (induction i f l rule: update_pane.induct) (auto simp: pane_ids_def update_first_None)

lemma update_pane_panes:
  "update_pane i f l = Some l' \<Longrightarrow> \<exists>ps p qs. panes l = ps @ p # qs \<and> panes l' = ps @ f p # qs \<and> gp_id p = i \<and> i \<notin> gp_id ` set ps"
proof (induction i f l arbitrary: l' rule: update_pane.induct)
  case (2 i f j d cs sizes)
  then obtain ds where ds: "update_first (update_pane i f) cs = Some ds" "l' = Split j d ds sizes" by auto
  from update_first_Some [OF ds(1)] obtain us x vs y where
    u: "cs = us @ x # vs" "ds = us @ y # vs" "update_pane i f x = Some y" "\<forall>u \<in> set us. update_pane i f u = None" by blast
  then obtain ps p qs where p: "panes x = ps @ p # qs" "panes y = ps @ f p # qs" "gp_id p = i" "i \<notin> gp_id ` set ps"
    using "2.IH" [of x y] by auto
  have "i \<notin> gp_id ` set (concat (map panes us) @ ps)" using u(4) p(4) unfolding update_pane_None_iff by (auto simp: pane_ids_def)
  then show ?case unfolding ds(2) u(1,2) panes_Split_append p(1,2) using p(3)
    by (intro exI [of _ "concat (map panes us) @ ps"] exI [of _ p] exI [of _ "qs @ concat (map panes vs)"]) simp
qed (auto split: if_splits intro!: exI [of _ "[]"])

lemma splice_split_None_iff: "splice_split i k d moved pos l = None \<longleftrightarrow> i \<notin> set (pane_ids l)"
  by (induction i k d moved pos l rule: splice_split.induct) (auto simp: pane_ids_def update_first_None)

lemma splice_split_panes:
  "splice_split i k d moved pos l = Some l' \<Longrightarrow> \<exists>ps p qs. panes l = ps @ p # qs \<and> gp_id p = i \<and>
     panes l' = ps @ (case pos of Before \<Rightarrow> panes moved @ [p] | After \<Rightarrow> p # panes moved) @ qs"
proof (induction i k d moved pos l arbitrary: l' rule: splice_split.induct)
  case (2 i k d moved pos j e cs sizes)
  then obtain ds where ds: "update_first (splice_split i k d moved pos) cs = Some ds" "l' = Split j e ds sizes" by auto
  from update_first_Some [OF ds(1)] obtain us x vs y where
    u: "cs = us @ x # vs" "ds = us @ y # vs" "splice_split i k d moved pos x = Some y" by blast
  then obtain ps p qs where p: "panes x = ps @ p # qs" "gp_id p = i"
      "panes y = ps @ (case pos of Before \<Rightarrow> panes moved @ [p] | After \<Rightarrow> p # panes moved) @ qs"
    using "2.IH" [of x y] by auto
  show ?case unfolding ds(2) u(1,2) panes_Split_append p(1,3) using p(2)
    by (intro exI [of _ "concat (map panes us) @ ps"] exI [of _ p] exI [of _ "qs @ concat (map panes vs)"]) simp
qed (auto split: if_splits split_position.splits intro!: exI [of _ "[]"])

lemma panes_map_panes [simp]: "panes (map_panes f l) = map f (panes l)"
  by (induction f l rule: map_panes.induct) (auto simp: map_concat intro!: arg_cong [where f = concat])

lemma panes_normalize_sizes [simp]: "panes (normalize_sizes l) = panes l"
  by (induction l rule: normalize_sizes.induct) (auto intro!: arg_cong [where f = concat])

text \<open>Pruning drops panes without sessions only.\<close>

lemma concat_map_filter_drop: "(\<And>x. x \<in> set xs \<Longrightarrow> \<not> P x \<Longrightarrow> f x = []) \<Longrightarrow> concat (map f (filter P xs)) = concat (map f xs)"
  by (induction xs) auto

lemma dropped_child: "\<not> keeps_child keep l \<Longrightarrow> ordered_session_ids l = []"
  by (cases l) (auto simp: ordered_session_ids_def)

lemma ordered_prune [simp]: "ordered_session_ids (prune_empty_panes_preserving keep l) = ordered_session_ids l"
proof (induction keep l rule: prune_empty_panes_preserving.induct)
  case (2 keep i d cs sizes)
  let ?f = "prune_empty_panes_preserving []"
  have o: "ordered_session_ids (Split j e ds s) = concat (map ordered_session_ids ds)" for j e ds s
    unfolding ordered_session_ids_def by (induction ds) auto
  have "concat (map ordered_session_ids (filter (keeps_child keep) (map ?f cs))) = concat (map ordered_session_ids (map ?f cs))"
    by (rule concat_map_filter_drop) (rule dropped_child)
  also have "\<dots> = concat (map ordered_session_ids cs)" using 2 by (auto intro!: arg_cong [where f = concat])
  finally have "concat (map ordered_session_ids (filter (keeps_child keep) (map ?f cs))) = ordered_session_ids (Split i d cs sizes)" by (simp only: o)
  then show ?case by (auto simp: o split: list.split)
qed simp

lemma pane_ids_prune: "subseq (pane_ids (prune_empty_panes_preserving keep l)) (pane_ids l)"
proof (induction keep l rule: prune_empty_panes_preserving.induct)
  case (2 keep i d cs sizes)
  let ?f = "prune_empty_panes_preserving []"
  have o: "pane_ids (Split j e ds s) = concat (map pane_ids ds)" for j e ds s
    unfolding pane_ids_def by (induction ds) auto
  have drop: "subseq (concat (map pane_ids (filter P ds))) (concat (map pane_ids ds))" for P ds
    by (induction ds) (auto intro: list_emb_append_mono)
  have "subseq (concat (map pane_ids (map ?f ds))) (concat (map pane_ids ds))" if "set ds \<subseteq> set cs" for ds
    using that 2 by (induction ds) (auto intro!: list_emb_append_mono)
  then have "subseq (concat (map pane_ids (filter (keeps_child keep) (map ?f cs)))) (pane_ids (Split i d cs sizes))"
    unfolding o using drop [of "keeps_child keep" "map ?f cs"] by (metis subset_refl subseq_order.order_trans)
  then show ?case by (auto simp: o split: list.split)
qed simp

lemmas layout_defs = pane_ids_def ordered_session_ids_def

section \<open>Shares\<close>

lemma last_max_Some:
  assumes "xs \<noteq> []"
  shows "\<exists>i. last_max xs = Some i \<and> i < length xs \<and> (\<forall>x \<in> set xs. x \<le> xs ! i)"
  using assms
proof (induction xs)
  case (Cons x xs)
  show ?case
  proof (cases "xs = []")
    case False
    then obtain i where i: "last_max xs = Some i" "i < length xs" "\<forall>y \<in> set xs. y \<le> xs ! i" using Cons.IH by blast
    then show ?thesis by (cases "x > xs ! i") fastforce+
  qed simp
qed simp

lemma scaled_shares_bound:
  assumes "0 < n"
  shows "length (scaled_shares n sizes0) = n \<and> sum_list (scaled_shares n sizes0) \<le> 1000"
proof -
  let ?sizes = "take n sizes0 @ replicate (n - length sizes0) 1"
  have len: "length ?sizes = n" by simp
  have floors: "sum_list (map (\<lambda>s. s * 1000 div t) xs) * t \<le> sum_list xs * 1000" for t :: nat and xs
  proof (induction xs)
    case (Cons x xs)
    have "x * 1000 div t * t \<le> x * 1000" by simp
    with Cons have "x * 1000 div t * t + sum_list (map (\<lambda>s. s * 1000 div t) xs) * t \<le> x * 1000 + sum_list xs * 1000" by linarith
    then show ?case by (simp add: distrib_right)
  qed simp
  show ?thesis
  proof (cases "sum_list ?sizes = 0")
    case True
    then have "scaled_shares n sizes0 = replicate n (1000 div n)"
      using assms len by (cases sizes0) (simp_all add: scaled_shares_def Let_def SESSION_GROUP_SPLIT_SCALE_def max.absorb1)
    then show ?thesis by (simp add: sum_list_replicate)
  next
    case False
    then have eq: "scaled_shares n sizes0 = map (\<lambda>s. s * 1000 div sum_list ?sizes) ?sizes"
      unfolding scaled_shares_def Let_def SESSION_GROUP_SPLIT_SCALE_def by (simp only: simp_thms if_False)
    have "sum_list (scaled_shares n sizes0) * sum_list ?sizes \<le> 1000 * sum_list ?sizes"
      using floors [of "sum_list ?sizes" ?sizes] unfolding eq by (simp only: mult.commute)
    then have "sum_list (scaled_shares n sizes0) \<le> 1000" using False by (simp only: mult_le_cancel2 neq0_conv simp_thms)
    moreover have "length (scaled_shares n sizes0) = n" unfolding eq length_map by (rule len)
    ultimately show ?thesis by simp
  qed
qed

text \<open>What the panes beside the largest take, when \<open>j\<close> of them are above the least share.\<close>

lemma others_fit:
  fixes a m :: nat
  assumes "a \<le> j * m" "a + m \<le> 1000" "k + j \<le> 7"
  shows "50 * k + a \<le> 950"
proof -
  have "(j + 1) * a \<le> 1000 * j"
  proof -
    have "j * (a + m) \<le> j * 1000" using assms(2) by (rule mult_le_mono2)
    with assms(1) show ?thesis by (simp add: algebra_simps)
  qed
  moreover have "j \<in> {0, 1, 2, 3, 4, 5, 6, 7}" using assms(3) by auto
  ultimately show ?thesis using assms(3) by (elim insertE) auto
qed

lemma clamped_sum:
  fixes xs :: "nat list"
  assumes "\<forall>x \<in> set xs. max 50 (min 950 x) \<le> m"
  shows "\<exists>k j a. k + j = length xs \<and> sum_list (map (\<lambda>x. max 50 (min 950 x)) xs) \<le> 50 * k + a \<and> a \<le> j * m \<and> a \<le> sum_list xs"
  using assms
proof (induction xs)
  case (Cons x xs)
  then obtain k j a where ih: "k + j = length xs" "sum_list (map (\<lambda>x. max 50 (min 950 x)) xs) \<le> 50 * k + a" "a \<le> j * m" "a \<le> sum_list xs"
    by auto
  show ?case
  proof (cases "x < 50")
    case True
    with ih show ?thesis by (intro exI [of _ "Suc k"] exI [of _ j] exI [of _ a]) auto
  next
    case False
    let ?c = "max 50 (min 950 x)"
    have "?c \<le> x" "?c \<le> m" using False Cons.prems by auto
    with ih show ?thesis by (intro exI [of _ k] exI [of _ "Suc j"] exI [of _ "?c + a"]) auto
  qed
qed simp

text \<open>C25: The shares of a split fill it: for as many children as a group has panes, from two to eight,
  whatever shares were stored, normalising gives every child between 50 and 950 per mille and all of
  them 1000 together, so that the last correction never has to be clamped.\<close>
theorem shares_fill_split:
  assumes "2 \<le> n" and "n \<le> SESSION_GROUP_PANE_LIMIT"
  shows "length (normal_shares n sizes) = n \<and> sum_list (normal_shares n sizes) = 1000 \<and>
    (\<forall>s \<in> set (normal_shares n sizes). 50 \<le> s \<and> s \<le> 950)"
proof -
  let ?s = "scaled_shares n sizes" and ?f = "\<lambda>x. max 50 (min 950 x) :: nat"
  let ?c = "map ?f ?s"
  have s: "length ?s = n" "sum_list ?s \<le> 1000" using scaled_shares_bound [of n sizes] assms by auto
  have f: "clamp_share = ?f" by (simp add: fun_eq_iff clamp_def SESSION_GROUP_MIN_SPLIT_SHARE_def SESSION_GROUP_MAX_SPLIT_SHARE_def)
  have n: "2 \<le> n" "n \<le> 8" using assms by (auto simp: SESSION_GROUP_PANE_LIMIT_def)
  obtain i where i: "last_max ?c = Some i" "i < n" "\<forall>x \<in> set ?c. x \<le> ?c ! i"
    using last_max_Some [of ?c] s n by fastforce
  obtain us m vs where split: "?s = us @ m # vs" "length us = i" using i(2) s(1) by (metis id_take_nth_drop length_take min.absorb4)
  let ?r = "us @ vs"
  have c: "?c = map ?f us @ ?f m # map ?f vs" unfolding split(1) by simp
  have ci: "?c ! i = ?f m" unfolding c using split(2) by (simp add: nth_append)
  have total: "sum_list ?c = ?f m + sum_list (map ?f ?r)" unfolding c by simp
  have sum: "m + sum_list ?r \<le> 1000" using s(2) unfolding split(1) by simp
  have len: "length ?r = n - 1" using s(1) unfolding split(1) by simp
  have most: "\<forall>x \<in> set ?r. ?f x \<le> ?f m" using i(3) unfolding ci unfolding c set_append list.set set_map by blast
  have up: "sum_list (map ?f ?r) \<le> 950"
  proof (cases "m < 50")
    case True
    then have "\<forall>x \<in> set ?r. ?f x \<le> 50" using most by simp
    then have "sum_list (map ?f ?r) \<le> sum_list (map (\<lambda>_. 50) ?r)" by (intro sum_list_mono) blast
    also have "\<dots> = 50 * length ?r" by (simp add: map_replicate_const sum_list_replicate)
    finally show ?thesis using len n by linarith
  next
    case False
    from clamped_sum [OF most] obtain k j a where a: "k + j = length ?r" "sum_list (map ?f ?r) \<le> 50 * k + a" "a \<le> j * ?f m" "a \<le> sum_list ?r" by blast
    have "?f m \<le> m" using False by auto
    with a(4) sum have "a + ?f m \<le> 1000" by linarith
    with others_fit [OF a(3) this, of k] a(1,2) len n show ?thesis by linarith
  qed
  have low: "50 \<le> sum_list (map ?f ?r)"
  proof -
    have "?r \<noteq> []" using len n by auto
    then obtain y ys where "?r = y # ys" by (cases ?r) auto
    then show ?thesis by simp
  qed
  show ?thesis
  proof (cases "sum_list ?c = 1000")
    case True
    then have "normal_shares n sizes = ?c" by (simp add: normal_shares_def f Let_def SESSION_GROUP_SPLIT_SCALE_def)
    with True s(1) show ?thesis by auto
  next
    case False
    have "?f (?f m + 1000 - sum_list ?c) = 1000 - sum_list (map ?f ?r)" using up low total by auto
    moreover have "?c[i := x] = map ?f us @ x # map ?f vs" for x unfolding c using split(2) by (simp add: list_update_append)
    moreover have "normal_shares n sizes = ?c[i := ?f (?c ! i + 1000 - sum_list ?c)]"
      unfolding normal_shares_def f Let_def SESSION_GROUP_SPLIT_SCALE_def i(1) using False by (simp only: if_False option.case)
    ultimately have "normal_shares n sizes = map ?f us @ (1000 - sum_list (map ?f ?r)) # map ?f vs" by (simp only: ci)
    with up low len n show ?thesis by auto
  qed
qed

theorem shares_fill_split_witness:
  "sum_list (normal_shares 3 [980, 10, 10]) = 1000 \<and> normal_shares 3 [980, 10, 10] = [900, 50, 50]"
  using shares_fill_split [of 3 "[980, 10, 10]"]
  by (simp add: SESSION_GROUP_PANE_LIMIT_def normal_shares_def scaled_shares_def clamp_def SESSION_GROUP_SPLIT_SCALE_def
      SESSION_GROUP_MIN_SPLIT_SHARE_def SESSION_GROUP_MAX_SPLIT_SHARE_def)

text \<open>With one child more the shares can leave a gap.\<close>

lemma nine_shares_overflow:
  "normal_shares 9 [250, 250, 250, 250, 0, 0, 0, 0, 0] = [250, 250, 250, 50, 50, 50, 50, 50, 50]"
  by (simp add: normal_shares_def scaled_shares_def clamp_def SESSION_GROUP_SPLIT_SCALE_def
      SESSION_GROUP_MIN_SPLIT_SHARE_def SESSION_GROUP_MAX_SPLIT_SHARE_def)

section \<open>Every member in one pane\<close>

lemma dedup_id: "distinct xs \<Longrightarrow> rev (remdups (rev xs)) = xs"
  by (simp add: distinct_remdups_id)

lemma ordered_Pane [simp]: "ordered_session_ids (Pane p) = gp_sessions p"
  by (simp add: ordered_session_ids_def)

lemma length_le_members: "distinct xs \<Longrightarrow> set xs \<subseteq> set members \<Longrightarrow> length xs \<le> length members"
  by (metis card_mono distinct_card le_trans card_length finite_set)

lemma pane_normalize_id [simp]: "gp_id (pane_normalize members p) = gp_id p"
  by (simp add: pane_normalize_def Let_def)

lemma pane_normalize_sessions:
  assumes "distinct (gp_sessions p)" and "length members \<le> SESSION_GROUP_MEMBER_LIMIT"
  shows "gp_sessions (pane_normalize members p) = filter (\<lambda>s. s \<in> set members) (gp_sessions p)"
proof -
  let ?xs = "filter (\<lambda>s. s \<in> set members) (gp_sessions p)"
  have "distinct ?xs" using assms(1) by simp
  moreover have "length ?xs \<le> SESSION_GROUP_MEMBER_LIMIT" using length_le_members [OF calculation, of members] assms(2) by (simp add: subset_iff)
  ultimately show ?thesis by (simp add: pane_normalize_def Let_def dedup_id del: rev_filter)
qed

lemma normalized_sessions:
  assumes "distinct (ordered_session_ids l)" and "length members \<le> SESSION_GROUP_MEMBER_LIMIT"
  shows "ordered_session_ids (map_panes (pane_normalize members) l) = filter (\<lambda>s. s \<in> set members) (ordered_session_ids l)"
proof -
  have "\<forall>p \<in> set (panes l). distinct (gp_sessions p)" using assms(1) by (auto simp: ordered_session_ids_def distinct_concat_iff)
  then have "map gp_sessions (map (pane_normalize members) (panes l)) = map (filter (\<lambda>s. s \<in> set members)) (map gp_sessions (panes l))"
    using pane_normalize_sessions [OF _ assms(2)] by simp
  then show ?thesis unfolding ordered_session_ids_def panes_map_panes filter_concat by (simp only:)
qed

lemma subseq_distinct_id: "subseq xs ys \<Longrightarrow> distinct ys \<Longrightarrow> distinct xs"
  by (induction rule: list_emb.induct) (auto elim: list_emb_set)

text \<open>A layout that can be normalised: it has a pane, its panes differ and no session is in it twice.\<close>

definition layout_ok :: "session_layout \<Rightarrow> bool" where
  "layout_ok l \<longleftrightarrow> panes l \<noteq> [] \<and> distinct (pane_ids l) \<and> distinct (ordered_session_ids l)"

lemma extend_pane_simps [simp]:
  "gp_id (extend_pane missing p) = gp_id p" "gp_sessions (extend_pane missing p) = truncated (gp_sessions p @ missing)"
  by (simp_all add: extend_pane_def Let_def)

lemma pane_with_sessions [simp]: "gp_sessions (pane_with i xs) = truncated xs" "gp_id (pane_with i xs) = i"
  by (simp_all add: pane_with_def pane_new_def Let_def)

lemma placed_first:
  assumes l1: "panes l1 \<noteq> []" "distinct (ordered_session_ids l1)" "set (ordered_session_ids l1) \<subseteq> set members"
    and m: "distinct members" "length members \<le> SESSION_GROUP_MEMBER_LIMIT"
    and missing: "missing = filter (\<lambda>s. s \<notin> set (ordered_session_ids l1)) members"
    and upd: "update_pane (gp_id (hd (panes l1))) (extend_pane missing) l1 = Some l2"
  shows "distinct (ordered_session_ids l2) \<and> set (ordered_session_ids l2) = set members \<and> pane_ids l2 = pane_ids l1"
proof -
  from update_pane_panes [OF upd] obtain ps p qs where
    p: "panes l1 = ps @ p # qs" "panes l2 = ps @ extend_pane missing p # qs" "gp_id (hd (panes l1)) \<notin> gp_id ` set ps" by blast
  then have "ps = []" by (cases ps) auto
  with p have p: "panes l1 = p # qs" "panes l2 = extend_pane missing p # qs" by auto
  let ?o = "ordered_session_ids l1"
  have o1: "?o = gp_sessions p @ concat (map gp_sessions qs)" by (simp add: ordered_session_ids_def p(1))
  have d: "distinct (gp_sessions p @ missing)" "set (gp_sessions p @ missing) \<subseteq> set members"
    using l1(2,3) m(1) unfolding missing o1 by auto
  then have "length (gp_sessions p @ missing) \<le> SESSION_GROUP_MEMBER_LIMIT" using length_le_members m(2) le_trans by blast
  then have o2: "ordered_session_ids l2 = gp_sessions p @ missing @ concat (map gp_sessions qs)"
    by (simp add: ordered_session_ids_def p(2) truncated_def)
  have "distinct (ordered_session_ids l2)" using l1(2) m(1) unfolding o2 missing o1 by auto
  moreover have "set (ordered_session_ids l2) = set members" using l1(3) unfolding o2 missing o1 by auto
  moreover have "pane_ids l2 = pane_ids l1" by (simp add: pane_ids_def p)
  ultimately show ?thesis by simp
qed

lemma no_panes_left: "\<not> has_any_pane l \<Longrightarrow> ordered_session_ids l = []"
  by (cases l) (simp_all add: ordered_session_ids_def)

lemma reconcile_places:
  assumes l: "layout_ok l" and m: "distinct members" "length members \<le> SESSION_GROUP_MEMBER_LIMIT"
  shows "distinct (ordered_session_ids (reconcile_members members i l)) \<and>
    set (ordered_session_ids (reconcile_members members i l)) = set members \<and> distinct (pane_ids (reconcile_members members i l))"
proof -
  define l1 where "l1 = map_panes (pane_normalize members) l"
  define missing where "missing = filter (\<lambda>s. s \<notin> set (ordered_session_ids l1)) members"
  define l2 where "l2 = (if missing = [] then l1 else case update_pane (gp_id (hd (panes l1))) (extend_pane missing) l1 of Some l' \<Rightarrow> l' | None \<Rightarrow> l1)"
  define l3 where "l3 = prune_empty_panes_preserving (empty_pane_ids l) l2"
  have o1: "ordered_session_ids l1 = filter (\<lambda>s. s \<in> set members) (ordered_session_ids l)"
    unfolding l1_def using normalized_sessions [OF _ m(2)] l by (simp add: layout_ok_def)
  have l1: "panes l1 \<noteq> []" "distinct (ordered_session_ids l1)" "set (ordered_session_ids l1) \<subseteq> set members" "distinct (pane_ids l1)"
    using l unfolding o1 by (auto simp: layout_ok_def l1_def pane_ids_def comp_def)
  have first: "first_pane_id l1 = Some (gp_id (hd (panes l1)))" using l1(1) by (cases "panes l1") (auto simp: first_pane_id_def)
  have l2: "distinct (ordered_session_ids l2) \<and> set (ordered_session_ids l2) = set members \<and> pane_ids l2 = pane_ids l1"
  proof (cases "missing = []")
    case True
    then have "set members \<subseteq> set (ordered_session_ids l1)" unfolding missing_def by (auto simp: filter_empty_conv)
    with True l1 show ?thesis by (auto simp: l2_def)
  next
    case False
    have "gp_id (hd (panes l1)) \<in> set (pane_ids l1)" using l1(1) by (auto simp: pane_ids_def)
    then obtain l' where "update_pane (gp_id (hd (panes l1))) (extend_pane missing) l1 = Some l'" using update_pane_None_iff by fastforce
    with placed_first [OF l1(1-3) m missing_def this] False show ?thesis by (simp add: l2_def)
  qed
  have l3: "distinct (ordered_session_ids l3) \<and> set (ordered_session_ids l3) = set members \<and> distinct (pane_ids l3)"
    using l2 l1(4) pane_ids_prune [of "empty_pane_ids l" l2] unfolding l3_def by (metis ordered_prune subseq_distinct_id)
  have eq: "reconcile_members members i l = (if has_any_pane l3 then l3 else Pane (pane_with i members))"
    using m(1) unfolding reconcile_members_def Let_def l3_def l2_def missing_def l1_def [symmetric] first by (simp add: dedup_id del: rev_filter)
  show ?thesis
  proof (cases "has_any_pane l3")
    case False
    then have "members = []" using no_panes_left l3 by fastforce
    with False show ?thesis unfolding eq by (simp add: truncated_def pane_ids_def)
  qed (use l3 eq in simp)
qed

lemma bounded_text_idem: "bounded_text s n = Some t \<Longrightarrow> bounded_text t n = Some t"
  by (auto simp: bounded_text_def Let_def split: if_splits)

lemma normal_members_ok:
  "distinct (normal_members ms)" "length (normal_members ms) \<le> SESSION_GROUP_MEMBER_LIMIT"
  "s \<in> set (normal_members ms) \<Longrightarrow> bounded_text s 256 = Some s"
proof -
  show "distinct (normal_members ms)" "length (normal_members ms) \<le> SESSION_GROUP_MEMBER_LIMIT" by (simp_all add: normal_members_def)
  assume "s \<in> set (normal_members ms)"
  then have "s \<in> set (List.map_filter (\<lambda>s. bounded_text s 256) ms)" unfolding normal_members_def by (metis in_set_takeD set_remdups set_rev)
  then show "bounded_text s 256 = Some s" by (auto simp: map_filter_def bounded_text_idem)
qed

lemma normal_members_id:
  assumes "distinct ms" "length ms \<le> SESSION_GROUP_MEMBER_LIMIT" "\<forall>s \<in> set ms. bounded_text s 256 = Some s"
  shows "normal_members ms = ms"
proof -
  have "List.map_filter (\<lambda>s. bounded_text s 256) ms = ms" using assms(3) by (induction ms) (auto simp: map_filter_simps)
  with assms show ?thesis by (simp add: normal_members_def dedup_id)
qed

text \<open>The invariant of a group with members: they are distinct, bounded and each in exactly one pane.\<close>

definition group_ok :: "session_group \<Rightarrow> bool" where
  "group_ok g \<longleftrightarrow>
     sg_members g \<noteq> [] \<and> distinct (sg_members g) \<and> length (sg_members g) \<le> SESSION_GROUP_MEMBER_LIMIT \<and>
     (\<forall>s \<in> set (sg_members g). bounded_text s 256 = Some s) \<and> distinct (pane_ids (sg_layout g)) \<and>
     distinct (ordered_session_ids (sg_layout g)) \<and> set (ordered_session_ids (sg_layout g)) = set (sg_members g)"

lemma group_ok_layout: "group_ok g \<Longrightarrow> layout_ok (sg_layout g)"
  by (auto simp: group_ok_def layout_ok_def ordered_session_ids_def)

lemma group_normalize_ok:
  assumes "layout_ok (sg_layout g)" and "sg_members (group_normalize g) \<noteq> []"
  shows "group_ok (group_normalize g)"
proof -
  have o: "ordered_session_ids (normalize_sizes l) = ordered_session_ids l" "pane_ids (normalize_sizes l) = pane_ids l" for l
    by (simp_all add: ordered_session_ids_def pane_ids_def)
  from reconcile_places [OF assms(1) normal_members_ok(1,2)] assms(2) normal_members_ok show ?thesis
    by (simp add: group_ok_def group_normalize_def Let_def o)
qed

section \<open>Operations keep the sessions\<close>

lemma update_pane_ok:
  assumes l: "distinct (pane_ids l)" and u: "update_pane i f l = Some l'" and f: "\<And>p. gp_id (f p) = gp_id p"
  shows "pane_ids l' = pane_ids l \<and> (\<exists>ps p qs. panes l = ps @ p # qs \<and> panes l' = ps @ f p # qs \<and> gp_id p = i)"
  using update_pane_panes [OF u] f by (auto simp: pane_ids_def)

lemma find_pane_at: "find_pane i l = Some p \<Longrightarrow> \<exists>ps qs. panes l = ps @ p # qs \<and> gp_id p = i"
  unfolding find_pane_def by (auto simp: find_Some_iff dest!: id_take_nth_drop)

lemma unique_pane:
  assumes "distinct (pane_ids l)" "panes l = ps @ p # qs" "panes l = ps' @ p' # qs'" "gp_id p = gp_id p'"
  shows "ps' = ps \<and> p' = p \<and> qs' = qs"
proof -
  have d: "distinct (map gp_id (panes l))" using assms(1) by (simp add: pane_ids_def)
  have n: "gp_id p \<notin> set (map gp_id ps)" "gp_id p \<notin> set (map gp_id qs)" using d unfolding assms(2) by simp_all
  have "map gp_id ps @ gp_id p # map gp_id qs = map gp_id ps' @ gp_id p # map gp_id qs'"
    using arg_cong [OF trans [OF assms(2) [symmetric] assms(3)], of "map gp_id"] assms(4) by simp
  then have "map gp_id ps = map gp_id ps'" using append_Cons_eq_iff [OF n] by blast
  then have "length ps' = length ps" by (metis length_map)
  with assms(2,3) show ?thesis by simp
qed

lemma update_pane_at:
  assumes "distinct (pane_ids l)" "panes l = ps @ p # qs" "\<And>p. gp_id (f p) = gp_id p"
  shows "\<exists>l'. update_pane (gp_id p) f l = Some l' \<and> panes l' = ps @ f p # qs \<and> pane_ids l' = pane_ids l"
proof -
  have "gp_id p \<in> set (pane_ids l)" by (simp add: pane_ids_def assms(2))
  then obtain l' where l': "update_pane (gp_id p) f l = Some l'" using update_pane_None_iff by fastforce
  from update_pane_ok [OF assms(1) l' assms(3)] obtain ps' p' qs' where
    "panes l = ps' @ p' # qs'" "panes l' = ps' @ f p' # qs'" "gp_id p' = gp_id p" "pane_ids l' = pane_ids l" by blast
  with unique_pane [OF assms(1,2) this(1)] l' show ?thesis by simp
qed

lemma drop_show_simps [simp]:
  "gp_id (drop_session s p) = gp_id p" "gp_sessions (drop_session s p) = filter (\<lambda>x. x \<noteq> s) (gp_sessions p)"
  "gp_id (show_session s p) = gp_id p" "gp_sessions (show_session s p) = (if s \<in> set (gp_sessions p) then gp_sessions p else gp_sessions p @ [s])"
  by (simp_all add: drop_session_def show_session_def Let_def)

text \<open>Taking a session out of the layout.\<close>

lemma take_out:
  assumes l: "distinct (pane_ids l)" "distinct (ordered_session_ids l)" and at: "pane_containing_session s l = Some source"
  shows "\<exists>l1. update_pane source (drop_session s) l = Some l1 \<and> pane_ids l1 = pane_ids l \<and> source \<in> set (pane_ids l) \<and>
    ordered_session_ids l1 = filter (\<lambda>x. x \<noteq> s) (ordered_session_ids l) \<and> s \<in> set (ordered_session_ids l)"
proof -
  obtain p where "find (\<lambda>p. s \<in> set (gp_sessions p)) (panes l) = Some p" "source = gp_id p" using at by (auto simp: pane_containing_session_def)
  then obtain ps qs where p: "panes l = ps @ p # qs" "s \<in> set (gp_sessions p)" "source = gp_id p"
    by (auto simp: find_Some_iff dest!: id_take_nth_drop)
  from update_pane_at [OF l(1) p(1), of "drop_session s"] obtain l1 where
    l1: "update_pane source (drop_session s) l = Some l1" "panes l1 = ps @ drop_session s p # qs" "pane_ids l1 = pane_ids l" using p(3) by auto
  have "s \<notin> set (concat (map gp_sessions ps))" "s \<notin> set (concat (map gp_sessions qs))"
    using l(2) p(1,2) by (auto simp: ordered_session_ids_def)
  then have "filter (\<lambda>x. x \<noteq> s) (concat (map gp_sessions ps)) = concat (map gp_sessions ps)"
    "filter (\<lambda>x. x \<noteq> s) (concat (map gp_sessions qs)) = concat (map gp_sessions qs)" by (auto simp: filter_id_conv)
  then have "ordered_session_ids l1 = filter (\<lambda>x. x \<noteq> s) (ordered_session_ids l)"
    unfolding ordered_session_ids_def l1(2) p(1) by simp
  with l1 p show ?thesis by (auto simp: pane_ids_def ordered_session_ids_def)
qed

lemma same_sessions_ok:
  assumes "group_ok g" and "distinct (pane_ids l)" and "distinct (ordered_session_ids l)" and "set (ordered_session_ids l) = set (ordered_session_ids (sg_layout g))"
  shows "group_ok (g\<lparr>sg_layout := l\<rparr>)"
  using assms by (simp add: group_ok_def)

lemma pruned_ok:
  "distinct (pane_ids l) \<Longrightarrow> distinct (pane_ids (normalize_sizes (prune_empty_panes_preserving keep l)))"
  "ordered_session_ids (normalize_sizes (prune_empty_panes_preserving keep l)) = ordered_session_ids l"
  using subseq_distinct_id [OF pane_ids_prune] ordered_prune [of keep l] by (simp_all add: pane_ids_def ordered_session_ids_def)

lemma move_session_ok:
  assumes l: "distinct (pane_ids l)" "distinct (ordered_session_ids l)" and l': "fst (move_session_to_pane s target l) = l'"
  shows "distinct (pane_ids l') \<and> distinct (ordered_session_ids l') \<and> set (ordered_session_ids l') = set (ordered_session_ids l)"
proof (cases "pane_containing_session s l")
  case (Some source)
  show ?thesis
  proof (cases "source = target \<or> \<not> contains_pane target l")
    case False
    obtain l1 where l1: "update_pane source (drop_session s) l = Some l1" "pane_ids l1 = pane_ids l"
      "ordered_session_ids l1 = filter (\<lambda>x. x \<noteq> s) (ordered_session_ids l)" "s \<in> set (ordered_session_ids l)" using take_out [OF l Some] by blast
    have "target \<in> set (pane_ids l1)" using False l1(2) by (auto simp: contains_pane_def find_pane_def find_None_iff pane_ids_def)
    then obtain ps p qs where p: "panes l1 = ps @ p # qs" "gp_id p = target" unfolding pane_ids_def by (auto dest!: split_list)
    from update_pane_at [OF _ p(1), of "show_session s"] obtain l2 where
      l2: "update_pane target (show_session s) l1 = Some l2" "panes l2 = ps @ show_session s p # qs" "pane_ids l2 = pane_ids l1"
      using l(1) l1(2) p(2) by auto
    have out: "s \<notin> set (ordered_session_ids l1)" unfolding l1(3) by simp
    then have o2: "ordered_session_ids l2 = concat (map gp_sessions ps) @ (gp_sessions p @ [s]) @ concat (map gp_sessions qs)"
      by (simp add: ordered_session_ids_def l2(2) p(1))
    have o1: "ordered_session_ids l1 = concat (map gp_sessions ps) @ gp_sessions p @ concat (map gp_sessions qs)" by (simp add: ordered_session_ids_def p(1))
    have d1: "distinct (ordered_session_ids l1)" unfolding l1(3) using l(2) by simp
    have "distinct (ordered_session_ids l2)" "set (ordered_session_ids l2) = insert s (set (ordered_session_ids l1))"
      using d1 out unfolding o1 o2 by auto
    moreover have "l' = normalize_sizes (prune_empty_panes_preserving (empty_pane_ids l) l2)"
      using l' Some False l1(1) l2(1) by (simp add: move_session_to_pane_def Let_def)
    ultimately show ?thesis using pruned_ok [where l = l2 and keep = "empty_pane_ids l"] l2(3) l1(2-4) l(1) by auto
  qed (use Some l l' in \<open>auto simp: move_session_to_pane_def\<close>)
qed (use l l' in \<open>auto simp: move_session_to_pane_def\<close>)

lemma spliced_ok:
  assumes l: "distinct (pane_ids l)" "distinct (ordered_session_ids l)" and sp: "splice_split i k d (Pane q) pos l = Some l'"
    and q: "gp_id q \<notin> set (pane_ids l)" "distinct (gp_sessions q)" "set (gp_sessions q) \<inter> set (ordered_session_ids l) = {}"
  shows "distinct (pane_ids l') \<and> distinct (ordered_session_ids l') \<and> set (ordered_session_ids l') = set (ordered_session_ids l) \<union> set (gp_sessions q)"
proof -
  obtain ps p qs where p: "panes l = ps @ p # qs" "panes l' = ps @ (case pos of Before \<Rightarrow> [q, p] | After \<Rightarrow> [p, q]) @ qs"
  proof -
    from splice_split_panes [OF sp] obtain ps p qs where "panes l = ps @ p # qs"
      "panes l' = ps @ (case pos of Before \<Rightarrow> panes (Pane q) @ [p] | After \<Rightarrow> p # panes (Pane q)) @ qs" by blast
    then show ?thesis by (intro that [of ps p qs]) (cases pos; simp)+
  qed
  have m: "mset (pane_ids l') = add_mset (gp_id q) (mset (pane_ids l))"
    "mset (ordered_session_ids l') = mset (gp_sessions q) + mset (ordered_session_ids l)"
    unfolding pane_ids_def ordered_session_ids_def p by (cases pos; simp add: ac_simps)+
  have "distinct (gp_id q # pane_ids l)" "distinct (gp_sessions q @ ordered_session_ids l)" using l q by auto
  moreover have "mset (pane_ids l') = mset (gp_id q # pane_ids l)" "mset (ordered_session_ids l') = mset (gp_sessions q @ ordered_session_ids l)" using m by simp_all
  ultimately have "distinct (pane_ids l')" "distinct (ordered_session_ids l')" "set (ordered_session_ids l') = set (gp_sessions q @ ordered_session_ids l)"
    using mset_eq_imp_distinct_iff [of "pane_ids l'"] mset_eq_imp_distinct_iff [of "ordered_session_ids l'"] mset_eq_setD [of "ordered_session_ids l'"] by blast+
  then show ?thesis by auto
qed

lemma contains_pane_iff: "contains_pane i l \<longleftrightarrow> i \<in> set (pane_ids l)"
  by (auto simp: contains_pane_def find_pane_def find_None_iff pane_ids_def)

lemma split_session_ok:
  assumes l: "distinct (pane_ids l)" "distinct (ordered_session_ids l)" and l': "fst (split_with_session i s d new_pane new_split pos l) = l'"
  shows "distinct (pane_ids l') \<and> distinct (ordered_session_ids l') \<and> set (ordered_session_ids l') = set (ordered_session_ids l)"
proof -
  let ?q = "\<lparr>gp_id = new_pane, gp_sessions = [s], gp_active = Some s\<rparr>"
  show ?thesis
  proof (cases "(pane_count l \<ge> SESSION_GROUP_PANE_LIMIT \<or> new_pane = [] \<or> contains_pane new_pane l) \<or> find_pane i l = None \<or>
      gp_sessions (the (find_pane i l)) = [] \<or> pane_containing_session s l = None")
    case True
    then have "l' = l" using l' unfolding split_with_session_def by (auto split: option.split)
    with l show ?thesis by simp
  next
    case False
    then obtain p source where c: "\<not> (pane_count l \<ge> SESSION_GROUP_PANE_LIMIT \<or> new_pane = [] \<or> contains_pane new_pane l)"
      "find_pane i l = Some p" "gp_sessions p \<noteq> []" "pane_containing_session s l = Some source" by auto
    obtain l1 where l1: "update_pane source (drop_session s) l = Some l1" "pane_ids l1 = pane_ids l"
      "ordered_session_ids l1 = filter (\<lambda>x. x \<noteq> s) (ordered_session_ids l)" "s \<in> set (ordered_session_ids l)" using take_out [OF l c(4)] by blast
    have "i \<in> set (pane_ids l1)" using find_pane_at [OF c(2)] l1(2) by (auto simp: pane_ids_def)
    then obtain l2 where l2: "splice_split i new_split d (Pane ?q) pos l1 = Some l2" using splice_split_None_iff by fastforce
    have d1: "distinct (pane_ids l1)" "distinct (ordered_session_ids l1)" unfolding l1(2,3) using l by simp_all
    have "new_pane \<notin> set (pane_ids l1)" using c(1) l1(2) by (simp add: contains_pane_iff)
    with spliced_ok [OF d1 l2] l1(3,4) have
      ok: "distinct (pane_ids l2) \<and> distinct (ordered_session_ids l2) \<and> set (ordered_session_ids l2) = set (ordered_session_ids l)" by auto
    have "l' = normalize_sizes (prune_empty_panes_preserving (empty_pane_ids l @ (if source = i then [i] else [])) l2)"
      using l' c l1(1) l2 unfolding split_with_session_def Let_def by (simp only: if_False option.case fst_conv)
    with ok pruned_ok [where l = l2] show ?thesis by simp
  qed
qed

lemma open_pane_ok:
  assumes l: "distinct (pane_ids l)" "distinct (ordered_session_ids l)" and l': "fst (split_open_pane i d new_pane new_split pos l) = l'"
  shows "distinct (pane_ids l') \<and> distinct (ordered_session_ids l') \<and> set (ordered_session_ids l') = set (ordered_session_ids l)"
proof -
  have o: "ordered_session_ids (normalize_sizes l) = ordered_session_ids l" "pane_ids (normalize_sizes l) = pane_ids l" for l
    by (simp_all add: ordered_session_ids_def pane_ids_def)
  have "distinct (pane_ids l1) \<and> distinct (ordered_session_ids l1) \<and> set (ordered_session_ids l1) = set (ordered_session_ids l)"
    if "splice_split i new_split d (Pane (pane_new new_pane)) pos l = Some l1" "new_pane \<notin> set (pane_ids l)" for l1
    using spliced_ok [OF l that(1)] that(2) by (simp add: pane_new_def)
  note spliced = this
  show ?thesis
  proof (cases "pane_count l \<ge> SESSION_GROUP_PANE_LIMIT \<or> new_pane = [] \<or> contains_pane new_pane l \<or> \<not> contains_pane i l \<or>
      splice_split i new_split d (Pane (pane_new new_pane)) pos l = None")
    case True
    then have "l' = l" using l' unfolding split_open_pane_def by (auto split: option.split)
    with l show ?thesis by simp
  next
    case False
    then obtain l1 where l1: "splice_split i new_split d (Pane (pane_new new_pane)) pos l = Some l1" by blast
    then have "l' = normalize_sizes l1" using l' False unfolding split_open_pane_def by simp
    with spliced [OF l1] False show ?thesis by (simp add: o contains_pane_iff)
  qed
qed

text \<open>Changing how one pane stacks its sessions.\<close>

lemma restacked_ok:
  assumes l: "distinct (pane_ids l)" "distinct (ordered_session_ids l)" and p: "find_pane i l = Some p"
    and f: "\<And>p. gp_id (f p) = gp_id p" "mset (gp_sessions (f p)) = mset (gp_sessions p)" and u: "update_pane i f l = Some l'"
  shows "distinct (pane_ids l') \<and> distinct (ordered_session_ids l') \<and> set (ordered_session_ids l') = set (ordered_session_ids l)"
proof -
  obtain ps qs where at: "panes l = ps @ p # qs" "gp_id p = i" using find_pane_at [OF p] by blast
  from update_pane_at [OF l(1) at(1) f(1)] u at(2) have l': "panes l' = ps @ f p # qs" "pane_ids l' = pane_ids l" by auto
  then have "mset (ordered_session_ids l') = mset (ordered_session_ids l)" by (simp add: ordered_session_ids_def at(1) f(2))
  with l l'(2) show ?thesis by (metis mset_eq_imp_distinct_iff mset_eq_setD)
qed

lemma mset_remove_at: "i < length xs \<Longrightarrow> mset (insert_at j (xs ! i) (remove_at i xs)) = mset xs"
  unfolding insert_at_def remove_at_def
  by (metis append_take_drop_id id_take_nth_drop mset_append add_mset_add_single mset.simps(2) union_mset_add_mset_right)

lemma reorder_tab_ok:
  assumes l: "distinct (pane_ids l)" "distinct (ordered_session_ids l)" and l': "fst (reorder_pane_session i s anchor after l) = l'"
  shows "distinct (pane_ids l') \<and> distinct (ordered_session_ids l') \<and> set (ordered_session_ids l') = set (ordered_session_ids l)"
proof (cases "l' = l")
  case False
  then obtain p index at where p: "find_pane i l = Some p" "position (\<lambda>x. x = s) (gp_sessions p) = Some index"
    "update_pane i (\<lambda>p'. p'\<lparr>gp_sessions := insert_at at s (remove_at index (gp_sessions p))\<rparr>) l = Some l'"
    using l' unfolding reorder_pane_session_def Let_def by (auto split: if_splits option.splits)
  have "gp_sessions p ! index = s" "index < length (gp_sessions p)" using p(2) by (auto simp: position_Some_iff)
  with restacked_ok [OF l p(1) _ _ p(3)] mset_remove_at [of index "gp_sessions p" at] show ?thesis by simp
qed (use l in simp)

lemma focus_tab_ok:
  assumes l: "distinct (pane_ids l)" "distinct (ordered_session_ids l)" and l': "fst (focus_session i s l) = l'"
  shows "distinct (pane_ids l') \<and> distinct (ordered_session_ids l') \<and> set (ordered_session_ids l') = set (ordered_session_ids l)"
proof (cases "l' = l")
  case False
  then obtain p where p: "find_pane i l = Some p" "update_pane i (\<lambda>p. p\<lparr>gp_active := Some s\<rparr>) l = Some l'"
    using l' unfolding focus_session_def by (auto split: if_splits option.splits)
  from restacked_ok [OF l p(1) _ _ p(2)] show ?thesis by simp
qed (use l in simp)

lemma resize_panes: "resize_layout k sizes l = Some l' \<Longrightarrow> panes l' = panes l"
proof (induction k sizes l arbitrary: l' rule: resize_layout.induct)
  case (2 k sizes i d cs current)
  show ?case
  proof (cases "i = k")
    case True
    then show ?thesis using "2.prems" panes_normalize_sizes [of "Split i d cs sizes"] by (auto split: if_splits simp del: normalize_sizes.simps)
  next
    case False
    then obtain ds where ds: "update_first (resize_layout k sizes) cs = Some ds" "l' = Split i d ds current" using "2.prems" by auto
    from update_first_Some [OF ds(1)] obtain us x vs y where "cs = us @ x # vs" "ds = us @ y # vs" "resize_layout k sizes x = Some y" by blast
    with "2.IH" [OF False, of x y] ds(2) show ?thesis by simp
  qed
qed simp

lemma resize_ok: "panes (fst (resize_split k sizes l)) = panes l"
  by (auto simp: resize_split_def dest: resize_panes split: option.split)

section \<open>Presets place every member\<close>

lemma pane_id_inj [simp]: "pane_id i = pane_id j \<longleftrightarrow> i = j"
  by (auto simp: pane_id_def dest: dec_string_inj)

lemma truncated_one [simp]: "truncated [x] = [x]"
  by (simp add: truncated_def SESSION_GROUP_MEMBER_LIMIT_def)

lemma panes_numbered [simp]: "panes (numbered_pane visible i) = [pane_with (pane_id i) [visible ! i]]"
  by (simp add: numbered_pane_def)

lemma stack_sessions_simps [simp]:
  "gp_id (stack_sessions t p) = gp_id p" "gp_sessions (stack_sessions t p) = gp_sessions p @ t"
  by (simp_all add: stack_sessions_def)

lemma panes_even_split [simp]: "panes (even_split i d cs) = concat (map panes cs)"
  by (simp add: even_split_def)

lemma map_nth_upto: "n \<le> length xs \<Longrightarrow> map (\<lambda>i. xs ! i) [0..<n] = take n xs"
  by (intro nth_equalityI) auto

lemma concat_singles: "concat (map (\<lambda>i. [f i]) xs) = map f xs"
  by (induction xs) auto

lemma columns_places:
  assumes "xs \<noteq> []" "live0 = live_panes xs live0"
  shows "map gp_sessions (panes (columns_layout xs live0)) =
      map (\<lambda>i. [xs ! i]) [0..<live0 - 1] @ [drop (live0 - 1) xs] \<and>
    pane_ids (columns_layout xs live0) = map pane_id [0..<live0]"
proof -
  have pos: "0 < live0" "live0 \<le> length xs" using assms by (cases xs; simp add: live_panes_def)+
  then obtain k where k: "live0 = Suc k" by (cases live0) auto
  have lp: "live_panes xs live0 = Suc k" using assms(2) k by simp
  have tail: "xs ! k # drop (Suc k) xs = drop k xs" using pos k by (simp add: Cons_nth_drop_Suc)
  show ?thesis
  proof (cases "k = 0")
    case True
    then obtain y ys where "xs = y # ys" using assms(1) by (cases xs) auto
    with True lp k show ?thesis by (simp add: columns_layout_def Let_def pane_ids_def pane_id_def)
  next
    case False
    have nth: "take (Suc k) xs ! i = xs ! i" if "i < Suc k" for i using that by simp
    have m: "map (numbered_pane (take (Suc k) xs)) [0..<Suc k] = map (numbered_pane (take (Suc k) xs)) [0..<k] @ [numbered_pane (take (Suc k) xs) k]" by simp
    have "columns_layout xs live0 = even_split (lit ''session-group-split-columns'') Horizontal
        (map (numbered_pane (take (Suc k) xs)) [0..<k] @ [map_panes (stack_sessions (drop (Suc k) xs)) (numbered_pane (take (Suc k) xs) k)])"
      using False unfolding columns_layout_def Let_def lp m by simp
    then show ?thesis using tail k by (simp add: pane_ids_def concat_singles comp_def)
  qed
qed

lemma columns_ordered:
  assumes "xs \<noteq> []" "live0 = live_panes xs live0"
  shows "ordered_session_ids (columns_layout xs live0) = xs"
proof -
  have "live0 - 1 \<le> length xs" using assms(2) by (simp add: live_panes_def)
  then have "concat (map (\<lambda>i. [xs ! i]) [0..<live0 - 1] @ [drop (live0 - 1) xs]) = xs"
    by (simp add: concat_singles map_nth_upto)
  then show ?thesis unfolding ordered_session_ids_def columns_places [OF assms, THEN conjunct1] .
qed

lemma few_live:
  assumes "live_panes xs live0 \<le> 4"
  obtains "live_panes xs live0 \<le> 2" | a b c rest where "xs = a # b # c # rest" "live_panes xs live0 = 3"
    | a b c d rest where "xs = a # b # c # d # rest" "live_panes xs live0 = 4"
proof -
  have len: "live_panes xs live0 \<le> length xs" by (simp add: live_panes_def)
  consider "live_panes xs live0 \<le> 2" | "live_panes xs live0 = 3" | "live_panes xs live0 = 4" using assms by linarith
  then show thesis
  proof cases
    case 2
    with len have "3 \<le> length xs" by simp
    then obtain a b c rest where "xs = a # b # c # rest" by (auto simp: numeral_3_eq_3 Suc_le_length_iff)
    with 2 that(2) show thesis by simp
  next
    case 3
    with len have "4 \<le> length xs" by simp
    then obtain a b c d rest where "xs = a # b # c # d # rest" by (auto simp: eval_nat_numeral Suc_le_length_iff)
    with 3 that(3) show thesis by simp
  qed (rule that(1))
qed

lemma live_panes_idem [simp]: "live_panes xs (live_panes xs n) = live_panes xs n"
  by (auto simp: live_panes_def)

lemma small_upts:
  "[0..<2] = [0, 1]" "[0..<3] = [0, 1, 2]" "[0..<4] = [0, 1, 2, 3]" "[1..<3] = [1, 2]" "[1..<4] = [1, 2, 3]"
  "[Suc 0..<3] = [1, 2]" "[Suc 0..<4] = [1, 2, 3]"
  by (simp_all add: upt_rec)

lemma grid_places:
  assumes "xs \<noteq> []" "live_panes xs live0 \<le> 4"
  shows "ordered_session_ids (grid_layout xs live0) = xs \<and> pane_ids (grid_layout xs live0) = map pane_id [0..<live_panes xs live0]"
proof -
  from few_live [OF assms(2)] show ?thesis
  proof cases
    case 1
    then have "grid_layout xs live0 = columns_layout xs (live_panes xs live0)" by (simp add: grid_layout_def Let_def)
    then show ?thesis using columns_ordered [of xs "live_panes xs live0"] columns_places [of xs "live_panes xs live0"] assms(1) by simp
  next
    case (2 a b c rest)
    then show ?thesis by (cases rest) (simp_all add: grid_layout_def grid_row_def stack_last_def even_split_def numbered_pane_def layout_defs Let_def small_upts)
  next
    case (3 a b c d rest)
    then show ?thesis by (cases rest) (simp_all add: grid_layout_def grid_row_def stack_last_def even_split_def numbered_pane_def layout_defs Let_def small_upts)
  qed
qed

lemma lead_places:
  assumes "xs \<noteq> []" "live_panes xs live0 \<le> 4"
  shows "ordered_session_ids (lead_and_workers_layout xs live0) = xs \<and> pane_ids (lead_and_workers_layout xs live0) = map pane_id [0..<live_panes xs live0]"
proof -
  from few_live [OF assms(2)] show ?thesis
  proof cases
    case 1
    then have "lead_and_workers_layout xs live0 = columns_layout xs (live_panes xs live0)" by (simp add: lead_and_workers_layout_def Let_def)
    then show ?thesis using columns_ordered [of xs "live_panes xs live0"] columns_places [of xs "live_panes xs live0"] assms(1) by simp
  next
    case (2 a b c rest)
    then show ?thesis by (cases rest) (simp_all add: lead_and_workers_layout_def stack_last_def even_split_def numbered_pane_def layout_defs Let_def small_upts)
  next
    case (3 a b c d rest)
    then show ?thesis by (cases rest) (simp_all add: lead_and_workers_layout_def stack_last_def even_split_def numbered_pane_def layout_defs Let_def small_upts)
  qed
qed

text \<open>A preset shows the members in order, the lead first, in at most four panes.\<close>

lemma preset_places:
  assumes "xs \<noteq> []" "length xs \<le> SESSION_GROUP_MEMBER_LIMIT" "1 \<le> budget" "budget \<le> 4"
  shows "ordered_session_ids (preset_layout preset xs budget) = xs \<and>
    (\<exists>n \<in> {1..4}. pane_ids (preset_layout preset xs budget) = map pane_id [0..<n])"
proof -
  let ?b = "min (length xs) budget"
  have len: "1 \<le> length xs" using assms(1) by (cases xs) auto
  have b: "live_panes xs ?b = ?b" "1 \<le> ?b" "?b \<le> 4" using len assms(3,4) by (auto simp: live_panes_def)
  have t: "truncated xs = xs" using assms(2) by (simp add: truncated_def)
  have m: "[SESSION_GROUP_MAIN_PANE_ID] = map pane_id [0..<1]" by (simp add: pane_id_def)
  consider "preset = SinglePreset \<or> preset = TabsPreset" | "preset = ColumnsPreset" | "preset = GridPreset" | "preset = LeadAndWorkers" by (cases preset) auto
  then show ?thesis
  proof cases
    case 1
    then show ?thesis using assms(1) t m by (auto simp: preset_layout_def layout_defs intro!: bexI [of _ 1])
  next
    case 2
    then have "preset_layout preset xs budget = columns_layout xs ?b" using assms(1) by (simp add: preset_layout_def)
    then show ?thesis using columns_ordered [OF assms(1) b(1) [symmetric]] columns_places [OF assms(1) b(1) [symmetric]] b by (auto intro: bexI [of _ ?b])
  next
    case 3
    then have "preset_layout preset xs budget = grid_layout xs ?b" using assms(1) by (simp add: preset_layout_def)
    then show ?thesis using grid_places [OF assms(1), of ?b] b by (auto intro: bexI [of _ ?b])
  next
    case 4
    then have "preset_layout preset xs budget = lead_and_workers_layout xs ?b" using assms(1) by (simp add: preset_layout_def)
    then show ?thesis using lead_places [OF assms(1), of ?b] b by (auto intro: bexI [of _ ?b])
  qed
qed

lemma preset_order_ok:
  assumes "distinct ms"
  shows "distinct (preset_order lead ms) \<and> set (preset_order lead ms) = set ms \<and> length (preset_order lead ms) = length ms"
proof -
  define L where "L = (case lead of
      Some i \<Rightarrow> if i \<in> set ms then Some i else (case ms of [] \<Rightarrow> None | m # _ \<Rightarrow> Some m)
    | None \<Rightarrow> (case ms of [] \<Rightarrow> None | m # _ \<Rightarrow> Some m))"
  have o: "preset_order lead ms = (case L of Some i \<Rightarrow> [i] | None \<Rightarrow> []) @ filter (\<lambda>s. Some s \<noteq> L) ms"
    by (simp only: preset_order_def Let_def L_def)
  have "L = None \<longrightarrow> ms = []" "L = Some i \<longrightarrow> i \<in> set ms" for i by (auto simp: L_def split: option.splits if_splits list.splits)
  then have "distinct (preset_order lead ms) \<and> set (preset_order lead ms) = set ms"
    unfolding o using assms by (cases L) auto
  then show ?thesis using assms by (metis distinct_card)
qed

lemma apply_preset_ok:
  assumes "group_ok g"
  shows "group_ok (fst (apply_layout_preset preset lead preferred g))"
proof -
  define budget where "budget = min (clamp 1 SESSION_GROUP_LIVE_PANE_LIMIT (case preferred of Some n \<Rightarrow> n | None \<Rightarrow> SESSION_GROUP_LIVE_PANE_LIMIT)) SESSION_GROUP_MEMBER_LIMIT"
  define l where "l = preset_layout preset (preset_order lead (sg_members g)) budget"
  define g0 where "g0 = g\<lparr>sg_layout := l, sg_maximized := None, sg_focused := (case pane_ids l of [] \<Rightarrow> SESSION_GROUP_MAIN_PANE_ID | i # _ \<Rightarrow> i)\<rparr>"
  have b: "1 \<le> budget" "budget \<le> 4"
    by (auto simp: budget_def clamp_def SESSION_GROUP_LIVE_PANE_LIMIT_def SESSION_GROUP_MEMBER_LIMIT_def split: option.split)
  have m: "sg_members g \<noteq> []" "distinct (sg_members g)" "length (sg_members g) \<le> SESSION_GROUP_MEMBER_LIMIT" "\<forall>s \<in> set (sg_members g). bounded_text s 256 = Some s"
    using assms by (auto simp: group_ok_def)
  note o = preset_order_ok [OF m(2), of lead]
  have "preset_order lead (sg_members g) \<noteq> []" "length (preset_order lead (sg_members g)) \<le> SESSION_GROUP_MEMBER_LIMIT" using o m(1,3) by auto
  from preset_places [OF this b, of preset] obtain n where
    n: "ordered_session_ids l = preset_order lead (sg_members g)" "n \<in> {1..4}" "pane_ids l = map pane_id [0..<n]" unfolding l_def by blast
  have "distinct (pane_ids l)" unfolding n(3) by (simp add: distinct_map inj_on_def)
  moreover have "panes l \<noteq> []" using n(2,3) by (auto simp: pane_ids_def)
  ultimately have "layout_ok (sg_layout g0)" using n(1) o by (simp add: layout_ok_def g0_def)
  moreover have "sg_members (group_normalize g0) \<noteq> []" using m normal_members_id [OF m(2-4)] by (simp add: group_normalize_def Let_def g0_def)
  ultimately have "group_ok (group_normalize g0)" by (rule group_normalize_ok)
  then show ?thesis by (simp add: apply_layout_preset_def Let_def budget_def l_def g0_def)
qed

section \<open>Groups in use\<close>

datatype group_op =
    AddMembers "ustring list"
  | RemoveMembers "ustring list"
  | SetMembers "ustring list"
  | ReorderMembers "ustring list" ustring bool
  | ApplyPreset layout_preset "ustring option" "nat option"
  | SetAutomatic layout_intent nat
  | AdaptLayout nat
  | DisableAutomatic
  | FocusPane ustring
  | ToggleMaximized ustring
  | MergePanes
  | MoveSession ustring ustring
  | SplitSession ustring ustring split_direction ustring ustring split_position
  | OpenPane ustring split_direction ustring ustring split_position
  | ReorderTab ustring ustring ustring bool
  | FocusTab ustring ustring
  | ResizeSplit ustring "nat list"
  | NormalizeGroup

abbreviation on_layout :: "(session_layout \<Rightarrow> session_layout) \<Rightarrow> session_group \<Rightarrow> session_group" where
  "on_layout f g \<equiv> g\<lparr>sg_layout := f (sg_layout g)\<rparr>"

fun group_step :: "session_group \<Rightarrow> group_op \<Rightarrow> session_group" where
  "group_step g (AddMembers ids) = fst (add_members ids g)"
| "group_step g (RemoveMembers ids) = fst (remove_members ids g)"
| "group_step g (SetMembers ids) = fst (set_members ids g)"
| "group_step g (ReorderMembers ids target after) = fst (reorder_members ids target after g)"
| "group_step g (ApplyPreset preset lead n) = fst (apply_layout_preset preset lead n g)"
| "group_step g (SetAutomatic intent columns) = fst (set_automatic_layout intent columns g)"
| "group_step g (AdaptLayout columns) = fst (adapt_layout_to_width columns g)"
| "group_step g DisableAutomatic = disable_automatic_layout g"
| "group_step g (FocusPane i) = fst (focus_pane i g)"
| "group_step g (ToggleMaximized i) = fst (toggle_maximized_pane i g)"
| "group_step g MergePanes = fst (merge_panes g)"
| "group_step g (MoveSession s target) = on_layout (\<lambda>l. fst (move_session_to_pane s target l)) g"
| "group_step g (SplitSession i s d p k pos) = on_layout (\<lambda>l. fst (split_with_session i s d p k pos l)) g"
| "group_step g (OpenPane i d p k pos) = on_layout (\<lambda>l. fst (split_open_pane i d p k pos l)) g"
| "group_step g (ReorderTab i s anchor after) = on_layout (\<lambda>l. fst (reorder_pane_session i s anchor after l)) g"
| "group_step g (FocusTab i s) = on_layout (\<lambda>l. fst (focus_session i s l)) g"
| "group_step g (ResizeSplit k sizes) = on_layout (\<lambda>l. fst (resize_split k sizes l)) g"
| "group_step g NormalizeGroup = group_normalize g"

lemma on_layout_ok:
  assumes "group_ok g"
    and "\<And>l. distinct (pane_ids l) \<Longrightarrow> distinct (ordered_session_ids l) \<Longrightarrow>
      distinct (pane_ids (f l)) \<and> distinct (ordered_session_ids (f l)) \<and> set (ordered_session_ids (f l)) = set (ordered_session_ids l)"
  shows "group_ok (on_layout f g)"
  using assms(2) [of "sg_layout g"] assms(1) by (simp add: group_ok_def)

lemma renamed_ok: "group_ok g \<Longrightarrow> sg_members g' = sg_members g \<Longrightarrow> sg_layout g' = sg_layout g \<Longrightarrow> group_ok g'"
  by (simp add: group_ok_def)

lemma adapt_ok:
  assumes "group_ok g"
  shows "group_ok (fst (adapt_layout_to_width columns g))"
proof (cases "effective_automatic_layout columns g")
  case (Some e)
  let ?g1 = "fst (apply_layout_preset (li_preset e) (map_option snd (li_lead e)) (li_live e) g)"
  have g1: "group_ok ?g1" by (rule apply_preset_ok [OF assms])
  have g2: "group_ok (?g1\<lparr>sg_layout := fst (focus_session i s (sg_layout ?g1)), sg_focused := i, sg_applied := x\<rparr>)"
    "group_ok (?g1\<lparr>sg_applied := x\<rparr>)" for i s x
  proof -
    have "group_ok (on_layout (\<lambda>l. fst (focus_session i s l)) ?g1)" by (intro on_layout_ok [OF g1] focus_tab_ok [OF _ _ refl])
    then show "group_ok (?g1\<lparr>sg_layout := fst (focus_session i s (sg_layout ?g1)), sg_focused := i, sg_applied := x\<rparr>)" by (rule renamed_ok) simp_all
    from g1 show "group_ok (?g1\<lparr>sg_applied := x\<rparr>)" by (rule renamed_ok) simp_all
  qed
  show ?thesis
  proof (cases "sg_applied g = Some e")
    case False
    with Some g2 show ?thesis by (auto simp: adapt_layout_to_width_def Let_def split: option.split)
  qed (use Some assms in \<open>simp add: adapt_layout_to_width_def\<close>)
qed (use assms in \<open>simp add: adapt_layout_to_width_def\<close>)

lemma moved_members:
  assumes "distinct order"
  shows "mset (fst (move_strings_relative moving target after order)) = mset order"
proof -
  let ?rest = "filter (\<lambda>i. i \<notin> set moving) order"
  have "mset (take n ?rest @ moving @ drop n ?rest) = mset order" if "distinct moving" "set moving \<subseteq> set order" for n
  proof -
    have "mset (take n ?rest @ moving @ drop n ?rest) = mset moving + mset (take n ?rest @ drop n ?rest)" by (simp add: ac_simps del: append_take_drop_id)
    also have "\<dots> = mset moving + mset ?rest" by simp
    also have "mset moving = mset (filter (\<lambda>i. i \<in> set moving) order)"
      using that assms by (intro set_eq_iff_mset_eq_distinct [THEN iffD1]) auto
    also have "\<dots> + mset ?rest = mset order" by simp
    finally show ?thesis .
  qed
  then show ?thesis by (auto simp: move_strings_relative_def Let_def split: option.split)
qed

lemma appended_keep: "\<not> snd (append_members members ids) \<Longrightarrow> fst (append_members members ids) = members"
  by (induction members ids rule: append_members.induct) (auto split: option.splits if_splits)

lemma group_step_ok:
  assumes ok: "group_ok g" and left: "sg_members (group_step g op) \<noteq> []"
  shows "group_ok (group_step g op)"
proof -
  note l = group_ok_layout [OF ok]
  have norm: "group_ok (group_normalize (g\<lparr>sg_members := ms\<rparr>))" if "sg_members (group_normalize (g\<lparr>sg_members := ms\<rparr>)) \<noteq> []" for ms
    by (rule group_normalize_ok [OF _ that]) (simp add: l)
  show ?thesis
  proof (cases op)
    case (AddMembers ids)
    obtain ms c where a: "append_members (sg_members g) ids = (ms, c)" by fastforce
    show ?thesis
    proof (cases c)
      case True
      then show ?thesis using AddMembers left norm [of ms] by (simp add: add_members_def a)
    next
      case False
      then have "ms = sg_members g" using appended_keep [of "sg_members g" ids] a by simp
      with False ok AddMembers show ?thesis by (simp add: add_members_def a)
    qed
  next
    case (RemoveMembers ids)
    show ?thesis
    proof (cases "length (filter (\<lambda>s. s \<notin> set ids) (sg_members g)) = length (sg_members g)")
      case True
      then have "filter (\<lambda>s. s \<notin> set ids) (sg_members g) = sg_members g" by (metis filter_True length_filter_less less_irrefl)
      then show ?thesis using RemoveMembers ok by (simp add: remove_members_def)
    next
      case False
      then show ?thesis using RemoveMembers left norm by (simp add: remove_members_def)
    qed
  next
    case (SetMembers ids)
    then show ?thesis using ok left norm by (cases "sg_members g = ids") (simp_all add: set_members_def)
  next
    case (ReorderMembers ids target after)
    let ?ms = "fst (move_strings_relative ids target after (sg_members g))"
    have m: "mset ?ms = mset (sg_members g)" by (rule moved_members) (use ok in \<open>simp add: group_ok_def\<close>)
    then have eq: "distinct ?ms = distinct (sg_members g)" "set ?ms = set (sg_members g)" "length ?ms = length (sg_members g)"
      by (metis mset_eq_imp_distinct_iff, metis mset_eq_setD, metis mset_eq_length)
    then have "group_ok (g\<lparr>sg_members := ?ms\<rparr>)" using ok by (auto simp: group_ok_def)
    then show ?thesis using ok ReorderMembers by (auto simp: reorder_members_def Let_def split: prod.split)
  next
    case (ApplyPreset preset lead n)
    then show ?thesis using apply_preset_ok [OF ok] by simp
  next
    case (SetAutomatic intent columns)
    have "group_ok (g\<lparr>sg_automatic := Some intent, sg_applied := None\<rparr>)" using ok by (rule renamed_ok) simp_all
    from adapt_ok [OF this] SetAutomatic show ?thesis by (simp add: set_automatic_layout_def Let_def)
  next
    case (AdaptLayout columns)
    then show ?thesis using adapt_ok [OF ok] by simp
  next
    case MergePanes
    have "truncated (sg_members g) = sg_members g" using ok by (simp add: group_ok_def truncated_def)
    then show ?thesis using ok MergePanes by (auto simp: merge_panes_def Let_def group_ok_def collapse_to_single_pane_def pane_ids_def)
  next
    case NormalizeGroup
    then show ?thesis using left group_normalize_ok [OF l] by simp
  next
    case (ResizeSplit k sizes)
    have "group_ok (on_layout (\<lambda>l. fst (resize_split k sizes l)) g)" by (rule on_layout_ok [OF ok]) (simp add: layout_defs resize_ok)
    with ResizeSplit show ?thesis by simp
  next
    case (MoveSession s target)
    then show ?thesis by (simp only: group_step.simps) (intro on_layout_ok [OF ok] move_session_ok [OF _ _ refl])
  next
    case (SplitSession i s d p k pos)
    then show ?thesis by (simp only: group_step.simps) (intro on_layout_ok [OF ok] split_session_ok [OF _ _ refl])
  next
    case (OpenPane i d p k pos)
    then show ?thesis by (simp only: group_step.simps) (intro on_layout_ok [OF ok] open_pane_ok [OF _ _ refl])
  next
    case (ReorderTab i s anchor after)
    then show ?thesis by (simp only: group_step.simps) (intro on_layout_ok [OF ok] reorder_tab_ok [OF _ _ refl])
  next
    case (FocusTab i s)
    then show ?thesis by (simp only: group_step.simps) (intro on_layout_ok [OF ok] focus_tab_ok [OF _ _ refl])
  qed (use ok in \<open>auto simp: disable_automatic_layout_def focus_pane_def toggle_maximized_pane_def group_ok_def\<close>)
qed

text \<open>A group starts with the members it is given; a step leaves at least one.\<close>

definition group_start :: "session_group \<Rightarrow> bool" where
  "group_start g \<longleftrightarrow> (\<exists>name project workspace members. g = group_new name project workspace members \<and> sg_members g \<noteq> [])"

definition group_steps :: "session_group \<Rightarrow> session_group \<Rightarrow> bool" where
  "group_steps g g' \<longleftrightarrow> (\<exists>op. g' = group_step g op) \<and> sg_members g' \<noteq> []"

lemma group_start_ok: "group_start g \<Longrightarrow> group_ok g"
  unfolding group_start_def group_new_def
  by (auto intro!: group_normalize_ok simp: layout_ok_def layout_default_def pane_new_def pane_ids_def)

interpretation group_machine: invariant_machine group_start group_steps group_ok
  by unfold_locales (auto intro: group_start_ok group_step_ok simp: group_steps_def)

text \<open>C22: However a session group is used (members added, removed, replaced and reordered, presets and
  automatic layouts applied, sessions moved between panes, panes split, opened, merged and resized), as long
  as it keeps a member, every member is shown in exactly one pane, nothing else is shown, the panes differ
  and members stay distinct and within their limit.\<close>
theorem members_stay_placed:
  assumes "reach group_start group_steps g"
  shows "distinct (pane_ids (sg_layout g)) \<and> distinct (sg_members g) \<and> length (sg_members g) \<le> 64 \<and>
    mset (ordered_session_ids (sg_layout g)) = mset (sg_members g)"
proof -
  have "group_ok g" using assms by (rule group_machine.reach_inv)
  then show ?thesis
    using set_eq_iff_mset_eq_distinct [of "ordered_session_ids (sg_layout g)" "sg_members g"] by (auto simp: group_ok_def SESSION_GROUP_MEMBER_LIMIT_def)
qed

definition sample_group_new :: session_group where
  "sample_group_new = group_new (lit ''g'') (lit ''p'') (lit ''w'') [lit ''a'', lit ''b'']"

lemma sample_members: "sg_members sample_group_new = [lit ''a'', lit ''b'']"
  by (simp add: sample_group_new_def group_new_def group_normalize_def Let_def normal_members_def bounded_text_def map_filter_simps
      trim_def trim_where_def is_whitespace_def SESSION_GROUP_MEMBER_LIMIT_def)

theorem members_stay_placed_witness:
  "mset (ordered_session_ids (sg_layout (group_step sample_group_new (ApplyPreset GridPreset None None)))) = {#lit ''a'', lit ''b''#}"
proof -
  let ?g = "group_step sample_group_new (ApplyPreset GridPreset None None)"
  have start: "group_start sample_group_new" unfolding group_start_def using sample_members sample_group_new_def by force
  have "group_ok sample_group_new" by (rule group_start_ok [OF start])
  have m: "sg_members ?g = sg_members sample_group_new"
    using \<open>group_ok sample_group_new\<close> by (simp add: apply_layout_preset_def group_normalize_def Let_def normal_members_id group_ok_def)
  have "sg_members ?g \<noteq> []" unfolding m sample_members by (rule list.distinct(2))
  then have step: "group_steps sample_group_new ?g" unfolding group_steps_def by blast
  have "reach group_start group_steps sample_group_new" by (rule reach_init) (rule start)
  then have "reach group_start group_steps ?g" using step by (rule reach_step)
  from members_stay_placed [OF this] m sample_members show ?thesis by simp
qed

text \<open>The focused pane is one of the layout.\<close>

lemma normalize_focus:
  "panes (sg_layout (group_normalize g)) \<noteq> [] \<Longrightarrow> sg_focused (group_normalize g) \<in> set (pane_ids (sg_layout (group_normalize g)))"
proof -
  have pick: "ids \<noteq> [] \<Longrightarrow> (if f \<in> set ids then f else case ids of [] \<Rightarrow> d | i # _ \<Rightarrow> i) \<in> set ids" for f d and ids :: "ustring list"
    by (cases ids) auto
  assume "panes (sg_layout (group_normalize g)) \<noteq> []"
  then have "pane_ids (sg_layout (group_normalize g)) \<noteq> []" by (simp add: pane_ids_def)
  moreover define ids where "ids = pane_ids (sg_layout (group_normalize g))"
  moreover have "sg_focused (group_normalize g) = (if sg_focused g \<in> set ids then sg_focused g else case ids of [] \<Rightarrow> SESSION_GROUP_MAIN_PANE_ID | i # _ \<Rightarrow> i)"
    unfolding ids_def by (simp add: group_normalize_def Let_def split del: if_split cong: if_cong)
  ultimately show ?thesis using pick by metis
qed

section \<open>Where a layout loses or repeats a session\<close>

lemmas layout_eval = group_normalize_def reconcile_members_def normal_members_def bounded_text_def or_text_def map_filter_simps trim_def trim_where_def
  is_whitespace_def SESSION_GROUP_MEMBER_LIMIT_def empty_pane_ids_def pane_normalize_def first_session_def layout_defs first_pane_id_def Let_def
  extend_pane_def truncated_def

definition shown :: "string \<Rightarrow> string list \<Rightarrow> session_layout" where
  "shown i ss = Pane \<lparr>gp_id = lit i, gp_sessions = map lit ss, gp_active = None\<rparr>"

definition shown_group :: "string list \<Rightarrow> session_layout \<Rightarrow> session_group" where
  "shown_group members l = \<lparr>sg_name = lit ''g'', sg_project_id = lit ''p'', sg_workspace_id = lit ''w'', sg_members = map lit members,
     sg_layout = l, sg_focused = [], sg_maximized = None, sg_auto_continue = None, sg_pinned = False, sg_automatic = None, sg_applied = None\<rparr>"

text \<open>A session that a stored layout shows in two panes stays in both.\<close>

lemma repeated_session_stays:
  "ordered_session_ids (sg_layout (group_normalize (shown_group [''a''] (Split [] Horizontal [shown ''1'' [''a''], shown ''2'' [''a'']] [500, 500])))) =
     [lit ''a'', lit ''a'']"
  by (simp add: layout_eval shown_def shown_group_def)

text \<open>An empty pane the user opened is kept beside the root and dropped one split further down.\<close>

lemma opened_pane_kept:
  "pane_ids (sg_layout (group_normalize (shown_group [''a''] (Split [] Horizontal [shown ''1'' [''a''], shown ''2'' []] [500, 500])))) = [lit ''1'', lit ''2'']"
  by (simp add: layout_eval shown_def shown_group_def)

lemma nested_opened_pane_dropped:
  "pane_ids (sg_layout (group_normalize (shown_group [''a'', ''b'']
     (Split [] Horizontal [shown ''1'' [''a''], Split [] Vertical [shown ''2'' [''b''], shown ''3'' []] [500, 500]] [500, 500])))) = [lit ''1'', lit ''2'']"
  by (simp add: layout_eval shown_def shown_group_def)

text \<open>When the sessions of two nested splits leave, no pane is left, and members that join later are in none.\<close>

lemma nested_splits_emptied:
  "panes (sg_layout (group_normalize (shown_group []
     (Split [] Horizontal [Split [] Vertical [shown ''1'' [''a''], shown ''2'' [''b'']] [], Split [] Vertical [shown ''3'' [''c''], shown ''4'' [''d'']] []] [])))) = []"
  by (simp add: layout_eval shown_def shown_group_def)

lemma joined_member_not_shown:
  "ordered_session_ids (sg_layout (group_normalize (shown_group [''e''] (Split [] Horizontal [Split [] Vertical [] [], Split [] Vertical [] []] [])))) = []"
  by (simp add: layout_eval shown_def shown_group_def)

section \<open>Names and order of groups\<close>

text \<open>\<open>lower\<close> is \<open>str::to_lowercase\<close>.\<close>

function next_group_name :: "(ustring \<Rightarrow> ustring) \<Rightarrow> ustring list \<Rightarrow> ustring \<Rightarrow> nat \<Rightarrow> ustring" where
  "next_group_name lower taken stem ordinal =
     (let candidate = stem @ lit '' '' @ dec_string ordinal in
      if lower candidate \<notin> set taken then candidate
      else if ordinal + 1 > SESSION_GROUP_LIMIT then stem @ lit '' '' @ dec_string (ordinal + 1)
      else next_group_name lower taken stem (ordinal + 1))"
  by pat_completeness auto

termination
  by (relation "measure (\<lambda>(lower, taken, stem, ordinal). SESSION_GROUP_LIMIT - ordinal)") auto

declare next_group_name.simps [simp del]

definition next_available_group_name :: "(ustring \<Rightarrow> ustring) \<Rightarrow> ustring list \<Rightarrow> ustring \<Rightarrow> ustring" where
  "next_available_group_name lower existing stem = next_group_name lower (map lower existing) stem 1"

text \<open>A name is free whenever one of the ordinals up to the limit is.\<close>

lemma next_group_name_free:
  assumes "ordinal \<le> n" "n \<le> SESSION_GROUP_LIMIT" "lower (stem @ lit '' '' @ dec_string n) \<notin> set taken"
  shows "lower (next_group_name lower taken stem ordinal) \<notin> set taken"
  using assms
proof (induction lower taken stem ordinal rule: next_group_name.induct)
  case (1 lower taken stem ordinal)
  show ?case
  proof (cases "lower (stem @ lit '' '' @ dec_string ordinal) \<in> set taken")
    case True
    then have "ordinal < n" using "1.prems" by (cases "ordinal = n") auto
    with True 1 show ?thesis by (subst next_group_name.simps) (simp add: Let_def)
  next
    case False
    then show ?thesis by (subst next_group_name.simps) (simp add: Let_def)
  qed
qed

definition order_rank :: "ustring list \<Rightarrow> ustring \<Rightarrow> nat \<times> nat" where
  "order_rank order i = (case map_of (rev (zip order [0..<length order])) i of Some index \<Rightarrow> (0, index) | None \<Rightarrow> (1, 0))"

definition ordered_groups :: "ustring list \<Rightarrow> (ustring \<times> session_group) list \<Rightarrow> (ustring \<times> session_group) list" where
  "ordered_groups order groups = sort_key (\<lambda>(i, g). (\<not> sg_pinned g, order_rank order i, sg_name g, i)) groups"

interpretation ordered_groups: permuting "ordered_groups order" for order
  by unfold_locales (simp add: ordered_groups_def)

lemma pinned_first:
  "sorted_wrt (\<lambda>x y. sg_pinned (snd y) \<longrightarrow> sg_pinned (snd x)) (ordered_groups order groups)"
proof -
  have "sorted (map (\<lambda>(i, g). (\<not> sg_pinned g, order_rank order i, sg_name g, i)) (ordered_groups order groups))"
    by (simp add: ordered_groups_def)
  then show ?thesis unfolding sorted_map by (rule sorted_wrt_mono_rel [rotated]) (auto simp: less_eq_prod_def)
qed

end
