(* ===== verification/Agent_Schedule.thy ===== *)
theory Agent_Schedule
  imports Interfaces
begin

text \<open>
  When a scheduled task runs next: the pure part of \<open>crates/agent/src/scheduler.rs\<close> on the
  schedules of \<open>crates/core/src/scheduled_task.rs\<close>. Times are milliseconds in an i64, kept as
  \<open>int\<close>: \<open>saturating_add\<close> is \<open>sat_add_i64\<close>, and the plain operators of the daily arithmetic wrap
  (\<open>wrap_i64\<close>), as they do in a release build. The interval loop is a \<open>partial_function (option)\<close>:
  None means that it does not return.
\<close>

section \<open>Schedules\<close>

record interval_schedule =
  iv_every_seconds :: nat
  iv_start_at_ms :: int
  iv_end_at_ms :: "int option"

record daily_schedule =
  dy_local_time_minutes :: nat
  dy_timezone :: ustring
  dy_start_at_ms :: int
  dy_end_at_ms :: "int option"

datatype task_schedule =
    OneShot int
  | Interval interval_schedule
  | Daily daily_schedule

datatype task_status = TaskActive | TaskPaused | TaskDeleted

datatype error_category =
    CatValidation | CatCapability | CatPermission | CatProvider | CatProcess | CatStorage | CatRemote | CatConflict

record agent_error =
  ae_category :: error_category
  ae_code :: ustring
  ae_message :: ustring
  ae_diagnostics :: "(ustring \<times> ustring) list"

definition error_new :: "error_category \<Rightarrow> ustring \<Rightarrow> ustring \<Rightarrow> agent_error" where
  "error_new category code message =
     \<lparr>ae_category = category, ae_code = code, ae_message = message, ae_diagnostics = []\<rparr>"

abbreviation validation_error :: "ustring \<Rightarrow> ustring \<Rightarrow> agent_error" where
  "validation_error \<equiv> error_new CatValidation"

definition with_diagnostic :: "agent_error \<Rightarrow> ustring \<Rightarrow> ustring \<Rightarrow> agent_error" where
  "with_diagnostic e key v = e\<lparr>ae_diagnostics := ae_diagnostics e @ [(key, v)]\<rparr>"

section \<open>Intervals\<close>

definition past_end :: "int option \<Rightarrow> int \<Rightarrow> bool" where
  "past_end end_at candidate \<longleftrightarrow> (case end_at of None \<Rightarrow> False | Some e \<Rightarrow> candidate > e)"

partial_function (option) interval_loop :: "int \<Rightarrow> int option \<Rightarrow> int \<Rightarrow> int \<Rightarrow> int option option" where
  "interval_loop step end_at completed candidate =
     (if candidate \<le> completed
      then let next_candidate = sat_add_i64 candidate step in
           if past_end end_at next_candidate then Some None
           else interval_loop step end_at completed next_candidate
      else Some (if past_end end_at candidate then None else Some candidate))"

declare interval_loop.simps [code]

definition interval_first :: "interval_schedule \<Rightarrow> int \<Rightarrow> int" where
  "interval_first s due =
     (let candidate = sat_add_i64 due (int (iv_every_seconds s) * 1000) in
      if candidate < iv_start_at_ms s then iv_start_at_ms s else candidate)"

definition next_interval_run_after ::
    "interval_schedule \<Rightarrow> int \<Rightarrow> int \<Rightarrow> (agent_error + int option) option" where
  "next_interval_run_after s due completed =
     (if iv_every_seconds s = 0
      then Some (Inl (validation_error (lit ''scheduler/invalid_interval_schedule'')
             (lit ''interval schedule everySeconds must be greater than zero'')))
      else map_option Inr
             (interval_loop (int (iv_every_seconds s) * 1000) (iv_end_at_ms s) completed (interval_first s due)))"

section \<open>Days\<close>

definition wrap_i64 :: "int \<Rightarrow> int" where
  "wrap_i64 x = (x + 9223372036854775808) mod 18446744073709551616 - 9223372036854775808"

definition MINUTE_MS :: int where
  "MINUTE_MS = 60000"

definition SCHEDULE_DAY_MS :: int where
  "SCHEDULE_DAY_MS = 86400000"

definition next_daily_candidate :: "int \<Rightarrow> int \<Rightarrow> int \<Rightarrow> int" where
  "next_daily_candidate after_ms local_time_minutes offset_minutes =
     (let offset_ms = wrap_i64 (offset_minutes * MINUTE_MS);
          local_after_ms = sat_add_i64 after_ms offset_ms;
          local_day_start = wrap_i64 (local_after_ms div SCHEDULE_DAY_MS * SCHEDULE_DAY_MS);
          local_candidate = wrap_i64 (local_day_start + wrap_i64 (local_time_minutes * MINUTE_MS));
          local_candidate =
            (if local_candidate \<le> local_after_ms then wrap_i64 (local_candidate + SCHEDULE_DAY_MS) else local_candidate)
      in wrap_i64 (local_candidate - offset_ms))"

definition timezone_offset_minutes :: "ustring \<Rightarrow> int option" where
  "timezone_offset_minutes timezone =
     (if timezone \<in> {lit ''UTC'', lit ''Etc/UTC'', lit ''Z''} then Some 0
      else if timezone = lit ''Asia/Shanghai'' then Some 480
      else None)"

definition next_daily_run_after :: "daily_schedule \<Rightarrow> int \<Rightarrow> agent_error + int option" where
  "next_daily_run_after s completed =
     (if dy_local_time_minutes s \<ge> 1440
      then Inl (validation_error (lit ''scheduler/invalid_daily_schedule'')
             (lit ''daily schedule localTimeMinutes must be less than 1440''))
      else case timezone_offset_minutes (dy_timezone s) of
        None \<Rightarrow> Inl (with_diagnostic
             (validation_error (lit ''scheduler/unsupported_timezone'')
               (lit ''daily scheduled task timezone is not supported by the local scheduler''))
             (lit ''timezone'') (dy_timezone s))
      | Some offset \<Rightarrow>
          let candidate = next_daily_candidate completed (int (dy_local_time_minutes s)) offset;
              candidate =
                (if candidate < dy_start_at_ms s
                 then next_daily_candidate (sat_sub_i64 (dy_start_at_ms s) 1) (int (dy_local_time_minutes s)) offset
                 else candidate)
          in Inr (if past_end (dy_end_at_ms s) candidate then None else Some candidate))"

section \<open>The task after a run\<close>

fun next_run_after :: "task_schedule \<Rightarrow> int \<Rightarrow> int \<Rightarrow> (agent_error + int option) option" where
  "next_run_after (OneShot _) due completed = Some (Inr None)"
| "next_run_after (Interval s) due completed = next_interval_run_after s due completed"
| "next_run_after (Daily s) due completed = Some (next_daily_run_after s completed)"

text \<open>The first argument is the schedule of the task, None when the task is gone.\<close>

definition next_task_state_after_run ::
    "task_schedule option \<Rightarrow> int \<Rightarrow> int
     \<Rightarrow> (int option \<times> task_status \<times> (ustring \<times> ustring) list) option" where
  "next_task_state_after_run task due completed =
     (case task of
        None \<Rightarrow> Some (None, TaskPaused, [])
      | Some schedule \<Rightarrow>
          map_option (\<lambda>r. case r of
              Inr next_run \<Rightarrow> (next_run, if next_run \<noteq> None then TaskActive else TaskPaused, [])
            | Inl err \<Rightarrow> (None, TaskPaused,
                [(lit ''scheduleErrorCode'', ae_code err), (lit ''scheduleErrorMessage'', ae_message err)]))
            (next_run_after schedule due completed))"

section \<open>The interval loop returns the first run after the completed one\<close>

text \<open>The runs of the grid \<open>first, first + step, ...\<close>, cut at the largest i64, and the first of
  them after \<open>completed\<close>.\<close>

definition grid_next :: "int \<Rightarrow> int \<Rightarrow> int \<Rightarrow> int" where
  "grid_next step completed first =
     (if completed < first then first
      else min I64_MAX (first + ((completed - first) div step + 1) * step))"

lemma sat_add_i64_grid:
  assumes "0 < step" "I64_MIN \<le> c"
  shows "sat_add_i64 c step = min I64_MAX (c + step)"
  using assms by (simp add: sat_add_i64_def clamp_i64_def I64_MAX_def I64_MIN_def)

lemma grid_next_step:
  assumes "0 < step" "c \<le> completed" "completed < I64_MAX"
  shows "grid_next step completed (min I64_MAX (c + step)) = grid_next step completed c"
proof (cases "c + step \<le> completed")
  case True
  have "(completed - c) div step = (completed - (c + step)) div step + 1"
  proof -
    have "completed - c = (completed - (c + step)) + 1 * step" by simp
    then show ?thesis using assms(1) by (metis div_mult_self1 less_irrefl add.commute)
  qed
  with True assms show ?thesis
    by (simp add: grid_next_def algebra_simps)
next
  case False
  then have "(completed - c) div step = 0" using assms by (simp add: div_pos_pos_trivial)
  with False assms show ?thesis by (simp add: grid_next_def)
qed

lemma grid_next_ge: "0 < step \<Longrightarrow> c \<le> I64_MAX \<Longrightarrow> c \<le> grid_next step completed c"
  by (auto simp: grid_next_def pos_imp_zdiv_nonneg_iff)

lemma past_end_mono: "past_end e c \<Longrightarrow> c \<le> d \<Longrightarrow> past_end e d"
  by (auto simp: past_end_def split: option.splits)

lemma interval_loop_returns:
  assumes "0 < step" "I64_MIN \<le> c" "c \<le> I64_MAX" "completed < I64_MAX"
  shows "interval_loop step e completed c =
    Some (let n = grid_next step completed c in if past_end e n then None else Some n)"
  using assms(2,3)
proof (induction "nat (completed + 1 - c)" arbitrary: c rule: less_induct)
  case less
  let ?d = "min I64_MAX (c + step)"
  show ?case
  proof (cases "c \<le> completed")
    case False
    then show ?thesis by (subst interval_loop.simps) (simp add: grid_next_def)
  next
    case True
    have sat: "sat_add_i64 c step = ?d" using assms less.prems by (simp add: sat_add_i64_grid)
    have gt: "c < ?d" "I64_MIN \<le> ?d" using True assms less.prems by auto
    have same: "grid_next step completed ?d = grid_next step completed c"
      using True assms by (simp add: grid_next_step)
    show ?thesis
    proof (cases "past_end e ?d")
      case past: True
      have "past_end e (grid_next step completed c)"
        using past_end_mono [OF past] grid_next_ge [OF assms(1), of ?d completed] same by simp
      with past True sat show ?thesis by (subst interval_loop.simps) (simp add: Let_def)
    next
      case False
      have "interval_loop step e completed ?d =
          Some (let n = grid_next step completed ?d in if past_end e n then None else Some n)"
        using less.hyps [of ?d] gt True by simp
      with False True sat same show ?thesis by (subst interval_loop.simps) (simp add: Let_def)
    qed
  qed
qed

lemma interval_loop_never_returns:
  assumes "e = None \<or> e = Some I64_MAX" "c \<le> I64_MAX"
  shows "interval_loop step e I64_MAX c = None"
proof (rule ccontr)
  let ?P = "\<lambda>step e completed c r. \<not> (completed = I64_MAX \<and> (e = None \<or> e = Some I64_MAX) \<and> c \<le> I64_MAX)"
  assume "interval_loop step e I64_MAX c \<noteq> None"
  then obtain r where r: "interval_loop step e I64_MAX c = Some r" by blast
  have "?P step e I64_MAX c r"
  proof (rule interval_loop.raw_induct [OF _ r, where P = ?P], rule notI, elim conjE)
    fix loop step e completed c r
    assume IH: "\<And>step e completed c r. loop step e completed c = Some r \<Longrightarrow> ?P step e completed c r"
      and body: "(if c \<le> completed
        then let next_candidate = sat_add_i64 c step in
             if past_end e next_candidate then Some None else loop step e completed next_candidate
        else Some (if past_end e c then None else Some c)) = Some r"
      and now: "completed = I64_MAX" and end_at: "e = None \<or> e = Some I64_MAX" and c: "c \<le> I64_MAX"
    have "\<not> past_end e (sat_add_i64 c step)"
      using end_at clamp_i64_le_max [of "c + step"] unfolding past_end_def sat_add_i64_def
      by (metis not_less option.simps(4,5))
    with body now c have "loop step e completed (sat_add_i64 c step) = Some r"
      by (simp add: Let_def)
    from IH [OF this] now end_at show False by (simp add: sat_add_i64_def)
  qed
  with assms show False by simp
qed

definition interval_time :: "interval_schedule \<Rightarrow> int \<Rightarrow> int \<Rightarrow> bool" where
  "interval_time s due t \<longleftrightarrow>
     (\<exists>k::nat. t = min I64_MAX (interval_first s due + int k * (int (iv_every_seconds s) * 1000)))"

lemma grid_next_point:
  assumes "0 < step" "c \<le> I64_MAX"
  shows "\<exists>k::nat. grid_next step completed c = min I64_MAX (c + int k * step)"
proof (cases "completed < c")
  case True
  then show ?thesis using assms by (intro exI [of _ 0]) (simp add: grid_next_def)
next
  case False
  then have "0 \<le> (completed - c) div step" using assms by (simp add: pos_imp_zdiv_nonneg_iff)
  with False show ?thesis
    by (intro exI [of _ "nat ((completed - c) div step + 1)"]) (simp add: grid_next_def)
qed

lemma grid_next_after:
  assumes "0 < step" "completed < I64_MAX"
  shows "completed < grid_next step completed c"
proof (cases "completed < c")
  case False
  have "(completed - c) div step * step + (completed - c) mod step = completed - c"
    by (rule div_mult_mod_eq)
  moreover have "(completed - c) mod step < step" using assms by simp
  ultimately have "completed < c + ((completed - c) div step + 1) * step"
    unfolding distrib_right by linarith
  with False assms show ?thesis by (simp add: grid_next_def)
qed (simp add: grid_next_def)

lemma grid_next_least:
  assumes "0 < step" "completed < min I64_MAX (c + int k * step)" "c \<le> I64_MAX"
  shows "grid_next step completed c \<le> min I64_MAX (c + int k * step)"
proof (cases "completed < c")
  case True
  then show ?thesis using assms by (simp add: grid_next_def)
next
  case False
  have "completed - c < int k * step" using assms(2) by simp
  moreover have "(completed - c) div step * step + (completed - c) mod step = completed - c"
    by (rule div_mult_mod_eq)
  moreover have "0 \<le> (completed - c) mod step" using assms(1) by simp
  ultimately have "(completed - c) div step * step < int k * step" by linarith
  then have "(completed - c) div step < int k" using assms(1) by simp
  then have "((completed - c) div step + 1) * step \<le> int k * step"
    using assms(1) by (intro mult_right_mono) auto
  with False show ?thesis by (simp add: grid_next_def min_def)
qed

text \<open>The result of both kinds of schedule: the least admissible time, None when it is past the end.\<close>

definition earliest :: "(int \<Rightarrow> bool) \<Rightarrow> int option \<Rightarrow> int option \<Rightarrow> bool" where
  "earliest due end_at r \<longleftrightarrow>
     (\<exists>t. due t \<and> (\<forall>u. due u \<longrightarrow> t \<le> u) \<and> r = (if past_end end_at t then None else Some t))"

lemma earliest_None: "earliest due end_at None \<Longrightarrow> due u \<Longrightarrow> past_end end_at u"
  by (auto simp: earliest_def past_end_def split: if_splits option.splits)

lemma earliest_unique: "earliest due end_at r \<Longrightarrow> earliest due end_at r' \<Longrightarrow> r = r'"
  unfolding earliest_def by (metis order_antisym)

lemma interval_first_bounds:
  "iv_start_at_ms s \<le> I64_MAX \<Longrightarrow> interval_first s due \<le> I64_MAX"
  "I64_MIN \<le> interval_first s due"
  by (auto simp: interval_first_def sat_add_i64_def Let_def intro: order_trans [OF clamp_i64_ge_min less_imp_le])

section \<open>The daily arithmetic returns the next local time of day\<close>

definition daily_time :: "int \<Rightarrow> int \<Rightarrow> int \<Rightarrow> bool" where
  "daily_time minutes offset t \<longleftrightarrow> (t + offset * MINUTE_MS) mod SCHEDULE_DAY_MS = minutes * MINUTE_MS"

lemma wrap_i64_id: "I64_MIN \<le> x \<Longrightarrow> x \<le> I64_MAX \<Longrightarrow> wrap_i64 x = x"
  by (simp add: wrap_i64_def I64_MIN_def I64_MAX_def mod_pos_pos_trivial)

text \<open>Times far enough from the limits of i64 that no addition of a day wraps.\<close>

definition calendar_range :: "int \<Rightarrow> bool" where
  "calendar_range t \<longleftrightarrow> \<bar>t\<bar> \<le> 4611686018427387904"

lemma next_daily_candidate_eq:
  assumes "calendar_range t" "0 \<le> m" "m < 1440" "\<bar>off\<bar> \<le> 1440"
  shows "next_daily_candidate t m off =
    (let l = t + off * MINUTE_MS; c = l - l mod SCHEDULE_DAY_MS + m * MINUTE_MS
     in (if c \<le> l then c + SCHEDULE_DAY_MS else c) - off * MINUTE_MS)"
proof -
  let ?l = "t + off * MINUTE_MS"
  have r: "0 \<le> ?l mod SCHEDULE_DAY_MS" "?l mod SCHEDULE_DAY_MS < SCHEDULE_DAY_MS" by (simp_all add: SCHEDULE_DAY_MS_def)
  have t: "- 4611686018427387904 \<le> t" "t \<le> 4611686018427387904"
    using assms(1) by (auto simp: calendar_range_def)
  have o: "- 86400000 \<le> off * MINUTE_MS" "off * MINUTE_MS \<le> 86400000"
    using assms(4) by (auto simp: MINUTE_MS_def)
  have m: "0 \<le> m * MINUTE_MS" "m * MINUTE_MS < 86400000" using assms(2,3) by (auto simp: MINUTE_MS_def)
  have d: "?l div SCHEDULE_DAY_MS * SCHEDULE_DAY_MS = ?l - ?l mod SCHEDULE_DAY_MS" by (simp add: minus_mod_eq_div_mult)
  have w: "wrap_i64 x = x" if "\<bar>x\<bar> \<le> 5000000000000000000" for x
    using that by (intro wrap_i64_id) (auto simp: I64_MIN_def I64_MAX_def)
  have s: "sat_add_i64 t (off * MINUTE_MS) = ?l"
    using t o by (simp add: sat_add_i64_def clamp_i64_def I64_MIN_def I64_MAX_def)
  have w1: "wrap_i64 (off * MINUTE_MS) = off * MINUTE_MS" "wrap_i64 (m * MINUTE_MS) = m * MINUTE_MS"
    using o m by (auto intro!: w)
  have w2: "wrap_i64 (?l - ?l mod SCHEDULE_DAY_MS) = ?l - ?l mod SCHEDULE_DAY_MS"
    "wrap_i64 (?l - ?l mod SCHEDULE_DAY_MS + m * MINUTE_MS) = ?l - ?l mod SCHEDULE_DAY_MS + m * MINUTE_MS"
    "wrap_i64 (?l - ?l mod SCHEDULE_DAY_MS + m * MINUTE_MS + SCHEDULE_DAY_MS) = ?l - ?l mod SCHEDULE_DAY_MS + m * MINUTE_MS + SCHEDULE_DAY_MS"
    using t o m r by (auto intro!: w simp: SCHEDULE_DAY_MS_def)
  have w3: "wrap_i64 (?l - ?l mod SCHEDULE_DAY_MS + m * MINUTE_MS - off * MINUTE_MS) = ?l - ?l mod SCHEDULE_DAY_MS + m * MINUTE_MS - off * MINUTE_MS"
    "wrap_i64 (?l - ?l mod SCHEDULE_DAY_MS + m * MINUTE_MS + SCHEDULE_DAY_MS - off * MINUTE_MS) = ?l - ?l mod SCHEDULE_DAY_MS + m * MINUTE_MS + SCHEDULE_DAY_MS - off * MINUTE_MS"
    using t o m r by (auto intro!: w simp: SCHEDULE_DAY_MS_def)
  show ?thesis
    by (simp only: next_daily_candidate_def Let_def w1 s d w2 
        if_distrib [of "\<lambda>x. x - off * MINUTE_MS"] if_distrib [of wrap_i64] w3)
qed

lemma next_daily_candidate_least:
  assumes "calendar_range t" "0 \<le> m" "m < 1440" "\<bar>off\<bar> \<le> 1440"
  shows "t < next_daily_candidate t m off" (is ?after)
    and "daily_time m off (next_daily_candidate t m off)" (is ?on_time)
    and "\<And>u. t < u \<Longrightarrow> daily_time m off u \<Longrightarrow> next_daily_candidate t m off \<le> u"
proof -
  let ?n = "next_daily_candidate t m off" and ?l = "t + off * MINUTE_MS"
  have r: "0 \<le> ?l mod SCHEDULE_DAY_MS" "?l mod SCHEDULE_DAY_MS < SCHEDULE_DAY_MS" by (simp_all add: SCHEDULE_DAY_MS_def)
  have m: "0 \<le> m * MINUTE_MS" "m * MINUTE_MS < SCHEDULE_DAY_MS"
    using assms(2,3) by (auto simp: MINUTE_MS_def SCHEDULE_DAY_MS_def)
  have n: "?n = (let c = ?l - ?l mod SCHEDULE_DAY_MS + m * MINUTE_MS in (if c \<le> ?l then c + SCHEDULE_DAY_MS else c) - off * MINUTE_MS)"
    using next_daily_candidate_eq [OF assms] by (simp add: Let_def)
  then show after: ?after by (auto simp: Let_def split: if_splits) (use r m in linarith)
  have within: "?n \<le> t + SCHEDULE_DAY_MS" using n by (auto simp: Let_def split: if_splits) (use r m in linarith)+
  have "(?l - ?l mod SCHEDULE_DAY_MS + m * MINUTE_MS) mod SCHEDULE_DAY_MS = m * MINUTE_MS"
    using m by (simp add: minus_mod_eq_mult_div mod_pos_pos_trivial)
  then show on_time: ?on_time using n by (auto simp: daily_time_def Let_def split: if_splits)
  fix u assume u: "t < u" "daily_time m off u"
  show "?n \<le> u"
  proof (rule ccontr)
    assume "\<not> ?n \<le> u"
    have "(?n + off * MINUTE_MS) mod SCHEDULE_DAY_MS = (u + off * MINUTE_MS) mod SCHEDULE_DAY_MS"
      using on_time u(2) by (simp add: daily_time_def)
    then have "SCHEDULE_DAY_MS dvd ?n - u" by (simp add: mod_eq_dvd_iff)
    then have "SCHEDULE_DAY_MS \<le> ?n - u" using \<open>\<not> ?n \<le> u\<close> by (auto intro: zdvd_imp_le)
    with within u(1) show False by simp
  qed
qed

section \<open>What the scheduler promises\<close>

text \<open>After a run that was due at \<open>due\<close> and ended at \<open>completed\<close>, an interval schedule always
  answers, with the earliest time of its grid that lies after the end of the run, or with nothing
  when that time is past the end of the schedule. The grid starts at the later of the schedule's
  start and one step after \<open>due\<close>; a run that took several steps skips the times it missed. The one
  time for which the loop has no answer, the largest i64, is excluded.\<close>

lemma interval_runs_next:
  assumes "0 < iv_every_seconds s" "iv_start_at_ms s \<le> I64_MAX" "completed < I64_MAX"
  shows "\<exists>r. next_interval_run_after s due completed = Some (Inr r) \<and>
    earliest (\<lambda>t. interval_time s due t \<and> completed < t) (iv_end_at_ms s) r"
proof -
  let ?step = "int (iv_every_seconds s) * 1000" and ?c = "interval_first s due"
  let ?n = "grid_next ?step completed ?c"
  have step: "0 < ?step" and c: "I64_MIN \<le> ?c" "?c \<le> I64_MAX"
    using assms interval_first_bounds by simp_all
  have "next_interval_run_after s due completed =
      Some (Inr (if past_end (iv_end_at_ms s) ?n then None else Some ?n))"
    using assms(1) interval_loop_returns [OF step c assms(3)]
    by (simp add: next_interval_run_after_def Let_def)
  moreover have "interval_time s due ?n" "completed < ?n"
    using grid_next_point [OF step c(2)] grid_next_after [OF step assms(3)] by (auto simp: interval_time_def)
  moreover have "?n \<le> u" if "interval_time s due u" "completed < u" for u
    using that grid_next_least [OF step _ c(2)] by (auto simp: interval_time_def)
  ultimately show ?thesis by (auto simp: earliest_def)
qed

text \<open>Every minute from the start: a run due at one minute that ended after three and a half runs
  next at minute four.\<close>

lemma interval_runs_next_witness:
  "\<exists>r. next_interval_run_after \<lparr>iv_every_seconds = 60, iv_start_at_ms = 0, iv_end_at_ms = Some 1000000\<rparr> 60000 210000 = Some (Inr r) \<and>
     earliest (\<lambda>t. interval_time \<lparr>iv_every_seconds = 60, iv_start_at_ms = 0, iv_end_at_ms = Some 1000000\<rparr> 60000 t \<and> 210000 < t)
       (Some 1000000) r"
  using interval_runs_next [of "\<lparr>iv_every_seconds = 60, iv_start_at_ms = 0, iv_end_at_ms = Some 1000000\<rparr>" 210000 60000]
  by (simp add: I64_MAX_def)

lemma interval_sample:
  "next_interval_run_after \<lparr>iv_every_seconds = 60, iv_start_at_ms = 0, iv_end_at_ms = Some 1000000\<rparr> 60000 210000 =
     Some (Inr (Some 240000))"
  by (simp add: next_interval_run_after_def interval_first_def interval_loop.simps Let_def past_end_def
      sat_add_i64_def clamp_i64_def I64_MAX_def I64_MIN_def)

text \<open>At the largest i64 the candidate saturates and the loop goes on for ever, unless the schedule
  ends before that time.\<close>

lemma interval_hangs_at_max:
  assumes "0 < iv_every_seconds s" "iv_start_at_ms s \<le> I64_MAX" "iv_end_at_ms s = None"
  shows "next_interval_run_after s due I64_MAX = None"
  using assms interval_first_bounds(1) by (simp add: next_interval_run_after_def interval_loop_never_returns)

text \<open>In a supported timezone a daily schedule answers with the earliest time after the completed
  run, and not before its start, at which the local clock shows the minute of the schedule, or with
  nothing when that time is past the end.\<close>

lemma daily_runs_next:
  assumes "dy_local_time_minutes s < 1440" "timezone_offset_minutes (dy_timezone s) = Some off"
    and "calendar_range completed" "calendar_range (dy_start_at_ms s - 1)"
  shows "\<exists>r. next_daily_run_after s completed = Inr r \<and>
    earliest (\<lambda>t. daily_time (int (dy_local_time_minutes s)) off t \<and> completed < t \<and> dy_start_at_ms s \<le> t)
      (dy_end_at_ms s) r"
proof -
  let ?m = "int (dy_local_time_minutes s)" and ?start = "dy_start_at_ms s"
  let ?a = "next_daily_candidate completed ?m off" and ?b = "next_daily_candidate (?start - 1) ?m off"
  let ?n = "if ?a < ?start then ?b else ?a"
  have off: "\<bar>off\<bar> \<le> 1440" using assms(2) by (auto simp: timezone_offset_minutes_def split: if_splits)
  have sub: "sat_sub_i64 ?start 1 = ?start - 1"
    using assms(4) by (auto simp: sat_sub_i64_def clamp_i64_def calendar_range_def I64_MIN_def I64_MAX_def)
  note a = next_daily_candidate_least [OF assms(3) _ _ off, of ?m]
  note b = next_daily_candidate_least [OF assms(4) _ _ off, of ?m]
  have "next_daily_run_after s completed = Inr (if past_end (dy_end_at_ms s) ?n then None else Some ?n)"
    using assms(1,2) sub by (simp add: next_daily_run_after_def Let_def)
  moreover have "daily_time ?m off ?n \<and> completed < ?n \<and> ?start \<le> ?n"
    using a(1,2) b(1,2) assms(1) by auto
  moreover have "?n \<le> u" if "daily_time ?m off u" "completed < u" "?start \<le> u" for u
    using a(3) [of u] b(3) [of u] that assms(1) by auto
  ultimately show ?thesis by (auto simp: earliest_def)
qed

text \<open>Half past eight in Shanghai, asked at midnight UTC, which is eight o'clock there.\<close>

lemma daily_runs_next_witness:
  "\<exists>r. next_daily_run_after \<lparr>dy_local_time_minutes = 510, dy_timezone = lit ''Asia/Shanghai'', dy_start_at_ms = 0, dy_end_at_ms = None\<rparr> 0 = Inr r \<and>
     earliest (\<lambda>t. daily_time 510 480 t \<and> 0 < t \<and> 0 \<le> t) None r"
  using daily_runs_next [of "\<lparr>dy_local_time_minutes = 510, dy_timezone = lit ''Asia/Shanghai'', dy_start_at_ms = 0, dy_end_at_ms = None\<rparr>" 480 0]
  by (simp add: calendar_range_def timezone_offset_minutes_def)

lemma daily_sample:
  "next_daily_run_after \<lparr>dy_local_time_minutes = 510, dy_timezone = lit ''Asia/Shanghai'', dy_start_at_ms = 0, dy_end_at_ms = None\<rparr> 0 =
     Inr (Some 1800000)"
  by code_simp

text \<open>A task is active after a run exactly when it has a next time; an invalid schedule pauses it and
  leaves its error as diagnostics.\<close>

lemma task_active_iff_next:
  "next_task_state_after_run task due completed = Some (next_run, status, diagnostics) \<Longrightarrow>
     (status = TaskActive \<longleftrightarrow> next_run \<noteq> None) \<and> status \<noteq> TaskDeleted"
  unfolding next_task_state_after_run_def
  by (cases task; cases "next_run_after (the task) due completed";
      cases "the (next_run_after (the task) due completed)") (auto split: if_splits)

lemma one_shot_pauses: "next_task_state_after_run (Some (OneShot at_ms)) due completed = Some (None, TaskPaused, [])"
  by (simp add: next_task_state_after_run_def)

lemma unsupported_timezone_pauses:
  assumes "timezone_offset_minutes (dy_timezone s) = None" "dy_local_time_minutes s < 1440"
  shows "\<exists>d. next_task_state_after_run (Some (Daily s)) due completed = Some (None, TaskPaused, d) \<and>
    (lit ''scheduleErrorCode'', lit ''scheduler/unsupported_timezone'') \<in> set d"
  using assms by (simp add: next_task_state_after_run_def next_daily_run_after_def error_new_def with_diagnostic_def)

end
