(* ===== verification/Automation.thy ===== *)
theory Automation
  imports Agent_Schedule
begin

text \<open>
  Automation graphs: the order in which the nodes of a graph run and the life of one run, from
  \<open>crates/agent/src/automation.rs\<close> on the records of \<open>crates/core/src/automation_graph.rs\<close>. A
  node or an edge keeps the fields the runner reads. The queue of \<open>topological_order\<close> is a
  \<open>partial_function (option)\<close>; that it ends is a theorem. What the agent manager does with a node is
  an argument of the operations that call it (\<open>agent_manager\<close>), as are the stored permission
  requests. Steps are kept in the order of their creation and named by their position; the titles,
  sessions, timestamps and diagnostics of a run are left out.
\<close>

section \<open>Graphs\<close>

datatype node_config =
    AgentPrompt ustring
  | ApprovalGate ustring
  | FileCheck
  | GitCheck
  | TerminalCheck

record automation_node =
  an_id :: ustring
  an_config :: node_config

datatype edge_condition_kind = Always | OnSuccess | OnFailure | OnApproval

record automation_edge =
  ed_source :: ustring
  ed_target :: ustring
  ed_kind :: edge_condition_kind
  ed_expression :: "ustring option"

datatype graph_status = GraphActive | GraphPaused | GraphDeleted

record automation_graph =
  gr_status :: graph_status
  gr_nodes :: "automation_node list"
  gr_edges :: "automation_edge list"

section \<open>The order of the nodes\<close>

definition endpoint_missing :: agent_error where
  "endpoint_missing = validation_error (lit ''automation_graph_edge_endpoint_missing'')
     (lit ''automation graph edge references a missing node'')"

definition cycle_unsupported :: agent_error where
  "cycle_unsupported = validation_error (lit ''automation_graph_cycle_unsupported'')
     (lit ''automation graph cycles are not supported yet'')"

text \<open>The tables \<open>indegree\<close> and \<open>outgoing\<close>; a missing key reads as 0 and as no target.\<close>

type_synonym degrees = "ustring \<Rightarrow> nat"
type_synonym targets = "ustring \<Rightarrow> ustring list"

fun count_edges :: "ustring set \<Rightarrow> automation_edge list \<Rightarrow> degrees \<Rightarrow> targets
    \<Rightarrow> agent_error + degrees \<times> targets" where
  "count_edges ids [] indegree outgoing = Inr (indegree, outgoing)"
| "count_edges ids (e # es) indegree outgoing =
     (if ed_source e \<notin> ids \<or> ed_target e \<notin> ids then Inl endpoint_missing
      else if ed_kind e \<notin> {Always, OnSuccess, OnFailure, OnApproval}
      then Inl (error_new CatCapability (lit ''automation_edge_condition_unsupported'')
             (lit ''automation edge condition is not supported''))
      else count_edges ids es
             (indegree(ed_target e := indegree (ed_target e) + 1))
             (outgoing(ed_source e := outgoing (ed_source e) @ [ed_target e])))"

fun release :: "ustring list \<Rightarrow> degrees \<Rightarrow> ustring list \<Rightarrow> degrees \<times> ustring list" where
  "release [] indegree queue = (indegree, queue)"
| "release (t # ts) indegree queue =
     (let entry = indegree t - 1 in
      release ts (indegree(t := entry)) (if entry = 0 then queue @ [t] else queue))"

partial_function (option) drain :: "(ustring \<rightharpoonup> automation_node) \<Rightarrow> targets \<Rightarrow> degrees \<Rightarrow> ustring list
    \<Rightarrow> automation_node list \<Rightarrow> automation_node list option" where
  "drain node_map outgoing indegree queue ordered =
     (case queue of
        [] \<Rightarrow> Some ordered
      | node_id # rest \<Rightarrow>
          let ordered = (case node_map node_id of Some node \<Rightarrow> ordered @ [node] | None \<Rightarrow> ordered)
          in (case release (outgoing node_id) indegree rest of
                (indegree, queue) \<Rightarrow> drain node_map outgoing indegree queue ordered))"

declare drain.simps [code]

definition node_table :: "automation_node list \<Rightarrow> ustring \<rightharpoonup> automation_node" where
  "node_table nodes = map_of (rev (map (\<lambda>n. (an_id n, n)) nodes))"

definition topological_order :: "automation_graph \<Rightarrow> (agent_error + automation_node list) option" where
  "topological_order g =
     (case count_edges (set (map an_id (gr_nodes g))) (gr_edges g) (\<lambda>_. 0) (\<lambda>_. []) of
        Inl e \<Rightarrow> Some (Inl e)
      | Inr (indegree, outgoing) \<Rightarrow>
          map_option (\<lambda>ordered. if length ordered \<noteq> length (gr_nodes g) then Inl cycle_unsupported else Inr ordered)
            (drain (node_table (gr_nodes g)) outgoing indegree
               (filter (\<lambda>v. indegree v = 0) (map an_id (gr_nodes g))) []))"

fun reject_expressions :: "automation_edge list \<Rightarrow> agent_error + unit" where
  "reject_expressions [] = Inr ()"
| "reject_expressions (e # es) =
     (if (case ed_expression e of None \<Rightarrow> False | Some x \<Rightarrow> trim x \<noteq> [])
      then Inl (error_new CatCapability (lit ''automation_edge_expression_unsupported'')
             (lit ''automation edge expressions are not supported yet''))
      else reject_expressions es)"

definition validate_graph_for_runtime :: "automation_graph \<Rightarrow> (agent_error + unit) option" where
  "validate_graph_for_runtime g =
     (if gr_nodes g = []
      then Some (Inl (validation_error (lit ''automation_graph_empty'') (lit ''automation graph has no executable nodes'')))
      else case reject_expressions (gr_edges g) of
             Inl e \<Rightarrow> Some (Inl e)
           | Inr _ \<Rightarrow> map_option (\<lambda>r. and_then r (\<lambda>_. Inr ())) (topological_order g))"

section \<open>Runs\<close>

datatype run_status =
    RunQueued | RunRunning | RunWaiting | RunSucceeded | RunFailed | RunCanceled | RunRecovered

datatype step_status =
    StepQueued | StepRunning | StepWaiting | StepSucceeded | StepFailed | StepSkipped | StepCanceled

record run_step =
  rs_node :: ustring
  rs_status :: step_status
  rs_permission :: "ustring option"
  rs_error_code :: "ustring option"

record automation_run =
  ar_status :: run_status
  ar_error_code :: "ustring option"
  ar_steps :: "run_step list"

text \<open>What the agent manager does for a node. A prompt is \<open>Aborted\<close> by an error that leaves the
  runner at once (choosing the runtime or reading the session back) and \<open>Refused\<close> by an error of
  creating the session or of sending the prompt; it \<open>NeedsInput\<close> when the turn stopped for input, with
  the first pending permission request. A gate is \<open>Opened\<close> with its request; every error of its calls
  leaves the runner at once.\<close>

datatype prompt_answer =
    Aborted agent_error
  | Refused agent_error
  | NeedsInput "ustring option"
  | Finished

datatype gate_answer = GateError agent_error | Opened ustring

record agent_manager =
  mg_prompt :: "automation_node \<Rightarrow> prompt_answer"
  mg_gate :: "automation_node \<Rightarrow> gate_answer"

datatype node_execution = NodeSucceeded | NodeWaiting | NodeFailed

definition update_step :: "nat \<Rightarrow> (run_step \<Rightarrow> run_step) \<Rightarrow> automation_run \<Rightarrow> automation_run" where
  "update_step i f run = run\<lparr>ar_steps := (ar_steps run)[i := f (ar_steps run ! i)]\<rparr>"

definition create_running_step :: "automation_run \<Rightarrow> automation_node \<Rightarrow> automation_run" where
  "create_running_step run node =
     run\<lparr>ar_steps := ar_steps run @ [\<lparr>rs_node = an_id node, rs_status = StepRunning, rs_permission = None, rs_error_code = None\<rparr>]\<rparr>"

definition update_step_success :: "nat \<Rightarrow> automation_run \<Rightarrow> automation_run" where
  "update_step_success i = update_step i (\<lambda>s. s\<lparr>rs_status := StepSucceeded, rs_error_code := None\<rparr>)"

definition update_step_waiting :: "nat \<Rightarrow> ustring option \<Rightarrow> automation_run \<Rightarrow> automation_run" where
  "update_step_waiting i request =
     update_step i (\<lambda>s. s\<lparr>rs_status := StepWaiting,
       rs_permission := (case request of None \<Rightarrow> rs_permission s | Some p \<Rightarrow> Some p),
       rs_error_code := Some (lit ''automation/permission_required'')\<rparr>)"

definition update_step_failure :: "nat \<Rightarrow> ustring \<Rightarrow> automation_run \<Rightarrow> automation_run" where
  "update_step_failure i code = update_step i (\<lambda>s. s\<lparr>rs_status := StepFailed, rs_error_code := Some code\<rparr>)"

definition update_run_waiting :: "automation_run \<Rightarrow> automation_run" where
  "update_run_waiting run =
     run\<lparr>ar_status := RunWaiting, ar_error_code := Some (lit ''automation/permission_required'')\<rparr>"

definition update_run_failure :: "ustring \<Rightarrow> automation_run \<Rightarrow> automation_run" where
  "update_run_failure code run = run\<lparr>ar_status := RunFailed, ar_error_code := Some code\<rparr>"

definition fail_step_and_run :: "nat \<Rightarrow> ustring \<Rightarrow> automation_run \<Rightarrow> automation_run" where
  "fail_step_and_run i code run = update_run_failure code (update_step_failure i code run)"

definition execute_agent_prompt_node ::
    "prompt_answer \<Rightarrow> automation_run \<Rightarrow> nat \<Rightarrow> (agent_error + node_execution) \<times> automation_run" where
  "execute_agent_prompt_node answer run i =
     (case answer of
        Aborted e \<Rightarrow> (Inl e, run)
      | Refused e \<Rightarrow> (Inr NodeFailed, fail_step_and_run i (ae_code e) run)
      | NeedsInput request \<Rightarrow> (Inr NodeWaiting, update_run_waiting (update_step_waiting i request run))
      | Finished \<Rightarrow> (Inr NodeSucceeded, update_step_success i run))"

definition execute_approval_gate_node ::
    "gate_answer \<Rightarrow> automation_run \<Rightarrow> nat \<Rightarrow> (agent_error + node_execution) \<times> automation_run" where
  "execute_approval_gate_node answer run i =
     (case answer of
        GateError e \<Rightarrow> (Inl e, run)
      | Opened request \<Rightarrow> (Inr NodeWaiting, update_run_waiting (update_step_waiting i (Some request) run)))"

definition execute_node ::
    "agent_manager \<Rightarrow> automation_run \<Rightarrow> automation_node
     \<Rightarrow> (agent_error + node_execution) \<times> automation_run" where
  "execute_node manager run node =
     (let i = length (ar_steps run); run = create_running_step run node in
      case an_config node of
        AgentPrompt _ \<Rightarrow> execute_agent_prompt_node (mg_prompt manager node) run i
      | ApprovalGate _ \<Rightarrow> execute_approval_gate_node (mg_gate manager node) run i
      | _ \<Rightarrow> (Inr NodeFailed, fail_step_and_run i (lit ''automation/unsupported_node_kind'') run))"

definition step_for_node :: "automation_run \<Rightarrow> ustring \<Rightarrow> bool" where
  "step_for_node run v \<longleftrightarrow> v \<in> set (map rs_node (ar_steps run))"

fun run_nodes ::
    "agent_manager \<Rightarrow> automation_node list \<Rightarrow> automation_run
     \<Rightarrow> (agent_error + unit) \<times> automation_run" where
  "run_nodes manager [] run = (Inr (), run\<lparr>ar_status := RunSucceeded, ar_error_code := None\<rparr>)"
| "run_nodes manager (n # ns) run =
     (if step_for_node run (an_id n) then run_nodes manager ns run
      else case execute_node manager run n of
             (Inl e, run) \<Rightarrow> (Inl e, run)
           | (Inr NodeSucceeded, run) \<Rightarrow> run_nodes manager ns run
           | (Inr _, run) \<Rightarrow> (Inr (), run))"

definition execute_ready_nodes ::
    "agent_manager \<Rightarrow> automation_graph \<Rightarrow> automation_run
     \<Rightarrow> ((agent_error + unit) \<times> automation_run) option" where
  "execute_ready_nodes manager g run =
     map_option (\<lambda>order. case order of Inl e \<Rightarrow> (Inl e, run) | Inr ns \<Rightarrow> run_nodes manager ns run)
       (topological_order g)"

definition load_executable_graph :: "automation_graph option \<Rightarrow> agent_error + automation_graph" where
  "load_executable_graph stored =
     (case stored of
        None \<Rightarrow> Inl (error_new CatStorage (lit ''automation_graph_not_found'') (lit ''automation graph was not found''))
      | Some g \<Rightarrow>
          (case gr_status g of
             GraphActive \<Rightarrow> Inr g
           | GraphPaused \<Rightarrow> Inl (error_new CatConflict (lit ''automation_graph_paused'')
                 (lit ''paused automation graph cannot be started''))
           | GraphDeleted \<Rightarrow> Inl (error_new CatConflict (lit ''automation_graph_deleted'')
                 (lit ''deleted automation graph cannot be started''))))"

definition run_new :: automation_run where
  "run_new = \<lparr>ar_status = RunRunning, ar_error_code = None, ar_steps = []\<rparr>"

text \<open>The second component is the run as stored afterwards, None when no run was created.\<close>

definition start_graph ::
    "agent_manager \<Rightarrow> automation_graph option
     \<Rightarrow> ((agent_error + unit) \<times> automation_run option) option" where
  "start_graph manager stored =
     (case load_executable_graph stored of
        Inl e \<Rightarrow> Some (Inl e, None)
      | Inr g \<Rightarrow>
          (case validate_graph_for_runtime g of
             None \<Rightarrow> None
           | Some (Inl e) \<Rightarrow> Some (Inl e, None)
           | Some (Inr _) \<Rightarrow> map_option (map_prod id Some) (execute_ready_nodes manager g run_new)))"

datatype permission_status = PermPending | PermApproved | PermDenied | PermExpired

text \<open>The waiting steps, newest first and at most 100.\<close>

definition waiting_steps_for_run :: "automation_run \<Rightarrow> nat list" where
  "waiting_steps_for_run run =
     take 100 (rev (filter (\<lambda>i. rs_status (ar_steps run ! i) = StepWaiting) [0..<length (ar_steps run)]))"

text \<open>The loop over them; the flag says whether the run goes on.\<close>

fun settle_waiting :: "(ustring \<rightharpoonup> permission_status) \<Rightarrow> nat list \<Rightarrow> automation_run \<Rightarrow> bool \<times> automation_run" where
  "settle_waiting permissions [] run = (True, run)"
| "settle_waiting permissions (i # js) run =
     (case rs_permission (ar_steps run ! i) of
        None \<Rightarrow> settle_waiting permissions js run
      | Some request \<Rightarrow>
          (case permissions request of
             None \<Rightarrow> (False, fail_step_and_run i (lit ''automation/permission_missing'') run)
           | Some PermApproved \<Rightarrow> settle_waiting permissions js (update_step_success i run)
           | Some PermPending \<Rightarrow> (False, run)
           | Some _ \<Rightarrow> (False, fail_step_and_run i (lit ''automation/permission_denied'') run)))"

definition resume_run ::
    "agent_manager \<Rightarrow> (ustring \<rightharpoonup> permission_status) \<Rightarrow> automation_graph option
     \<Rightarrow> automation_run \<Rightarrow> ((agent_error + unit) \<times> automation_run) option" where
  "resume_run manager permissions stored run =
     (if ar_status run \<noteq> RunWaiting
      then Some (Inl (error_new CatConflict (lit ''automation_run_not_waiting_for_approval'')
             (lit ''automation graph run is not waiting for approval'')), run)
      else case load_executable_graph stored of
             Inl e \<Rightarrow> Some (Inl e, run)
           | Inr g \<Rightarrow>
               if waiting_steps_for_run run = []
               then Some (Inr (), update_run_failure (lit ''automation/waiting_step_missing'') run)
               else case settle_waiting permissions (waiting_steps_for_run run) run of
                      (False, run) \<Rightarrow> Some (Inr (), run)
                    | (True, run) \<Rightarrow>
                        execute_ready_nodes manager g (run\<lparr>ar_status := RunRunning, ar_error_code := None\<rparr>))"

definition cancel_run :: "automation_run \<Rightarrow> agent_error + automation_run" where
  "cancel_run run =
     (if ar_status run \<notin> {RunRunning, RunWaiting}
      then Inl (error_new CatConflict (lit ''automation_run_not_cancelable'')
             (lit ''automation graph run cannot be canceled from its current status''))
      else Inr (run\<lparr>ar_status := RunCanceled, ar_error_code := Some (lit ''automation/run_canceled'')\<rparr>))"

text \<open>What \<open>recover_stale_runs\<close> does with one run; the flag says that the run was last written at or before
  the limit.\<close>

definition recover_stale_run :: "bool \<Rightarrow> automation_run \<Rightarrow> automation_run" where
  "recover_stale_run stale run =
     (if ar_status run = RunRunning \<and> stale then update_run_failure (lit ''automation/recovered_stale_run'') run else run)"

section \<open>The tables of the edges\<close>

definition edge_pairs :: "automation_graph \<Rightarrow> (ustring \<times> ustring) list" where
  "edge_pairs g = map (\<lambda>e. (ed_source e, ed_target e)) (gr_edges g)"

definition node_ids :: "automation_graph \<Rightarrow> ustring list" where
  "node_ids g = map an_id (gr_nodes g)"

definition endpoints_present :: "automation_graph \<Rightarrow> bool" where
  "endpoints_present g \<longleftrightarrow> set (edge_pairs g) \<subseteq> set (node_ids g) \<times> set (node_ids g)"

text \<open>The sources of the edges into \<open>t\<close> and the targets of the edges out of \<open>s\<close>, with repetitions.\<close>

definition sources :: "(ustring \<times> ustring) list \<Rightarrow> ustring \<Rightarrow> ustring list" where
  "sources es t = map fst (filter (\<lambda>e. snd e = t) es)"

definition targets_of :: "(ustring \<times> ustring) list \<Rightarrow> ustring \<Rightarrow> ustring list" where
  "targets_of es s = map snd (filter (\<lambda>e. fst e = s) es)"

lemma count_targets_of: "count_list (targets_of es s) t = count_list (sources es t) s"
  by (induction es) (auto simp: targets_of_def sources_def)

lemma set_sources: "set (sources es t) = {s. (s, t) \<in> set es}"
  by (force simp: sources_def)

lemma set_targets_of: "set (targets_of es s) = {t. (s, t) \<in> set es}"
  by (force simp: targets_of_def)

text \<open>Every condition kind passes the check.\<close>

lemma count_edges_Cons [simp]:
  "count_edges ids (e # es) indegree outgoing =
     (if ed_source e \<in> ids \<and> ed_target e \<in> ids
      then count_edges ids es
             (indegree(ed_target e := indegree (ed_target e) + 1))
             (outgoing(ed_source e := outgoing (ed_source e) @ [ed_target e]))
      else Inl endpoint_missing)"
  by (cases "ed_kind e") simp_all

declare count_edges.simps(2) [simp del]

lemma count_edges_spec:
  "count_edges ids es indegree outgoing =
     (let ps = map (\<lambda>e. (ed_source e, ed_target e)) es in
      if set ps \<subseteq> ids \<times> ids
      then Inr (\<lambda>t. indegree t + length (sources ps t), \<lambda>s. outgoing s @ targets_of ps s)
      else Inl endpoint_missing)"
  by (induction es arbitrary: indegree outgoing)
    (auto simp: sources_def targets_of_def Let_def fun_eq_iff)

section \<open>One round of the queue\<close>

lemma release_spec:
  assumes "\<And>t. count_list ts t \<le> d t"
  shows "\<exists>new. release ts d q = (\<lambda>t. d t - count_list ts t, q @ new) \<and> distinct new \<and>
    set new = {t \<in> set ts. d t = count_list ts t}"
  using assms
proof (induction ts arbitrary: d q)
  case (Cons t ts)
  let ?d = "d(t := d t - 1)" and ?q = "if d t - 1 = 0 then q @ [t] else q"
  have le: "count_list ts u \<le> ?d u" for u using Cons.prems [of u] by auto
  obtain new where new: "release ts ?d ?q = (\<lambda>u. ?d u - count_list ts u, ?q @ new)"
    "distinct new" "set new = {u \<in> set ts. ?d u = count_list ts u}"
    using Cons.IH [OF le] by blast
  have t: "1 + count_list ts t \<le> d t" using Cons.prems [of t] by simp
  have fst: "(\<lambda>u. ?d u - count_list ts u) = (\<lambda>u. d u - count_list (t # ts) u)"
    by (auto simp: fun_eq_iff)
  show ?case
  proof (cases "d t - 1 = 0")
    case True
    then have "count_list ts t = 0" using t by simp
    then have "t \<notin> set ts" by (simp add: count_list_0_iff)
    then have "distinct (t # new)" "set (t # new) = {u \<in> set (t # ts). d u = count_list (t # ts) u}"
      using new(2,3) True t by auto
    then show ?thesis using new(1) True fst by (intro exI [of _ "t # new"]) (simp add: Let_def)
  next
    case False
    have "set new = {u \<in> set (t # ts). d u = count_list (t # ts) u}"
      unfolding new(3) using t False by (auto simp: count_list_0_iff)
    then show ?thesis using new(1,2) False fst by (intro exI [of _ new]) (simp add: Let_def)
  qed
qed simp

section \<open>The queue\<close>

definition topo :: "(ustring \<times> ustring) list \<Rightarrow> ustring list \<Rightarrow> bool" where
  "topo es xs \<longleftrightarrow> (\<forall>ys t zs. xs = ys @ t # zs \<longrightarrow> set (sources es t) \<subseteq> set ys)"

lemma topo_Nil [simp]: "topo es []"
  by (simp add: topo_def)

lemma topo_append:
  assumes "topo es xs" "\<And>t. t \<in> set ys \<Longrightarrow> set (sources es t) \<subseteq> set xs"
  shows "topo es (xs @ ys)"
  unfolding topo_def
proof (intro allI impI)
  fix as t bs assume eq: "xs @ ys = as @ t # bs"
  show "set (sources es t) \<subseteq> set as"
  proof (cases "length as < length xs")
    case True
    then have "xs = as @ t # drop (Suc (length as)) xs"
    proof -
      have "take (length as) xs = as"
        using arg_cong [OF eq, of "take (length as)"] True by simp
      moreover have "xs ! length as = t"
        using arg_cong [OF eq, of "\<lambda>l. l ! length as"] True by (simp add: nth_append)
      ultimately show ?thesis using id_take_nth_drop [OF True] by simp
    qed
    with assms(1) show ?thesis unfolding topo_def by blast
  next
    case False
    then have "xs = take (length xs) as" "t \<in> set ys"
      using eq by (auto simp: append_eq_append_conv2 append_eq_Cons_conv)
    moreover have "set (take (length xs) as) \<subseteq> set as" by (rule set_take_subset)
    ultimately show ?thesis using assms(2) by (metis subset_trans)
  qed
qed

lemma pending_pop:
  "v \<notin> set popped \<Longrightarrow>
   length (filter (\<lambda>s. s \<notin> set popped) xs) = count_list xs v + length (filter (\<lambda>s. s \<notin> set (popped @ [v])) xs)"
  by (induction xs) auto

definition queue_inv :: "(ustring \<times> ustring) list \<Rightarrow> ustring set \<Rightarrow> ustring list \<Rightarrow> ustring list \<Rightarrow> degrees \<Rightarrow> bool" where
  "queue_inv es ids popped queue d \<longleftrightarrow>
     distinct (popped @ queue) \<and> set (popped @ queue) \<subseteq> ids \<and> topo es (popped @ queue) \<and>
     (\<forall>t. d t = length (filter (\<lambda>s. s \<notin> set popped) (sources es t))) \<and>
     (\<forall>t \<in> ids. t \<in> set (popped @ queue) \<longleftrightarrow> d t = 0)"

lemma queue_inv_release:
  assumes inv: "queue_inv es ids popped (v # rest) d" and closed: "set es \<subseteq> ids \<times> ids"
  shows "\<exists>d' queue'. release (targets_of es v) d rest = (d', queue') \<and> queue_inv es ids (popped @ [v]) queue' d'"
proof -
  let ?ts = "targets_of es v" and ?d = "\<lambda>t. d t - count_list (targets_of es v) t"
  have v: "v \<notin> set popped" using inv by (simp add: queue_inv_def)
  have d: "d t = count_list ?ts t + length (filter (\<lambda>s. s \<notin> set (popped @ [v])) (sources es t))" for t
    using inv pending_pop [OF v] by (simp only: queue_inv_def count_targets_of)
  obtain new where new: "release ?ts d rest = (?d, rest @ new)" "distinct new"
    "set new = {t \<in> set ?ts. d t = count_list ?ts t}"
  proof -
    have "count_list ?ts t \<le> d t" for t using d [of t] by linarith
    from release_spec [of ?ts d rest, OF this] that show thesis by blast
  qed
  have pos: "t \<in> set ?ts \<Longrightarrow> 0 < d t" for t
    using d [of t] count_list_0_iff [of ?ts t] by (metis add_gr_0 gr0I)
  have new_ids: "set new \<subseteq> ids" using new(3) closed by (auto simp: set_targets_of)
  have old: "t \<in> ids \<Longrightarrow> t \<in> set (popped @ v # rest) \<longleftrightarrow> d t = 0" for t
    using inv by (auto simp: queue_inv_def)
  have fresh: "t \<notin> set (popped @ v # rest)" if "t \<in> set new" for t
    using that new_ids old [of t] pos [of t] new(3) by auto
  have zero: "?d t = 0 \<Longrightarrow> set (sources es t) \<subseteq> set (popped @ [v])" for t
    using d [of t] by (auto simp: filter_empty_conv)
  have "distinct ((popped @ [v]) @ rest @ new)"
    using inv new(2) fresh by (auto simp: queue_inv_def)
  moreover have "set ((popped @ [v]) @ rest @ new) \<subseteq> ids"
    using inv new_ids by (auto simp: queue_inv_def)
  moreover have "topo es ((popped @ v # rest) @ new)"
  proof (rule topo_append)
    show "topo es (popped @ v # rest)" using inv by (simp add: queue_inv_def)
    fix t assume "t \<in> set new"
    then have "?d t = 0" using new(3) by simp
    from zero [OF this] show "set (sources es t) \<subseteq> set (popped @ v # rest)" by auto
  qed
  moreover have "?d t = length (filter (\<lambda>s. s \<notin> set (popped @ [v])) (sources es t))" for t
    using d [of t] by linarith
  moreover have "t \<in> set ((popped @ [v]) @ rest @ new) \<longleftrightarrow> ?d t = 0" if "t \<in> ids" for t
  proof (cases "d t = 0")
    case True
    then show ?thesis using old [OF that] by auto
  next
    case False
    then have "?d t = 0 \<longleftrightarrow> t \<in> set new"
      using new(3) d [of t] count_notin [of t ?ts] by (cases "t \<in> set ?ts") auto
    then show ?thesis using False old [OF that] by auto
  qed
  ultimately have "queue_inv es ids (popped @ [v]) (rest @ new) ?d" by (simp add: queue_inv_def)
  with new(1) show ?thesis by blast
qed

lemma drain_returns:
  assumes "queue_inv es (set ids) popped queue d" "set es \<subseteq> set ids \<times> set ids"
    and "\<And>v. v \<in> set ids \<Longrightarrow> nm v \<noteq> None"
  shows "\<exists>popped' d'. drain nm (targets_of es) d queue (map (the \<circ> nm) popped) = Some (map (the \<circ> nm) popped') \<and>
    queue_inv es (set ids) popped' [] d'"
  using assms(1)
proof (induction "length ids - length popped" arbitrary: popped queue d rule: less_induct)
  case less
  show ?case
  proof (cases queue)
    case Nil
    then show ?thesis using less.prems by (subst drain.simps) auto
  next
    case (Cons v rest)
    obtain d' queue' where step: "release (targets_of es v) d rest = (d', queue')"
      "queue_inv es (set ids) (popped @ [v]) queue' d'"
      using queue_inv_release [OF _ assms(2)] less.prems Cons by blast
    have v: "v \<in> set ids" "distinct (popped @ [v])" "set (popped @ [v]) \<subseteq> set ids"
      using less.prems Cons by (auto simp: queue_inv_def)
    then obtain n where n: "nm v = Some n" using assms(3) by blast
    have "length (popped @ [v]) \<le> length ids"
      using v(2,3) by (metis card_mono distinct_card card_length finite_set order_trans)
    then have "length ids - length (popped @ [v]) < length ids - length popped" by simp
    from less.hyps [OF this step(2)] show ?thesis
      using Cons step(1) n by (subst drain.simps) simp
  qed
qed

section \<open>A graph runs exactly when its edges are sound and acyclic\<close>

lemma queue_inv_init:
  assumes "distinct ids" "set es \<subseteq> set ids \<times> set ids"
  shows "queue_inv es (set ids) [] (filter (\<lambda>v. length (sources es v) = 0) ids) (\<lambda>t. length (sources es t))"
proof -
  have "topo es ([] @ filter (\<lambda>v. length (sources es v) = 0) ids)"
    by (rule topo_append) auto
  with assms show ?thesis by (auto simp: queue_inv_def)
qed

text \<open>What an emptied queue leaves behind: all nodes when the edges have no cycle, and a cycle among
  the rest otherwise.\<close>

lemma emptied_queue_acyclic:
  assumes "queue_inv es ids popped [] d" "set es \<subseteq> ids \<times> ids" "acyclic (set es)"
  shows "set popped = ids"
proof (rule ccontr)
  assume "set popped \<noteq> ids"
  then obtain v where v: "v \<in> ids - set popped" using assms(1) by (auto simp: queue_inv_def)
  have "wf (set es)" using assms(3) by (simp add: finite_acyclic_wf)
  then obtain z where z: "z \<in> ids - set popped" "\<And>y. (y, z) \<in> set es \<Longrightarrow> y \<notin> ids - set popped"
    using wfE_min [OF _ v] by metis
  have "filter (\<lambda>s. s \<notin> set popped) (sources es z) \<noteq> []"
    using assms(1) z(1) by (auto simp: queue_inv_def)
  then obtain s where "s \<in> set (sources es z)" "s \<notin> set popped" by (auto simp: filter_empty_conv)
  with z(2) [of s] assms(2) show False by (auto simp: set_sources)
qed

lemma topo_acyclic:
  assumes "topo es xs" "distinct xs" "set es \<subseteq> set xs \<times> set xs"
  shows "acyclic (set es)"
proof -
  define pos where "pos x = length (takeWhile (\<lambda>y. y \<noteq> x) xs)" for x
  have "pos s < pos t" if e: "(s, t) \<in> set es" for s t
  proof -
    obtain ys zs where split: "xs = ys @ t # zs" "t \<notin> set ys"
      using e assms(3) by (metis SigmaD2 split_list_first subsetD)
    have "s \<in> set ys" using assms(1) split(1) e by (auto simp: topo_def set_sources)
    then obtain as bs where s: "ys = as @ s # bs" "s \<notin> set as" by (metis split_list_first)
    have "pos t = length ys" unfolding pos_def split(1) using split(2) by (subst takeWhile_append2) auto
    moreover have "pos s = length as" unfolding pos_def split(1) s(1) using s(2)
      by (simp, subst takeWhile_append2) auto
    ultimately show ?thesis using s(1) by simp
  qed
  then have "set es \<subseteq> measure pos" by auto
  then show ?thesis by (meson wf_acyclic wf_measure wf_subset)
qed

lemma node_table_distinct:
  assumes "distinct (map an_id nodes)" "n \<in> set nodes"
  shows "node_table nodes (an_id n) = Some n"
  using assms unfolding node_table_def
  by (intro map_of_is_SomeI) (auto simp: rev_map [symmetric] comp_def distinct_map)

lemma node_table_ids:
  assumes "distinct (map an_id nodes)" "set vs \<subseteq> set (map an_id nodes)"
  shows "map an_id (map (the \<circ> node_table nodes) vs) = vs"
    and "set (map (the \<circ> node_table nodes) vs) \<subseteq> set nodes"
  using assms(2) by (auto simp: node_table_distinct [OF assms(1)] intro!: map_idI)

lemma topological_order_cases:
  assumes "distinct (node_ids g)"
  shows "case topological_order g of
      None \<Rightarrow> False
    | Some (Inl e) \<Rightarrow>
        \<not> endpoints_present g \<and> e = endpoint_missing \<or>
        endpoints_present g \<and> \<not> acyclic (set (edge_pairs g)) \<and> e = cycle_unsupported
    | Some (Inr order) \<Rightarrow>
        endpoints_present g \<and> acyclic (set (edge_pairs g)) \<and> mset order = mset (gr_nodes g) \<and>
        topo (edge_pairs g) (map an_id order)"
proof (cases "endpoints_present g")
  case False
  then have "topological_order g = Some (Inl endpoint_missing)"
    by (simp add: topological_order_def count_edges_spec endpoints_present_def edge_pairs_def node_ids_def Let_def)
  with False show ?thesis by simp
next
  case True
  let ?es = "edge_pairs g" and ?ids = "node_ids g" and ?nm = "node_table (gr_nodes g)"
  have closed: "set ?es \<subseteq> set ?ids \<times> set ?ids" using True by (simp add: endpoints_present_def)
  have nm: "?nm v \<noteq> None" if "v \<in> set ?ids" for v
    using that assms node_table_distinct by (force simp: node_ids_def)
  obtain popped d where run: "drain ?nm (targets_of ?es) (\<lambda>t. length (sources ?es t))
        (filter (\<lambda>v. length (sources ?es v) = 0) ?ids) [] = Some (map (the \<circ> ?nm) popped)"
    and inv: "queue_inv ?es (set ?ids) popped [] d"
    using drain_returns [OF queue_inv_init [OF assms closed] closed, of ?nm] nm by auto
  have top: "topological_order g =
      Some (if length popped \<noteq> length ?ids then Inl cycle_unsupported else Inr (map (the \<circ> ?nm) popped))"
    using run closed
    by (simp add: topological_order_def count_edges_spec edge_pairs_def node_ids_def Let_def)
  have sub: "set popped \<subseteq> set ?ids" "distinct popped" "topo ?es popped"
    using inv by (auto simp: queue_inv_def)
  have all: "length popped = length ?ids \<longleftrightarrow> set popped = set ?ids"
    using sub(1,2) assms by (metis card_subset_eq distinct_card finite_set)
  note ids = node_table_ids [of "gr_nodes g" popped, folded node_ids_def, OF assms sub(1)]
  show ?thesis
  proof (cases "acyclic (set ?es)")
    case False
    have "set popped \<noteq> set ?ids" using False topo_acyclic [OF sub(3,2)] closed by auto
    with False True all top show ?thesis by simp
  next
    case acyclic: True
    have full: "set popped = set ?ids" by (rule emptied_queue_acyclic [OF inv closed acyclic])
    let ?order = "map (the \<circ> ?nm) popped"
    have d: "distinct ?order" using ids(1) sub(2) by (metis distinct_map)
    have "card (set ?order) = card (set (gr_nodes g))"
      using d assms full all by (metis distinct_card distinct_map length_map node_ids_def)
    then have "set ?order = set (gr_nodes g)" by (intro card_subset_eq) (use ids(2) in auto)
    then have "mset ?order = mset (gr_nodes g)"
      using d assms by (metis distinct_map node_ids_def set_eq_iff_mset_eq_distinct)
    with acyclic True all top full ids(1) sub(3) show ?thesis by simp
  qed
qed

section \<open>The life of a run\<close>

text \<open>A settled step lets the run go on: it succeeded, or it waits without a request to wait for.\<close>

definition settled :: "run_step \<Rightarrow> bool" where
  "settled st \<longleftrightarrow> rs_status st = StepSucceeded \<or> rs_status st = StepWaiting \<and> rs_permission st = None"

definition run_prefix :: "ustring list \<Rightarrow> automation_run \<Rightarrow> bool" where
  "run_prefix order run \<longleftrightarrow>
     (\<exists>rest. order = map rs_node (ar_steps run) @ rest) \<and> (\<forall>st \<in> set (butlast (ar_steps run)). settled st)"

definition run_ok :: "ustring list \<Rightarrow> automation_run \<Rightarrow> bool" where
  "run_ok order run \<longleftrightarrow> run_prefix order run \<and>
     (ar_status run = RunSucceeded \<longrightarrow> map rs_node (ar_steps run) = order \<and> (\<forall>st \<in> set (ar_steps run). settled st)) \<and>
     (ar_status run = RunWaiting \<longrightarrow> ar_steps run \<noteq> [] \<and> rs_status (last (ar_steps run)) = StepWaiting)"

lemmas step_updates = update_step_def update_step_success_def update_step_waiting_def update_step_failure_def
  update_run_waiting_def update_run_failure_def fail_step_and_run_def create_running_step_def

text \<open>Executing a node adds its step, touches no other and reports what became of it.\<close>

lemma execute_node_spec:
  assumes "execute_node manager run node = (res, run')"
  obtains st where "ar_steps run' = ar_steps run @ [st]" "rs_node st = an_id node"
    "res = Inr NodeSucceeded \<Longrightarrow> settled st \<and> ar_status run' = ar_status run"
    "res = Inr NodeWaiting \<Longrightarrow> rs_status st = StepWaiting \<and> ar_status run' = RunWaiting"
    "res = Inr NodeFailed \<Longrightarrow> rs_status st = StepFailed \<and> ar_status run' = RunFailed"
    "\<And>e. res = Inl e \<Longrightarrow> rs_status st = StepRunning \<and> ar_status run' = ar_status run"
proof -
  have "\<exists>st. ar_steps run' = ar_steps run @ [st] \<and> rs_node st = an_id node \<and>
    (res = Inr NodeSucceeded \<longrightarrow> settled st \<and> ar_status run' = ar_status run) \<and>
    (res = Inr NodeWaiting \<longrightarrow> rs_status st = StepWaiting \<and> ar_status run' = RunWaiting) \<and>
    (res = Inr NodeFailed \<longrightarrow> rs_status st = StepFailed \<and> ar_status run' = RunFailed) \<and>
    (\<forall>e. res = Inl e \<longrightarrow> rs_status st = StepRunning \<and> ar_status run' = ar_status run)"
    using assms
    by (cases "an_config node"; cases "mg_prompt manager node"; cases "mg_gate manager node")
      (auto simp: execute_node_def execute_agent_prompt_node_def execute_approval_gate_node_def Let_def
        step_updates settled_def)
  then show thesis using that by blast
qed

lemma run_nodes_skip:
  "\<forall>n \<in> set ns. step_for_node run (an_id n) \<Longrightarrow> run_nodes manager (ns @ ms) run = run_nodes manager ms run"
  by (induction ns) auto

lemma run_nodes_ok:
  assumes "distinct (map rs_node (ar_steps run) @ map an_id ns)" "\<forall>st \<in> set (ar_steps run). settled st"
    and "ar_status run = RunRunning" "run_nodes manager ns run = (res, run')"
  shows "run_ok (map rs_node (ar_steps run) @ map an_id ns) run'"
  using assms
proof (induction ns arbitrary: run)
  case Nil
  then show ?case by (auto simp: run_ok_def run_prefix_def in_set_butlastD)
next
  case (Cons n ns)
  have fresh: "\<not> step_for_node run (an_id n)" using Cons.prems(1) by (auto simp: step_for_node_def)
  obtain r1 run1 where ex: "execute_node manager run n = (r1, run1)" by fastforce
  obtain st where st: "ar_steps run1 = ar_steps run @ [st]" "rs_node st = an_id n"
    "r1 = Inr NodeSucceeded \<Longrightarrow> settled st \<and> ar_status run1 = ar_status run"
    "r1 = Inr NodeWaiting \<Longrightarrow> rs_status st = StepWaiting \<and> ar_status run1 = RunWaiting"
    "r1 = Inr NodeFailed \<Longrightarrow> rs_status st = StepFailed \<and> ar_status run1 = RunFailed"
    "\<And>e. r1 = Inl e \<Longrightarrow> rs_status st = StepRunning \<and> ar_status run1 = ar_status run"
    using execute_node_spec [OF ex] by metis
  have prefix: "run_prefix (map rs_node (ar_steps run) @ map an_id (n # ns)) run1"
    using st(1,2) Cons.prems(2) by (simp add: run_prefix_def)
  show ?case
  proof (cases "r1 = Inr NodeSucceeded")
    case True
    then have "run_ok (map rs_node (ar_steps run1) @ map an_id ns) run'"
      using Cons.prems fresh ex st by (intro Cons.IH [of run1]) auto
    then show ?thesis using st(1,2) by simp
  next
    case False
    then have "run' = run1" and "ar_status run1 \<noteq> RunSucceeded"
      and "ar_status run1 = RunWaiting \<Longrightarrow> rs_status st = StepWaiting"
      using Cons.prems(3,4) fresh ex st(4-6)
      by (auto split: sum.splits node_execution.splits)
    then show ?thesis using prefix st(1) by (auto simp: run_ok_def)
  qed
qed

lemma settle_waiting_skip:
  "\<forall>i \<in> set js. rs_permission (ar_steps run ! i) = None \<Longrightarrow> settle_waiting permissions js run = (True, run)"
  by (induction js) auto

text \<open>While a run waits its newest step is the only one that can hold it up.\<close>

lemma waiting_steps_newest:
  assumes "ar_steps run = xs @ [l]" "rs_status l = StepWaiting" "\<forall>st \<in> set xs. settled st"
  obtains js where "waiting_steps_for_run run = length xs # js"
    "\<forall>i \<in> set js. i < length xs \<and> rs_permission (xs ! i) = None"
proof -
  let ?old = "filter (\<lambda>i. rs_status (xs ! i) = StepWaiting) [0..<length xs]"
  have "filter (\<lambda>i. rs_status ((xs @ [l]) ! i) = StepWaiting) [0..<length xs] = ?old"
    by (rule filter_cong) (auto simp: nth_append)
  then have w: "waiting_steps_for_run run = length xs # take 99 (rev ?old)"
    using assms(1,2) by (simp add: waiting_steps_for_run_def)
  have "i < length xs \<and> rs_permission (xs ! i) = None" if "i \<in> set (take 99 (rev ?old))" for i
  proof -
    have "i \<in> set ?old" using in_set_takeD [OF that] by simp
    then have i: "i < length xs" "rs_status (xs ! i) = StepWaiting" by auto
    then have "settled (xs ! i)" using assms(3) by auto
    with i show ?thesis by (simp add: settled_def)
  qed
  with w that show thesis by blast
qed

lemma settle_waiting_ok:
  assumes "run_ok order run" "ar_status run = RunWaiting"
    and "settle_waiting permissions (waiting_steps_for_run run) run = (b, run')"
  shows "map rs_node (ar_steps run') = map rs_node (ar_steps run)"
    and "b \<Longrightarrow> \<forall>st \<in> set (ar_steps run'). settled st"
    and "\<not> b \<Longrightarrow> run_ok order run'"
proof -
  obtain xs l where steps: "ar_steps run = xs @ [l]" and l: "rs_status l = StepWaiting"
    using assms(1,2) unfolding run_ok_def by (metis append_butlast_last_id)
  have xs: "\<forall>st \<in> set xs. settled st" using assms(1) steps by (simp add: run_ok_def run_prefix_def)
  obtain js where w: "waiting_steps_for_run run = length xs # js"
    and old: "\<forall>i \<in> set js. i < length xs \<and> rs_permission (xs ! i) = None"
    using waiting_steps_newest [OF steps l xs] .
  have skip: "settle_waiting permissions js r = (True, r)" if "ar_steps r = xs @ [k]" for r k
    using old that by (intro settle_waiting_skip) (auto simp: nth_append)
  have *: "b \<and> (rs_permission l = None \<and> run' = run \<or> run' = update_step_success (length xs) run) \<or>
      \<not> b \<and> (run' = run \<or> (\<exists>code. run' = fail_step_and_run (length xs) code run))"
    using assms(3) steps skip [of run l] skip [of "update_step_success (length xs) run"]
    unfolding w by (auto simp: step_updates split: option.splits permission_status.splits)
  show "map rs_node (ar_steps run') = map rs_node (ar_steps run)"
    using * steps by (auto simp: step_updates)
  show "\<forall>st \<in> set (ar_steps run'). settled st" if b
    using * that steps l xs by (auto simp: step_updates settled_def)
  show "run_ok order run'" if "\<not> b"
    using * that assms(1) steps by (auto simp: step_updates run_ok_def run_prefix_def)
qed

text \<open>The stored graph does not change while the run lives.\<close>

definition runs_in_order :: "automation_graph \<Rightarrow> ustring list \<Rightarrow> bool" where
  "runs_in_order g order \<longleftrightarrow> distinct order \<and> (\<exists>ns. topological_order g = Some (Inr ns) \<and> order = map an_id ns)"

lemma execute_ready_ok:
  assumes "runs_in_order g order" "\<exists>rest. order = map rs_node (ar_steps run) @ rest"
    and "\<forall>st \<in> set (ar_steps run). settled st" "ar_status run = RunRunning"
    and "execute_ready_nodes manager g run = Some (res, run')"
  shows "run_ok order run'"
proof -
  let ?k = "length (ar_steps run)"
  obtain ns where ns: "topological_order g = Some (Inr ns)" "order = map an_id ns" "distinct order"
    using assms(1) by (auto simp: runs_in_order_def)
  obtain rest where rest: "order = map rs_node (ar_steps run) @ rest" using assms(2) by blast
  have pre: "map an_id (take ?k ns) = map rs_node (ar_steps run)"
    using arg_cong [OF rest, of "take ?k"] ns(2) by (simp add: take_map)
  have suf: "map an_id (drop ?k ns) = rest"
    using arg_cong [OF rest, of "drop ?k"] ns(2) by (simp add: drop_map)
  have "\<forall>n \<in> set (take ?k ns). step_for_node run (an_id n)"
    unfolding step_for_node_def pre [symmetric] by simp
  then have "run_nodes manager (drop ?k ns) run = (res, run')"
    using assms(5) ns(1) run_nodes_skip [of "take ?k ns" run manager "drop ?k ns"]
    by (simp add: execute_ready_nodes_def)
  then have "run_ok (map rs_node (ar_steps run) @ map an_id (drop ?k ns)) run'"
    using assms(3,4) ns(3) rest suf by (intro run_nodes_ok) auto
  then show ?thesis using rest suf by simp
qed

definition run_start :: "automation_graph \<Rightarrow> automation_run \<Rightarrow> bool" where
  "run_start g run \<longleftrightarrow> (\<exists>manager res. start_graph manager (Some g) = Some (res, Some run))"

inductive run_moves :: "automation_graph \<Rightarrow> automation_run \<Rightarrow> automation_run \<Rightarrow> bool" for g where
  resume: "resume_run manager permissions (Some g) run = Some (res, run') \<Longrightarrow> run_moves g run run'"
| cancel: "cancel_run run = Inr run' \<Longrightarrow> run_moves g run run'"
| recover: "run_moves g run (recover_stale_run stale run)"

inductive_cases run_movesE: "run_moves g run run'"

lemma run_start_ok:
  assumes "runs_in_order g order" "run_start g run"
  shows "run_ok order run"
proof -
  obtain manager res where "start_graph manager (Some g) = Some (res, Some run)"
    using assms(2) by (auto simp: run_start_def)
  then have "execute_ready_nodes manager g run_new = Some (res, run)"
    by (auto simp: start_graph_def load_executable_graph_def split: sum.splits option.splits graph_status.splits)
  with assms(1) show ?thesis by (intro execute_ready_ok [of g order run_new]) (auto simp: run_new_def)
qed

lemma resume_ok:
  assumes order: "runs_in_order g order" and ok: "run_ok order run"
    and res: "resume_run manager permissions (Some g) run = Some (res, run')"
  shows "run_ok order run'"
proof (cases "ar_status run = RunWaiting \<and> gr_status g = GraphActive \<and> waiting_steps_for_run run \<noteq> []")
  case True
  obtain b run1 where settle: "settle_waiting permissions (waiting_steps_for_run run) run = (b, run1)" by fastforce
  note s = settle_waiting_ok [OF ok _ settle]
  show ?thesis
  proof (cases b)
    case b: True
    then have "execute_ready_nodes manager g (run1\<lparr>ar_status := RunRunning, ar_error_code := None\<rparr>) = Some (res, run')"
      using res True settle by (simp add: resume_run_def load_executable_graph_def)
    then show ?thesis
      using True b s(1,2) ok by (intro execute_ready_ok [OF order]) (auto simp: run_ok_def run_prefix_def)
  next
    case False
    then show ?thesis using res True settle s(3) by (simp add: resume_run_def load_executable_graph_def)
  qed
next
  case False
  then show ?thesis using ok res
    by (cases "ar_status run = RunWaiting"; cases "gr_status g")
      (auto simp: resume_run_def load_executable_graph_def update_run_failure_def run_ok_def run_prefix_def)
qed

lemma cancel_ok: "run_ok order run \<Longrightarrow> cancel_run run = Inr run' \<Longrightarrow> run_ok order run'"
  by (auto simp: cancel_run_def run_ok_def run_prefix_def split: if_splits)

lemma recover_ok: "run_ok order run \<Longrightarrow> run_ok order (recover_stale_run stale run)"
  by (auto simp: recover_stale_run_def update_run_failure_def run_ok_def run_prefix_def)

interpretation run_machine: invariant_machine "run_start g" "run_moves g" "\<lambda>run. runs_in_order g order \<longrightarrow> run_ok order run"
  for g order
  by unfold_locales (auto elim!: run_movesE intro: run_start_ok resume_ok cancel_ok recover_ok)

text \<open>A run exists only when the order does.\<close>

lemma run_has_order:
  "reach (run_start g) (run_moves g) run \<Longrightarrow> \<exists>ns. topological_order g = Some (Inr ns)"
proof (induction rule: reach.induct)
  case (reach_init run)
  then obtain manager res where "start_graph manager (Some g) = Some (res, Some run)" by (auto simp: run_start_def)
  then obtain u where "validate_graph_for_runtime g = Some (Inr u)"
    by (auto simp: start_graph_def load_executable_graph_def split: sum.splits option.splits graph_status.splits)
  then show ?case
    by (auto simp: validate_graph_for_runtime_def and_then_Inr split: if_splits sum.splits)
qed

section \<open>Properties\<close>

text \<open>C20: For a graph whose nodes have different ids the order in which they run is always found or refused:
  it is refused as dangling exactly when an edge names a missing node, as cyclic exactly when its edges
  form a cycle, and otherwise every node stands in it exactly once, after the sources of all its
  edges.\<close>
theorem topological_order_correct:
  assumes "distinct (node_ids g)"
  shows "case topological_order g of
      None \<Rightarrow> False
    | Some (Inl e) \<Rightarrow>
        \<not> endpoints_present g \<and> e = endpoint_missing \<or>
        endpoints_present g \<and> \<not> acyclic (set (edge_pairs g)) \<and> e = cycle_unsupported
    | Some (Inr order) \<Rightarrow>
        endpoints_present g \<and> acyclic (set (edge_pairs g)) \<and> mset order = mset (gr_nodes g) \<and>
        topo (edge_pairs g) (map an_id order)"
  using assms by (rule topological_order_cases)

definition prompt_node :: "string \<Rightarrow> automation_node" where
  "prompt_node v = \<lparr>an_id = lit v, an_config = AgentPrompt (lit ''do'')\<rparr>"

definition plain_edge :: "string \<Rightarrow> string \<Rightarrow> automation_edge" where
  "plain_edge v w = \<lparr>ed_source = lit v, ed_target = lit w, ed_kind = OnFailure, ed_expression = None\<rparr>"

definition sample_graph :: automation_graph where
  "sample_graph = \<lparr>gr_status = GraphActive, gr_nodes = [prompt_node ''b'', prompt_node ''a''], gr_edges = [plain_edge ''a'' ''b'']\<rparr>"

definition obliging :: "prompt_answer \<Rightarrow> agent_manager" where
  "obliging answer = \<lparr>mg_prompt = (\<lambda>_. answer), mg_gate = (\<lambda>_. Opened (lit ''q''))\<rparr>"

lemma sample_order: "topological_order sample_graph = Some (Inr [prompt_node ''a'', prompt_node ''b''])"
  by code_simp

theorem topological_order_correct_witness:
  "topological_order sample_graph = Some (Inr [prompt_node ''a'', prompt_node ''b'']) \<and>
   topo (edge_pairs sample_graph) [lit ''a'', lit ''b'']"
proof -
  have "distinct (node_ids sample_graph)" by code_simp
  from topological_order_correct [OF this] show ?thesis
    by (simp add: sample_order) (simp add: prompt_node_def)
qed

text \<open>C37: However often a run waits, is resumed, is canceled or is recovered as stale, one operation after the
  other and on a graph that does not change, no node is started twice, and a node is started only after every node with an edge into it was: those steps have
  succeeded, or wait without any request to wait for. A run that succeeded has run every node this way.\<close>
theorem nodes_start_after_sources:
  assumes "distinct (node_ids g)" and "reach (run_start g) (run_moves g) run"
  shows "distinct (map rs_node (ar_steps run)) \<and>
    (\<forall>i < length (ar_steps run). \<forall>s. (s, rs_node (ar_steps run ! i)) \<in> set (edge_pairs g) \<longrightarrow>
       (\<exists>j < i. rs_node (ar_steps run ! j) = s \<and> settled (ar_steps run ! j))) \<and>
    (ar_status run = RunSucceeded \<longrightarrow>
       set (map rs_node (ar_steps run)) = set (node_ids g) \<and> (\<forall>st \<in> set (ar_steps run). settled st))"
proof -
  obtain ns where ns: "topological_order g = Some (Inr ns)" using run_has_order [OF assms(2)] by blast
  let ?order = "map an_id ns"
  have sound: "mset ns = mset (gr_nodes g)" "topo (edge_pairs g) ?order"
    using topological_order_cases [OF assms(1)] ns by simp_all
  have ids: "mset ?order = mset (node_ids g)" using sound(1) by (simp add: node_ids_def)
  then have order: "distinct ?order" "set ?order = set (node_ids g)"
    using assms(1) by (metis mset_eq_imp_distinct_iff, metis mset_eq_setD)
  then have "runs_in_order g ?order" using ns by (auto simp: runs_in_order_def)
  then have ok: "run_ok ?order run" using run_machine.reach_inv [OF assms(2), of ?order] by blast
  then obtain rest where rest: "?order = map rs_node (ar_steps run) @ rest"
    and before: "\<forall>st \<in> set (butlast (ar_steps run)). settled st" by (auto simp: run_ok_def run_prefix_def)
  have "\<exists>j < i. rs_node (ar_steps run ! j) = s \<and> settled (ar_steps run ! j)"
    if i: "i < length (ar_steps run)" and e: "(s, rs_node (ar_steps run ! i)) \<in> set (edge_pairs g)" for i s
  proof -
    have "?order = take i (map rs_node (ar_steps run)) @ rs_node (ar_steps run ! i) # drop (Suc i) (map rs_node (ar_steps run)) @ rest"
      unfolding rest using i id_take_nth_drop [of i "map rs_node (ar_steps run)"] by simp
    then have "s \<in> set (take i (map rs_node (ar_steps run)))"
      using sound(2) e unfolding topo_def set_sources by blast
    then obtain j where j: "j < i" "s = rs_node (ar_steps run ! j)"
      using i by (auto simp: in_set_conv_nth take_map)
    then have "ar_steps run ! j \<in> set (butlast (ar_steps run))"
      using i by (auto simp: in_set_conv_nth nth_butlast intro!: exI [of _ j])
    with j before show ?thesis by auto
  qed
  moreover have "distinct (map rs_node (ar_steps run))" using order(1) unfolding rest by simp
  ultimately show ?thesis using ok order(2) by (auto simp: run_ok_def)
qed

lemma sample_run:
  "start_graph (obliging Finished) (Some sample_graph) =
     Some (Inr (), Some \<lparr>ar_status = RunSucceeded, ar_error_code = None,
       ar_steps = [\<lparr>rs_node = lit ''a'', rs_status = StepSucceeded, rs_permission = None, rs_error_code = None\<rparr>,
                   \<lparr>rs_node = lit ''b'', rs_status = StepSucceeded, rs_permission = None, rs_error_code = None\<rparr>]\<rparr>)"
  by code_simp

theorem nodes_start_after_sources_witness:
  "\<exists>run. start_graph (obliging Finished) (Some sample_graph) = Some (Inr (), Some run) \<and> ar_status run = RunSucceeded \<and>
     distinct (map rs_node (ar_steps run)) \<and> set (map rs_node (ar_steps run)) = set (node_ids sample_graph)"
proof -
  let ?run = "\<lparr>ar_status = RunSucceeded, ar_error_code = None,
       ar_steps = [\<lparr>rs_node = lit ''a'', rs_status = StepSucceeded, rs_permission = None, rs_error_code = None\<rparr>,
                   \<lparr>rs_node = lit ''b'', rs_status = StepSucceeded, rs_permission = None, rs_error_code = None\<rparr>]\<rparr>"
  have d: "distinct (node_ids sample_graph)" by code_simp
  have "run_start sample_graph ?run" unfolding run_start_def using sample_run by blast
  then have "reach (run_start sample_graph) (run_moves sample_graph) ?run" by (rule reach_init)
  from nodes_start_after_sources [OF d this] sample_run show ?thesis by (intro exI [of _ ?run]) (simp del: lit_simps)
qed

section \<open>What a run does not do\<close>

text \<open>The conditions on edges, checked for their kind, decide nothing.\<close>

lemma edge_conditions_ignored:
  "topological_order (g\<lparr>gr_edges := map (\<lambda>e. e\<lparr>ed_kind := kind e\<rparr>) (gr_edges g)\<rparr>) = topological_order g"
  by (simp add: topological_order_def count_edges_spec comp_def Let_def)

text \<open>A turn that stops for input without a permission request is passed over when the run is resumed: the
  run succeeds and the step still waits.\<close>

lemma unrequested_wait_passed_over:
  "\<exists>run run'. start_graph (obliging (NeedsInput None)) (Some (sample_graph\<lparr>gr_nodes := [prompt_node ''a''], gr_edges := []\<rparr>)) = Some (Inr (), Some run) \<and>
     ar_status run = RunWaiting \<and>
     resume_run (obliging Finished) Map.empty (Some (sample_graph\<lparr>gr_nodes := [prompt_node ''a''], gr_edges := []\<rparr>)) run = Some (Inr (), run') \<and>
     ar_status run' = RunSucceeded \<and> map rs_status (ar_steps run') = [StepWaiting]"
proof -
  let ?g = "sample_graph\<lparr>gr_nodes := [prompt_node ''a''], gr_edges := []\<rparr>"
  let ?step = "\<lparr>rs_node = lit ''a'', rs_status = StepWaiting, rs_permission = None, rs_error_code = Some (lit ''automation/permission_required'')\<rparr>"
  let ?run = "\<lparr>ar_status = RunWaiting, ar_error_code = Some (lit ''automation/permission_required''), ar_steps = [?step]\<rparr>"
  have "start_graph (obliging (NeedsInput None)) (Some ?g) = Some (Inr (), Some ?run)" by code_simp
  moreover have "resume_run (obliging Finished) Map.empty (Some ?g) ?run =
      Some (Inr (), \<lparr>ar_status = RunSucceeded, ar_error_code = None, ar_steps = [?step]\<rparr>)" by code_simp
  ultimately show ?thesis by auto
qed

text \<open>An approval gate whose session cannot be made leaves the run and its step running, where a prompt would
  fail both; such a run can be neither resumed nor started again.\<close>

lemma gate_error_leaves_running:
  assumes "an_config n = ApprovalGate title" "mg_gate manager n = GateError e"
  shows "\<exists>run'. execute_node manager run n = (Inl e, run') \<and> ar_status run' = ar_status run \<and> rs_status (last (ar_steps run')) = StepRunning"
  using assms by (simp add: execute_node_def execute_approval_gate_node_def create_running_step_def Let_def)

text \<open>A run that is canceled while its nodes run goes on, for the runner never reads the status again; when the
  remaining nodes finish, the run is stored as succeeded.\<close>

lemma canceled_run_overwritten:
  assumes "cancel_run run = Inr canceled" and "\<forall>n \<in> set ns. (\<exists>t. an_config n = AgentPrompt t) \<and> mg_prompt manager n = Finished"
  shows "ar_status canceled = RunCanceled" and "ar_status (snd (run_nodes manager ns canceled)) = RunSucceeded"
proof -
  show "ar_status canceled = RunCanceled" using assms(1) by (auto simp: cancel_run_def split: if_splits)
  show "ar_status (snd (run_nodes manager ns canceled)) = RunSucceeded"
    using assms(2) by (induction ns arbitrary: canceled) (auto simp: execute_node_def execute_agent_prompt_node_def Let_def)
qed

end
