(* ===== verification/Spec2Isabelle.thy ===== *)
theory Spec2Isabelle
  imports Classifier Limiter Wire Remote_Queue Computer_Guards Session_Group Automation
begin

text \<open>
  \<^bold>\<open>vibex.\<close> vibex runs coding agents. This development models the services that decide what
  an agent's request, event or action may do.

  \<^bold>\<open>The model gateway\<close> is a local HTTP service that
  takes the model requests of agents in any of four wire protocols (Chat Completions, Responses, Anthropic
  Messages, Gemini), finds a Provider and a Key that can answer, translates where the protocols
  differ, fails over, and accounts for what happened:
  \<open>crates/model-gateway\<close> with its contracts in \<open>crates/core\<close> (\<open>model_gateway.rs\<close>,
  \<open>model_route.rs\<close>) and its tables in \<open>crates/db/src/model_gateway.rs\<close>.

  \<^bold>\<open>The remote client\<close> follows the events of a desktop from another device. \<open>Remote_Sync\<close> is the
  engine that decides about an event by the cursor of its domain
  (\<open>vibex-remote-client/src/sync.rs\<close>), \<open>Remote_Queue\<close> the bounded queue between the socket and the
  consumer that uses it (\<open>transport.rs\<close>).

  \<^bold>\<open>Desktop control\<close> lets an agent operate applications. \<open>Computer_Policy\<close> is the risk model and
  the gate (\<open>core/src/computer.rs\<close>, \<open>computer/src/policy.rs\<close>, \<open>service.rs\<close>),
  \<open>Computer_Guards\<close> the loop guard and the guard against the runtime's own window
  (\<open>loopguard.rs\<close>, \<open>selfguard.rs\<close>).

  \<^bold>\<open>Session groups\<close> show several agent sessions in a tree of panes: \<open>Session_Group\<close>
  (\<open>desktop-model/src/session_group.rs\<close>).

  \<^bold>\<open>Scheduled tasks and automations\<close> start agents without a user. \<open>Agent_Schedule\<close> computes when a
  task runs next (\<open>agent/src/scheduler.rs\<close>), \<open>Automation\<close> orders the nodes of a graph and follows a run
  through waiting, resuming and canceling (\<open>agent/src/automation.rs\<close>).

  \<^bold>\<open>Life of a request of the gateway and the theory of each part.\<close>
  \<^item> \<open>server.rs\<close>: \<open>serve\<close> guards the perimeter, prepares, attempts, waits and retries while the
    route is patient, then hands the reply back: \<open>Serve\<close> (\<open>serve\<close>, \<open>serve_open\<close>,
    \<open>serve_loop\<close>, \<open>retry_turn\<close>, \<open>perimeter\<close>, \<open>gemini_call\<close>). The schedule of the waits and
    the whole error surface of \<open>error.rs\<close>: \<open>Gateway_Error\<close>.
  \<^item> \<open>service.rs\<close>, reading the tables: \<open>Snapshot\<close> (\<open>read_snapshot\<close>, \<open>model_catalog\<close>,
    \<open>group_for_model\<close>).
  \<^item> \<open>service.rs\<close>, \<open>prepare\<close>: the members of the group, pins, rules, ceilings, the Keys of each
    member and the admission by the group's breaker: \<open>Prepare\<close> on the state \<open>gateway_state\<close>.
    Which protocol a member is called in, at which address and with which body: \<open>Upstream_Call\<close>.
    The order of Keys and members, classification of failures (\<open>route.rs\<close>): \<open>Route_Plan\<close>.
    Routes, their rules and their validation (\<open>model_route.rs\<close>): \<open>Model_Route\<close>. The request the
    route's classifier is asked with, its reply and the cache of the snapshot: \<open>Classifier\<close>.
  \<^item> \<open>service.rs\<close>, \<open>open_attempt\<close>: the walk over members, Keys and protocols, the failover
    prompt, the ledger: \<open>Attempt\<close>. Per-account concurrency and rate (\<open>limit.rs\<close>): \<open>Limiter\<close>.
    Breakers, in-flight table, published status: \<open>Breaker\<close>. Key states, token windows and pins
    (\<open>db/src/model_gateway.rs\<close>): \<open>Key_Health\<close>. The contracts they store
    (\<open>core/src/model_gateway.rs\<close>): \<open>Gateway_Core\<close>.
  \<^item> \<open>service.rs\<close>, \<open>forward\<close> and \<open>gather\<close>: \<open>Reply\<close>. Event streams and the reply
    accumulator (\<open>stream.rs\<close>, \<open>wire/mod.rs\<close>): \<open>Sse_Stream\<close>. Tool names
    (\<open>tool_names.rs\<close>): \<open>Tool_Names\<close>. The intermediate representation (\<open>ir.rs\<close>):
    \<open>Canonical_IR\<close>.
  \<^item> \<open>wire/\<close>: the four codecs. \<open>Wire_Json\<close> has what they share, \<open>Wire_Stream\<close> the contract of a
    stream codec (locale \<open>stream_codec_law\<close>: what an encoder writes for the next event of a reply
    its decoder reads back, so that both ends keep the same accumulated reply), \<open>Wire_Anthropic\<close>,
    \<open>Wire_Chat\<close>, \<open>Wire_Responses\<close> and \<open>Wire_Gemini\<close> one codec each with its interpretation
    of the locale, and \<open>Wire\<close> the dispatch: \<open>wire_codec\<close> is the codec the reply path of
    \<open>Reply\<close> is instantiated with, \<open>build_upstream_request\<close> the builder for \<open>Upstream_Call\<close>.
  \<^item> \<open>Vibex_Prelude\<close> holds text, saturating integers and list lemmas; \<open>Interfaces\<close> the locales
    \<open>id_codec\<close>, \<open>permuting\<close>, \<open>partial_order_of\<close> and \<open>invariant_machine\<close>, each
    interpreted where a component provides it.

  \<^bold>\<open>Conventions.\<close> A handler takes the state record and returns it updated; errors are the left of a
  sum; a string is a list of Unicode scalar values and a byte stream a list of numbers below 256;
  \<open>u64\<close> counters saturate or wrap as the code says. Clocks, replies of upstreams, secrets, a
  departing client and the classifier's answer are arguments, so that a theorem holds for every
  behaviour of the outside. JSON text functions, the conversion of floating-point numbers, SHA-256
  and \<open>to_lowercase\<close> are parameters; of the JSON library the codecs rely on \<open>json_text_laws\<close>: a
  printed value is one line and reads back as itself. Objects keep the order of their fields, as
  \<open>serde_json\<close> does when built on \<open>indexmap\<close> (\<open>Cargo.lock\<close>). The tables answer; a
  poisoned lock does not occur.

  \<^bold>\<open>What is shown.\<close> Selection: a plan and a prepared member offer exactly the Keys that can answer,
  round robin shares fairly in its counter, rules and pins reorder and never drop. Limits: requests in flight and
  starts per minute stay within the account's limits, in FIFO order. Health: a rejected Key is not
  attempted again (below, over whole requests; the classifier alone reads a cached snapshot), one probe at a time, no request keeps a probe slot, a
  failed request counts once. Replies: a passthrough is verbatim, a translation is that of the whole
  text however it arrived, tool names come back as the client knows them, and a client that
  reads its own protocol rebuilds the reply the upstream streamed in another, with its call in fragments (theorem
  \<open>translated_reply_reaches_client\<close>). Requests in the form of the protocol survive being built and read in the Anthropic and
  Chat protocols up to what each can say. Progress: the retry loop
  ends (fuel 12 for at most ten retries, which is what the longest patience a route may have leaves
  room for, theorem \<open>serve_always_ends\<close>). Remote client: an event is handed on at most once and in order, and a consumer that
  was not told to fetch anew hears no gap as long as its queue has room and a new socket finds it read. Desktop control: a forbidden target is refused whatever was
  approved, nothing risky proceeds without an approval that covers its most severe class, the word
  scan and the self guard find exactly what they look for, and when the loop guard warns. Session groups: however a group is
  used each member stays in exactly one pane, and the shares of a split fill it. Automations: the
  order of a graph's nodes is found exactly when it has no cycle, nodes start once and after their
  sources, and a task's next run is the first of its schedule. Where the
  code falls short of its intent, a lemma says exactly when (dropped waiters, abandoned probes, CRLF
  streams, tool arguments that arrive whole, events dropped from a full queue, loop shapes that are never reported and others).

  \<^bold>\<open>Not modelled.\<close> Of the gateway: the agent's identity in the headers, the JSON rendering of errors,
  the HTTP client, SQL statements and the user interface's summaries. Of the remote
  client: sockets, handshakes, ciphers, calls and binary frames. Of desktop control: the driver and its
  helper process, screenshots and the tool server. Of
  automations: sessions, times and diagnostics of a run and runners that race on one run. The other parts of vibex (agent processes, desktop
  and mobile applications, the database, pairing of devices) are listed in the manifest with the
  reason of each.
\<close>

section \<open>Samples\<close>

definition sample_turn :: "nat \<Rightarrow> turn" where
  "sample_turn k = \<lparr>tn_snapshot = sample_chat_snapshot, tn_request = Inl (UpstreamError 502 []), tn_members = (\<lambda>_. sample_world 500),
     tn_shutting_down = False, tn_recorded_at = 3, tn_instant = int (slept k)\<rparr>"

definition sample_serve :: serve_config where
  "sample_serve = \<lparr>sf_build = no_codec, sf_hash = (\<lambda>_. 0), sf_walk = sample_config, sf_limit = None\<rparr>"

definition sample_request :: http_request where
  "sample_request = \<lparr>hr_protocol = ChatCompletions, hr_headers = (\<lambda>_. Some (lit ''localhost:8080'')), hr_origin = False,
     hr_body = Some (JObject [(lit ''model'', JString (lit ''group/g/m''))]), hr_agent = None, hr_refusal_id = lit ''r'', hr_now = 0, hr_failed_at = 9\<rparr>"

lemma sample_admitted: "perimeter (hr_headers sample_request) (hr_origin sample_request) = Inr ()"
  by code_simp

lemma sample_served:
  "\<exists>gw'. serve_open sample_serve sample_request sample_turn gw = Some (gw', [], ServedError (UpstreamError 502 []))"
  by (simp add: serve_open_def sample_admitted prepare_turn_def sample_turn_def Let_def)

definition second_key :: credential_ref where
  "second_key = \<lparr>cd_id = lit ''k2'', cd_display_name = lit ''K2'', cd_models = [], cd_proxy_url = None\<rparr>"

definition two_keys :: gateway_snapshot where
  "two_keys = (sample_chat_snapshot\<lparr>sn_upstreams := map (\<lambda>u. u\<lparr>up_credentials := [sample_key, second_key]\<rparr>) (sn_upstreams sample_chat_snapshot),
     sn_groups := [(lit ''g'', \<lparr>gg_group_id = lit ''g'', gg_display_name = lit ''G'', gg_strategy = Ordered, gg_key_strategy = KeysOrdered,
       gg_first_token_timeout_ms = None, gg_pin = PinOff, gg_failover = FailoverAuto, gg_token_limit = None,
       gg_providers = [\<lparr>mf_member_id = Some (lit ''m1''), mf_profile = lit ''p'', mf_model = lit ''m'', mf_reasoning_effort = None, mf_weight = 1,
          mf_context_tokens = None, mf_first_token_timeout_ms = None\<rparr>],
       gg_models = [\<lparr>gm_model = lit ''m'', gm_providers = [lit ''p'']\<rparr>], gg_agent_model_id = Some (lit ''m''), gg_rules = [], gg_classifier = None,
       gg_effort = None, gg_patience_ms = Some 10000, gg_sink = False, gg_unlists = False, gg_levels = [], gg_pick_member_id = None\<rparr>)]\<rparr>)"

definition group_turn :: "nat \<Rightarrow> nat \<Rightarrow> turn" where
  "group_turn status k = \<lparr>tn_snapshot = two_keys, tn_request = Inr (sample_incoming\<lparr>in_request := for_model (lit ''group/g/m'')\<rparr>),
     tn_members = (\<lambda>_. sample_world status), tn_shutting_down = False, tn_recorded_at = 3, tn_instant = int (slept k)\<rparr>"

text \<open>A gateway whose breakers are those of \<open>sv\<close> and where the first Key was rejected.\<close>

definition fresh_gateway :: "service_state \<Rightarrow> gateway_state" where
  "fresh_gateway sv = sample_gateway\<lparr>gw_service := sv, gw_accounts := mark_failure [] Map.empty (lit ''p'') (lit ''k'') Auth 5\<rparr>"

abbreviation group_request :: incoming where
  "group_request \<equiv> sample_incoming\<lparr>in_request := for_model (lit ''group/g/m'')\<rparr>"

lemma sample_group_ref: "route_group_model_ref (lit ''group/g/m'') = Some (lit ''g'', lit ''m'')"
  by (simp add: route_group_model_ref_def ROUTE_GROUP_MODEL_PREFIX_def trim_def trim_where_def is_whitespace_def)

lemma sample_resolution: "\<exists>d. resolve_request two_keys group_request (fresh_gateway sv) = (1, Inr ([\<lparr>rv_profile = lit ''p'', rv_model = lit ''m'', rv_reasoning_effort = None,
     rv_first_token_timeout_ms = None, rv_key_strategy = KeysOrdered\<rparr>], d))"
 unfolding resolve_request_def resolve_members_def
 by (simp add: Let_def sample_incoming_def for_model_def request_group_def resolved_group_id_def sample_group_ref  group_for_model_def model_of_def two_keys_def
   classifier_answer_def forced_effort_def classified_decision_def classifies_def plan_members_def ordered_members_def first_matching_rule_def next_counter_def U64_MAX_def hoist_pinned_def live_member_def conversation_scope_def sample_gateway_def fresh_gateway_def del: lit_simps)

abbreviation only_member :: resolved_member where
  "only_member \<equiv> \<lparr>rv_profile = lit ''p'', rv_model = lit ''m'', rv_reasoning_effort = None,
     rv_first_token_timeout_ms = None, rv_key_strategy = KeysOrdered\<rparr>"

abbreviation only_upstream :: gateway_upstream where
  "only_upstream \<equiv> hd (sn_upstreams two_keys)"

abbreviation first_rejected :: account_store where
  "first_rejected \<equiv> mark_failure [] Map.empty (lit ''p'') (lit ''k'') Auth 5"

lemma sample_candidates: "member_candidates two_keys first_rejected 0 only_upstream (lit ''m'') = [((candidate_new (lit ''p'') (lit ''k'') 0)\<lparr>ck_ready := False, ck_cooling := Some Auth\<rparr>, sample_key),
    (candidate_new (lit ''p'') (lit ''k2'') 1, second_key)]"
    by (simp add: member_candidates_def in_scope_def key_candidate_def two_keys_def second_key_def sample_chat_snapshot_def sample_upstream_def sample_key_def
        sample_settings_def gateway_policy_default_def account_of_def account_ready_def visibility_at_def Let_def enumerate_eq_zip mark_failure_lookup store_wf_empty)

abbreviation key_request :: route_request where
  "key_request \<equiv> \<lparr>rq_candidates = map fst (member_candidates two_keys first_rejected 0 only_upstream (lit ''m'')),
     rq_strategy = KeysOrdered, rq_rotation = 0, rq_pinned = None\<rparr>"

lemma sample_plan: "attemptable (plan_route key_request)
   = [candidate_new (lit ''p'') (lit ''k2'') 1]"
   unfolding sample_candidates by (simp add: ready_order_def pin_hit_def pin_matches_def position_None_iff sort_ready_def selectable_def over_token_limit_def candidate_new_def Let_def)

definition second_only :: "prepared_member \<Rightarrow> bool" where
 "second_only m \<longleftrightarrow> pm_profile_id m = lit ''p'' \<and> map (ck_credential o fst) (pm_keys m) = [lit ''k2''] \<and> pm_alternates m = [] \<and> pm_target m = ChatCompletions \<and> ep_url (pm_endpoint m) = lit ''https://p'' \<and> pm_first_token_timeout_ms m = None"

abbreviation group_rx :: "tool_name_map \<Rightarrow> request_context" where
  "group_rx names \<equiv> \<lparr>rx_inbound = ChatCompletions, rx_request = for_model (lit ''group/g/m''), rx_body = JObject [],
     rx_pinned = None, rx_now = 0, rx_tool_names = names\<rparr>"

lemma sample_target_plan: "\<exists>e. member_target two_keys (group_rx names) only_upstream None
   = Inr (\<lparr>tp_target = ChatCompletions, tp_passthrough = True, tp_alternates = []\<rparr>, e) \<and> ep_url e = lit ''https://p''"
  by (simp add: member_target_def two_keys_def sample_chat_snapshot_def sample_upstream_def choose_target_def supports_def endpoint_for_def endpoint_for_call_def for_model_def has_vendor_file_image_def ok_or_def del: lit_simps)

lemma sample_prepared: "\<exists>m. prepare_member no_codec two_keys (group_rx names) first_rejected only_member (no_lessons, 0)
  = ((no_lessons, 1), Inr m) \<and> second_only m"
proof -
  let ?rx = "(group_rx names)"
  have up: "snapshot_upstream two_keys (lit ''p'') = Some only_upstream"
    by (simp add: snapshot_upstream_def two_keys_def sample_chat_snapshot_def sample_upstream_def)
  have un: "untyped_endpoint only_upstream = None"
    by (simp add: untyped_endpoint_def two_keys_def sample_chat_snapshot_def sample_upstream_def)
  obtain e where e: "member_target two_keys ?rx only_upstream None
   = Inr (\<lparr>tp_target = ChatCompletions, tp_passthrough = True, tp_alternates = []\<rparr>, e)" "ep_url e = lit ''https://p''" using sample_target_plan by blast
  have keys: "planned_keys (member_candidates two_keys first_rejected 0 only_upstream (lit ''m'')) (plan_route key_request)
     = [(candidate_new (lit ''p'') (lit ''k2'') 1, second_key)]"
     unfolding planned_keys_def sample_plan unfolding sample_candidates by (simp add: map_filter_simps candidate_new_def)
  have cn: "ck_credential (candidate_new p c i) = c" for p c i by (simp add: candidate_new_def)
  note k = keys [unfolded sample_candidates list.map fst_conv] sample_plan [unfolded sample_candidates list.map fst_conv]
  show ?thesis
    using up un e
    by (simp add: second_only_def prepare_member_def Let_def sample_candidates assemble_member_def member_key_plan_def k cn build_member_body_def member_request_def next_counter_def U64_MAX_def
       del: lit_simps attemptable_plan)
qed

lemma sample_prepared_call:
  assumes ad: "begin_attempt (sv_breakers sv) (lit ''g'') = (bs, Inr probe)"
  shows "\<exists>gw1 pc. prepare_turn sample_serve (group_turn status k) (fresh_gateway sv) = (gw1, Inr pc) \<and> pc_group_id pc = Some (lit ''g'') \<and>
   pc_probe pc = probe \<and> sv_breakers (gw_service gw1) = bs \<and> (\<exists>m. pc_members pc = [m] \<and> second_only m)"
proof -
  obtain d where d: "resolve_request two_keys group_request (fresh_gateway sv) = (1, Inr ([only_member], d))" using sample_resolution by blast
  obtain m where m: "prepare_member no_codec two_keys (group_rx (tool_names_build (\<lambda>_. 0) (for_model (lit ''group/g/m'')))) first_rejected only_member (no_lessons, 0)
  = ((no_lessons, 1), Inr m)" "second_only m"
    using sample_prepared [of "tool_names_build (\<lambda>_. 0) (for_model (lit ''group/g/m''))"] by (elim exE conjE)
  have c: "token_ceiling two_keys (for_model (lit ''group/g/m'')) = None"
    by (simp add: token_ceiling_def request_group_def resolved_group_id_def for_model_def sample_group_ref two_keys_def sample_chat_snapshot_def sample_settings_def gateway_policy_default_def del: lit_simps)
  have rg: "resolved_group_id (cr_model (for_model (lit ''group/g/m''))) = Some (lit ''g'')" by (simp add: resolved_group_id_def for_model_def sample_group_ref del: lit_simps)
  have lm: "live_member two_keys group_request [] = None" by (simp add: live_member_def conversation_scope_def request_group_def rg two_keys_def sample_incoming_def Let_def del: lit_simps)
  have pc: "prepare no_codec (\<lambda>_. 0) two_keys group_request (fresh_gateway sv) = prepare_call no_codec (\<lambda>_. 0) two_keys group_request None (snd (conversation_scope two_keys group_request)) (fst (conversation_scope two_keys group_request)) [only_member] d ((fresh_gateway sv)\<lparr>gw_member_rotation := 1\<rparr>)"
    using d c lm by (simp add: prepare_def fresh_gateway_def sample_gateway_def sample_incoming_def del: lit_simps)
  have "\<exists>gw1 pc. prepare no_codec (\<lambda>_. 0) two_keys group_request (fresh_gateway sv) = (gw1, Inr pc) \<and> pc_group_id pc = Some (lit ''g'') \<and>
      pc_probe pc = probe \<and> sv_breakers (gw_service gw1) = bs \<and> (\<exists>m. pc_members pc = [m] \<and> second_only m)"
    unfolding pc using m ad rg
    by (simp add: prepare_call_def admit_def Let_def fresh_gateway_def sample_gateway_def sample_incoming_def del: lit_simps)
  then show ?thesis by (simp add: prepare_turn_def group_turn_def sample_serve_def del: lit_simps)
qed

lemma sample_url: "endpoint_url (lit ''https://p'') ChatCompletions mo st = Inr (lit ''https://p/v1/chat/completions'')"
  by (simp add: endpoint_url_def trim_end_slashes_def trim_def trim_where_def is_whitespace_def Let_def join_version_def ends_with_def strip_suffix_def)

lemma sample_sent:
  assumes "begin_attempt (sv_breakers sv) (lit ''g'') = (bs, Inr probe)"
  shows "\<exists>gw' call a ob. serve_open sample_serve sample_request (group_turn 200) (fresh_gateway sv) = Some (gw', [ob], ServedCall call a)"
proof -
  obtain gw1 pc m where p: "prepare_turn sample_serve (group_turn 200 0) (fresh_gateway sv) = (gw1, Inr pc)" "pc_group_id pc = Some (lit ''g'')"
    "pc_members pc = [m]" "second_only m"
    using sample_prepared_call [OF assms, of 200 0] by (elim exE conjE)
  have "\<exists>gw2 ob a. open_turn sample_serve (group_turn 200 0) pc gw1 = (gw2, [ob], Inr a)"
    using p by (simp add: second_only_def open_turn_def open_attempt_def group_turn_def sample_serve_def call_member_def open_member_attempt_def member_calls_def sample_world_def sample_config_def first_token_error_def walk_start_def Let_def is_success_def sample_url del: lit_simps)
  then obtain gw2 ob a where o: "open_turn sample_serve (group_turn 200 0) pc gw1 = (gw2, [ob], Inr a)" by blast
  have "serve_loop 12 sf d worlds \<lparr>ss_gateway = gw2, ss_call = pc, ss_sent = [ob], ss_result = Inr a, ss_retries = 0\<rparr> =
      Some \<lparr>ss_gateway = gw2, ss_call = pc, ss_sent = [ob], ss_result = Inr a, ss_retries = 0\<rparr>" for sf d worlds
    by (simp add: numeral_eq_Suc waits_def)
  with p(1) o show ?thesis by (simp add: serve_open_def sample_admitted Let_def del: lit_simps)
qed

section \<open>Properties\<close>

text \<open>C8: No request keeps a group's only probe slot: when \<open>serve\<close> returns, with the request refused,
  failed or answered after any number of retries, or with a client that left while its reply was handed
  over, every slot that is taken was taken before the request came. A request whose client leaves
  earlier, while it is prepared or attempted, does not return and is not covered: \<open>abandoned_probe_closes_group\<close>
  shows what it leaves behind.\<close>
theorem request_leaves_no_probe:
  assumes "serve env read_reply render sf rq worlds rw gw = Some (gw', sent, r)" and "probing gw' g"
  shows "probing gw g"
proof -
  obtain gw1 sent1 r1 where o: "serve_open sf rq worlds gw = Some (gw1, sent1, r1)"
    using assms(1) by (auto simp: serve_def split: option.splits)
  have "probing gw1 g"
    using assms o forward_probing gather_probing
    by (cases r1) (auto simp: serve_def Let_def split: if_splits prod.splits sum.splits)
  with serve_open_probing [OF o] show ?thesis by simp
qed

text \<open>The group is degraded and its slot is free: preparing the request takes it, and it is free again when the
  request has been answered.\<close>

theorem request_leaves_no_probe_witness:
  "\<exists>gw1 pc gw' ob r. prepare_turn sample_serve (group_turn 200 0) (fresh_gateway degraded_service) = (gw1, Inr pc) \<and>
     pc_probe pc \<and> probing gw1 (lit ''g'') \<and>
     serve sample_env (\<lambda>_ _. Inr response_default) (\<lambda>_ _. Inr JNull) sample_serve sample_request (group_turn 200)
       \<lparr>rw_body = \<lparr>rb_chunks = [], rb_ended_at = 0\<rparr>, rw_client = always, rw_started_at = 0, rw_elapsed = 0\<rparr> (fresh_gateway degraded_service)
     = Some (gw', [ob], r) \<and> \<not> probing gw' (lit ''g'')"
proof -
  let ?serve = "serve sample_env (\<lambda>_ _. Inr response_default) (\<lambda>_ _. Inr JNull) sample_serve sample_request (group_turn 200)
       \<lparr>rw_body = \<lparr>rb_chunks = [], rb_ended_at = 0\<rparr>, rw_client = always, rw_started_at = 0, rw_elapsed = 0\<rparr> (fresh_gateway degraded_service)"
  obtain gw1 pc where p: "prepare_turn sample_serve (group_turn 200 0) (fresh_gateway degraded_service) = (gw1, Inr pc)" "pc_probe pc"
    "sv_breakers (gw_service gw1) = probing_breakers"
    using sample_prepared_call [OF degraded_begin, of 200 0] by (elim exE conjE) blast
  have "\<exists>gw' ob r. ?serve = Some (gw', [ob], r)"
    using sample_sent [OF degraded_begin] by (elim exE) (auto simp: serve_def Let_def split: prod.split sum.split)
  then obtain gw' ob r where s: "?serve = Some (gw', [ob], r)" by (elim exE)
  have "\<not> probing (fresh_gateway degraded_service) (lit ''g'')"
    by (simp add: fresh_gateway_def probing_def degraded_service_def breaker_entry_def)
  with request_leaves_no_probe [OF s, of "lit ''g''"] have "\<not> probing gw' (lit ''g'')" by blast
  moreover have "probing gw1 (lit ''g'')" by (simp add: probing_def p(3) probing_breakers_def breaker_entry_def)
  ultimately show ?thesis using p(1,2) s by blast
qed

text \<open>C28: A failed request counts once: however many members and retries it took, the failure count of
  at most one group changes, by one counted failure, and only when the upstreams are to blame.\<close>
theorem failed_request_counts_once:
  assumes "serve_open sf rq worlds gw = Some (gw', sent, ServedError e)"
  shows "\<exists>h. (\<forall>g. failures gw' g = (if h = Some g
        then (br_consecutive_failures (failure_counted (breaker_entry (sv_breakers (gw_service gw)) g) (hr_failed_at rq)), hr_failed_at rq)
        else failures gw g)) \<and> (h \<noteq> None \<longrightarrow> blames_upstream e)"
proof -
  have count: "\<exists>h. (\<forall>g. failures gw' g = (if h = Some g
        then (br_consecutive_failures (failure_counted (breaker_entry (sv_breakers (gw_service gw)) g) (hr_failed_at rq)), hr_failed_at rq)
        else failures gw g)) \<and> (h \<noteq> None \<longrightarrow> blames_upstream e)"
    if "gw_service gw' = count_failed_request (gw_service x) e k (hr_failed_at rq)" "\<And>g. failures x g = failures gw g" for x k
  proof (rule exI [of _ "if blames_upstream e then k else None"], intro conjI allI)
    fix g
    have "br_consecutive_failures (failure_counted (breaker_entry (sv_breakers (gw_service x)) g) now) =
        br_consecutive_failures (failure_counted (breaker_entry (sv_breakers (gw_service gw)) g) now)" for now
      using that(2) [of g] by (simp add: failures_def failure_counted_def)
    then show "failures gw' g = (if (if blames_upstream e then k else None) = Some g
        then (br_consecutive_failures (failure_counted (breaker_entry (sv_breakers (gw_service gw)) g) (hr_failed_at rq)), hr_failed_at rq)
        else failures gw g)"
      using that(2) [of g] unfolding failures_def that(1)
      by (auto simp: count_failed_request_def note_failure_def failure_counted_def Let_def split: option.split)
  qed simp
  from assms show ?thesis
  proof (cases rule: serve_open_cases)
    case (turned_away e')
    then show ?thesis by (intro exI [of _ None]) simp
  next
    case (refused gw1 e')
    with count [of gw1] prepare_turn_state(2) [OF refused(1)] show ?thesis by simp
  next
    case (ended gw1 pc gw2 sent0 r0 s)
    have "(\<exists>x. ss_result s = Inl x) \<longrightarrow> failures (ss_gateway s) g = failures gw g" for g
    proof (rule serve_loop_inv [OF ended(3), of "\<lambda>s. (\<exists>x. ss_result s = Inl x) \<longrightarrow> failures (ss_gateway s) g = failures gw g"])
      fix s assume "(\<exists>x. ss_result s = Inl x) \<longrightarrow> failures (ss_gateway s) g = failures gw g" "waits (patience_deadline (pc_patience_ms pc) (hr_now rq)) worlds s"
      then have "failures (ss_gateway s) g = failures gw g" by (auto simp: waits_def split: sum.splits)
      then show "(\<exists>x. ss_result (retry_turn sf worlds s) = Inl x) \<longrightarrow> failures (ss_gateway (retry_turn sf worlds s)) g = failures gw g"
        by (cases rule: retry_turn_cases [of sf worlds s]) (auto simp: prepare_turn_state(2) turn_failures)
    qed (use turn_failures [OF ended(1)] ended(2) in auto)
    with count [of "ss_gateway s"] ended(6) show ?thesis by auto
  qed
qed

theorem failed_request_counts_once_witness:
  "\<exists>gw'. serve_open sample_serve sample_request sample_turn sample_gateway = Some (gw', [], ServedError (UpstreamError 502 [])) \<and>
     (\<exists>h. failures gw' (lit ''g'') = (if h = Some (lit ''g'')
        then (br_consecutive_failures (failure_counted (breaker_entry (sv_breakers (gw_service sample_gateway)) (lit ''g'')) 9), 9)
        else failures sample_gateway (lit ''g'')))"
proof -
  obtain gw' where s: "serve_open sample_serve sample_request sample_turn sample_gateway = Some (gw', [], ServedError (UpstreamError 502 []))"
    using sample_served by blast
  have "hr_failed_at sample_request = 9" by (simp add: sample_request_def)
  with s failed_request_counts_once [OF s] show ?thesis by (metis (no_types))
qed



text \<open>C14: \<open>serve\<close> always comes to an end after at most ten retries: with the patience routes may have, a
  clock that never wakes a sleeper early and whatever the upstreams answer, every request is answered,
  failed or refused, and what it is answered and leaves behind depends on its first turn and the ten
  retries after it alone, whatever the world would have been in a later one.\<close>
theorem serve_always_ends:
  assumes "sleeps (\<lambda>k. tn_instant (worlds k))" and "hr_now rq \<le> tn_instant (worlds 0)"
    and "\<forall>(i, g) \<in> set (sn_groups (tn_snapshot (worlds 0))). \<forall>p. gg_patience_ms g = Some p \<longrightarrow> p \<le> MAX_ROUTE_PATIENCE_MS"
  shows "\<exists>gw' sent r. (\<forall>worlds'. (\<forall>k \<le> 10. worlds' k = worlds k) \<longrightarrow> serve_open sf rq worlds' gw = Some (gw', sent, r)) \<and>
     (\<forall>call a. r = ServedCall call a \<longrightarrow> pc_retries call \<le> 10)"
proof -
  let ?early = "\<lambda>worlds'. \<forall>k \<le> (10::nat). worlds' k = worlds k"
  have ends: ?thesis if "\<And>worlds'. ?early worlds' \<Longrightarrow> serve_open sf rq worlds' gw = serve_open sf rq worlds gw"
    and "\<exists>gw' sent r. serve_open sf rq worlds gw = Some (gw', sent, r) \<and> (\<forall>call a. r = ServedCall call a \<longrightarrow> pc_retries call \<le> 10)"
    using that by metis
  obtain gw1 q where p: "prepare_turn sf (worlds 0) gw = (gw1, q)" by fastforce
  show ?thesis
  proof (cases "perimeter (hr_headers rq) (hr_origin rq)")
    case (Inr u)
    show ?thesis
    proof (cases q)
      case (Inr pc)
      let ?deadline = "patience_deadline (pc_patience_ms pc) (hr_now rq)"
      obtain gw2 sent r where o: "open_turn sf (worlds 0) pc gw1 = (gw2, sent, r)" by (metis prod_cases3)
      let ?s = "\<lparr>ss_gateway = gw2, ss_call = pc, ss_sent = sent, ss_result = r, ss_retries = 0\<rparr>"
      have "case pc_patience_ms pc of None \<Rightarrow> True | Some m \<Rightarrow> m \<le> MAX_ROUTE_PATIENCE_MS"
        using prepare_turn_state(6) [OF p Inr] assms(3)
        by (elim exE conjE) (fastforce simp: request_group_def bind_eq_Some_conv split: option.split dest: map_of_SomeD)
      from serve_loop_ends [OF assms(1,2) _ this, of ?s sf]
      obtain s where l: "serve_loop 12 sf ?deadline worlds ?s = Some s" "ss_retries s \<le> 10" by auto
      have same: "serve_open sf rq worlds' gw = serve_open sf rq worlds gw" if "?early worlds'" for worlds'
      proof -
        have "serve_loop 12 sf ?deadline worlds' ?s = Some s" using that l(2) by (intro serve_loop_local [OF l(1)]) simp_all
        with that show ?thesis using p o Inr l(1) \<open>perimeter (hr_headers rq) (hr_origin rq) = Inr u\<close> by (simp add: serve_open_def)
      qed
      have "\<exists>gw' sent r. serve_open sf rq worlds gw = Some (gw', sent, r) \<and> (\<forall>call a. r = ServedCall call a \<longrightarrow> pc_retries call \<le> 10)"
        using p o Inr l \<open>perimeter (hr_headers rq) (hr_origin rq) = Inr u\<close>
        by (cases "ss_result s") (simp_all add: serve_open_def Let_def)
      with same show ?thesis by (rule ends)
    qed (rule ends; use p Inr in \<open>simp add: serve_open_def Let_def\<close>)
  qed (rule ends; simp add: serve_open_def)
qed

text \<open>A clock that shows, when a retry starts, exactly the sum of the sleeps so far, and a request that is
  turned away: the turn after the tenth retry changes nothing.\<close>

theorem serve_always_ends_witness:
  "\<exists>gw' sent r. serve_open sample_serve sample_request sample_turn sample_gateway = Some (gw', sent, r) \<and>
     serve_open sample_serve sample_request (sample_turn(11 := group_turn 200 0)) sample_gateway = Some (gw', sent, r)"
proof -
  have "sleeps (\<lambda>k. tn_instant (sample_turn k))" using sample_clock by (simp add: sample_turn_def)
  moreover have "hr_now sample_request \<le> tn_instant (sample_turn 0)" by (simp add: sample_request_def sample_turn_def)
  moreover have "\<forall>(i, g) \<in> set (sn_groups (tn_snapshot (sample_turn 0))). \<forall>p. gg_patience_ms g = Some p \<longrightarrow> p \<le> MAX_ROUTE_PATIENCE_MS"
    by (simp add: sample_turn_def sample_chat_snapshot_def)
  ultimately obtain gw' sent r where "\<And>worlds'. \<forall>k \<le> 10. worlds' k = sample_turn k \<Longrightarrow>
      serve_open sample_serve sample_request worlds' sample_gateway = Some (gw', sent, r)"
    using serve_always_ends [of sample_turn sample_request sample_serve sample_gateway] by blast
  from this [of sample_turn] this [of "sample_turn(11 := group_turn 200 0)"] show ?thesis by simp
qed

end
